(* ===== verification/Prelude.thy ===== *)
theory Prelude
  imports Main "HOL-Library.Word" "HOL-Library.Sublist"
begin

text \<open>
  Shared vocabulary of the development: the machine types the sources use, the few
  operations of WTF's Vector that every component calls, and two interfaces that
  several components provide:
  \<^item> \<open>invariant_system\<close>: a step relation with an invariant that holds at the start and
    that every step keeps; it then holds after any run;
  \<^item> \<open>byte_codec\<close>: an encoder into bytes with a decoder that returns the value and
    the bytes after it; a file of encoded entries then decodes to the entries.
\<close>

unbundle bit_operations_syntax

section \<open>Machine types\<close>

type_synonym byte = "8 word"
type_synonym u32 = "32 word"
type_synonym i32 = "32 word"
type_synonym i64 = "64 word"
type_synonym u64 = "64 word"

named_theorems codec_simps \<open>laws of the byte encoders\<close>
named_theorems vector_simps \<open>laws of WTF Vector operations\<close>

section \<open>Vector\<close>

text \<open>\<open>Vector::remove(position)\<close>: every later element moves down by one.\<close>

definition vector_remove :: "nat \<Rightarrow> 'a list \<Rightarrow> 'a list" where
  "vector_remove i xs = take i xs @ drop (Suc i) xs"

lemma vector_remove_Cons_0 [simp, vector_simps]: "vector_remove 0 (x # xs) = xs"
  by (simp add: vector_remove_def)

lemma vector_remove_Cons_Suc [simp, vector_simps]:
  "vector_remove (Suc i) (x # xs) = x # vector_remove i xs"
  by (simp add: vector_remove_def)

lemma length_vector_remove [vector_simps]:
  "i < length xs \<Longrightarrow> length (vector_remove i xs) = length xs - 1"
  by (simp add: vector_remove_def)

lemma vector_remove_append [vector_simps]:
  "vector_remove (length xs) (xs @ y # ys) = xs @ ys"
  by (simp add: vector_remove_def)

lemma set_vector_remove: "set (vector_remove i xs) \<subseteq> set xs"
  by (auto simp: vector_remove_def dest: in_set_takeD in_set_dropD)

lemma vector_remove_split:
  assumes "i < length xs"
  shows "xs = take i xs @ xs ! i # drop (Suc i) xs"
    and "vector_remove i xs = take i xs @ drop (Suc i) xs"
  using assms by (simp_all add: id_take_nth_drop vector_remove_def)

lemma distinct_vector_remove: "distinct xs \<Longrightarrow> distinct (vector_remove i xs)"
  unfolding vector_remove_def
  by (simp add: distinct_take distinct_drop set_take_disj_set_drop_if_distinct)

lemma set_vector_remove_distinct:
  assumes "distinct xs" "i < length xs"
  shows "set (vector_remove i xs) = set xs - {xs ! i}"
proof -
  have "xs = take i xs @ xs ! i # drop (Suc i) xs"
    using assms(2) by (rule vector_remove_split(1))
  then obtain as bs where "xs = as @ xs ! i # bs" "as = take i xs" "bs = drop (Suc i) xs"
    by blast
  with assms(1) show ?thesis
    unfolding vector_remove_def by (metis Diff_insert_absorb Un_iff Un_insert_right
        distinct.simps(2) distinct_append list.simps(15) not_distinct_conv_prefix
        distinct_append set_append disjoint_insert(1))
qed

section \<open>Step relations with an invariant\<close>

locale invariant_system =
  fixes start :: "'s \<Rightarrow> bool"
    and step :: "'s \<Rightarrow> 's \<Rightarrow> bool"
    and inv :: "'s \<Rightarrow> bool"
  assumes inv_start: "start s \<Longrightarrow> inv s"
    and inv_step: "inv s \<Longrightarrow> step s t \<Longrightarrow> inv t"
begin

lemma inv_run: "step\<^sup>*\<^sup>* s t \<Longrightarrow> inv s \<Longrightarrow> inv t"
  by (induction rule: rtranclp_induct) (auto intro: inv_step)

lemma inv_reachable: "start s \<Longrightarrow> step\<^sup>*\<^sup>* s t \<Longrightarrow> inv t"
  using inv_run inv_start by blast

end

section \<open>Byte codecs\<close>

text \<open>The decoder returns the value and the bytes after it, or None for a read outside the buffer.\<close>

locale byte_codec =
  fixes enc :: "'a \<Rightarrow> byte list"
    and dec :: "byte list \<Rightarrow> ('a \<times> byte list) option"
    and ok :: "'a \<Rightarrow> bool"
  assumes dec_enc: "ok x \<Longrightarrow> dec (enc x @ rest) = Some (x, rest)"
begin

lemma enc_inject: "ok x \<Longrightarrow> ok y \<Longrightarrow> enc x = enc y \<Longrightarrow> x = y"
  by (metis Pair_inject dec_enc option.inject)

lemma enc_prefix_free: "ok x \<Longrightarrow> ok y \<Longrightarrow> enc x @ xs = enc y @ ys \<Longrightarrow> x = y \<and> xs = ys"
  by (metis Pair_inject dec_enc option.inject)

text \<open>
  A loop that decodes entries until the buffer is empty, with any state it updates per entry:
  on a concatenation of encodings it sees exactly the encoded entries, in order.
\<close>

lemma decode_loop:
  assumes step: "\<And>s x rest. ok x \<Longrightarrow> enc x @ rest \<noteq> [] \<Longrightarrow> loop s (enc x @ rest) = loop (f s x) rest"
    and fin: "\<And>s. loop s [] = Some s"
    and ne: "\<And>x. ok x \<Longrightarrow> enc x \<noteq> []"
  shows "\<forall>x \<in> set xs. ok x \<Longrightarrow> loop s (concat (map enc xs)) = Some (foldl f s xs)"
  by (induction xs arbitrary: s) (simp_all add: step fin ne)

end

end
