(* ===== verification/UTF8.thy ===== *)
theory UTF8
  imports Prelude
begin

text \<open>
  The UTF-8 conversions of WTF (\<open>wtf/unicode/UTF8.cpp\<close>) and the two String operations the
  port calls on them, \<open>String::utf8\<close> and \<open>String::fromUTF8\<close>. A 16-bit String is the
  list of its UTF-16 code units. The loops keep the source's results (illegal source,
  exhausted source, exhausted target) and its limit on the target buffer, so that the
  assertion of \<open>String::utf8\<close> about its buffer is a theorem and not an assumption.
\<close>

type_synonym uchar = "16 word"
type_synonym wtf_string = "uchar list"

definition of_latin1 :: "string \<Rightarrow> wtf_string" where
  "of_latin1 s = map (\<lambda>c. word_of_int (int (of_char c))) s"

section \<open>Encoding\<close>

datatype ConversionResult = conversionOK | sourceExhausted | targetExhausted | sourceIllegal

definition firstByteMark :: "int list" where
  "firstByteMark = [0x00, 0x00, 0xC0, 0xE0, 0xF0, 0xF8, 0xFC]"

definition replacementCharacter :: int where
  "replacementCharacter = 0xFFFD"

text \<open>
  The fall-through \<open>switch (bytesToWrite)\<close>: the trailing bytes are written backwards, six
  bits at a time, then the first byte with its mark.
\<close>

fun write_sequence :: "int \<Rightarrow> nat \<Rightarrow> int \<Rightarrow> byte list \<Rightarrow> byte list" where
  "write_sequence mark 0 ch acc = acc"
| "write_sequence mark (Suc 0) ch acc = word_of_int (ch OR mark) # acc"
| "write_sequence mark (Suc (Suc n)) ch acc =
     write_sequence mark (Suc n) (drop_bit 6 ch) (word_of_int ((ch OR 0x80) AND 0xBF) # acc)"

definition bytesToWrite :: "int \<Rightarrow> nat" where
  "bytesToWrite ch =
     (if ch < 0x80 then 1 else if ch < 0x800 then 2 else if ch < 0x10000 then 3
      else if ch < 0x110000 then 4 else 3)"

definition encode_char :: "int \<Rightarrow> byte list" where
  "encode_char ch0 =
     (let n = bytesToWrite ch0; ch = (if ch0 < 0x110000 then ch0 else replacementCharacter)
      in write_sequence (firstByteMark ! n) n ch [])"

text \<open>One turn of the loop of \<open>convertUTF16ToUTF8\<close> up to the choice of the character.\<close>

datatype utf16_read = ReadIllegal | ReadExhausted | ReadChar int "uchar list"

fun read_utf16 :: "bool \<Rightarrow> uchar \<Rightarrow> uchar list \<Rightarrow> utf16_read" where
  "read_utf16 strict c rest =
     (let ch = uint c in
      if 0xD800 \<le> ch \<and> ch \<le> 0xDBFF then
        (case rest of
           [] \<Rightarrow> ReadExhausted
         | c2 # rest2 \<Rightarrow>
             let ch2 = uint c2 in
             if 0xDC00 \<le> ch2 \<and> ch2 \<le> 0xDFFF
             then ReadChar (push_bit 10 (ch - 0xD800) + (ch2 - 0xDC00) + 0x10000) rest2
             else if strict then ReadIllegal
             else ReadChar ch rest)
      else if strict \<and> 0xDC00 \<le> ch \<and> ch \<le> 0xDFFF then ReadIllegal
      else ReadChar ch rest)"

lemma read_utf16_shorter: "read_utf16 strict c rest = ReadChar ch rest' \<Longrightarrow> length rest' \<le> length rest"
  by (auto simp: Let_def split: if_splits list.splits)

text \<open>
  \<open>convertUTF16ToUTF8\<close>: the result, the part of the source that was not consumed and the
  bytes written; \<open>cap\<close> is the room left in the target.
\<close>

function convertUTF16ToUTF8 ::
    "bool \<Rightarrow> nat \<Rightarrow> uchar list \<Rightarrow> ConversionResult \<times> uchar list \<times> byte list" where
  "convertUTF16ToUTF8 strict cap [] = (conversionOK, [], [])"
| "convertUTF16ToUTF8 strict cap (c # cs) =
     (case read_utf16 strict c cs of
        ReadIllegal \<Rightarrow> (sourceIllegal, c # cs, [])
      | ReadExhausted \<Rightarrow> (sourceExhausted, c # cs, [])
      | ReadChar ch rest \<Rightarrow>
          if cap < bytesToWrite ch then (targetExhausted, c # cs, [])
          else (let (r, src, out) = convertUTF16ToUTF8 strict (cap - bytesToWrite ch) rest
                in (r, src, encode_char ch @ out)))"
  by pat_completeness auto
termination
  by (relation "measure (\<lambda>(strict, cap, cs). length cs)")
     (auto dest!: read_utf16_shorter simp del: read_utf16.simps)

text \<open>The fast path for 8-bit strings.\<close>

fun convertLatin1ToUTF8 :: "nat \<Rightarrow> byte list \<Rightarrow> ConversionResult \<times> byte list \<times> byte list" where
  "convertLatin1ToUTF8 cap [] = (conversionOK, [], [])"
| "convertLatin1ToUTF8 cap (c # cs) =
     (let ch = uint c; n = (if ch < 0x80 then 1 else 2) in
      if cap < n then (targetExhausted, c # cs, [])
      else (let (r, src, out) = convertLatin1ToUTF8 (cap - n) cs
            in (r, src, write_sequence (firstByteMark ! n) n ch [] @ out)))"

definition putUTF8Triple :: "uchar \<Rightarrow> byte list" where
  "putUTF8Triple c =
     (let ch = uint c in
      [word_of_int ((drop_bit 12 ch AND 0x0F) OR 0xE0),
       word_of_int ((drop_bit 6 ch AND 0x3F) OR 0x80),
       word_of_int ((ch AND 0x3F) OR 0x80)])"

text \<open>
  \<open>String::utf8\<close> of a 16-bit string; \<open>None\<close> is the null CString of a strict conversion
  that failed.
\<close>

definition String_utf8 :: "bool \<Rightarrow> wtf_string \<Rightarrow> byte list option" where
  "String_utf8 strict s =
     (if s = [] then Some []
      else if (2 ^ 32 - 1) div 3 < int (length s) then None
      else
        (case convertUTF16ToUTF8 strict (3 * length s) s of
           (sourceIllegal, src, out) \<Rightarrow> None
         | (sourceExhausted, src, out) \<Rightarrow>
             if strict then None else Some (out @ putUTF8Triple (hd src))
         | (_, src, out) \<Rightarrow> Some out))"

section \<open>Decoding\<close>

definition inlineUTF8SequenceLengthNonASCII :: "byte \<Rightarrow> nat" where
  "inlineUTF8SequenceLengthNonASCII b0 =
     (if b0 AND 0xC0 \<noteq> 0xC0 then 0
      else if b0 AND 0xE0 = 0xC0 then 2
      else if b0 AND 0xF0 = 0xE0 then 3
      else if b0 AND 0xF8 = 0xF0 then 4
      else 0)"

definition inlineUTF8SequenceLength :: "byte \<Rightarrow> nat" where
  "inlineUTF8SequenceLength b0 = (if uint b0 < 0x80 then 1 else inlineUTF8SequenceLengthNonASCII b0)"

text \<open>
  \<open>isLegalUTF8\<close>: \<open>source\<close> holds at least \<open>length\<close> bytes. The cases fall through from 4 to
  1; the inner switch is on the first byte.
\<close>

definition legal_second :: "byte \<Rightarrow> byte \<Rightarrow> bool" where
  "legal_second b0 a =
     (if b0 = 0xE0 then 0xA0 \<le> uint a
      else if b0 = 0xED then uint a \<le> 0x9F
      else if b0 = 0xF0 then 0x90 \<le> uint a
      else if b0 = 0xF4 then uint a \<le> 0x8F
      else 0x80 \<le> uint a)"

definition isLegalUTF8 :: "byte list \<Rightarrow> nat \<Rightarrow> bool" where
  "isLegalUTF8 source len =
     (let trail = (\<lambda>i. 0x80 \<le> uint (source ! i) \<and> uint (source ! i) \<le> 0xBF);
          second = (uint (source ! 1) \<le> 0xBF \<and> legal_second (source ! 0) (source ! 1));
          first = (\<not> (0x80 \<le> uint (source ! 0) \<and> uint (source ! 0) < 0xC2)
                   \<and> uint (source ! 0) \<le> 0xF4)
      in if len = 4 then trail 3 \<and> trail 2 \<and> second \<and> first
         else if len = 3 then trail 2 \<and> second \<and> first
         else if len = 2 then second \<and> first
         else if len = 1 then first
         else False)"

definition offsetsFromUTF8 :: "int list" where
  "offsetsFromUTF8 = [0x00000000, 0x00003080, 0x000E2080, 0x03C82080, 0xFA082080, 0x82082080]"

fun sum_sequence :: "int \<Rightarrow> byte list \<Rightarrow> int" where
  "sum_sequence acc [] = acc"
| "sum_sequence acc [b] = acc + uint b"
| "sum_sequence acc (b # b' # bs) = sum_sequence (push_bit 6 (acc + uint b)) (b' # bs)"

definition readUTF8Sequence :: "byte list \<Rightarrow> nat \<Rightarrow> int" where
  "readUTF8Sequence source len = sum_sequence 0 (take len source) - offsetsFromUTF8 ! (len - 1)"

definition U16_LEAD :: "int \<Rightarrow> uchar" where
  "U16_LEAD ch = word_of_int (drop_bit 10 ch + 0xD7C0)"

definition U16_TRAIL :: "int \<Rightarrow> uchar" where
  "U16_TRAIL ch = word_of_int ((ch AND 0x3FF) OR 0xDC00)"

text \<open>
  \<open>convertUTF8ToUTF16\<close> with the room \<open>cap\<close> left in the target, counted in code units.
  A character outside the Unicode range cannot be read from a legal sequence; the branch is
  kept as the source has it.
\<close>

fun utf16_units :: "bool \<Rightarrow> int \<Rightarrow> uchar list option" where
  "utf16_units strict ch =
     (if 0 \<le> ch \<and> ch \<le> 0xFFFF then
        (if 0xD800 \<le> ch \<and> ch \<le> 0xDFFF
         then (if strict then None else Some [word_of_int replacementCharacter])
         else Some [word_of_int ch])
      else if 0x10000 \<le> ch \<and> ch \<le> 0x10FFFF then Some [U16_LEAD ch, U16_TRAIL ch]
      else if strict then None else Some [word_of_int replacementCharacter])"

function convertUTF8ToUTF16 ::
    "bool \<Rightarrow> nat \<Rightarrow> byte list \<Rightarrow> ConversionResult \<times> byte list \<times> uchar list" where
  "convertUTF8ToUTF16 strict cap [] = (conversionOK, [], [])"
| "convertUTF8ToUTF16 strict cap (b # bs) =
     (let source = b # bs; n = inlineUTF8SequenceLength b in
      if length source < n then (sourceExhausted, source, [])
      else if \<not> isLegalUTF8 source n then (sourceIllegal, source, [])
      else if cap = 0 then (targetExhausted, source, [])
      else
        (case utf16_units strict (readUTF8Sequence source n) of
           None \<Rightarrow> (sourceIllegal, source, [])
         | Some us \<Rightarrow>
             if cap < length us then (targetExhausted, source, [])
             else (let (r, src, out) = convertUTF8ToUTF16 strict (cap - length us) (drop n source)
                   in (r, src, us @ out))))"
  by pat_completeness auto
termination
  by (relation "measure (\<lambda>(strict, cap, bs). length bs)")
     (auto simp: isLegalUTF8_def Let_def split: if_splits)

text \<open>\<open>String::fromUTF8\<close> (strict conversion); \<open>None\<close> is the null String.\<close>

definition String_fromUTF8 :: "byte list \<Rightarrow> wtf_string option" where
  "String_fromUTF8 bs =
     (case convertUTF8ToUTF16 True (length bs) bs of
        (conversionOK, src, out) \<Rightarrow> Some out
      | _ \<Rightarrow> None)"

section \<open>One character: encoding and decoding are inverse\<close>

lemma uint_byte [simp]: "0 \<le> x \<Longrightarrow> x < 256 \<Longrightarrow> uint (word_of_int x :: byte) = x"
  by (simp add: uint_word_of_int)

lemma trail_bits: "(ch OR 0x80) AND 0xBF = 0x80 + ch mod 64" for ch :: int
proof -
  have m: "(0xBF::int) = push_bit 7 1 OR mask 6" "(0x80::int) = push_bit 7 1" by (simp_all add: mask_eq_exp_minus_1)
  have "(ch OR 0x80) AND 0xBF = 0x80 OR take_bit 6 ch"
    unfolding m by (rule bit_eqI) (auto simp only: bit_simps)
  also have "\<dots> = 0x80 + take_bit 6 ch"
    unfolding m by (rule disjunctive_add [symmetric]) (auto simp only: bit_simps)
  finally show ?thesis by (simp add: take_bit_eq_mod)
qed

lemma or_mark:
  fixes ch k :: int
  assumes "0 \<le> ch" "ch < 2 ^ n"
  shows "ch OR (push_bit n k) = ch + push_bit n k"
proof -
  have "take_bit n ch = ch" using assms by (simp add: take_bit_int_eq_self)
  then have "\<not> bit ch i" if "n \<le> i" for i
    using that by (metis bit_take_bit_iff not_le)
  then show ?thesis
    by (intro disjunctive_add [symmetric]) (auto simp: bit_simps)
qed

lemma or_marks:
  fixes ch :: int
  shows "0 \<le> ch \<Longrightarrow> ch < 32 \<Longrightarrow> ch OR 0xC0 = ch + 0xC0"
    and   "0 \<le> ch \<Longrightarrow> ch < 16 \<Longrightarrow> ch OR 0xE0 = ch + 0xE0"
    and   "0 \<le> ch \<Longrightarrow> ch < 8 \<Longrightarrow> ch OR 0xF0 = ch + 0xF0"
  using or_mark [of ch 5 6] or_mark [of ch 4 14] or_mark [of ch 3 30] by (simp_all add: push_bit_eq_mult)

lemma encode_char_1: "0 \<le> ch \<Longrightarrow> ch < 0x80 \<Longrightarrow> encode_char ch = [word_of_int ch]"
  by (simp add: encode_char_def bytesToWrite_def firstByteMark_def)

lemma encode_char_2: "0x80 \<le> ch \<Longrightarrow> ch < 0x800 \<Longrightarrow>
    encode_char ch = [word_of_int (ch div 64 + 0xC0), word_of_int (0x80 + ch mod 64)]"
  by (simp add: encode_char_def bytesToWrite_def firstByteMark_def trail_bits drop_bit_eq_div
      eval_nat_numeral or_marks)

lemma encode_char_3: "0x800 \<le> ch \<Longrightarrow> ch < 0x10000 \<Longrightarrow>
    encode_char ch = [word_of_int (ch div 4096 + 0xE0), word_of_int (0x80 + ch div 64 mod 64),
      word_of_int (0x80 + ch mod 64)]"
  by (simp add: encode_char_def bytesToWrite_def firstByteMark_def trail_bits drop_bit_eq_div
      eval_nat_numeral or_marks flip: zdiv_zmult2_eq)

lemma encode_char_4: "0x10000 \<le> ch \<Longrightarrow> ch < 0x110000 \<Longrightarrow>
    encode_char ch = [word_of_int (ch div 262144 + 0xF0), word_of_int (0x80 + ch div 4096 mod 64),
      word_of_int (0x80 + ch div 64 mod 64), word_of_int (0x80 + ch mod 64)]"
  by (simp add: encode_char_def bytesToWrite_def firstByteMark_def trail_bits drop_bit_eq_div
      eval_nat_numeral or_marks flip: zdiv_zmult2_eq)

lemma int_range_all: "(\<forall>k \<in> {0..<n::int}. P k) \<Longrightarrow> 0 \<le> k \<Longrightarrow> k < n \<Longrightarrow> P k"
  by simp

lemma sequence_length_1: "0 \<le> k \<Longrightarrow> k < 0x80 \<Longrightarrow> inlineUTF8SequenceLength (word_of_int k) = 1"
  by (simp add: inlineUTF8SequenceLength_def)

lemma sequence_length_2: "0 \<le> k \<Longrightarrow> k < 32 \<Longrightarrow> inlineUTF8SequenceLength (word_of_int (k + 0xC0)) = 2"
  by (rule int_range_all [of 32]) code_simp

lemma sequence_length_3: "0 \<le> k \<Longrightarrow> k < 16 \<Longrightarrow> inlineUTF8SequenceLength (word_of_int (k + 0xE0)) = 3"
  by (rule int_range_all [of 16]) code_simp

lemma sequence_length_4: "0 \<le> k \<Longrightarrow> k < 8 \<Longrightarrow> inlineUTF8SequenceLength (word_of_int (k + 0xF0)) = 4"
  by (rule int_range_all [of 8]) code_simp

definition scalar_value :: "int \<Rightarrow> bool" where
  "scalar_value ch \<longleftrightarrow> 0 \<le> ch \<and> ch \<le> 0x10FFFF \<and> \<not> (0xD800 \<le> ch \<and> ch \<le> 0xDFFF)"

lemmas legal_simps = isLegalUTF8_def legal_second_def word_uint_eq_iff
lemmas read_simps = readUTF8Sequence_def offsetsFromUTF8_def push_bit_eq_mult

lemma decode_bytes_2:
  assumes "uint b0 = q + 0xC0" "uint b1 = 0x80 + r" "2 \<le> q" "q < 32" "0 \<le> r" "r < 64"
  shows "isLegalUTF8 (b0 # b1 # rest) 2" "readUTF8Sequence (b0 # b1 # rest) 2 = 64 * q + r"
  using assms by (simp_all add: legal_simps read_simps)

lemma decode_bytes_3:
  assumes "uint b0 = a + 0xE0" "uint b1 = 0x80 + b" "uint b2 = 0x80 + c"
    and "0 \<le> a" "a < 16" "0 \<le> b" "b < 64" "0 \<le> c" "c < 64"
    and "a = 0 \<Longrightarrow> 32 \<le> b" "a = 13 \<Longrightarrow> b < 32"
  shows "isLegalUTF8 (b0 # b1 # b2 # rest) 3"
    and "readUTF8Sequence (b0 # b1 # b2 # rest) 3 = 4096 * a + 64 * b + c"
  using assms by (auto simp: legal_simps read_simps)

lemma decode_bytes_4:
  assumes "uint b0 = a + 0xF0" "uint b1 = 0x80 + b" "uint b2 = 0x80 + c" "uint b3 = 0x80 + d"
    and "0 \<le> a" "a \<le> 4" "0 \<le> b" "b < 64" "0 \<le> c" "c < 64" "0 \<le> d" "d < 64"
    and "a = 0 \<Longrightarrow> 16 \<le> b" "a = 4 \<Longrightarrow> b < 16"
  shows "isLegalUTF8 (b0 # b1 # b2 # b3 # rest) 4"
    and "readUTF8Sequence (b0 # b1 # b2 # b3 # rest) 4 = 262144 * a + 4096 * b + 64 * c + d"
  using assms by (auto simp: legal_simps read_simps)

lemma split_3: "ch = 4096 * (ch div 4096) + 64 * (ch div 64 mod 64) + ch mod 64" for ch :: int
proof -
  have "ch div 64 = ch div 4096 * 64 + ch div 64 mod 64"
    using div_mult_mod_eq [of "ch div 64" 64] by (simp flip: zdiv_zmult2_eq)
  then show ?thesis using div_mult_mod_eq [of ch 64] by linarith
qed

lemma split_4:
  "ch = 262144 * (ch div 262144) + 4096 * (ch div 4096 mod 64) + 64 * (ch div 64 mod 64) + ch mod 64"
  for ch :: int
proof -
  have "ch div 4096 = ch div 262144 * 64 + ch div 4096 mod 64"
    using div_mult_mod_eq [of "ch div 4096" 64] by (simp flip: zdiv_zmult2_eq)
  then show ?thesis using split_3 [of ch] by linarith
qed

lemma decode_2:
  assumes "0x80 \<le> ch" "ch < 0x800"
  shows "isLegalUTF8 (encode_char ch @ rest) 2 \<and> readUTF8Sequence (encode_char ch @ rest) 2 = ch
    \<and> inlineUTF8SequenceLength (hd (encode_char ch)) = 2"
proof -
  have "2 \<le> ch div 64" "ch div 64 < 32" using assms by presburger+
  then show ?thesis
    using decode_bytes_2 [of "word_of_int (ch div 64 + 0xC0)" "ch div 64"
        "word_of_int (0x80 + ch mod 64)" "ch mod 64" rest]
      sequence_length_2 [of "ch div 64"]
    unfolding encode_char_2 [OF assms] append.simps list.sel
    by (simp del: of_int_add)
qed

lemma decode_3:
  assumes "0x800 \<le> ch" "ch < 0x10000" "\<not> (0xD800 \<le> ch \<and> ch \<le> 0xDFFF)"
  shows "isLegalUTF8 (encode_char ch @ rest) 3 \<and> readUTF8Sequence (encode_char ch @ rest) 3 = ch
    \<and> inlineUTF8SequenceLength (hd (encode_char ch)) = 3"
proof -
  define a b c where d: "a = ch div 4096" "b = ch div 64 mod 64" "c = ch mod 64"
  have e: "ch = 4096 * a + 64 * b + c" unfolding d by (rule split_3)
  have r: "0 \<le> b" "b < 64" "0 \<le> c" "c < 64" by (simp_all add: d)
  have a: "0 \<le> a" "a < 16" "a = 0 \<Longrightarrow> 32 \<le> b" "a = 13 \<Longrightarrow> b < 32"
    using assms r e by linarith+
  show ?thesis
    using decode_bytes_3 [of "word_of_int (a + 0xE0)" a "word_of_int (0x80 + b)" b
        "word_of_int (0x80 + c)" c rest] sequence_length_3 [of a] a r
    unfolding encode_char_3 [OF assms(1,2)] append.simps list.sel d [symmetric] e [symmetric]
    by (simp del: of_int_add)
qed

lemma decode_4:
  assumes "0x10000 \<le> ch" "ch < 0x110000"
  shows "isLegalUTF8 (encode_char ch @ rest) 4 \<and> readUTF8Sequence (encode_char ch @ rest) 4 = ch
    \<and> inlineUTF8SequenceLength (hd (encode_char ch)) = 4"
proof -
  define a b c d where d: "a = ch div 262144" "b = ch div 4096 mod 64" "c = ch div 64 mod 64" "d = ch mod 64"
  have e: "ch = 262144 * a + 4096 * b + 64 * c + d" unfolding d by (rule split_4)
  have r: "0 \<le> b" "b < 64" "0 \<le> c" "c < 64" "0 \<le> d" "d < 64" by (simp_all add: d)
  have a: "0 \<le> a" "a \<le> 4" "a = 0 \<Longrightarrow> 16 \<le> b" "a = 4 \<Longrightarrow> b < 16"
    using assms r e by linarith+
  show ?thesis
    using decode_bytes_4 [of "word_of_int (a + 0xF0)" a "word_of_int (0x80 + b)" b
        "word_of_int (0x80 + c)" c "word_of_int (0x80 + d)" d rest] sequence_length_4 [of a] a r
    unfolding encode_char_4 [OF assms] append.simps list.sel d [symmetric] e [symmetric]
    by (simp del: of_int_add)
qed

lemma length_encode_char: "0 \<le> ch \<Longrightarrow> ch < 0x110000 \<Longrightarrow> length (encode_char ch) = bytesToWrite ch"
  using encode_char_1 [of ch] encode_char_2 [of ch] encode_char_3 [of ch] encode_char_4 [of ch]
  by (auto simp: bytesToWrite_def simp del: of_int_add)

lemma decode_char:
  assumes "scalar_value ch"
  shows "inlineUTF8SequenceLength (hd (encode_char ch)) = bytesToWrite ch"
    and "isLegalUTF8 (encode_char ch @ rest) (bytesToWrite ch)"
    and "readUTF8Sequence (encode_char ch @ rest) (bytesToWrite ch) = ch"
proof -
  have one: "isLegalUTF8 (encode_char ch @ rest) 1 \<and> readUTF8Sequence (encode_char ch @ rest) 1 = ch
      \<and> inlineUTF8SequenceLength (hd (encode_char ch)) = 1" if "ch < 0x80"
    using that assms
    by (auto simp: scalar_value_def encode_char_1 isLegalUTF8_def readUTF8Sequence_def
        offsetsFromUTF8_def sequence_length_1)
  show "inlineUTF8SequenceLength (hd (encode_char ch)) = bytesToWrite ch"
    and "isLegalUTF8 (encode_char ch @ rest) (bytesToWrite ch)"
    and "readUTF8Sequence (encode_char ch @ rest) (bytesToWrite ch) = ch"
    using assms one decode_2 [of ch rest] decode_3 [of ch rest] decode_4 [of ch rest]
    unfolding scalar_value_def bytesToWrite_def by (auto simp del: encode_char_1)
qed

lemma encode_char_Cons: "0 \<le> ch \<Longrightarrow> ch < 0x110000 \<Longrightarrow> encode_char ch = hd (encode_char ch) # tl (encode_char ch)"
  using length_encode_char [of ch] by (cases "encode_char ch") (auto simp: bytesToWrite_def split: if_splits)

section \<open>Whole strings\<close>

text \<open>A well-formed UTF-16 string: every surrogate is half of a pair.\<close>

fun utf16_wf :: "uchar list \<Rightarrow> bool" where
  "utf16_wf [] = True"
| "utf16_wf (c # cs) =
     (if 0xD800 \<le> uint c \<and> uint c \<le> 0xDBFF
      then (case cs of [] \<Rightarrow> False
            | c2 # cs2 \<Rightarrow> 0xDC00 \<le> uint c2 \<and> uint c2 \<le> 0xDFFF \<and> utf16_wf cs2)
      else \<not> (0xDC00 \<le> uint c \<and> uint c \<le> 0xDFFF) \<and> utf16_wf cs)"

lemma uint_uchar_bound: "0 \<le> uint c" "uint c \<le> 0xFFFF" for c :: uchar
  using uint_bounded [of c] by simp_all

lemma read_utf16_scalar:
  assumes "utf16_wf (c # cs)"
  obtains ch rest where "read_utf16 strict c cs = ReadChar ch rest" "scalar_value ch" "utf16_wf rest"
    "utf16_units True ch = Some (take (length (c # cs) - length rest) (c # cs))"
    "rest = drop (length (c # cs) - length rest) (c # cs)"
    "length rest < length (c # cs)" "bytesToWrite ch \<le> 3 * (length (c # cs) - length rest)"
    "length (c # cs) - length rest \<le> bytesToWrite ch"
proof (cases "0xD800 \<le> uint c \<and> uint c \<le> 0xDBFF")
  case True
  with assms obtain c2 rest where cs: "cs = c2 # rest" and c2: "0xDC00 \<le> uint c2" "uint c2 \<le> 0xDFFF"
    and wf: "utf16_wf rest" by (auto split: list.splits)
  define h l where hl: "h = uint c - 0xD800" "l = uint c2 - 0xDC00"
  let ?ch = "push_bit 10 h + l + 0x10000"
  have b: "0 \<le> h" "h < 1024" "0 \<le> l" "l < 1024" using True c2 by (simp_all add: hl)
  have ch: "?ch = (h + 64) * 1024 + l" by (simp add: push_bit_eq_mult)
  have "?ch div 1024 = h + 64" "?ch mod 1024 = l"
    unfolding ch using b by (simp_all del: distrib_right_numeral)
  moreover have "l OR 0xDC00 = l + 0xDC00"
    using or_mark [of l 10 55] b by (simp add: push_bit_eq_mult)
  moreover have "?ch AND 0x3FF = ?ch mod 1024"
    using take_bit_eq_mask [of 10 ?ch] by (simp add: take_bit_eq_mod mask_eq_exp_minus_1)
  ultimately have units: "U16_LEAD ?ch = c" "U16_TRAIL ?ch = c2"
    by (simp_all add: U16_LEAD_def U16_TRAIL_def drop_bit_eq_div hl)
  have range: "0x10000 \<le> ?ch" "?ch \<le> 0x10FFFF" unfolding ch using b by simp_all
  have read: "read_utf16 strict c cs = ReadChar ?ch rest" using True c2 by (simp add: cs hl)
  show thesis
    by (rule that [OF read]) (use range wf units in \<open>simp_all add: cs scalar_value_def bytesToWrite_def\<close>)
next
  case False
  with assms have "utf16_wf cs" "\<not> (0xDC00 \<le> uint c \<and> uint c \<le> 0xDFFF)" by simp_all
  with False uint_uchar_bound [of c] show thesis
    by (intro that [of "uint c" cs]) (auto simp: scalar_value_def bytesToWrite_def Let_def)
qed

lemma decode_append:
  assumes ch: "scalar_value ch" and us: "utf16_units True ch = Some us"
    and cap: "length us \<le> cap" and rest: "convertUTF8ToUTF16 True (cap - length us) bs = (r, src, out)"
  shows "convertUTF8ToUTF16 True cap (encode_char ch @ bs) = (r, src, us @ out)"
proof -
  have r: "0 \<le> ch" "ch < 0x110000" using ch by (simp_all add: scalar_value_def)
  obtain b ts where e: "encode_char ch = b # ts" using encode_char_Cons [OF r] by blast
  have n: "length (b # ts) = bytesToWrite ch" using length_encode_char [OF r] e by simp
  have "us \<noteq> []" using us by (auto split: if_splits)
  then have "0 < cap" using cap by (cases us) auto
  moreover have "drop (bytesToWrite ch) (b # ts @ bs) = bs" using n by (metis append_Cons append_eq_conv_conj)
  moreover have "\<not> length (b # ts @ bs) < bytesToWrite ch" using n by simp
  ultimately show ?thesis
    using decode_char(1) [OF ch] decode_char(2,3) [OF ch, of bs] us cap rest
    by (simp add: e Let_def del: utf16_units.simps)
qed

lemma convert_roundtrip:
  assumes "utf16_wf s" "3 * length s \<le> cap"
  shows "\<exists>bs. convertUTF16ToUTF8 strict cap s = (conversionOK, [], bs) \<and> length s \<le> length bs
    \<and> (\<forall>cap' \<ge> length s. convertUTF8ToUTF16 True cap' bs = (conversionOK, [], s))"
  using assms
proof (induction s arbitrary: cap rule: length_induct)
  case (1 s)
  show ?case
  proof (cases s)
    case Nil
    then show ?thesis by simp
  next
    case (Cons c cs)
    obtain ch rest where rd: "read_utf16 strict c cs = ReadChar ch rest" and sc: "scalar_value ch"
      and wf: "utf16_wf rest" and us: "utf16_units True ch = Some (take (length s - length rest) s)"
      and dr: "rest = drop (length s - length rest) s" and len: "length rest < length s"
      and n: "bytesToWrite ch \<le> 3 * (length s - length rest)" "length s - length rest \<le> bytesToWrite ch"
      using read_utf16_scalar [of c cs strict] "1.prems"(1) Cons by metis
    have "3 * length rest \<le> cap - bytesToWrite ch" using "1.prems"(2) n(1) len by linarith
    then obtain bs where bs: "convertUTF16ToUTF8 strict (cap - bytesToWrite ch) rest = (conversionOK, [], bs)"
      "length rest \<le> length bs"
      and dec: "\<And>cap'. length rest \<le> cap' \<Longrightarrow> convertUTF8ToUTF16 True cap' bs = (conversionOK, [], rest)"
      using "1.IH" len wf by blast
    have cap: "bytesToWrite ch \<le> cap" using "1.prems"(2) n(1) len by linarith
    have td: "take (length s - length rest) s @ rest = s" using dr by (metis append_take_drop_id)
    have "convertUTF8ToUTF16 True cap' (encode_char ch @ bs) = (conversionOK, [], s)"
      if "length s \<le> cap'" for cap'
      using decode_append [OF sc us, of cap' bs conversionOK "[]" rest] that dec len
      by (simp add: td)
    moreover have "length (encode_char ch) = bytesToWrite ch"
      using sc by (intro length_encode_char) (auto simp: scalar_value_def)
    ultimately show ?thesis
      using rd cap bs n(2) by (simp add: Cons del: read_utf16.simps)
  qed
qed

lemma read_utf16_room:
  "read_utf16 strict c cs = ReadChar ch rest \<Longrightarrow> bytesToWrite ch + 3 * length rest \<le> 3 * length (c # cs)"
  using uint_uchar_bound [of c]
  by (auto simp: Let_def bytesToWrite_def split: if_splits list.splits)

lemma convert_never_exhausts_target:
  "3 * length s \<le> cap \<Longrightarrow> fst (convertUTF16ToUTF8 strict cap s) \<noteq> targetExhausted"
proof (induction strict cap s rule: convertUTF16ToUTF8.induct)
  case (2 strict cap c cs)
  show ?case
  proof (cases "read_utf16 strict c cs")
    case (ReadChar ch rest)
    then have room: "bytesToWrite ch + 3 * length rest \<le> cap"
      using read_utf16_room "2.prems" order_trans by blast
    then have "fst (convertUTF16ToUTF8 strict (cap - bytesToWrite ch) rest) \<noteq> targetExhausted"
      using "2.IH" [OF ReadChar] by simp
    then show ?thesis using ReadChar room
      by (simp add: case_prod_beta Let_def del: read_utf16.simps)
  qed (simp_all del: read_utf16.simps)
qed simp

lemma convert_exhausted_at_end:
  "convertUTF16ToUTF8 strict cap s = (sourceExhausted, src, out) \<Longrightarrow>
     \<exists>c. src = [c] \<and> 0xD800 \<le> uint c \<and> uint c \<le> 0xDBFF"
proof (induction strict cap s arbitrary: src out rule: convertUTF16ToUTF8.induct)
  case (2 strict cap c cs)
  show ?case
  proof (cases "read_utf16 strict c cs")
    case ReadExhausted
    then have "cs = []" "0xD800 \<le> uint c \<and> uint c \<le> 0xDBFF"
      by (auto simp: Let_def split: if_splits list.splits)
    with ReadExhausted "2.prems" show ?thesis by (auto simp del: read_utf16.simps)
  next
    case (ReadChar ch rest)
    with "2.prems" have "convertUTF16ToUTF8 strict (cap - bytesToWrite ch) rest
        = (sourceExhausted, src, snd (snd (convertUTF16ToUTF8 strict (cap - bytesToWrite ch) rest)))"
      by (auto simp: case_prod_beta Let_def prod_eq_iff simp del: read_utf16.simps split: if_splits)
    with "2.IH" [OF ReadChar] ReadChar "2.prems" show ?thesis
      by (auto simp del: read_utf16.simps split: if_splits)
  qed (use "2.prems" in \<open>simp_all del: read_utf16.simps\<close>)
qed simp

lemma String_utf8_fromUTF8:
  assumes "utf16_wf s" "int (length s) \<le> (2 ^ 32 - 1) div 3"
  shows "\<exists>bs. String_utf8 strict s = Some bs \<and> String_fromUTF8 bs = Some s"
proof (cases "s = []")
  case False
  obtain bs where "convertUTF16ToUTF8 strict (3 * length s) s = (conversionOK, [], bs)"
    "length s \<le> length bs" "convertUTF8ToUTF16 True (length bs) bs = (conversionOK, [], s)"
    using convert_roundtrip [OF assms(1) order_refl, of strict] by blast
  with False assms(2) show ?thesis
    by (simp add: String_utf8_def String_fromUTF8_def)
qed (simp add: String_utf8_def String_fromUTF8_def)

section \<open>Properties\<close>

text \<open>
  C5: a String that is well-formed UTF-16 (every surrogate paired) and not longer than a
  third of the unsigned range survives \<open>utf8()\<close> followed by \<open>fromUTF8()\<close> unchanged, in
  the strict and in the lenient mode.
\<close>

theorem utf8_fromUTF8_roundtrip:
  assumes "utf16_wf s" and "int (length s) \<le> (2 ^ 32 - 1) div 3"
  shows "\<exists>bs. String_utf8 strict s = Some bs \<and> String_fromUTF8 bs = Some s"
  using assms by (rule String_utf8_fromUTF8)

theorem utf8_fromUTF8_roundtrip_witness:
  "utf16_wf [0x41, 0x3042, 0xD83D, 0xDE00]
   \<and> (\<exists>bs. String_utf8 False [0x41, 0x3042, 0xD83D, 0xDE00] = Some bs
        \<and> String_fromUTF8 bs = Some [0x41, 0x3042, 0xD83D, 0xDE00])"
proof -
  have wf: "utf16_wf [0x41, 0x3042, 0xD83D, 0xDE00]" by code_simp
  show ?thesis
    using wf utf8_fromUTF8_roundtrip [OF wf, of False] by simp
qed

text \<open>
  The assertions of \<open>String::utf8\<close> about \<open>convertUTF16ToUTF8\<close> hold for every string,
  well-formed or not: a buffer of three bytes per code unit is never exhausted, and when
  the source is exhausted exactly one code unit is left, an unpaired high surrogate.
\<close>

theorem utf8_buffer_assertions:
  "fst (convertUTF16ToUTF8 strict (3 * length s) s) \<noteq> targetExhausted
   \<and> (fst (convertUTF16ToUTF8 strict (3 * length s) s) = sourceExhausted \<longrightarrow>
        (\<exists>c. fst (snd (convertUTF16ToUTF8 strict (3 * length s) s)) = [c]
             \<and> 0xD800 \<le> uint c \<and> uint c \<le> 0xDBFF))"
  using convert_never_exhausts_target [of s "3 * length s" strict]
    convert_exhausted_at_end [of strict "3 * length s" s]
  by (cases "convertUTF16ToUTF8 strict (3 * length s) s") auto

theorem utf8_buffer_assertions_witness:
  "fst (convertUTF16ToUTF8 False 6 [0x41, 0xD83D]) = sourceExhausted
   \<and> (\<exists>c. fst (snd (convertUTF16ToUTF8 False 6 [0x41, 0xD83D])) = [c]
           \<and> 0xD800 \<le> uint c \<and> uint c \<le> 0xDBFF)"
proof -
  have e: "fst (convertUTF16ToUTF8 False 6 [0x41, 0xD83D]) = sourceExhausted" by code_simp
  show ?thesis
    using e utf8_buffer_assertions [of False "[0x41, 0xD83D]"] by simp
qed

end
