(* ===== verification/Block_Hash.thy ===== *)
theory Block_Hash
  imports Prelude
begin

text \<open>
  What the two digests of WTF have in common: a message is absorbed in blocks of 64 bytes
  and the rest waits in a buffer. \<open>absorb\<close> is the specification on the whole message;
  the locale \<open>streaming_hash\<close> is the contract of an incremental \<open>addBytes\<close>, from which
  independence of the way a message is cut into calls follows once for both digests.
\<close>

text \<open>The rotation that C writes with two shifts.\<close>

lemma rotl_shifts: "0 < n \<Longrightarrow> n < 32 \<Longrightarrow> push_bit n w OR drop_bit (32 - n) w = word_rotl n (w :: u32)"
proof (rule bit_word_eqI)
  fix m assume n: "0 < n" "n < 32" and "m < LENGTH(32)"
  then have m: "m < 32" by simp
  show "bit (push_bit n w OR drop_bit (32 - n) w) m \<longleftrightarrow> bit (word_rotl n w) m"
  proof (cases "m < n")
    case True
    then have "(m + (32 - n)) mod 32 = 32 - n + m" using n by simp
    then show ?thesis using True n m by (simp add: bit_simps)
  next
    case False
    then have e: "m + (32 - n) = 32 + (m - n)" "m - n < 32" using n m by simp_all
    have "\<not> bit w (32 - n + m)" using e bit_imp_le_length [of w "32 - n + m"] False by auto
    moreover have "(m + (32 - n)) mod 32 = m - n" unfolding e(1) using e(2) by simp
    ultimately show ?thesis using False n m by (simp add: bit_simps)
  qed
qed

lemma byte_shift: "(of_nat (2 ^ n * unat (b :: byte)) :: u32) = push_bit n (ucast b)"
  by (simp add: push_bit_eq_mult mult.commute)

function absorb :: "('h \<Rightarrow> byte list \<Rightarrow> 'h) \<Rightarrow> 'h \<Rightarrow> byte list \<Rightarrow> 'h \<times> byte list" where
  "absorb compress h msg =
     (if length msg < 64 then (h, msg)
      else absorb compress (compress h (take 64 msg)) (drop 64 msg))"
  by pat_completeness auto
termination
  by (relation "measure (\<lambda>(compress, h, msg). length msg)") auto

declare absorb.simps [simp del]

lemma absorb_short [simp]: "length msg < 64 \<Longrightarrow> absorb f h msg = (h, msg)"
  by (simp add: absorb.simps)

lemma absorb_block: "length b = 64 \<Longrightarrow> absorb f h (b @ msg) = absorb f (f h b) msg"
  by (subst absorb.simps) simp

lemma length_absorb: "length (snd (absorb f h msg)) = length msg mod 64"
proof (induction f h msg rule: absorb.induct)
  case (1 f h msg)
  then show ?case by (subst absorb.simps) (auto simp: le_mod_geq)
qed

lemma absorb_append:
  "absorb f h (msg @ xs) = absorb f (fst (absorb f h msg)) (snd (absorb f h msg) @ xs)"
proof (induction f h msg rule: absorb.induct)
  case (1 f h msg)
  show ?case
  proof (cases "length msg < 64")
    case False
    have "absorb f h (msg @ xs) = absorb f h (take 64 msg @ drop 64 msg @ xs)"
      by (metis append.assoc append_take_drop_id)
    also have "\<dots> = absorb f (f h (take 64 msg)) (drop 64 msg @ xs)"
      using False by (intro absorb_block) simp
    finally show ?thesis
      using "1.IH" [OF False] False by (simp add: absorb.simps [of f h msg])
  qed simp
qed

locale streaming_hash =
  fixes init :: 'st
    and add :: "'st \<Rightarrow> byte list \<Rightarrow> 'st"
    and finish :: "'st \<Rightarrow> byte list"
    and rep :: "'st \<Rightarrow> byte list \<Rightarrow> bool"
    and ok :: "byte list \<Rightarrow> bool"
    and spec :: "byte list \<Rightarrow> byte list"
  assumes rep_init: "rep init []"
    and rep_add: "rep st msg \<Longrightarrow> ok xs \<Longrightarrow> rep (add st xs) (msg @ xs)"
    and finish_spec: "rep st msg \<Longrightarrow> finish st = spec msg"
begin

lemma rep_fold: "rep st msg \<Longrightarrow> \<forall>xs \<in> set xss. ok xs \<Longrightarrow> rep (foldl add st xss) (msg @ concat xss)"
proof (induction xss arbitrary: st msg)
  case (Cons xs xss)
  have "rep (add st xs) (msg @ xs)" using Cons.prems by (simp add: rep_add)
  from Cons.IH [OF this] Cons.prems show ?case by simp
qed simp

lemma digest_of_chunks: "\<forall>xs \<in> set xss. ok xs \<Longrightarrow> finish (foldl add init xss) = spec (concat xss)"
  using rep_fold [OF rep_init, of xss] finish_spec by simp

end

end
