(* ===== verification/MD5.thy ===== *)
theory MD5
  imports Block_Hash
begin

text \<open>
  The MD5 of WTF (\<open>wtf/MD5.cpp\<close>), which the HTTP cache uses to protect its FAT file. The
  buffers are byte lists and the words are read and written in the little-endian order of
  the target, as the casts of the source do. The digest of RFC 1321 is defined
  beside the code on its own terms; the theorem is that \<open>addBytes\<close> and \<open>checksum\<close>
  compute it for every way of cutting the message into calls.
\<close>

section \<open>Words in memory\<close>

definition word_of_bytes :: "byte list \<Rightarrow> u32" where
  "word_of_bytes bs =
     (case bs of [b0, b1, b2, b3] \<Rightarrow>
        push_bit 16 (push_bit 8 (ucast b3) OR ucast b2) OR push_bit 8 (ucast b1) OR ucast b0
      | _ \<Rightarrow> 0)"

definition bytes_of_word :: "u32 \<Rightarrow> byte list" where
  "bytes_of_word w = [ucast w, ucast (drop_bit 8 w), ucast (drop_bit 16 w), ucast (drop_bit 24 w)]"

fun words_of_bytes :: "byte list \<Rightarrow> u32 list" where
  "words_of_bytes (b0 # b1 # b2 # b3 # bs) = word_of_bytes [b0, b1, b2, b3] # words_of_bytes bs"
| "words_of_bytes _ = []"

text \<open>\<open>reverseBytes\<close>: \<open>longs\<close> words are read byte by byte and stored as native words.\<close>

fun reverseBytes :: "byte list \<Rightarrow> nat \<Rightarrow> byte list" where
  "reverseBytes (b0 # b1 # b2 # b3 # bs) (Suc longs) =
     bytes_of_word (word_of_bytes [b0, b1, b2, b3]) @ reverseBytes bs longs"
| "reverseBytes bs longs = bs"

section \<open>The transform\<close>

definition F1 :: "u32 \<Rightarrow> u32 \<Rightarrow> u32 \<Rightarrow> u32" where
  "F1 x y z = z XOR (x AND (y XOR z))"

definition F2 :: "u32 \<Rightarrow> u32 \<Rightarrow> u32 \<Rightarrow> u32" where
  "F2 x y z = F1 z x y"

definition F3 :: "u32 \<Rightarrow> u32 \<Rightarrow> u32 \<Rightarrow> u32" where
  "F3 x y z = x XOR y XOR z"

definition F4 :: "u32 \<Rightarrow> u32 \<Rightarrow> u32 \<Rightarrow> u32" where
  "F4 x y z = y XOR (x OR NOT z)"

definition MD5STEP ::
    "(u32 \<Rightarrow> u32 \<Rightarrow> u32 \<Rightarrow> u32) \<Rightarrow> u32 \<Rightarrow> u32 \<Rightarrow> u32 \<Rightarrow> u32 \<Rightarrow> u32 \<Rightarrow> nat \<Rightarrow> u32" where
  "MD5STEP f w x y z d s =
     (let w1 = w + (f x y z + d) in (push_bit s w1 OR drop_bit (32 - s) w1) + x)"

text \<open>The 64 calls of the source: function, word of the block, constant, shift.\<close>

definition md5_steps :: "((u32 \<Rightarrow> u32 \<Rightarrow> u32 \<Rightarrow> u32) \<times> nat \<times> u32 \<times> nat) list" where
  "md5_steps =
     [(F1, 0, 0xd76aa478, 7), (F1, 1, 0xe8c7b756, 12),
      (F1, 2, 0x242070db, 17), (F1, 3, 0xc1bdceee, 22),
      (F1, 4, 0xf57c0faf, 7), (F1, 5, 0x4787c62a, 12),
      (F1, 6, 0xa8304613, 17), (F1, 7, 0xfd469501, 22),
      (F1, 8, 0x698098d8, 7), (F1, 9, 0x8b44f7af, 12),
      (F1, 10, 0xffff5bb1, 17), (F1, 11, 0x895cd7be, 22),
      (F1, 12, 0x6b901122, 7), (F1, 13, 0xfd987193, 12),
      (F1, 14, 0xa679438e, 17), (F1, 15, 0x49b40821, 22),
      (F2, 1, 0xf61e2562, 5), (F2, 6, 0xc040b340, 9),
      (F2, 11, 0x265e5a51, 14), (F2, 0, 0xe9b6c7aa, 20),
      (F2, 5, 0xd62f105d, 5), (F2, 10, 0x02441453, 9),
      (F2, 15, 0xd8a1e681, 14), (F2, 4, 0xe7d3fbc8, 20),
      (F2, 9, 0x21e1cde6, 5), (F2, 14, 0xc33707d6, 9),
      (F2, 3, 0xf4d50d87, 14), (F2, 8, 0x455a14ed, 20),
      (F2, 13, 0xa9e3e905, 5), (F2, 2, 0xfcefa3f8, 9),
      (F2, 7, 0x676f02d9, 14), (F2, 12, 0x8d2a4c8a, 20),
      (F3, 5, 0xfffa3942, 4), (F3, 8, 0x8771f681, 11),
      (F3, 11, 0x6d9d6122, 16), (F3, 14, 0xfde5380c, 23),
      (F3, 1, 0xa4beea44, 4), (F3, 4, 0x4bdecfa9, 11),
      (F3, 7, 0xf6bb4b60, 16), (F3, 10, 0xbebfbc70, 23),
      (F3, 13, 0x289b7ec6, 4), (F3, 0, 0xeaa127fa, 11),
      (F3, 3, 0xd4ef3085, 16), (F3, 6, 0x04881d05, 23),
      (F3, 9, 0xd9d4d039, 4), (F3, 12, 0xe6db99e5, 11),
      (F3, 15, 0x1fa27cf8, 16), (F3, 2, 0xc4ac5665, 23),
      (F4, 0, 0xf4292244, 6), (F4, 7, 0x432aff97, 10),
      (F4, 14, 0xab9423a7, 15), (F4, 5, 0xfc93a039, 21),
      (F4, 12, 0x655b59c3, 6), (F4, 3, 0x8f0ccc92, 10),
      (F4, 10, 0xffeff47d, 15), (F4, 1, 0x85845dd1, 21),
      (F4, 8, 0x6fa87e4f, 6), (F4, 15, 0xfe2ce6e0, 10),
      (F4, 6, 0xa3014314, 15), (F4, 13, 0x4e0811a1, 21),
      (F4, 4, 0xf7537e82, 6), (F4, 11, 0xbd3af235, 10),
      (F4, 2, 0x2ad7d2bb, 15), (F4, 9, 0xeb86d391, 21)]"

text \<open>
  Each call updates one register and the next call has the four registers rotated by one
  place: (a, b, c, d), (d, a, b, c), (c, d, a, b), (b, c, d, a). The state keeps the
  registers in the order of the next call.
\<close>

fun md5_round :: "u32 list \<Rightarrow> u32 \<times> u32 \<times> u32 \<times> u32 \<Rightarrow>
    (u32 \<Rightarrow> u32 \<Rightarrow> u32 \<Rightarrow> u32) \<times> nat \<times> u32 \<times> nat \<Rightarrow> u32 \<times> u32 \<times> u32 \<times> u32" where
  "md5_round blk (w, x, y, z) (f, i, c, s) = (z, MD5STEP f w x y z (blk ! i + c) s, x, y)"

type_synonym md5_regs = "u32 \<times> u32 \<times> u32 \<times> u32"

definition MD5Transform :: "md5_regs \<Rightarrow> u32 list \<Rightarrow> md5_regs" where
  "MD5Transform buf blk =
     (let (b0, b1, b2, b3) = buf; (a, b, c, d) = foldl (md5_round blk) buf md5_steps
      in (b0 + a, b1 + b, b2 + c, b3 + d))"

section \<open>The incremental digest\<close>

record md5 =
  m_buf :: md5_regs
  m_bits0 :: u32
  m_bits1 :: u32
  m_in :: "byte list"

definition md5_iv :: md5_regs where
  "md5_iv = (0x67452301, 0xefcdab89, 0x98badcfe, 0x10325476)"

definition MD5_new :: md5 where
  "MD5_new = \<lparr>m_buf = md5_iv, m_bits0 = 0, m_bits1 = 0, m_in = replicate 64 0\<rparr>"

text \<open>\<open>memcpy(m_in + t, src, length)\<close>.\<close>

definition copy_at :: "nat \<Rightarrow> byte list \<Rightarrow> byte list \<Rightarrow> byte list" where
  "copy_at t src dst = take t dst @ src @ drop (t + length src) dst"

definition transform_in :: "md5 \<Rightarrow> byte list \<Rightarrow> md5" where
  \<comment> \<open>\<open>memcpy\<close> of a full block, \<open>reverseBytes(m_in, 16)\<close>, \<open>MD5Transform\<close>\<close>
  "transform_in st blk =
     (let blk' = reverseBytes blk 16
      in st\<lparr>m_in := blk', m_buf := MD5Transform (m_buf st) (words_of_bytes blk')\<rparr>)"

function md5_chunks :: "md5 \<Rightarrow> byte list \<Rightarrow> md5" where
  "md5_chunks st buf =
     (if 64 \<le> length buf then md5_chunks (transform_in st (take 64 buf)) (drop 64 buf)
      else st\<lparr>m_in := copy_at 0 buf (m_in st)\<rparr>)"
  by pat_completeness auto
termination
  by (relation "measure (\<lambda>(st, buf). length buf)") auto

declare md5_chunks.simps [simp del]

definition md5_count :: "md5 \<Rightarrow> nat" where
  "md5_count st = unat (drop_bit 3 (m_bits0 st) AND 0x3F)"

definition addBytes :: "md5 \<Rightarrow> byte list \<Rightarrow> md5" where
  "addBytes st input =
     (let len = of_nat (length input) :: u32;
          t0 = m_bits0 st;
          bits0 = t0 + push_bit 3 len;
          bits1 = (if bits0 < t0 then m_bits1 st + 1 else m_bits1 st) + drop_bit 29 len;
          st1 = st\<lparr>m_bits0 := bits0, m_bits1 := bits1\<rparr>;
          t = md5_count st
      in if t \<noteq> 0 then
           (if length input < 64 - t then st1\<lparr>m_in := copy_at t input (m_in st)\<rparr>
            else md5_chunks (transform_in st1 (copy_at t (take (64 - t) input) (m_in st)))
                   (drop (64 - t) input))
         else md5_chunks st1 input)"

text \<open>
  \<open>checksum\<close>: padding, the length in bits as two native words, and the registers as bytes.
  The source then clears the object, which no caller uses again.
\<close>

definition checksum :: "md5 \<Rightarrow> byte list" where
  "checksum st =
     (let count = md5_count st;
          in1 = copy_at count [0x80] (m_in st);
          pad = 64 - 1 - count;
          st1 = (if pad < 8
                 then (let s = transform_in st (copy_at (Suc count) (replicate pad 0) in1)
                       in s\<lparr>m_in := copy_at 0 (replicate 56 0) (m_in s)\<rparr>)
                 else st\<lparr>m_in := copy_at (Suc count) (replicate (pad - 8) 0) in1\<rparr>);
          in2 = copy_at 56 (bytes_of_word (m_bits0 st) @ bytes_of_word (m_bits1 st))
                  (reverseBytes (m_in st1) 14);
          (a, b, c, d) = MD5Transform (m_buf st1) (words_of_bytes in2)
      in reverseBytes (bytes_of_word a @ bytes_of_word b @ bytes_of_word c @ bytes_of_word d) 4)"

section \<open>RFC 1321\<close>

text \<open>
  The digest as the RFC defines it, on its own terms: the auxiliary functions, the table of sines, the 64
  operations with their indices and rotations, the four words of the start, the words of a block as numbers
  whose low byte comes first, and the padded message.
\<close>

definition rfc_F :: "u32 \<Rightarrow> u32 \<Rightarrow> u32 \<Rightarrow> u32" where
  "rfc_F X Y Z = (X AND Y) OR (NOT X AND Z)"

definition rfc_G :: "u32 \<Rightarrow> u32 \<Rightarrow> u32 \<Rightarrow> u32" where
  "rfc_G X Y Z = (X AND Z) OR (Y AND NOT Z)"

definition rfc_H :: "u32 \<Rightarrow> u32 \<Rightarrow> u32 \<Rightarrow> u32" where
  "rfc_H X Y Z = X XOR Y XOR Z"

definition rfc_I :: "u32 \<Rightarrow> u32 \<Rightarrow> u32 \<Rightarrow> u32" where
  "rfc_I X Y Z = Y XOR (X OR NOT Z)"

text \<open>The table \<open>T\<close>: the integer part of 4294967296 times \<open>abs (sin i)\<close>, for i from 1 to 64.\<close>

definition rfc_T :: "u32 list" where
  "rfc_T =
     [0xd76aa478, 0xe8c7b756, 0x242070db, 0xc1bdceee,
      0xf57c0faf, 0x4787c62a, 0xa8304613, 0xfd469501,
      0x698098d8, 0x8b44f7af, 0xffff5bb1, 0x895cd7be,
      0x6b901122, 0xfd987193, 0xa679438e, 0x49b40821,
      0xf61e2562, 0xc040b340, 0x265e5a51, 0xe9b6c7aa,
      0xd62f105d, 0x02441453, 0xd8a1e681, 0xe7d3fbc8,
      0x21e1cde6, 0xc33707d6, 0xf4d50d87, 0x455a14ed,
      0xa9e3e905, 0xfcefa3f8, 0x676f02d9, 0x8d2a4c8a,
      0xfffa3942, 0x8771f681, 0x6d9d6122, 0xfde5380c,
      0xa4beea44, 0x4bdecfa9, 0xf6bb4b60, 0xbebfbc70,
      0x289b7ec6, 0xeaa127fa, 0xd4ef3085, 0x04881d05,
      0xd9d4d039, 0xe6db99e5, 0x1fa27cf8, 0xc4ac5665,
      0xf4292244, 0x432aff97, 0xab9423a7, 0xfc93a039,
      0x655b59c3, 0x8f0ccc92, 0xffeff47d, 0x85845dd1,
      0x6fa87e4f, 0xfe2ce6e0, 0xa3014314, 0x4e0811a1,
      0xf7537e82, 0xbd3af235, 0x2ad7d2bb, 0xeb86d391]"

definition rfc_aux :: "nat \<Rightarrow> u32 \<Rightarrow> u32 \<Rightarrow> u32 \<Rightarrow> u32" where
  "rfc_aux i = (if i < 16 then rfc_F else if i < 32 then rfc_G else if i < 48 then rfc_H else rfc_I)"

definition rfc_index :: "nat \<Rightarrow> nat" where
  "rfc_index i = (if i < 16 then i else if i < 32 then (1 + 5 * i) mod 16 else if i < 48 then (5 + 3 * i) mod 16 else 7 * i mod 16)"

definition rfc_shift :: "nat \<Rightarrow> nat" where
  "rfc_shift i =
     (if i < 16 then [7, 12, 17, 22] else if i < 32 then [5, 9, 14, 20]
      else if i < 48 then [4, 11, 16, 23] else [6, 10, 15, 21]) ! (i mod 4)"

text \<open>\<open>[abcd k s i]\<close>: \<open>a = b + ((a + F(b,c,d) + X[k] + T[i]) <<< s)\<close>; the next operation is on \<open>dabc\<close>.\<close>

definition rfc_operation :: "(nat \<Rightarrow> u32) \<Rightarrow> md5_regs \<Rightarrow> nat \<Rightarrow> md5_regs" where
  "rfc_operation X h i =
     (let (a, b, c, d) = h
      in (d, b + word_rotl (rfc_shift i) (a + rfc_aux i b c d + X (rfc_index i) + rfc_T ! i), b, c))"

definition le_word :: "byte list \<Rightarrow> nat \<Rightarrow> u32" where
  "le_word blk k =
     of_nat (unat (blk ! (4 * k)) + 2 ^ 8 * unat (blk ! (4 * k + 1)) + 2 ^ 16 * unat (blk ! (4 * k + 2))
             + 2 ^ 24 * unat (blk ! (4 * k + 3)))"

definition md5_block :: "md5_regs \<Rightarrow> byte list \<Rightarrow> md5_regs" where
  "md5_block h blk =
     (let (AA, BB, CC, DD) = h; (A, B, C, D) = foldl (rfc_operation (le_word blk)) h [0..<64]
      in (A + AA, B + BB, C + CC, D + DD))"

definition rfc_start :: md5_regs where
  \<comment> \<open>01 23 45 67, 89 ab cd ef, fe dc ba 98 and 76 54 32 10, low byte first\<close>
  "rfc_start =
     (let w = le_word [0x01, 0x23, 0x45, 0x67, 0x89, 0xab, 0xcd, 0xef, 0xfe, 0xdc, 0xba, 0x98, 0x76, 0x54, 0x32, 0x10]
      in (w 0, w 1, w 2, w 3))"

definition md5_padding :: "nat \<Rightarrow> byte list" where
  \<comment> \<open>a one bit, zeros up to 56 modulo 64, the length in bits, low word first\<close>
  "md5_padding n =
     0x80 # replicate ((119 - n mod 64) mod 64) 0
       @ bytes_of_word (word_of_int (8 * int n)) @ bytes_of_word (word_of_int (8 * int n div 2 ^ 32))"

definition md5_reference :: "byte list \<Rightarrow> byte list" where
  "md5_reference msg =
     (let (a, b, c, d) = fst (absorb md5_block rfc_start (msg @ md5_padding (length msg)))
      in bytes_of_word a @ bytes_of_word b @ bytes_of_word c @ bytes_of_word d)"

section \<open>The transform is that of the RFC\<close>

lemma F_rfc: "F1 = rfc_F" "F2 = rfc_G" "F3 = rfc_H" "F4 = rfc_I"
proof -
  have "F1 x y z = rfc_F x y z" "F2 x y z = rfc_G x y z" "F3 x y z = rfc_H x y z" "F4 x y z = rfc_I x y z" for x y z
    unfolding F1_def F2_def F3_def F4_def rfc_F_def rfc_G_def rfc_H_def rfc_I_def
    by (rule bit_word_eqI; auto simp: bit_simps)+
  then show "F1 = rfc_F" "F2 = rfc_G" "F3 = rfc_H" "F4 = rfc_I" by (intro ext; simp)+
qed

lemma steps_rfc: "md5_steps = map (\<lambda>i. (rfc_aux i, rfc_index i, rfc_T ! i, rfc_shift i)) [0..<64]"
  unfolding md5_steps_def F_rfc
  by (simp add: upt_rec rfc_aux_def rfc_index_def rfc_shift_def rfc_T_def)

lemma shift_range: "0 < rfc_shift i \<and> rfc_shift i < 32"
proof -
  have "i mod 4 \<in> {0, 1, 2, 3}" by auto
  then show ?thesis by (auto simp: rfc_shift_def)
qed

lemma round_rfc:
  assumes "\<forall>k < 16. blk ! k = X k"
  shows "md5_round blk h (rfc_aux i, rfc_index i, rfc_T ! i, rfc_shift i) = rfc_operation X h i"
proof -
  obtain a b c d where h: "h = (a, b, c, d)" by (cases h)
  have "rfc_index i < 16" by (simp add: rfc_index_def)
  then show ?thesis using assms shift_range [of i]
    by (simp add: h rfc_operation_def MD5STEP_def Let_def rotl_shifts ac_simps)
qed

lemma bytes_le_word: "word_of_bytes [b0, b1, b2, b3] = le_word (b0 # b1 # b2 # b3 # bs) 0"
proof -
  let ?b0 = "ucast b0 :: u32" and ?b1 = "push_bit 8 (ucast b1) :: u32" and ?b2 = "push_bit 16 (ucast b2) :: u32"
    and ?b3 = "push_bit 24 (ucast b3) :: u32"
  have "le_word (b0 # b1 # b2 # b3 # bs) 0 = ((?b0 + ?b1) + ?b2) + ?b3"
    unfolding le_word_def of_nat_add byte_shift by simp
  also have "?b0 + ?b1 = ?b0 OR ?b1" by (rule disjunctive_add) (auto simp: bit_simps dest: bit_imp_le_length)
  also have "(?b0 OR ?b1) + ?b2 = (?b0 OR ?b1) OR ?b2" by (rule disjunctive_add) (auto simp: bit_simps dest: bit_imp_le_length)
  also have "((?b0 OR ?b1) OR ?b2) + ?b3 = ((?b0 OR ?b1) OR ?b2) OR ?b3"
    by (rule disjunctive_add) (auto simp: bit_simps dest: bit_imp_le_length)
  also have "\<dots> = word_of_bytes [b0, b1, b2, b3]"
    by (rule bit_word_eqI) (auto simp: word_of_bytes_def bit_simps)
  finally show ?thesis by simp
qed

lemma nth_words: "4 * k + 3 < length bs \<Longrightarrow> words_of_bytes bs ! k = le_word bs k"
proof (induction bs arbitrary: k rule: words_of_bytes.induct)
  case (1 b0 b1 b2 b3 bs)
  show ?case
  proof (cases k)
    case 0
    then show ?thesis by (simp add: bytes_le_word)
  next
    case (Suc m)
    then have "le_word (b0 # b1 # b2 # b3 # bs) k = le_word bs m" by (simp add: le_word_def add.commute)
    then show ?thesis using 1 Suc by simp
  qed
qed auto

lemma transform_rfc:
  assumes "length blk = 64"
  shows "MD5Transform h (words_of_bytes blk) = md5_block h blk"
proof -
  have "\<forall>k < 16. words_of_bytes blk ! k = le_word blk k" using assms by (simp add: nth_words)
  then have "foldl (md5_round (words_of_bytes blk)) h md5_steps = foldl (rfc_operation (le_word blk)) h [0..<64]"
    by (simp add: steps_rfc foldl_map round_rfc [where X = "le_word blk"] del: upt_conv_Cons)
  then show ?thesis by (simp add: MD5Transform_def md5_block_def ac_simps split: prod.splits)
qed

lemma md5_start_rfc: "md5_iv = rfc_start"
  by (simp add: md5_iv_def rfc_start_def le_word_def Let_def)

text \<open>What one call of \<open>MD5Transform\<close> makes of the bytes of a block.\<close>

definition md5_compress :: "md5_regs \<Rightarrow> byte list \<Rightarrow> md5_regs" where
  "md5_compress h blk = MD5Transform h (words_of_bytes blk)"

lemma absorb_compress: "absorb md5_compress h msg = absorb md5_block h msg"
proof (induction md5_compress h msg rule: absorb.induct)
  case (1 h msg)
  show ?case
  proof (cases "length msg < 64")
    case False
    then have "md5_compress h (take 64 msg) = md5_block h (take 64 msg)" by (simp add: md5_compress_def transform_rfc)
    then show ?thesis using 1 False by (simp add: absorb.simps [of _ h msg])
  qed simp
qed

lemma md5_reference_compress:
  "md5_reference msg =
     (let (a, b, c, d) = fst (absorb md5_compress md5_iv (msg @ md5_padding (length msg)))
      in bytes_of_word a @ bytes_of_word b @ bytes_of_word c @ bytes_of_word d)"
  by (simp add: md5_reference_def absorb_compress md5_start_rfc)

text \<open>What the object of \<open>MD5\<close> stands for: the bytes added so far.\<close>

definition md5_rep :: "md5 \<Rightarrow> byte list \<Rightarrow> bool" where
  "md5_rep st msg \<longleftrightarrow>
     m_bits0 st = word_of_int (8 * int (length msg))
     \<and> m_bits1 st = word_of_int (8 * int (length msg) div 2 ^ 32)
     \<and> length (m_in st) = 64
     \<and> m_buf st = fst (absorb md5_compress md5_iv msg)
     \<and> take (length msg mod 64) (m_in st) = snd (absorb md5_compress md5_iv msg)"

section \<open>The streaming digest is the reference digest\<close>

lemma bytes_word_inverse [simp]: "bytes_of_word (word_of_bytes [b0, b1, b2, b3]) = [b0, b1, b2, b3]"
proof -
  have "ucast (word_of_bytes [b0, b1, b2, b3]) = b0"
    "ucast (drop_bit 8 (word_of_bytes [b0, b1, b2, b3])) = b1"
    "ucast (drop_bit 16 (word_of_bytes [b0, b1, b2, b3])) = b2"
    "ucast (drop_bit 24 (word_of_bytes [b0, b1, b2, b3])) = b3"
    unfolding word_of_bytes_def
    by (rule bit_word_eqI; auto simp: bit_simps dest: bit_imp_le_length)+
  then show ?thesis by (simp add: bytes_of_word_def)
qed

lemma reverseBytes_id [simp]: "reverseBytes bs n = bs"
  by (induction bs n rule: reverseBytes.induct) simp_all

lemma length_bytes_of_word [simp]: "length (bytes_of_word w) = 4"
  by (simp add: bytes_of_word_def)

lemma length_copy_at: "t + length src \<le> length dst \<Longrightarrow> length (copy_at t src dst) = length dst"
  by (simp add: copy_at_def)

lemma take_copy_at: "t + length src \<le> length dst \<Longrightarrow> take (t + length src) (copy_at t src dst) = take t dst @ src"
  by (simp add: copy_at_def)

lemma copy_at_full: "t + length src = length dst \<Longrightarrow> copy_at t src dst = take t dst @ src"
  by (simp add: copy_at_def)

lemma m_buf_transform_in [simp]: "m_buf (transform_in st blk) = md5_compress (m_buf st) blk"
  and m_in_transform_in [simp]: "m_in (transform_in st blk) = blk"
  and m_bits_transform_in [simp]: "m_bits0 (transform_in st blk) = m_bits0 st" "m_bits1 (transform_in st blk) = m_bits1 st"
  by (simp_all add: transform_in_def md5_compress_def Let_def)

lemma md5_chunks_absorb:
  assumes "length (m_in st) = 64"
  shows "m_buf (md5_chunks st buf) = fst (absorb md5_compress (m_buf st) buf)
    \<and> take (length buf mod 64) (m_in (md5_chunks st buf)) = snd (absorb md5_compress (m_buf st) buf)
    \<and> length (m_in (md5_chunks st buf)) = 64
    \<and> m_bits0 (md5_chunks st buf) = m_bits0 st \<and> m_bits1 (md5_chunks st buf) = m_bits1 st"
  using assms
proof (induction st buf rule: md5_chunks.induct)
  case (1 st buf)
  show ?case
  proof (cases "64 \<le> length buf")
    case True
    have "length (m_in (transform_in st (take 64 buf))) = 64" using True by simp
    from "1.IH" [OF True this] True show ?thesis
      by (subst (1 2 3 4 5) md5_chunks.simps, subst (1 2) absorb.simps) (simp add: le_mod_geq)
  next
    case False
    then show ?thesis using "1.prems" take_copy_at [of 0 buf "m_in st"]
      by (simp add: md5_chunks.simps [of st buf] length_copy_at)
  qed
qed

lemma unat_count: "unat (drop_bit 3 (word_of_int (8 * int n) :: u32) AND 0x3F) = n mod 64"
proof -
  have w: "(word_of_int (8 * int n) :: u32) = of_nat (8 * n)" by simp
  have "drop_bit 3 (of_nat (8 * n) :: u32) AND 0x3F = take_bit 6 (drop_bit 3 (of_nat (8 * n)))"
    by (simp add: take_bit_eq_mask mask_eq_exp_minus_1)
  then have "unat (drop_bit 3 (of_nat (8 * n) :: u32) AND 0x3F)
      = take_bit 6 (drop_bit 3 (unat (of_nat (8 * n) :: u32)))"
    by (simp only: unsigned_take_bit_eq unat_drop_bit_eq)
  then have "unat (drop_bit 3 (of_nat (8 * n) :: u32) AND 0x3F) = 8 * n mod 2 ^ 32 div 8 mod 64"
    by (simp add: unat_of_nat take_bit_eq_mod drop_bit_eq_div del: of_nat_mult)
  also have "8 * n mod 2 ^ 32 = 8 * (n mod 2 ^ 29)"
    by (simp add: mod_mult_mult1 [of 8 n "2 ^ 29", simplified])
  finally show ?thesis unfolding w by (simp add: mod_mod_cancel)
qed

lemma carry_bit: "x < N \<Longrightarrow> y < N \<Longrightarrow> (x + y) div N = (if (x + y) mod N < x then 1 else 0)" for x y N :: nat
  by (cases "x + y < N") (auto simp: div_if le_mod_geq not_less)

lemma bits_add:
  fixes n i :: nat
  assumes "i < 2 ^ 32"
  defines "t0 \<equiv> word_of_int (8 * int n) :: u32" and "len \<equiv> of_nat i :: u32"
  shows "t0 + push_bit 3 len = word_of_int (8 * int (n + i))"
    and "(if t0 + push_bit 3 len < t0 then word_of_int (8 * int n div 2 ^ 32) + 1 else word_of_int (8 * int n div 2 ^ 32))
          + drop_bit 29 len = (word_of_int (8 * int (n + i) div 2 ^ 32) :: u32)"
proof -
  show sum: "t0 + push_bit 3 len = word_of_int (8 * int (n + i))"
    by (simp add: t0_def len_def push_bit_eq_mult algebra_simps)
  have lt: "t0 + push_bit 3 len < t0 \<longleftrightarrow> (8 * (n + i)) mod 2 ^ 32 < 8 * n mod 2 ^ 32"
  proof -
    have e: "t0 = of_nat (8 * n)" "t0 + push_bit 3 len = of_nat (8 * (n + i))"
      unfolding sum by (simp_all add: t0_def)
    have "t0 + push_bit 3 len < t0 \<longleftrightarrow> unat (of_nat (8 * (n + i)) :: u32) < unat (of_nat (8 * n) :: u32)"
      by (subst e(2), subst e(1), rule word_less_nat_alt)
    then show ?thesis by (simp only: unat_of_nat) simp
  qed
  have hi: "drop_bit 29 len = of_nat (8 * i div 2 ^ 32)"
  proof (rule word_unat_eq_iff [THEN iffD2])
    have "unat (drop_bit 29 len) = drop_bit 29 (unat len)" by (rule unat_drop_bit_eq)
    then show "unat (drop_bit 29 len) = unat (of_nat (8 * i div 2 ^ 32) :: u32)"
      using assms(1) by (simp add: len_def unat_of_nat drop_bit_eq_div
          div_mult_mult1 [of 8 i "2 ^ 29", simplified])
  qed
  have D: "(8 * (n + i)) div 2 ^ 32 = 8 * n div 2 ^ 32 + 8 * i div 2 ^ 32
      + (if (8 * (n + i)) mod 2 ^ 32 < 8 * n mod 2 ^ 32 then 1 else 0)"
  proof -
    have "8 * (n + i) = 8 * n + 8 * i" by simp
    then show ?thesis
      using carry_bit [of "8 * n mod 2 ^ 32" "2 ^ 32" "8 * i mod 2 ^ 32"]
      by (simp only: div_add1_eq [of "8 * n" "8 * i"] mod_add_eq) simp
  qed
  have c: "(word_of_int (8 * int m div 2 ^ 32) :: u32) = of_nat (8 * m div 2 ^ 32)" for m
  proof -
    have "8 * int m div 2 ^ 32 = int (8 * m div 2 ^ 32)" by (simp only: zdiv_int of_nat_mult of_nat_numeral of_nat_power)
    then show ?thesis by (simp only: of_int_of_nat_eq)
  qed
  show "(if t0 + push_bit 3 len < t0 then word_of_int (8 * int n div 2 ^ 32) + 1 else word_of_int (8 * int n div 2 ^ 32))
          + drop_bit 29 len = (word_of_int (8 * int (n + i) div 2 ^ 32) :: u32)"
  proof (cases "(8 * (n + i)) mod 2 ^ 32 < 8 * n mod 2 ^ 32")
    case True
    then show ?thesis
      unfolding lt hi c D by (simp only: if_True of_nat_add of_nat_1 ac_simps)
  next
    case False
    then show ?thesis
      unfolding lt hi c D by (simp only: if_False of_nat_add of_nat_0 add_0_right)
  qed
qed

lemma md5_count_rep: "md5_rep st msg \<Longrightarrow> md5_count st = length msg mod 64"
  by (simp only: md5_rep_def md5_count_def unat_count)

lemma md5_rep_init: "md5_rep MD5_new []"
  by (simp add: md5_rep_def MD5_new_def)

lemma md5_rep_add:
  assumes rep: "md5_rep st msg" and len: "length input < 2 ^ 32"
  shows "md5_rep (addBytes st input) (msg @ input)"
proof -
  let ?h = "fst (absorb md5_compress md5_iv msg)" and ?r = "snd (absorb md5_compress md5_iv msg)"
  define t where "t = length msg mod 64"
  define st1 where "st1 = st\<lparr>m_bits0 := word_of_int (8 * int (length (msg @ input))),
      m_bits1 := word_of_int (8 * int (length (msg @ input)) div 2 ^ 32)\<rparr>"
  have t: "md5_count st = t" "t < 64" "length ?r = t" "take t (m_in st) = ?r"
    using rep by (simp_all add: md5_count_rep t_def length_absorb) (simp add: md5_rep_def)
  have in64: "length (m_in st) = 64" and h: "m_buf st = ?h" using rep by (simp_all add: md5_rep_def)
  have add: "addBytes st input =
     (if t \<noteq> 0 then
        (if length input < 64 - t then st1\<lparr>m_in := copy_at t input (m_in st)\<rparr>
         else md5_chunks (transform_in st1 (copy_at t (take (64 - t) input) (m_in st))) (drop (64 - t) input))
      else md5_chunks st1 input)"
    using bits_add [OF len, of "length msg"] rep
    unfolding addBytes_def Let_def t(1) st1_def md5_rep_def by (simp only: length_append)
  have ab: "absorb md5_compress md5_iv (msg @ input) = absorb md5_compress ?h (?r @ input)"
    by (rule absorb_append)
  have mod: "length (msg @ input) mod 64 = (t + length input) mod 64"
    by (simp add: t_def mod_add_left_eq)
  show ?thesis
  proof (cases "t \<noteq> 0 \<and> length input < 64 - t")
    case True
    then have fits: "t + length input \<le> length (m_in st)" and small: "t + length input < 64"
      using in64 by auto
    have "absorb md5_compress ?h (?r @ input) = (?h, ?r @ input)" using small t by simp
    moreover have "addBytes st input = st1\<lparr>m_in := copy_at t input (m_in st)\<rparr>" using True add by simp
    moreover have "(t + length input) mod 64 = t + length input" using small by simp
    ultimately show ?thesis
      using take_copy_at [OF fits] length_copy_at [OF fits] t(4) in64 h
      unfolding md5_rep_def ab mod by (simp add: st1_def)
  next
    case False
    show ?thesis
    proof (cases "t = 0")
      case True
      with t have "?r = []" by simp
      then show ?thesis
        using md5_chunks_absorb [of st1 input] in64 h True
        unfolding md5_rep_def ab mod by (simp add: add) (simp add: st1_def)
    next
      case nz: False
      let ?blk = "?r @ take (64 - t) input"
      have blk: "copy_at t (take (64 - t) input) (m_in st) = ?blk"
        using False nz t in64 by (subst copy_at_full) auto
      have l: "length ?blk = 64" using False nz t by auto
      have "?r @ input = ?blk @ drop (64 - t) input" by simp
      then have ab': "absorb md5_compress ?h (?r @ input) = absorb md5_compress (md5_compress ?h ?blk) (drop (64 - t) input)"
        using absorb_block [OF l] by metis
      have "(t + length input) mod 64 = (length input - (64 - t)) mod 64"
        using False nz t(2) by (simp add: le_mod_geq add.commute)
      then show ?thesis
        using md5_chunks_absorb [of "transform_in st1 ?blk" "drop (64 - t) input"] l h False nz
        unfolding md5_rep_def ab ab' mod by (simp add: add blk) (simp add: st1_def)
    qed
  qed
qed

lemma length_m_in_rep: "md5_rep st msg \<Longrightarrow> length (m_in st) = 64"
  by (simp add: md5_rep_def)

lemma checksum_reference:
  assumes rep: "md5_rep st msg"
  shows "checksum st = md5_reference msg"
proof -
  let ?h = "fst (absorb md5_compress md5_iv msg)" and ?r = "snd (absorb md5_compress md5_iv msg)"
  define n where "n = length msg mod 64"
  define tail where "tail = bytes_of_word (m_bits0 st) @ bytes_of_word (m_bits1 st)"
  have n: "md5_count st = n" "n < 64" "length ?r = n" "take n (m_in st) = ?r"
    and in64: "length (m_in st) = 64" and h: "m_buf st = ?h"
    using rep by (simp_all add: md5_count_rep n_def length_absorb) (simp_all add: md5_rep_def)
  have tl: "length tail = 8" by (simp add: tail_def)
  have pad: "md5_padding (length msg) = 0x80 # replicate ((119 - n) mod 64) 0 @ tail"
    using rep by (simp add: md5_padding_def md5_rep_def tail_def n_def)
  have in1: "copy_at n [0x80] (m_in st) = ?r @ 0x80 # drop (Suc n) (m_in st)"
    using n by (simp add: copy_at_def)
  have ref: "absorb md5_compress md5_iv (msg @ md5_padding (length msg))
      = absorb md5_compress ?h (?r @ 0x80 # replicate ((119 - n) mod 64) 0 @ tail)"
    by (simp add: absorb_append [of _ _ msg] pad)
  show ?thesis
  proof (cases "63 - n < 8")
    case True
    let ?blk = "?r @ 0x80 # replicate (63 - n) 0"
    have "copy_at (Suc n) (replicate (63 - n) 0) (?r @ 0x80 # drop (Suc n) (m_in st)) = ?blk"
      using n in64 by (simp add: copy_at_def)
    moreover have "copy_at 56 tail (copy_at 0 (replicate 56 0) ?blk) = replicate 56 0 @ tail"
      using tl n True by (simp add: copy_at_def)
    moreover have mod: "(119 - n) mod 64 = (63 - n) + 56" using True n(2) by (simp add: mod_if)
    have "?r @ 0x80 # replicate ((119 - n) mod 64) 0 @ tail = ?blk @ (replicate 56 0 @ tail) @ []"
      unfolding mod replicate_add by simp
    moreover have "absorb md5_compress ?h (?blk @ (replicate 56 0 @ tail) @ [])
        = absorb md5_compress (md5_compress (md5_compress ?h ?blk) (replicate 56 0 @ tail)) []"
      using n(2,3) tl absorb_block [of ?blk md5_compress ?h "(replicate 56 0 @ tail) @ []"]
        absorb_block [of "replicate 56 0 @ tail" md5_compress "md5_compress ?h ?blk" "[]"] by simp
    ultimately show ?thesis
      using True unfolding md5_reference_compress ref
      by (simp add: checksum_def n in1 h md5_compress_def flip: tail_def)
  next
    case False
    let ?blk = "?r @ 0x80 # replicate (55 - n) 0"
    have "copy_at 56 tail (copy_at (Suc n) (replicate (55 - n) 0) (?r @ 0x80 # drop (Suc n) (m_in st))) = ?blk @ tail"
      using tl n False in64 Suc_diff_le [of n 55] by (simp add: copy_at_def)
    moreover have "(119 - n) mod 64 = 55 - n" using False n(2) by (simp add: mod_if)
    moreover have "absorb md5_compress ?h ((?blk @ tail) @ []) = absorb md5_compress (md5_compress ?h (?blk @ tail)) []"
      using n(2,3) tl False by (subst absorb_block; simp)
    ultimately show ?thesis
      using False unfolding md5_reference_compress ref
      by (simp add: checksum_def n in1 h md5_compress_def flip: tail_def)
  qed
qed

interpretation md5: streaming_hash MD5_new addBytes checksum md5_rep "\<lambda>xs. length xs < 2 ^ 32" md5_reference
  by unfold_locales (simp_all only: md5_rep_init md5_rep_add checksum_reference)

text \<open>
  C6: however the message is cut into calls of \<open>addBytes\<close> (each shorter than 4 GiB, the range
  of its length argument), \<open>checksum\<close> returns the RFC 1321 digest of the whole message.
\<close>

theorem md5_digest_of_chunks:
  assumes "\<forall>xs \<in> set xss. length xs < 2 ^ 32"
  shows "checksum (foldl addBytes MD5_new xss) = md5_reference (concat xss)"
  using md5.digest_of_chunks [OF assms] .

theorem md5_digest_of_chunks_witness:
  "checksum (addBytes (addBytes MD5_new [0x61]) [0x62, 0x63]) = md5_reference [0x61, 0x62, 0x63]
   \<and> checksum (addBytes (addBytes MD5_new [0x61]) [0x62, 0x63]) =
      [0x90, 0x01, 0x50, 0x98, 0x3c, 0xd2, 0x4f, 0xb0, 0xd6, 0x96, 0x3f, 0x7d, 0x28, 0xe1, 0x7f, 0x72]"
proof
  show "checksum (addBytes (addBytes MD5_new [0x61]) [0x62, 0x63]) = md5_reference [0x61, 0x62, 0x63]"
    using md5_digest_of_chunks [of "[[0x61], [0x62, 0x63]]"] by simp
  show "checksum (addBytes (addBytes MD5_new [0x61]) [0x62, 0x63]) =
      [0x90, 0x01, 0x50, 0x98, 0x3c, 0xd2, 0x4f, 0xb0, 0xd6, 0x96, 0x3f, 0x7d, 0x28, 0xe1, 0x7f, 0x72]"
    by code_simp
qed

end
