(* ===== verification/SharedBuffer.thy ===== *)
theory SharedBuffer
  imports Prelude
begin

text \<open>
  The response body of a load, \<open>WebCore::SharedBuffer\<close>: a contiguous vector followed by
  segments of 4096 bytes. The abstraction \<open>sb_content\<close> is the byte string it stands for.
  Every operation is shown to implement the corresponding operation on byte strings, and
  the locale \<open>byte_source\<close> gives its readers (the copy loop here, the cache file writer)
  what they rely on: \<open>getSomeData\<close> returns a non-empty piece at every position inside.

  Purgeable and platform buffers are not used by this port's network code; \<open>m_size\<close> is an
  \<open>unsigned\<close>, with its wrap-around written out.
\<close>

section \<open>State\<close>

record shared_buffer =
  m_size :: int
  m_buffer :: "byte list"
  m_segments :: "byte list list"

definition segmentSize :: nat where
  "segmentSize = 0x1000"

definition segmentIndex :: "int \<Rightarrow> nat" where
  "segmentIndex position = nat (position div 0x1000)"

definition offsetInSegment :: "int \<Rightarrow> nat" where
  \<comment> \<open>\<open>position & 0x0FFF\<close> on an \<open>unsigned\<close>, 2 ^ 32 being a multiple of the segment size\<close>
  "offsetInSegment position = nat (position mod 0x1000)"

definition SharedBuffer_new :: shared_buffer where
  "SharedBuffer_new = \<lparr>m_size = 0, m_buffer = [], m_segments = []\<rparr>"

definition adoptVector :: "byte list \<Rightarrow> shared_buffer" where
  "adoptVector vector = \<lparr>m_size = int (length vector), m_buffer = vector, m_segments = []\<rparr>"

section \<open>Operations\<close>

text \<open>\<open>memcpy\<close> into a segment at an offset.\<close>

definition poke :: "nat \<Rightarrow> byte list \<Rightarrow> byte list \<Rightarrow> byte list" where
  "poke off src seg = take off seg @ src @ drop (off + length src) seg"

text \<open>
  The later rounds of the copy loop: each allocates a segment and fills it from its start.
  \<open>mem\<close> is what the allocator hands out, 4096 bytes of unspecified content.
\<close>

function fresh_segments :: "byte list \<Rightarrow> byte list \<Rightarrow> byte list list" where
  "fresh_segments mem data =
     (if data = [] then []
      else poke 0 (take segmentSize data) mem # fresh_segments mem (drop segmentSize data))"
  by pat_completeness auto
termination
  by (relation "measure (\<lambda>(mem, data). length data)") (auto simp: segmentSize_def)

declare fresh_segments.simps [simp del]

definition append_data :: "byte list \<Rightarrow> shared_buffer \<Rightarrow> byte list \<Rightarrow> shared_buffer" where
  "append_data mem sb data =
     (if data = [] then sb
      else
        let positionInSegment = offsetInSegment (m_size sb - int (length (m_buffer sb)));
            size' = (m_size sb + int (length data)) mod 2 ^ 32
        in if size' \<le> 0x1000 then sb\<lparr>m_size := size', m_buffer := m_buffer sb @ data\<rparr>
           else
             let segs = (if positionInSegment = 0 then m_segments sb @ [mem] else m_segments sb);
                 bytesToCopy = min (length data) (segmentSize - positionInSegment);
                 segs1 = butlast segs @ [poke positionInSegment (take bytesToCopy data) (last segs)]
             in sb\<lparr>m_size := size',
                   m_segments := segs1 @ fresh_segments mem (drop bytesToCopy data)\<rparr>)"

definition sb_clear :: "shared_buffer \<Rightarrow> shared_buffer" where
  "sb_clear sb = sb\<lparr>m_segments := [], m_size := 0, m_buffer := []\<rparr>"

text \<open>\<open>buffer()\<close> merges the segments into the vector and returns it.\<close>

fun merge_segments :: "byte list list \<Rightarrow> nat \<Rightarrow> byte list" where
  "merge_segments [] bytesLeft = []"
| "merge_segments (seg # segs) bytesLeft =
     (let bytesToCopy = min bytesLeft segmentSize
      in take bytesToCopy seg @ merge_segments segs (bytesLeft - bytesToCopy))"

definition sb_buffer :: "shared_buffer \<Rightarrow> byte list \<times> shared_buffer" where
  "sb_buffer sb =
     (let bufferSize = int (length (m_buffer sb))
      in if bufferSize < m_size sb
         then let b = m_buffer sb @ merge_segments (m_segments sb) (nat (m_size sb - bufferSize))
              in (b, sb\<lparr>m_buffer := b, m_segments := []\<rparr>)
         else (m_buffer sb, sb))"

text \<open>\<open>copy()\<close>: the clone's vector gets every segment whole.\<close>

definition sb_copy :: "shared_buffer \<Rightarrow> shared_buffer" where
  "sb_copy sb =
     \<lparr>m_size = m_size sb, m_buffer = m_buffer sb @ concat (m_segments sb), m_segments = []\<rparr>"

text \<open>\<open>getSomeData\<close> returns a pointer and a length: here the bytes they denote.\<close>

definition getSomeData :: "shared_buffer \<Rightarrow> int \<Rightarrow> byte list" where
  "getSomeData sb position =
     (let totalSize = m_size sb; consecutiveSize = int (length (m_buffer sb)) in
      if totalSize \<le> position then []
      else if position < consecutiveSize then drop (nat position) (m_buffer sb)
      else
        let position' = position - consecutiveSize;
            segments = length (m_segments sb);
            maxSegmentedSize = int segments * 0x1000;
            segment = segmentIndex position'
        in if segment < segments then
             let segmentedSize = min maxSegmentedSize (totalSize - consecutiveSize);
                 positionInSegment = offsetInSegment position';
                 n = (if segment = segments - 1 then nat (segmentedSize - position')
                      else segmentSize - positionInSegment)
             in take n (drop positionInSegment (m_segments sb ! segment))
           else [])"

text \<open>\<open>append(SharedBuffer*)\<close>: pieces of the other buffer until there are none.\<close>

partial_function (option) append_loop ::
    "byte list \<Rightarrow> shared_buffer \<Rightarrow> shared_buffer \<Rightarrow> int \<Rightarrow> shared_buffer option" where
  "append_loop mem sb data position =
     (let segment = getSomeData data position
      in if segment = [] then Some sb
         else append_loop mem (append_data mem sb segment) data (position + int (length segment)))"

definition append_buffer :: "byte list \<Rightarrow> shared_buffer \<Rightarrow> shared_buffer \<Rightarrow> shared_buffer option" where
  "append_buffer mem sb data = append_loop mem sb data 0"

section \<open>Well-formedness and content\<close>

text \<open>
  Full segments except the last, which is not empty; segments only exist beyond 4096 bytes
  in total; the size fits \<open>unsigned\<close>.
\<close>

definition sb_wf :: "shared_buffer \<Rightarrow> bool" where
  "sb_wf sb \<longleftrightarrow>
     (\<forall>seg \<in> set (m_segments sb). length seg = segmentSize)
     \<and> m_size sb < 2 ^ 32
     \<and> (if m_segments sb = [] then m_size sb = int (length (m_buffer sb))
        else 0x1000 < m_size sb
          \<and> int (length (m_buffer sb) + segmentSize * (length (m_segments sb) - 1)) < m_size sb
          \<and> m_size sb \<le> int (length (m_buffer sb) + segmentSize * length (m_segments sb)))"

definition sb_content :: "shared_buffer \<Rightarrow> byte list" where
  "sb_content sb = take (nat (m_size sb)) (m_buffer sb @ concat (m_segments sb))"

section \<open>Readers\<close>

text \<open>
  What a loop over \<open>getSomeData\<close> relies on. \<open>pieces\<close> are the successive results from a
  position on; the laws make them finite and their concatenation the rest of the content.
\<close>

locale byte_source =
  fixes get :: "'b \<Rightarrow> int \<Rightarrow> byte list"
    and wf :: "'b \<Rightarrow> bool"
    and content :: "'b \<Rightarrow> byte list"
  assumes get_inside: "wf b \<Longrightarrow> 0 \<le> p \<Longrightarrow> p < int (length (content b)) \<Longrightarrow>
      get b p \<noteq> [] \<and> (\<exists>rest. drop (nat p) (content b) = get b p @ rest)"
    and get_end: "wf b \<Longrightarrow> int (length (content b)) \<le> p \<Longrightarrow> get b p = []"
begin

lemma get_bound:
  assumes "wf b" "0 \<le> p" "p \<le> int (length (content b))"
  shows "p + int (length (get b p)) \<le> int (length (content b))"
proof (cases "p < int (length (content b))")
  case True
  from get_inside [OF assms(1,2) True] obtain rest where "drop (nat p) (content b) = get b p @ rest" by blast
  then have "length (content b) - nat p = length (get b p) + length rest"
    by (metis length_append length_drop)
  then show ?thesis using assms(2,3) by linarith
qed (use assms get_end in simp)

lemma get_take: "wf b \<Longrightarrow> 0 \<le> p \<Longrightarrow> p \<le> int (length (content b)) \<Longrightarrow>
    take (nat p) (content b) @ get b p = take (nat (p + int (length (get b p)))) (content b)"
proof (cases "p < int (length (content b))")
  case True
  assume "wf b" "0 \<le> p"
  from get_inside [OF this True] obtain rest where r: "drop (nat p) (content b) = get b p @ rest" by blast
  have "nat (p + int (length (get b p))) = nat p + length (get b p)" using \<open>0 \<le> p\<close> by simp
  then show ?thesis by (simp add: take_add r)
qed (simp add: get_end)

text \<open>Induction over the reading loop: from any position to the end of the content.\<close>

lemma read_induct [consumes 3, case_names finish piece]:
  assumes "wf b" "0 \<le> p" "p \<le> int (length (content b))"
    and fin: "P (int (length (content b)))"
    and step: "\<And>p. 0 \<le> p \<Longrightarrow> p < int (length (content b)) \<Longrightarrow> get b p \<noteq> [] \<Longrightarrow>
        p + int (length (get b p)) \<le> int (length (content b)) \<Longrightarrow>
        P (p + int (length (get b p))) \<Longrightarrow> P p"
  shows "P p"
  using assms(2,3)
proof (induction "nat (int (length (content b)) - p)" arbitrary: p rule: less_induct)
  case less
  show ?case
  proof (cases "p < int (length (content b))")
    case True
    have ne: "get b p \<noteq> []" using get_inside [OF assms(1) less.prems(1) True] by simp
    let ?q = "p + int (length (get b p))"
    have q: "?q \<le> int (length (content b))" by (rule get_bound [OF assms(1) less.prems])
    have "p < ?q" using ne by simp
    then have "P ?q" using less.hyps [of ?q] less.prems q by linarith
    then show ?thesis using step [OF less.prems(1) True ne q] by simp
  next
    case False
    then show ?thesis using fin less.prems by simp
  qed
qed

end

section \<open>Laws\<close>

lemma length_concat_const: "\<forall>seg \<in> set segs. length seg = n \<Longrightarrow> length (concat segs) = n * length segs"
  by (induction segs) auto

lemma take_length_add: "take (length xs + k) (xs @ ys) = xs @ take k ys"
  by simp

lemma poke_start: "length src \<le> length seg \<Longrightarrow> take (length src) (poke 0 src seg) = src"
  by (simp add: poke_def)

lemma length_poke [simp]: "off + length src \<le> length seg \<Longrightarrow> length (poke off src seg) = length seg"
  by (simp add: poke_def)

lemma poke_full: "length src = length seg \<Longrightarrow> poke 0 src seg = src"
  by (simp add: poke_def)

lemma fresh_segments_length:
  "length mem = segmentSize \<Longrightarrow> seg \<in> set (fresh_segments mem data) \<Longrightarrow> length seg = segmentSize"
proof (induction mem data rule: fresh_segments.induct)
  case (1 mem data)
  show ?case
  proof (cases "data = []")
    case False
    with 1 show ?thesis by (subst (asm) (2) fresh_segments.simps) auto
  qed (use 1 in \<open>simp add: fresh_segments.simps\<close>)
qed

lemma fresh_segments_content:
  assumes "length mem = segmentSize"
  shows "take (length data) (concat (fresh_segments mem data)) = data"
    and "length data \<le> segmentSize * length (fresh_segments mem data)"
    and "data \<noteq> [] \<Longrightarrow> segmentSize * (length (fresh_segments mem data) - 1) < length data"
  using assms
proof (induction mem data rule: fresh_segments.induct)
  case (1 mem data)
  let ?f = "fresh_segments mem (drop segmentSize data)"
  {
    case 1
    show ?case
    proof (cases "data = []")
      case ne: False
      show ?thesis
      proof (cases "length data \<le> segmentSize")
        case True
        with ne 1 show ?thesis by (subst fresh_segments.simps) (simp add: poke_start)
      next
        case False
        then have "poke 0 (take segmentSize data) mem = take segmentSize data" using 1 by (intro poke_full) simp
        then show ?thesis using ne False "1.IH"(1) 1
          by (subst fresh_segments.simps) (simp add: min_absorb2)
      qed
    qed (simp add: fresh_segments.simps)
  next
    case 2
    then show ?case using "1.IH"(2) by (subst fresh_segments.simps) (auto simp: segmentSize_def)
  next
    case 3
    show ?case
    proof (cases "drop segmentSize data = []")
      case True
      then have "?f = []" by (simp add: fresh_segments.simps)
      then show ?thesis using 3 by (subst fresh_segments.simps) simp
    next
      case False
      then have "?f \<noteq> []" by (subst fresh_segments.simps) simp
      moreover have "segmentSize * (length ?f - 1) < length (drop segmentSize data)"
        using "1.IH"(3) 3 False by simp
      ultimately show ?thesis using 3
        by (subst fresh_segments.simps) (cases ?f; simp add: algebra_simps)
    qed
  }
qed

lemma offset_range: "offsetInSegment p < segmentSize"
  by (simp add: offsetInSegment_def segmentSize_def nat_less_iff)

lemma sb_wf_split:
  assumes "sb_wf sb" "m_segments sb \<noteq> []"
  obtains segs l u where "m_segments sb = segs @ [l]" "0 < u" "u \<le> segmentSize"
    "m_size sb = int (length (m_buffer sb @ concat segs) + u)"
    "sb_content sb = m_buffer sb @ concat segs @ take u l"
    "length (concat segs) = segmentSize * length segs"
proof -
  obtain segs l where s: "m_segments sb = segs @ [l]" using assms(2) by (metis rev_exhaust)
  have c: "length (concat segs) = segmentSize * length segs"
    using assms(1) s by (intro length_concat_const) (simp add: sb_wf_def)
  define u where "u = nat (m_size sb) - length (m_buffer sb @ concat segs)"
  have u: "0 < u" "u \<le> segmentSize" "m_size sb = int (length (m_buffer sb @ concat segs) + u)"
    using assms(1) by (simp_all add: u_def sb_wf_def s c segmentSize_def) linarith+
  have "sb_content sb = m_buffer sb @ concat segs @ take u l"
    unfolding sb_content_def s u(3) nat_int by simp
  with s u c show thesis by (intro that)
qed

lemma length_sb_content: "sb_wf sb \<Longrightarrow> length (sb_content sb) = nat (m_size sb)"
  using length_concat_const [of "m_segments sb" segmentSize]
  by (auto simp: sb_wf_def sb_content_def segmentSize_def min_def split: if_splits)

lemma sb_buffer_le: "sb_wf sb \<Longrightarrow> length (m_buffer sb) \<le> nat (m_size sb)"
  by (auto simp: sb_wf_def segmentSize_def split: if_splits)

lemma sb_size_nonneg: "sb_wf sb \<Longrightarrow> 0 \<le> m_size sb"
  by (auto simp: sb_wf_def split: if_splits)

text \<open>A buffer that ends at a segment boundary: the new data goes to fresh segments.\<close>

lemma append_fresh:
  assumes wf: "sb_wf sb" and mem: "length mem = segmentSize" and ne: "data \<noteq> []"
    and full: "m_size sb = int (length (m_buffer sb) + segmentSize * length (m_segments sb))"
    and room: "m_size sb + int (length data) < 2 ^ 32" and big: "0x1000 < m_size sb + int (length data)"
  defines "sb' \<equiv> sb\<lparr>m_size := m_size sb + int (length data), m_segments := m_segments sb @ fresh_segments mem data\<rparr>"
  shows "sb_wf sb' \<and> sb_content sb' = sb_content sb @ data"
proof
  let ?f = "fresh_segments mem data"
  have f: "?f \<noteq> []" using ne by (subst fresh_segments.simps) simp
  have c: "length (concat (m_segments sb)) = segmentSize * length (m_segments sb)"
    using wf by (intro length_concat_const) (simp add: sb_wf_def)
  have "int (length (m_buffer sb) + segmentSize * (length (m_segments sb @ ?f) - 1)) < m_size sb + int (length data)"
    using fresh_segments_content(3) [OF mem ne] f full f by (cases ?f) (simp_all add: segmentSize_def)
  moreover have "m_size sb + int (length data) \<le> int (length (m_buffer sb) + segmentSize * length (m_segments sb @ ?f))"
    using fresh_segments_content(2) [OF mem, of data] full by (simp add: segmentSize_def)
  ultimately show "sb_wf sb'"
    using wf f room big fresh_segments_length [OF mem] by (auto simp: sb_wf_def sb'_def)
  have "nat (m_size sb + int (length data)) = length (m_buffer sb @ concat (m_segments sb)) + length data"
    using full c by (simp add: segmentSize_def)
  moreover have "sb_content sb = m_buffer sb @ concat (m_segments sb)"
    unfolding sb_content_def full nat_int by (simp add: c)
  ultimately show "sb_content sb' = sb_content sb @ data"
    using fresh_segments_content(1) [OF mem, of data]
    by (simp add: sb_content_def sb'_def)
qed

lemma append_data_fresh:
  assumes "m_size sb = int (length (m_buffer sb) + segmentSize * length (m_segments sb))"
    and ne: "data \<noteq> []" and room: "m_size sb + int (length data) < 2 ^ 32" and big: "0x1000 < m_size sb + int (length data)"
    and mem: "length mem = segmentSize"
  shows "append_data mem sb data =
    sb\<lparr>m_size := m_size sb + int (length data), m_segments := m_segments sb @ fresh_segments mem data\<rparr>"
proof -
  have pos: "offsetInSegment (m_size sb - int (length (m_buffer sb))) = 0"
    using assms(1) by (simp add: offsetInSegment_def segmentSize_def)
  have cut: "take (min (length data) segmentSize) data = take segmentSize data"
    "drop (min (length data) segmentSize) data = drop segmentSize data" by (simp_all add: min_def)
  have "(m_size sb + int (length data)) mod 2 ^ 32 = m_size sb + int (length data)"
    using room assms(1) by (intro mod_pos_pos_trivial) simp_all
  then show ?thesis
    using ne big unfolding append_data_def Let_def pos
    by (simp only: if_False if_True diff_zero refl cut fresh_segments.simps [of mem data] butlast_snoc last_snoc
        append_assoc append_Cons append_Nil not_le [symmetric] simp_thms cong: if_cong)
qed

text \<open>Room in the last segment: the data goes there first.\<close>

lemma append_within:
  assumes wf: "sb_wf sb" and mem: "length mem = segmentSize" and ne: "data \<noteq> []"
    and room: "m_size sb + int (length data) < 2 ^ 32"
    and pos: "offsetInSegment (m_size sb - int (length (m_buffer sb))) \<noteq> 0"
  shows "sb_wf (append_data mem sb data) \<and> sb_content (append_data mem sb data) = sb_content sb @ data"
proof -
  have "m_segments sb \<noteq> []" using pos wf by (auto simp: offsetInSegment_def sb_wf_def)
  then obtain segs l u where s: "m_segments sb = segs @ [l]" "0 < u" "u \<le> segmentSize"
    and sz: "m_size sb = int (length (m_buffer sb @ concat segs) + u)"
    and old: "sb_content sb = m_buffer sb @ concat segs @ take u l"
    and c: "length (concat segs) = segmentSize * length segs"
    using sb_wf_split [OF wf] by blast
  have l: "length l = segmentSize" and all: "\<forall>seg \<in> set segs. length seg = segmentSize"
    and big: "0x1000 < m_size sb"
    using wf by (simp_all add: sb_wf_def s(1))
  have off: "offsetInSegment (m_size sb - int (length (m_buffer sb))) = (if u = segmentSize then 0 else u)"
    using s(2,3) by (simp add: sz c offsetInSegment_def segmentSize_def)
  with pos have u: "u < segmentSize" "offsetInSegment (m_size sb - int (length (m_buffer sb))) = u"
    using s(3) by (simp_all split: if_splits)
  define n where "n = min (length data) (segmentSize - u)"
  have upd: "append_data mem sb data = sb\<lparr>m_size := m_size sb + int (length data),
      m_segments := segs @ poke u (take n data) l # fresh_segments mem (drop n data)\<rparr>"
    using ne big room s(2) sb_size_nonneg [OF wf]
    by (simp add: append_data_def Let_def u(2) s(1) n_def mod_pos_pos_trivial)
  have lp: "length (poke u (take n data) l) = segmentSize" using l u(1) by (subst length_poke) (auto simp: n_def)
  have total: "nat (m_size sb + int (length data)) = length (m_buffer sb @ concat segs) + (u + length data)"
    using sz by simp
  show ?thesis
  proof (cases "length data \<le> segmentSize - u")
    case True
    then have n: "n = length data" "fresh_segments mem (drop n data) = []"
      by (simp_all add: n_def fresh_segments.simps)
    have none: "fresh_segments mem [] = []" by (simp add: fresh_segments.simps)
    have "take (u + length data) (poke u data l) = take u l @ data" using l s(3) by (simp add: poke_def)
    moreover have "sb_wf (append_data mem sb data)"
      using True wf room all lp big sz c s(2) u(1) by (simp add: upd n none sb_wf_def segmentSize_def s(1))
    ultimately show ?thesis unfolding old by (simp add: sb_content_def upd n none total)
  next
    case False
    define rest where "rest = drop n data"
    have rest: "rest \<noteq> []" "length data = (segmentSize - u) + length rest" "data = take n data @ rest"
      "length (take n data) = segmentSize - u" using False by (simp_all add: rest_def n_def)
    then have "fresh_segments mem rest \<noteq> []" by (subst fresh_segments.simps) simp
    then obtain f fs where fs: "fresh_segments mem rest = f # fs" by (cases "fresh_segments mem rest") auto
    have p: "poke u (take n data) l = take u l @ take n data" using rest(4) l u(1) by (simp add: poke_def)
    have ok: "sb_wf (append_data mem sb data)"
      using wf room all lp big sz c rest fresh_segments_content(2,3) [OF mem, of rest] u(1)
        fresh_segments_length [OF mem, of _ rest]
      by (auto simp: upd sb_wf_def segmentSize_def s(1) fs simp flip: rest_def)
    have "sb_content (append_data mem sb data)
        = take (nat (m_size sb + int (length data))) (m_buffer sb @ concat (segs @ poke u (take n data) l # fresh_segments mem rest))"
      by (simp add: sb_content_def upd flip: rest_def)
    also have "nat (m_size sb + int (length data)) = length (sb_content sb @ take n data) + length rest"
      using total rest(2,4) l u(1) unfolding old by simp
    also have "m_buffer sb @ concat (segs @ poke u (take n data) l # fresh_segments mem rest)
        = (sb_content sb @ take n data) @ concat (fresh_segments mem rest)"
      unfolding old p by simp
    finally have "sb_content (append_data mem sb data) = sb_content sb @ take n data @ rest"
      unfolding take_length_add fresh_segments_content(1) [OF mem] by simp
    then show ?thesis using ok rest(3) by simp
  qed
qed

lemma sb_append:
  assumes wf: "sb_wf sb" and mem: "length mem = segmentSize"
    and room: "m_size sb + int (length data) < 2 ^ 32"
  shows "sb_wf (append_data mem sb data) \<and> sb_content (append_data mem sb data) = sb_content sb @ data"
proof (cases "data = []")
  case True
  then show ?thesis using wf by (simp add: append_data_def)
next
  case ne: False
  show ?thesis
  proof (cases "m_size sb + int (length data) \<le> 0x1000")
    case True
    then have "m_segments sb = []" "m_size sb = int (length (m_buffer sb))"
      using wf by (auto simp: sb_wf_def split: if_splits)
    then show ?thesis using ne True wf room
      by (simp add: append_data_def Let_def sb_wf_def sb_content_def mod_pos_pos_trivial)
  next
    case False
    show ?thesis
    proof (cases "offsetInSegment (m_size sb - int (length (m_buffer sb))) = 0")
      case True
      have full: "m_size sb = int (length (m_buffer sb) + segmentSize * length (m_segments sb))"
      proof (cases "m_segments sb = []")
        case False
        then obtain segs l u where "m_segments sb = segs @ [l]" "0 < u" "u \<le> segmentSize"
          "m_size sb = int (length (m_buffer sb @ concat segs) + u)" "length (concat segs) = segmentSize * length segs"
          using sb_wf_split [OF wf] by blast
        moreover from this have "u = segmentSize"
          using True by (cases "u < segmentSize") (auto simp: offsetInSegment_def segmentSize_def)
        ultimately show ?thesis by simp
      qed (use wf in \<open>simp add: sb_wf_def\<close>)
      show ?thesis
        using append_fresh [OF wf mem ne full room] append_data_fresh [OF full ne room _ mem] False by simp
    qed (rule append_within [OF wf mem ne room])
  qed
qed

lemma getSomeData_end: "m_size sb \<le> p \<Longrightarrow> getSomeData sb p = []"
  by (simp add: getSomeData_def)

lemma drop_concat_segment:
  assumes "\<forall>seg \<in> set segs. length seg = n" "i < length segs" "q \<le> n"
  shows "drop (i * n + q) (concat segs) = drop q (segs ! i) @ concat (drop (Suc i) segs)"
  using assms
proof (induction segs arbitrary: i)
  case (Cons s segs)
  then show ?case by (cases i) (simp_all add: add.assoc)
qed simp

lemma getSomeData_inside:
  assumes wf: "sb_wf sb" and p: "0 \<le> p" "p < m_size sb"
  shows "getSomeData sb p \<noteq> [] \<and> (\<exists>rest. drop (nat p) (sb_content sb) = getSomeData sb p @ rest)"
proof (cases "p < int (length (m_buffer sb))")
  case True
  then have g: "getSomeData sb p = drop (nat p) (m_buffer sb)" using p by (simp add: getSomeData_def)
  have "length (m_buffer sb) \<le> nat (m_size sb)" by (rule sb_buffer_le [OF wf])
  then have "sb_content sb = m_buffer sb @ take (nat (m_size sb) - length (m_buffer sb)) (concat (m_segments sb))"
    by (simp add: sb_content_def)
  then show ?thesis using g True p by (simp add: nat_less_iff)
next
  case False
  then have "m_segments sb \<noteq> []" using wf p by (auto simp: sb_wf_def)
  then obtain segs l u where s: "m_segments sb = segs @ [l]" "0 < u" "u \<le> segmentSize"
    and sz: "m_size sb = int (length (m_buffer sb @ concat segs) + u)"
    and content: "sb_content sb = m_buffer sb @ concat segs @ take u l"
    and c: "length (concat segs) = segmentSize * length segs"
    using sb_wf_split [OF wf] by blast
  have l: "length l = segmentSize" and all: "\<forall>seg \<in> set segs. length seg = segmentSize"
    using wf by (simp_all add: sb_wf_def s(1))
  define q where "q = nat p - length (m_buffer sb)"
  define i where "i = q div segmentSize"
  define off where "off = q mod segmentSize"
  have q: "q = i * segmentSize + off" "off < segmentSize" by (simp_all add: i_def off_def segmentSize_def)
  have pq: "p - int (length (m_buffer sb)) = int q" "nat p = length (m_buffer sb) + q"
    using False p by (simp_all add: q_def)
  have idx: "segmentIndex (int q) = i" "offsetInSegment (int q) = off"
    by (simp_all add: segmentIndex_def offsetInSegment_def i_def off_def segmentSize_def nat_div_distrib nat_mod_distrib)
  have lt: "q < segmentSize * length segs + u" using p(2) pq(1) sz c by (simp add: segmentSize_def)
  show ?thesis
  proof (cases "i < length segs")
    case True
    then have "getSomeData sb p = drop off (segs ! i)"
      using False p all q(2) by (simp add: getSomeData_def Let_def pq(1) idx s(1) nth_append)
    moreover have "drop (nat p) (sb_content sb) = drop off (segs ! i) @ concat (drop (Suc i) segs) @ take u l"
    proof -
      have "drop (nat p) (sb_content sb) = drop q (concat segs @ take u l)" unfolding content pq(2) by simp
      also have "\<dots> = drop q (concat segs) @ take u l"
        using True q c by (simp add: segmentSize_def)
      finally show ?thesis using drop_concat_segment [OF all True, of off] q by simp
    qed
    ultimately show ?thesis using all True q(2) by simp
  next
    case F: False
    then have i: "i = length segs" "off < u" using lt q s(3) by (auto simp: segmentSize_def)
    have n: "nat (min (int (length (m_segments sb)) * 0x1000) (m_size sb - int (length (m_buffer sb))) - int q) = u - off"
      using s sz c q i by (simp add: segmentSize_def)
    have "getSomeData sb p = take (u - off) (drop off l)"
      using False p n by (simp add: getSomeData_def Let_def pq(1) idx s(1) i(1))
    moreover have "drop (nat p) (sb_content sb) = take (u - off) (drop off l)"
      using c i q by (simp add: content pq(2) drop_take)
    ultimately show ?thesis using i(2) l q(2) by simp
  qed
qed

interpretation shared: byte_source getSomeData sb_wf sb_content
  by unfold_locales (simp_all add: length_sb_content getSomeData_inside getSomeData_end sb_size_nonneg)

lemma m_size_content: "sb_wf sb \<Longrightarrow> m_size sb = int (length (sb_content sb))"
  by (simp add: length_sb_content sb_size_nonneg)

lemma append_loop_reads:
  assumes mem: "length mem = segmentSize" and wd: "sb_wf data" and p: "0 \<le> p" "p \<le> int (length (sb_content data))"
    and room: "int (length base) + m_size data < 2 ^ 32"
    and wf: "sb_wf sb" and got: "sb_content sb = base @ take (nat p) (sb_content data)"
  shows "\<exists>sb'. append_loop mem sb data p = Some sb' \<and> sb_wf sb' \<and> sb_content sb' = base @ sb_content data"
  using wd p wf got
proof (induction p arbitrary: sb rule: shared.read_induct)
  case finish
  then show ?case
    using wd by (simp add: append_loop.simps getSomeData_end m_size_content)
next
  case (piece p)
  let ?g = "getSomeData data p"
  have "m_size sb = int (length base) + p"
    using piece.prems piece.hyps by (simp add: m_size_content)
  then have "m_size sb + int (length ?g) < 2 ^ 32"
    using piece.hyps(4) room wd by (simp add: m_size_content)
  note app = sb_append [OF piece.prems(1) mem this]
  have "sb_content (append_data mem sb ?g) = base @ take (nat (p + int (length ?g))) (sb_content data)"
    using app piece.prems(2) shared.get_take [OF wd piece.hyps(1)] piece.hyps(2) by simp
  from piece.IH [OF _ this] app piece.hyps(3) show ?case
    by (simp add: append_loop.simps [of mem sb] Let_def)
qed

lemma merge_segments_take:
  "\<forall>seg \<in> set segs. length seg = segmentSize \<Longrightarrow> merge_segments segs n = take n (concat segs)"
  by (induction segs arbitrary: n) (auto simp: Let_def min_def)

lemma sb_buffer_content:
  assumes "sb_wf sb"
  shows "fst (sb_buffer sb) = sb_content sb" and "sb_wf (snd (sb_buffer sb))"
    and "sb_content (snd (sb_buffer sb)) = sb_content sb"
proof -
  have m: "merge_segments (m_segments sb) n = take n (concat (m_segments sb))" for n
    using assms by (intro merge_segments_take) (simp add: sb_wf_def)
  have le: "length (m_buffer sb) \<le> nat (m_size sb)" by (rule sb_buffer_le [OF assms])
  have c: "sb_content sb = m_buffer sb @ take (nat (m_size sb) - length (m_buffer sb)) (concat (m_segments sb))"
    using le by (simp add: sb_content_def)
  have d: "nat (m_size sb - int (length (m_buffer sb))) = nat (m_size sb) - length (m_buffer sb)" by simp
  show "fst (sb_buffer sb) = sb_content sb"
    using le unfolding c by (auto simp: sb_buffer_def Let_def m d)
  show "sb_content (snd (sb_buffer sb)) = sb_content sb"
    using le length_sb_content [OF assms] unfolding c by (auto simp: sb_buffer_def Let_def m d sb_content_def)
  show "sb_wf (snd (sb_buffer sb))"
  proof (cases "int (length (m_buffer sb)) < m_size sb")
    case True
    then have "snd (sb_buffer sb) = sb\<lparr>m_buffer := sb_content sb, m_segments := []\<rparr>"
      by (simp add: sb_buffer_def Let_def m d c)
    then show ?thesis using assms m_size_content [OF assms] by (simp add: sb_wf_def)
  next
    case False
    then show ?thesis using assms by (simp add: sb_buffer_def)
  qed
qed

text \<open>
  C7: \<open>SharedBuffer\<close> implements byte strings. From a well-formed buffer, and while the size fits
  \<open>unsigned\<close>, \<open>append\<close> appends, whatever the allocator's fresh memory holds; \<open>append(SharedBuffer*)\<close>
  returns and appends the whole content of the other buffer; \<open>clear()\<close> leaves the empty string; \<open>buffer()\<close>
  returns the content and keeps it; \<open>size()\<close> is the length of the content; and \<open>getSomeData\<close> gives at every
  position inside a non-empty piece of the content that starts there, and nothing behind the end.
\<close>

theorem shared_buffer_refines_bytes:
  assumes "sb_wf sb" "sb_wf other" "length mem = segmentSize"
    and "m_size sb + int (length data) < 2 ^ 32" "m_size sb + m_size other < 2 ^ 32"
  shows "sb_wf (append_data mem sb data) \<and> sb_content (append_data mem sb data) = sb_content sb @ data
    \<and> (\<exists>sb'. append_buffer mem sb other = Some sb' \<and> sb_wf sb' \<and> sb_content sb' = sb_content sb @ sb_content other)
    \<and> sb_wf (sb_clear sb) \<and> sb_content (sb_clear sb) = [] \<and> m_size (sb_clear sb) = 0
    \<and> fst (sb_buffer sb) = sb_content sb
    \<and> sb_wf (snd (sb_buffer sb)) \<and> sb_content (snd (sb_buffer sb)) = sb_content sb
    \<and> m_size sb = int (length (sb_content sb))
    \<and> (\<forall>p < length (sb_content sb). getSomeData sb (int p) \<noteq> []
         \<and> (\<exists>rest. drop p (sb_content sb) = getSomeData sb (int p) @ rest))
    \<and> (\<forall>p \<ge> length (sb_content sb). getSomeData sb (int p) = [])"
proof -
  have "getSomeData sb (int p) \<noteq> [] \<and> (\<exists>rest. drop p (sb_content sb) = getSomeData sb (int p) @ rest)"
    if "p < length (sb_content sb)" for p
    using getSomeData_inside [OF assms(1), of "int p"] that m_size_content [OF assms(1)] by simp
  moreover have "getSomeData sb (int p) = []" if "length (sb_content sb) \<le> p" for p
    using getSomeData_end [of sb "int p"] that m_size_content [OF assms(1)] by simp
  moreover have "sb_wf (sb_clear sb) \<and> sb_content (sb_clear sb) = [] \<and> m_size (sb_clear sb) = 0"
    by (simp add: sb_clear_def sb_wf_def sb_content_def)
  ultimately show ?thesis
    using sb_append [OF assms(1,3,4)] sb_buffer_content [OF assms(1)] m_size_content [OF assms(1)]
      append_loop_reads [OF assms(3,2), of 0 "sb_content sb" sb] assms
    by (simp add: append_buffer_def m_size_content)
qed

lemma adoptVector_wf: "length v < 2 ^ 32 \<Longrightarrow> sb_wf (adoptVector v) \<and> sb_content (adoptVector v) = v"
  by (simp add: adoptVector_def sb_wf_def sb_content_def)

theorem shared_buffer_refines_bytes_witness:
  "sb_content (append_data (replicate segmentSize 0) (adoptVector (replicate 4095 1)) [2, 3])
     = replicate 4095 1 @ [2, 3]
   \<and> length (m_segments (append_data (replicate segmentSize 0) (adoptVector (replicate 4095 1)) [2, 3])) = 1"
proof
  have "sb_wf (adoptVector (replicate 4095 1 :: byte list))" "sb_wf SharedBuffer_new"
    by (simp_all add: sb_wf_def SharedBuffer_new_def adoptVector_def)
  from shared_buffer_refines_bytes [OF this, of "replicate segmentSize 0" "[2, 3]"]
  show "sb_content (append_data (replicate segmentSize 0) (adoptVector (replicate 4095 1)) [2, 3]) = replicate 4095 1 @ [2, 3]"
    by (simp add: adoptVector_wf) (simp add: adoptVector_def SharedBuffer_new_def)
  show "length (m_segments (append_data (replicate segmentSize 0) (adoptVector (replicate 4095 1)) [2, 3])) = 1"
    by (simp add: append_data_def adoptVector_def Let_def offsetInSegment_def segmentSize_def fresh_segments.simps)
qed

text \<open>
  \<open>copy()\<close> of a buffer whose last segment is partly filled gives a vector longer than the
  size: the clone is not well-formed, and \<open>getSomeData\<close> on it returns bytes beyond the content.
\<close>

theorem shared_buffer_copy_overruns:
  assumes "sb_wf sb" "m_segments sb \<noteq> []"
    and "m_size sb < int (length (m_buffer sb) + segmentSize * length (m_segments sb))"
  shows "\<not> sb_wf (sb_copy sb) \<and> length (sb_content sb) < length (getSomeData (sb_copy sb) 0)"
proof -
  have "length (concat (m_segments sb)) = segmentSize * length (m_segments sb)"
    using assms(1) by (intro length_concat_const) (simp add: sb_wf_def)
  then have long: "m_size sb < int (length (m_buffer sb @ concat (m_segments sb)))" using assms(3) by simp
  have "0 < m_size sb" using assms(1,2) by (simp add: sb_wf_def)
  then have "length (sb_content sb) < length (getSomeData (sb_copy sb) 0)"
    using long by (simp add: getSomeData_def sb_copy_def length_sb_content [OF assms(1)])
  moreover have "\<not> sb_wf (sb_copy sb)" using long by (simp add: sb_wf_def sb_copy_def)
  ultimately show ?thesis by simp
qed

theorem shared_buffer_copy_overruns_witness:
  "length (sb_content (append_data (replicate segmentSize 0) (adoptVector (replicate 4095 1)) [2, 3]))
     < length (getSomeData (sb_copy (append_data (replicate segmentSize 0) (adoptVector (replicate 4095 1)) [2, 3])) 0)"
proof -
  let ?sb = "append_data (replicate segmentSize 0) (adoptVector (replicate 4095 1)) [2, 3]"
  have "sb_wf ?sb" using sb_append [of "adoptVector (replicate 4095 1)"] by (simp add: adoptVector_wf) (simp add: adoptVector_def)
  moreover have "m_segments ?sb \<noteq> []" "m_size ?sb = 4097" "length (m_segments ?sb) = 1" "length (m_buffer ?sb) = 4095"
    by (simp_all add: append_data_def adoptVector_def Let_def offsetInSegment_def segmentSize_def fresh_segments.simps)
  ultimately show ?thesis using shared_buffer_copy_overruns [of ?sb] by (simp add: segmentSize_def)
qed

end
