(* ===== verification/WTFString.thy ===== *)
theory WTFString
  imports Prelude
begin

text \<open>
  The operations of WTF's \<open>String\<close> that the network layer uses, on strings of 8-bit characters
  (\<open>wtf/text/WTFString.cpp\<close>, \<open>wtf/text/StringImpl.cpp\<close>). Where the source consults the Unicode tables
  for characters beyond ASCII (\<open>lower\<close>, \<open>isSpaceOrNewline\<close>) the model keeps such a character,
  which the headers, host names and attributes parsed with it do not have.
\<close>

section \<open>Characters\<close>

definition code :: "char \<Rightarrow> int" where
  "code c = of_char c"

definition NUL :: char where
  "NUL = CHR 0x00"

definition isASCIIDigit :: "char \<Rightarrow> bool" where
  "isASCIIDigit c \<longleftrightarrow> 48 \<le> code c \<and> code c \<le> 57"

definition toASCIILower :: "char \<Rightarrow> char" where
  "toASCIILower c = (if 65 \<le> code c \<and> code c \<le> 90 then char_of (code c + 32) else c)"

definition isASCIISpace :: "char \<Rightarrow> bool" where
  "isASCIISpace c \<longleftrightarrow> code c = 32 \<or> 9 \<le> code c \<and> code c \<le> 13"

section \<open>Parts of a string\<close>

definition substring :: "string \<Rightarrow> nat \<Rightarrow> nat \<Rightarrow> string" where
  "substring s start len = take len (drop start s)"

definition str_left :: "string \<Rightarrow> nat \<Rightarrow> string" where
  "str_left s len = substring s 0 len"

definition str_right :: "string \<Rightarrow> nat \<Rightarrow> string" where
  \<comment> \<open>\<open>length() - len\<close> wraps around when \<open>len\<close> is larger, and the result is empty\<close>
  "str_right s len = (if len \<le> length s then substring s (length s - len) len else [])"

definition startsWith :: "string \<Rightarrow> string \<Rightarrow> bool" where
  "startsWith s p \<longleftrightarrow> take (length p) s = p"

definition endsWith :: "string \<Rightarrow> string \<Rightarrow> bool" where
  "endsWith s p \<longleftrightarrow> length p \<le> length s \<and> drop (length s - length p) s = p"

definition str_contains :: "string \<Rightarrow> char \<Rightarrow> bool" where
  "str_contains s c \<longleftrightarrow> c \<in> set s"

fun find_from :: "nat \<Rightarrow> char \<Rightarrow> string \<Rightarrow> nat option" where
  "find_from i c [] = None"
| "find_from i c (x # xs) = (if x = c then Some i else find_from (Suc i) c xs)"

definition str_find :: "string \<Rightarrow> char \<Rightarrow> nat option" where
  "str_find s c = find_from 0 c s"

definition str_reverseFind :: "string \<Rightarrow> char \<Rightarrow> nat option" where
  "str_reverseFind s c = map_option (\<lambda>i. length s - 1 - i) (find_from 0 c (rev s))"

definition str_lower :: "string \<Rightarrow> string" where
  "str_lower s = map toASCIILower s"

definition equalIgnoringCase :: "string \<Rightarrow> string \<Rightarrow> bool" where
  "equalIgnoringCase a b \<longleftrightarrow> str_lower a = str_lower b"

definition stripWhiteSpace :: "string \<Rightarrow> string" where
  "stripWhiteSpace s = rev (dropWhile isASCIISpace (rev (dropWhile isASCIISpace s)))"

fun split_pieces :: "char \<Rightarrow> string \<Rightarrow> string \<Rightarrow> string list" where
  "split_pieces sep cur [] = [rev cur]"
| "split_pieces sep cur (c # cs) =
     (if c = sep then rev cur # split_pieces sep [] cs else split_pieces sep (c # cur) cs)"

definition str_split :: "bool \<Rightarrow> char \<Rightarrow> string \<Rightarrow> string list" where
  "str_split allowEmptyEntries sep s =
     (let pieces = split_pieces sep [] s
      in if allowEmptyEntries then pieces else filter (\<lambda>p. p \<noteq> []) pieces)"

function str_replace :: "string \<Rightarrow> string \<Rightarrow> string \<Rightarrow> string" where
  "str_replace pattern replacement s =
     (if s = [] \<or> pattern = [] then s
      else if startsWith s pattern
      then replacement @ str_replace pattern replacement (drop (length pattern) s)
      else hd s # str_replace pattern replacement (tl s))"
  by pat_completeness auto
termination
  by (relation "measure (\<lambda>(pattern, replacement, s). length s)") auto

declare str_replace.simps [simp del]

section \<open>Numbers\<close>

fun digits_value :: "int \<Rightarrow> string \<Rightarrow> int" where
  "digits_value acc [] = acc"
| "digits_value acc (c # cs) = digits_value (10 * acc + (code c - 48)) cs"

text \<open>\<open>toIntegralType<int>\<close> in base 10: None is the result with \<open>*ok\<close> false.\<close>

definition INT_MAX :: int where
  "INT_MAX = 0x7fffffff"

fun integral_digits :: "bool \<Rightarrow> int \<Rightarrow> string \<Rightarrow> (int \<times> string) option" where
  "integral_digits isNegative value [] = Some (value, [])"
| "integral_digits isNegative value (c # cs) =
     (if \<not> isASCIIDigit c then Some (value, c # cs)
      else
        let digitValue = code c - 48; maxMultiplier = INT_MAX div 10
        in if maxMultiplier < value
              \<or> value = maxMultiplier \<and> INT_MAX mod 10 + (if isNegative then 1 else 0) < digitValue
           then None
           else integral_digits isNegative (10 * value + digitValue) cs)"

definition toInt :: "string \<Rightarrow> int option" where
  "toInt s =
     (let s1 = dropWhile isASCIISpace s;
          isNegative = (case s1 of c # _ \<Rightarrow> c = CHR ''-'' | [] \<Rightarrow> False);
          s2 = (case s1 of c # rest \<Rightarrow> if c = CHR ''-'' \<or> c = CHR ''+'' then rest else s1 | [] \<Rightarrow> s1)
      in case s2 of
           [] \<Rightarrow> None
         | c # _ \<Rightarrow>
             if \<not> isASCIIDigit c then None
             else (case integral_digits isNegative 0 s2 of
                     None \<Rightarrow> None
                   | Some (value, rest) \<Rightarrow>
                       if dropWhile isASCIISpace rest \<noteq> [] then None
                       else Some (if isNegative then - value else value)))"

text \<open>\<open>String::number\<close> and \<open>%d\<close>.\<close>

fun dec_digits :: "nat \<Rightarrow> string" where
  "dec_digits n = (if n < 10 then [char_of (48 + n)] else dec_digits (n div 10) @ [char_of (48 + n mod 10)])"

declare dec_digits.simps [simp del]

definition dec_string :: "int \<Rightarrow> string" where
  "dec_string i = (if i < 0 then CHR ''-'' # dec_digits (nat (- i)) else dec_digits (nat i))"

section \<open>Laws\<close>

lemma code_NUL [simp]: "code NUL = 0"
  by (simp add: code_def NUL_def)

lemma code_bounds: "0 \<le> code c" "code c < 256"
  using pos_mod_sign [of 256 "of_char c :: int"] pos_mod_bound [of 256 "of_char c :: int"]
  by (simp_all add: code_def)

lemma code_inj: "code c = code d \<longleftrightarrow> c = d"
  by (simp add: code_def)

lemma digit_code: "isASCIIDigit c \<Longrightarrow> 0 \<le> code c - 48 \<and> code c - 48 \<le> 9"
  by (simp add: isASCIIDigit_def)

lemma digits_value_ge: "0 \<le> acc \<Longrightarrow> list_all isASCIIDigit cs \<Longrightarrow> acc \<le> digits_value acc cs"
proof (induction cs arbitrary: acc)
  case (Cons c cs)
  then have "acc \<le> 10 * acc + (code c - 48)" "0 \<le> 10 * acc + (code c - 48)" using digit_code [of c] by auto
  then show ?case using Cons.IH [of "10 * acc + (code c - 48)"] Cons.prems by simp
qed simp

lemma integral_digits_value:
  assumes "0 \<le> v" "list_all isASCIIDigit cs" "v \<le> INT_MAX + (if neg then 1 else 0)"
  shows "integral_digits neg v cs =
    (if digits_value v cs \<le> INT_MAX + (if neg then 1 else 0) then Some (digits_value v cs, []) else None)"
  using assms
proof (induction cs arbitrary: v)
  case (Cons c cs)
  let ?m = "INT_MAX + (if neg then 1 else 0)" and ?w = "10 * v + (code c - 48)"
  have d: "isASCIIDigit c" "list_all isASCIIDigit cs" "0 \<le> code c - 48" "code c - 48 \<le> 9"
    using Cons.prems(2) digit_code [of c] by simp_all
  have over: "(INT_MAX div 10 < v \<or> v = INT_MAX div 10 \<and> INT_MAX mod 10 + (if neg then 1 else 0) < code c - 48) \<longleftrightarrow> ?m < ?w"
    using d(3,4) Cons.prems(1) by (auto simp: INT_MAX_def)
  have ge: "?w \<le> digits_value ?w cs" using digits_value_ge [OF _ d(2)] d(3) Cons.prems(1) by simp
  show ?case
  proof (cases "?m < ?w")
    case True
    then show ?thesis using d(1) over ge by (auto simp: Let_def)
  next
    case False
    then show ?thesis using Cons.IH [of ?w] d over Cons.prems(1) by (auto simp: Let_def)
  qed
qed (auto simp: INT_MAX_def)

lemma digit_not_space: "isASCIIDigit c \<Longrightarrow> \<not> isASCIISpace c \<and> c \<noteq> CHR ''-'' \<and> c \<noteq> CHR ''+''"
  by (auto simp: isASCIIDigit_def isASCIISpace_def code_def)

text \<open>
  \<open>toInt\<close> reads a non-empty string of digits, with or without a minus sign, as its decimal
  value exactly when that value is an \<open>int\<close>, and reports failure otherwise: the overflow test
  inside the loop is exact at both ends of the range.
\<close>

theorem toInt_decimal:
  assumes "cs \<noteq> []" "list_all isASCIIDigit cs"
  shows "toInt cs = (if digits_value 0 cs \<le> 2147483647 then Some (digits_value 0 cs) else None)
    \<and> toInt (CHR ''-'' # cs) = (if digits_value 0 cs \<le> 2147483648 then Some (- digits_value 0 cs) else None)"
proof -
  obtain c rest where cs: "cs = c # rest" using assms(1) by (cases cs) auto
  have c: "isASCIIDigit c" "\<not> isASCIISpace c" "c \<noteq> CHR ''-''" "c \<noteq> CHR ''+''"
    using assms(2) digit_not_space [of c] by (simp_all add: cs)
  have minus: "\<not> isASCIISpace (CHR ''-'')" by (simp add: isASCIISpace_def code_def)
  have id: "integral_digits neg 0 cs = (if digits_value 0 cs \<le> INT_MAX + (if neg then 1 else 0) then Some (digits_value 0 cs, []) else None)" for neg
    by (rule integral_digits_value [OF _ assms(2)]) (simp_all add: INT_MAX_def)
  have "toInt cs = (case integral_digits False 0 cs of None \<Rightarrow> None
      | Some (value, rest) \<Rightarrow> if dropWhile isASCIISpace rest \<noteq> [] then None else Some value)"
    using c by (simp add: toInt_def cs del: integral_digits.simps split: option.split)
  moreover have "toInt (CHR ''-'' # cs) = (case integral_digits True 0 cs of None \<Rightarrow> None
      | Some (value, rest) \<Rightarrow> if dropWhile isASCIISpace rest \<noteq> [] then None else Some (- value))"
    using c minus by (simp add: toInt_def cs del: integral_digits.simps split: option.split)
  ultimately show ?thesis by (simp add: id INT_MAX_def)
qed

theorem toInt_decimal_witness:
  "toInt ''2147483647'' = Some 2147483647 \<and> toInt ''2147483648'' = None \<and> toInt ''-2147483648'' = Some (- 2147483648)"
proof -
  have d: "list_all isASCIIDigit ''2147483647''" "list_all isASCIIDigit ''2147483648''" by code_simp+
  have v: "digits_value 0 ''2147483647'' = 2147483647" "digits_value 0 ''2147483648'' = 2147483648" by code_simp+
  show ?thesis using toInt_decimal [OF _ d(1)] toInt_decimal [OF _ d(2)] unfolding v by simp
qed

lemma split_pieces_nonempty: "p \<in> set (str_split False sep s) \<Longrightarrow> p \<noteq> []"
  by (simp add: str_split_def)

lemma split_pieces_no_sep: "sep \<notin> set cur \<Longrightarrow> p \<in> set (split_pieces sep cur s) \<Longrightarrow> sep \<notin> set p"
  by (induction sep cur s rule: split_pieces.induct) (auto split: if_splits)

lemma split_no_sep: "p \<in> set (str_split b sep s) \<Longrightarrow> sep \<notin> set p"
  using split_pieces_no_sep [of sep "[]" p s] by (auto simp: str_split_def Let_def split: if_splits)

end
