(* ===== verification/KURL.thy ===== *)
theory KURL
  imports WTFString
begin

text \<open>
  The URL parser of WebCore with this port's changes (\<open>platform/KURL.cpp\<close>). A URL is a
  string of 8-bit characters, which the parser reads as a C string: \<open>char_at\<close> gives NUL at
  the end and, to be total, behind it. \<open>parse\<close> follows the source: it finds the ranges of the parts in the
  input, then assembles the canonical string and records where each part ends in it.

  Positions are numbers without a bound, those of the source are \<open>int\<close>: the model is that of URLs of less
  than 2 ^ 31 / 3 characters, for which the length \<open>fragmentEnd * 3 + 1\<close> of the buffer does not overflow.
  \<open>parse\<close> has the value None where \<open>copyPathRemovingDots\<close> reads before the start of the path it writes. The theorems:
  the recorded ranges are in order and inside the string, the assembled string is not longer than three
  times the input and one more and holds only printable ASCII characters, and unless the scheme is \<open>file\<close> the removal of dot
  segments stays inside its path.
\<close>

section \<open>Characters\<close>

definition char_at :: "string \<Rightarrow> nat \<Rightarrow> char" where
  "char_at url i = (if i < length url then url ! i else NUL)"

definition isLetterMatchIgnoringCase :: "char \<Rightarrow> char \<Rightarrow> bool" where
  "isLetterMatchIgnoringCase c lowercaseLetter \<longleftrightarrow> code c OR 0x20 = code lowercaseLetter"

datatype URLCharacterClass =
  SchemeFirstChar | SchemeChar | UserInfoChar | HostnameChar | IPv6Char | PathSegmentEndChar | BadChar

text \<open>The table of the source, by runs of equal entries.\<close>

definition characterClassTable :: "int \<Rightarrow> URLCharacterClass list" where
  "characterClassTable n =
     (if n = 0 then [PathSegmentEndChar]
      else if n \<le> 32 then [BadChar]
      else if n = 33 then [UserInfoChar]
      else if n = 34 then [BadChar]
      else if n = 35 then [PathSegmentEndChar, BadChar]
      else if n = 36 then [UserInfoChar]
      else if n = 37 then [UserInfoChar, HostnameChar, IPv6Char, BadChar]
      else if n \<le> 42 then [UserInfoChar]
      else if n = 43 then [SchemeChar, UserInfoChar]
      else if n = 44 then [UserInfoChar]
      else if n = 45 then [SchemeChar, UserInfoChar, HostnameChar]
      else if n = 46 then [SchemeChar, UserInfoChar, HostnameChar, IPv6Char]
      else if n = 47 then [PathSegmentEndChar]
      else if n \<le> 57 then [SchemeChar, UserInfoChar, HostnameChar, IPv6Char]
      else if n = 58 then [UserInfoChar, IPv6Char]
      else if n = 59 then [UserInfoChar]
      else if n = 60 then [BadChar]
      else if n = 61 then [UserInfoChar]
      else if n = 62 then [BadChar]
      else if n = 63 then [PathSegmentEndChar, BadChar]
      else if n = 64 then []
      else if n \<le> 70 then [SchemeFirstChar, SchemeChar, UserInfoChar, HostnameChar, IPv6Char]
      else if n \<le> 90 then [SchemeFirstChar, SchemeChar, UserInfoChar, HostnameChar]
      else if n \<le> 94 then []
      else if n = 95 then [UserInfoChar, HostnameChar]
      else if n = 96 then []
      else if n \<le> 102 then [SchemeFirstChar, SchemeChar, UserInfoChar, HostnameChar, IPv6Char]
      else if n \<le> 122 then [SchemeFirstChar, SchemeChar, UserInfoChar, HostnameChar]
      else if n \<le> 125 then []
      else if n = 126 then [UserInfoChar]
      else [BadChar])"

definition isSchemeFirstChar :: "char \<Rightarrow> bool" where
  "isSchemeFirstChar c \<longleftrightarrow> SchemeFirstChar \<in> set (characterClassTable (code c))"

definition isSchemeChar :: "char \<Rightarrow> bool" where
  "isSchemeChar c \<longleftrightarrow> SchemeChar \<in> set (characterClassTable (code c))"

definition isUserInfoChar :: "char \<Rightarrow> bool" where
  "isUserInfoChar c \<longleftrightarrow> UserInfoChar \<in> set (characterClassTable (code c))"

definition isHostnameChar :: "char \<Rightarrow> bool" where
  "isHostnameChar c \<longleftrightarrow> HostnameChar \<in> set (characterClassTable (code c))"

definition isIPv6Char :: "char \<Rightarrow> bool" where
  "isIPv6Char c \<longleftrightarrow> IPv6Char \<in> set (characterClassTable (code c))"

definition isPathSegmentEndChar :: "char \<Rightarrow> bool" where
  "isPathSegmentEndChar c \<longleftrightarrow> PathSegmentEndChar \<in> set (characterClassTable (code c))"

definition isBadChar :: "char \<Rightarrow> bool" where
  "isBadChar c \<longleftrightarrow> BadChar \<in> set (characterClassTable (code c))"

section \<open>State\<close>

record kurl =
  m_string :: string
  m_isValid :: bool
  m_protocolIsInHTTPFamily :: bool
  m_schemeEnd :: nat
  m_userStart :: nat
  m_userEnd :: nat
  m_passwordEnd :: nat
  m_hostEnd :: nat
  m_portEnd :: nat
  m_pathAfterLastSlash :: nat
  m_pathEnd :: nat
  m_queryEnd :: nat
  m_fragmentEnd :: nat

definition invalidate :: "string \<Rightarrow> kurl" where
  "invalidate s =
     \<lparr>m_string = s, m_isValid = False, m_protocolIsInHTTPFamily = False, m_schemeEnd = 0,
      m_userStart = 0, m_userEnd = 0, m_passwordEnd = 0, m_hostEnd = 0, m_portEnd = 0,
      m_pathAfterLastSlash = 0, m_pathEnd = 0, m_queryEnd = 0, m_fragmentEnd = 0\<rparr>"

section \<open>Escaping\<close>

definition hex_digit :: "int \<Rightarrow> char" where
  "hex_digit n = char_of (if n < 10 then 48 + n else 55 + n)"

definition appendEscapedChar :: "char \<Rightarrow> string" where
  "appendEscapedChar c = [CHR ''%'', hex_digit (code c div 16), hex_digit (code c mod 16)]"

fun appendEscapingBadChars :: "string \<Rightarrow> string" where
  "appendEscapingBadChars [] = []"
| "appendEscapingBadChars (c # str) =
     (if isBadChar c then
        (if c = CHR ''%'' \<or> c = CHR ''?'' then [c]
         else if code c \<noteq> 0x09 \<and> code c \<noteq> 0x0a \<and> code c \<noteq> 0x0d then appendEscapedChar c
         else [])
      else [c]) @ appendEscapingBadChars str"

fun escapeAndAppendNonHierarchicalPart :: "string \<Rightarrow> string" where
  "escapeAndAppendNonHierarchicalPart [] = []"
| "escapeAndAppendNonHierarchicalPart (c # str) =
     (if code c = 0x09 \<or> code c = 0x0a \<or> code c = 0x0d then []
      else if code c < 0x20 \<or> 127 \<le> code c then appendEscapedChar c
      else [c]) @ escapeAndAppendNonHierarchicalPart str"

section \<open>Dot segments\<close>

fun has_dot_after :: "char \<Rightarrow> string \<Rightarrow> bool" where
  "has_dot_after pc [] = False"
| "has_dot_after pc (c # str) =
     (c \<noteq> NUL \<and> (c = CHR ''.'' \<and> (pc = CHR ''/'' \<or> pc = CHR ''.'') \<or> has_dot_after c str))"

definition hasSlashDotOrDotDot :: "string \<Rightarrow> bool" where
  "hasSlashDotOrDotDot str =
     (case str of [] \<Rightarrow> False | c # rest \<Rightarrow> c \<noteq> NUL \<and> has_dot_after c rest)"

text \<open>
  \<open>copyPathRemovingDots\<close>. The destination is kept reversed, so that \<open>dst[-1]\<close> is its head;
  a read of \<open>dst[-1]\<close> at the start of the buffer is outside of it.
\<close>

fun rewind_segment :: "string \<Rightarrow> string" where
  "rewind_segment [] = []"
| "rewind_segment (c # dst) = (if c \<noteq> CHR ''/'' then rewind_segment dst else c # dst)"

function copy_dots :: "string \<Rightarrow> nat \<Rightarrow> nat \<Rightarrow> string \<Rightarrow> string option" where
  "copy_dots src pos srcEnd dst =
     (if srcEnd \<le> pos then Some (rev dst)
      else if char_at src pos = CHR ''.'' then
        (case dst of
           [] \<Rightarrow> None
         | prev # dst' \<Rightarrow>
             if prev = CHR ''/'' \<and> (char_at src (pos + 1) = CHR ''/'' \<or> pos + 1 = srcEnd)
             then copy_dots src (pos + 2) srcEnd dst
             else if prev = CHR ''/'' \<and> char_at src (pos + 1) = CHR ''.''
               \<and> (char_at src (pos + 2) = CHR ''/'' \<or> pos + 2 = srcEnd)
             then copy_dots src (pos + 3) srcEnd (rewind_segment (if 1 < length dst then dst' else dst))
             else copy_dots src (pos + 1) srcEnd (char_at src pos # dst))
      else copy_dots src (pos + 1) srcEnd (char_at src pos # dst))"
  by pat_completeness auto
termination
  by (relation "measure (\<lambda>(src, pos, srcEnd, dst). srcEnd - pos)") auto

declare copy_dots.simps [simp del]

definition copyPathRemovingDots :: "string \<Rightarrow> nat \<Rightarrow> nat \<Rightarrow> string option" where
  "copyPathRemovingDots src srcStart srcEnd =
     (if srcStart = srcEnd then Some []
      else copy_dots src (srcStart + 1) srcEnd [char_at src srcStart])"

section \<open>Finding the parts\<close>

text \<open>The first position from \<open>i\<close> on whose character is not of the class; NUL is of no class.\<close>

function scan :: "(char \<Rightarrow> bool) \<Rightarrow> string \<Rightarrow> nat \<Rightarrow> nat" where
  "scan P url i = (if i < length url \<and> P (url ! i) then scan P url (Suc i) else i)"
  by pat_completeness auto
termination
  by (relation "measure (\<lambda>(P, url, i). length url - i)") auto

declare scan.simps [simp del]

definition slice :: "string \<Rightarrow> nat \<Rightarrow> nat \<Rightarrow> string" where
  "slice url i j = take (j - i) (drop i url)"

fun letters_match :: "string \<Rightarrow> nat \<Rightarrow> string \<Rightarrow> bool" where
  "letters_match url i [] = True"
| "letters_match url i (l # ls) = (isLetterMatchIgnoringCase (char_at url i) l \<and> letters_match url (Suc i) ls)"

definition isDefaultPortForScheme :: "string \<Rightarrow> string \<Rightarrow> bool" where
  "isDefaultPortForScheme port scheme \<longleftrightarrow>
     scheme = ''ws'' \<and> port = ''80'' \<or> scheme = ''ftp'' \<and> port = ''21''
     \<or> scheme = ''wss'' \<and> port = ''443'' \<or> scheme = ''http'' \<and> port = ''80''
     \<or> scheme = ''https'' \<and> port = ''443'' \<or> scheme = ''gopher'' \<and> port = ''70''"

definition isNonFileHierarchicalScheme :: "string \<Rightarrow> bool" where
  "isNonFileHierarchicalScheme scheme \<longleftrightarrow>
     scheme \<in> set [''ws'', ''ftp'', ''wss'', ''http'', ''https'', ''gopher'']"

definition isCanonicalHostnameLowercaseForScheme :: "string \<Rightarrow> bool" where
  "isCanonicalHostnameLowercaseForScheme scheme \<longleftrightarrow>
     scheme \<in> set [''ws'', ''ftp'', ''wss'', ''http'', ''file'', ''https'', ''gopher'']"

definition protocol_in_http_family :: "string \<Rightarrow> bool" where
  "protocol_in_http_family url \<longleftrightarrow>
     letters_match url 0 ''http''
     \<and> (char_at url 4 = CHR '':''
        \<or> isLetterMatchIgnoringCase (char_at url 4) (CHR ''s'') \<and> char_at url 5 = CHR '':'')"

definition scheme_is_file :: "string \<Rightarrow> nat \<Rightarrow> bool" where
  "scheme_is_file url schemeEnd \<longleftrightarrow> schemeEnd = 4 \<and> letters_match url 0 ''file''"

text \<open>The ranges of the authority in the input: the local variables of \<open>parse\<close>.\<close>

record authority =
  userStart :: nat
  userEnd :: nat
  passwordStart :: nat
  passwordEnd :: nat
  hostStart :: nat
  hostEnd :: nat
  portStart :: nat
  portEnd :: nat

definition no_authority :: "nat \<Rightarrow> authority" where
  "no_authority i =
     \<lparr>userStart = i, userEnd = i, passwordStart = i, passwordEnd = i,
      hostStart = i, hostEnd = i, portStart = i, portEnd = i\<rparr>"

definition user_start :: "string \<Rightarrow> nat \<Rightarrow> bool \<Rightarrow> bool \<Rightarrow> bool \<Rightarrow> bool \<Rightarrow> nat" where
  \<comment> \<open>with this port's skipping of superfluous slashes\<close>
  "user_start url schemeEnd hierarchical hasSecondSlash isFile http =
     (let i0 = schemeEnd + 1 + (if hierarchical then 1 else 0) + (if hasSecondSlash then 1 else 0);
          i1 = (if http then scan (\<lambda>c. c = CHR ''/'') url i0 else i0);
          i2 = scan (\<lambda>c. c = CHR ''/'') url i1
      in if isFile \<and> i1 < i2 then i2 - 1 else i1)"

definition user_info :: "string \<Rightarrow> nat \<Rightarrow> (nat \<times> nat \<times> nat \<times> nat) option" where
  \<comment> \<open>\<open>userEnd\<close>, \<open>passwordStart\<close>, \<open>passwordEnd\<close>, \<open>hostStart\<close>\<close>
  "user_info url start =
     (let stop = scan isUserInfoChar url start;
          colon = scan (\<lambda>c. isUserInfoChar c \<and> c \<noteq> CHR '':'') url start
      in if char_at url stop = CHR ''@'' then
           (if colon < stop then Some (colon, colon + 1, stop, stop + 1)
            else Some (stop, stop, stop, stop + 1))
         else if char_at url stop = CHR ''['' \<or> isPathSegmentEndChar (char_at url stop)
         then Some (start, start, start, start)
         else None)"

definition host_end :: "string \<Rightarrow> nat \<Rightarrow> nat option" where
  "host_end url start =
     (if char_at url start = CHR ''['' then
        (let e = scan isIPv6Char url (start + 1)
         in if char_at url e = CHR '']'' then Some (e + 1) else None)
      else Some (scan isHostnameChar url start))"

definition hostPortIsEmptyButCredentialsArePresent :: "nat \<Rightarrow> nat \<Rightarrow> char \<Rightarrow> bool" where
  "hostPortIsEmptyButCredentialsArePresent hs pn userEndChar \<longleftrightarrow> userEndChar = CHR ''@'' \<and> hs = pn"

definition find_authority :: "string \<Rightarrow> nat \<Rightarrow> bool \<Rightarrow> bool \<Rightarrow> authority option" where
  "find_authority url start isFile http =
     (case user_info url start of None \<Rightarrow> None | Some (ue, ps, pe, hs) \<Rightarrow>
      case host_end url hs of None \<Rightarrow> None | Some he \<Rightarrow>
        let pt = (if char_at url he = CHR '':'' then he + 1 else he);
            pn = (if char_at url he = CHR '':'' then scan isASCIIDigit url pt else he)
        in if \<not> isPathSegmentEndChar (char_at url pn) then None
           else
             let empty = hostPortIsEmptyButCredentialsArePresent hs pn (char_at url ue);
                 ue' = (if empty then start else ue);
                 hs' = (if empty then start else hs)
             in if start = pn \<and> \<not> http \<and> \<not> isFile then Some (no_authority (start - 2))
                else if isFile then Some (no_authority start)
                else Some \<lparr>userStart = start, userEnd = ue', passwordStart = ps, passwordEnd = pe,
                           hostStart = hs', hostEnd = he, portStart = pt, portEnd = pn\<rparr>)"

section \<open>Assembling the canonical string\<close>

fun after_last_slash :: "string \<Rightarrow> nat \<Rightarrow> nat \<Rightarrow> nat" where
  "after_last_slash buf lo 0 = 0"
| "after_last_slash buf lo (Suc i) =
     (if Suc i \<le> lo then Suc i else if buf ! i = CHR ''/'' then Suc i else after_last_slash buf lo i)"

definition canonical_authority :: "string \<Rightarrow> string \<Rightarrow> authority \<Rightarrow> bool \<Rightarrow> bool
    \<Rightarrow> string \<times> string \<times> string \<times> string" where
  \<comment> \<open>user, password with its colon, \<open>@\<close> and host, port with its colon\<close>
  "canonical_authority url scheme a isFile hostIsLocalHost =
     (let user = slice url (userStart a) (userEnd a);
          pass = (if passwordEnd a \<noteq> passwordStart a
                  then CHR '':'' # slice url (passwordStart a) (passwordEnd a) else []);
          at = (if user @ pass \<noteq> [] then ''@'' else []);
          haveNonHostAuthorityPart = (userStart a \<noteq> userEnd a \<or> passwordStart a \<noteq> passwordEnd a
            \<or> portStart a \<noteq> portEnd a);
          hst = slice url (hostStart a) (hostEnd a);
          host = (if isFile \<and> hostIsLocalHost \<and> \<not> haveNonHostAuthorityPart then []
                  else if isCanonicalHostnameLowercaseForScheme scheme then map toASCIILower hst else hst);
          prt = slice url (portStart a) (portEnd a);
          port = (if hostEnd a \<noteq> portStart a \<and> portStart a \<noteq> portEnd a
                    \<and> \<not> isDefaultPortForScheme prt scheme
                  then CHR '':'' # prt else [])
      in (user, pass, at @ host, port))"

definition canonical_path :: "string \<Rightarrow> bool \<Rightarrow> nat \<Rightarrow> nat \<Rightarrow> string option" where
  "canonical_path url hierarchical pathStart pathEnd =
     (if \<not> hierarchical then Some (escapeAndAppendNonHierarchicalPart (slice url pathStart pathEnd))
      else if \<not> hasSlashDotOrDotDot url then Some (appendEscapingBadChars (slice url pathStart pathEnd))
      else map_option appendEscapingBadChars (copyPathRemovingDots url pathStart pathEnd))"

definition path_end :: "string \<Rightarrow> nat \<Rightarrow> nat" where
  "path_end url pathStart = scan (\<lambda>c. c \<noteq> NUL \<and> c \<noteq> CHR ''?'' \<and> c \<noteq> CHR ''#'') url pathStart"

definition query_end :: "string \<Rightarrow> nat \<Rightarrow> nat" where
  "query_end url queryStart =
     (if char_at url queryStart = CHR ''?'' then scan (\<lambda>c. c \<noteq> NUL \<and> c \<noteq> CHR ''#'') url queryStart
      else queryStart)"

definition fragment_range :: "string \<Rightarrow> nat \<Rightarrow> nat \<times> nat" where
  "fragment_range url queryEnd =
     (if char_at url queryEnd = CHR ''#'' then (queryEnd + 1, scan (\<lambda>c. c \<noteq> NUL) url (queryEnd + 1))
      else (queryEnd, queryEnd))"

definition assemble :: "string \<Rightarrow> nat \<Rightarrow> bool \<Rightarrow> bool \<Rightarrow> bool \<Rightarrow> authority \<Rightarrow> kurl option" where
  "assemble url schemeEnd hierarchical isFile http a =
     (let pathStart = portEnd a;
          pathEnd = path_end url pathStart;
          queryEnd = query_end url pathEnd;
          (fragmentStart, fragmentEnd) = fragment_range url queryEnd;
          scheme = map toASCIILower (slice url 0 schemeEnd);
          hostIsLocalHost = (portEnd a - userStart a = 9 \<and> letters_match url (userStart a) ''localhost'');
          degenerateFilePath = (pathStart = pathEnd \<and> (hostStart a = hostEnd a \<or> hostIsLocalHost));
          haveNonHostAuthorityPart = (userStart a \<noteq> userEnd a \<or> passwordStart a \<noteq> passwordEnd a
            \<or> portStart a \<noteq> portEnd a);
          withAuthority = (if isFile then \<not> degenerateFilePath
            else haveNonHostAuthorityPart \<or> hostStart a \<noteq> hostEnd a);
          slashes = (if withAuthority \<or> isFile then ''//'' else []);
          (user, pass, host, port) =
            (if withAuthority then canonical_authority url scheme a isFile hostIsLocalHost else ([], [], [], []));
          slash1 = (if (http \<or> isFile) \<and> pathEnd = pathStart then ''/'' else []);
          slash2 = (if isFile \<and> char_at url pathStart \<noteq> CHR ''/'' then ''/'' else [])
      in map_option (\<lambda>path.
           let p0 = scheme @ '':'' @ slashes;
               p1 = p0 @ user; p2 = p1 @ pass; p3 = p2 @ host; p4 = p3 @ port;
               p5 = p4 @ slash1 @ slash2 @ path;
               p6 = p5 @ appendEscapingBadChars (slice url pathEnd queryEnd);
               p7 = p6 @ (if fragmentEnd \<noteq> queryEnd
                          then CHR ''#'' # escapeAndAppendNonHierarchicalPart (slice url fragmentStart fragmentEnd)
                          else [])
           in \<lparr>m_string = p7, m_isValid = True, m_protocolIsInHTTPFamily = http,
               m_schemeEnd = schemeEnd, m_userStart = length p0, m_userEnd = length p1,
               m_passwordEnd = length p2, m_hostEnd = length p3, m_portEnd = length p4,
               m_pathAfterLastSlash = after_last_slash p5 (length p4) (length p5),
               m_pathEnd = length p5, m_queryEnd = length p6, m_fragmentEnd = length p7\<rparr>)
         (canonical_path url hierarchical pathStart pathEnd))"

definition KURL_parse :: "string \<Rightarrow> kurl option" where
  "KURL_parse url =
     (if \<not> isSchemeFirstChar (char_at url 0) then Some (invalidate url)
      else
        let schemeEnd = scan isSchemeChar url 0 in
        if char_at url schemeEnd \<noteq> CHR '':'' then Some (invalidate url)
        else
          let hierarchical = (char_at url (schemeEnd + 1) = CHR ''/'');
              hasSecondSlash = (hierarchical \<and> char_at url (schemeEnd + 2) = CHR ''/'');
              isFile = scheme_is_file url schemeEnd;
              http = protocol_in_http_family url
          in if hasSecondSlash \<or> isNonFileHierarchicalScheme (slice url 0 schemeEnd)
             then (case find_authority url (user_start url schemeEnd hierarchical hasSecondSlash isFile http) isFile http of
                     None \<Rightarrow> Some (invalidate url)
                   | Some a \<Rightarrow> assemble url schemeEnd hierarchical isFile http a)
             else assemble url schemeEnd hierarchical isFile http (no_authority (schemeEnd + 1)))"

section \<open>Accessors\<close>

definition KURL_protocol :: "kurl \<Rightarrow> string" where
  "KURL_protocol u = take (m_schemeEnd u) (m_string u)"

definition KURL_protocolIs :: "kurl \<Rightarrow> string \<Rightarrow> bool" where
  "KURL_protocolIs u protocol \<longleftrightarrow> m_isValid u \<and> str_lower (KURL_protocol u) = protocol"

definition KURL_hostStart :: "kurl \<Rightarrow> nat" where
  "KURL_hostStart u = (if m_passwordEnd u = m_userStart u then m_passwordEnd u else m_passwordEnd u + 1)"

definition KURL_host :: "kurl \<Rightarrow> string" where
  "KURL_host u = slice (m_string u) (KURL_hostStart u) (m_hostEnd u)"

definition KURL_path :: "kurl \<Rightarrow> string" where
  "KURL_path u = slice (m_string u) (m_portEnd u) (m_pathEnd u)"

definition KURL_hasPath :: "kurl \<Rightarrow> bool" where
  "KURL_hasPath u \<longleftrightarrow> m_pathEnd u \<noteq> m_portEnd u"

definition KURL_query :: "kurl \<Rightarrow> string" where
  "KURL_query u =
     (if m_queryEnd u = m_pathEnd u then [] else slice (m_string u) (m_pathEnd u + 1) (m_queryEnd u))"

definition KURL_hasFragmentIdentifier :: "kurl \<Rightarrow> bool" where
  "KURL_hasFragmentIdentifier u \<longleftrightarrow> m_fragmentEnd u \<noteq> m_queryEnd u"

definition KURL_fragmentIdentifier :: "kurl \<Rightarrow> string" where
  "KURL_fragmentIdentifier u =
     (if m_fragmentEnd u = m_queryEnd u then [] else slice (m_string u) (m_queryEnd u + 1) (m_fragmentEnd u))"

definition KURL_baseAsString :: "kurl \<Rightarrow> string" where
  "KURL_baseAsString u = take (m_pathAfterLastSlash u) (m_string u)"

definition KURL_port :: "kurl \<Rightarrow> int" where
  \<comment> \<open>\<open>charactersToUIntStrict\<close>: digits only, and the value fits \<open>unsigned\<close>\<close>
  "KURL_port u =
     (if m_hostEnd u = m_portEnd u \<or> m_hostEnd u + 1 = m_portEnd u then 0
      else
        let s = slice (m_string u) (m_hostEnd u + 1) (m_portEnd u); number = digits_value 0 s
        in if \<not> list_all isASCIIDigit s \<or> 2 ^ 32 \<le> number \<or> 0xFFFE < number then 0xFFFF else number)"

definition removeFragmentIdentifier :: "kurl \<Rightarrow> kurl option" where
  "removeFragmentIdentifier u =
     (if \<not> m_isValid u then Some u else KURL_parse (take (m_queryEnd u) (m_string u)))"

definition removePort :: "kurl \<Rightarrow> kurl option" where
  "removePort u =
     (if m_hostEnd u = m_portEnd u then Some u
      else KURL_parse (take (m_hostEnd u) (m_string u) @ drop (m_portEnd u) (m_string u)))"

definition equalIgnoringFragmentIdentifier :: "kurl \<Rightarrow> kurl \<Rightarrow> bool" where
  "equalIgnoringFragmentIdentifier a b \<longleftrightarrow>
     m_queryEnd a = m_queryEnd b \<and> take (m_queryEnd a) (m_string a) = take (m_queryEnd a) (m_string b)"

definition protocolHostAndPortAreEqual :: "kurl \<Rightarrow> kurl \<Rightarrow> bool" where
  "protocolHostAndPortAreEqual a b \<longleftrightarrow>
     m_schemeEnd a = m_schemeEnd b \<and> KURL_protocol a = KURL_protocol b
     \<and> KURL_host a = KURL_host b \<and> KURL_port a = KURL_port b"

section \<open>Scanning\<close>

lemma class_NUL [simp]: "\<not> isSchemeChar NUL" "\<not> isSchemeFirstChar NUL" "\<not> isUserInfoChar NUL" "\<not> isHostnameChar NUL"
  "\<not> isIPv6Char NUL" "\<not> isASCIIDigit NUL" "isPathSegmentEndChar NUL"
  by (simp_all add: isSchemeChar_def isSchemeFirstChar_def isUserInfoChar_def isHostnameChar_def isIPv6Char_def
      isASCIIDigit_def isPathSegmentEndChar_def characterClassTable_def)

lemma char_at_not_NUL: "char_at url i \<noteq> NUL \<Longrightarrow> i < length url"
  by (auto simp: char_at_def split: if_splits)

lemma scan_ge: "i \<le> scan P url i"
  by (induction P url i rule: scan.induct) (subst scan.simps, auto)

lemma scan_le: "i \<le> length url \<Longrightarrow> scan P url i \<le> length url"
  by (induction P url i rule: scan.induct) (subst scan.simps, auto)

lemma scan_in: "i \<le> k \<Longrightarrow> k < scan P url i \<Longrightarrow> k < length url \<and> P (url ! k)"
proof (induction P url i rule: scan.induct)
  case (1 P url i)
  then show ?case by (cases "k = i") (auto simp: scan.simps [of P url i] split: if_splits)
qed

lemma scan_stop: "\<not> P NUL \<Longrightarrow> \<not> P (char_at url (scan P url i))"
proof (induction P url i rule: scan.induct)
  case (1 P url i)
  then show ?case by (subst scan.simps) (auto simp: char_at_def)
qed

lemma length_slice [simp]: "length (slice url i j) = min (j - i) (length url - i)"
  by (simp add: slice_def min.commute)

lemma slice_in: "c \<in> set (slice url i j) \<Longrightarrow> \<exists>k. i \<le> k \<and> k < j \<and> k < length url \<and> c = url ! k"
  by (auto simp: slice_def in_set_conv_nth) (metis le_add1 add.commute less_diff_conv)

lemma slice_scan: "c \<in> set (slice url i (scan P url i)) \<Longrightarrow> P c"
  using slice_in scan_in by blast

lemma slice_same [simp]: "slice url i i = []"
  by (simp add: slice_def)

section \<open>Escaping\<close>

definition printable :: "char \<Rightarrow> bool" where
  "printable c \<longleftrightarrow> 0x20 \<le> code c \<and> code c < 0x7F"

lemma length_appendEscapingBadChars: "length (appendEscapingBadChars s) \<le> 3 * length s"
  by (induction s) (auto simp: appendEscapedChar_def)

lemma length_escapeNonHierarchical: "length (escapeAndAppendNonHierarchicalPart s) \<le> 3 * length s"
  by (induction s) (auto simp: appendEscapedChar_def)

lemma printable_hex: "0 \<le> n \<Longrightarrow> n < 16 \<Longrightarrow> printable (hex_digit n)"
proof -
  assume "0 \<le> n" "n < 16"
  moreover have "\<forall>n \<in> {0..<16}. printable (hex_digit n)" by code_simp
  ultimately show ?thesis by simp
qed

lemma printable_escaped: "c' \<in> set (appendEscapedChar c) \<Longrightarrow> printable c'"
proof -
  have "code (CHR ''%'') = 37" by (simp add: code_def)
  then show "c' \<in> set (appendEscapedChar c) \<Longrightarrow> printable c'"
    using code_bounds [of c] by (auto simp: appendEscapedChar_def intro!: printable_hex) (simp add: printable_def)
qed

lemma not_bad_printable: "\<not> isBadChar c \<Longrightarrow> c \<noteq> NUL \<Longrightarrow> printable c"
  using code_bounds [of c] code_inj [of c NUL]
  by (auto simp: isBadChar_def characterClassTable_def printable_def split: if_splits)

lemma printable_chars [simp]: "printable (CHR ''%'')" "printable (CHR ''?'')" "printable (CHR ''/'')" "printable (CHR '':'')"
  "printable (CHR ''@'')" "printable (CHR ''#'')" "printable (CHR ''['')" "printable (CHR '']'')"
  by (simp_all add: printable_def code_def)

lemma printable_appendEscaping:
  "c \<in> set (appendEscapingBadChars s) \<Longrightarrow> NUL \<notin> set s \<Longrightarrow> printable c"
  by (induction s) (auto simp: printable_escaped intro: not_bad_printable split: if_splits)

lemma printable_escapeNonHierarchical: "c \<in> set (escapeAndAppendNonHierarchicalPart s) \<Longrightarrow> printable c"
proof (induction s)
  case (Cons a s)
  have "\<lbrakk>\<not> code a < 32; \<not> 127 \<le> code a\<rbrakk> \<Longrightarrow> printable a" by (simp add: printable_def)
  with Cons show ?case by (auto simp: printable_escaped split: if_splits)
qed simp

lemma class_printable: "isUserInfoChar c \<Longrightarrow> printable c" "isHostnameChar c \<Longrightarrow> printable c"
  "isIPv6Char c \<Longrightarrow> printable c" "isASCIIDigit c \<Longrightarrow> printable c" "isSchemeChar c \<Longrightarrow> printable c"
  by (auto simp: isUserInfoChar_def isHostnameChar_def isIPv6Char_def isASCIIDigit_def isSchemeChar_def
      characterClassTable_def printable_def split: if_splits)

lemma printable_lower: "printable c \<Longrightarrow> printable (toASCIILower c)"
  by (auto simp: toASCIILower_def printable_def code_def)

lemma length_rewind: "length (rewind_segment dst) \<le> length dst"
  by (induction dst) auto

lemma set_rewind: "set (rewind_segment dst) \<subseteq> set dst"
  by (induction dst) auto

lemma copy_dots_end: "srcEnd \<le> pos \<Longrightarrow> copy_dots src pos srcEnd dst = Some (rev dst)"
  by (simp add: copy_dots.simps)

text \<open>One round: a character is copied, a dot segment is skipped, or a segment is taken back.\<close>

lemma copy_dots_step:
  assumes "pos < srcEnd"
  obtains (outside) "dst = []" "copy_dots src pos srcEnd dst = None"
  | (round) pos' dst' where "pos < pos'" "copy_dots src pos srcEnd dst = copy_dots src pos' srcEnd dst'"
      "dst' = char_at src pos # dst
       \<or> dst \<noteq> [] \<and> (dst' = dst \<or> dst' = rewind_segment (if 1 < length dst then tl dst else dst))"
proof (cases "char_at src pos = CHR ''.''")
  case nd: False
  show thesis
    by (rule round [of "pos + 1" "char_at src pos # dst"]) (use assms nd in \<open>simp_all add: copy_dots.simps [of src pos]\<close>)
next
  case dot: True
  show thesis
  proof (cases dst)
    case Nil
    then show thesis using outside assms dot by (simp add: copy_dots.simps)
  next
    case (Cons prev rest)
    let ?one = "prev = CHR ''/'' \<and> (char_at src (pos + 1) = CHR ''/'' \<or> pos + 1 = srcEnd)"
    let ?two = "prev = CHR ''/'' \<and> char_at src (pos + 1) = CHR ''.'' \<and> (char_at src (pos + 2) = CHR ''/'' \<or> pos + 2 = srcEnd)"
    have eq: "copy_dots src pos srcEnd dst = (if ?one then copy_dots src (pos + 2) srcEnd dst
        else if ?two then copy_dots src (pos + 3) srcEnd (rewind_segment (if 1 < length dst then rest else dst))
        else copy_dots src (pos + 1) srcEnd (char_at src pos # dst))"
      using assms dot Cons by (subst copy_dots.simps) (simp only: not_le [symmetric] if_False if_True list.case simp_thms)
    consider ?one | "\<not> ?one" ?two | "\<not> ?one" "\<not> ?two" by blast
    then show thesis
    proof cases
      case 1
      then have "copy_dots src pos srcEnd dst = copy_dots src (pos + 2) srcEnd dst" unfolding eq by (rule if_P)
      then show thesis using Cons by (intro round [of "pos + 2" dst]) simp_all
    next
      case 2
      then have "copy_dots src pos srcEnd dst = copy_dots src (pos + 3) srcEnd (rewind_segment (if 1 < length dst then rest else dst))"
        unfolding eq if_not_P [OF 2(1)] by (intro if_P)
      moreover have "rest = tl dst" "dst \<noteq> []" using Cons by simp_all
      ultimately show thesis by (intro round [of "pos + 3" "rewind_segment (if 1 < length dst then tl dst else dst)"]) simp_all
    next
      case 3
      then have "copy_dots src pos srcEnd dst = copy_dots src (pos + 1) srcEnd (char_at src pos # dst)"
        unfolding eq if_not_P [OF 3(1)] by (intro if_not_P)
      from round [OF _ this disjI1 [OF refl]] show thesis by simp
    qed
  qed
qed

lemma length_back: "length (rewind_segment (if 1 < length dst then tl dst else dst)) \<le> length dst"
  using length_rewind [of "tl dst"] length_rewind [of dst] by auto

lemma set_back: "set (rewind_segment (if 1 < length dst then tl dst else dst)) \<subseteq> set dst"
  using set_rewind [of "tl dst"] set_rewind [of dst] by (cases dst) auto

lemma copy_dots_length:
  "copy_dots src pos srcEnd dst = Some out \<Longrightarrow> length out \<le> length dst + (srcEnd - pos)"
proof (induction "srcEnd - pos" arbitrary: pos dst rule: less_induct)
  case less
  show ?case
  proof (cases "pos < srcEnd")
    case True
    then show ?thesis
    proof (cases rule: copy_dots_step [of pos srcEnd dst src])
      case (round pos' dst')
      have "length out \<le> length dst' + (srcEnd - pos')"
        using less.hyps [of pos' dst'] less.prems round True by simp
      moreover have "length dst' \<le> Suc (length dst)" "length dst' \<le> length dst \<or> pos < pos'"
        using round length_back [of dst] by auto
      ultimately show ?thesis using round(1) True by linarith
    qed (use less.prems in simp)
  next
    case False
    then have "out = rev dst" using less.prems by (simp add: copy_dots_end)
    then show ?thesis by simp
  qed
qed

lemma copy_dots_all:
  "copy_dots src pos srcEnd dst = Some out \<Longrightarrow> (\<And>k. pos \<le> k \<Longrightarrow> k < srcEnd \<Longrightarrow> Q (char_at src k)) \<Longrightarrow>
   \<forall>c \<in> set dst. Q c \<Longrightarrow> \<forall>c \<in> set out. Q c"
proof (induction "srcEnd - pos" arbitrary: pos dst rule: less_induct)
  case less
  show ?case
  proof (cases "pos < srcEnd")
    case True
    then show ?thesis
    proof (cases rule: copy_dots_step [of pos srcEnd dst src])
      case (round pos' dst')
      have "\<forall>c \<in> set dst'. Q c" using round(3) less.prems(2) [of pos] less.prems(3) True set_back [of dst] by auto
      then show ?thesis using less.hyps [of pos' dst'] less.prems round True by simp
    qed (use less.prems in simp)
  qed (use less.prems in \<open>auto simp: copy_dots_end\<close>)
qed

text \<open>With a slash at the bottom of the destination, no read is outside the buffer.\<close>

lemma rewind_bottom: "dst \<noteq> [] \<Longrightarrow> last dst = CHR ''/'' \<Longrightarrow> rewind_segment dst \<noteq> [] \<and> last (rewind_segment dst) = CHR ''/''"
  by (induction dst) (auto split: if_splits)

lemma copy_dots_defined:
  "dst \<noteq> [] \<Longrightarrow> last dst = CHR ''/'' \<Longrightarrow> \<exists>out. copy_dots src pos srcEnd dst = Some out"
proof (induction "srcEnd - pos" arbitrary: pos dst rule: less_induct)
  case less
  show ?case
  proof (cases "pos < srcEnd")
    case True
    then show ?thesis
    proof (cases rule: copy_dots_step [of pos srcEnd dst src])
      case (round pos' dst')
      let ?d = "if 1 < length dst then tl dst else dst"
      have "?d \<noteq> []" "last ?d = CHR ''/''" using less.prems by (cases dst; auto)+
      note rewind_bottom [OF this]
      then have "dst' \<noteq> [] \<and> last dst' = CHR ''/''" using round(3) less.prems by auto
      then show ?thesis using less.hyps [of pos' dst'] round True by simp
    qed (use less.prems in simp)
  qed (simp add: copy_dots_end)
qed


lemma copyPath_length: "copyPathRemovingDots url i j = Some out \<Longrightarrow> i \<le> j \<Longrightarrow> length out \<le> j - i"
  using copy_dots_length [of url "i + 1" j "[char_at url i]" out]
  by (auto simp: copyPathRemovingDots_def split: if_splits)

lemma copyPath_all:
  assumes "copyPathRemovingDots url i j = Some out" "i \<le> j" "\<And>k. i \<le> k \<Longrightarrow> k < j \<Longrightarrow> Q (char_at url k)"
  shows "\<forall>c \<in> set out. Q c"
proof (cases "i = j")
  case False
  then show ?thesis
    using copy_dots_all [of url "i + 1" j "[char_at url i]" out Q] assms by (simp add: copyPathRemovingDots_def)
qed (use assms(1) in \<open>simp add: copyPathRemovingDots_def\<close>)

lemma copyPath_defined: "i = j \<or> char_at url i = CHR ''/'' \<Longrightarrow> \<exists>out. copyPathRemovingDots url i j = Some out"
  using copy_dots_defined [of "[char_at url i]" url "i + 1" j] by (auto simp: copyPathRemovingDots_def)

section \<open>The ranges of the authority\<close>

definition authority_ok :: "string \<Rightarrow> nat \<Rightarrow> authority \<Rightarrow> bool" where
  \<comment> \<open>inside the input, and as long as the parts of the canonical authority need\<close>
  "authority_ok url schemeEnd a \<longleftrightarrow>
     portEnd a \<le> length url \<and> schemeEnd < userStart a
     \<and> userStart a \<le> userEnd a \<and> userEnd a \<le> portEnd a \<and> userStart a \<le> passwordStart a \<and> passwordEnd a \<le> portEnd a
     \<and> userStart a \<le> hostStart a \<and> hostStart a \<le> hostEnd a \<and> hostEnd a \<le> portEnd a \<and> userStart a \<le> portStart a
     \<and> (\<forall>k. userStart a \<le> k \<and> k < portEnd a \<longrightarrow> printable (char_at url k))
     \<and> (userEnd a - userStart a) + (if passwordStart a \<noteq> passwordEnd a then 1 + (passwordEnd a - passwordStart a) else 0)
       + (if userStart a = userEnd a \<and> passwordStart a = passwordEnd a then 0 else 1)
       + (hostEnd a - hostStart a) + (if portStart a \<noteq> portEnd a then 1 + (portEnd a - portStart a) else 0)
       \<le> portEnd a - userStart a"

lemma authority_ok_inside: "authority_ok url schemeEnd a \<Longrightarrow> portEnd a \<le> length url"
  by (simp add: authority_ok_def)

lemma user_start_ge: "schemeEnd < user_start url schemeEnd h s f http"
  using scan_ge [of "schemeEnd + 1 + (if h then 1 else 0) + (if s then 1 else 0)" "\<lambda>c. c = CHR ''/''" url]
  by (auto simp: user_start_def Let_def split: if_splits)

lemma user_start_le:
  assumes "char_at url schemeEnd = CHR '':''" "h \<longleftrightarrow> char_at url (schemeEnd + 1) = CHR ''/''"
    "s \<longleftrightarrow> h \<and> char_at url (schemeEnd + 2) = CHR ''/''"
  shows "user_start url schemeEnd h s f http \<le> length url"
proof -
  define i0 where "i0 = schemeEnd + 1 + (if h then 1 else 0) + (if s then 1 else 0)"
  define i1 where "i1 = (if http then scan (\<lambda>c. c = CHR ''/'') url i0 else i0)"
  define i2 where "i2 = scan (\<lambda>c. c = CHR ''/'') url i1"
  have "i0 \<le> length url"
    using assms char_at_not_NUL [of url schemeEnd] char_at_not_NUL [of url "schemeEnd + 1"] char_at_not_NUL [of url "schemeEnd + 2"]
    by (auto simp: NUL_def i0_def)
  then have "i1 \<le> length url" by (simp add: i1_def scan_le)
  then have "i2 \<le> length url" by (simp add: i2_def scan_le)
  moreover have "user_start url schemeEnd h s f http = (if f \<and> i1 < i2 then i2 - 1 else i1)"
    by (simp only: user_start_def Let_def i0_def i1_def i2_def)
  ultimately show ?thesis using \<open>i1 \<le> length url\<close> by auto
qed

lemma user_info_ranges:
  assumes "user_info url start = Some (ue, ps, pe, hs)" "start \<le> length url"
  shows "start \<le> ue" "hs \<le> length url" "ps \<le> pe"
    "(ue = start \<and> ps = pe \<and> pe = start \<and> hs = start) \<or> (ps = pe \<and> ue = pe \<and> hs = pe + 1)
      \<or> (ps = ue + 1 \<and> hs = pe + 1 \<and> char_at url ue = CHR '':'')"
    "\<forall>k. start \<le> k \<and> k < hs \<longrightarrow> printable (char_at url k)"
proof -
  let ?stop = "scan isUserInfoChar url start" and ?colon = "scan (\<lambda>c. isUserInfoChar c \<and> c \<noteq> CHR '':'') url start"
  have g: "start \<le> ?stop" "start \<le> ?colon" "?stop \<le> length url" using assms(2) by (simp_all add: scan_ge scan_le)
  have at: "char_at url ?stop = CHR ''@'' \<Longrightarrow> ?stop < length url" by (rule char_at_not_NUL) (simp add: NUL_def)
  have colon: "char_at url ?colon = CHR '':''" if "?colon < ?stop"
    using scan_in [of start ?colon isUserInfoChar url] scan_stop [of "\<lambda>c. isUserInfoChar c \<and> c \<noteq> CHR '':''" url start] that g(2)
    by (auto simp: char_at_def)
  show "start \<le> ue" "hs \<le> length url" "ps \<le> pe"
    "(ue = start \<and> ps = pe \<and> pe = start \<and> hs = start) \<or> (ps = pe \<and> ue = pe \<and> hs = pe + 1)
      \<or> (ps = ue + 1 \<and> hs = pe + 1 \<and> char_at url ue = CHR '':'')"
    using assms g at colon by (auto simp: user_info_def Let_def split: if_splits)
  have "printable (char_at url k)" if "start \<le> k" "k < ?stop" for k
    using scan_in [OF that] class_printable(1) by (simp add: char_at_def)
  then show "\<forall>k. start \<le> k \<and> k < hs \<longrightarrow> printable (char_at url k)"
    using assms(1) by (auto simp: user_info_def Let_def less_Suc_eq split: if_splits)
qed

lemma host_end_ranges:
  assumes "host_end url hs = Some he" "hs \<le> length url"
  shows "hs \<le> he" "he \<le> length url" "\<forall>k. hs \<le> k \<and> k < he \<longrightarrow> printable (char_at url k)"
proof -
  show "\<forall>k. hs \<le> k \<and> k < he \<longrightarrow> printable (char_at url k)"
  proof (intro allI impI, elim conjE)
    fix k assume k: "hs \<le> k" "k < he"
    show "printable (char_at url k)"
    proof (cases "char_at url hs = CHR ''[''")
      case True
      let ?e = "scan isIPv6Char url (hs + 1)"
      have he: "he = ?e + 1" "char_at url ?e = CHR '']''"
        using assms(1) True by (simp_all add: host_end_def Let_def split: if_splits)
      consider "k = hs" | "k = ?e" | "hs + 1 \<le> k" "k < ?e" using k he(1) by linarith
      then show ?thesis
        by cases (use True he in simp_all, use scan_in class_printable(3) char_at_def in metis)
    next
      case False
      then show ?thesis using assms(1) k scan_in [of hs k isHostnameChar url] class_printable(2)
        by (simp add: host_end_def char_at_def)
    qed
  qed
  have "char_at url e = CHR '']'' \<Longrightarrow> e < length url" for e by (rule char_at_not_NUL) (simp add: NUL_def)
  then show "hs \<le> he" "he \<le> length url"
    using assms scan_ge [of hs isHostnameChar url] scan_le [of hs url isHostnameChar] scan_ge [of "hs + 1" isIPv6Char url]
    by (auto simp: host_end_def Let_def Suc_le_eq split: if_splits intro: Suc_leD le_SucI)
qed

lemma find_authority_ranges:
  assumes "find_authority url start isFile http = Some a" "start \<le> length url" "schemeEnd < start"
  shows "authority_ok url schemeEnd a \<or> (a = no_authority (start - 2) \<and> \<not> http \<and> \<not> isFile)"
proof -
  from assms(1) obtain ue ps pe hs he where u: "user_info url start = Some (ue, ps, pe, hs)" and h: "host_end url hs = Some he"
    by (auto simp: find_authority_def split: option.splits)
  define pt where "pt = (if char_at url he = CHR '':'' then he + 1 else he)"
  define pn where "pn = (if char_at url he = CHR '':'' then scan isASCIIDigit url pt else he)"
  note ur = user_info_ranges [OF u assms(2)]
  note hr = host_end_ranges [OF h ur(2)]
  have "char_at url he = CHR '':'' \<Longrightarrow> he < length url" by (rule char_at_not_NUL) (simp add: NUL_def)
  then have p: "he \<le> pt" "pt \<le> pn" "pn \<le> length url" "pt = he \<longrightarrow> pn = he" "pt = he \<or> pt = he + 1"
    using hr scan_ge [of pt isASCIIDigit url] scan_le [of pt url isASCIIDigit] by (auto simp: pn_def pt_def)
  have digits: "printable (char_at url k)" if "he \<le> k" "k < pn" for k
  proof (cases "k = he")
    case True
    then show ?thesis using that by (simp add: pn_def split: if_splits)
  next
    case False
    then show ?thesis using that scan_in [of pt k isASCIIDigit url] class_printable(4)
      by (auto simp: pn_def pt_def char_at_def split: if_splits)
  qed
  have pr: "\<forall>k. start \<le> k \<and> k < pn \<longrightarrow> printable (char_at url k)"
    using ur(5) hr(3) digits by (meson not_le)
  have a: "a = no_authority (start - 2) \<and> \<not> http \<and> \<not> isFile \<or> a = no_authority start
    \<or> (hs = pn \<and> char_at url ue = CHR ''@'' \<and> a = \<lparr>userStart = start, userEnd = start, passwordStart = ps, passwordEnd = pe,
        hostStart = start, hostEnd = he, portStart = pt, portEnd = pn\<rparr>)
    \<or> a = \<lparr>userStart = start, userEnd = ue, passwordStart = ps, passwordEnd = pe,
        hostStart = hs, hostEnd = he, portStart = pt, portEnd = pn\<rparr>"
    using assms(1) by (auto simp: find_authority_def u h Let_def hostPortIsEmptyButCredentialsArePresent_def
        simp flip: pt_def pn_def split: if_splits)
  consider "a = no_authority (start - 2) \<and> \<not> http \<and> \<not> isFile" | "a = no_authority start"
    | "hs = pn" "char_at url ue = CHR ''@''" "a = \<lparr>userStart = start, userEnd = start, passwordStart = ps, passwordEnd = pe,
        hostStart = start, hostEnd = he, portStart = pt, portEnd = pn\<rparr>"
    | "a = \<lparr>userStart = start, userEnd = ue, passwordStart = ps, passwordEnd = pe,
        hostStart = hs, hostEnd = he, portStart = pt, portEnd = pn\<rparr>"
    using a by blast
  then show ?thesis
  proof cases
    case 2
    then show ?thesis using assms(2,3) by (simp add: authority_ok_def no_authority_def) linarith
  next
    case 3
    then have "ps = pe" using ur(4) by auto
    then show ?thesis using 3 ur(1-4) hr(1,2) p pr assms(2,3) by (auto simp: authority_ok_def)
  next
    case 4
    have r: "ue \<le> hs" "pe \<le> hs" "start \<le> hs" "start \<le> ps" using ur(1,3,4) by auto
    have 5: "(ue - start) + (if ps \<noteq> pe then 1 + (pe - ps) else 0) + (if start = ue \<and> ps = pe then 0 else 1) \<le> hs - start"
      using ur(1,3,4) by (elim disjE) auto
    have 6: "(if pt \<noteq> pn then 1 + (pn - pt) else 0) \<le> pn - he" using p(1,2,4,5) by auto
    have "(ue - start) + (if ps \<noteq> pe then 1 + (pe - ps) else 0) + (if start = ue \<and> ps = pe then 0 else 1)
        + (he - hs) + (if pt \<noteq> pn then 1 + (pn - pt) else 0) \<le> pn - start"
      using 5 6 r(3) hr(1) p(1,2) by linarith
    then have "authority_ok url schemeEnd a"
      unfolding authority_ok_def 4 authority.simps
      using ur(1) r hr(1,2) p(1-3) pr assms(3) by (intro conjI) (assumption | linarith | simp only:)+
    then show ?thesis ..
  qed simp
qed


section \<open>The assembled string\<close>

lemma path_end_range: "i \<le> length url \<Longrightarrow> i \<le> path_end url i \<and> path_end url i \<le> length url"
  by (simp add: path_end_def scan_ge scan_le)

lemma query_end_range: "i \<le> length url \<Longrightarrow> i \<le> query_end url i \<and> query_end url i \<le> length url"
  by (simp add: query_end_def scan_ge scan_le)

lemma fragment_range_range:
  assumes "i \<le> length url"
  shows "fst (fragment_range url i) \<le> snd (fragment_range url i) \<and> snd (fragment_range url i) \<le> length url
    \<and> (snd (fragment_range url i) \<noteq> i \<longrightarrow> fst (fragment_range url i) = i + 1)
    \<and> i \<le> snd (fragment_range url i)"
proof -
  have "char_at url i = CHR ''#'' \<Longrightarrow> i < length url" by (rule char_at_not_NUL) (simp add: NUL_def)
  then show ?thesis
    using assms scan_ge [of "i + 1" "\<lambda>c. c \<noteq> NUL" url] scan_le [of "i + 1" url "\<lambda>c. c \<noteq> NUL"]
    by (auto simp: fragment_range_def)
qed

lemma no_NUL_path: "path_end url i > k \<Longrightarrow> i \<le> k \<Longrightarrow> char_at url k \<noteq> NUL"
  unfolding path_end_def by (drule (1) scan_in [rotated]) (simp add: char_at_def)

lemma canonical_path_props:
  assumes "canonical_path url h i (path_end url i) = Some path" "i \<le> length url"
  shows "length path \<le> 3 * (path_end url i - i) \<and> (\<forall>c \<in> set path. printable c)"
proof -
  have e: "i \<le> path_end url i" "path_end url i \<le> length url" using path_end_range [OF assms(2)] by simp_all
  have sl: "length (slice url i (path_end url i)) = path_end url i - i" using e by simp
  have nn: "NUL \<notin> set (slice url i (path_end url i))"
    using slice_in no_NUL_path by (metis char_at_def)
  have dots: "length out \<le> path_end url i - i \<and> NUL \<notin> set out"
    if "copyPathRemovingDots url i (path_end url i) = Some out" for out
    using copyPath_length [OF that e(1)] copyPath_all [OF that e(1), of "\<lambda>c. c \<noteq> NUL"] no_NUL_path [where url = url and i = i] by auto
  have esc: "length (appendEscapingBadChars out) \<le> 3 * (path_end url i - i) \<and> (\<forall>c \<in> set (appendEscapingBadChars out). printable c)"
    if "length out \<le> path_end url i - i" "NUL \<notin> set out" for out
    using length_appendEscapingBadChars [of out] printable_appendEscaping [OF _ that(2)] that(1) by auto
  consider "\<not> h" "path = escapeAndAppendNonHierarchicalPart (slice url i (path_end url i))"
    | "path = appendEscapingBadChars (slice url i (path_end url i))"
    | out where "copyPathRemovingDots url i (path_end url i) = Some out" "path = appendEscapingBadChars out"
    using assms(1) by (auto simp: canonical_path_def split: if_splits)
  then show ?thesis
  proof cases
    case 1
    then show ?thesis using length_escapeNonHierarchical [of "slice url i (path_end url i)"] sl printable_escapeNonHierarchical
      by (auto simp del: length_slice)
  next
    case 2
    then show ?thesis using esc [of "slice url i (path_end url i)"] sl nn by simp
  next
    case 3
    then show ?thesis using esc [of out] dots [of out] by simp
  qed
qed

lemma canonical_authority_props:
  assumes "authority_ok url schemeEnd a" "canonical_authority url scheme a f l = (user, pass, host, port)"
  shows "length user + length pass + length host + length port \<le> portEnd a - userStart a"
    and "\<forall>c \<in> set (user @ pass @ host @ port). printable c"
proof -
  have pr: "printable c" if "c \<in> set (slice url i j)" "userStart a \<le> i" "j \<le> portEnd a" for c i j
    using slice_in [OF that(1)] that(2,3) assms(1) unfolding authority_ok_def
    by (metis (no_types, lifting) char_at_def le_trans less_le_trans)
  have len: "length (slice url i j) \<le> j - i" for i j by simp
  have eqs: "user = slice url (userStart a) (userEnd a)"
    "pass = (if passwordEnd a \<noteq> passwordStart a then CHR '':'' # slice url (passwordStart a) (passwordEnd a) else [])"
    "length host \<le> (if user @ pass \<noteq> [] then 1 else 0) + (hostEnd a - hostStart a)"
    "set host \<subseteq> {CHR ''@''} \<union> toASCIILower ` set (slice url (hostStart a) (hostEnd a)) \<union> set (slice url (hostStart a) (hostEnd a))"
    "port = [] \<or> portStart a \<noteq> portEnd a \<and> port = CHR '':'' # slice url (portStart a) (portEnd a)"
    using assms(2) by (auto simp: canonical_authority_def Let_def split: if_splits)
  have "userStart a = userEnd a \<and> passwordStart a = passwordEnd a \<Longrightarrow> user @ pass = []" using eqs(1,2) by simp
  then have "length host \<le> (if userStart a = userEnd a \<and> passwordStart a = passwordEnd a then 0 else 1) + (hostEnd a - hostStart a)"
    using eqs(3) by (auto split: if_splits)
  moreover have "length user \<le> userEnd a - userStart a" using eqs(1) by simp
  moreover have "length pass \<le> (if passwordStart a \<noteq> passwordEnd a then 1 + (passwordEnd a - passwordStart a) else 0)"
    using eqs(2) by simp
  moreover have "length port \<le> (if portStart a \<noteq> portEnd a then 1 + (portEnd a - portStart a) else 0)"
    using eqs(5) by auto
  ultimately show "length user + length pass + length host + length port \<le> portEnd a - userStart a"
    using assms(1) unfolding authority_ok_def by linarith
  have ok: "userEnd a \<le> portEnd a" "userStart a \<le> passwordStart a" "passwordEnd a \<le> portEnd a"
    "userStart a \<le> hostStart a" "hostEnd a \<le> portEnd a" "userStart a \<le> portStart a"
    using assms(1) unfolding authority_ok_def by blast+
  have "\<forall>c \<in> set user. printable c" unfolding eqs(1) using pr ok(1) by blast
  moreover have "\<forall>c \<in> set pass. printable c" unfolding eqs(2) using pr [OF _ ok(2,3)] by auto
  moreover have "\<forall>c \<in> set host. printable c"
    using eqs(4) pr [OF _ ok(4,5)] printable_lower printable_chars(5) by blast
  moreover have "\<forall>c \<in> set port. printable c" using eqs(5) pr [OF _ ok(6) order_refl] by auto
  ultimately show "\<forall>c \<in> set (user @ pass @ host @ port). printable c" by auto
qed

text \<open>What the assembled string consists of, with the offsets and the length of each part.\<close>

lemma assemble_parts:
  assumes a: "assemble url schemeEnd h f http a = Some k" and "portEnd a \<le> length url"
  obtains slashes user pass host port lead path query frag where
    "m_string k = map toASCIILower (slice url 0 schemeEnd) @ '':'' @ slashes @ user @ pass @ host @ port @ lead @ path @ query @ frag"
    "m_schemeEnd k = schemeEnd" "m_isValid k" "m_protocolIsInHTTPFamily k = http"
    "m_userStart k = length (slice url 0 schemeEnd) + 1 + length slashes"
    "m_userEnd k = m_userStart k + length user" "m_passwordEnd k = m_userEnd k + length pass"
    "m_hostEnd k = m_passwordEnd k + length host" "m_portEnd k = m_hostEnd k + length port"
    "m_pathEnd k = m_portEnd k + length lead + length path"
    "m_pathAfterLastSlash k = after_last_slash (take (m_pathEnd k) (m_string k)) (m_portEnd k) (m_pathEnd k)"
    "m_queryEnd k = m_pathEnd k + length query" "m_fragmentEnd k = m_queryEnd k + length frag"
    "slashes = [] \<or> slashes = ''//''" "lead = [] \<or> lead = ''/'' \<or> lead = ''//''" "f \<or> length lead \<le> 1" "http \<or> f \<or> lead = []"
    "f \<or> userStart a \<noteq> userEnd a \<or> passwordStart a \<noteq> passwordEnd a \<or> portStart a \<noteq> portEnd a \<or> hostStart a \<noteq> hostEnd a \<or> slashes = []"
    "(user, pass, host, port) = ([], [], [], []) \<or> slashes = ''//'' \<and> (\<exists>l. canonical_authority url (map toASCIILower (slice url 0 schemeEnd)) a f l = (user, pass, host, port))"
    "length path + length query + length frag \<le> 3 * (length url - portEnd a)"
    "\<forall>c \<in> set path \<union> set query \<union> set frag. printable c"
    "canonical_path url h (portEnd a) (path_end url (portEnd a)) = Some path"
    "query = [] \<or> hd query = CHR ''?''" "frag = [] \<or> hd frag = CHR ''#''"
    "f \<or> lead = [] \<or> path = []" "slashes = [] \<or> f \<or> (\<forall>i. a \<noteq> no_authority i)"
proof -
  define pE where "pE = path_end url (portEnd a)"
  define qE where "qE = query_end url pE"
  obtain fS fE where fr: "fragment_range url qE = (fS, fE)" by fastforce
  have pE: "portEnd a \<le> pE" "pE \<le> length url" using path_end_range [OF assms(2)] by (simp_all add: pE_def)
  have qE: "pE \<le> qE" "qE \<le> length url" using query_end_range [OF pE(2)] by (simp_all add: qE_def)
  have fE: "fS \<le> fE" "fE \<le> length url" "fE \<noteq> qE \<Longrightarrow> fS = qE + 1" "qE \<le> fE"
    using fragment_range_range [OF qE(2)] by (simp_all add: fr)
  define query where "query = appendEscapingBadChars (slice url pE qE)"
  define frag where "frag = (if fE \<noteq> qE then CHR ''#'' # escapeAndAppendNonHierarchicalPart (slice url fS fE) else [])"
  have "NUL \<notin> set (slice url pE qE)"
    using slice_scan [of NUL url pE "\<lambda>c. c \<noteq> NUL \<and> c \<noteq> CHR ''#''"] by (auto simp: qE_def query_end_def split: if_splits)
  then have qp: "length query \<le> 3 * (qE - pE)" "\<forall>c \<in> set query. printable c"
    using length_appendEscapingBadChars [of "slice url pE qE"] printable_appendEscaping by (auto simp: query_def)
  have fp: "length frag \<le> 3 * (fE - qE)" "\<forall>c \<in> set frag. printable c"
    using length_escapeNonHierarchical [of "slice url fS fE"] printable_escapeNonHierarchical fE
    by (auto simp: frag_def)
  have hq: "query = [] \<or> hd query = CHR ''?''"
  proof (cases "char_at url pE = CHR ''?''")
    case True
    then have "pE < length url" by (intro char_at_not_NUL) (simp add: NUL_def)
    then have "slice url pE qE = [] \<or> (\<exists>r. slice url pE qE = CHR ''?'' # r)"
      using True by (cases "qE - pE") (auto simp: slice_def char_at_def Cons_nth_drop_Suc [symmetric])
    then show ?thesis by (cases "isBadChar (CHR ''?'')") (auto simp: query_def)
  qed (simp add: query_def qE_def query_end_def)
  define scheme where "scheme = map toASCIILower (slice url 0 schemeEnd)"
  define l where "l \<longleftrightarrow> portEnd a - userStart a = 9 \<and> letters_match url (userStart a) ''localhost''"
  define w where "w \<longleftrightarrow> (if f then \<not> (portEnd a = pE \<and> (hostStart a = hostEnd a \<or> l))
      else (userStart a \<noteq> userEnd a \<or> passwordStart a \<noteq> passwordEnd a \<or> portStart a \<noteq> portEnd a) \<or> hostStart a \<noteq> hostEnd a)"
  obtain user pass host port where au: "(if w then canonical_authority url scheme a f l else ([], [], [], [])) = (user, pass, host, port)"
    by (metis prod_cases4)
  define slashes where "slashes = (if w \<or> f then ''//'' else [])"
  define s1 where "s1 = (if (http \<or> f) \<and> pE = portEnd a then ''/'' else [])"
  define s2 where "s2 = (if f \<and> char_at url (portEnd a) \<noteq> CHR ''/'' then ''/'' else [])"
  from a obtain path where path: "canonical_path url h (portEnd a) pE = Some path" and k: "k =
      (let p0 = scheme @ '':'' @ slashes; p1 = p0 @ user; p2 = p1 @ pass; p3 = p2 @ host; p4 = p3 @ port;
           p5 = p4 @ s1 @ s2 @ path; p6 = p5 @ query; p7 = p6 @ frag
       in \<lparr>m_string = p7, m_isValid = True, m_protocolIsInHTTPFamily = http,
               m_schemeEnd = schemeEnd, m_userStart = length p0, m_userEnd = length p1,
               m_passwordEnd = length p2, m_hostEnd = length p3, m_portEnd = length p4,
               m_pathAfterLastSlash = after_last_slash p5 (length p4) (length p5),
               m_pathEnd = length p5, m_queryEnd = length p6, m_fragmentEnd = length p7\<rparr>)"
    unfolding assemble_def Let_def pE_def [symmetric] qE_def [symmetric] fr prod.case scheme_def [symmetric]
      l_def [symmetric] w_def [symmetric] au slashes_def [symmetric] s1_def [symmetric] s2_def [symmetric]
      query_def [symmetric] frag_def [symmetric]
    by (auto simp only: map_option_eq_Some)
  have pp: "length path \<le> 3 * (pE - portEnd a)" "\<forall>c \<in> set path. printable c"
    using canonical_path_props [OF path [unfolded pE_def] assms(2)] by (simp_all add: pE_def)
  show thesis
  proof (rule that [of slashes user pass host port "s1 @ s2" path query frag])
    show "length path + length query + length frag \<le> 3 * (length url - portEnd a)"
      using pp(1) qp(1) fp(1) pE qE fE(2,4) by linarith
    show "m_pathAfterLastSlash k = after_last_slash (take (m_pathEnd k) (m_string k)) (m_portEnd k) (m_pathEnd k)"
      unfolding k by (simp add: Let_def)
    show "canonical_path url h (portEnd a) (path_end url (portEnd a)) = Some path" using path by (simp add: pE_def)
    show "query = [] \<or> hd query = CHR ''?''" by (rule hq)
    show "frag = [] \<or> hd frag = CHR ''#''" by (simp add: frag_def)
    show "f \<or> s1 @ s2 = [] \<or> path = []" using pp(1) by (auto simp: s1_def s2_def)
    show "slashes = [] \<or> f \<or> (\<forall>i. a \<noteq> no_authority i)" by (auto simp: slashes_def w_def no_authority_def)
  qed (use au pp(2) qp(2) fp(2) in \<open>auto simp: k Let_def scheme_def slashes_def w_def s1_def s2_def split: if_splits\<close>)
qed

lemma after_last_slash_range: "lo \<le> i \<Longrightarrow> lo \<le> after_last_slash buf lo i \<and> after_last_slash buf lo i \<le> i"
  by (induction buf lo i rule: after_last_slash.induct) auto

lemma non_file_scheme_length: "isNonFileHierarchicalScheme scheme \<Longrightarrow> 2 \<le> length scheme"
  by (auto simp: isNonFileHierarchicalScheme_def)

lemma user_start_second_slash: "hasSecondSlash \<Longrightarrow> schemeEnd + 3 \<le> user_start url schemeEnd True hasSecondSlash f http"
  using scan_ge [of "schemeEnd + 3" "\<lambda>c. c = CHR ''/''" url]
  by (auto simp: user_start_def Let_def eval_nat_numeral)

lemma find_authority_path:
  assumes "find_authority url start False http = Some a"
  shows "isPathSegmentEndChar (char_at url (portEnd a))
    \<or> a = no_authority (start - 2) \<and> \<not> http \<and> isPathSegmentEndChar (char_at url start)"
proof -
  from assms obtain ue ps pe hs he where u: "user_info url start = Some (ue, ps, pe, hs)" and h: "host_end url hs = Some he"
    by (auto simp: find_authority_def split: option.splits)
  define pt where "pt = (if char_at url he = CHR '':'' then he + 1 else he)"
  define pn where "pn = (if char_at url he = CHR '':'' then scan isASCIIDigit url pt else he)"
  have "isPathSegmentEndChar (char_at url pn) \<and> (portEnd a = pn \<or> a = no_authority (start - 2) \<and> \<not> http \<and> start = pn)"
    using assms unfolding find_authority_def u h option.case prod.case Let_def pt_def [symmetric] pn_def [symmetric]
    by (auto split: if_splits)
  then show ?thesis by auto
qed

text \<open>The cases in which \<open>parse\<close> assembles a valid URL.\<close>

lemma KURL_parse_valid:
  assumes "KURL_parse url = Some k" "m_isValid k"
  obtains schemeEnd h f http a where "assemble url schemeEnd h f http a = Some k"
    "schemeEnd = scan isSchemeChar url 0" "schemeEnd < length url" "0 < schemeEnd" "f \<longrightarrow> schemeEnd = 4"
    "portEnd a \<le> length url"
    "authority_ok url schemeEnd a \<or> (\<exists>i. a = no_authority i \<and> (schemeEnd < i \<or> schemeEnd \<le> i + 1 \<and> 2 \<le> schemeEnd) \<and> \<not> f \<and> \<not> http)"
    "f = scheme_is_file url schemeEnd" "f \<or> isPathSegmentEndChar (char_at url (portEnd a)) \<or> (\<exists>i. a = no_authority i)"
proof -
  define sE where "sE = scan isSchemeChar url 0"
  have first: "isSchemeFirstChar (char_at url 0)" and colon: "char_at url sE = CHR '':''"
    using assms by (auto simp: KURL_parse_def Let_def invalidate_def sE_def split: if_splits)
  have len: "sE < length url" using colon by (intro char_at_not_NUL) (simp add: NUL_def)
  have "isSchemeFirstChar c \<Longrightarrow> isSchemeChar c" for c
    by (auto simp: isSchemeFirstChar_def isSchemeChar_def characterClassTable_def split: if_splits)
  then have pos: "0 < sE"
    using first scan_stop [of isSchemeChar url 0] by (cases "sE = 0") (auto simp: sE_def)
  define h where "h \<longleftrightarrow> char_at url (sE + 1) = CHR ''/''"
  define s where "s \<longleftrightarrow> h \<and> char_at url (sE + 2) = CHR ''/''"
  define f where "f = scheme_is_file url sE"
  define http where "http = protocol_in_http_family url"
  define start where "start = user_start url sE h s f http"
  have st: "sE < start" "start \<le> length url"
    using user_start_ge user_start_le [OF colon h_def s_def] by (simp_all add: start_def)
  have four: "f \<longrightarrow> sE = 4" by (simp add: f_def scheme_is_file_def)
  have eq: "KURL_parse url = (if s \<or> isNonFileHierarchicalScheme (slice url 0 sE)
      then (case find_authority url start f http of None \<Rightarrow> Some (invalidate url) | Some a \<Rightarrow> assemble url sE h f http a)
      else assemble url sE h f http (no_authority (sE + 1)))"
    unfolding KURL_parse_def Let_def sE_def [symmetric]
    unfolding h_def [symmetric] f_def [symmetric] http_def [symmetric]
    unfolding s_def [symmetric] unfolding start_def [symmetric]
    using first colon by simp
  show thesis
  proof (cases "s \<or> isNonFileHierarchicalScheme (slice url 0 sE)")
    case True
    then obtain a where fa: "find_authority url start f http = Some a" and as: "assemble url sE h f http a = Some k"
      using assms eq by (auto simp: invalidate_def split: option.splits)
    have pa: "f \<or> isPathSegmentEndChar (char_at url (portEnd a)) \<or> (\<exists>i. a = no_authority i)"
      using fa find_authority_path [of url start http a] by (cases f) auto
    from find_authority_ranges [OF fa st(2,1)]
    consider "authority_ok url sE a" | "a = no_authority (start - 2)" "\<not> f" "\<not> http" by blast
    then show thesis
    proof cases
      case 1
      then show thesis using that [OF as sE_def len pos four authority_ok_inside _ f_def pa] by blast
    next
      case 2
      have "sE < start - 2 \<or> sE \<le> start - 2 + 1 \<and> 2 \<le> sE"
      proof (cases s)
        case True
        then have "sE + 3 \<le> start" using user_start_second_slash [of s sE url f http] by (simp add: start_def s_def)
        then show ?thesis by linarith
      next
        case False
        then have "2 \<le> length (slice url 0 sE)"
          using True non_file_scheme_length by blast
        then show ?thesis using st(1) by auto
      qed
      moreover have "portEnd a \<le> length url" using 2 st(2) by (simp add: no_authority_def)
      ultimately show thesis using that [OF as sE_def len pos four _ _ f_def pa] 2 by blast
    qed
  next
    case False
    then have as: "assemble url sE h f http (no_authority (sE + 1)) = Some k" using assms eq by simp
    have "authority_ok url sE (no_authority (sE + 1))" using len by (auto simp: authority_ok_def no_authority_def)
    then show thesis using that [OF as sE_def len pos four authority_ok_inside _ f_def] by blast
  qed
qed

lemma KURL_parse_ranges:
  assumes "KURL_parse url = Some k" "m_isValid k"
  shows "0 < m_schemeEnd k \<and> m_schemeEnd k < m_userStart k \<and> m_string k ! m_schemeEnd k = CHR '':''
    \<and> m_userStart k \<le> m_userEnd k \<and> m_userEnd k \<le> m_passwordEnd k \<and> m_passwordEnd k \<le> m_hostEnd k
    \<and> m_hostEnd k \<le> m_portEnd k \<and> m_portEnd k \<le> m_pathAfterLastSlash k
    \<and> m_pathAfterLastSlash k \<le> m_pathEnd k \<and> m_pathEnd k \<le> m_queryEnd k
    \<and> m_queryEnd k \<le> m_fragmentEnd k \<and> m_fragmentEnd k = length (m_string k)"
proof -
  from assms obtain sE h f http a where as: "assemble url sE h f http a = Some k"
    and sE: "sE < length url" "0 < sE" and pe: "portEnd a \<le> length url"
    by (rule KURL_parse_valid)
  from as pe show ?thesis
  proof (rule assemble_parts)
    fix slashes user pass host port lead path query frag :: string
    assume eqs: "m_string k = map toASCIILower (slice url 0 sE) @ '':'' @ slashes @ user @ pass @ host @ port @ lead @ path @ query @ frag"
      "m_schemeEnd k = sE" "m_userStart k = length (slice url 0 sE) + 1 + length slashes"
      "m_userEnd k = m_userStart k + length user" "m_passwordEnd k = m_userEnd k + length pass"
      "m_hostEnd k = m_passwordEnd k + length host" "m_portEnd k = m_hostEnd k + length port"
      "m_pathEnd k = m_portEnd k + length lead + length path"
      "m_pathAfterLastSlash k = after_last_slash (take (m_pathEnd k) (m_string k)) (m_portEnd k) (m_pathEnd k)"
      "m_queryEnd k = m_pathEnd k + length query" "m_fragmentEnd k = m_queryEnd k + length frag"
    have "m_string k ! sE = CHR '':''" using sE by (simp add: eqs(1) nth_append)
    moreover have "m_portEnd k \<le> m_pathAfterLastSlash k \<and> m_pathAfterLastSlash k \<le> m_pathEnd k"
      unfolding eqs(9) by (rule after_last_slash_range) (simp add: eqs(8))
    ultimately show ?thesis using sE by (simp add: eqs(1-8,10,11))
  qed
qed

text \<open>
  C4: the ranges a parsed URL records are in order and inside its string, the scheme is not
  empty and followed by its colon, and the last range ends the string.
\<close>

theorem kurl_ranges_in_order:
  assumes "KURL_parse url = Some k" "m_isValid k"
  shows "0 < m_schemeEnd k \<and> m_schemeEnd k < m_userStart k \<and> m_string k ! m_schemeEnd k = CHR '':''
    \<and> m_userStart k \<le> m_userEnd k \<and> m_userEnd k \<le> m_passwordEnd k \<and> m_passwordEnd k \<le> m_hostEnd k
    \<and> m_hostEnd k \<le> m_portEnd k \<and> m_portEnd k \<le> m_pathAfterLastSlash k
    \<and> m_pathAfterLastSlash k \<le> m_pathEnd k \<and> m_pathEnd k \<le> m_queryEnd k
    \<and> m_queryEnd k \<le> m_fragmentEnd k \<and> m_fragmentEnd k = length (m_string k)"
  using KURL_parse_ranges [OF assms] .

text \<open>
  The string assembled for a C string has at most three times its length and one more character, which is
  what \<open>parse\<close> allocates for it, and it holds printable ASCII characters only.
\<close>

theorem kurl_fits_buffer:
  assumes "KURL_parse url = Some k" "m_isValid k"
  shows "length (m_string k) \<le> 3 * length url + 1 \<and> (\<forall>c \<in> set (m_string k). printable c)"
proof -
  from assms obtain sE h f http a where as: "assemble url sE h f http a = Some k"
    and sE: "sE = scan isSchemeChar url 0" "sE < length url" "0 < sE" and four: "f \<longrightarrow> sE = 4" and pe: "portEnd a \<le> length url"
    and au: "authority_ok url sE a \<or> (\<exists>i. a = no_authority i \<and> (sE < i \<or> sE \<le> i + 1 \<and> 2 \<le> sE) \<and> \<not> f \<and> \<not> http)"
    by (rule KURL_parse_valid)
  from as pe show ?thesis
  proof (rule assemble_parts)
    fix slashes user pass host port lead path query frag :: string
    assume str: "m_string k = map toASCIILower (slice url 0 sE) @ '':'' @ slashes @ user @ pass @ host @ port @ lead @ path @ query @ frag"
      and lead: "slashes = [] \<or> slashes = ''//''" "lead = [] \<or> lead = ''/'' \<or> lead = ''//''" "f \<or> length lead \<le> 1" "http \<or> f \<or> lead = []"
      and sl: "f \<or> userStart a \<noteq> userEnd a \<or> passwordStart a \<noteq> passwordEnd a \<or> portStart a \<noteq> portEnd a \<or> hostStart a \<noteq> hostEnd a \<or> slashes = []"
      and parts: "(user, pass, host, port) = ([], [], [], []) \<or> slashes = ''//'' \<and>
         (\<exists>l. canonical_authority url (map toASCIILower (slice url 0 sE)) a f l = (user, pass, host, port))"
      and rest: "length path + length query + length frag \<le> 3 * (length url - portEnd a)"
      and pr: "\<forall>c \<in> set path \<union> set query \<union> set frag. printable c"
    have scheme: "\<forall>c \<in> set (map toASCIILower (slice url 0 sE)). printable c"
      using slice_scan [of _ url 0 isSchemeChar] class_printable(5) printable_lower unfolding sE(1) by auto
    have "length (m_string k) \<le> 3 * length url + 1 \<and> (\<forall>c \<in> set (user @ pass @ host @ port). printable c)"
    proof (cases "authority_ok url sE a")
      case True
      have small: "length user + length pass + length host + length port \<le> portEnd a - userStart a"
        and pr': "\<forall>c \<in> set (user @ pass @ host @ port). printable c"
        using parts canonical_authority_props [OF True] by auto
      have "sE < userStart a" "userStart a \<le> portEnd a" using True by (simp_all add: authority_ok_def)
      moreover have "length slashes \<le> 2" "length lead \<le> 2" using lead(1,2) by auto
      ultimately show ?thesis using small pr' rest sE(2,3) pe by (simp add: str)
    next
      case False
      then obtain i where i: "a = no_authority i" "sE < i \<or> sE \<le> i + 1 \<and> 2 \<le> sE" "\<not> f" "\<not> http" using au by blast
      have "user = [] \<and> pass = [] \<and> host = [] \<and> port = []"
        using parts i(1) by (auto simp: canonical_authority_def no_authority_def Let_def)
      moreover have "slashes = []" "lead = []" using sl lead(4) i by (simp_all add: no_authority_def)
      ultimately show ?thesis using rest i(1,2) sE(2,3) pe by (auto simp: str no_authority_def)
    qed
    moreover have "\<forall>c \<in> set slashes \<union> set lead. printable c" using lead(1,2) by auto
    ultimately show ?thesis using scheme pr unfolding str by (auto simp del: set_map)
  qed
qed

theorem kurl_ranges_in_order_witness:
  "\<exists>k. KURL_parse ''HTTP://a:b@Ex.com:8080/p/../q?r#s'' = Some k \<and> m_isValid k
     \<and> m_string k = ''http://a:b@ex.com:8080/q?r#s'' \<and> m_portEnd k \<le> m_pathAfterLastSlash k"
proof -
  have "KURL_parse ''HTTP://a:b@Ex.com:8080/p/../q?r#s'' \<noteq> None" by code_simp
  then obtain k where k: "KURL_parse ''HTTP://a:b@Ex.com:8080/p/../q?r#s'' = Some k" by blast
  have "m_isValid (the (KURL_parse ''HTTP://a:b@Ex.com:8080/p/../q?r#s''))"
    "m_string (the (KURL_parse ''HTTP://a:b@Ex.com:8080/p/../q?r#s'')) = ''http://a:b@ex.com:8080/q?r#s''" by code_simp+
  then show ?thesis using k kurl_ranges_in_order [OF k] by simp
qed

theorem kurl_fits_buffer_witness:
  "\<exists>k. KURL_parse ''file:'' = Some k \<and> m_string k = ''file:////'' \<and> length (m_string k) \<le> 3 * length ''file:'' + 1"
proof -
  have "KURL_parse ''file:'' \<noteq> None" by code_simp
  then obtain k where k: "KURL_parse ''file:'' = Some k" by blast
  have "m_isValid (the (KURL_parse ''file:''))" "m_string (the (KURL_parse ''file:'')) = ''file:////''" by code_simp+
  then show ?thesis using k kurl_fits_buffer [OF k] by simp
qed

section \<open>The parser stays inside its path buffer\<close>

lemma segment_end_slash: "isPathSegmentEndChar c \<Longrightarrow> c \<noteq> NUL \<Longrightarrow> c \<noteq> CHR ''?'' \<Longrightarrow> c \<noteq> CHR ''#'' \<Longrightarrow> c = CHR ''/''"
proof -
  assume "isPathSegmentEndChar c"
  then have "code c \<in> {0, 35, 47, 63}"
    by (auto simp: isPathSegmentEndChar_def characterClassTable_def split: if_splits)
  moreover have "code (CHR ''/'') = 47" "code (CHR ''?'') = 63" "code (CHR ''#'') = 35" by (simp_all add: code_def)
  ultimately show "c \<noteq> NUL \<Longrightarrow> c \<noteq> CHR ''?'' \<Longrightarrow> c \<noteq> CHR ''#'' \<Longrightarrow> c = CHR ''/''"
    by (metis code_NUL code_inj empty_iff insert_iff)
qed

lemma path_at_segment_end:
  "isPathSegmentEndChar (char_at url i) \<Longrightarrow> i = path_end url i \<or> char_at url i = CHR ''/''"
  using scan_in [of i i "\<lambda>c. c \<noteq> NUL \<and> c \<noteq> CHR ''?'' \<and> c \<noteq> CHR ''#''" url]
    scan_ge [of i "\<lambda>c. c \<noteq> NUL \<and> c \<noteq> CHR ''?'' \<and> c \<noteq> CHR ''#''" url] segment_end_slash [of "char_at url i"]
  by (cases "i = path_end url i") (auto simp: path_end_def char_at_def)

lemma assemble_defined:
  assumes "\<not> h \<or> (\<exists>out. copyPathRemovingDots url (portEnd a) (path_end url (portEnd a)) = Some out)"
  shows "\<exists>k. assemble url schemeEnd h f http a = Some k"
proof -
  have "\<exists>path. canonical_path url h (portEnd a) (path_end url (portEnd a)) = Some path"
    using assms by (auto simp: canonical_path_def)
  then obtain path where "canonical_path url h (portEnd a) (path_end url (portEnd a)) = Some path" ..
  then show ?thesis unfolding assemble_def Let_def case_prod_beta by (simp only: option.map) blast
qed

text \<open>The one path that does not begin with a slash: a scheme such as \<open>ftp\<close> with a single slash and no host.\<close>

lemma single_slash_path:
  assumes "char_at url i = CHR '':''" "char_at url (i + 1) = CHR ''/''" "char_at url (i + 2) \<noteq> CHR ''/''"
    "isPathSegmentEndChar (char_at url (i + 2))"
  shows "\<exists>out. copyPathRemovingDots url i (path_end url i) = Some out"
proof -
  have len: "i < length url" "Suc i < length url"
    using assms(1,2) char_at_not_NUL [of url i] char_at_not_NUL [of url "i + 1"] by (auto simp: NUL_def)
  have stop: "\<not> (Suc (Suc i) < length url \<and> url ! Suc (Suc i) \<noteq> NUL \<and> url ! Suc (Suc i) \<noteq> CHR ''?'' \<and> url ! Suc (Suc i) \<noteq> CHR ''#'')"
  proof (intro notI, elim conjE)
    assume n: "Suc (Suc i) < length url" "url ! Suc (Suc i) \<noteq> NUL" "url ! Suc (Suc i) \<noteq> CHR ''?''" "url ! Suc (Suc i) \<noteq> CHR ''#''"
    then have "char_at url (i + 2) = url ! Suc (Suc i)" by (simp add: char_at_def)
    with n segment_end_slash [OF assms(4)] assms(3) show False by simp
  qed
  have e: "path_end url i = i + 2"
    using len assms(1,2) stop unfolding path_end_def
    by (subst scan.simps, subst scan.simps, subst scan.simps) (auto simp: char_at_def NUL_def)
  show ?thesis
    unfolding e using assms(2) by (simp add: copyPathRemovingDots_def copy_dots.simps [of url "Suc i"] copy_dots_end)
qed

lemma KURL_parse_defined:
  assumes "\<not> scheme_is_file url (scan isSchemeChar url 0)"
  shows "\<exists>k. KURL_parse url = Some k"
proof -
  define sE where "sE = scan isSchemeChar url 0"
  define h where "h \<longleftrightarrow> char_at url (sE + 1) = CHR ''/''"
  define s where "s \<longleftrightarrow> h \<and> char_at url (sE + 2) = CHR ''/''"
  define http where "http = protocol_in_http_family url"
  define start where "start = user_start url sE h s False http"
  have f: "scheme_is_file url sE \<longleftrightarrow> False" using assms by (simp add: sE_def)
  show ?thesis
  proof (cases "isSchemeFirstChar (char_at url 0) \<and> char_at url sE = CHR '':''")
    case True
    have eq: "KURL_parse url = (if s \<or> isNonFileHierarchicalScheme (slice url 0 sE)
      then (case find_authority url start False http of None \<Rightarrow> Some (invalidate url) | Some a \<Rightarrow> assemble url sE h False http a)
      else assemble url sE h False http (no_authority (sE + 1)))"
      unfolding KURL_parse_def Let_def sE_def [symmetric] f
      unfolding h_def [symmetric] http_def [symmetric]
      unfolding s_def [symmetric] unfolding start_def [symmetric]
      using True by simp
    have opaque: "\<exists>k. assemble url sE h False http (no_authority (sE + 1)) = Some k"
      by (rule assemble_defined) (auto simp: h_def no_authority_def intro: copyPath_defined)
    have "\<exists>k. assemble url sE h False http a = Some k" if fa: "find_authority url start False http = Some a" for a
    proof (rule assemble_defined)
      from find_authority_path [OF fa] show "\<not> h \<or> (\<exists>out. copyPathRemovingDots url (portEnd a) (path_end url (portEnd a)) = Some out)"
      proof (elim disjE conjE)
        assume "isPathSegmentEndChar (char_at url (portEnd a))"
        then show ?thesis using copyPath_defined path_at_segment_end by blast
      next
        assume a: "a = no_authority (start - 2)" "\<not> http" "isPathSegmentEndChar (char_at url start)"
        show ?thesis
        proof (cases s)
          case True
          then have "start - 2 = sE + 1" using a(2) by (simp add: start_def user_start_def s_def)
          then show ?thesis using True a(1) copyPath_defined by (simp add: s_def h_def no_authority_def)
        next
          case ns: False
          show ?thesis
          proof (cases h)
            case True
            then have st: "start = sE + 2" using a(2) ns by (simp add: start_def user_start_def)
            have "\<exists>out. copyPathRemovingDots url sE (path_end url sE) = Some out"
              using True ns a(3) \<open>isSchemeFirstChar (char_at url 0) \<and> char_at url sE = CHR '':''\<close>
              by (intro single_slash_path) (auto simp: st h_def s_def)
            then show ?thesis using a(1) by (simp add: no_authority_def st)
          qed simp
        qed
      qed
    qed
    then show ?thesis using eq opaque by (auto split: option.splits)
  qed (auto simp: KURL_parse_def Let_def sE_def)
qed

text \<open>
  Unless the scheme is \<open>file\<close>, \<open>parse\<close> ends with a URL, valid or not, and the removal of dot segments never reads
  before the start of the path it writes.
\<close>

theorem kurl_parse_yields_url:
  assumes "\<not> scheme_is_file url (scan isSchemeChar url 0)"
  shows "\<exists>k. KURL_parse url = Some k"
  using KURL_parse_defined [OF assms] .

theorem kurl_parse_yields_url_witness:
  "\<exists>k. KURL_parse ''ftp:/../a/.'' = Some k"
  by (rule kurl_parse_yields_url) code_simp

end
