(* ===== verification/URLResolve.thy ===== *)
theory URLResolve
  imports KURL
begin

text \<open>
  Resolution of references and the setters of \<open>KURL\<close> (\<open>platform/KURL.cpp\<close>). A call has the value None
  where the source reads or writes outside a buffer. Resolution assembles a C string from parts of
  the base and of the reference and parses it; the removal of dot segments works in place on
  the buffer, and the theorems relate it to a definition on lists of segments.
\<close>

section \<open>Helpers\<close>

definition shouldTrimFromURL :: "char \<Rightarrow> bool" where
  "shouldTrimFromURL c \<longleftrightarrow> code c \<le> 32"

definition KURL_isHierarchical :: "kurl \<Rightarrow> bool" where
  "KURL_isHierarchical u \<longleftrightarrow> m_isValid u \<and> char_at (m_string u) (m_schemeEnd u + 1) = CHR ''/''"

definition url_protocolIs :: "string \<Rightarrow> string \<Rightarrow> bool" where
  "url_protocolIs url protocol \<longleftrightarrow> letters_match url 0 protocol \<and> char_at url (length protocol) = CHR '':''"

definition protocolIsJavaScript :: "string \<Rightarrow> bool" where
  "protocolIsJavaScript url \<longleftrightarrow> url_protocolIs url ''javascript''"

definition isValidProtocol :: "string \<Rightarrow> bool" where
  "isValidProtocol protocol \<longleftrightarrow>
     protocol \<noteq> [] \<and> isSchemeFirstChar (hd protocol) \<and> list_all isSchemeChar (tl protocol)"

definition substituteBackslashes :: "string \<Rightarrow> string" where
  "substituteBackslashes s =
     (let pathEnd = (case (str_find s (CHR ''#''), str_find s (CHR ''?'')) of
                       (Some h, None) \<Rightarrow> h
                     | (Some h, Some q) \<Rightarrow> if h < q then h else q
                     | (None, Some q) \<Rightarrow> q
                     | (None, None) \<Rightarrow> length s)
      in map (\<lambda>c. if c = CHR 0x5C then CHR ''/'' else c) (str_left s pathEnd) @ drop pathEnd s)"

text \<open>
  \<open>appendASCII\<close> copies \<open>len\<close> characters from \<open>rel\<close>; \<open>room\<close> is the number of characters from there to
  the end of the vector that holds the reference.
\<close>

definition appendASCII :: "string \<Rightarrow> string \<Rightarrow> nat \<Rightarrow> nat \<Rightarrow> string option" where
  "appendASCII base rel len room = (if room < len then None else Some (base @ take len rel))"

text \<open>\<open>parse\<close> with the original string, which an invalid URL keeps.\<close>

definition parse_original :: "string \<Rightarrow> string \<Rightarrow> kurl option" where
  "parse_original url original =
     map_option (\<lambda>k. if m_isValid k then k else k\<lparr>m_string := original\<rparr>) (KURL_parse url)"

section \<open>Resolution\<close>

text \<open>
  The loop of \<open>init\<close> that appends the path of the reference. The buffer up to \<open>bufferPos\<close> is kept
  reversed; \<open>pathStart\<close> is \<open>bufferPathStart - bufferStart\<close>. The value is what is left of the
  reference and the buffer.
\<close>

definition skip_slash :: "string \<Rightarrow> string" where
  "skip_slash rel = (if char_at rel 0 = CHR ''/'' then drop 1 rel else rel)"

fun back_to_slash :: "nat \<Rightarrow> string \<Rightarrow> string" where
  "back_to_slash pathStart [] = []"
| "back_to_slash pathStart (c # dst) =
     (if pathStart + 1 < length (c # dst) \<and> c \<noteq> CHR ''/'' then back_to_slash pathStart dst else c # dst)"

definition drop_last_segment :: "nat \<Rightarrow> string \<Rightarrow> string" where
  "drop_last_segment pathStart dst =
     back_to_slash pathStart (if pathStart + 1 < length dst then tl dst else dst)"

lemma length_skip_slash: "length (skip_slash rel) \<le> length rel"
  by (simp add: skip_slash_def)

function merge_dots :: "nat \<Rightarrow> nat \<Rightarrow> string \<Rightarrow> string \<Rightarrow> (string \<times> string) option" where
  "merge_dots pathStart bufferSize rel dst =
     (if char_at rel 0 = NUL \<or> char_at rel 0 = CHR ''?'' \<or> char_at rel 0 = CHR ''#'' then Some (rel, dst)
      else if char_at rel 0 = CHR ''.'' \<and> dst = [] then None
      else if char_at rel 0 = CHR ''.'' \<and> hd dst = CHR ''/'' \<and> isPathSegmentEndChar (char_at rel 1)
      then merge_dots pathStart bufferSize (skip_slash (drop 1 rel)) dst
      else if char_at rel 0 = CHR ''.'' \<and> hd dst = CHR ''/'' \<and> char_at rel 1 = CHR ''.''
        \<and> isPathSegmentEndChar (char_at rel 2)
      then merge_dots pathStart bufferSize (skip_slash (drop 2 rel)) (drop_last_segment pathStart dst)
      else if bufferSize \<le> length dst then None
      else merge_dots pathStart bufferSize (drop 1 rel) (char_at rel 0 # dst))"
  by pat_completeness auto
termination
proof (relation "measure (\<lambda>(pathStart, bufferSize, rel, dst). length rel)", goal_cases)
  case (2 pathStart bufferSize rel dst)
  then show ?case using length_skip_slash [of "drop 1 rel"] by (cases rel) (auto simp: char_at_def)
next
  case (3 pathStart bufferSize rel dst)
  then show ?case using length_skip_slash [of "drop 2 rel"] by (cases rel) (auto simp: char_at_def)
next
  case (4 pathStart bufferSize rel dst)
  then show ?case using char_at_not_NUL [of rel 0] by auto
qed simp

declare merge_dots.simps [simp del]

definition base_directory :: "kurl \<Rightarrow> string" where
  \<comment> \<open>the path of the base back to its last slash\<close>
  "base_directory base = rev (dropWhile (\<lambda>c. c \<noteq> CHR ''/'') (rev (KURL_path base)))"

definition relative_path :: "kurl \<Rightarrow> string \<Rightarrow> nat \<Rightarrow> string option" where
  "relative_path base str len =
     (let bufferSize = m_pathEnd base + 1 + len + 1;
          front = take (m_portEnd base) (m_string base);
          dir = base_directory base
      in Option.bind
           (if dir = [] then
              Some (if m_schemeEnd base + 1 \<noteq> m_pathEnd base \<and> char_at str 0 \<notin> {NUL, CHR ''?'', CHR ''#''} then ''/'' else [])
            else copyPathRemovingDots dir 0 (length dir))
           (\<lambda>path. Option.bind (merge_dots (length front) bufferSize str (rev (front @ path)))
             (\<lambda>(rest, dst).
                if length (takeWhile (\<lambda>c. c \<noteq> NUL) rest) < bufferSize - length dst then Some (rev dst @ rest) else None)))"

text \<open>
  The start of \<open>init\<close>: whether the reference is absolute, where it starts, and how many characters
  there are from there to the end of the vector. A reference that repeats the scheme of a
  hierarchical base without a slash after it is relative.
\<close>

definition split_scheme :: "kurl \<Rightarrow> string \<Rightarrow> nat \<Rightarrow> bool \<times> string \<times> nat" where
  "split_scheme base str room =
     (if isSchemeFirstChar (char_at str 0) then
        let p = scan isSchemeChar str 1
        in if char_at str p = CHR '':'' then
             (if char_at str (p + 1) \<noteq> CHR ''/'' \<and> equalIgnoringCase (KURL_protocol base) (take p str)
                 \<and> KURL_isHierarchical base
              then (False, drop (p + 1) str, room - (p + 1))
              else (True, str, room))
           else (False, str, room)
      else (False, str, room))"

definition resolve :: "kurl \<Rightarrow> string \<Rightarrow> nat \<Rightarrow> nat \<Rightarrow> string \<Rightarrow> kurl option" where
  "resolve base str len room relative =
     (if \<not> KURL_isHierarchical base then
        (if char_at str 0 = CHR ''#'' then
           Option.bind (appendASCII (take (m_queryEnd base) (m_string base)) str len room) (\<lambda>s. parse_original s relative)
         else Some (invalidate relative))
      else if char_at str 0 = NUL then removeFragmentIdentifier base
      else if char_at str 0 = CHR ''#'' then
        Option.bind (appendASCII (take (m_queryEnd base) (m_string base)) str len room) (\<lambda>s. parse_original s relative)
      else if char_at str 0 = CHR ''?'' then
        Option.bind (appendASCII (take (m_pathEnd base) (m_string base)) str len room) (\<lambda>s. parse_original s relative)
      else if char_at str 0 = CHR ''/'' then
        (if char_at str 1 = CHR ''/''
         then Option.bind (appendASCII (take (m_schemeEnd base + 1) (m_string base)) str len room) (\<lambda>s. parse_original s relative)
         else Option.bind (appendASCII (take (m_portEnd base) (m_string base)) str len room) (\<lambda>s. parse_original s relative))
      else Option.bind (relative_path base str len) (\<lambda>s. parse_original s relative))"

text \<open>
  \<open>encode\<close> stands for \<open>encodeRelativeString\<close>, which is used when the reference is not ASCII: it escapes
  the query in the encoding of the page and the host names by the platform's IDN functions.
\<close>

definition trim_start :: "string \<Rightarrow> string" where
  "trim_start s = dropWhile shouldTrimFromURL s"

definition trim_end :: "string \<Rightarrow> string" where
  "trim_end s = rev (dropWhile shouldTrimFromURL (rev s))"

definition KURL_init :: "(string \<Rightarrow> string) \<Rightarrow> kurl \<Rightarrow> string \<Rightarrow> kurl option" where
  "KURL_init encode base relative =
     (if \<not> m_isValid base \<and> m_string base \<noteq> [] then Some (invalidate relative)
      else
        let rel = (if str_contains relative (CHR 0x5C) \<and> \<not> (protocolIsJavaScript relative \<or> url_protocolIs relative ''data'')
                   then substituteBackslashes relative else relative);
            buffer = trim_start (if list_all (\<lambda>c. code c < 128) rel then rel else takeWhile (\<lambda>c. c \<noteq> NUL) (encode rel));
            str = trim_end buffer;
            (absolute, str', room) = split_scheme base str (length buffer + 1)
        in if absolute then parse_original str' relative else resolve base str' (length str) room relative)"

section \<open>Setters\<close>

definition setProtocol :: "string \<Rightarrow> kurl \<Rightarrow> (bool \<times> kurl) option" where
  "setProtocol s u =
     (let newProtocol = (case str_find s (CHR '':'') of None \<Rightarrow> s | Some i \<Rightarrow> take i s)
      in if \<not> isValidProtocol newProtocol then Some (False, u)
         else map_option (Pair True)
                (KURL_parse (if \<not> m_isValid u then newProtocol @ '':'' @ m_string u
                             else newProtocol @ drop (m_schemeEnd u) (m_string u))))"

definition slash_slash_needed :: "kurl \<Rightarrow> bool" where
  "slash_slash_needed u \<longleftrightarrow> m_userStart u = m_schemeEnd u + 1"

definition setHost :: "string \<Rightarrow> kurl \<Rightarrow> kurl option" where
  \<comment> \<open>for a string of 8-bit characters\<close>
  "setHost s u =
     (if \<not> m_isValid u then Some u
      else KURL_parse (take (KURL_hostStart u) (m_string u) @ (if slash_slash_needed u then ''//'' else [])
             @ s @ drop (m_hostEnd u) (m_string u)))"

definition setHostAndPort :: "string \<Rightarrow> kurl \<Rightarrow> kurl option" where
  "setHostAndPort hostAndPort u =
     (if \<not> m_isValid u then Some u
      else KURL_parse (take (KURL_hostStart u) (m_string u) @ (if slash_slash_needed u then ''//'' else [])
             @ hostAndPort @ drop (m_portEnd u) (m_string u)))"

definition setUser :: "string \<Rightarrow> kurl \<Rightarrow> kurl option" where
  "setUser user u =
     (if \<not> m_isValid u then Some u
      else if user \<noteq> [] then
        let e = m_userEnd u;
            u1 = (if slash_slash_needed u then ''//'' @ user else user);
            u2 = (if e = m_hostEnd u \<or> e = m_passwordEnd u \<and> char_at (m_string u) e \<noteq> CHR ''@'' then u1 @ ''@'' else u1)
        in KURL_parse (take (m_userStart u) (m_string u) @ u2 @ drop e (m_string u))
      else
        let e = (if m_userEnd u = m_passwordEnd u \<and> m_userEnd u \<noteq> m_hostEnd u
                    \<and> char_at (m_string u) (m_userEnd u) = CHR ''@'' then m_userEnd u + 1 else m_userEnd u)
        in if m_userStart u \<noteq> e then KURL_parse (take (m_userStart u) (m_string u) @ drop e (m_string u)) else Some u)"

definition setPass :: "string \<Rightarrow> kurl \<Rightarrow> kurl option" where
  "setPass password u =
     (if \<not> m_isValid u then Some u
      else
        let at = (m_passwordEnd u \<noteq> m_hostEnd u \<and> char_at (m_string u) (m_passwordEnd u) = CHR ''@'')
        in if password \<noteq> [] then
             let p = '':'' @ password @ ''@'';
                 p' = (if m_userEnd u = m_schemeEnd u + 1 then ''//'' @ p else p);
                 e = (if at then m_passwordEnd u + 1 else m_passwordEnd u)
             in KURL_parse (take (m_userEnd u) (m_string u) @ p' @ drop e (m_string u))
           else
             let e = (if m_userStart u = m_userEnd u \<and> at then m_passwordEnd u + 1 else m_passwordEnd u)
             in if m_userEnd u \<noteq> e then KURL_parse (take (m_userEnd u) (m_string u) @ drop e (m_string u)) else Some u)"

definition setFragmentIdentifier :: "string \<Rightarrow> kurl \<Rightarrow> kurl option" where
  "setFragmentIdentifier s u =
     (if \<not> m_isValid u then Some u else KURL_parse (take (m_queryEnd u) (m_string u) @ ''#'' @ s))"

definition setQuery :: "string option \<Rightarrow> kurl \<Rightarrow> kurl option" where
  \<comment> \<open>None is the null string\<close>
  "setQuery query u =
     (if \<not> m_isValid u then Some u
      else
        let q = (case query of None \<Rightarrow> []
                 | Some s \<Rightarrow> if s = [] \<or> hd s \<noteq> CHR ''?'' then CHR ''?'' # s else s)
        in KURL_parse (take (m_pathEnd u) (m_string u) @ q @ drop (m_queryEnd u) (m_string u)))"

section \<open>Dot segments as lists of segments\<close>

text \<open>
  The reference: RFC 3986 on a list of segments. The directories so far are a stack; the last segment
  is the name, empty when the path ends with a slash or a dot segment.
\<close>

fun segments :: "string \<Rightarrow> string list" where
  "segments [] = [[]]"
| "segments (c # p) = (if c = CHR ''/'' then [] # segments p
     else (case segments p of [] \<Rightarrow> [[c]] | s # ss \<Rightarrow> (c # s) # ss))"

fun join_path :: "string list \<Rightarrow> string" where
  "join_path [] = []"
| "join_path [s] = s"
| "join_path (s # t # ss) = s @ CHR ''/'' # join_path (t # ss)"

definition push_segment :: "string list \<Rightarrow> string \<Rightarrow> string list" where
  "push_segment dirs s = (if s = ''.'' then dirs else if s = ''..'' then butlast dirs else dirs @ [s])"

fun remove_dots :: "string list \<Rightarrow> string list \<Rightarrow> string list \<times> string" where
  "remove_dots dirs [] = (dirs, [])"
| "remove_dots dirs [s] =
     (if s = ''.'' \<or> s = ''..'' then (push_segment dirs s, []) else (dirs, s))"
| "remove_dots dirs (s # t # ss) = remove_dots (push_segment dirs s) (t # ss)"

definition path_string :: "string list \<times> string \<Rightarrow> string" where
  "path_string = (\<lambda>(dirs, name). concat (map (\<lambda>s. s @ ''/'') dirs) @ name)"

lemma segments_not_Nil [simp]: "segments p \<noteq> []"
  by (induction p) (auto split: list.splits)

lemma join_segments [simp]: "join_path (segments p) = p"
proof (induction p)
  case (Cons c p)
  obtain s ss where "segments p = s # ss" by (cases "segments p") auto
  with Cons show ?case by (cases ss) auto
qed simp

lemma segments_no_slash: "s \<in> set (segments p) \<Longrightarrow> CHR ''/'' \<notin> set s"
proof (induction p arbitrary: s)
  case (Cons c p)
  obtain t ts where "segments p = t # ts" by (cases "segments p") auto
  with Cons show ?case by (auto split: if_splits)
qed simp

definition seg_end :: "string \<Rightarrow> bool" where
  "seg_end r \<longleftrightarrow> r = [] \<or> hd r = CHR ''/''"

text \<open>
  The interface of a loop that removes dot segments while it copies into a buffer kept reversed:
  what it does at a dot segment, at any other character and at the end, and what going up
  does to a buffer that ends with a whole segment. \<open>bottom\<close> is the buffer up to the first slash of the
  path, \<open>n\<close> its size.
\<close>

locale dot_removal =
  fixes walk :: "string \<Rightarrow> string \<Rightarrow> string option"
    and up :: "string \<Rightarrow> string"
    and bottom :: string
    and good :: "char \<Rightarrow> bool"
    and n :: nat
  assumes bottom_slash: "\<exists>b. bottom = CHR ''/'' # b"
    and walk_end: "walk [] d = Some d"
    and walk_char: "good c \<Longrightarrow> length d < n \<Longrightarrow> c \<noteq> CHR ''.'' \<or> d \<noteq> [] \<and> hd d \<noteq> CHR ''/'' \<Longrightarrow> walk (c # r) d = walk r (c # d)"
    and walk_name: "length d < n \<Longrightarrow> d \<noteq> [] \<Longrightarrow> list_all good r \<Longrightarrow> \<not> seg_end r \<Longrightarrow> \<not> (hd r = CHR ''.'' \<and> seg_end (tl r))
          \<Longrightarrow> walk (CHR ''.'' # r) d = walk r (CHR ''.'' # d)"
    and walk_dot: "d \<noteq> [] \<Longrightarrow> hd d = CHR ''/'' \<Longrightarrow> seg_end r \<Longrightarrow> walk (CHR ''.'' # r) d = walk (tl r) d"
    and walk_dotdot: "d \<noteq> [] \<Longrightarrow> hd d = CHR ''/'' \<Longrightarrow> seg_end r \<Longrightarrow> walk (CHR ''.'' # CHR ''.'' # r) d = walk (tl r) (up d)"
    and up_bottom: "up bottom = bottom"
    and up_segment: "CHR ''/'' \<notin> set s \<Longrightarrow> suffix bottom (CHR ''/'' # d) \<Longrightarrow> up (CHR ''/'' # rev s @ CHR ''/'' # d) = CHR ''/'' # d"
begin

definition buf :: "string list \<Rightarrow> string" where
  "buf dirs = rev (path_string (dirs, [])) @ bottom"

lemma buf_snoc: "buf (dirs @ [s]) = CHR ''/'' # rev s @ buf dirs"
  by (simp add: buf_def path_string_def)

lemma buf_slash: "\<exists>d. buf dirs = CHR ''/'' # d \<and> suffix bottom (CHR ''/'' # d)"
proof (cases dirs rule: rev_cases)
  case Nil
  then show ?thesis using bottom_slash by (auto simp: buf_def path_string_def)
next
  case (snoc ds s)
  have "suffix bottom (buf dirs)" by (simp add: buf_def suffix_def)
  then show ?thesis using snoc by (simp add: buf_snoc)
qed

lemma buf_ne [simp]: "buf dirs \<noteq> []" "hd (buf dirs) = CHR ''/''"
  using buf_slash [of dirs] by auto

lemma up_buf: "\<forall>s \<in> set dirs. CHR ''/'' \<notin> set s \<Longrightarrow> up (buf dirs) = buf (butlast dirs)"
proof (cases dirs rule: rev_cases)
  case Nil
  then show ?thesis by (simp add: buf_def path_string_def up_bottom)
next
  case (snoc ds s)
  assume "\<forall>s \<in> set dirs. CHR ''/'' \<notin> set s"
  moreover obtain d where "buf ds = CHR ''/'' # d" "suffix bottom (CHR ''/'' # d)" using buf_slash by blast
  ultimately show ?thesis using snoc up_segment [of s d] by (simp add: buf_snoc)
qed

lemma length_buf_butlast: "length (buf (butlast dirs)) \<le> length (buf dirs)"
  by (cases dirs rule: rev_cases) (simp_all add: buf_snoc)

lemma copy_rest:
  "CHR ''/'' \<notin> set s \<Longrightarrow> list_all good s \<Longrightarrow> d \<noteq> [] \<Longrightarrow> hd d \<noteq> CHR ''/'' \<Longrightarrow> length d + length s \<le> n
    \<Longrightarrow> walk (s @ r) d = walk r (rev s @ d)"
proof (induction s arbitrary: d)
  case (Cons c s)
  then have "walk ((c # s) @ r) d = walk (s @ r) (c # d)" using walk_char [of c d "s @ r"] by simp
  moreover have "c \<noteq> CHR ''/''" using Cons.prems(1) by auto
  ultimately show ?case using Cons.IH [of "c # d"] Cons.prems by simp
qed simp

lemma copy_name:
  assumes "CHR ''/'' \<notin> set s" "s \<noteq> ''.''" "s \<noteq> ''..''" "list_all good (s @ r)" "seg_end r" "length d + length s \<le> n"
    and "d \<noteq> []" "hd d = CHR ''/''"
  shows "walk (s @ r) d = walk r (rev s @ d)"
proof (cases s)
  case (Cons c t)
  have "walk (c # t @ r) d = walk (t @ r) (c # d)"
  proof (cases "c = CHR ''.''")
    case True
    have "\<not> seg_end (t @ r)" using assms(1,2) Cons True by (cases t) (auto simp: seg_end_def)
    moreover have "\<not> (hd (t @ r) = CHR ''.'' \<and> seg_end (tl (t @ r)))"
    proof (cases t)
      case (Cons x xs)
      then show ?thesis using assms(1,3) \<open>s = c # t\<close> True by (cases xs) (auto simp: seg_end_def)
    qed (use assms(2) Cons True in simp)
    ultimately show ?thesis using walk_name [of d "t @ r"] assms(4,6,7) Cons True by simp
  qed (use walk_char [of c d "t @ r"] assms(4,6) Cons in simp)
  moreover have "walk (t @ r) (c # d) = walk r (rev t @ c # d)"
    using assms(1,4,6) Cons by (intro copy_rest) auto
  ultimately show ?thesis using Cons by simp
qed simp

lemma walk_segment:
  assumes "CHR ''/'' \<notin> set s" "list_all good (s @ CHR ''/'' # r)" "length (buf dirs) + length s < n"
    and "\<forall>s \<in> set dirs. CHR ''/'' \<notin> set s"
  shows "walk (s @ CHR ''/'' # r) (buf dirs) = walk r (buf (push_segment dirs s))"
proof -
  consider "s = ''.''" | "s = ''..''" | "s \<noteq> ''.''" "s \<noteq> ''..''" by blast
  then show ?thesis
  proof cases
    case 1
    then show ?thesis using walk_dot [of "buf dirs" "CHR ''/'' # r"] by (simp add: push_segment_def seg_end_def)
  next
    case 2
    then show ?thesis using walk_dotdot [of "buf dirs" "CHR ''/'' # r"] up_buf [OF assms(4)]
      by (simp add: push_segment_def seg_end_def)
  next
    case 3
    have "walk (s @ CHR ''/'' # r) (buf dirs) = walk (CHR ''/'' # r) (rev s @ buf dirs)"
      using copy_name [OF assms(1) 3 assms(2), of "buf dirs"] assms(3) by (simp add: seg_end_def)
    also have "\<dots> = walk r (CHR ''/'' # rev s @ buf dirs)" using walk_char [of "CHR ''/''" "rev s @ buf dirs" r] assms(2,3) by simp
    finally show ?thesis using 3 by (simp add: push_segment_def buf_snoc)
  qed
qed

lemma push_no_slash: "\<forall>s \<in> set dirs. CHR ''/'' \<notin> set s \<Longrightarrow> CHR ''/'' \<notin> set s \<Longrightarrow> \<forall>s \<in> set (push_segment dirs s). CHR ''/'' \<notin> set s"
  by (auto simp: push_segment_def dest: in_set_butlastD)

theorem walk_removes_dots:
  "ss \<noteq> [] \<Longrightarrow> \<forall>s \<in> set ss \<union> set dirs. CHR ''/'' \<notin> set s \<Longrightarrow> list_all good (join_path ss)
    \<Longrightarrow> length (buf dirs) + length (join_path ss) \<le> n
    \<Longrightarrow> walk (join_path ss) (buf dirs) = Some (rev (path_string (remove_dots dirs ss)) @ bottom)"
proof (induction dirs ss rule: remove_dots.induct)
  case (2 dirs s)
  consider "s = ''.''" | "s = ''..''" | "s \<noteq> ''.''" "s \<noteq> ''..''" by blast
  then show ?case
  proof cases
    case 1
    then show ?thesis using walk_dot [of "buf dirs" "[]"] walk_end by (simp add: push_segment_def seg_end_def flip: buf_def)
  next
    case 2
    then show ?thesis using walk_dotdot [of "buf dirs" "[]"] walk_end up_buf [of dirs] "2.prems"(2)
      by (simp add: push_segment_def seg_end_def flip: buf_def)
  next
    case 3
    then have "walk s (buf dirs) = Some (rev s @ buf dirs)"
      using copy_name [of s "[]" "buf dirs"] walk_end "2.prems" by (simp add: seg_end_def)
    then show ?thesis using 3 by (simp add: buf_def path_string_def)
  qed
next
  case (3 dirs s t ss)
  have "length (buf (push_segment dirs s)) \<le> length (buf dirs) + length s + 1"
    using length_buf_butlast [of dirs] by (simp add: push_segment_def buf_snoc)
  then have "length (buf (push_segment dirs s)) + length (join_path (t # ss)) \<le> n" using "3.prems"(4) by simp
  moreover have "walk (join_path (s # t # ss)) (buf dirs) = walk (join_path (t # ss)) (buf (push_segment dirs s))"
    using walk_segment [of s "join_path (t # ss)" dirs] "3.prems"(2-4) by simp
  moreover have "\<forall>s \<in> set (t # ss) \<union> set (push_segment dirs s). CHR ''/'' \<notin> set s"
    using push_no_slash [of dirs s] "3.prems"(2) by auto
  ultimately show ?case using "3.IH" "3.prems"(3) by simp
qed simp

end


section \<open>The two loops\<close>

lemma char_at_Cons [simp]: "char_at (c # r) 0 = c" "char_at (c # r) (Suc i) = char_at r i"
  by (simp_all add: char_at_def)

lemma copy_dots_dot:
  assumes "pos < e" "char_at src pos = CHR ''.''"
  shows "copy_dots src pos e (prev # dst) =
     (if prev = CHR ''/'' \<and> (char_at src (pos + 1) = CHR ''/'' \<or> pos + 1 = e) then copy_dots src (pos + 2) e (prev # dst)
      else if prev = CHR ''/'' \<and> char_at src (pos + 1) = CHR ''.'' \<and> (char_at src (pos + 2) = CHR ''/'' \<or> pos + 2 = e)
      then copy_dots src (pos + 3) e (rewind_segment (if dst \<noteq> [] then dst else prev # dst))
      else copy_dots src (pos + 1) e (CHR ''.'' # prev # dst))"
  using assms by (subst copy_dots.simps) (simp only: not_le [symmetric] if_False if_True list.case simp_thms, cases dst, auto)

lemma copy_dots_other:
  "pos < e \<Longrightarrow> char_at src pos \<noteq> CHR ''.'' \<Longrightarrow> copy_dots src pos e dst = copy_dots src (pos + 1) e (char_at src pos # dst)"
  by (subst copy_dots.simps) simp

lemma copy_dots_shift: "copy_dots (x # src) (Suc pos) (Suc e) dst = copy_dots src pos e dst"
proof (induction "e - pos" arbitrary: pos dst rule: less_induct)
  case less
  have ih: "copy_dots (x # src) (Suc (pos + Suc i)) (Suc e) dst' = copy_dots src (pos + Suc i) e dst'" if "pos < e" for i dst'
    using that by (intro less.hyps) simp
  consider "e \<le> pos" | "pos < e" "char_at src pos \<noteq> CHR ''.''" | "pos < e" "char_at src pos = CHR ''.''" by linarith
  then show ?case
  proof cases
    case 2
    then show ?thesis using ih [of 0] by (simp add: copy_dots_other [of "Suc pos"] copy_dots_other [of pos])
  next
    case 3
    show ?thesis
    proof (cases dst)
      case (Cons prev dst')
      define D where "D = rewind_segment (if dst' \<noteq> [] then dst' else prev # dst')"
      show ?thesis
        using 3 ih [of 0] ih [of 1] ih [of 2]
        unfolding Cons copy_dots_dot [OF 3] copy_dots_dot [of "Suc pos" "Suc e" "x # src", unfolded char_at_Cons Suc_less_eq, OF 3] D_def [symmetric]
        by (auto simp: eval_nat_numeral)
    qed (use 3 in \<open>simp add: copy_dots.simps [of _ _ _ "[]"]\<close>)
  qed (simp add: copy_dots_end)
qed

definition copy_walk :: "string \<Rightarrow> string \<Rightarrow> string option" where
  "copy_walk p d = map_option rev (copy_dots p 0 (length p) d)"

definition clip :: "string \<Rightarrow> string" where
  "clip t = dropWhile (\<lambda>c. c \<notin> {NUL, CHR ''?'', CHR ''#''}) t"

definition merge_walk :: "string \<Rightarrow> nat \<Rightarrow> string \<Rightarrow> string \<Rightarrow> string \<Rightarrow> string option" where
  "merge_walk front bufferSize t p d = map_option snd (merge_dots (length front) bufferSize (p @ clip t) d)"

lemma rewind_segment_up: "CHR ''/'' \<notin> set s \<Longrightarrow> rewind_segment (rev s @ CHR ''/'' # d) = CHR ''/'' # d"
  by (induction s rule: rev_induct) auto

lemma back_to_slash_up: "CHR ''/'' \<notin> set s \<Longrightarrow> pathStart < length (CHR ''/'' # d) \<Longrightarrow> back_to_slash pathStart (rev s @ CHR ''/'' # d) = CHR ''/'' # d"
  by (induction s rule: rev_induct) auto

interpretation copy: dot_removal copy_walk "\<lambda>d. rewind_segment (if 1 < length d then tl d else d)" "''/''" "\<lambda>c. True" n for n
proof
  fix d r :: string assume d: "d \<noteq> []" "hd d = CHR ''/''" "seg_end r"
  then obtain d' where d': "d = CHR ''/'' # d'" by (cases d) auto
  show "copy_walk (CHR ''.'' # r) d = copy_walk (tl r) d"
    using d d' by (cases r) (auto simp: copy_walk_def copy_dots.simps [of "CHR ''.'' # _" 0] copy_dots_shift numeral_2_eq_2 copy_dots_end seg_end_def)
  show "copy_walk (CHR ''.'' # CHR ''.'' # r) d = copy_walk (tl r) (rewind_segment (if 1 < length d then tl d else d))"
    using d d' by (cases r) (auto simp: copy_walk_def copy_dots.simps [of "CHR ''.'' # _" 0] copy_dots_shift numeral_2_eq_2 numeral_3_eq_3 copy_dots_end seg_end_def)
next
  fix c :: char and d r :: string assume "c \<noteq> CHR ''.'' \<or> d \<noteq> [] \<and> hd d \<noteq> CHR ''/''"
  then show "copy_walk (c # r) d = copy_walk r (c # d)"
    by (cases d) (auto simp: copy_walk_def copy_dots.simps [of "c # _" 0] copy_dots_shift)
next
  fix d r :: string assume "d \<noteq> []" "\<not> seg_end r" "\<not> (hd r = CHR ''.'' \<and> seg_end (tl r))"
  then show "copy_walk (CHR ''.'' # r) d = copy_walk r (CHR ''.'' # d)"
    by (cases d; cases r; cases "tl r") (auto simp: copy_walk_def copy_dots.simps [of "CHR ''.'' # _" 0] copy_dots_shift seg_end_def char_at_def)
next
  fix s d :: string assume "CHR ''/'' \<notin> set s"
  then show "rewind_segment (if 1 < length (CHR ''/'' # rev s @ CHR ''/'' # d) then tl (CHR ''/'' # rev s @ CHR ''/'' # d)
      else CHR ''/'' # rev s @ CHR ''/'' # d) = CHR ''/'' # d" by (simp add: rewind_segment_up)
qed (simp_all add: copy_walk_def copy_dots_end)


text \<open>One turn of the loop on the reference, by its first characters.\<close>

lemma merge_char:
  assumes "c \<notin> {NUL, CHR ''?'', CHR ''#''}" "length d < n" "c \<noteq> CHR ''.'' \<or> d \<noteq> [] \<and> hd d \<noteq> CHR ''/''"
  shows "merge_dots ps n (c # r) d = merge_dots ps n r (c # d)"
  using assms by (subst merge_dots.simps) auto

lemma merge_name:
  assumes "length d < n" "d \<noteq> []" "\<not> isPathSegmentEndChar (char_at r 0)"
    "\<not> (char_at r 0 = CHR ''.'' \<and> isPathSegmentEndChar (char_at r 1))"
  shows "merge_dots ps n (CHR ''.'' # r) d = merge_dots ps n r (CHR ''.'' # d)"
  using assms by (subst merge_dots.simps) (auto simp: NUL_def numeral_2_eq_2)

lemma merge_dot:
  assumes "d \<noteq> []" "hd d = CHR ''/''" "isPathSegmentEndChar (char_at r 0)"
  shows "merge_dots ps n (CHR ''.'' # r) d = merge_dots ps n (skip_slash r) d"
  using assms by (subst merge_dots.simps) (auto simp: NUL_def)

lemma dot_not_end: "\<not> isPathSegmentEndChar (CHR ''.'')" and slash_end: "isPathSegmentEndChar (CHR ''/'')"
  by (simp_all add: isPathSegmentEndChar_def characterClassTable_def code_def)

lemma merge_dotdot:
  assumes "d \<noteq> []" "hd d = CHR ''/''" "isPathSegmentEndChar (char_at r 0)"
  shows "merge_dots ps n (CHR ''.'' # CHR ''.'' # r) d = merge_dots ps n (skip_slash r) (drop_last_segment ps d)"
  using assms dot_not_end by (subst merge_dots.simps) (auto simp: NUL_def numeral_2_eq_2)

lemma clip_end: "char_at (clip t) 0 \<in> {NUL, CHR ''?'', CHR ''#''}"
proof (cases "clip t")
  case (Cons c r)
  have "clip t \<noteq> [] \<Longrightarrow> \<not> hd (clip t) \<notin> {NUL, CHR ''?'', CHR ''#''}" unfolding clip_def by (rule hd_dropWhile)
  then show ?thesis unfolding Cons by simp
qed (simp add: char_at_def)

lemma stop_is_end: "c \<in> {NUL, CHR ''?'', CHR ''#''} \<Longrightarrow> isPathSegmentEndChar c"
  by (auto simp: isPathSegmentEndChar_def characterClassTable_def code_def NUL_def)

lemma merge_stop: "char_at r 0 \<in> {NUL, CHR ''?'', CHR ''#''} \<Longrightarrow> merge_dots ps n r d = Some (r, d)"
  by (subst merge_dots.simps) auto

lemma seg_end_clip:
  assumes "seg_end r"
  shows "isPathSegmentEndChar (char_at (r @ clip t) 0)" "skip_slash (r @ clip t) = tl r @ clip t"
  using assms stop_is_end [OF clip_end [of t]] slash_end clip_end [of t] by (cases r; auto simp: seg_end_def skip_slash_def NUL_def)+

lemma not_seg_end_clip:
  assumes "list_all (\<lambda>c. c \<notin> {NUL, CHR ''?'', CHR ''#''}) r" "\<not> seg_end r"
  shows "r \<noteq> []" "\<not> isPathSegmentEndChar (char_at (r @ t) 0)"
  using assms segment_end_slash [of "hd r"] by (cases r; auto simp: seg_end_def)+

interpretation merge: dot_removal "merge_walk front n t" "drop_last_segment (length front)" "CHR ''/'' # rev front"
  "\<lambda>c. c \<notin> {NUL, CHR ''?'', CHR ''#''}" n for front n t
proof
  show "merge_walk front n t [] d = Some d" for d using merge_stop [OF clip_end] by (simp add: merge_walk_def)
next
  fix c and d r :: string assume "c \<notin> {NUL, CHR ''?'', CHR ''#''}" "length d < n" "c \<noteq> CHR ''.'' \<or> d \<noteq> [] \<and> hd d \<noteq> CHR ''/''"
  then show "merge_walk front n t (c # r) d = merge_walk front n t r (c # d)"
    unfolding merge_walk_def append_Cons by (subst merge_char) simp_all
next
  fix d r :: string assume d: "length d < n" "d \<noteq> []" and r: "list_all (\<lambda>c. c \<notin> {NUL, CHR ''?'', CHR ''#''}) r"
    "\<not> seg_end r" "\<not> (hd r = CHR ''.'' \<and> seg_end (tl r))"
  note ne = not_seg_end_clip [OF r(1,2)]
  have "\<not> (char_at (r @ clip t) 0 = CHR ''.'' \<and> isPathSegmentEndChar (char_at (r @ clip t) 1))"
    using r ne(1) not_seg_end_clip(2) [of "tl r"] by (cases r) auto
  from merge_name [OF d ne(2) this] show "merge_walk front n t (CHR ''.'' # r) d = merge_walk front n t r (CHR ''.'' # d)"
    unfolding merge_walk_def append_Cons by simp
next
  fix d r :: string assume d: "d \<noteq> []" "hd d = CHR ''/''" and r: "seg_end r"
  show "merge_walk front n t (CHR ''.'' # r) d = merge_walk front n t (tl r) d"
    unfolding merge_walk_def append_Cons merge_dot [OF d seg_end_clip(1) [OF r]] seg_end_clip(2) [OF r] ..
  show "merge_walk front n t (CHR ''.'' # CHR ''.'' # r) d = merge_walk front n t (tl r) (drop_last_segment (length front) d)"
    unfolding merge_walk_def append_Cons merge_dotdot [OF d seg_end_clip(1) [OF r]] seg_end_clip(2) [OF r] ..
next
  fix s d :: string assume "CHR ''/'' \<notin> set s" "suffix (CHR ''/'' # rev front) (CHR ''/'' # d)"
  moreover from this have "length front < length (CHR ''/'' # d)" using suffix_length_le by fastforce
  ultimately show "drop_last_segment (length front) (CHR ''/'' # rev s @ CHR ''/'' # d) = CHR ''/'' # d"
    by (simp add: drop_last_segment_def back_to_slash_up)
qed (simp_all add: drop_last_segment_def)

section \<open>What the loops compute\<close>

lemma copyPath_removes_dots:
  "copyPathRemovingDots (CHR ''/'' # p) 0 (length (CHR ''/'' # p)) = Some (CHR ''/'' # path_string (remove_dots [] (segments p)))"
proof -
  have b: "copy.buf [] = ''/''" by (simp add: copy.buf_def path_string_def)
  have "copy_walk p ''/'' = Some (rev (path_string (remove_dots [] (segments p))) @ ''/'')"
    using copy.walk_removes_dots [of "segments p" "[]" "Suc (length p)"] segments_no_slash by (simp add: b list_all_iff)
  then have "copy_dots p 0 (length p) ''/'' = Some (CHR ''/'' # path_string (remove_dots [] (segments p)))"
    by (auto simp: copy_walk_def rev_swap)
  then show ?thesis by (simp add: copyPathRemovingDots_def copy_dots_shift)
qed

section \<open>Resolution stays inside its buffers\<close>

lemma lower_or_32: "\<forall>n \<in> {65..90 :: int}. (n + 32) OR 32 = n OR 32"
  by code_simp

lemma code_lower: "code (toASCIILower c) = (if 65 \<le> code c \<and> code c \<le> 90 then code c + 32 else code c)"
  by (simp add: toASCIILower_def code_def)

lemma letter_match_lower: "isLetterMatchIgnoringCase (toASCIILower c) l = isLetterMatchIgnoringCase c l"
  using lower_or_32 unfolding isLetterMatchIgnoringCase_def code_lower by simp

lemma lower_scheme_char: "isSchemeChar c \<Longrightarrow> isSchemeChar (toASCIILower c)"
  unfolding isSchemeChar_def code_lower characterClassTable_def by (auto split: if_splits)

lemma scheme_is_file_take: "scheme_is_file s n \<longleftrightarrow> n = 4 \<and> letters_match (take n s) 0 ''file''"
  by (auto simp: scheme_is_file_def char_at_def)

lemma char_at_append: "char_at (xs @ ys) (length xs) = char_at ys 0"
  by (simp add: char_at_def nth_append)

lemma scan_scheme:
  assumes "\<forall>i < n. isSchemeChar (char_at s i)" "char_at s n = CHR '':''"
  shows "scan isSchemeChar s 0 = n"
proof -
  have len: "n < length s" using assms(2) by (intro char_at_not_NUL) (simp add: NUL_def)
  have col: "\<not> isSchemeChar (CHR '':'')" by (simp add: isSchemeChar_def characterClassTable_def code_def)
  have "\<not> scan isSchemeChar s 0 < n" using scan_stop [of isSchemeChar s 0] assms(1) by auto
  moreover have "\<not> n < scan isSchemeChar s 0" using scan_in [of 0 n isSchemeChar s] assms(2) col len by (auto simp: char_at_def)
  ultimately show ?thesis by simp
qed

lemma escaping_slash: "isBadChar (CHR ''/'') = False" "code (CHR ''/'') = 47"
  by (simp_all add: isBadChar_def characterClassTable_def code_def)

lemma copy_dots_bottom:
  "copy_dots src pos srcEnd dst = Some out \<Longrightarrow> dst \<noteq> [] \<Longrightarrow> last dst = CHR ''/'' \<Longrightarrow> out \<noteq> [] \<and> hd out = CHR ''/''"
proof (induction "srcEnd - pos" arbitrary: pos dst rule: less_induct)
  case less
  show ?case
  proof (cases "pos < srcEnd")
    case True
    then show ?thesis
    proof (cases rule: copy_dots_step [of pos srcEnd dst src])
      case (round pos' dst')
      let ?d = "if 1 < length dst then tl dst else dst"
      have "?d \<noteq> []" "last ?d = CHR ''/''" using less.prems by (cases dst; auto)+
      note rewind_bottom [OF this]
      then have "dst' \<noteq> [] \<and> last dst' = CHR ''/''" using round(3) less.prems by auto
      then show ?thesis using less.hyps [of pos' dst'] less.prems(1) round True by simp
    qed (use less.prems in simp)
  qed (use less.prems in \<open>auto simp: copy_dots_end hd_rev\<close>)
qed

lemma canonical_path_slash:
  assumes "canonical_path url h i (path_end url i) = Some path" "i \<le> length url"
  shows "i = path_end url i \<or> char_at url i = CHR ''/'' \<Longrightarrow> path = [] \<or> hd path = CHR ''/''"
proof (elim disjE)
  assume "i = path_end url i"
  then have "length path \<le> 0" using canonical_path_props [OF assms] by simp
  then show ?thesis by simp
next
  assume c: "char_at url i = CHR ''/''"
  then have i: "i < length url" by (intro char_at_not_NUL) (simp add: NUL_def)
  show ?thesis
  proof (cases "i = path_end url i")
    case True
    then have "length path \<le> 0" using canonical_path_props [OF assms] by simp
    then show ?thesis by simp
  next
    case False
    then have lt: "i < path_end url i" using path_end_range [OF assms(2)] by simp
    then obtain m where m: "path_end url i - i = Suc m" by (metis Suc_diff_Suc)
    obtain r where sl: "slice url i (path_end url i) = CHR ''/'' # r"
      using c i m by (auto simp: slice_def char_at_def Cons_nth_drop_Suc [symmetric])
    have "hd out = CHR ''/''" "out \<noteq> []" if "copyPathRemovingDots url i (path_end url i) = Some out" for out
      using that lt c copy_dots_bottom [of url "i + 1" "path_end url i" "[char_at url i]" out]
      by (simp_all add: copyPathRemovingDots_def)
    moreover have "hd (appendEscapingBadChars out) = CHR ''/''" if "hd out = CHR ''/''" "out \<noteq> []" for out
      using that by (cases out) (simp_all add: escaping_slash)
    ultimately show ?thesis using assms(1) sl lt by (auto simp: canonical_path_def escaping_slash split: if_splits)
  qed
qed

text \<open>What resolution needs to know of a base that was parsed.\<close>

lemma parsed_base:
  assumes "KURL_parse url = Some base" "m_isValid base" "\<not> scheme_is_file url (scan isSchemeChar url 0)"
  shows "(\<forall>i < m_schemeEnd base. isSchemeChar (char_at (m_string base) i))
    \<and> \<not> scheme_is_file (m_string base) (m_schemeEnd base)
    \<and> (KURL_isHierarchical base \<longrightarrow> KURL_path base = [] \<and> m_schemeEnd base + 1 < m_portEnd base
      \<or> KURL_path base \<noteq> [] \<and> hd (KURL_path base) = CHR ''/'')"
proof -
  from assms(1,2) obtain sE h http a where as: "assemble url sE h False http a = Some base"
    and sE: "sE = scan isSchemeChar url 0" "sE < length url" "0 < sE" and pe: "portEnd a \<le> length url"
    and pa: "isPathSegmentEndChar (char_at url (portEnd a)) \<or> (\<exists>i. a = no_authority i)"
    using assms(3) by (elim KURL_parse_valid) auto
  show ?thesis
  proof (rule assemble_parts [OF as pe])
    fix slashes user pass host port lead path query frag :: string
    assume str: "m_string base = map toASCIILower (slice url 0 sE) @ '':'' @ slashes @ user @ pass @ host @ port @ lead @ path @ query @ frag"
      and m: "m_schemeEnd base = sE" "m_userStart base = length (slice url 0 sE) + 1 + length slashes"
        "m_userEnd base = m_userStart base + length user" "m_passwordEnd base = m_userEnd base + length pass"
        "m_hostEnd base = m_passwordEnd base + length host" "m_portEnd base = m_hostEnd base + length port"
        "m_pathEnd base = m_portEnd base + length lead + length path"
      and sl: "slashes = [] \<or> slashes = ''//''" and ld: "lead = [] \<or> lead = ''/'' \<or> lead = ''//''"
      and au: "(user, pass, host, port) = ([], [], [], []) \<or> slashes = ''//'' \<and> (\<exists>l. canonical_authority url (map toASCIILower (slice url 0 sE)) a False l = (user, pass, host, port))"
      and cp: "canonical_path url h (portEnd a) (path_end url (portEnd a)) = Some path"
      and hq: "query = [] \<or> hd query = CHR ''?''" "frag = [] \<or> hd frag = CHR ''#''"
      and lp: "False \<or> lead = [] \<or> path = []" and na: "slashes = [] \<or> False \<or> (\<forall>i. a \<noteq> no_authority i)"
    have sch: "isSchemeChar (url ! i)" if "i < sE" for i using scan_in [of 0 i isSchemeChar url] that by (simp add: sE(1))
    have at: "char_at (m_string base) i = toASCIILower (url ! i)" if "i < sE" for i
      using that sE(2) by (simp add: str char_at_def nth_append slice_def)
    have at': "char_at url i = url ! i" if "i < sE" for i using that sE(2) by (simp add: char_at_def)
    have "\<not> scheme_is_file (m_string base) sE"
    proof
      assume f: "scheme_is_file (m_string base) sE"
      then have "sE = 4" by (simp add: scheme_is_file_def)
      with f at at' have "scheme_is_file url sE" by (simp add: scheme_is_file_def letter_match_lower)
      with assms(3) sE(1) show False by simp
    qed
    moreover have "KURL_path base = [] \<and> sE + 1 < m_portEnd base \<or> KURL_path base \<noteq> [] \<and> hd (KURL_path base) = CHR ''/''" if hier: "KURL_isHierarchical base"
    proof -
      have kp: "KURL_path base = lead @ path" using sE(2) by (simp add: KURL_path_def slice_def str m)
      show ?thesis
      proof (cases "slashes = []")
        case True
        then have "user = [] \<and> pass = [] \<and> host = [] \<and> port = []" using au by auto
        then have c: "char_at ((lead @ path) @ query @ frag) 0 = CHR ''/''"
          using hier True sE(2) char_at_append [of "map toASCIILower (slice url 0 sE) @ '':''" "lead @ path @ query @ frag"]
          by (simp add: KURL_isHierarchical_def m(1) str)
        have "P \<noteq> [] \<and> hd P = CHR ''/''" if "char_at (P @ query @ frag) 0 = CHR ''/''" for P
          using that hq by (cases P; cases query; cases frag) (auto simp: char_at_def NUL_def)
        from this [OF c] show ?thesis unfolding kp ..
      next
        case False
        then have "isPathSegmentEndChar (char_at url (portEnd a))" using pa na by auto
        then have "portEnd a = path_end url (portEnd a) \<or> char_at url (portEnd a) = CHR ''/''" by (rule path_at_segment_end)
        then have "path = [] \<or> hd path = CHR ''/''" using canonical_path_slash [OF cp pe] by blast
        moreover have "sE + 1 < m_portEnd base" using False sl sE(2) by (auto simp: m)
        ultimately show ?thesis using ld lp unfolding kp by auto
      qed
    qed
    ultimately show ?thesis using at sch lower_scheme_char m(1) by simp
  qed
qed


lemma same_scheme_parses:
  assumes "\<forall>i < m_schemeEnd base. isSchemeChar (char_at (m_string base) i)" "\<not> scheme_is_file (m_string base) (m_schemeEnd base)"
    and "char_at (m_string base) (m_schemeEnd base) = CHR '':''" "m_schemeEnd base < n" "take n (m_string base) = take n s"
  shows "\<exists>k. KURL_parse s = Some k"
proof -
  have same: "char_at s i = char_at (m_string base) i" if "i \<le> m_schemeEnd base" for i
  proof -
    have "m_schemeEnd base < length (m_string base)" using assms(3) by (intro char_at_not_NUL) (simp add: NUL_def)
    then have "i < length (m_string base)" "i < n" using that assms(4) by simp_all
    moreover from this have "i < length (take n s)" using assms(5) by (metis length_take min_less_iff_conj)
    ultimately show ?thesis using assms(5) by (simp add: char_at_def) (metis nth_take)
  qed
  have "scan isSchemeChar s 0 = m_schemeEnd base" using assms(1,3) same by (intro scan_scheme) simp_all
  moreover have "scheme_is_file s (m_schemeEnd base) = scheme_is_file (m_string base) (m_schemeEnd base)"
    using same by (auto simp: scheme_is_file_def)
  ultimately show ?thesis using KURL_parse_defined [of s] assms(2) by simp
qed

lemma suffix_drop_last:
  assumes "suffix (rev front) d" "d \<noteq> []"
  shows "suffix (rev front) (drop_last_segment (length front) d)" "drop_last_segment (length front) d \<noteq> []"
    "length (drop_last_segment (length front) d) \<le> length d"
proof -
  have b: "suffix (rev front) (back_to_slash (length front) d) \<and> back_to_slash (length front) d \<noteq> []
    \<and> length (back_to_slash (length front) d) \<le> length d" if "suffix (rev front) d" "d \<noteq> []" for d
    using that
  proof (induction d)
    case (Cons c d)
    show ?case
    proof (cases "length front + 1 < length (c # d) \<and> c \<noteq> CHR ''/''")
      case True
      then have "suffix (rev front) d" "d \<noteq> []" using Cons.prems(1) by (auto simp: suffix_Cons)
      note ih = Cons.IH [OF this]
      have "back_to_slash (length front) (c # d) = back_to_slash (length front) d" using True by simp
      with ih show ?thesis by simp
    qed (use Cons.prems in auto)
  qed simp
  define e where "e = (if length front + 1 < length d then tl d else d)"
  have "suffix (rev front) (tl d)" "tl d \<noteq> []" if "length front + 1 < length d"
    using that assms(1) by (cases d; auto simp: suffix_Cons)+
  then have e: "suffix (rev front) e" "e \<noteq> []" "length e \<le> length d" using assms by (auto simp: e_def)
  have eq: "drop_last_segment (length front) d = back_to_slash (length front) e" by (simp add: drop_last_segment_def e_def)
  show "suffix (rev front) (drop_last_segment (length front) d)" "drop_last_segment (length front) d \<noteq> []"
    "length (drop_last_segment (length front) d) \<le> length d"
    using b [OF e(1,2)] e(3) unfolding eq by simp_all
qed

text \<open>The loop never leaves the buffer, keeps what is before the path, and ends inside the buffer.\<close>

lemma clip_dot: "clip (CHR ''.'' # r) = clip r"
  by (simp add: clip_def NUL_def)

lemma clip_skip: "clip (skip_slash r) = clip r"
  by (cases r) (auto simp: clip_def skip_slash_def NUL_def)

lemma merge_dots_total:
  assumes "front \<noteq> []"
  shows "suffix (rev front) d \<Longrightarrow> length d + length rel \<le> n
    \<Longrightarrow> \<exists>rest d'. merge_dots (length front) n rel d = Some (rest, d') \<and> suffix (rev front) d' \<and> length d' + length rest \<le> length d + length rel
      \<and> rest = clip rel"
proof (induction "length rel" arbitrary: rel d rule: less_induct)
  case less
  have d: "d \<noteq> []" using less.prems(1) assms by auto
  show ?case
  proof (cases rel)
    case Nil
    then show ?thesis using less.prems by (auto simp: merge_dots.simps char_at_def clip_def)
  next
    case (Cons c r)
    consider "c \<in> {NUL, CHR ''?'', CHR ''#''}"
      | "c = CHR ''.''" "hd d = CHR ''/''" "isPathSegmentEndChar (char_at r 0)"
      | r' where "c = CHR ''.''" "hd d = CHR ''/''" "r = CHR ''.'' # r'" "isPathSegmentEndChar (char_at r' 0)"
      | "merge_dots (length front) n rel d = merge_dots (length front) n r (c # d)" "clip rel = clip r"
    proof -
      have "merge_dots (length front) n rel d = merge_dots (length front) n r (c # d)"
        if "c \<notin> {NUL, CHR ''?'', CHR ''#''}" "c \<noteq> CHR ''.'' \<or> hd d \<noteq> CHR ''/''"
        using that d less.prems(2) unfolding Cons by (intro merge_char) auto
      moreover have "merge_dots (length front) n rel d = merge_dots (length front) n r (c # d)"
        if "c = CHR ''.''" "\<not> isPathSegmentEndChar (char_at r 0)" "\<not> (char_at r 0 = CHR ''.'' \<and> isPathSegmentEndChar (char_at r 1))"
        using that d less.prems(2) unfolding Cons by (simp add: merge_name)
      moreover have "\<exists>r'. r = CHR ''.'' # r' \<and> isPathSegmentEndChar (char_at r' 0)"
        if "char_at r 0 = CHR ''.''" "isPathSegmentEndChar (char_at r 1)"
        using that by (cases r) (auto simp: char_at_def NUL_def)
      moreover have "clip rel = clip r" if "c \<notin> {NUL, CHR ''?'', CHR ''#''}" using that by (simp add: Cons clip_def)
      ultimately show ?thesis using that by blast
    qed
    then show ?thesis
    proof cases
      case 1
      then show ?thesis using less.prems merge_stop [of rel] by (auto simp: Cons clip_def)
    next
      case 2
      have "merge_dots (length front) n rel d = merge_dots (length front) n (skip_slash r) d" unfolding Cons 2(1) by (rule merge_dot [OF d 2(2,3)])
      then show ?thesis using less.hyps [of "skip_slash r" d] less.prems length_skip_slash [of r] clip_skip [of r] by (fastforce simp: Cons 2(1) clip_dot)
    next
      case (3 r')
      have "merge_dots (length front) n rel d = merge_dots (length front) n (skip_slash r') (drop_last_segment (length front) d)"
        unfolding Cons 3(1,3) by (rule merge_dotdot [OF d 3(2,4)])
      then show ?thesis
        using less.hyps [of "skip_slash r'" "drop_last_segment (length front) d"] less.prems length_skip_slash [of r'] suffix_drop_last [OF less.prems(1) d]
          clip_skip [of r'] by (fastforce simp: Cons 3(1,3) clip_dot)
    next
      case 4
      then show ?thesis using less.hyps [of r "c # d"] less.prems by (fastforce simp: Cons suffix_ConsI)
    qed
  qed
qed

lemma base_directory_slash:
  "KURL_path base = [] \<or> hd (KURL_path base) = CHR ''/'' \<Longrightarrow>
     base_directory base = (if KURL_path base = [] then [] else CHR ''/'' # rev (dropWhile (\<lambda>c. c \<noteq> CHR ''/'') (rev (tl (KURL_path base)))))"
  by (cases "KURL_path base") (auto simp: base_directory_def dropWhile_append split: if_splits)

lemma relative_path_total:
  assumes "KURL_path base = [] \<or> hd (KURL_path base) = CHR ''/''" "0 < m_portEnd base" "m_portEnd base \<le> m_pathEnd base"
    "m_pathEnd base \<le> length (m_string base)" "length str \<le> len"
  shows "\<exists>s. relative_path base str len = Some s \<and> take (m_portEnd base) s = take (m_portEnd base) (m_string base)"
proof -
  define front where "front = take (m_portEnd base) (m_string base)"
  have fl: "length front = m_portEnd base" using assms(3,4) by (simp add: front_def)
  then have fn: "front \<noteq> []" using assms(2) by auto
  have pl: "length (KURL_path base) = m_pathEnd base - m_portEnd base" using assms(4) by (simp add: KURL_path_def)
  have dl: "length (base_directory base) \<le> length (KURL_path base)"
    using length_dropWhile_le [of "\<lambda>c. c \<noteq> CHR ''/''" "rev (KURL_path base)"] by (simp add: base_directory_def)
  obtain path where path: "(if base_directory base = [] then
        Some (if m_schemeEnd base + 1 \<noteq> m_pathEnd base \<and> char_at str 0 \<notin> {NUL, CHR ''?'', CHR ''#''} then ''/'' else [])
      else copyPathRemovingDots (base_directory base) 0 (length (base_directory base))) = Some path"
    and len: "length path \<le> m_pathEnd base - m_portEnd base + 1"
  proof (cases "base_directory base = []")
    case False
    then have "char_at (base_directory base) 0 = CHR ''/''" using base_directory_slash [OF assms(1)] by (auto split: if_splits)
    then obtain out where out: "copyPathRemovingDots (base_directory base) 0 (length (base_directory base)) = Some out"
      using copyPath_defined [of 0] by blast
    then have "length out \<le> length (base_directory base)" using copyPath_length [OF out] by simp
    then show thesis using that out False dl pl by simp
  qed (use that in simp)
  let ?n = "m_pathEnd base + 1 + len + 1"
  have "suffix (rev front) (rev (front @ path))" by (simp add: suffix_def)
  moreover have "length (rev (front @ path)) + length str \<le> ?n" using len fl assms(3,5) by simp
  ultimately obtain rest d where m: "merge_dots (length front) ?n str (rev (front @ path)) = Some (rest, d)"
    "suffix (rev front) d" "length d + length rest \<le> length (rev (front @ path)) + length str"
    using merge_dots_total [OF fn] by blast
  have "length (takeWhile (\<lambda>c. c \<noteq> NUL) rest) \<le> length rest" by (rule length_takeWhile_le)
  then have "length (takeWhile (\<lambda>c. c \<noteq> NUL) rest) < ?n - length d" using m(3) len fl assms(3,5) by simp
  then have "relative_path base str len = Some (rev d @ rest)"
    unfolding relative_path_def Let_def front_def [symmetric] path Option.bind.bind_lunit m(1) by simp
  moreover have "take (m_portEnd base) (rev d @ rest) = front"
    using m(2) fl by (auto simp: suffix_def)
  ultimately show ?thesis by (simp add: front_def)
qed

text \<open>
  The reference \<open>init\<close> resolves: backslashes are slashes, white space and control characters at both
  ends do not count. It has a scheme if a colon follows its longest start of scheme characters.
\<close>

definition reference :: "string \<Rightarrow> string" where
  "reference relative =
     trim_end (trim_start (if str_contains relative (CHR 0x5C) \<and> \<not> (protocolIsJavaScript relative \<or> url_protocolIs relative ''data'')
                           then substituteBackslashes relative else relative))"

definition has_scheme :: "string \<Rightarrow> bool" where
  "has_scheme r \<longleftrightarrow> r \<noteq> [] \<and> isSchemeFirstChar (hd r) \<and> dropWhile isSchemeChar (tl r) \<noteq> []
     \<and> hd (dropWhile isSchemeChar (tl r)) = CHR '':''"

lemma char_at_scan: "char_at s (scan P s i) = (case dropWhile P (drop i s) of [] \<Rightarrow> NUL | c # _ \<Rightarrow> c)"
proof (induction P s i rule: scan.induct)
  case (1 P s i)
  show ?case
  proof (cases "i < length s")
    case True
    then have "drop i s = s ! i # drop (Suc i) s" by (simp add: Cons_nth_drop_Suc)
    then show ?thesis using 1 True by (auto simp: scan.simps [of P s i] char_at_def)
  next
    case False
    then show ?thesis by (simp add: scan.simps [of P s i] char_at_def)
  qed
qed

lemma split_relative:
  assumes "\<not> has_scheme str"
  shows "split_scheme base str room = (False, str, room)"
proof (cases "isSchemeFirstChar (char_at str 0)")
  case True
  then have ne: "str \<noteq> []" by (auto simp: char_at_def isSchemeFirstChar_def characterClassTable_def code_def NUL_def)
  then have "char_at str 0 = hd str" "drop 1 str = tl str" by (cases str; simp add: char_at_def)+
  then have "char_at str (scan isSchemeChar str 1) \<noteq> CHR '':''"
    using assms True ne unfolding has_scheme_def char_at_scan
    by (cases "dropWhile isSchemeChar (tl str)") (simp_all add: NUL_def del: dropWhile_eq_Nil_conv)
  then show ?thesis by (simp add: split_scheme_def Let_def)
qed (simp add: split_scheme_def)

lemma set_substituteBackslashes: "set (substituteBackslashes s) \<subseteq> set s \<union> {CHR ''/''}"
  unfolding substituteBackslashes_def Let_def str_left_def substring_def
  by (auto dest: in_set_takeD in_set_dropD split: option.splits if_splits)

lemma set_reference: "set (reference relative) \<subseteq> set relative \<union> {CHR ''/''}"
  using set_substituteBackslashes [of relative]
  unfolding reference_def trim_end_def trim_start_def by (auto dest!: set_dropWhileD split: if_splits)

lemma init_relative:
  assumes "m_isValid base" "\<not> has_scheme (reference relative)" "list_all (\<lambda>c. code c < 128) relative"
  obtains room where "length (reference relative) \<le> room"
    "KURL_init encode base relative = resolve base (reference relative) (length (reference relative)) room relative"
proof -
  define rel where "rel = (if str_contains relative (CHR 0x5C) \<and> \<not> (protocolIsJavaScript relative \<or> url_protocolIs relative ''data'')
                   then substituteBackslashes relative else relative)"
  have rel: "list_all (\<lambda>c. code c < 128) rel"
    using set_substituteBackslashes [of relative] assms(3) by (auto simp: rel_def list_all_iff code_def)
  define buffer where "buffer = trim_start rel"
  have r: "reference relative = trim_end buffer" by (simp add: reference_def buffer_def rel_def)
  have "length (reference relative) \<le> length buffer + 1"
    unfolding r trim_end_def using length_dropWhile_le [of shouldTrimFromURL "rev buffer"] by simp
  moreover have "KURL_init encode base relative = resolve base (reference relative) (length (reference relative)) (length buffer + 1) relative"
    unfolding KURL_init_def Let_def rel_def [symmetric] if_P [OF rel] buffer_def [symmetric] r [symmetric] split_relative [OF assms(2)]
    using assms(1) by simp
  ultimately show thesis by (rule that)
qed

lemma resolution_defined:
  assumes "KURL_parse url = Some base" "m_isValid base" "\<not> scheme_is_file url (scan isSchemeChar url 0)" "length str \<le> room"
  shows "\<exists>k. resolve base str (length str) room relative = Some k"
proof -
  note ranges = KURL_parse_ranges [OF assms(1,2)] and pb = parsed_base [OF assms(1-3)]
  have colon: "char_at (m_string base) (m_schemeEnd base) = CHR '':''" using ranges by (simp add: char_at_def)
  have parses: "\<exists>k. parse_original s relative = Some k"
    if "take n (m_string base) = take n s" "m_schemeEnd base < n" for n s
    using same_scheme_parses [of base n s] pb colon that by (auto simp: parse_original_def)
  have app: "appendASCII pre str (length str) room = Some (pre @ str)" for pre using assms(4) by (simp add: appendASCII_def)
  have rp: "\<exists>s. relative_path base str (length str) = Some s \<and> take (m_portEnd base) s = take (m_portEnd base) (m_string base)"
    if "KURL_isHierarchical base" using that pb ranges by (intro relative_path_total) auto
  have part: "\<exists>k. Option.bind (appendASCII (take n (m_string base)) str (length str) room) (\<lambda>s. parse_original s relative) = Some k"
    if "m_schemeEnd base < n" "n \<le> length (m_string base)" for n
    unfolding app using parses [of n "take n (m_string base) @ str"] that by simp
  have "\<exists>k. removeFragmentIdentifier base = Some k"
    using same_scheme_parses [of base "m_queryEnd base" "take (m_queryEnd base) (m_string base)"] pb colon ranges assms(2)
    by (simp add: removeFragmentIdentifier_def)
  moreover have "\<exists>k. Option.bind (relative_path base str (length str)) (\<lambda>s. parse_original s relative) = Some k"
    if "KURL_isHierarchical base"
    using rp [OF that] parses [of "m_portEnd base"] ranges by force
  moreover note part [of "m_queryEnd base"] part [of "m_pathEnd base"] part [of "m_schemeEnd base + 1"] part [of "m_portEnd base"]
  ultimately show ?thesis unfolding resolve_def using ranges by (auto split: if_splits)
qed

text \<open>
  C13: the removal of dot segments while the path is copied in place is that of RFC 3986: the path up to
  its last slash is the stack of directories, a dot keeps it, two dots take the last one
  away if there is one, and a path that ends with either ends with a slash.
\<close>

theorem copy_is_dot_removal:
  "copyPathRemovingDots (CHR ''/'' # p) 0 (length (CHR ''/'' # p)) = Some (CHR ''/'' # path_string (remove_dots [] (segments p)))"
  by (rule copyPath_removes_dots)

section \<open>Resolution of a relative path\<close>

definition base_dirs :: "kurl \<Rightarrow> string list" where
  "base_dirs base = fst (remove_dots [] (butlast (segments (tl (KURL_path base))) @ [[]]))"

lemma directory_segments:
  "segments (rev (dropWhile (\<lambda>c. c \<noteq> CHR ''/'') (rev q))) = butlast (segments q) @ [[]]"
proof (induction q)
  case (Cons c q)
  obtain t ts where q: "segments q = t # ts" by (cases "segments q") auto
  show ?case
  proof (cases "CHR ''/'' \<in> set q")
    case True
    then have "ts \<noteq> []" using q join_segments [of q] segments_no_slash [of t q] by (cases ts) auto
    then show ?thesis using Cons q True by (auto simp: dropWhile_append split: list.splits)
  next
    case False
    then have "ts = []" using q join_segments [of q] by (cases ts) auto
    then show ?thesis using q False by (auto simp: dropWhile_append)
  qed
qed simp

lemma remove_dots_dir: "snd (remove_dots dirs (ss @ [[]])) = []"
proof (induction ss arbitrary: dirs)
  case (Cons s ss)
  then show ?case by (cases "ss @ [[]]") simp_all
qed simp

lemma push_segment_no_slash:
  "\<forall>s \<in> set dirs. CHR ''/'' \<notin> set s \<Longrightarrow> CHR ''/'' \<notin> set s \<Longrightarrow> \<forall>s \<in> set (push_segment dirs s). CHR ''/'' \<notin> set s"
  by (auto simp: push_segment_def dest: in_set_butlastD)

lemma remove_dots_no_slash:
  "\<forall>u \<in> set dirs. CHR ''/'' \<notin> set u \<Longrightarrow> \<forall>u \<in> set ss. CHR ''/'' \<notin> set u \<Longrightarrow> u \<in> set (fst (remove_dots dirs ss)) \<Longrightarrow> CHR ''/'' \<notin> set u"
proof (induction dirs ss rule: remove_dots.induct)
  case (2 dirs s)
  then have "u \<in> set (push_segment dirs s) \<or> u \<in> set dirs" by (simp split: if_splits)
  then show ?case using push_segment_no_slash [of dirs s] "2.prems"(1,2) by (metis list.set_intros(1))
next
  case (3 dirs s t ss)
  have "\<forall>u \<in> set (push_segment dirs s). CHR ''/'' \<notin> set u"
    using "3.prems"(1,2) by (intro push_segment_no_slash) (blast, metis list.set_intros(1))
  moreover have "\<forall>u \<in> set (t # ss). CHR ''/'' \<notin> set u" using "3.prems"(2) by (metis list.set_intros(2))
  ultimately show ?case using "3.IH" "3.prems"(3) by (metis remove_dots.simps(3))
qed (metis fst_conv remove_dots.simps(1))

lemma relative_path_resolved:
  assumes "KURL_parse url = Some base" "m_isValid base" "\<not> scheme_is_file url (scan isSchemeChar url 0)"
    and "KURL_isHierarchical base" "p \<noteq> []" "hd p \<noteq> CHR ''/''" "\<forall>c \<in> set p. c \<notin> {NUL, CHR ''?'', CHR ''#''}"
    and "t = [] \<or> hd t = CHR ''?'' \<or> hd t = CHR ''#''" "length (p @ t) \<le> len"
  shows "resolve base (p @ t) len room relative =
    parse_original (take (m_portEnd base) (m_string base) @ CHR ''/'' # path_string (remove_dots (base_dirs base) (segments p)) @ t) relative"
proof -
  note ranges = KURL_parse_ranges [OF assms(1,2)] and pb = parsed_base [OF assms(1-3)]
  define front where "front = take (m_portEnd base) (m_string base)"
  have fl: "length front = m_portEnd base" using ranges by (simp add: front_def)
  then have fn: "front \<noteq> []" using ranges by auto
  have path: "KURL_path base = [] \<or> hd (KURL_path base) = CHR ''/''" using pb assms(4) by blast
  have r: "m_portEnd base \<le> m_pathEnd base" "m_pathEnd base \<le> length (m_string base)" using ranges by simp_all
  have pl: "length (KURL_path base) = m_pathEnd base - m_portEnd base" using r by (simp add: KURL_path_def)
  define dir where "dir = base_directory base"
  define dirs where "dirs = base_dirs base"
  have path': "dir = [] \<Longrightarrow> m_schemeEnd base + 1 \<noteq> m_pathEnd base"
    using pb assms(4) base_directory_slash [OF path] pl r(1) by (auto simp: dir_def split: if_splits)
  have stop: "char_at (p @ t) 0 \<notin> {NUL, CHR ''?'', CHR ''#''}" using assms(5,7) by (cases p) auto
  have first: "(if dir = [] then
        Some (if m_schemeEnd base + 1 \<noteq> m_pathEnd base \<and> char_at (p @ t) 0 \<notin> {NUL, CHR ''?'', CHR ''#''} then ''/'' else [])
      else copyPathRemovingDots dir 0 (length dir)) = Some (CHR ''/'' # path_string (dirs, []))
    \<and> length (path_string (dirs, [])) \<le> m_pathEnd base - m_portEnd base"
  proof (cases "dir = []")
    case True
    then have "dirs = []" using base_directory_slash [OF path] by (simp add: dir_def dirs_def base_dirs_def split: if_splits)
    then show ?thesis using True path' stop by (simp add: path_string_def)
  next
    case False
    define q where "q = rev (dropWhile (\<lambda>c. c \<noteq> CHR ''/'') (rev (tl (KURL_path base))))"
    have d: "dir = CHR ''/'' # q" using False base_directory_slash [OF path] by (simp add: dir_def q_def split: if_splits)
    have "remove_dots [] (segments q) = (dirs, [])"
      using remove_dots_dir [of "[]" "butlast (segments (tl (KURL_path base)))"]
      unfolding q_def directory_segments dirs_def base_dirs_def by (metis prod.collapse)
    then have c: "copyPathRemovingDots dir 0 (length dir) = Some (CHR ''/'' # path_string (dirs, []))"
      using copyPath_removes_dots [of q] by (simp add: d)
    have "length (CHR ''/'' # path_string (dirs, [])) \<le> length dir" using copyPath_length [OF c] by simp
    moreover have "length dir \<le> length (KURL_path base)"
      using length_dropWhile_le [of "\<lambda>c. c \<noteq> CHR ''/''" "rev (KURL_path base)"] by (simp add: dir_def base_directory_def)
    ultimately show ?thesis using c False pl by simp
  qed
  let ?n = "m_pathEnd base + 1 + len + 1"
  let ?buf = "rev (front @ CHR ''/'' # path_string (dirs, []))"
  have clip: "clip t = t" using assms(8) by (cases t) (auto simp: clip_def)
  have buf: "merge.buf front dirs = ?buf" by (simp add: merge.buf_def)
  have ns: "\<forall>s \<in> set dirs. CHR ''/'' \<notin> set s"
    unfolding dirs_def base_dirs_def
    using remove_dots_no_slash [of "[]" "butlast (segments (tl (KURL_path base))) @ [[]]"] segments_no_slash
    by (auto dest: in_set_butlastD)
  have len: "length ?buf + length (p @ t) \<le> ?n" using conjunct2 [OF first] fl r(1) assms(9) by simp
  have ns': "\<forall>s \<in> set (segments p) \<union> set dirs. CHR ''/'' \<notin> set s" using ns segments_no_slash by blast
  have w: "merge_walk front ?n t p ?buf = Some (rev (path_string (remove_dots dirs (segments p))) @ CHR ''/'' # rev front)"
    using merge.walk_removes_dots [where ss = "segments p" and dirs = dirs and front = front and n = ?n and t = t, OF segments_not_Nil ns'] assms(7) len
    unfolding buf by (simp add: list_all_iff)
  have "suffix (rev front) ?buf" by (simp add: suffix_def)
  from merge_dots_total [OF fn this len] obtain d where d: "merge_dots (length front) ?n (p @ t) ?buf = Some (clip (p @ t), d)"
    "length d + length (clip (p @ t)) \<le> length ?buf + length (p @ t)" by blast
  have rest: "clip (p @ t) = t" using assms(7) clip by (simp add: clip_def)
  have dd: "rev d = front @ CHR ''/'' # path_string (remove_dots dirs (segments p))"
    using w d(1) by (simp add: merge_walk_def clip)
  have fits: "length (takeWhile (\<lambda>c. c \<noteq> NUL) t) < ?n - length d"
    using d(2) rest conjunct2 [OF first] fl r(1) assms(9) length_takeWhile_le [of "\<lambda>c. c \<noteq> NUL" t] by simp
  have "relative_path base (p @ t) len = Some (rev d @ t)"
    unfolding relative_path_def Let_def front_def [symmetric] dir_def [symmetric] conjunct1 [OF first] Option.bind.bind_lunit d(1) rest
    using fits by simp
  moreover have "char_at (p @ t) 0 = hd p" using assms(5) by (cases p) simp_all
  ultimately show ?thesis
    using assms(4,6) stop dd by (simp add: resolve_def dirs_def front_def)
qed

text \<open>
  The target of a reference without a scheme, of RFC 3986, section 5.2.2, as a string to be parsed: what the
  reference leaves out is that of the base, and a relative path follows the directories of the base, without dot segments.
\<close>

definition path_part :: "string \<Rightarrow> string" where
  "path_part r = takeWhile (\<lambda>c. c \<noteq> CHR ''?'' \<and> c \<noteq> CHR ''#'') r"

definition query_and_fragment :: "string \<Rightarrow> string" where
  "query_and_fragment r = dropWhile (\<lambda>c. c \<noteq> CHR ''?'' \<and> c \<noteq> CHR ''#'') r"

definition rfc_target :: "kurl \<Rightarrow> string \<Rightarrow> string" where
  "rfc_target base r =
     (if hd r = CHR ''#'' then take (m_queryEnd base) (m_string base) @ r
      else if hd r = CHR ''?'' then take (m_pathEnd base) (m_string base) @ r
      else if prefix ''//'' r then take (m_schemeEnd base + 1) (m_string base) @ r
      else if hd r = CHR ''/'' then take (m_portEnd base) (m_string base) @ r
      else take (m_portEnd base) (m_string base) @ CHR ''/'' # path_string (remove_dots (base_dirs base) (segments (path_part r)))
             @ query_and_fragment r)"

lemma resolve_target:
  assumes "KURL_parse url = Some base" "m_isValid base" "\<not> scheme_is_file url (scan isSchemeChar url 0)"
    and "KURL_isHierarchical base" "r \<noteq> []" "NUL \<notin> set r" "length r \<le> room"
  shows "resolve base r (length r) room relative = parse_original (rfc_target base r) relative"
proof -
  have app: "appendASCII pre r (length r) room = Some (pre @ r)" for pre using assms(7) by (simp add: appendASCII_def)
  have "char_at r 0 = hd r" using assms(5) by (cases r) (simp_all add: char_at_def)
  moreover have "hd r \<noteq> NUL" using hd_in_set [OF assms(5)] assms(6) by metis
  ultimately have c0: "char_at r 0 = hd r" "hd r \<noteq> NUL" by blast+
  have c1: "hd r = CHR ''/'' \<Longrightarrow> char_at r 1 = CHR ''/'' \<longleftrightarrow> prefix ''//'' r"
    using assms(5) by (cases r; cases "tl r") (auto simp: char_at_def NUL_def)
  have sl: "prefix ''//'' r \<Longrightarrow> hd r = CHR ''/''" by (cases r) simp_all
  show ?thesis
  proof (cases "hd r \<in> {CHR ''#'', CHR ''?'', CHR ''/''}")
    case True
    then show ?thesis using assms(4) c0 c1 sl by (auto simp: resolve_def rfc_target_def app)
  next
    case False
    let ?p = "path_part r" and ?t = "query_and_fragment r"
    have parts: "?p @ ?t = r" by (simp add: path_part_def query_and_fragment_def)
    have "?p \<noteq> [] \<and> hd ?p = hd r" using False assms(5) by (cases r) (simp_all add: path_part_def)
    then have p: "?p \<noteq> []" "hd ?p = hd r" by blast+
    have "\<forall>c \<in> set ?p. c \<notin> {NUL, CHR ''?'', CHR ''#''}"
      using assms(6) by (auto simp: path_part_def dest: set_takeWhileD)
    moreover have "?t = [] \<or> hd ?t = CHR ''?'' \<or> hd ?t = CHR ''#''"
      using hd_dropWhile [of "\<lambda>c. c \<noteq> CHR ''?'' \<and> c \<noteq> CHR ''#''" r] by (auto simp: query_and_fragment_def)
    ultimately have "resolve base r (length r) room relative =
        parse_original (take (m_portEnd base) (m_string base) @ CHR ''/'' # path_string (remove_dots (base_dirs base) (segments ?p)) @ ?t) relative"
      using relative_path_resolved [OF assms(1-4) p(1) _ _ _ order_refl, of ?t room relative] p(2) False
      unfolding parts by simp
    then show ?thesis using False sl by (auto simp: rfc_target_def)
  qed
qed

text \<open>
  C10: \<open>init\<close> resolves an ASCII reference without a scheme against a hierarchical base whose scheme is not \<open>file\<close>
  as RFC 3986 asks for: after backslashes have become slashes and the ends have been trimmed, the result is what parsing gives for the
  target of the RFC, and for an empty reference the base without its fragment. The call always yields a URL, valid or not.
\<close>

theorem relative_reference_resolved:
  assumes "KURL_parse url = Some base" "m_isValid base" "\<not> scheme_is_file url (scan isSchemeChar url 0)"
    and "KURL_isHierarchical base" "list_all (\<lambda>c. code c < 128 \<and> c \<noteq> NUL) relative" "\<not> has_scheme (reference relative)"
  shows "\<exists>k. KURL_init encode base relative = Some k
    \<and> (if reference relative = [] then removeFragmentIdentifier base
       else parse_original (rfc_target base (reference relative)) relative) = Some k"
proof -
  have ascii: "list_all (\<lambda>c. code c < 128) relative" using assms(5) by (auto simp: list_all_iff)
  have nul: "NUL \<notin> set (reference relative)"
    using set_reference [of relative] assms(5) by (auto simp: list_all_iff NUL_def)
  obtain room where room: "length (reference relative) \<le> room"
    "KURL_init encode base relative = resolve base (reference relative) (length (reference relative)) room relative"
    by (rule init_relative [OF assms(2,6) ascii])
  have empty: "resolve base [] 0 room relative = removeFragmentIdentifier base"
    using assms(4) by (simp add: resolve_def char_at_def NUL_def)
  show ?thesis
    using resolution_defined [OF assms(1-3) room(1), of relative] resolve_target [OF assms(1-4) _ nul room(1), of relative] empty
    unfolding room(2) by (cases "reference relative = []") simp_all
qed

theorem relative_reference_resolved_witness:
  "\<exists>base. KURL_parse ''http://h/a/b'' = Some base \<and>
     KURL_init id base ('' ..'' @ CHR 0x5C # ''c/./d?q '') = parse_original ''http://h/c/d?q'' ('' ..'' @ CHR 0x5C # ''c/./d?q '')"
proof -
  have "KURL_parse ''http://h/a/b'' \<noteq> None" by code_simp
  then obtain base where b: "KURL_parse ''http://h/a/b'' = Some base" by blast
  have "m_isValid (the (KURL_parse ''http://h/a/b''))" "KURL_isHierarchical (the (KURL_parse ''http://h/a/b''))"
    "rfc_target (the (KURL_parse ''http://h/a/b'')) ''../c/./d?q'' = ''http://h/c/d?q''" by code_simp+
  then have v: "m_isValid base" "KURL_isHierarchical base" "rfc_target base ''../c/./d?q'' = ''http://h/c/d?q''"
    by (simp_all add: b)
  have f: "\<not> scheme_is_file ''http://h/a/b'' (scan isSchemeChar ''http://h/a/b'' 0)" by code_simp
  have r: "reference ('' ..'' @ CHR 0x5C # ''c/./d?q '') = ''../c/./d?q''" "\<not> has_scheme ''../c/./d?q''"
    "list_all (\<lambda>c. code c < 128 \<and> c \<noteq> NUL) ('' ..'' @ CHR 0x5C # ''c/./d?q '')" by code_simp+
  show ?thesis
    using relative_reference_resolved [OF b v(1) f v(2) r(3), of id] b v(3) r(1,2) by auto
qed

text \<open>
  A reference that repeats the scheme of its base before a query or a fragment makes \<open>appendASCII\<close>
  read beyond the reference: the start is moved behind the scheme, the length is not.
\<close>

lemma repeated_scheme_overreads:
  "KURL_init id (the (KURL_parse ''http://h/a'')) ''http:?q'' = None"
  by code_simp

end
