(* ===== verification/ProxyFilter.thy ===== *)
theory ProxyFilter
  imports WTFString
begin

text \<open>
  \<open>ResourceHandleManager::ProxyFilter\<close>: the list of hosts that are reached without the proxy.
  \<open>setProxyFilters\<close> parses a comma-separated setting into filters, \<open>isMatchProxyFilter\<close> decides for
  a host. Results are optional: None where the source would write outside its 16-byte address
  or use a C string that \<open>strncpy\<close> left without its terminator.
\<close>

section \<open>State\<close>

datatype ProxyFilterType = NONE | FQDN | Domain | IPAddress | IPMask

record Filter =
  m_type :: ProxyFilterType
  m_filter :: string
  m_maskd :: "byte list"

definition Filter_new :: "ProxyFilterType \<Rightarrow> string \<Rightarrow> byte list option \<Rightarrow> Filter" where
  "Filter_new type flt msk =
     \<lparr>m_type = type, m_filter = flt, m_maskd = (case msk of Some m \<Rightarrow> m | None \<Rightarrow> replicate 16 0)\<rparr>"

section \<open>Addresses\<close>

definition CONV :: "char \<Rightarrow> int" where
  "CONV c = ((if code c AND 0x10 \<noteq> 0 then code c else code c + 9) AND 0x0f)"

definition ip6_group :: "string \<Rightarrow> byte \<times> byte" where
  "ip6_group part =
     (let len = length part in
      (word_of_int ((if 3 < len then push_bit 4 (CONV (part ! (len - 4))) else 0)
          OR (if 2 < len then CONV (part ! (len - 3)) else 0)),
       word_of_int ((if 1 < len then push_bit 4 (CONV (part ! (len - 2))) else 0)
          OR CONV (part ! (len - 1)))))"

datatype ip_result = OutOfBounds | Rejected | Address "byte list"

fun ip6_parts :: "nat \<Rightarrow> nat \<Rightarrow> nat \<Rightarrow> string list \<Rightarrow> byte list \<Rightarrow> ip_result" where
  "ip6_parts sz i pos [] ip = Address ip"
| "ip6_parts sz i pos (part # parts) ip =
     (if 4 < length part then Rejected
      else if part = ''#'' then ip6_parts sz (Suc i) (8 - (sz - i) + 1) parts ip
      else if list_ex (\<lambda>c. 127 < code c) part then Rejected
      else if 16 \<le> pos * 2 + 1 then OutOfBounds
      else
        let (hi, lo) = ip6_group part
        in ip6_parts sz (Suc i) (Suc pos) parts (ip[pos * 2 := hi, pos * 2 + 1 := lo]))"

fun ip4_parts :: "nat \<Rightarrow> string list \<Rightarrow> byte list \<Rightarrow> ip_result" where
  "ip4_parts i [] ip = Address ip"
| "ip4_parts i (part # parts) ip =
     (case toInt part of
        None \<Rightarrow> Rejected
      | Some num \<Rightarrow>
          if num < 0 \<or> 255 < num then Rejected
          else if 16 \<le> i then OutOfBounds
          else ip4_parts (Suc i) parts (ip[i := word_of_int num]))"

definition strip_brackets :: "string \<Rightarrow> string" where
  "strip_brackets host =
     (if startsWith host ''['' \<and> endsWith host '']'' then substring host 1 (length host - 2) else host)"

text \<open>The version, 0 for a string that is not an address, and the 16 bytes.\<close>

definition convertIPStringToChar :: "string \<Rightarrow> (nat \<times> byte list) option" where
  "convertIPStringToChar host =
     (let ip = replicate 16 0 in
      if str_contains host (CHR '':'') then
        (let IPs = str_split False (CHR '':'') (str_replace ''::'' '':#:'' (strip_brackets host))
         in if 8 < length IPs then Some (0, ip)
            else (case ip6_parts (length IPs) 0 0 IPs ip of
                    OutOfBounds \<Rightarrow> None | Rejected \<Rightarrow> Some (0, ip) | Address a \<Rightarrow> Some (6, a)))
      else if str_contains host (CHR ''.'') then
        (if length host < 7 then Some (0, ip)
         else
           let IPs = str_split False (CHR ''.'') host
           in if length IPs \<noteq> 4 then Some (0, ip)
              else (case ip4_parts 0 IPs ip of
                      OutOfBounds \<Rightarrow> None | Rejected \<Rightarrow> Some (0, ip) | Address a \<Rightarrow> Some (4, a)))
      else Some (0, ip))"

section \<open>Parsing the setting\<close>

definition prohibited :: "char \<Rightarrow> bool" where
  "prohibited c \<longleftrightarrow> c \<in> set ''!$%&()*+,./:;<=>?@[]^`{|}~'' \<or> code c \<in> {34, 39, 92}"

definition hasProhibitCharactor :: "string \<Rightarrow> bool" where
  "hasProhibitCharactor flt =
     (let Parts = str_split False (CHR ''.'') flt
      in length Parts < 2
         \<or> list_ex (\<lambda>p. startsWith p ''-'' \<or> endsWith p ''-'' \<or> list_ex prohibited p) Parts)"

text \<open>\<open>append\<close> keeps the list free of duplicates.\<close>

definition append_filter :: "Filter list \<Rightarrow> Filter \<Rightarrow> Filter list" where
  "append_filter fs newfilter = (if newfilter \<in> set fs then fs else fs @ [newfilter])"

text \<open>
  \<open>String::utf8\<close> of a string of 8-bit characters, by \<open>convertLatin1ToUTF8\<close>; \<open>String(const char*)\<close> takes every byte of it as one
  character.
\<close>

fun Latin1_utf8 :: "string \<Rightarrow> string" where
  "Latin1_utf8 [] = []"
| "Latin1_utf8 (c # cs) =
     (if code c < 0x80 then [c]
      else [char_of (drop_bit 6 (code c) OR 0xC0), char_of ((code c OR 0x80) AND 0xBF)]) @ Latin1_utf8 cs"

text \<open>\<open>strncpy(buf + 1, c, 510)\<close> into a buffer of 512: terminated only below 510 bytes.\<close>

definition c_buffer :: "string \<Rightarrow> string option" where
  "c_buffer flt =
     (let s = takeWhile (\<lambda>x. x \<noteq> NUL) (Latin1_utf8 flt) in if length s < 510 then Some s else None)"

text \<open>
  The four setters return whether the filter was of their kind; \<open>setFQDN\<close> and \<open>setDomain\<close> compute
  \<open>filter.left(length - 1)\<close> for a trailing dot and discard it.
\<close>

definition setFQDN :: "Filter list \<Rightarrow> string \<Rightarrow> (bool \<times> Filter list) option" where
  "setFQDN fs flt =
     (if \<not> str_contains flt (CHR ''.'') then Some (False, fs)
      else if hasProhibitCharactor flt then Some (False, fs)
      else map_option (\<lambda>buf.
             let fs1 = append_filter fs (Filter_new FQDN buf None)
             in (True, append_filter fs1 (Filter_new Domain (CHR ''.'' # buf) None))) (c_buffer flt))"

definition setDomain :: "Filter list \<Rightarrow> string \<Rightarrow> (bool \<times> Filter list) option" where
  "setDomain fs flt =
     (if \<not> startsWith flt ''.'' then Some (False, fs)
      else if hasProhibitCharactor flt then Some (False, fs)
      else map_option (\<lambda>buf.
             let fs1 = append_filter fs (Filter_new Domain (CHR ''.'' # buf) None)
             in (True, append_filter fs1 (Filter_new FQDN buf None)))
           (c_buffer (str_right flt (length flt - 1))))"

definition setIPAddress :: "Filter list \<Rightarrow> string \<Rightarrow> (bool \<times> Filter list) option" where
  "setIPAddress fs flt =
     (if str_contains flt (CHR ''/'') then Some (False, fs)
      else map_option (\<lambda>(ipver, ip).
             if ipver \<noteq> 4 \<and> ipver \<noteq> 6 then (False, fs)
             else (True, append_filter fs (Filter_new IPAddress (strip_brackets flt) None)))
           (convertIPStringToChar flt))"

text \<open>The loop that clears the bits beyond the prefix; \<open>mask\<close> goes below 0 and is reset.\<close>

fun mask_bytes :: "int \<Rightarrow> byte list \<Rightarrow> byte list" where
  "mask_bytes msk [] = []"
| "mask_bytes msk (b # bs) =
     (let m = (if msk < 0 then 0 else msk);
          b' = (if m < 8 then b AND word_of_int (push_bit (nat (8 - m)) 0xff) else b)
      in b' # mask_bytes (m - 8) bs)"

definition setIPNetwork :: "Filter list \<Rightarrow> string \<Rightarrow> (bool \<times> Filter list) option" where
  "setIPNetwork fs flt =
     (if \<not> str_contains flt (CHR ''/'') then Some (False, fs)
      else (case str_split False (CHR ''/'') flt of
              [net, len] \<Rightarrow>
                map_option (\<lambda>(ipver, ip).
                  if ipver \<noteq> 4 \<and> ipver \<noteq> 6 then (False, fs)
                  else (case toInt len of
                          None \<Rightarrow> (False, fs)
                        | Some msk \<Rightarrow>
                            if (if ipver = 4 then msk < 8 \<or> 32 < msk else msk \<noteq> 48 \<and> msk \<noteq> 64) then (False, fs)
                            else (True, append_filter fs (Filter_new IPMask [] (Some (mask_bytes msk ip))))))
                (convertIPStringToChar net)
            | _ \<Rightarrow> Some (False, fs)))"

definition set_filter :: "Filter list \<Rightarrow> string \<Rightarrow> Filter list option" where
  "set_filter fs piece =
     (let flt = stripWhiteSpace piece in
      if str_contains flt (CHR '' '') then Some fs
      else
        case setDomain fs flt of None \<Rightarrow> None | Some (b1, fs1) \<Rightarrow> if b1 then Some fs1 else
        case setIPAddress fs1 flt of None \<Rightarrow> None | Some (b2, fs2) \<Rightarrow> if b2 then Some fs2 else
        case setIPNetwork fs2 flt of None \<Rightarrow> None | Some (b3, fs3) \<Rightarrow> if b3 then Some fs3 else
        map_option snd (setFQDN fs3 flt))"

fun set_filters :: "Filter list \<Rightarrow> string list \<Rightarrow> Filter list option" where
  "set_filters fs [] = Some fs"
| "set_filters fs (piece # pieces) =
     (case set_filter fs piece of None \<Rightarrow> None | Some fs' \<Rightarrow> set_filters fs' pieces)"

definition setProxyFilters :: "string option \<Rightarrow> Filter list option" where
  \<comment> \<open>\<open>allClean()\<close> first, so that the old list does not matter; None stands for the null string\<close>
  "setProxyFilters filters =
     (case filters of None \<Rightarrow> Some [] | Some s \<Rightarrow> set_filters [] (str_split False (CHR '','') (str_lower s)))"

section \<open>Matching\<close>

definition mask_matches :: "byte list \<Rightarrow> byte list \<Rightarrow> bool" where
  "mask_matches ipaddr maskd \<longleftrightarrow> list_all2 (\<lambda>a m. a AND m = m) ipaddr maskd"

fun match_filters :: "string \<Rightarrow> string \<Rightarrow> Filter list \<Rightarrow> bool option" where
  "match_filters host lowerHost [] = Some False"
| "match_filters host lowerHost (f # fs) =
     (if m_type f = FQDN \<or> m_type f = IPAddress then
        (if m_filter f = lowerHost then Some True else match_filters host lowerHost fs)
      else if m_type f = Domain then
        (if length lowerHost \<le> length (m_filter f) then match_filters host lowerHost fs
         else if m_filter f = str_right lowerHost (length (m_filter f)) then Some True
         else match_filters host lowerHost fs)
      else (case convertIPStringToChar host of
              None \<Rightarrow> None
            | Some (ipver, ipaddr) \<Rightarrow>
                if ipver = 0 then match_filters host lowerHost fs
                else if mask_matches ipaddr (m_maskd f) then Some True
                else match_filters host lowerHost fs))"

definition isMatchProxyFilter :: "Filter list \<Rightarrow> string \<Rightarrow> bool option" where
  "isMatchProxyFilter fs host =
     (if host = ''127.0.0.1'' \<or> host = ''localhost'' then Some True
      else
        let lowerHost = (if startsWith host ''['' \<and> endsWith host '']''
                         then substring host 1 (length host - 2) else str_lower host)
        in match_filters host lowerHost fs)"

section \<open>Bounds\<close>

lemma ip6_parts_in_bounds:
  "pos + length parts \<le> 8 \<Longrightarrow> sz = i + length parts \<Longrightarrow> sz \<le> 8 \<Longrightarrow>
   ip6_parts sz i pos parts ip = Rejected \<or> (\<exists>a. ip6_parts sz i pos parts ip = Address a \<and> length a = length ip)"
proof (induction sz i pos parts ip rule: ip6_parts.induct)
  case (2 sz i pos part parts ip)
  show ?case
  proof (cases "4 < length part \<or> part = ''#'' \<or> list_ex (\<lambda>c. 127 < code c) part")
    case True
    then show ?thesis using 2 by auto
  next
    case False
    obtain hi lo where g: "ip6_group part = (hi, lo)" by fastforce
    from False 2 g show ?thesis by simp
  qed
qed simp

lemma ip4_parts_in_bounds:
  "i + length parts \<le> 16 \<Longrightarrow>
   ip4_parts i parts ip = Rejected \<or> (\<exists>a. ip4_parts i parts ip = Address a \<and> length a = length ip)"
  by (induction i parts ip rule: ip4_parts.induct) (auto split: option.split)

lemma convertIP_defined: "\<exists>v ip. convertIPStringToChar host = Some (v, ip) \<and> length ip = 16 \<and> (v = 0 \<or> v = 4 \<or> v = 6)"
proof -
  let ?six = "str_split False (CHR '':'') (str_replace ''::'' '':#:'' (strip_brackets host))"
  let ?four = "str_split False (CHR ''.'') host"
  have "8 < length ?six \<or> ip6_parts (length ?six) 0 0 ?six (replicate 16 0) = Rejected
     \<or> (\<exists>a. ip6_parts (length ?six) 0 0 ?six (replicate 16 0) = Address a \<and> length a = 16)"
    using ip6_parts_in_bounds [of 0 ?six "length ?six" 0 "replicate 16 0"] by auto
  moreover have "length ?four \<noteq> 4 \<or> ip4_parts 0 ?four (replicate 16 0) = Rejected
     \<or> (\<exists>a. ip4_parts 0 ?four (replicate 16 0) = Address a \<and> length a = 16)"
    using ip4_parts_in_bounds [of 0 ?four "replicate 16 0"] by auto
  ultimately show ?thesis unfolding convertIPStringToChar_def Let_def by auto
qed

text \<open>
  Whatever the host string, \<open>convertIPStringToChar\<close> writes only inside the 16 bytes of its
  result, also for IPv6 groups placed after a double colon, and the version is 0, 4 or 6.
\<close>

theorem convertIP_in_bounds:
  "\<exists>v ip. convertIPStringToChar host = Some (v, ip) \<and> length ip = 16 \<and> v \<in> {0, 4, 6}"
  using convertIP_defined [of host] by auto

section \<open>Matching\<close>

text \<open>What a filter stands for.\<close>

definition filter_matches :: "Filter \<Rightarrow> string \<Rightarrow> string \<Rightarrow> bool" where
  "filter_matches f host lowerHost \<longleftrightarrow>
     (case m_type f of
        Domain \<Rightarrow> length (m_filter f) < length lowerHost \<and> endsWith lowerHost (m_filter f)
      | FQDN \<Rightarrow> m_filter f = lowerHost
      | IPAddress \<Rightarrow> m_filter f = lowerHost
      | _ \<Rightarrow> (\<exists>v ip. convertIPStringToChar host = Some (v, ip) \<and> v \<noteq> 0 \<and> mask_matches ip (m_maskd f)))"

lemma str_right_eq: "length p \<le> length s \<Longrightarrow> p = str_right s (length p) \<longleftrightarrow> endsWith s p"
  by (auto simp: str_right_def substring_def endsWith_def)

lemma match_filters_spec: "match_filters host lowerHost fs = Some (\<exists>f \<in> set fs. filter_matches f host lowerHost)"
proof (induction fs)
  case (Cons f fs)
  obtain v ip where c: "convertIPStringToChar host = Some (v, ip)" using convertIP_defined by blast
  show ?case
    using Cons.IH str_right_eq [of "m_filter f" lowerHost]
    by (cases "m_type f") (auto simp: filter_matches_def c not_le)
qed simp

definition lower_host :: "string \<Rightarrow> string" where
  "lower_host host = (if startsWith host ''['' \<and> endsWith host '']''
     then substring host 1 (length host - 2) else str_lower host)"

lemma isMatch_spec: "isMatchProxyFilter fs host =
    Some (host = ''127.0.0.1'' \<or> host = ''localhost'' \<or> (\<exists>f \<in> set fs. filter_matches f host (lower_host host)))"
  by (simp add: isMatchProxyFilter_def match_filters_spec lower_host_def Let_def)

section \<open>The filter list\<close>

lemma distinct_append_filter: "distinct fs \<Longrightarrow> distinct (append_filter fs f)"
  by (simp add: append_filter_def)

lemma set_append_filter [simp]: "set (append_filter fs f) = insert f (set fs)"
  by (auto simp: append_filter_def)

lemmas setters = setDomain_def setFQDN_def setIPAddress_def setIPNetwork_def

lemma setters_distinct:
  assumes "distinct fs"
  shows "setDomain fs s = Some (b, fs') \<Longrightarrow> distinct fs'" "setFQDN fs s = Some (b, fs') \<Longrightarrow> distinct fs'"
    "setIPAddress fs s = Some (b, fs') \<Longrightarrow> distinct fs'" "setIPNetwork fs s = Some (b, fs') \<Longrightarrow> distinct fs'"
  using assms by (auto simp: setters Let_def distinct_append_filter split: if_splits list.splits option.splits)

lemma set_filter_distinct: "distinct fs \<Longrightarrow> set_filter fs s = Some fs' \<Longrightarrow> distinct fs'"
  unfolding set_filter_def Let_def
  by (auto split: if_splits option.splits prod.splits) (metis setters_distinct)+

lemma set_filters_distinct: "distinct fs \<Longrightarrow> set_filters fs ps = Some fs' \<Longrightarrow> distinct fs'"
  by (induction fs ps rule: set_filters.induct) (auto split: option.splits dest: set_filter_distinct)

lemma length_utf8_append: "length (Latin1_utf8 (s @ t)) = length (Latin1_utf8 s) + length (Latin1_utf8 t)"
  by (induction s) auto

lemma c_buffer_defined: "length (Latin1_utf8 s) < 510 \<Longrightarrow> c_buffer s = Some (takeWhile (\<lambda>x. x \<noteq> NUL) (Latin1_utf8 s))"
  using length_takeWhile_le [of "\<lambda>x. x \<noteq> NUL" "Latin1_utf8 s"] by (simp add: c_buffer_def Let_def)

lemma utf8_dropWhile: "length (Latin1_utf8 (dropWhile P s)) \<le> length (Latin1_utf8 s)"
  using length_utf8_append [of "takeWhile P s" "dropWhile P s"] by simp

lemma utf8_rev: "length (Latin1_utf8 (rev s)) = length (Latin1_utf8 s)"
  by (induction s) (simp_all add: length_utf8_append)

lemma utf8_stripWhiteSpace: "length (Latin1_utf8 (stripWhiteSpace s)) \<le> length (Latin1_utf8 s)"
  unfolding stripWhiteSpace_def utf8_rev by (rule order_trans [OF utf8_dropWhile]) (simp add: utf8_rev utf8_dropWhile)

lemma utf8_tl: "length (Latin1_utf8 (tl s)) \<le> length (Latin1_utf8 s)"
  by (cases s) auto

section \<open>What the entries of the setting stand for\<close>

text \<open>
  A name stands for itself and the names below it, an address for itself, and a network for the hosts whose address has all the bits
  that are set in the network's. A name is compared in the bytes of its UTF-8 form, up to the first NUL.
\<close>

definition name_covers :: "string \<Rightarrow> string \<Rightarrow> bool" where
  "name_covers name host \<longleftrightarrow> host = name \<or> (\<exists>sub. sub \<noteq> [] \<and> host = sub @ CHR ''.'' # name)"

definition name_text :: "string \<Rightarrow> string" where
  "name_text s = takeWhile (\<lambda>x. x \<noteq> NUL) (Latin1_utf8 s)"

definition is_address :: "string \<Rightarrow> bool" where
  "is_address s \<longleftrightarrow> (\<exists>v ip. convertIPStringToChar s = Some (v, ip) \<and> v \<noteq> 0)"

definition is_network :: "string \<Rightarrow> byte list \<Rightarrow> bool" where
  "is_network s msk \<longleftrightarrow> (\<exists>net len v ip m. str_split False (CHR ''/'') s = [net, len] \<and> convertIPStringToChar net = Some (v, ip)
     \<and> toInt len = Some m \<and> (v = 4 \<and> 8 \<le> m \<and> m \<le> 32 \<or> v = 6 \<and> (m = 48 \<or> m = 64)) \<and> msk = mask_bytes m ip)"

definition network_covers :: "byte list \<Rightarrow> string \<Rightarrow> bool" where
  "network_covers msk host \<longleftrightarrow> (\<exists>v ip. convertIPStringToChar host = Some (v, ip) \<and> v \<noteq> 0 \<and> mask_matches ip msk)"

definition entry_covers :: "string \<Rightarrow> string \<Rightarrow> bool" where
  \<comment> \<open>an entry with a space inside, or of none of the four forms, stands for nothing\<close>
  "entry_covers entry host \<longleftrightarrow>
     (let s = stripWhiteSpace entry in
      CHR '' '' \<notin> set s
      \<and> (if startsWith s ''.'' \<and> \<not> hasProhibitCharactor s then name_covers (name_text (tl s)) (lower_host host)
         else if CHR ''/'' \<in> set s then (\<exists>msk. is_network s msk \<and> network_covers msk host)
         else if is_address s then lower_host host = strip_brackets s
         else CHR ''.'' \<in> set s \<and> \<not> hasProhibitCharactor s \<and> name_covers (name_text s) (lower_host host)))"

lemma dot_name:
  "length (CHR ''.'' # name) < length h \<and> endsWith h (CHR ''.'' # name) \<longleftrightarrow> (\<exists>sub. sub \<noteq> [] \<and> h = sub @ CHR ''.'' # name)"
proof
  assume "length (CHR ''.'' # name) < length h \<and> endsWith h (CHR ''.'' # name)"
  then have "h = take (length h - length (CHR ''.'' # name)) h @ CHR ''.'' # name" "take (length h - length (CHR ''.'' # name)) h \<noteq> []"
    by (auto simp: endsWith_def) (metis append_take_drop_id)
  then show "\<exists>sub. sub \<noteq> [] \<and> h = sub @ CHR ''.'' # name" by blast
qed (auto simp: endsWith_def)

lemma new_filter_matches:
  "filter_matches (Filter_new FQDN name None) host h \<or> filter_matches (Filter_new ProxyFilterType.Domain (CHR ''.'' # name) None) host h
     \<longleftrightarrow> name_covers name h"
  "filter_matches (Filter_new IPAddress s None) host h \<longleftrightarrow> h = s"
  "filter_matches (Filter_new IPMask s (Some msk)) host h \<longleftrightarrow> network_covers msk host"
  using dot_name [of name h] by (auto simp: filter_matches_def Filter_new_def name_covers_def network_covers_def)

abbreviation covered :: "Filter list \<Rightarrow> string \<Rightarrow> bool" where
  "covered fs host \<equiv> \<exists>f \<in> set fs. filter_matches f host (lower_host host)"

lemma covered_append: "covered (append_filter fs f) host \<longleftrightarrow> covered fs host \<or> filter_matches f host (lower_host host)"
  by auto

lemma right_tl: "startsWith s ''.'' \<Longrightarrow> str_right s (length s - 1) = tl s"
  by (cases s) (auto simp: startsWith_def str_right_def substring_def)

lemma setDomain_spec:
  assumes "length (Latin1_utf8 s) < 510"
  shows "\<exists>fs'. setDomain fs s = Some (startsWith s ''.'' \<and> \<not> hasProhibitCharactor s, fs')
    \<and> (\<forall>host. covered fs' host \<longleftrightarrow> covered fs host \<or> startsWith s ''.'' \<and> \<not> hasProhibitCharactor s \<and> name_covers (name_text (tl s)) (lower_host host))"
proof (cases "startsWith s ''.'' \<and> \<not> hasProhibitCharactor s")
  case True
  have "c_buffer (tl s) = Some (name_text (tl s))"
    using c_buffer_defined [of "tl s"] utf8_tl [of s] assms by (simp add: name_text_def)
  then show ?thesis
    using True right_tl [of s] new_filter_matches(1) unfolding setDomain_def Let_def by (auto simp: covered_append simp del: set_append_filter)
qed (auto simp: setDomain_def)

lemma setFQDN_spec:
  assumes "length (Latin1_utf8 s) < 510"
  shows "\<exists>b fs'. setFQDN fs s = Some (b, fs')
    \<and> (\<forall>host. covered fs' host \<longleftrightarrow> covered fs host
         \<or> CHR ''.'' \<in> set s \<and> \<not> hasProhibitCharactor s \<and> name_covers (name_text s) (lower_host host))"
proof (cases "CHR ''.'' \<in> set s \<and> \<not> hasProhibitCharactor s")
  case True
  have "c_buffer s = Some (name_text s)" using c_buffer_defined [OF assms] by (simp add: name_text_def)
  then show ?thesis
    using True new_filter_matches(1) unfolding setFQDN_def Let_def str_contains_def by (auto simp: covered_append simp del: set_append_filter)
qed (auto simp: setFQDN_def str_contains_def)

lemma setIPAddress_spec:
  "\<exists>fs'. setIPAddress fs s = Some (CHR ''/'' \<notin> set s \<and> is_address s, fs')
    \<and> (\<forall>host. covered fs' host \<longleftrightarrow> covered fs host \<or> CHR ''/'' \<notin> set s \<and> is_address s \<and> lower_host host = strip_brackets s)"
proof -
  obtain v ip where c: "convertIPStringToChar s = Some (v, ip)" "v = 0 \<or> v = 4 \<or> v = 6" using convertIP_defined by blast
  then have "is_address s \<longleftrightarrow> v = 4 \<or> v = 6" by (auto simp: is_address_def)
  then show ?thesis
    using c new_filter_matches(2) by (auto simp: setIPAddress_def str_contains_def covered_append simp del: set_append_filter)
qed

lemma setIPNetwork_spec:
  "\<exists>b fs'. setIPNetwork fs s = Some (b, fs') \<and> b = (CHR ''/'' \<in> set s \<and> (\<exists>msk. is_network s msk))
    \<and> (\<forall>host. covered fs' host \<longleftrightarrow> covered fs host \<or> CHR ''/'' \<in> set s \<and> (\<exists>msk. is_network s msk \<and> network_covers msk host))"
proof (cases "CHR ''/'' \<in> set s \<and> (\<exists>net len. str_split False (CHR ''/'') s = [net, len])")
  case False
  then have "setIPNetwork fs s = Some (False, fs)" by (auto simp: setIPNetwork_def str_contains_def split: list.split)
  then show ?thesis using False by (auto simp: is_network_def)
next
  case True
  then obtain net len where s: "str_split False (CHR ''/'') s = [net, len]" by blast
  obtain v ip where c: "convertIPStringToChar net = Some (v, ip)" "v = 0 \<or> v = 4 \<or> v = 6" using convertIP_defined by blast
  have net: "is_network s msk \<longleftrightarrow> (\<exists>m. toInt len = Some m \<and> (v = 4 \<and> 8 \<le> m \<and> m \<le> 32 \<or> v = 6 \<and> (m = 48 \<or> m = 64)) \<and> msk = mask_bytes m ip)" for msk
    using s c(1) by (simp add: is_network_def)
  show ?thesis
  proof (cases "\<exists>m. toInt len = Some m \<and> (v = 4 \<and> 8 \<le> m \<and> m \<le> 32 \<or> v = 6 \<and> (m = 48 \<or> m = 64))")
    case True
    then obtain m where m: "toInt len = Some m" "v = 4 \<and> 8 \<le> m \<and> m \<le> 32 \<or> v = 6 \<and> (m = 48 \<or> m = 64)" by blast
    have "setIPNetwork fs s = Some (True, append_filter fs (Filter_new IPMask [] (Some (mask_bytes m ip))))"
      using \<open>CHR ''/'' \<in> set s \<and> _\<close> s c(1) m by (auto simp: setIPNetwork_def str_contains_def)
    moreover have "is_network s msk \<longleftrightarrow> msk = mask_bytes m ip" for msk using net m by auto
    ultimately show ?thesis using \<open>CHR ''/'' \<in> set s \<and> _\<close> new_filter_matches(3) by (auto simp: covered_append simp del: set_append_filter)
  next
    case False
    have "setIPNetwork fs s = Some (False, fs)"
      using \<open>CHR ''/'' \<in> set s \<and> _\<close> False s c by (auto simp: setIPNetwork_def str_contains_def split: option.split)
    then show ?thesis using False net by auto
  qed
qed

lemma slash_prohibited: "CHR ''/'' \<in> set s \<Longrightarrow> hasProhibitCharactor s"
proof -
  have pieces: "sep \<noteq> c \<Longrightarrow> c \<in> set cur \<or> c \<in> set s \<Longrightarrow> \<exists>p \<in> set (split_pieces sep cur s). c \<in> set p" for sep c cur s
    by (induction sep cur s rule: split_pieces.induct) auto
  assume "CHR ''/'' \<in> set s"
  then obtain p where "p \<in> set (split_pieces (CHR ''.'') [] s)" "CHR ''/'' \<in> set p" using pieces [of "CHR ''.''" "CHR ''/''" "[]" s] by auto
  then have "p \<in> set (str_split False (CHR ''.'') s)" "list_ex prohibited p"
    by (auto simp: str_split_def list_ex_iff prohibited_def intro!: bexI [of _ "CHR ''/''"])
  then show ?thesis by (auto simp: hasProhibitCharactor_def Let_def list_ex_iff)
qed

lemma set_filter_spec:
  assumes "length (Latin1_utf8 entry) < 510"
  shows "\<exists>fs'. set_filter fs entry = Some fs' \<and> (\<forall>host. covered fs' host \<longleftrightarrow> covered fs host \<or> entry_covers entry host)"
proof -
  let ?s = "stripWhiteSpace entry"
  have l: "length (Latin1_utf8 ?s) < 510" using utf8_stripWhiteSpace [of entry] assms by simp
  obtain f1 where f1: "setDomain fs ?s = Some (startsWith ?s ''.'' \<and> \<not> hasProhibitCharactor ?s, f1)"
    "\<And>host. covered f1 host \<longleftrightarrow> covered fs host \<or> startsWith ?s ''.'' \<and> \<not> hasProhibitCharactor ?s \<and> name_covers (name_text (tl ?s)) (lower_host host)"
    using setDomain_spec [OF l] by blast
  obtain f2 where f2: "setIPAddress f1 ?s = Some (CHR ''/'' \<notin> set ?s \<and> is_address ?s, f2)"
    "\<And>host. covered f2 host \<longleftrightarrow> covered f1 host \<or> CHR ''/'' \<notin> set ?s \<and> is_address ?s \<and> lower_host host = strip_brackets ?s"
    using setIPAddress_spec by blast
  obtain f3 where f3: "setIPNetwork f2 ?s = Some (CHR ''/'' \<in> set ?s \<and> (\<exists>msk. is_network ?s msk), f3)"
    "\<And>host. covered f3 host \<longleftrightarrow> covered f2 host \<or> CHR ''/'' \<in> set ?s \<and> (\<exists>msk. is_network ?s msk \<and> network_covers msk host)"
    using setIPNetwork_spec by blast
  obtain b f4 where f4: "setFQDN f3 ?s = Some (b, f4)"
    "\<And>host. covered f4 host \<longleftrightarrow> covered f3 host \<or> CHR ''.'' \<in> set ?s \<and> \<not> hasProhibitCharactor ?s \<and> name_covers (name_text ?s) (lower_host host)"
    using setFQDN_spec [OF l] by blast
  consider "CHR '' '' \<in> set ?s" | "CHR '' '' \<notin> set ?s" "startsWith ?s ''.''" "\<not> hasProhibitCharactor ?s"
    | "CHR '' '' \<notin> set ?s" "\<not> (startsWith ?s ''.'' \<and> \<not> hasProhibitCharactor ?s)" "CHR ''/'' \<in> set ?s"
    | "CHR '' '' \<notin> set ?s" "\<not> (startsWith ?s ''.'' \<and> \<not> hasProhibitCharactor ?s)" "CHR ''/'' \<notin> set ?s" by blast
  then show ?thesis
  proof cases
    case 1
    then show ?thesis by (simp add: set_filter_def str_contains_def entry_covers_def Let_def)
  next
    case 2
    then have "set_filter fs entry = Some f1" using f1(1) by (simp add: set_filter_def str_contains_def Let_def)
    then show ?thesis using 2 f1(2) by (simp add: entry_covers_def Let_def)
  next
    case 3
    have sl: "hasProhibitCharactor ?s" using slash_prohibited 3(3) by blast
    have "set_filter fs entry = Some (if \<exists>msk. is_network ?s msk then f3 else f4)"
      using 3 sl f1(1) f2(1) f3(1) f4(1) by (auto simp: set_filter_def str_contains_def Let_def)
    then show ?thesis using 3 sl f1(2) f2(2) f3(2) f4(2) by (simp add: entry_covers_def Let_def)
  next
    case 4
    have "set_filter fs entry = Some (if is_address ?s then f2 else f4)"
      using 4 f1(1) f2(1) f3(1) f4(1) unfolding set_filter_def str_contains_def Let_def by auto
    then show ?thesis using 4 f1(2) f2(2) f3(2) f4(2) unfolding entry_covers_def Let_def by auto
  qed
qed

lemma set_filters_spec:
  "\<forall>entry \<in> set es. length (Latin1_utf8 entry) < 510 \<Longrightarrow>
   \<exists>fs'. set_filters fs es = Some fs' \<and> (\<forall>host. covered fs' host \<longleftrightarrow> covered fs host \<or> (\<exists>entry \<in> set es. entry_covers entry host))"
proof (induction es arbitrary: fs)
  case (Cons e es)
  from set_filter_spec [of e fs] Cons.prems obtain f1 where
    f1: "set_filter fs e = Some f1" "\<And>host. covered f1 host \<longleftrightarrow> covered fs host \<or> entry_covers e host" by auto
  from Cons.IH [of f1] Cons.prems obtain f2 where
    f2: "set_filters f1 es = Some f2" "\<And>host. covered f2 host \<longleftrightarrow> covered f1 host \<or> (\<exists>entry \<in> set es. entry_covers entry host)" by auto
  show ?case using f1 f2 by auto
qed simp

text \<open>
  C29: the proxy is avoided for the hosts of the setting and no others. When the UTF-8 form of each comma-separated entry is shorter
  than 510 bytes, the setting is parsed without using an unterminated buffer, the filters are all different, and
  \<open>isMatchProxyFilter\<close> returns true for the two names of the local host and for the hosts that one of the entries stands for: by its
  name or a name below it, its address, or its network; and false for all others. As \<open>str_lower\<close> does, this leaves letters beyond
  ASCII as they are.
\<close>

theorem proxy_filters_decide:
  assumes "\<forall>entry \<in> set (str_split False (CHR '','') (str_lower setting)). length (Latin1_utf8 entry) < 510"
  shows "\<exists>fs. setProxyFilters (Some setting) = Some fs \<and> distinct fs
    \<and> (\<forall>host. isMatchProxyFilter fs host = Some (host = ''127.0.0.1'' \<or> host = ''localhost''
         \<or> (\<exists>entry \<in> set (str_split False (CHR '','') (str_lower setting)). entry_covers entry host)))"
proof -
  obtain fs where fs: "set_filters [] (str_split False (CHR '','') (str_lower setting)) = Some fs"
    "\<And>host. covered fs host \<longleftrightarrow> (\<exists>entry \<in> set (str_split False (CHR '','') (str_lower setting)). entry_covers entry host)"
    using set_filters_spec [OF assms, of "[]"] by auto
  have "distinct fs" using set_filters_distinct [OF _ fs(1)] by simp
  then show ?thesis using fs isMatch_spec by (simp add: setProxyFilters_def)
qed

theorem proxy_filters_decide_witness:
  "\<exists>fs. setProxyFilters (Some ''Example.com, 10.0.0.0/8'') = Some fs \<and> distinct fs
     \<and> isMatchProxyFilter fs ''www.example.com'' = Some True \<and> isMatchProxyFilter fs ''example.org'' = Some False"
proof -
  have "\<forall>entry \<in> set (str_split False (CHR '','') (str_lower ''Example.com, 10.0.0.0/8'')). length (Latin1_utf8 entry) < 510"
    by code_simp
  from proxy_filters_decide [OF this]
  obtain fs where fs: "setProxyFilters (Some ''Example.com, 10.0.0.0/8'') = Some fs" "distinct fs" by blast
  have "isMatchProxyFilter (the (setProxyFilters (Some ''Example.com, 10.0.0.0/8''))) ''www.example.com'' = Some True"
    "isMatchProxyFilter (the (setProxyFilters (Some ''Example.com, 10.0.0.0/8''))) ''example.org'' = Some False"
    by code_simp+
  with fs show ?thesis by simp
qed

section \<open>Networks and names\<close>

lemma mask_matches_same:
  "length a = length b \<Longrightarrow> mask_bytes m a = mask_bytes m b \<Longrightarrow> mask_matches a (mask_bytes m b)"
proof (induction a b arbitrary: m rule: list_induct2)
  case (Cons x xs y ys)
  have and1: "x AND y AND k = y AND k" if "x AND k = y AND k" for k :: byte
    using that by (metis and.assoc and.commute and.idem)
  show ?case
    using Cons and1 by (auto simp: mask_matches_def Let_def split: if_splits)
qed (simp add: mask_matches_def)

lemma split_two:
  assumes "CHR ''/'' \<notin> set net" "CHR ''/'' \<notin> set len" "net \<noteq> []" "len \<noteq> []"
  shows "str_split False (CHR ''/'') (net @ CHR ''/'' # len) = [net, len]"
proof -
  have one: "split_pieces sep cur s = [rev cur @ s]" if "sep \<notin> set s" for sep cur s
    using that by (induction sep cur s rule: split_pieces.induct) auto
  have "split_pieces sep cur (s @ sep # t) = (rev cur @ s) # split_pieces sep [] t" if "sep \<notin> set s" for sep cur s t
    using that by (induction s arbitrary: cur) auto
  then show ?thesis using assms one by (simp add: str_split_def)
qed

text \<open>
  A network entry \<open>address/length\<close> with a length the code accepts becomes a filter that
  matches every host in the network: every address that agrees with the entry's on its first
  \<open>length\<close> bits.
\<close>

theorem proxy_network_covers:
  assumes "convertIPStringToChar net = Some (v, ip)" "v = 4 \<and> 8 \<le> m \<and> m \<le> 32 \<or> v = 6 \<and> (m = 48 \<or> m = 64)"
    and "toInt len = Some m" "CHR ''/'' \<notin> set net" "CHR ''/'' \<notin> set len" "net \<noteq> []" "len \<noteq> []"
  shows "\<exists>fs. setIPNetwork [] (net @ CHR ''/'' # len) = Some (True, fs)
    \<and> (\<forall>host w hip. convertIPStringToChar host = Some (w, hip) \<and> w \<noteq> 0 \<and> mask_bytes m hip = mask_bytes m ip
         \<longrightarrow> isMatchProxyFilter fs host = Some True)"
proof -
  let ?f = "Filter_new IPMask [] (Some (mask_bytes m ip))"
  have "setIPNetwork [] (net @ CHR ''/'' # len) = Some (True, [?f])"
    using assms(1-3) split_two [OF assms(4-7)]
    by (auto simp: setIPNetwork_def str_contains_def append_filter_def)
  moreover have "isMatchProxyFilter [?f] host = Some True"
    if h: "convertIPStringToChar host = Some (w, hip)" "w \<noteq> 0" "mask_bytes m hip = mask_bytes m ip" for host w hip
  proof -
    have "length hip = length ip" using convertIP_defined [of host] convertIP_defined [of net] h(1) assms(1) by auto
    then have "mask_matches hip (mask_bytes m ip)" by (rule mask_matches_same [OF _ h(3)])
    then show ?thesis using h(1,2) by (simp add: isMatch_spec filter_matches_def Filter_new_def)
  qed
  ultimately show ?thesis by blast
qed

theorem proxy_network_covers_witness:
  "\<exists>fs. setIPNetwork [] ''192.168.0.0/16'' = Some (True, fs) \<and> isMatchProxyFilter fs ''192.168.7.9'' = Some True"
proof -
  have a: "convertIPStringToChar ''192.168.0.0'' = Some (4, [192, 168, 0, 0, 0, 0, 0, 0, 0, 0, 0, 0, 0, 0, 0, 0])"
    "convertIPStringToChar ''192.168.7.9'' = Some (4, [192, 168, 7, 9, 0, 0, 0, 0, 0, 0, 0, 0, 0, 0, 0, 0])"
    "toInt ''16'' = Some 16" by code_simp+
  have m: "mask_bytes 16 [192, 168, 7, 9, 0, 0, 0, 0, 0, 0, 0, 0, 0, 0, 0, 0]
      = mask_bytes 16 [192, 168, 0, 0, 0, 0, 0, 0, 0, 0, 0, 0, 0, 0, 0, 0]" by code_simp
  have "(4::nat) = 4 \<and> (8::int) \<le> 16 \<and> (16::int) \<le> 32 \<or> (4::nat) = 6 \<and> ((16::int) = 48 \<or> (16::int) = 64)"
    "CHR ''/'' \<notin> set ''192.168.0.0''" "CHR ''/'' \<notin> set ''16''" "''192.168.0.0'' \<noteq> []" "''16'' \<noteq> []" by simp_all
  from proxy_network_covers [OF a(1) this(1) a(3) this(2-)]
  obtain fs where fs: "setIPNetwork [] (''192.168.0.0'' @ CHR ''/'' # ''16'') = Some (True, fs)"
    "\<forall>host w hip. convertIPStringToChar host = Some (w, hip) \<and> w \<noteq> 0 \<and>
       mask_bytes 16 hip = mask_bytes 16 [192, 168, 0, 0, 0, 0, 0, 0, 0, 0, 0, 0, 0, 0, 0, 0]
         \<longrightarrow> isMatchProxyFilter fs host = Some True" by blast
  have "isMatchProxyFilter fs ''192.168.7.9'' = Some True" using fs(2) a(2) m by (metis zero_neq_numeral)
  then show ?thesis using fs(1) by (intro exI [of _ fs] conjI) simp_all
qed

text \<open>
  It also matches hosts outside the network: \<open>(ip & maskd) != maskd\<close> compares with the network
  address where the netmask is meant, so that 10.0.0.0/8 sends 15.1.2.3 past the proxy.
\<close>

theorem proxy_network_overmatches:
  "isMatchProxyFilter (the (setProxyFilters (Some ''10.0.0.0/8''))) ''15.1.2.3'' = Some True"
  by code_simp

text \<open>
  An entry written with the trailing dot of a fully qualified name matches none of the hosts
  the same entry without the dot matches, because the shortened string is discarded.
\<close>

theorem proxy_trailing_dot_never_matches:
  "isMatchProxyFilter (the (setProxyFilters (Some ''example.com.''))) ''example.com'' = Some False
   \<and> isMatchProxyFilter (the (setProxyFilters (Some ''example.com''))) ''example.com'' = Some True"
  by code_simp

end
