(* ===== verification/AuthJar.thy ===== *)
theory AuthJar
  imports URLResolve
begin

text \<open>
  The jar of user names and passwords (\<open>AuthenticationJarWKC.cpp\<close>): one list for web servers, one for
  proxies. An entry is found by host and path; the entry whose path is the longest part of the
  requested one answers for it. Until the server has accepted it, the password of an entry is a
  temporary one.

  A call has the value None where the URL parser reads outside its buffers.
\<close>

section \<open>State\<close>

datatype ProtectionSpaceServerType =
  ProtectionSpaceServerHTTP | ProtectionSpaceServerHTTPS | ProtectionSpaceServerFTP | ProtectionSpaceServerFTPS
| ProtectionSpaceProxyHTTP | ProtectionSpaceProxyHTTPS | ProtectionSpaceProxyFTP | ProtectionSpaceProxySOCKS

fun serverType_num :: "ProtectionSpaceServerType \<Rightarrow> int" where
  "serverType_num ProtectionSpaceServerHTTP = 1"
| "serverType_num ProtectionSpaceServerHTTPS = 2"
| "serverType_num ProtectionSpaceServerFTP = 3"
| "serverType_num ProtectionSpaceServerFTPS = 4"
| "serverType_num ProtectionSpaceProxyHTTP = 5"
| "serverType_num ProtectionSpaceProxyHTTPS = 6"
| "serverType_num ProtectionSpaceProxyFTP = 7"
| "serverType_num ProtectionSpaceProxySOCKS = 8"

datatype ProtectionSpaceAuthenticationScheme =
  SchemeDefault | SchemeHTTPBasic | SchemeHTTPDigest | SchemeHTMLForm | SchemeNTLM | SchemeNegotiate
| SchemeClientCertificateRequested | SchemeServerTrustEvaluationRequested | SchemeUnknown

record auth_info =
  m_serverType :: ProtectionSpaceServerType
  m_authScheme :: ProtectionSpaceAuthenticationScheme
  m_host :: string
  m_port :: int
  m_basePath :: string
  m_fullPath :: string
  m_realm :: string
  m_confirmed :: bool
  m_user :: string
  m_passwd :: string
  m_tmpUser :: string
  m_tmpPasswd :: string

definition AuthInfo_new :: auth_info where
  "AuthInfo_new =
     \<lparr>m_serverType = ProtectionSpaceServerHTTP, m_authScheme = SchemeDefault, m_host = [], m_port = 0,
      m_basePath = [], m_fullPath = [], m_realm = [], m_confirmed = False, m_user = [], m_passwd = [],
      m_tmpUser = [], m_tmpPasswd = []\<rparr>"

record auth_jar =
  m_WebAuthInfoList :: "auth_info list"
  m_ProxyAuthInfoList :: "auth_info list"

definition AuthenticationJar_new :: auth_jar where
  "AuthenticationJar_new = \<lparr>m_WebAuthInfoList = [], m_ProxyAuthInfoList = []\<rparr>"

section \<open>The parts of a URL\<close>

definition sanitizeURL :: "kurl \<Rightarrow> (kurl \<times> int) option" where
  \<comment> \<open>the URL without credentials, query, fragment and port, and the port\<close>
  "sanitizeURL k0 =
     Option.bind (setUser [] k0) (\<lambda>k1. Option.bind (setPass [] k1) (\<lambda>k2. Option.bind (setQuery (Some []) k2) (\<lambda>k3.
     Option.bind (removeFragmentIdentifier k3) (\<lambda>k.
       let port = (if KURL_port k \<noteq> 0 then KURL_port k else if KURL_protocolIs k ''http'' then 80 else 443)
       in map_option (\<lambda>k'. (k', port)) (removePort k)))))"

definition basePath :: "string \<Rightarrow> string" where
  \<comment> \<open>\<open>notFound + 1\<close> is 0\<close>
  "basePath path = (case str_reverseFind path (CHR ''/'') of None \<Rightarrow> [] | Some i \<Rightarrow> str_left path (i + 1))"

record auth_url =
  au_kurl :: kurl
  url_host :: string
  url_port :: int
  url_full_path :: string
  url_base_path :: string

definition auth_url_of :: "string \<Rightarrow> auth_url option" where
  "auth_url_of url =
     Option.bind (KURL_parse url) (\<lambda>k. map_option (\<lambda>(k', port).
       let path = (if KURL_hasPath k' then KURL_path k' else ''/'')
       in \<lparr>au_kurl = k', url_host = KURL_host k', url_port = port,
           url_full_path = (if endsWith path ''/'' then path else path @ ''/''), url_base_path = basePath path\<rparr>)
     (sanitizeURL k))"

section \<open>Web servers\<close>

definition longer :: "(nat \<times> auth_info) option \<Rightarrow> nat \<times> auth_info \<Rightarrow> bool \<Rightarrow> (nat \<times> auth_info) option" where
  "longer current newinfo compFull =
     (case current of
        None \<Rightarrow> Some newinfo
      | Some cur \<Rightarrow>
          if compFull then (if length (m_fullPath (snd cur)) < length (m_fullPath (snd newinfo)) then Some newinfo else current)
          else (if length (m_basePath (snd cur)) < length (m_basePath (snd newinfo)) then Some newinfo else current))"

text \<open>
  The loop of \<open>getWebUserPassword\<close>: the entry with this very path, if it is met, and the entries with the
  longest full path and base path so far, each with its position.
\<close>

fun search_web :: "string \<Rightarrow> string \<Rightarrow> string \<Rightarrow> nat \<Rightarrow> (nat \<times> auth_info) option \<Rightarrow> (nat \<times> auth_info) option
    \<Rightarrow> auth_info list \<Rightarrow> auth_info option \<times> (nat \<times> auth_info) option \<times> (nat \<times> auth_info) option" where
  "search_web host realm full i fl bl [] = (None, fl, bl)"
| "search_web host realm full i fl bl (info # rest) =
     (if m_host info \<noteq> host then search_web host realm full (Suc i) fl bl rest
      else if realm \<noteq> [] \<and> m_realm info \<noteq> realm then search_web host realm full (Suc i) fl bl rest
      else if full = m_fullPath info then (Some info, fl, bl)
      else if startsWith full (m_fullPath info)
      then search_web host realm full (Suc i) (longer fl (i, info) True) bl rest
      else if startsWith full (m_basePath info)
      then search_web host realm full (Suc i) fl (longer bl (i, info) False) rest
      else search_web host realm full (Suc i) fl bl rest)"

type_synonym answer = "ProtectionSpaceServerType \<times> ProtectionSpaceAuthenticationScheme \<times> string \<times> string"

definition credentials :: "bool \<Rightarrow> auth_info \<Rightarrow> answer" where
  "credentials confirmed info =
     (m_serverType info, m_authScheme info,
      if confirmed then m_user info else m_tmpUser info, if confirmed then m_passwd info else m_tmpPasswd info)"

text \<open>
  After the loop \<open>info\<close> is the last entry of the list, and it is its \<open>m_confirmed\<close> that chooses between the
  passwords of the entry found.
\<close>

definition getWebUserPassword :: "string \<Rightarrow> string \<Rightarrow> auth_jar \<Rightarrow> (answer option \<times> auth_jar) option" where
  "getWebUserPassword url realm jar =
     (let xs = m_WebAuthInfoList jar in
      if xs = [] then Some (None, jar)
      else map_option (\<lambda>au.
        case search_web (url_host au) realm (url_full_path au) 0 None None xs of
          (Some info, _, _) \<Rightarrow> (Some (credentials (m_confirmed info) info), jar)
        | (None, Some (i, longest), _) \<Rightarrow>
            (Some (credentials (m_confirmed (last xs)) longest),
             if m_fullPath longest \<noteq> m_basePath longest
             then jar\<lparr>m_WebAuthInfoList := xs[i := longest\<lparr>m_basePath := m_fullPath longest\<rparr>]\<rparr> else jar)
        | (None, None, Some (i, longest)) \<Rightarrow> (Some (credentials (m_confirmed (last xs)) longest), jar)
        | (None, None, None) \<Rightarrow> (None, jar)) (auth_url_of url))"

fun update_first :: "('a \<Rightarrow> bool) \<Rightarrow> ('a \<Rightarrow> 'a) \<Rightarrow> 'a list \<Rightarrow> 'a list option" where
  "update_first P f [] = None"
| "update_first P f (x # xs) = (if P x then Some (f x # xs) else map_option (Cons x) (update_first P f xs))"

definition set_credentials :: "bool \<Rightarrow> string \<Rightarrow> string \<Rightarrow> auth_info \<Rightarrow> auth_info" where
  "set_credentials confirmed user passwd info =
     (if confirmed then info\<lparr>m_user := user, m_passwd := passwd, m_confirmed := True, m_tmpUser := [], m_tmpPasswd := []\<rparr>
      else info\<lparr>m_confirmed := False, m_tmpUser := user, m_tmpPasswd := passwd\<rparr>)"

definition folder_confirmed :: "(string \<Rightarrow> string) \<Rightarrow> auth_url \<Rightarrow> string \<Rightarrow> bool option" where
  \<comment> \<open>\<open>FullBaseSame\<close>: the redirection shows that the path is a folder\<close>
  "folder_confirmed encode au location =
     (if location = [] then Some False
      else Option.bind (KURL_init encode (au_kurl au) location) (\<lambda>k.
        map_option (\<lambda>(k', _). startsWith (KURL_path k') (url_full_path au)) (sanitizeURL k)))"

definition setWebUserPassword :: "(string \<Rightarrow> string) \<Rightarrow> string \<Rightarrow> ProtectionSpaceServerType \<Rightarrow> ProtectionSpaceAuthenticationScheme
    \<Rightarrow> string \<Rightarrow> string \<Rightarrow> string \<Rightarrow> string \<Rightarrow> bool \<Rightarrow> auth_jar \<Rightarrow> auth_jar option" where
  "setWebUserPassword encode url servertype authscheme realm user passwd location confirmed0 jar =
     Option.bind (auth_url_of url) (\<lambda>au. map_option (\<lambda>FullBaseSame.
       let confirmed = (confirmed0 \<or> location \<noteq> []);
           same = (\<lambda>info. m_authScheme info = authscheme \<and> m_serverType info = servertype \<and> m_host info = url_host au);
           updated =
             (if authscheme = SchemeNTLM then update_first same (set_credentials confirmed user passwd) (m_WebAuthInfoList jar)
              else update_first
                (\<lambda>info. same info \<and> m_realm info = realm
                   \<and> (url_full_path au = m_fullPath info \<or> url_base_path au = m_basePath info))
                (\<lambda>info. set_credentials confirmed user passwd
                   (if url_full_path au = m_fullPath info \<and> FullBaseSame then info\<lparr>m_basePath := m_fullPath info\<rparr> else info))
                (m_WebAuthInfoList jar))
       in case updated of
            Some xs \<Rightarrow> jar\<lparr>m_WebAuthInfoList := xs\<rparr>
          | None \<Rightarrow>
              if location \<noteq> [] then jar
              else jar\<lparr>m_WebAuthInfoList := m_WebAuthInfoList jar @
                     [set_credentials confirmed user passwd (AuthInfo_new
                        \<lparr>m_serverType := servertype, m_authScheme := authscheme, m_host := url_host au, m_port := url_port au,
                         m_basePath := (if authscheme = SchemeNTLM then ''/'' else url_base_path au),
                         m_fullPath := (if authscheme = SchemeNTLM then ''/'' else url_full_path au), m_realm := realm\<rparr>)]\<rparr>)
     (folder_confirmed encode au location))"

fun remove_first_where :: "('a \<Rightarrow> bool) \<Rightarrow> 'a list \<Rightarrow> 'a list" where
  "remove_first_where P [] = []"
| "remove_first_where P (x # xs) = (if P x then xs else x # remove_first_where P xs)"

definition deleteWebUserPassword :: "string \<Rightarrow> string \<Rightarrow> auth_jar \<Rightarrow> auth_jar option" where
  "deleteWebUserPassword url realm jar =
     (if m_WebAuthInfoList jar = [] then Some jar
      else map_option (\<lambda>au. jar\<lparr>m_WebAuthInfoList := remove_first_where
             (\<lambda>info. url_host au = m_host info \<and> (realm = [] \<or> realm = m_realm info)
                \<and> url_full_path au = m_fullPath info \<and> url_base_path au = m_basePath info) (m_WebAuthInfoList jar)\<rparr>)
           (auth_url_of url))"

section \<open>Proxies\<close>

definition proxy_host :: "string \<Rightarrow> string option" where
  "proxy_host url = Option.bind (KURL_parse url) (\<lambda>k. map_option (\<lambda>(k', _). KURL_host k') (sanitizeURL k))"

definition proxy_matches :: "string \<Rightarrow> int \<Rightarrow> auth_info \<Rightarrow> bool" where
  "proxy_matches host port info \<longleftrightarrow>
     serverType_num ProtectionSpaceProxyHTTP \<le> serverType_num (m_serverType info) \<and> m_host info = host \<and> m_port info = port"

definition getProxyUserPassword :: "string \<Rightarrow> int \<Rightarrow> auth_jar \<Rightarrow> answer option option" where
  "getProxyUserPassword url port jar =
     (if m_ProxyAuthInfoList jar = [] then Some None
      else map_option (\<lambda>host. map_option (credentials True) (find (proxy_matches host port) (m_ProxyAuthInfoList jar)))
             (proxy_host url))"

definition setProxyUserPassword :: "string \<Rightarrow> int \<Rightarrow> ProtectionSpaceServerType \<Rightarrow> ProtectionSpaceAuthenticationScheme
    \<Rightarrow> string \<Rightarrow> string \<Rightarrow> auth_jar \<Rightarrow> auth_jar option" where
  \<comment> \<open>\<open>m_port\<close> is an \<open>unsigned short\<close>\<close>
  "setProxyUserPassword url port servertype authscheme user passwd jar =
     map_option (\<lambda>host.
       case update_first (\<lambda>info. m_serverType info = servertype \<and> m_host info = host \<and> m_port info = port)
              (\<lambda>info. info\<lparr>m_authScheme := authscheme, m_user := user, m_passwd := passwd\<rparr>) (m_ProxyAuthInfoList jar) of
         Some xs \<Rightarrow> jar\<lparr>m_ProxyAuthInfoList := xs\<rparr>
       | None \<Rightarrow> jar\<lparr>m_ProxyAuthInfoList := m_ProxyAuthInfoList jar @
             [AuthInfo_new\<lparr>m_serverType := servertype, m_authScheme := authscheme, m_host := host, m_port := port mod 2 ^ 16,
                m_user := user, m_passwd := passwd\<rparr>]\<rparr>)
     (proxy_host url)"

definition deleteProxyUserPassword :: "string \<Rightarrow> int \<Rightarrow> auth_jar \<Rightarrow> auth_jar option" where
  "deleteProxyUserPassword url port jar =
     (if m_ProxyAuthInfoList jar = [] then Some jar
      else map_option (\<lambda>host. jar\<lparr>m_ProxyAuthInfoList := remove_first_where (proxy_matches host port) (m_ProxyAuthInfoList jar)\<rparr>)
             (proxy_host url))"

section \<open>One entry for each protection space and path\<close>

definition web_key :: "auth_info \<Rightarrow> ProtectionSpaceAuthenticationScheme \<times> ProtectionSpaceServerType \<times> string \<times> string \<times> string" where
  "web_key info = (m_authScheme info, m_serverType info, m_realm info, m_host info, m_fullPath info)"

definition proxy_key :: "auth_info \<Rightarrow> ProtectionSpaceServerType \<times> string \<times> int" where
  "proxy_key info = (m_serverType info, m_host info, m_port info)"

definition jar_inv :: "auth_jar \<Rightarrow> bool" where
  "jar_inv jar \<longleftrightarrow> distinct (map web_key (m_WebAuthInfoList jar)) \<and> distinct (map proxy_key (m_ProxyAuthInfoList jar))"

inductive jar_step :: "(string \<Rightarrow> string) \<Rightarrow> auth_jar \<Rightarrow> auth_jar \<Rightarrow> bool"
  for encode where
  GetWeb: "getWebUserPassword url realm jar = Some (ans, jar') \<Longrightarrow> jar_step encode jar jar'"
| SetWeb: "setWebUserPassword encode url servertype authscheme realm user passwd location confirmed jar = Some jar'
    \<Longrightarrow> jar_step encode jar jar'"
| DeleteWeb: "deleteWebUserPassword url realm jar = Some jar' \<Longrightarrow> jar_step encode jar jar'"
| SetProxy: "setProxyUserPassword url port servertype authscheme user passwd jar = Some jar' \<Longrightarrow> 0 \<le> port \<Longrightarrow> port < 2 ^ 16
    \<Longrightarrow> jar_step encode jar jar'"
| DeleteProxy: "deleteProxyUserPassword url port jar = Some jar' \<Longrightarrow> jar_step encode jar jar'"

lemma update_first_None: "update_first P f xs = None \<longleftrightarrow> (\<forall>x \<in> set xs. \<not> P x)"
  by (induction xs) auto

lemma update_first_map: "update_first P f xs = Some ys \<Longrightarrow> (\<And>x. g (f x) = g x) \<Longrightarrow> map g ys = map g xs"
  by (induction xs arbitrary: ys) (auto split: if_splits)

lemma set_remove_first_where: "set (remove_first_where P xs) \<subseteq> set xs"
  by (induction xs) auto

lemma distinct_remove_first_where: "distinct (map g xs) \<Longrightarrow> distinct (map g (remove_first_where P xs))"
proof (induction xs)
  case (Cons x xs)
  then show ?case using set_remove_first_where [of P xs] by auto
qed simp

lemma web_key_set [simp]: "web_key (set_credentials confirmed user passwd info) = web_key info" "web_key (info\<lparr>m_basePath := b\<rparr>) = web_key info"
  by (simp_all add: web_key_def set_credentials_def)

text \<open>What the search returns was met on the way, at the position it reports.\<close>

lemma search_web_entries:
  assumes "search_web host realm full i fl bl xs = (ex, fl', bl')"
  shows "fl' = fl \<or> (\<exists>j < length xs. fl' = Some (i + j, xs ! j))"
  using assms
proof (induction host realm full i fl bl xs rule: search_web.induct)
  case (2 host realm full i fl bl info rest)
  have step: "fl' = fl0 \<or> (\<exists>j < length rest. fl' = Some (Suc i + j, rest ! j))
      \<Longrightarrow> fl0 = fl \<or> fl0 = Some (i, info) \<Longrightarrow> fl' = fl \<or> (\<exists>j < length (info # rest). fl' = Some (i + j, (info # rest) ! j))" for fl0
    by (auto intro: exI [of _ 0] exI [of _ "Suc _"])
  have lg: "longer fl (i, info) True = fl \<or> longer fl (i, info) True = Some (i, info)"
    by (auto simp: longer_def split: option.splits)
  show ?case
  proof (cases "m_host info \<noteq> host \<or> realm \<noteq> [] \<and> m_realm info \<noteq> realm")
    case True
    then show ?thesis using "2.IH"(1,2) "2.prems" step [of fl] by (auto split: if_splits)
  next
    case False
    then consider "full = m_fullPath info" | "full \<noteq> m_fullPath info" "startsWith full (m_fullPath info)"
      | "full \<noteq> m_fullPath info" "\<not> startsWith full (m_fullPath info)" by blast
    then show ?thesis
    proof cases
      case 2
      then have "fl' = longer fl (i, info) True \<or> (\<exists>j < length rest. fl' = Some (Suc i + j, rest ! j))"
        using False "2.IH"(3) "2.prems" by auto
      then show ?thesis using step lg by blast
    next
      case 3
      then have "fl' = fl \<or> (\<exists>j < length rest. fl' = Some (Suc i + j, rest ! j))"
        using False "2.IH"(4,5) "2.prems" by (auto split: if_splits)
      then show ?thesis using step by blast
    qed (use False "2.prems" in auto)
  qed
qed simp

lemma getWeb_keeps:
  assumes "getWebUserPassword url realm jar = Some (ans, jar')"
  shows "map web_key (m_WebAuthInfoList jar') = map web_key (m_WebAuthInfoList jar) \<and> m_ProxyAuthInfoList jar' = m_ProxyAuthInfoList jar"
proof (cases "m_WebAuthInfoList jar = []")
  case False
  let ?xs = "m_WebAuthInfoList jar"
  from assms False obtain au where au: "auth_url_of url = Some au" by (auto simp: getWebUserPassword_def Let_def)
  obtain ex fl bl where s: "search_web (url_host au) realm (url_full_path au) 0 None None ?xs = (ex, fl, bl)" by (metis prod_cases3)
  have upd: "map web_key (?xs[i := x\<lparr>m_basePath := b\<rparr>]) = map web_key ?xs" if "fl = Some (i, x)" for i x b
    using search_web_entries [OF s] that by (auto simp: map_update) (metis list_update_id map_update web_key_set(2))
  show ?thesis
    using assms False unfolding getWebUserPassword_def Let_def au option.map s prod.case
    by (auto simp: upd split: option.splits if_splits prod.splits)
qed (use assms in \<open>auto simp: getWebUserPassword_def\<close>)

lemma setWeb_keeps:
  assumes "setWebUserPassword encode url servertype authscheme realm user passwd location confirmed jar = Some jar'"
    and "distinct (map web_key (m_WebAuthInfoList jar))"
  shows "distinct (map web_key (m_WebAuthInfoList jar')) \<and> m_ProxyAuthInfoList jar' = m_ProxyAuthInfoList jar"
proof -
  let ?xs = "m_WebAuthInfoList jar"
  from assms(1) obtain au F where au: "auth_url_of url = Some au" and F: "folder_confirmed encode au location = Some F"
    by (auto simp: setWebUserPassword_def bind_eq_Some_conv)
  define c where "c \<longleftrightarrow> confirmed \<or> location \<noteq> []"
  define same where "same = (\<lambda>info :: auth_info. m_authScheme info = authscheme \<and> m_serverType info = servertype \<and> m_host info = url_host au)"
  define upd where "upd = (if authscheme = SchemeNTLM then update_first same (set_credentials c user passwd) ?xs
              else update_first
                (\<lambda>info. same info \<and> m_realm info = realm \<and> (url_full_path au = m_fullPath info \<or> url_base_path au = m_basePath info))
                (\<lambda>info. set_credentials c user passwd
                   (if url_full_path au = m_fullPath info \<and> F then info\<lparr>m_basePath := m_fullPath info\<rparr> else info)) ?xs)"
  define new where "new = set_credentials c user passwd (AuthInfo_new
                        \<lparr>m_serverType := servertype, m_authScheme := authscheme, m_host := url_host au, m_port := url_port au,
                         m_basePath := (if authscheme = SchemeNTLM then ''/'' else url_base_path au),
                         m_fullPath := (if authscheme = SchemeNTLM then ''/'' else url_full_path au), m_realm := realm\<rparr>)"
  have jar': "jar' = (case upd of Some xs \<Rightarrow> jar\<lparr>m_WebAuthInfoList := xs\<rparr>
        | None \<Rightarrow> if location \<noteq> [] then jar else jar\<lparr>m_WebAuthInfoList := ?xs @ [new]\<rparr>)"
    using assms(1) unfolding setWebUserPassword_def au F Option.bind.bind_lunit option.map Let_def c_def [symmetric] new_def [symmetric]
      upd_def same_def by (simp only: option.inject)
  show ?thesis
  proof (cases upd)
    case (Some ys)
    then have "map web_key ys = map web_key ?xs"
      unfolding upd_def by (auto split: if_splits elim!: update_first_map)
    then show ?thesis using assms(2) Some by (simp add: jar')
  next
    case None
    have "web_key x \<noteq> web_key new" if "x \<in> set ?xs" for x
      using None that unfolding upd_def
      by (auto simp: update_first_None same_def new_def web_key_def set_credentials_def split: if_splits)
    then have "web_key new \<notin> web_key ` set ?xs" by (metis imageE)
    then show ?thesis using assms(2) None by (simp add: jar')
  qed
qed

lemma setProxy_keeps:
  assumes "setProxyUserPassword url port servertype authscheme user passwd jar = Some jar'" "0 \<le> port" "port < 2 ^ 16"
    and "distinct (map proxy_key (m_ProxyAuthInfoList jar))"
  shows "distinct (map proxy_key (m_ProxyAuthInfoList jar')) \<and> m_WebAuthInfoList jar' = m_WebAuthInfoList jar"
proof -
  let ?xs = "m_ProxyAuthInfoList jar"
  from assms(1) obtain host where h: "proxy_host url = Some host" by (auto simp: setProxyUserPassword_def)
  define upd where "upd = update_first (\<lambda>info. m_serverType info = servertype \<and> m_host info = host \<and> m_port info = port)
              (\<lambda>info. info\<lparr>m_authScheme := authscheme, m_user := user, m_passwd := passwd\<rparr>) ?xs"
  show ?thesis
  proof (cases upd)
    case (Some ys)
    then have "map proxy_key ys = map proxy_key ?xs"
      unfolding upd_def by (rule update_first_map) (simp add: proxy_key_def)
    then show ?thesis using assms(1,4) Some h by (auto simp: setProxyUserPassword_def upd_def)
  next
    case None
    then have "\<forall>x \<in> set ?xs. proxy_key x \<noteq> (servertype, host, port)" by (auto simp: upd_def update_first_None proxy_key_def)
    then show ?thesis using assms None h by (auto simp: setProxyUserPassword_def upd_def proxy_key_def AuthInfo_new_def)
  qed
qed

interpretation jar: invariant_system "\<lambda>jar. jar = AuthenticationJar_new" "jar_step encode" jar_inv for encode
proof
  fix jar jar' assume inv: "jar_inv jar" and "jar_step encode jar jar'"
  from this(2) show "jar_inv jar'"
  proof cases
    case (GetWeb url realm ans)
    then show ?thesis using getWeb_keeps inv by (simp add: jar_inv_def)
  next
    case SetWeb
    then show ?thesis using setWeb_keeps inv by (simp add: jar_inv_def)
  next
    case DeleteWeb
    then show ?thesis using inv distinct_remove_first_where by (auto simp: deleteWebUserPassword_def jar_inv_def split: if_splits)
  next
    case SetProxy
    then show ?thesis using setProxy_keeps inv by (simp add: jar_inv_def)
  next
    case DeleteProxy
    then show ?thesis using inv distinct_remove_first_where by (auto simp: deleteProxyUserPassword_def jar_inv_def split: if_splits)
  qed
qed (simp add: jar_inv_def AuthenticationJar_new_def)


text \<open>
  C12: whatever the order of the calls, the jar has at most one entry for a kind of server, a scheme, a
  realm, a host and a path, and at most one for a proxy; so what is stored last for a protection
  space and path is what there is.
\<close>

theorem jar_entries_unique:
  assumes "(jar_step encode)\<^sup>*\<^sup>* AuthenticationJar_new jar"
  shows "distinct (map web_key (m_WebAuthInfoList jar)) \<and> distinct (map proxy_key (m_ProxyAuthInfoList jar))"
  using jar.inv_reachable [OF refl assms] by (simp add: jar_inv_def)

definition stored_once :: "auth_jar" where
  "stored_once = the (setWebUserPassword id ''https://h/a/b'' ProtectionSpaceServerHTTP SchemeHTTPBasic ''r'' ''u'' ''p'' [] True AuthenticationJar_new)"

lemma stored_once: "setWebUserPassword id ''https://h/a/b'' ProtectionSpaceServerHTTP SchemeHTTPBasic ''r'' ''u'' ''p'' [] True AuthenticationJar_new
    = Some stored_once"
proof -
  have "setWebUserPassword id ''https://h/a/b'' ProtectionSpaceServerHTTP SchemeHTTPBasic ''r'' ''u'' ''p'' [] True AuthenticationJar_new \<noteq> None"
    by code_simp
  then show ?thesis by (auto simp: stored_once_def)
qed

theorem jar_entries_unique_witness:
  "length (m_WebAuthInfoList stored_once) = 1 \<and> distinct (map web_key (m_WebAuthInfoList stored_once))"
proof -
  have "length (m_WebAuthInfoList stored_once) = 1" by code_simp
  moreover have "(jar_step id)\<^sup>*\<^sup>* AuthenticationJar_new stored_once" using SetWeb [OF stored_once] by blast
  ultimately show ?thesis using jar_entries_unique by blast
qed

section \<open>Looking up\<close>

lemma search_web_append:
  assumes "\<forall>x \<in> set xs. m_host x = host \<longrightarrow> m_fullPath x \<noteq> full" "m_host y = host" "realm = [] \<or> m_realm y = realm" "m_fullPath y = full"
  shows "fst (search_web host realm full i fl bl (xs @ y # ys)) = Some y"
  using assms(1)
proof (induction xs arbitrary: i fl bl)
  case (Cons x xs)
  then show ?case by (auto simp del: fst_conv)
qed (use assms(2-) in auto)

lemma stored_found:
  assumes "setWebUserPassword encode url servertype authscheme realm user passwd [] confirmed jar = Some jar'"
    and "auth_url_of url = Some au" "auth_url_of url2 = Some au2" "url_host au2 = url_host au" "url_full_path au2 = url_full_path au" "authscheme \<noteq> SchemeNTLM"
    and "\<forall>x \<in> set (m_WebAuthInfoList jar). m_host x = url_host au \<longrightarrow> m_fullPath x \<noteq> url_full_path au \<and> m_basePath x \<noteq> url_base_path au"
  shows "getWebUserPassword url2 realm jar' = Some (Some (servertype, authscheme, user, passwd), jar')"
proof -
  define new where "new = set_credentials confirmed user passwd (AuthInfo_new
      \<lparr>m_serverType := servertype, m_authScheme := authscheme, m_host := url_host au, m_port := url_port au,
       m_basePath := url_base_path au, m_fullPath := url_full_path au, m_realm := realm\<rparr>)"
  have "update_first (\<lambda>info. (m_authScheme info = authscheme \<and> m_serverType info = servertype \<and> m_host info = url_host au) \<and> m_realm info = realm
      \<and> (url_full_path au = m_fullPath info \<or> url_base_path au = m_basePath info)) f (m_WebAuthInfoList jar) = None" for f
    using assms(7) by (auto simp: update_first_None)
  then have jar': "jar' = jar\<lparr>m_WebAuthInfoList := m_WebAuthInfoList jar @ [new]\<rparr>"
    using assms(1,6) by (simp add: setWebUserPassword_def assms(2) folder_confirmed_def Let_def new_def)
  have n: "m_host new = url_host au" "m_realm new = realm" "m_fullPath new = url_full_path au"
    "credentials (m_confirmed new) new = (servertype, authscheme, user, passwd)"
    by (simp_all add: new_def set_credentials_def credentials_def)
  have "fst (search_web (url_host au) realm (url_full_path au) 0 None None (m_WebAuthInfoList jar @ new # [])) = Some new"
    using assms(7) n by (intro search_web_append) auto
  then obtain fl bl where "search_web (url_host au) realm (url_full_path au) 0 None None (m_WebAuthInfoList jar @ [new]) = (Some new, fl, bl)"
    by (metis fst_conv prod_cases3)
  then show ?thesis by (simp add: getWebUserPassword_def jar' assms(3-5) n)
qed

text \<open>
  C23: a user name and password stored with a scheme other than NTLM are returned for their URL, confirmed or not and whatever
  the realm asked for, unless the jar already has an entry of the host for that path or folder.
\<close>

theorem stored_password_found:
  assumes "setWebUserPassword encode url servertype authscheme realm user passwd [] confirmed jar = Some jar'"
    and "auth_url_of url = Some au" "authscheme \<noteq> SchemeNTLM"
    and "\<forall>x \<in> set (m_WebAuthInfoList jar). m_host x = url_host au \<longrightarrow> m_fullPath x \<noteq> url_full_path au \<and> m_basePath x \<noteq> url_base_path au"
  shows "getWebUserPassword url realm jar' = Some (Some (servertype, authscheme, user, passwd), jar')"
  using stored_found [OF assms(1,2,2) refl refl assms(3,4)] .

theorem stored_password_found_witness:
  "getWebUserPassword ''https://h/a/b'' ''r'' stored_once
     = Some (Some (ProtectionSpaceServerHTTP, SchemeHTTPBasic, ''u'', ''p''), stored_once)"
proof -
  have "auth_url_of ''https://h/a/b'' \<noteq> None" by code_simp
  then obtain au where au: "auth_url_of ''https://h/a/b'' = Some au" by blast
  show ?thesis by (rule stored_password_found [OF stored_once au]) (simp_all add: AuthenticationJar_new_def)
qed

text \<open>
  C38: the port and the scheme of the URL play no part in the search, although both are stored: a password entered for a
  page over TLS is returned for the same path of the same host on any other port, also without TLS.
\<close>

theorem password_leaves_origin:
  assumes "setWebUserPassword encode url servertype authscheme realm user passwd [] confirmed jar = Some jar'"
    and "auth_url_of url = Some au" "auth_url_of url2 = Some au2" "url_host au2 = url_host au" "url_full_path au2 = url_full_path au"
    and "authscheme \<noteq> SchemeNTLM" "url_port au2 \<noteq> url_port au"
    and "\<forall>x \<in> set (m_WebAuthInfoList jar). m_host x = url_host au \<longrightarrow> m_fullPath x \<noteq> url_full_path au \<and> m_basePath x \<noteq> url_base_path au"
  shows "getWebUserPassword url2 realm jar' = Some (Some (servertype, authscheme, user, passwd), jar')"
  using stored_found [OF assms(1-6,8)] .

theorem password_leaves_origin_witness:
  "getWebUserPassword ''http://h:8080/a/b'' ''r'' stored_once
     = Some (Some (ProtectionSpaceServerHTTP, SchemeHTTPBasic, ''u'', ''p''), stored_once)"
proof -
  let ?a = "auth_url_of ''https://h/a/b''" and ?b = "auth_url_of ''http://h:8080/a/b''"
  have "?a \<noteq> None" "?b \<noteq> None" by code_simp+
  then obtain a b where ab: "?a = Some a" "?b = Some b" by blast
  have "url_host (the ?b) = url_host (the ?a)" "url_full_path (the ?b) = url_full_path (the ?a)" "url_port (the ?b) \<noteq> url_port (the ?a)"
    by code_simp+
  then show ?thesis
    by (intro password_leaves_origin [OF stored_once ab]) (simp_all add: ab AuthenticationJar_new_def)
qed

text \<open>
  Below the folder of a confirmed entry the answer is taken from the temporary password, which a confirmed
  entry does not have, when the last entry of the list is not confirmed.
\<close>

lemma confirmed_password_lost:
  "map_option fst (Option.bind
     (setWebUserPassword id ''http://k/'' ProtectionSpaceServerHTTP SchemeHTTPBasic ''s'' ''v'' ''w'' [] False stored_once)
     (getWebUserPassword ''https://h/a/c'' ''r''))
   = Some (Some (ProtectionSpaceServerHTTP, SchemeHTTPBasic, [], []))"
  by code_simp

end
