(* ===== verification/Double.thy ===== *)
theory Double
  imports Prelude
begin

text \<open>
  IEEE 754 binary64, as the C++ \<open>double\<close> of the sources: a value is its 64 bits, so
  that the cache can write and read it byte by byte. Comparison, \<open>isfinite\<close>,
  subtraction and multiplication are computed exactly on the bits, with rounding to
  nearest, ties to even.
\<close>

type_synonym double = "64 word"

section \<open>Bits\<close>

definition dbl_sign :: "double \<Rightarrow> bool" where
  "dbl_sign x \<longleftrightarrow> 2 ^ 63 \<le> uint x"

definition dbl_magnitude :: "double \<Rightarrow> int" where
  "dbl_magnitude x = uint x mod 2 ^ 63"

definition dbl_exponent :: "double \<Rightarrow> int" where
  "dbl_exponent x = dbl_magnitude x div 2 ^ 52"

definition dbl_fraction :: "double \<Rightarrow> int" where
  "dbl_fraction x = uint x mod 2 ^ 52"

definition isfinite :: "double \<Rightarrow> bool" where
  "isfinite x \<longleftrightarrow> dbl_exponent x \<noteq> 2047"

definition isnan :: "double \<Rightarrow> bool" where
  "isnan x \<longleftrightarrow> dbl_exponent x = 2047 \<and> dbl_fraction x \<noteq> 0"

definition quiet_NaN :: double where
  "quiet_NaN = word_of_int 0x7FF8000000000000"

text \<open>
  The order of two doubles that are not NaN is the order of their signed magnitudes; both
  zeros have magnitude 0. A comparison with a NaN is false.
\<close>

definition dbl_key :: "double \<Rightarrow> int" where
  "dbl_key x = (if dbl_sign x then - dbl_magnitude x else dbl_magnitude x)"

definition dbl_gt :: "double \<Rightarrow> double \<Rightarrow> bool" where
  "dbl_gt x y \<longleftrightarrow> \<not> isnan x \<and> \<not> isnan y \<and> dbl_key y < dbl_key x"

section \<open>Exact values and rounding\<close>

text \<open>A finite double is \<open>m * 2 ^ e\<close> for the signed significand \<open>m\<close> and exponent \<open>e\<close>.\<close>

definition dbl_scale :: "double \<Rightarrow> int" where
  "dbl_scale x = (if dbl_exponent x = 0 then -1074 else dbl_exponent x - 1075)"

definition dbl_significand :: "double \<Rightarrow> int" where
  "dbl_significand x =
     (let m = (if dbl_exponent x = 0 then dbl_fraction x else dbl_fraction x + 2 ^ 52)
      in if dbl_sign x then - m else m)"

function bit_length :: "int \<Rightarrow> int" where
  "bit_length n = (if n \<le> 0 then 0 else 1 + bit_length (n div 2))"
  by pat_completeness auto
termination
  by (relation "measure nat") auto

declare bit_length.simps [simp del]

definition shift_round :: "int \<Rightarrow> int \<Rightarrow> int" where
  \<comment> \<open>\<open>m / 2 ^ s\<close> for \<open>m \<ge> 0\<close>, to nearest, ties to even; \<open>m * 2 ^ (- s)\<close> for \<open>s \<le> 0\<close>\<close>
  "shift_round m s =
     (if s \<le> 0 then m * 2 ^ nat (- s)
      else let q = m div 2 ^ nat s; r = m mod 2 ^ nat s; h = 2 ^ nat (s - 1)
           in if h < r \<or> (r = h \<and> odd q) then q + 1 else q)"

definition dbl_pack :: "bool \<Rightarrow> int \<Rightarrow> int \<Rightarrow> double" where
  \<comment> \<open>the double nearest to \<open>m * 2 ^ e\<close>, \<open>m \<ge> 0\<close>, with the sign \<open>sg\<close>\<close>
  "dbl_pack sg m e =
     (let signbit = (if sg then 2 ^ 63 else 0) in
      if m = 0 then word_of_int signbit
      else
        let len = bit_length m;
            e1 = max (e + len - 53) (-1074);
            q1 = shift_round m (e1 - e);
            q = (if q1 = 2 ^ 53 then 2 ^ 52 else q1);
            e2 = (if q1 = 2 ^ 53 then e1 + 1 else e1)
        in if 971 < e2 then word_of_int (signbit + 2047 * 2 ^ 52)
           else if q < 2 ^ 52 then word_of_int (signbit + q)
           else word_of_int (signbit + (e2 + 1075) * 2 ^ 52 + (q - 2 ^ 52)))"

definition dbl_neg :: "double \<Rightarrow> double" where
  "dbl_neg x = x XOR push_bit 63 1"

definition dbl_add :: "double \<Rightarrow> double \<Rightarrow> double" where
  "dbl_add x y =
     (if isnan x \<or> isnan y then quiet_NaN
      else if \<not> isfinite x then (if \<not> isfinite y \<and> dbl_sign x \<noteq> dbl_sign y then quiet_NaN else x)
      else if \<not> isfinite y then y
      else
        let e = min (dbl_scale x) (dbl_scale y);
            s = dbl_significand x * 2 ^ nat (dbl_scale x - e)
              + dbl_significand y * 2 ^ nat (dbl_scale y - e)
        in if s = 0 then dbl_pack (dbl_sign x \<and> dbl_sign y) 0 e
           else dbl_pack (s < 0) \<bar>s\<bar> e)"

definition dbl_sub :: "double \<Rightarrow> double \<Rightarrow> double" where
  "dbl_sub x y = (if isnan y then quiet_NaN else dbl_add x (dbl_neg y))"

definition dbl_mul :: "double \<Rightarrow> double \<Rightarrow> double" where
  "dbl_mul x y =
     (let sg = (dbl_sign x \<noteq> dbl_sign y) in
      if isnan x \<or> isnan y then quiet_NaN
      else if \<not> isfinite x \<or> \<not> isfinite y
      then (if dbl_key x = 0 \<or> dbl_key y = 0 then quiet_NaN
            else word_of_int ((if sg then 2 ^ 63 else 0) + 2047 * 2 ^ 52))
      else dbl_pack sg \<bar>dbl_significand x * dbl_significand y\<bar> (dbl_scale x + dbl_scale y))"

definition dbl_div :: "double \<Rightarrow> double \<Rightarrow> double" where
  \<comment> \<open>the quotient to more bits than a significand has, the lowest one set if a remainder is left, and rounded\<close>
  "dbl_div x y =
     (let sg = (dbl_sign x \<noteq> dbl_sign y); signbit = (if sg then 2 ^ 63 else 0) in
      if isnan x \<or> isnan y \<or> \<not> isfinite x \<and> \<not> isfinite y \<or> dbl_key x = 0 \<and> dbl_key y = 0 then quiet_NaN
      else if \<not> isfinite x \<or> dbl_key y = 0 then word_of_int (signbit + 2047 * 2 ^ 52)
      else if \<not> isfinite y then word_of_int signbit
      else
        let n = \<bar>dbl_significand x\<bar> * 2 ^ 120; d = \<bar>dbl_significand y\<bar>; q = n div d
        in dbl_pack sg (if n mod d = 0 then q else 2 * (q div 2) + 1) (dbl_scale x - dbl_scale y - 120))"

text \<open>The conversion from an integer.\<close>

definition dbl_of_int :: "int \<Rightarrow> double" where
  "dbl_of_int n = dbl_pack (n < 0) \<bar>n\<bar> 0"

definition dbl_tenth :: double where
  "dbl_tenth = word_of_int 0x3FB999999999999A"

section \<open>Facts the components use\<close>

lemma dbl_gt_irrefl [simp]: "\<not> dbl_gt x x"
  by (simp add: dbl_gt_def)

lemma dbl_gt_trans: "dbl_gt x y \<Longrightarrow> dbl_gt y z \<Longrightarrow> dbl_gt x z"
  by (simp add: dbl_gt_def)

lemma dbl_gt_asym: "dbl_gt x y \<Longrightarrow> \<not> dbl_gt y x"
  by (simp add: dbl_gt_def)

lemma isfinite_not_isnan: "isfinite x \<Longrightarrow> \<not> isnan x"
  by (simp add: isfinite_def isnan_def)

lemma not_isfinite_quiet_NaN [simp]: "\<not> isfinite quiet_NaN"
  by (simp add: isfinite_def quiet_NaN_def dbl_exponent_def dbl_magnitude_def uint_word_of_int)

lemma isfinite_zero [simp]: "isfinite 0"
  by (simp add: isfinite_def dbl_exponent_def dbl_magnitude_def)

end
