(* ===== verification/CachedResource.thy ===== *)
theory CachedResource
  imports UTF8 Double MD5 SharedBuffer WTFString
begin

text \<open>
  One entry of the HTTP cache, \<open>HTTPCachedResource\<close> of \<open>HTTPCacheWKC.cpp\<close>: its freshness rules,
  its body file and its record in the FAT file. Integers and doubles are kept at their width,
  as the FAT file stores them; \<open>currentTime()\<close> is the argument \<open>now\<close>; the file functions of the
  platform (\<open>wkcFile...Peer\<close>) are the argument \<open>fp\<close> with a state of the file system.
\<close>

section \<open>The platform's file functions\<close>

record ('w, 'f) file_peer =
  fp_open :: "byte list \<Rightarrow> string \<Rightarrow> 'w \<Rightarrow> 'f option \<times> 'w"
  fp_write :: "'f \<Rightarrow> byte list \<Rightarrow> 'w \<Rightarrow> int \<times> 'w"
  fp_read :: "'f \<Rightarrow> int \<Rightarrow> 'w \<Rightarrow> int \<times> byte list \<times> 'w"
  fp_stat :: "'f \<Rightarrow> 'w \<Rightarrow> int option"
  fp_close :: "'f \<Rightarrow> 'w \<Rightarrow> 'w"
  fp_unlink :: "byte list \<Rightarrow> 'w \<Rightarrow> 'w"
  fp_append :: "byte list \<Rightarrow> byte list \<Rightarrow> byte list option"
  fp_mkdirs :: "byte list \<Rightarrow> 'w \<Rightarrow> 'w"
  fp_list :: "byte list \<Rightarrow> string \<Rightarrow> 'w \<Rightarrow> byte list list"

section \<open>State\<close>

record cached_resource =
  m_url :: wtf_string
  m_mimeType :: wtf_string
  m_expectedContentLength :: i64
  m_textEncodingName :: wtf_string
  m_suggestedFilename :: wtf_string
  m_httpStatusCode :: i32
  m_noCache :: bool
  m_mustRevalidate :: bool
  m_expires :: double
  m_maxAge :: double
  m_date :: double
  m_lastModified :: double
  m_lastModifiedHeader :: wtf_string
  m_eTagHeader :: wtf_string
  m_fileName :: wtf_string
  m_resourceData :: "shared_buffer option"
  m_contentLength :: i64
  m_resourceSize :: i32
  m_used :: bool
  m_httpequivflags :: i32

text \<open>What the cache asks of a \<open>ResourceResponse\<close>.\<close>

record response =
  r_mimeType :: wtf_string
  r_expectedContentLength :: i64
  r_textEncodingName :: wtf_string
  r_suggestedFilename :: wtf_string
  r_httpStatusCode :: i32
  r_expires :: double
  r_date :: double
  r_lastModified :: double
  r_lastModifiedHeader :: wtf_string
  r_eTagHeader :: wtf_string
  r_noCache :: bool
  r_noStore :: bool
  r_mustRevalidate :: bool
  r_maxAge :: double

definition EHTTPEquivNoCache :: i32 where
  "EHTTPEquivNoCache = 1"

definition EHTTPEquivMustRevalidate :: i32 where
  "EHTTPEquivMustRevalidate = 2"

definition EHTTPEquivMaxAge :: i32 where
  "EHTTPEquivMaxAge = 4"

definition HTTPCachedResource_default :: cached_resource where
  "HTTPCachedResource_default =
     \<lparr>m_url = [], m_mimeType = [], m_expectedContentLength = 0, m_textEncodingName = [],
      m_suggestedFilename = [], m_httpStatusCode = 0, m_noCache = False, m_mustRevalidate = False,
      m_expires = 0, m_maxAge = 0, m_date = 0, m_lastModified = 0, m_lastModifiedHeader = [],
      m_eTagHeader = [], m_fileName = [], m_resourceData = None, m_contentLength = 0,
      m_resourceSize = 0, m_used = False, m_httpequivflags = 0\<rparr>"

section \<open>Freshness\<close>

definition freshnessLifetime :: "cached_resource \<Rightarrow> double" where
  "freshnessLifetime r =
     (if isfinite (m_maxAge r) then m_maxAge r
      else if isfinite (m_expires r) then dbl_sub (m_expires r) (m_date r)
      else if isfinite (m_lastModified r) then dbl_mul (dbl_sub (m_date r) (m_lastModified r)) dbl_tenth
      else 0)"

definition isExpired :: "double \<Rightarrow> cached_resource \<Rightarrow> bool" where
  "isExpired now r \<longleftrightarrow> dbl_gt (dbl_sub now (m_date r)) (freshnessLifetime r)"

definition needRevalidate :: "double \<Rightarrow> cached_resource \<Rightarrow> bool" where
  "needRevalidate now r \<longleftrightarrow> m_mustRevalidate r \<or> m_noCache r \<or> isExpired now r"

definition has_flag :: "i32 \<Rightarrow> i32 \<Rightarrow> bool" where
  "has_flag flags f \<longleftrightarrow> flags AND f \<noteq> 0"

text \<open>A finite value replaces one that is not finite or is larger.\<close>

definition lower_to :: "double \<Rightarrow> double \<Rightarrow> double" where
  "lower_to cur new = (if isfinite new \<and> (\<not> isfinite cur \<or> dbl_gt cur new) then new else cur)"

definition update :: "cached_resource \<Rightarrow> bool \<Rightarrow> bool \<Rightarrow> double \<Rightarrow> double \<Rightarrow> i32 \<Rightarrow> cached_resource" where
  "update r noCache mustRevalidate expires maxAge flags =
     (let free = (\<lambda>f. \<not> has_flag (m_httpequivflags r) f \<or> has_flag flags f)
      in r\<lparr>m_noCache := (if free EHTTPEquivNoCache then noCache else m_noCache r),
           m_mustRevalidate := (if free EHTTPEquivMustRevalidate then mustRevalidate else m_mustRevalidate r),
           m_maxAge := (if free EHTTPEquivMaxAge then lower_to (m_maxAge r) maxAge else m_maxAge r),
           m_expires := lower_to (m_expires r) expires,
           m_httpequivflags := m_httpequivflags r OR flags\<rparr>)"

definition setResourceResponse :: "double \<Rightarrow> cached_resource \<Rightarrow> response \<Rightarrow> cached_resource" where
  "setResourceResponse now r resp =
     r\<lparr>m_mimeType := r_mimeType resp,
       m_expectedContentLength := r_expectedContentLength resp,
       m_textEncodingName := r_textEncodingName resp,
       m_suggestedFilename := r_suggestedFilename resp,
       m_httpStatusCode := r_httpStatusCode resp,
       m_expires := r_expires resp,
       m_date := (if isfinite (r_date resp) then r_date resp else now),
       m_lastModified := r_lastModified resp,
       m_lastModifiedHeader := r_lastModifiedHeader resp,
       m_eTagHeader := r_eTagHeader resp,
       m_noCache := (if has_flag (m_httpequivflags r) EHTTPEquivNoCache then m_noCache r else r_noCache resp),
       m_mustRevalidate := (if has_flag (m_httpequivflags r) EHTTPEquivMustRevalidate then m_mustRevalidate r
         else m_mustRevalidate r \<or> r_mustRevalidate resp),
       m_maxAge := (if has_flag (m_httpequivflags r) EHTTPEquivMaxAge then m_maxAge r else r_maxAge resp)\<rparr>"

text \<open>
  The constructor for a response: \<open>raw\<close> is the object as the allocator left it, of which the
  constructor sets only some members before \<open>setResourceResponse\<close> reads \<open>m_mustRevalidate\<close>.
\<close>

definition HTTPCachedResource_new :: "cached_resource \<Rightarrow> double \<Rightarrow> wtf_string \<Rightarrow> response \<Rightarrow> cached_resource" where
  "HTTPCachedResource_new raw now url resp =
     setResourceResponse now
       (raw\<lparr>m_used := False, m_httpequivflags := 0, m_contentLength := 0, m_resourceSize := 0,
            m_url := url, m_fileName := [], m_resourceData := None\<rparr>) resp"

definition setResourceData :: "shared_buffer \<Rightarrow> cached_resource \<Rightarrow> cached_resource" where
  "setResourceData data r = r\<lparr>m_resourceData := Some data, m_contentLength := word_of_int (m_size data)\<rparr>"

section \<open>Record in the FAT file\<close>

definition utf8_bytes :: "wtf_string \<Rightarrow> byte list" where
  \<comment> \<open>\<open>str.utf8()\<close>, whose length is 0 when the conversion gives the null string\<close>
  "utf8_bytes s = (case String_utf8 False s of Some b \<Rightarrow> b | None \<Rightarrow> [])"

definition from_utf8 :: "byte list \<Rightarrow> wtf_string" where
  "from_utf8 b = (case String_fromUTF8 b of Some s \<Rightarrow> s | None \<Rightarrow> [])"

definition ROUNDUP :: "nat \<Rightarrow> nat" where
  "ROUNDUP x = (x + 3) div 4 * 4"

definition record_size :: "cached_resource \<Rightarrow> nat" where
  "record_size r = ROUNDUP (8 * 2 + 4 * 3 + 8 * 4
     + (4 + ROUNDUP (length (utf8_bytes (m_url r))))
     + (4 + ROUNDUP (length (utf8_bytes (m_mimeType r))))
     + (4 + ROUNDUP (length (utf8_bytes (m_textEncodingName r))))
     + (4 + ROUNDUP (length (utf8_bytes (m_suggestedFilename r))))
     + (4 + ROUNDUP (length (utf8_bytes (m_fileName r))))
     + (4 + ROUNDUP (length (utf8_bytes (m_lastModifiedHeader r))))
     + (4 + ROUNDUP (length (utf8_bytes (m_eTagHeader r)))))"

definition calcResourceSize :: "cached_resource \<Rightarrow> cached_resource" where
  "calcResourceSize r = r\<lparr>m_resourceSize := of_nat (record_size r)\<rparr>"

definition put_u32 :: "u32 \<Rightarrow> byte list" where
  "put_u32 w = bytes_of_word w"

definition put_u64 :: "u64 \<Rightarrow> byte list" where
  "put_u64 w = bytes_of_word (ucast w) @ bytes_of_word (ucast (drop_bit 32 w))"

text \<open>The bytes \<open>writeString\<close> skips to the next multiple of 4 are those of the zeroed buffer.\<close>

definition writeString :: "wtf_string \<Rightarrow> byte list" where
  "writeString str =
     (let cstr = utf8_bytes str; len = length cstr
      in put_u32 (of_nat len) @ cstr @ replicate (ROUNDUP (len + 4) - (len + 4)) 0)"

definition serialize :: "cached_resource \<Rightarrow> byte list" where
  "serialize r =
     put_u64 (m_expectedContentLength r) @ put_u64 (m_contentLength r) @ put_u32 (m_httpStatusCode r)
     @ put_u32 (if m_noCache r then 1 else 0) @ put_u32 (if m_mustRevalidate r then 1 else 0)
     @ put_u64 (m_expires r) @ put_u64 (m_maxAge r) @ put_u64 (m_date r) @ put_u64 (m_lastModified r)
     @ writeString (m_url r) @ writeString (m_mimeType r) @ writeString (m_textEncodingName r)
     @ writeString (m_suggestedFilename r) @ writeString (m_fileName r)
     @ writeString (m_lastModifiedHeader r) @ writeString (m_eTagHeader r)"

definition get_u32 :: "byte list \<Rightarrow> (u32 \<times> byte list) option" where
  "get_u32 buf = (if length buf < 4 then None else Some (word_of_bytes (take 4 buf), drop 4 buf))"

definition get_u64 :: "byte list \<Rightarrow> (u64 \<times> byte list) option" where
  "get_u64 buf =
     (if length buf < 8 then None
      else Some (ucast (word_of_bytes (take 4 buf)) OR push_bit 32 (ucast (word_of_bytes (take 4 (drop 4 buf)))),
                 drop 8 buf))"

text \<open>A length that is negative or reaches beyond the buffer is a read outside of it.\<close>

definition readString :: "byte list \<Rightarrow> (wtf_string \<times> byte list) option" where
  "readString buf =
     (case get_u32 buf of
        None \<Rightarrow> None
      | Some (w, buf1) \<Rightarrow>
          if sint w < 0 \<or> int (length buf1) < sint w then None
          else let len = nat (sint w)
               in Some (from_utf8 (take len buf1), drop (ROUNDUP (len + 4)) buf))"

definition deserialize :: "byte list \<Rightarrow> (cached_resource \<times> byte list) option" where
  "deserialize b0 =
     Option.bind (get_u64 b0) (\<lambda>(expectedContentLength, b1).
     Option.bind (get_u64 b1) (\<lambda>(contentLength, b2).
     Option.bind (get_u32 b2) (\<lambda>(httpStatusCode, b3).
     Option.bind (get_u32 b3) (\<lambda>(noCache, b4).
     Option.bind (get_u32 b4) (\<lambda>(mustRevalidate, b5).
     Option.bind (get_u64 b5) (\<lambda>(expires, b6).
     Option.bind (get_u64 b6) (\<lambda>(maxAge, b7).
     Option.bind (get_u64 b7) (\<lambda>(date, b8).
     Option.bind (get_u64 b8) (\<lambda>(lastModified, b9).
     Option.bind (readString b9) (\<lambda>(url, b10).
     Option.bind (readString b10) (\<lambda>(mimeType, b11).
     Option.bind (readString b11) (\<lambda>(textEncodingName, b12).
     Option.bind (readString b12) (\<lambda>(suggestedFilename, b13).
     Option.bind (readString b13) (\<lambda>(fileName, b14).
     Option.bind (readString b14) (\<lambda>(lastModifiedHeader, b15).
     Option.bind (readString b15) (\<lambda>(eTagHeader, b16).
       Some (calcResourceSize (HTTPCachedResource_default
         \<lparr>m_expectedContentLength := expectedContentLength, m_contentLength := contentLength,
          m_httpStatusCode := httpStatusCode, m_noCache := noCache \<noteq> 0, m_mustRevalidate := mustRevalidate \<noteq> 0,
          m_expires := expires, m_maxAge := maxAge, m_date := date, m_lastModified := lastModified,
          m_url := url, m_mimeType := mimeType, m_textEncodingName := textEncodingName,
          m_suggestedFilename := suggestedFilename, m_fileName := fileName,
          m_lastModifiedHeader := lastModifiedHeader, m_eTagHeader := eTagHeader\<rparr>), b16)))))))))))))))))"

section \<open>The body file\<close>

definition pathByAppendingComponent :: "('w, 'f) file_peer \<Rightarrow> wtf_string \<Rightarrow> wtf_string \<Rightarrow> wtf_string" where
  "pathByAppendingComponent fp path component =
     (case fp_append fp (utf8_bytes path) (utf8_bytes component) of None \<Rightarrow> [] | Some b \<Rightarrow> from_utf8 b)"

text \<open>
  The loops may run for ever: \<open>write_piece\<close> when the peer keeps writing nothing, \<open>read_loop\<close> at the
  end of a file that is too short. None is a call that does not return. \<open>write_piece\<close> passes the
  start of the piece again after a short write, as the source does.
\<close>

partial_function (option) write_piece ::
    "('w, 'f) file_peer \<Rightarrow> 'f \<Rightarrow> byte list \<Rightarrow> int \<Rightarrow> 'w \<Rightarrow> (bool \<times> 'w) option" where
  "write_piece fp fd buf writelength w =
     (if writelength \<le> 0 then Some (True, w)
      else
        let (written, w1) = fp_write fp fd (take (nat writelength) buf) w
        in if written < 0 then Some (False, w1)
           else write_piece fp fd buf (writelength - written) w1)"

partial_function (option) write_pieces ::
    "('w, 'f) file_peer \<Rightarrow> 'f \<Rightarrow> shared_buffer \<Rightarrow> int \<Rightarrow> int \<Rightarrow> 'w \<Rightarrow> (bool \<times> 'w) option" where
  "write_pieces fp fd data len position w =
     (if len \<le> 0 then Some (True, w)
      else
        let buf = getSomeData data position
        in if buf = [] then Some (False, w)
           else Option.bind (write_piece fp fd buf (int (length buf)) w) (\<lambda>(ok, w1).
             if \<not> ok then Some (False, w1)
             else write_pieces fp fd data (len - int (length buf)) (position + int (length buf)) w1))"

definition writeFile :: "('w, 'f) file_peer \<Rightarrow> cached_resource \<Rightarrow> wtf_string \<Rightarrow> wtf_string \<Rightarrow> 'w
    \<Rightarrow> (bool \<times> cached_resource \<times> 'w) option" where
  "writeFile fp r filename filepath w =
     (case m_resourceData r of
        None \<Rightarrow> Some (False, r, w)
      | Some data \<Rightarrow>
          let path = pathByAppendingComponent fp filepath filename
          in case fp_open fp (utf8_bytes path) ''wb'' w of
               (None, w1) \<Rightarrow> Some (False, r, w1)
             | (Some fd, w1) \<Rightarrow>
                 map_option (\<lambda>(ok, w2).
                   if ok then (True, (calcResourceSize (r\<lparr>m_contentLength := word_of_int (m_size data),
                                 m_fileName := filename\<rparr>))\<lparr>m_resourceData := None\<rparr>, fp_close fp fd w2)
                   else (False, r, fp_close fp fd w2))
                 (write_pieces fp fd data (m_size data) 0 w1))"

partial_function (option) read_loop ::
    "('w, 'f) file_peer \<Rightarrow> 'f \<Rightarrow> int \<Rightarrow> byte list \<Rightarrow> 'w \<Rightarrow> (byte list \<times> 'w) option" where
  "read_loop fp fd len out w =
     (if len \<le> 0 then Some (out, w)
      else
        let (n, bytes, w1) = fp_read fp fd len w
        in if n < 0 then Some (out, w1)
           else read_loop fp fd (len - n) (out @ bytes) w1)"

definition readFile :: "('w, 'f) file_peer \<Rightarrow> cached_resource \<Rightarrow> wtf_string \<Rightarrow> 'w
    \<Rightarrow> (bool \<times> byte list \<times> cached_resource \<times> 'w) option" where
  \<comment> \<open>the length of the loop is an \<open>int\<close>\<close>
  "readFile fp r filepath w =
     (let path = pathByAppendingComponent fp filepath (m_fileName r)
      in case fp_open fp (utf8_bytes path) ''rb'' w of
           (None, w1) \<Rightarrow> Some (False, [], r, w1)
         | (Some fd, w1) \<Rightarrow>
             map_option (\<lambda>(out, w2). (True, out, r\<lparr>m_used := True\<rparr>, fp_close fp fd w2))
             (read_loop fp fd (sint (ucast (m_contentLength r) :: i32)) [] w1))"

section \<open>The FAT record\<close>

lemma ROUNDUP_ge: "x \<le> ROUNDUP x" and ROUNDUP_add4: "ROUNDUP (x + 4) = ROUNDUP x + 4"
  and ROUNDUP_mult: "ROUNDUP (4 * k) = 4 * k" and ROUNDUP_dvd: "4 dvd ROUNDUP x"
  by (simp_all add: ROUNDUP_def) presburger+

lemma length_put [simp]: "length (put_u32 w) = 4" "length (put_u64 x) = 8"
  by (simp_all add: put_u32_def put_u64_def)

lemma length_writeString: "length (writeString s) = 4 + ROUNDUP (length (utf8_bytes s))"
  using ROUNDUP_ge [of "length (utf8_bytes s)"] ROUNDUP_add4 [of "length (utf8_bytes s)"]
  by (simp add: writeString_def Let_def)

lemma record_size_sum: "record_size r = 60
     + (4 + ROUNDUP (length (utf8_bytes (m_url r))))
     + (4 + ROUNDUP (length (utf8_bytes (m_mimeType r))))
     + (4 + ROUNDUP (length (utf8_bytes (m_textEncodingName r))))
     + (4 + ROUNDUP (length (utf8_bytes (m_suggestedFilename r))))
     + (4 + ROUNDUP (length (utf8_bytes (m_fileName r))))
     + (4 + ROUNDUP (length (utf8_bytes (m_lastModifiedHeader r))))
     + (4 + ROUNDUP (length (utf8_bytes (m_eTagHeader r))))" (is "_ = ?s")
proof -
  have "4 dvd ?s" by (intro dvd_add ROUNDUP_dvd) simp_all
  then obtain k where "?s = 4 * k" by (rule dvdE)
  then have "ROUNDUP ?s = ?s" by (simp only: ROUNDUP_mult)
  then show ?thesis by (simp add: record_size_def)
qed

lemma length_serialize: "length (serialize r) = record_size r"
  by (simp add: serialize_def record_size_sum length_writeString)

lemma bytes_of_word_word [simp]: "word_of_bytes (bytes_of_word w) = w"
  unfolding word_of_bytes_def bytes_of_word_def list.case
proof (rule bit_word_eqI)
  fix n assume "n < LENGTH(32)"
  then consider "n < 8" | "8 \<le> n" "n < 16" | "16 \<le> n" "n < 24" | "24 \<le> n" "n < 32" by fastforce
  then show "bit (push_bit 16 (push_bit 8 (ucast (ucast (drop_bit 24 w) :: byte)) OR ucast (ucast (drop_bit 16 w) :: byte))
      OR push_bit 8 (ucast (ucast (drop_bit 8 w) :: byte)) OR ucast (ucast w :: byte) :: u32) n \<longleftrightarrow> bit w n"
    by cases (auto simp: bit_simps)
qed

lemma get_put_u32 [codec_simps]: "get_u32 (put_u32 w @ rest) = Some (w, rest)"
  by (simp add: get_u32_def put_u32_def)

lemma get_put_u64 [codec_simps]: "get_u64 (put_u64 w @ rest) = Some (w, rest)"
proof -
  have "ucast (ucast w :: u32) OR push_bit 32 (ucast (ucast (drop_bit 32 w) :: u32)) = w"
    by (rule bit_word_eqI) (auto simp: bit_simps dest: bit_imp_le_length)
  then show ?thesis by (simp add: get_u64_def put_u64_def)
qed


definition string_ok :: "wtf_string \<Rightarrow> bool" where
  \<comment> \<open>well-formed UTF-16 whose UTF-8 form has a length that fits \<open>int\<close>\<close>
  "string_ok s \<longleftrightarrow> utf16_wf s \<and> int (length s) \<le> (2 ^ 32 - 1) div 3 \<and> length (utf8_bytes s) < 2 ^ 31"

lemma from_utf8_utf8 [simp]: "string_ok s \<Longrightarrow> from_utf8 (utf8_bytes s) = s"
  using String_utf8_fromUTF8 [of s False] by (auto simp: string_ok_def from_utf8_def utf8_bytes_def)

lemma sint_of_nat32: "n < 2 ^ 31 \<Longrightarrow> sint (of_nat n :: 32 word) = int n"
  by (simp add: sint_uint uint_nat unat_of_nat take_bit_eq_mod signed_take_bit_eq_if_positive bit_iff_odd) 

lemma readString_writeString [codec_simps]:
  assumes "string_ok s"
  shows "readString (writeString s @ rest) = Some (s, rest)"
proof -
  let ?b = "utf8_bytes s" and ?n = "length (utf8_bytes s)"
  let ?pad = "replicate (ROUNDUP (?n + 4) - (?n + 4)) (0::byte)"
  have n: "sint (of_nat ?n :: 32 word) = int ?n" using assms by (intro sint_of_nat32) (simp add: string_ok_def)
  have w: "writeString s @ rest = put_u32 (of_nat ?n) @ ?b @ ?pad @ rest" by (simp add: writeString_def Let_def)
  have "drop (ROUNDUP (?n + 4)) (writeString s @ rest) = rest"
    using length_writeString [of s] ROUNDUP_add4 [of ?n] by simp
  then show ?thesis
    using assms by (simp add: readString_def w codec_simps n)
qed

definition record_ok :: "cached_resource \<Rightarrow> bool" where
  "record_ok r \<longleftrightarrow> string_ok (m_url r) \<and> string_ok (m_mimeType r) \<and> string_ok (m_textEncodingName r)
     \<and> string_ok (m_suggestedFilename r) \<and> string_ok (m_fileName r)
     \<and> string_ok (m_lastModifiedHeader r) \<and> string_ok (m_eTagHeader r)"

text \<open>What of an entry survives in the FAT file.\<close>

definition persistent :: "cached_resource \<Rightarrow> cached_resource" where
  "persistent r = calcResourceSize (r\<lparr>m_resourceData := None, m_used := False, m_httpequivflags := 0\<rparr>)"

lemma deserialize_serialize:
  assumes "record_ok r"
  shows "deserialize (serialize r @ rest) = Some (persistent r, rest)"
proof -
  have ok: "string_ok (m_url r)" "string_ok (m_mimeType r)" "string_ok (m_textEncodingName r)"
     "string_ok (m_suggestedFilename r)" "string_ok (m_fileName r)"
     "string_ok (m_lastModifiedHeader r)" "string_ok (m_eTagHeader r)"
    using assms by (simp_all add: record_ok_def)
  have b: "(if x then 1 else 0 :: u32) \<noteq> 0 \<longleftrightarrow> x" for x by simp
  show ?thesis
    unfolding deserialize_def serialize_def append_assoc
    by (simp only: codec_simps ok Option.bind.bind_lunit prod.case b)
      (simp add: persistent_def calcResourceSize_def record_size_def HTTPCachedResource_default_def)
qed

lemma persistent_idem: "persistent (persistent r) = persistent r"
  by (simp add: persistent_def calcResourceSize_def record_size_def)

interpretation fat_record: byte_codec serialize deserialize "\<lambda>r. record_ok r \<and> persistent r = r"
  by unfold_locales (simp add: deserialize_serialize)

lemma serialize_nonempty: "serialize r \<noteq> []"
  using length_serialize [of r] by (auto simp: record_size_sum)

lemma serialize_persistent: "serialize (persistent r) = serialize r"
  by (simp add: serialize_def persistent_def calcResourceSize_def)

section \<open>The body file\<close>

declare write_piece.simps [code] write_pieces.simps [code] read_loop.simps [code]

text \<open>
  What the cache relies on of the file functions, for a file system with room: \<open>files\<close> are the
  closed files, \<open>writing\<close> is the path and the bytes so far of a file open for writing.
\<close>

definition storing_peer :: "('w, 'f) file_peer \<Rightarrow> ('w \<Rightarrow> byte list \<Rightarrow> byte list option)
    \<Rightarrow> ('f \<Rightarrow> 'w \<Rightarrow> (byte list \<times> byte list) option) \<Rightarrow> bool" where
  "storing_peer fp files writing \<longleftrightarrow>
     (\<forall>path w. \<exists>fd w1. fp_open fp path ''wb'' w = (Some fd, w1) \<and> writing fd w1 = Some (path, []))
     \<and> (\<forall>fd w path out bytes. bytes \<noteq> [] \<and> writing fd w = Some (path, out) \<longrightarrow>
          (\<exists>w1. fp_write fp fd bytes w = (int (length bytes), w1) \<and> writing fd w1 = Some (path, out @ bytes)))
     \<and> (\<forall>fd w path out. writing fd w = Some (path, out) \<longrightarrow> files (fp_close fp fd w) path = Some out)
     \<and> (\<forall>path w bytes. files w path = Some bytes \<longrightarrow>
          (\<exists>fd w1. fp_open fp path ''rb'' w = (Some fd, w1) \<and> fp_stat fp fd w1 = Some (int (length bytes))
             \<and> (\<forall>n \<ge> int (length bytes). \<exists>w2. fp_read fp fd n w1 = (int (length bytes), bytes, w2))))"

lemma storing_peerD:
  assumes "storing_peer fp files writing"
  shows "\<exists>fd w1. fp_open fp path ''wb'' w = (Some fd, w1) \<and> writing fd w1 = Some (path, [])"
    and "bytes \<noteq> [] \<Longrightarrow> writing fd w = Some (path, out) \<Longrightarrow>
      \<exists>w1. fp_write fp fd bytes w = (int (length bytes), w1) \<and> writing fd w1 = Some (path, out @ bytes)"
    and "writing fd w = Some (path, out) \<Longrightarrow> files (fp_close fp fd w) path = Some out"
    and "files w path = Some bytes \<Longrightarrow> \<exists>fd w1. fp_open fp path ''rb'' w = (Some fd, w1)
      \<and> fp_stat fp fd w1 = Some (int (length bytes))
      \<and> (\<forall>n \<ge> int (length bytes). \<exists>w2. fp_read fp fd n w1 = (int (length bytes), bytes, w2))"
  using assms unfolding storing_peer_def by blast+

lemma write_piece_stores:
  assumes "storing_peer fp files writing" "buf \<noteq> []" "writing fd w = Some (path, out)"
  shows "\<exists>w1. write_piece fp fd buf (int (length buf)) w = Some (True, w1) \<and> writing fd w1 = Some (path, out @ buf)"
  using storing_peerD(2) [OF assms] assms(2)
  by (auto simp: write_piece.simps [of fp fd buf "int (length buf)"] write_piece.simps [of fp fd buf 0])

lemma write_pieces_stores:
  assumes fp: "storing_peer fp files writing" and wf: "sb_wf data"
    and p: "0 \<le> p" "p \<le> int (length (sb_content data))"
    and w: "writing fd w = Some (path, take (nat p) (sb_content data))"
  shows "\<exists>w1. write_pieces fp fd data (int (length (sb_content data)) - p) p w = Some (True, w1)
    \<and> writing fd w1 = Some (path, sb_content data)"
  using wf p w
proof (induction p arbitrary: w rule: shared.read_induct)
  case finish
  then show ?case by (simp add: write_pieces.simps)
next
  case (piece p)
  let ?g = "getSomeData data p"
  obtain w1 where w1: "write_piece fp fd ?g (int (length ?g)) w = Some (True, w1)"
    "writing fd w1 = Some (path, take (nat p) (sb_content data) @ ?g)"
    using write_piece_stores [OF fp piece.hyps(3) piece.prems] by blast
  have "take (nat p) (sb_content data) @ ?g = take (nat (p + int (length ?g))) (sb_content data)"
    using piece.hyps by (intro shared.get_take [OF wf]) simp_all
  with w1(2) piece.IH obtain w2 where
    "write_pieces fp fd data (int (length (sb_content data)) - (p + int (length ?g))) (p + int (length ?g)) w1 = Some (True, w2)"
    "writing fd w2 = Some (path, sb_content data)" by auto
  then show ?case
    using piece.hyps w1(1) by (simp add: write_pieces.simps [of fp fd data _ p] Let_def algebra_simps)
qed

lemma content_length_int:
  "0 \<le> n \<Longrightarrow> n < 2 ^ 31 \<Longrightarrow> sint (ucast (word_of_int n :: i64) :: i32) = n"
proof -
  assume n: "0 \<le> n" "n < 2 ^ 31"
  have "(ucast (word_of_int n :: i64) :: i32) = of_nat (nat n)"
    using n by (simp add: ucast_eq uint_word_of_int_eq take_bit_int_eq_self)
  with n sint_of_nat32 [of "nat n"] show ?thesis by simp
qed

text \<open>
  C11: with file functions that store what they are given, \<open>writeFile\<close> returns, succeeds and
  leaves the whole body in the file, and \<open>readFile\<close> of the entry it produced returns exactly
  that body. The entry keeps no data in memory and its record size is up to date.
\<close>

theorem body_file_roundtrip:
  assumes fp: "storing_peer fp files writing" and data: "m_resourceData r = Some data"
    and wf: "sb_wf data" and small: "m_size data < 2 ^ 31"
  shows "\<exists>r' w'. writeFile fp r name dir w = Some (True, r', w')
    \<and> m_resourceData r' = None \<and> m_fileName r' = name \<and> m_resourceSize r' = of_nat (record_size r')
    \<and> files w' (utf8_bytes (pathByAppendingComponent fp dir name)) = Some (sb_content data)
    \<and> (\<exists>w''. readFile fp r' dir w' = Some (True, sb_content data, r'\<lparr>m_used := True\<rparr>, w''))"
proof -
  let ?path = "utf8_bytes (pathByAppendingComponent fp dir name)"
  let ?r = "(calcResourceSize (r\<lparr>m_contentLength := word_of_int (m_size data), m_fileName := name\<rparr>))\<lparr>m_resourceData := None\<rparr>"
  obtain fd w1 where o: "fp_open fp ?path ''wb'' w = (Some fd, w1)" "writing fd w1 = Some (?path, [])"
    using storing_peerD(1) [OF fp] by blast
  obtain w2 where w2: "write_pieces fp fd data (m_size data) 0 w1 = Some (True, w2)" "writing fd w2 = Some (?path, sb_content data)"
    using write_pieces_stores [OF fp wf, of 0 fd w1 ?path] o(2) by (auto simp: m_size_content [OF wf])
  have wr: "writeFile fp r name dir w = Some (True, ?r, fp_close fp fd w2)"
    by (simp add: writeFile_def data Let_def o(1) w2(1))
  have f: "files (fp_close fp fd w2) ?path = Some (sb_content data)" by (rule storing_peerD(3) [OF fp w2(2)])
  then obtain fd' w3 where o': "fp_open fp ?path ''rb'' (fp_close fp fd w2) = (Some fd', w3)"
    "\<exists>w4. fp_read fp fd' (m_size data) w3 = (m_size data, sb_content data, w4)"
    using storing_peerD(4) [OF fp f] by (auto simp: m_size_content [OF wf])
  have len: "sint (ucast (m_contentLength ?r) :: i32) = m_size data"
    using small sb_size_nonneg [OF wf] by (simp add: calcResourceSize_def content_length_int)
  have "\<exists>w5. read_loop fp fd' (m_size data) [] w3 = Some (sb_content data, w5)"
  proof (cases "m_size data \<le> 0")
    case True
    then have "sb_content data = []" by (simp add: m_size_content [OF wf])
    with True show ?thesis by (simp add: read_loop.simps)
  next
    case False
    with o'(2) show ?thesis by (subst read_loop.simps) (auto simp: read_loop.simps [of fp fd' 0])
  qed
  then have "\<exists>w''. readFile fp ?r dir (fp_close fp fd w2) = Some (True, sb_content data, ?r\<lparr>m_used := True\<rparr>, w'')"
    using o'(1) len by (auto simp: readFile_def Let_def calcResourceSize_def)
  then show ?thesis using wr f by (auto simp: calcResourceSize_def record_size_def)
qed

text \<open>A file system in memory: the files, and the file that is open for writing.\<close>

type_synonym mem_world = "(byte list \<Rightarrow> byte list option) \<times> (byte list \<times> byte list) option"

definition mem_peer :: "(mem_world, byte list) file_peer" where
  "mem_peer =
     \<lparr>fp_open = (\<lambda>path mode (fs, cur).
        if mode = ''wb'' then (Some path, (fs, Some (path, [])))
        else (if fs path = None then None else Some path, (fs, cur))),
      fp_write = (\<lambda>fd bytes (fs, cur).
        (int (length bytes), (fs, map_option (\<lambda>(p, out). (p, out @ bytes)) cur))),
      fp_read = (\<lambda>fd n (fs, cur).
        case fs fd of None \<Rightarrow> (- 1, [], (fs, cur)) | Some b \<Rightarrow> (min n (int (length b)), take (nat n) b, (fs, cur))),
      fp_stat = (\<lambda>fd (fs, cur). map_option (\<lambda>b. int (length b)) (fs fd)),
      fp_close = (\<lambda>fd (fs, cur). case cur of None \<Rightarrow> (fs, None) | Some (p, out) \<Rightarrow> (fs(p := Some out), None)),
      fp_unlink = (\<lambda>path (fs, cur). (fs(path := None), cur)),
      fp_append = (\<lambda>dir name. Some (dir @ name)),
      fp_mkdirs = (\<lambda>path w. w),
      fp_list = (\<lambda>dir pat w. [])\<rparr>"

lemma mem_peer_stores: "storing_peer mem_peer fst (\<lambda>fd w. if map_option fst (snd w) = Some fd then snd w else None)"
  by (auto simp: storing_peer_def mem_peer_def split: if_splits)

theorem body_file_roundtrip_witness:
  "\<exists>r' w' w''. writeFile mem_peer (setResourceData (adoptVector [1, 2, 3]) HTTPCachedResource_default)
       [0x61] [0x2F] (\<lambda>_. None, None) = Some (True, r', w')
     \<and> readFile mem_peer r' [0x2F] w' = Some (True, [1, 2, 3], r'\<lparr>m_used := True\<rparr>, w'')"
proof -
  have "sb_wf (adoptVector [1, 2, 3]) \<and> sb_content (adoptVector [1, 2, 3]) = [1, 2, 3]" by (rule adoptVector_wf) simp
  then show ?thesis
    using body_file_roundtrip [OF mem_peer_stores, of "setResourceData (adoptVector [1, 2, 3]) HTTPCachedResource_default"
        "adoptVector [1, 2, 3]" "[0x61]" "[0x2F]" "(\<lambda>_. None, None)"]
    by (simp add: setResourceData_def) (auto simp: adoptVector_def)
qed

lemma read_loop_at_end:
  assumes "read_loop fp fd len out w = Some res"
  shows "(\<forall>n w. fp_read fp fd n w = (0, [], w)) \<longrightarrow> len \<le> 0"
proof (rule read_loop.raw_induct [OF _ assms], intro impI)
  fix loop fp fd len out w and y :: "byte list \<times> 'a"
  assume IH: "\<And>fp fd len out w y. loop fp fd len out w = Some y \<Longrightarrow>
      (\<forall>n w. fp_read fp fd n w = (0, [], w)) \<longrightarrow> len \<le> 0"
    and eq: "(if len \<le> 0 then Some (out, w)
      else let (n, bytes, w1) = fp_read fp fd len w
           in if n < 0 then Some (out, w1) else loop fp fd (len - n) (out @ bytes) w1) = Some y"
    and at_end: "\<forall>n w. fp_read fp fd n w = (0, [], w)"
  show "len \<le> (0::int)"
    using IH [of fp fd len out w y] eq at_end by (auto split: if_splits)
qed

text \<open>
  The reading loop does not end when the file does and bytes are still expected: the peer then reads nothing, which the loop
  takes for progress.
\<close>

theorem truncated_body_hangs:
  assumes "\<forall>n w. fp_read fp fd n w = (0, [], w)" "0 < len"
  shows "read_loop fp fd len out w = None"
  using read_loop_at_end [of fp fd len out w] assms by (cases "read_loop fp fd len out w") auto

theorem truncated_body_hangs_witness:
  "read_loop (mem_peer\<lparr>fp_read := (\<lambda>fd n w. (0, [], w))\<rparr>) [] 5 [] (\<lambda>_. None, None) = None"
  by (rule truncated_body_hangs) simp_all

section \<open>Freshness\<close>

lemma has_flag_or: "has_flag (a OR b) f \<longleftrightarrow> has_flag a f \<or> has_flag b f"
  by (simp add: has_flag_def bit.conj_disj_distrib2 or_eq_0_iff)

text \<open>
  A directive set by a page's \<open>meta http-equiv\<close> wins over the headers: while its flag is set,
  neither a new response nor an update without that flag changes the directive, and the flag
  itself is never dropped.
\<close>

theorem http_equiv_wins:
  assumes "\<not> has_flag flags f" "has_flag (m_httpequivflags r) f"
  shows "has_flag (m_httpequivflags (update r nc mr e ma flags)) f
    \<and> has_flag (m_httpequivflags (setResourceResponse now r resp)) f
    \<and> (f = EHTTPEquivNoCache \<longrightarrow>
         m_noCache (update r nc mr e ma flags) = m_noCache r \<and> m_noCache (setResourceResponse now r resp) = m_noCache r)
    \<and> (f = EHTTPEquivMustRevalidate \<longrightarrow>
         m_mustRevalidate (update r nc mr e ma flags) = m_mustRevalidate r
         \<and> m_mustRevalidate (setResourceResponse now r resp) = m_mustRevalidate r)
    \<and> (f = EHTTPEquivMaxAge \<longrightarrow>
         m_maxAge (update r nc mr e ma flags) = m_maxAge r \<and> m_maxAge (setResourceResponse now r resp) = m_maxAge r)"
  using assms by (auto simp: update_def setResourceResponse_def Let_def has_flag_or)

theorem http_equiv_wins_witness:
  "m_noCache (setResourceResponse 0 (update HTTPCachedResource_default True False quiet_NaN quiet_NaN EHTTPEquivNoCache)
      \<lparr>r_mimeType = [], r_expectedContentLength = 0, r_textEncodingName = [], r_suggestedFilename = [],
       r_httpStatusCode = 200, r_expires = quiet_NaN, r_date = quiet_NaN, r_lastModified = quiet_NaN,
       r_lastModifiedHeader = [], r_eTagHeader = [], r_noCache = False, r_noStore = False,
       r_mustRevalidate = False, r_maxAge = quiet_NaN\<rparr>)"
proof -
  let ?r = "update HTTPCachedResource_default True False quiet_NaN quiet_NaN EHTTPEquivNoCache"
  have "has_flag (m_httpequivflags ?r) EHTTPEquivNoCache" "\<not> has_flag 0 EHTTPEquivNoCache" "m_noCache ?r" by code_simp+
  then show ?thesis using http_equiv_wins [of 0 EHTTPEquivNoCache ?r] by simp
qed

lemma update_overwrites:
  "m_httpequivflags r = 0 \<Longrightarrow> update r nc mr e ma 0 = update (r\<lparr>m_mustRevalidate := mr\<rparr>) nc mr e ma 0"
  by (simp add: update_def Let_def has_flag_def)

lemma new_equivflags: "m_httpequivflags (HTTPCachedResource_new raw now url resp) = 0"
  by (simp add: HTTPCachedResource_new_def setResourceResponse_def Let_def has_flag_def)

lemma new_up_to_mustRevalidate:
  "(HTTPCachedResource_new raw now url resp)\<lparr>m_mustRevalidate := b\<rparr> = (HTTPCachedResource_new raw' now url resp)\<lparr>m_mustRevalidate := b\<rparr>"
  by (rule cached_resource.equality)
    (simp_all add: HTTPCachedResource_new_def setResourceResponse_def Let_def has_flag_def)

text \<open>
  The constructor for a response leaves \<open>m_mustRevalidate\<close> as the allocator left it and ors
  into it, but the entry \<open>createHTTPCachedResource\<close> makes does not depend on it: the \<open>update\<close> that
  follows overwrites it.
\<close>

theorem uninitialised_member_is_overwritten:
  "update (HTTPCachedResource_new raw now url resp) noCache mustRevalidate expires maxAge 0
   = update (HTTPCachedResource_new raw' now url resp) noCache mustRevalidate expires maxAge 0"
  using update_overwrites new_equivflags new_up_to_mustRevalidate by metis

end
