(* ===== verification/HTTPCache.thy ===== *)
theory HTTPCache
  imports CachedResource KURL
begin

text \<open>
  The disk cache, \<open>HTTPCache\<close> of \<open>HTTPCacheWKC.cpp\<close>: a hash map from URLs to entries, the list of
  entries in the order of their age, two running totals, the eviction of old entries and the
  FAT file that keeps the list between runs, protected by an MD5 digest.

  Entries are objects on a heap: the map and the list hold addresses, \<open>delete\<close> takes the address
  out of the heap. The totals are kept at their width and wrap around as the sums of the source do.
\<close>

section \<open>State\<close>

type_synonym rid = nat

record 'w http_cache =
  m_disabled :: bool
  m_resources :: "wtf_string \<Rightarrow> rid option"
  m_resourceList :: "rid list"
  m_fileNumber :: i32
  m_totalResourceSize :: i32
  m_fatFileName :: wtf_string
  m_filePath :: wtf_string
  m_limitContentEntries :: i32
  m_limitContentSize :: i64
  m_limitTotalContentsSize :: i64
  m_totalContentsSize :: i64
  heap :: "rid \<Rightarrow> cached_resource option"
  next_rid :: rid
  world :: 'w

definition deref :: "'w http_cache \<Rightarrow> rid \<Rightarrow> cached_resource" where
  "deref c r = the (heap c r)"

definition store :: "rid \<Rightarrow> cached_resource \<Rightarrow> 'w http_cache \<Rightarrow> 'w http_cache" where
  "store r x c = c\<lparr>heap := (heap c)(r := Some x)\<rparr>"

definition new_resource :: "cached_resource \<Rightarrow> 'w http_cache \<Rightarrow> rid \<times> 'w http_cache" where
  "new_resource x c = (next_rid c, c\<lparr>heap := (heap c)(next_rid c := Some x), next_rid := next_rid c + 1\<rparr>)"

definition delete_resource :: "rid \<Rightarrow> 'w http_cache \<Rightarrow> 'w http_cache" where
  "delete_resource r c = c\<lparr>heap := (heap c)(r := None)\<rparr>"

definition HTTPCache_new :: "'w \<Rightarrow> 'w http_cache" where
  "HTTPCache_new w =
     \<lparr>m_disabled = False, m_resources = (\<lambda>_. None), m_resourceList = [], m_fileNumber = 0,
      m_totalResourceSize = 0, m_fatFileName = of_latin1 ''cache.fat'', m_filePath = of_latin1 ''cache/'',
      m_limitContentEntries = 1024, m_limitContentSize = 10485760, m_limitTotalContentsSize = 10485760,
      m_totalContentsSize = 0, heap = (\<lambda>_. None), next_rid = 0, world = w\<rparr>"

section \<open>Entries\<close>

definition reset :: "'w http_cache \<Rightarrow> 'w http_cache" where
  "reset c =
     (foldl (\<lambda>c r. delete_resource r c) c (m_resourceList c))
       \<lparr>m_resourceList := [], m_resources := (\<lambda>_. None), m_totalResourceSize := 0, m_totalContentsSize := 0\<rparr>"

definition unlink_resource :: "('w, 'f) file_peer \<Rightarrow> cached_resource \<Rightarrow> 'w http_cache \<Rightarrow> 'w http_cache" where
  "unlink_resource fp x c =
     c\<lparr>world := fp_unlink fp (utf8_bytes (pathByAppendingComponent fp (m_filePath c) (m_fileName x))) (world c)\<rparr>"

definition take_from_totals :: "cached_resource \<Rightarrow> 'w http_cache \<Rightarrow> 'w http_cache" where
  "take_from_totals x c =
     c\<lparr>m_totalResourceSize := m_totalResourceSize c - m_resourceSize x,
       m_totalContentsSize := m_totalContentsSize c - m_contentLength x\<rparr>"

definition addCachedResource :: "rid \<Rightarrow> 'w http_cache \<Rightarrow> bool \<times> 'w http_cache" where
  "addCachedResource r c =
     (if m_disabled c then (False, c)
      else (True, c\<lparr>m_resources := (m_resources c)(m_url (deref c r) := Some r),
                    m_resourceList := m_resourceList c @ [r],
                    m_totalResourceSize := m_totalResourceSize c + m_resourceSize (deref c r),
                    m_totalContentsSize := m_totalContentsSize c + m_contentLength (deref c r)\<rparr>))"

definition updateCachedResource :: "double \<Rightarrow> rid \<Rightarrow> shared_buffer \<Rightarrow> response \<Rightarrow> bool \<Rightarrow> bool \<Rightarrow> double \<Rightarrow> double
    \<Rightarrow> 'w http_cache \<Rightarrow> 'w http_cache" where
  "updateCachedResource now r data resp noCache mustRevalidate expires maxAge c =
     store r (update (setResourceData data (setResourceResponse now (deref c r) resp))
                noCache mustRevalidate expires maxAge 0) c"

text \<open>The first position of the address is removed from the list, if it is there.\<close>

fun remove_first :: "rid \<Rightarrow> rid list \<Rightarrow> rid list" where
  "remove_first r [] = []"
| "remove_first r (x # xs) = (if x = r then xs else x # remove_first r xs)"

definition removeResource :: "rid \<Rightarrow> 'w http_cache \<Rightarrow> 'w http_cache" where
  "removeResource r c =
     take_from_totals (deref c r)
       (c\<lparr>m_resources := (m_resources c)(m_url (deref c r) := None),
          m_resourceList := remove_first r (m_resourceList c)\<rparr>)"

definition removeResourceByNumber :: "('w, 'f) file_peer \<Rightarrow> nat \<Rightarrow> 'w http_cache \<Rightarrow> 'w http_cache" where
  "removeResourceByNumber fp listNumber c =
     (let r = m_resourceList c ! listNumber; x = deref c r;
          c1 = c\<lparr>m_resources := (m_resources c)(m_url x := None),
                 m_resourceList := vector_remove listNumber (m_resourceList c)\<rparr>
      in delete_resource r (unlink_resource fp x (take_from_totals x c1)))"

definition remove :: "('w, 'f) file_peer \<Rightarrow> rid \<Rightarrow> 'w http_cache \<Rightarrow> 'w http_cache" where
  "remove fp r c = delete_resource r (unlink_resource fp (deref c r) (removeResource r c))"

definition detach :: "('w, 'f) file_peer \<Rightarrow> rid \<Rightarrow> 'w http_cache \<Rightarrow> 'w http_cache" where
  "detach fp r c =
     (if m_fileName (deref c r) = [] then removeResource r c
      else unlink_resource fp (deref c r) (removeResource r c))"

text \<open>\<open>listDirectory\<close>: the names in the directory, each with the path in front of it.\<close>

fun list_paths :: "('w, 'f) file_peer \<Rightarrow> byte list \<Rightarrow> byte list list \<Rightarrow> wtf_string list" where
  "list_paths fp path [] = []"
| "list_paths fp path (name # names) =
     (case fp_append fp path name of None \<Rightarrow> [] | Some full \<Rightarrow> from_utf8 full # list_paths fp path names)"

definition listDirectory :: "('w, 'f) file_peer \<Rightarrow> wtf_string \<Rightarrow> string \<Rightarrow> 'w \<Rightarrow> wtf_string list" where
  "listDirectory fp path pat w = list_paths fp (utf8_bytes path) (fp_list fp (utf8_bytes path) pat w)"

fun unlink_items :: "('w, 'f) file_peer \<Rightarrow> byte list \<Rightarrow> wtf_string list \<Rightarrow> 'w \<Rightarrow> 'w" where
  "unlink_items fp path [] w = w"
| "unlink_items fp path (item # items) w =
     (case fp_append fp path (utf8_bytes item) of
        None \<Rightarrow> w
      | Some full \<Rightarrow> unlink_items fp path items (fp_unlink fp full w))"

definition removeAll :: "('w, 'f) file_peer \<Rightarrow> 'w http_cache \<Rightarrow> 'w http_cache" where
  "removeAll fp c =
     (let c1 = (reset c)\<lparr>m_fileNumber := 0\<rparr>;
          path = utf8_bytes (m_filePath c);
          items = listDirectory fp (map ucast path) ''*.dcf'' (world c);
          w1 = unlink_items fp path items (world c);
          w2 = (case fp_append fp path (utf8_bytes (m_fatFileName c)) of None \<Rightarrow> w1 | Some full \<Rightarrow> fp_unlink fp full w1)
      in c1\<lparr>world := w2\<rparr>)"

section \<open>Eviction\<close>

lemma length_removeResourceByNumber:
  "n < length (m_resourceList c) \<Longrightarrow>
   length (m_resourceList (removeResourceByNumber fp n c)) = length (m_resourceList c) - 1"
  by (simp add: removeResourceByNumber_def Let_def delete_resource_def unlink_resource_def take_from_totals_def
      length_vector_remove)

function purge_loop :: "('w, 'f) file_peer \<Rightarrow> i64 \<Rightarrow> nat \<Rightarrow> i64 \<Rightarrow> 'w http_cache \<Rightarrow> i64 \<times> 'w http_cache" where
  "purge_loop fp sz num purgedSize c =
     (if num < length (m_resourceList c) then
        let x = deref c (m_resourceList c ! num)
        in if m_used x then purge_loop fp sz (num + 1) purgedSize c
           else
             let purgedSize' = purgedSize + m_contentLength x; c' = removeResourceByNumber fp num c
             in if sint sz < sint purgedSize' then (purgedSize', c') else purge_loop fp sz num purgedSize' c'
      else (purgedSize, c))"
  by pat_completeness auto
termination
  by (relation "measure (\<lambda>(fp, sz, num, p, c). length (m_resourceList c) - num)")
    (auto simp: length_removeResourceByNumber)

declare purge_loop.simps [simp del]

definition purgeBySizeInternal :: "('w, 'f) file_peer \<Rightarrow> i64 \<Rightarrow> 'w http_cache \<Rightarrow> i64 \<times> 'w http_cache" where
  "purgeBySizeInternal fp sz c = purge_loop fp sz 0 0 c"

definition set_all_unused :: "'w http_cache \<Rightarrow> 'w http_cache" where
  "set_all_unused c = foldl (\<lambda>c r. store r ((deref c r)\<lparr>m_used := False\<rparr>) c) c (m_resourceList c)"

definition purgeBySize :: "('w, 'f) file_peer \<Rightarrow> i64 \<Rightarrow> 'w http_cache \<Rightarrow> i64 \<times> 'w http_cache" where
  "purgeBySize fp sz c =
     (let (purgedSize, c1) = purgeBySizeInternal fp sz c
      in if sint purgedSize < sint sz
         then let (more, c2) = purgeBySizeInternal fp (sz - purgedSize) (set_all_unused c1)
              in (purgedSize + more, c2)
         else (purgedSize, c1))"

fun first_unused :: "'w http_cache \<Rightarrow> nat \<Rightarrow> rid list \<Rightarrow> nat option" where
  "first_unused c num [] = None"
| "first_unused c num (r # rs) = (if m_used (deref c r) then first_unused c (Suc num) rs else Some num)"

definition purgeOldest :: "('w, 'f) file_peer \<Rightarrow> 'w http_cache \<Rightarrow> i64 \<times> 'w http_cache" where
  "purgeOldest fp c =
     (case first_unused c 0 (m_resourceList c) of
        None \<Rightarrow> (0, c)
      | Some num \<Rightarrow> (m_contentLength (deref c (m_resourceList c ! num)), removeResourceByNumber fp num c))"

section \<open>Lookup\<close>

definition removeFragmentIdentifierIfNeeded :: "kurl \<Rightarrow> kurl" where
  \<comment> \<open>an HTTP URL is always parsed again, see \<open>KURL\<close>\<close>
  "removeFragmentIdentifierIfNeeded url =
     (if \<not> KURL_hasFragmentIdentifier url then url
      else if \<not> m_protocolIsInHTTPFamily url then url
      else (case removeFragmentIdentifier url of Some u \<Rightarrow> u | None \<Rightarrow> url))"

definition cache_key :: "kurl \<Rightarrow> wtf_string" where
  "cache_key url = of_latin1 (m_string (removeFragmentIdentifierIfNeeded url))"

definition resourceForURL :: "kurl \<Rightarrow> 'w http_cache \<Rightarrow> rid option" where
  "resourceForURL url c = m_resources c (cache_key url)"

text \<open>\<open>equalIgnoringCase\<close> of two strings; \<open>foldCase\<close> is the Unicode library's.\<close>

definition equalHTTPCachedResourceURL :: "(uchar \<Rightarrow> uchar) \<Rightarrow> rid \<Rightarrow> kurl \<Rightarrow> 'w http_cache \<Rightarrow> bool" where
  "equalHTTPCachedResourceURL foldCase r url c \<longleftrightarrow>
     map foldCase (m_url (deref c r)) = map foldCase (cache_key url)"

text \<open>Room in the total size and in the number of entries; false when nothing could be purged.\<close>

definition purge_for_size :: "('w, 'f) file_peer \<Rightarrow> int \<Rightarrow> 'w http_cache \<Rightarrow> bool \<times> 'w http_cache" where
  "purge_for_size fp contentLength c =
     (if sint (m_limitTotalContentsSize c) < sint (m_totalContentsSize c + word_of_int contentLength)
      then (let (p, c') = purgeBySize fp (word_of_int contentLength) c in (p \<noteq> 0, c'))
      else (True, c))"

definition purge_for_entry :: "('w, 'f) file_peer \<Rightarrow> 'w http_cache \<Rightarrow> bool \<times> 'w http_cache" where
  "purge_for_entry fp c =
     (if uint (m_limitContentEntries c) \<le> int (length (m_resourceList c))
      then (let (p, c') = purgeOldest fp c in (p \<noteq> 0, c'))
      else (True, c))"

definition createHTTPCachedResource :: "('w, 'f) file_peer \<Rightarrow> cached_resource \<Rightarrow> double \<Rightarrow> kurl \<Rightarrow> shared_buffer \<Rightarrow> response
    \<Rightarrow> bool \<Rightarrow> bool \<Rightarrow> double \<Rightarrow> double \<Rightarrow> 'w http_cache \<Rightarrow> rid option \<times> 'w http_cache" where
  "createHTTPCachedResource fp raw now url data resp noCache mustRevalidate expires maxAge c =
     (let contentLength = sint (word_of_int (m_size data) :: i32) in
      if m_disabled c then (None, c)
      else if sint (m_limitContentSize c) < contentLength then (None, c)
      else if sint (m_limitTotalContentsSize c) < contentLength then (None, c)
      else
        let (room, c1) = purge_for_size fp contentLength c
        in if \<not> room then (None, c1)
           else
             let (slot, c2) = purge_for_entry fp c1
             in if \<not> slot then (None, c2)
                else
                  let x = HTTPCachedResource_new raw now (cache_key url) resp;
                      x1 = setResourceData data (update x noCache mustRevalidate expires maxAge 0);
                      (r, c3) = new_resource x1 c2
                  in (Some r, c3))"

section \<open>Files\<close>

function decimal :: "int \<Rightarrow> string" where
  "decimal n = (if n < 10 then [char_of (48 + n)] else decimal (n div 10) @ [char_of (48 + n mod 10)])"
  by pat_completeness auto
termination
  by (relation "measure nat") auto

declare decimal.simps [simp del]

text \<open>\<open>String::format("%08d.dcf", m_fileNumber)\<close> for the non-negative numbers the cache uses.\<close>

definition file_name :: "int \<Rightarrow> string" where
  "file_name n = (let d = decimal n in replicate (8 - length d) (CHR ''0'') @ d @ ''.dcf'')"

definition makeFileName :: "'w http_cache \<Rightarrow> wtf_string \<times> 'w http_cache" where
  "makeFileName c =
     (of_latin1 (file_name (sint (m_fileNumber c))),
      c\<lparr>m_fileNumber := (if m_fileNumber c = 0x7fffffff then 0 else m_fileNumber c + 1)\<rparr>)"

definition cache_write :: "('w, 'f) file_peer \<Rightarrow> rid \<Rightarrow> 'w http_cache \<Rightarrow> (bool \<times> 'w http_cache) option" where
  "cache_write fp r c =
     (let contentLength = m_contentLength (deref c r);
          c1 = (if sint (m_limitTotalContentsSize c) < sint (m_totalContentsSize c + contentLength)
                then snd (purgeBySize fp contentLength c) else c);
          (name, c2) = makeFileName c1
      in map_option (\<lambda>(ok, x, w).
           let c3 = (store r x c2)\<lparr>world := w\<rparr>
           in if \<not> ok then (False, c3)
              else (True, c3\<lparr>m_resources := (case m_resources c3 (m_url x) of
                                 None \<Rightarrow> (m_resources c3)(m_url x := Some r) | Some _ \<Rightarrow> m_resources c3),
                             m_resourceList := m_resourceList c3 @ [r],
                             m_totalResourceSize := m_totalResourceSize c3 + m_resourceSize x,
                             m_totalContentsSize := m_totalContentsSize c3 + m_contentLength x\<rparr>))
         (writeFile fp (deref c2 r) name (m_filePath c2) (world c2)))"

definition cache_read :: "('w, 'f) file_peer \<Rightarrow> rid \<Rightarrow> 'w http_cache \<Rightarrow> (bool \<times> byte list \<times> 'w http_cache) option" where
  "cache_read fp r c =
     map_option (\<lambda>(ok, out, x, w). (ok, out, (store r x c)\<lparr>world := w\<rparr>))
       (readFile fp (deref c r) (m_filePath c) (world c))"

section \<open>The FAT file\<close>

definition CACHEFAT_FORMAT_VERSION :: u32 where
  "CACHEFAT_FORMAT_VERSION = 3"

definition serializeFATData :: "'w http_cache \<Rightarrow> byte list" where
  "serializeFATData c = concat (map (\<lambda>r. serialize (deref c r)) (m_resourceList c))"

definition digest :: "byte list \<Rightarrow> byte list" where
  "digest data = checksum (addBytes MD5_new data)"

text \<open>
  The zeroed buffer of \<open>totalSize\<close> bytes after \<open>serializeFATData\<close> and \<open>writeDigest\<close>. None: the entries
  do not fit, which in the source is a write beyond the buffer.
\<close>

definition fat_buffer :: "'w http_cache \<Rightarrow> byte list option" where
  "fat_buffer c =
     (let entries = serializeFATData c; room = sint (m_totalResourceSize c)
      in if room < int (length entries) then None
         else
           let body = put_u32 CACHEFAT_FORMAT_VERSION @ put_u32 (m_fileNumber c)
                 @ entries @ replicate (nat (room - int (length entries))) 0
           in Some (digest body @ body))"

function write_all :: "('w, 'f) file_peer \<Rightarrow> 'f \<Rightarrow> byte list \<Rightarrow> 'w \<Rightarrow> bool \<times> 'w" where
  "write_all fp fd buffer w =
     (if buffer = [] then (True, w)
      else
        let (written, w1) = fp_write fp fd buffer w
        in if written \<le> 0 then (False, w1) else write_all fp fd (drop (nat written) buffer) w1)"
  by pat_completeness auto
termination
  by (relation "measure (\<lambda>(fp, fd, buffer, w). length buffer)") auto

declare write_all.simps [simp del]

definition writeFATFile :: "('w, 'f) file_peer \<Rightarrow> 'w http_cache \<Rightarrow> (bool \<times> 'w http_cache) option" where
  "writeFATFile fp c =
     map_option (\<lambda>buf.
       case fp_open fp (utf8_bytes (pathByAppendingComponent fp (m_filePath c) (m_fatFileName c))) ''wb'' (world c) of
         (None, w1) \<Rightarrow> (False, c\<lparr>world := w1\<rparr>)
       | (Some fd, w1) \<Rightarrow> (let (ok, w2) = write_all fp fd buf w1 in (ok, c\<lparr>world := fp_close fp fd w2\<rparr>)))
     (fat_buffer c)"

definition verifyDigest :: "byte list \<Rightarrow> bool" where
  "verifyDigest data \<longleftrightarrow> 16 < length data \<and> take 16 data = digest (drop 16 data)"

lemma get_u64_shorter: "get_u64 buf = Some (v, rest) \<Longrightarrow> length rest < length buf"
  and get_u32_shorter: "get_u32 buf = Some (w, rest) \<Longrightarrow> length rest < length buf"
  by (auto simp: get_u64_def get_u32_def split: if_splits)

lemma readString_shorter: "readString buf = Some (s, rest) \<Longrightarrow> length rest \<le> length buf"
  by (auto simp: readString_def Let_def split: option.splits if_splits)

lemma deserialize_shorter: "deserialize buf = Some (x, rest) \<Longrightarrow> length rest < length buf"
  unfolding deserialize_def
  by (auto simp: Option.bind_eq_Some_conv dest!: get_u64_shorter get_u32_shorter readString_shorter)

function deserializeFATData :: "'w http_cache \<Rightarrow> byte list \<Rightarrow> 'w http_cache option" where
  "deserializeFATData c buffer =
     (if buffer = [] then Some c
      else
        case deserialize buffer of
          None \<Rightarrow> None
        | Some (x, rest) \<Rightarrow>
            let (r, c1) = new_resource x c
            in deserializeFATData (snd (addCachedResource r c1)) rest)"
  by pat_completeness auto
termination
  by (relation "measure (\<lambda>(c, buffer). length buffer)") (auto dest: deserialize_shorter)

declare deserializeFATData.simps [simp del]

text \<open>The test \<open>len <= 0\<close> after the header cannot hold: the file is longer than the header.\<close>

definition readFATFile :: "('w, 'f) file_peer \<Rightarrow> 'w http_cache \<Rightarrow> (bool \<times> 'w http_cache) option" where
  "readFATFile fp c =
     (case fp_open fp (utf8_bytes (pathByAppendingComponent fp (m_filePath c) (m_fatFileName c))) ''rb'' (world c) of
        (None, w1) \<Rightarrow> Some (False, c\<lparr>world := w1\<rparr>)
      | (Some fd, w1) \<Rightarrow>
          (case fp_stat fp fd w1 of
             None \<Rightarrow> Some (False, c\<lparr>world := fp_close fp fd w1\<rparr>)
           | Some sz \<Rightarrow>
               if sz \<le> 24 then Some (False, c\<lparr>world := fp_close fp fd w1\<rparr>)
               else
                 let (len, buf, w2) = fp_read fp fd sz w1; c1 = c\<lparr>world := fp_close fp fd w2\<rparr>
                 in if len \<noteq> sz then Some (False, c1)
                    else if \<not> verifyDigest buf then Some (False, removeAll fp c1)
                    else
                      case get_u32 (drop 16 buf) of None \<Rightarrow> None | Some (version, b1) \<Rightarrow>
                      if version \<noteq> CACHEFAT_FORMAT_VERSION then Some (False, removeAll fp c1)
                      else
                        case get_u32 b1 of None \<Rightarrow> None | Some (fileNumber, b2) \<Rightarrow>
                        map_option (\<lambda>c2. (True, c2)) (deserializeFATData (c1\<lparr>m_fileNumber := fileNumber\<rparr>) b2)))"

section \<open>Settings\<close>

definition setDisabled :: "bool \<Rightarrow> 'w http_cache \<Rightarrow> 'w http_cache" where
  "setDisabled disabled c = c\<lparr>m_disabled := disabled\<rparr>"

definition setMaxContentEntries :: "i32 \<Rightarrow> 'w http_cache \<Rightarrow> 'w http_cache" where
  "setMaxContentEntries limit c = c\<lparr>m_limitContentEntries := (if sint limit \<le> 0 then 0x7fffffff else limit)\<rparr>"

definition setMaxContentSize :: "i64 \<Rightarrow> 'w http_cache \<Rightarrow> 'w http_cache" where
  "setMaxContentSize limit c = c\<lparr>m_limitContentSize := (if sint limit \<le> 0 then 0x7fffffffffffffff else limit)\<rparr>"

definition setMaxTotalCacheSize :: "('w, 'f) file_peer \<Rightarrow> i64 \<Rightarrow> 'w http_cache \<Rightarrow> 'w http_cache option" where
  "setMaxTotalCacheSize fp limit c =
     (let l = (if sint limit \<le> 0 then 0x7fffffffffffffff else limit);
          c1 = c\<lparr>m_limitTotalContentsSize := l\<rparr>
      in if sint l < sint (m_totalContentsSize c)
         then map_option snd (writeFATFile fp (snd (purgeBySize fp (m_totalContentsSize c - l) c1)))
         else Some c1)"

definition setFilePath :: "('w, 'f) file_peer \<Rightarrow> byte list \<Rightarrow> 'w http_cache \<Rightarrow> 'w http_cache option" where
  \<comment> \<open>an empty list stands for a null or empty path\<close>
  "setFilePath fp path c =
     (if path = [] then Some c
      else if m_filePath c = map ucast path then Some c
      else
        let c1 = c\<lparr>m_filePath := from_utf8 path\<rparr>
        in map_option snd (readFATFile fp (c1\<lparr>world := fp_mkdirs fp (utf8_bytes (m_filePath c1)) (world c1)\<rparr>)))"

section \<open>Invariant\<close>

text \<open>
  The list holds live entries, each once, and exactly the entries of the map, under their URLs;
  the total of the record sizes is the sum over the list, and each record size is up to date.
\<close>

definition cache_inv :: "'w http_cache \<Rightarrow> bool" where
  "cache_inv c \<longleftrightarrow>
     distinct (m_resourceList c)
     \<and> (\<forall>r \<in> set (m_resourceList c). heap c r \<noteq> None \<and> m_resources c (m_url (deref c r)) = Some r)
     \<and> (\<forall>u r. m_resources c u = Some r \<longrightarrow> r \<in> set (m_resourceList c) \<and> m_url (deref c r) = u)
     \<and> (\<forall>r. heap c r \<noteq> None \<longrightarrow> r < next_rid c)
     \<and> m_totalResourceSize c = sum_list (map (\<lambda>r. m_resourceSize (deref c r)) (m_resourceList c))
     \<and> (\<forall>r \<in> set (m_resourceList c). m_resourceSize (deref c r) = of_nat (record_size (deref c r)))"

text \<open>The total of the body sizes is the sum over the list.\<close>

definition contents_inv :: "'w http_cache \<Rightarrow> bool" where
  "contents_inv c \<longleftrightarrow> m_totalContentsSize c = sum_list (map (\<lambda>r. m_contentLength (deref c r)) (m_resourceList c))"

lemma cache_invD:
  assumes "cache_inv c"
  shows "distinct (m_resourceList c)" "r \<in> set (m_resourceList c) \<Longrightarrow> heap c r \<noteq> None"
    "r \<in> set (m_resourceList c) \<Longrightarrow> m_resources c (m_url (deref c r)) = Some r"
    "m_resources c u = Some r \<Longrightarrow> r \<in> set (m_resourceList c)" "m_resources c u = Some r \<Longrightarrow> m_url (deref c r) = u"
    "heap c r \<noteq> None \<Longrightarrow> r < next_rid c"
    "m_totalResourceSize c = sum_list (map (\<lambda>r. m_resourceSize (deref c r)) (m_resourceList c))"
    "r \<in> set (m_resourceList c) \<Longrightarrow> m_resourceSize (deref c r) = of_nat (record_size (deref c r))"
  using assms unfolding cache_inv_def by blast+

named_theorems cache_ops \<open>definitions of the operations that only move or delete entries\<close>

lemmas [cache_ops] = removeResource_def take_from_totals_def delete_resource_def unlink_resource_def store_def

lemma remove_first_eq [simp]: "remove_first r xs = remove1 r xs"
  by (induction xs) auto

lemma vector_remove_distinct: "distinct xs \<Longrightarrow> n < length xs \<Longrightarrow> vector_remove n xs = remove1 (xs ! n) xs"
proof (induction xs arbitrary: n)
  case (Cons x xs)
  then show ?case by (cases n) auto
qed simp

lemma removeByNumber_remove:
  "distinct (m_resourceList c) \<Longrightarrow> n < length (m_resourceList c) \<Longrightarrow>
   removeResourceByNumber fp n c = remove fp (m_resourceList c ! n) c"
  by (simp add: removeResourceByNumber_def remove_def removeResource_def Let_def vector_remove_distinct)

lemma sum_remove1: "r \<in> set xs \<Longrightarrow> sum_list (map f (remove1 r xs)) = sum_list (map f xs) - (f r :: 'a::ab_group_add)"
  by (simp add: sum_list_map_remove1)

lemma deref_world [simp]: "deref (c\<lparr>world := w\<rparr>) = deref c"
  by (simp add: deref_def fun_eq_iff)

lemma cache_url_inject:
  "cache_inv c \<Longrightarrow> r \<in> set (m_resourceList c) \<Longrightarrow> r' \<in> set (m_resourceList c) \<Longrightarrow>
   m_url (deref c r) = m_url (deref c r') \<Longrightarrow> r = r'"
  using cache_invD(3) by (metis option.inject)

lemma inv_removeResource:
  assumes "cache_inv c" "r \<in> set (m_resourceList c)"
  shows "cache_inv (removeResource r c)" "contents_inv c \<Longrightarrow> contents_inv (removeResource r c)"
proof -
  note D = cache_invD [OF assms(1)]
  have "\<And>r'. r' \<in> set (m_resourceList c) \<Longrightarrow> r' \<noteq> r \<Longrightarrow> m_url (deref c r') \<noteq> m_url (deref c r)"
    using cache_url_inject [OF assms(1)] assms(2) by blast
  then show "cache_inv (removeResource r c)"
    using D assms(2) by (auto simp: cache_inv_def cache_ops deref_def sum_remove1 dest: notin_set_remove1)
  show "contents_inv c \<Longrightarrow> contents_inv (removeResource r c)"
    using assms(2) by (simp add: contents_inv_def cache_ops deref_def sum_remove1)
qed

lemma inv_world [simp]: "cache_inv (c\<lparr>world := w\<rparr>) = cache_inv c" "contents_inv (c\<lparr>world := w\<rparr>) = contents_inv c"
  by (simp_all add: cache_inv_def contents_inv_def)

lemma inv_delete:
  assumes "cache_inv c" "r \<notin> set (m_resourceList c)"
  shows "cache_inv (delete_resource r c)" "contents_inv (delete_resource r c) = contents_inv c"
proof -
  have m: "map (\<lambda>ra. f (the (if ra = r then None else heap c ra))) (m_resourceList c) = map (\<lambda>ra. f (the (heap c ra))) (m_resourceList c)" for f :: "_ \<Rightarrow> 'b word"
    using assms(2) by (intro map_cong) auto
  have m': "map (\<lambda>ra. f (the (if ra = r then None else heap c ra))) (m_resourceList c) = map (\<lambda>ra. f (the (heap c ra))) (m_resourceList c)" for f :: "_ \<Rightarrow> 64 word"
    using assms(2) by (intro map_cong) auto
  show "cache_inv (delete_resource r c)"
    using cache_invD [OF assms(1)] assms(2) unfolding cache_inv_def
    by (auto simp: delete_resource_def deref_def m split: if_splits)
  show "contents_inv (delete_resource r c) = contents_inv c"
    by (simp add: contents_inv_def delete_resource_def deref_def m')
qed

lemma inv_remove:
  assumes "cache_inv c" "r \<in> set (m_resourceList c)"
  shows "cache_inv (remove fp r c)" "contents_inv c \<Longrightarrow> contents_inv (remove fp r c)"
    "m_resourceList (remove fp r c) = remove1 r (m_resourceList c)"
proof -
  have "r \<notin> set (m_resourceList (unlink_resource fp (deref c r) (removeResource r c)))"
    using cache_invD(1) [OF assms(1)] by (simp add: cache_ops)
  moreover have "cache_inv (unlink_resource fp (deref c r) (removeResource r c))"
    "contents_inv c \<Longrightarrow> contents_inv (unlink_resource fp (deref c r) (removeResource r c))"
    using inv_removeResource [OF assms] by (simp_all add: unlink_resource_def)
  ultimately show "cache_inv (remove fp r c)" "contents_inv c \<Longrightarrow> contents_inv (remove fp r c)"
    unfolding remove_def by (simp_all add: inv_delete)
  show "m_resourceList (remove fp r c) = remove1 r (m_resourceList c)" by (simp add: remove_def cache_ops)
qed

lemma inv_detach:
  assumes "cache_inv c" "r \<in> set (m_resourceList c)"
  shows "cache_inv (detach fp r c)" "contents_inv c \<Longrightarrow> contents_inv (detach fp r c)"
  using inv_removeResource [OF assms] by (simp_all add: detach_def unlink_resource_def)

lemma store_simps [simp]:
  "m_resourceList (store r x c) = m_resourceList c" "m_resources (store r x c) = m_resources c"
  "m_totalResourceSize (store r x c) = m_totalResourceSize c" "m_totalContentsSize (store r x c) = m_totalContentsSize c"
  "next_rid (store r x c) = next_rid c" "heap (store r x c) ra \<noteq> None \<longleftrightarrow> ra = r \<or> heap c ra \<noteq> None"
  "deref (store r x c) ra = (if ra = r then x else deref c ra)"
  by (simp_all add: store_def deref_def)

text \<open>An entry of the list may change in what the invariant does not mention.\<close>

lemma inv_store_same:
  assumes "cache_inv c" "heap c r \<noteq> None"
    and "m_url x = m_url (deref c r)" "m_resourceSize x = m_resourceSize (deref c r)" "record_size x = record_size (deref c r)"
  shows "cache_inv (store r x c)" "m_contentLength x = m_contentLength (deref c r) \<Longrightarrow> contents_inv (store r x c) = contents_inv c"
proof -
  have u: "m_url (deref (store r x c) ra) = m_url (deref c ra)"
    "m_resourceSize (deref (store r x c) ra) = m_resourceSize (deref c ra)"
    "record_size (deref (store r x c) ra) = record_size (deref c ra)" for ra
    using assms(3-5) by simp_all
  show "cache_inv (store r x c)"
    unfolding cache_inv_def u store_simps(1-6) using cache_invD [OF assms(1)] assms(2) by blast
  assume "m_contentLength x = m_contentLength (deref c r)"
  then have "m_contentLength (deref (store r x c) ra) = m_contentLength (deref c ra)" for ra by simp
  then show "contents_inv (store r x c) = contents_inv c" by (simp only: contents_inv_def store_simps(1-4))
qed

lemma inv_store_other:
  assumes "cache_inv c" "heap c r \<noteq> None" "r \<notin> set (m_resourceList c)"
  shows "cache_inv (store r x c)" "contents_inv (store r x c) = contents_inv c"
proof -
  have d: "deref (store r x c) ra = deref c ra" if "ra \<in> set (m_resourceList c)" for ra using that assms(3) by auto
  have m: "map (\<lambda>r'. f (deref (store r x c) r')) (m_resourceList c) = map (\<lambda>r. f (deref c r)) (m_resourceList c)" for f :: "_ \<Rightarrow> 32 word"
    using d by simp
  have m': "map (\<lambda>r'. f (deref (store r x c) r')) (m_resourceList c) = map (\<lambda>r. f (deref c r)) (m_resourceList c)" for f :: "_ \<Rightarrow> 64 word"
    using d by simp
  show "cache_inv (store r x c)"
    unfolding cache_inv_def m store_simps(1-6)
  proof (intro conjI ballI allI impI)
    fix ra assume "ra \<in> set (m_resourceList c)"
    then show "m_resources c (m_url (deref (store r x c) ra)) = Some ra"
      "m_resourceSize (deref (store r x c) ra) = of_nat (record_size (deref (store r x c) ra))"
      using cache_invD(3,8) [OF assms(1)] d by simp_all
  next
    fix u ra assume "m_resources c u = Some ra"
    then show "m_url (deref (store r x c) ra) = u" using cache_invD(4,5) [OF assms(1)] d by simp
  qed (use cache_invD [OF assms(1)] assms(2) in blast)+
  show "contents_inv (store r x c) = contents_inv c" by (simp only: contents_inv_def store_simps(1-4) m')
qed

section \<open>Eviction keeps the invariant and frees what it reports\<close>

lemma inv_set_all_unused:
  assumes "cache_inv c"
  shows "cache_inv (set_all_unused c)" "contents_inv (set_all_unused c) = contents_inv c"
    "m_resourceList (set_all_unused c) = m_resourceList c"
    "\<forall>r. r \<in> set (m_resourceList c) \<longrightarrow> \<not> m_used (deref (set_all_unused c) r)"
    "\<forall>r. m_contentLength (deref (set_all_unused c) r) = m_contentLength (deref c r)"
    "\<forall>r. m_url (deref (set_all_unused c) r) = m_url (deref c r)"
    "dom (heap (set_all_unused c)) = dom (heap c)"
    "m_resources (set_all_unused c) = m_resources c"
    "m_totalContentsSize (set_all_unused c) = m_totalContentsSize c"
    "m_disabled (set_all_unused c) = m_disabled c" "next_rid (set_all_unused c) = next_rid c"
proof -
  define unset where "unset = (\<lambda>(c::'a http_cache) r. store r ((deref c r)\<lparr>m_used := False\<rparr>) c)"
  have "cache_inv (foldl unset c rs) \<and> contents_inv (foldl unset c rs) = contents_inv c
      \<and> m_resourceList (foldl unset c rs) = m_resourceList c
      \<and> (\<forall>r \<in> set rs. \<not> m_used (deref (foldl unset c rs) r))
      \<and> (\<forall>r. \<not> m_used (deref c r) \<longrightarrow> \<not> m_used (deref (foldl unset c rs) r))
      \<and> (\<forall>r. m_contentLength (deref (foldl unset c rs) r) = m_contentLength (deref c r))
      \<and> (\<forall>r. m_url (deref (foldl unset c rs) r) = m_url (deref c r))
      \<and> dom (heap (foldl unset c rs)) = dom (heap c)
      \<and> m_resources (foldl unset c rs) = m_resources c
      \<and> m_totalContentsSize (foldl unset c rs) = m_totalContentsSize c
      \<and> m_disabled (foldl unset c rs) = m_disabled c \<and> next_rid (foldl unset c rs) = next_rid c"
    if "cache_inv c" "set rs \<subseteq> set (m_resourceList c)" for rs and c :: "'a http_cache"
    using that
  proof (induction rs arbitrary: c)
    case (Cons r rs)
    let ?c = "unset c r"
    have live: "heap c r \<noteq> None" using Cons.prems cache_invD(2) by force
    have i: "cache_inv ?c" "contents_inv ?c = contents_inv c"
      unfolding unset_def by (rule inv_store_same [OF Cons.prems(1) live]; simp add: record_size_def)+
    have s: "m_resourceList ?c = m_resourceList c" "m_resources ?c = m_resources c" "m_totalContentsSize ?c = m_totalContentsSize c"
      "m_disabled ?c = m_disabled c" "next_rid ?c = next_rid c" "dom (heap ?c) = dom (heap c)"
      "\<forall>ra. m_contentLength (deref ?c ra) = m_contentLength (deref c ra)" "\<forall>ra. m_url (deref ?c ra) = m_url (deref c ra)"
      "\<not> m_used (deref ?c r)" "\<forall>ra. \<not> m_used (deref c ra) \<longrightarrow> \<not> m_used (deref ?c ra)"
      using live by (auto simp: unset_def store_def deref_def)
    from Cons.IH [OF i(1)] Cons.prems(2) s i(2) show ?case by auto
  qed simp
  from this [OF assms order_refl]
  show "cache_inv (set_all_unused c)" "contents_inv (set_all_unused c) = contents_inv c"
    "m_resourceList (set_all_unused c) = m_resourceList c"
    "\<forall>r. r \<in> set (m_resourceList c) \<longrightarrow> \<not> m_used (deref (set_all_unused c) r)"
    "\<forall>r. m_contentLength (deref (set_all_unused c) r) = m_contentLength (deref c r)"
    "\<forall>r. m_url (deref (set_all_unused c) r) = m_url (deref c r)"
    "dom (heap (set_all_unused c)) = dom (heap c)"
    "m_resources (set_all_unused c) = m_resources c"
    "m_totalContentsSize (set_all_unused c) = m_totalContentsSize c"
    "m_disabled (set_all_unused c) = m_disabled c" "next_rid (set_all_unused c) = next_rid c"
    unfolding set_all_unused_def unset_def by blast+
qed

text \<open>The sum of the body sizes of some entries, as integers.\<close>

definition body_sum :: "'w http_cache \<Rightarrow> int" where
  "body_sum c = sum_list (map (\<lambda>r. sint (m_contentLength (deref c r))) (m_resourceList c))"

definition bodies_ok :: "'w http_cache \<Rightarrow> bool" where
  "bodies_ok c \<longleftrightarrow> (\<forall>r \<in> set (m_resourceList c). 0 \<le> sint (m_contentLength (deref c r)))"

lemma body_sum_nonneg: "bodies_ok c \<Longrightarrow> 0 \<le> body_sum c"
  by (auto simp: bodies_ok_def body_sum_def intro!: sum_list_nonneg)

text \<open>What evicting some entries leaves as it was: the other entries and the settings.\<close>

definition evicts :: "'w http_cache \<Rightarrow> 'w http_cache \<Rightarrow> bool" where
  "evicts c c' \<longleftrightarrow>
     set (m_resourceList c') \<subseteq> set (m_resourceList c)
     \<and> (\<forall>r. r \<notin> set (m_resourceList c) \<or> r \<in> set (m_resourceList c') \<longrightarrow> heap c' r = heap c r)
     \<and> (\<forall>u. m_resources c u = None \<longrightarrow> m_resources c' u = None)
     \<and> m_disabled c' = m_disabled c \<and> next_rid c' = next_rid c \<and> m_filePath c' = m_filePath c
     \<and> m_fatFileName c' = m_fatFileName c \<and> m_fileNumber c' = m_fileNumber c"

lemma evicts_refl: "evicts c c"
  by (simp add: evicts_def)

lemma evicts_trans: "evicts c d \<Longrightarrow> evicts d e \<Longrightarrow> evicts c e"
  unfolding evicts_def by (metis (no_types, lifting) subset_iff)

lemma evicts_deref: "evicts c c' \<Longrightarrow> r \<in> set (m_resourceList c') \<Longrightarrow> deref c' r = deref c r"
  by (simp add: evicts_def deref_def)

lemma remove_evicts:
  assumes "cache_inv c" "r \<in> set (m_resourceList c)"
  shows "evicts c (remove fp r c)"
    and "m_totalContentsSize (remove fp r c) = m_totalContentsSize c - m_contentLength (deref c r)"
    and "body_sum (remove fp r c) = body_sum c - sint (m_contentLength (deref c r))"
    and "bodies_ok c \<Longrightarrow> bodies_ok (remove fp r c)"
    and "r' \<in> set (m_resourceList (remove fp r c)) \<Longrightarrow> deref (remove fp r c) r' = deref c r'"
proof -
  have d: "distinct (m_resourceList c)" using cache_invD(1) [OF assms(1)] .
  show ev: "evicts c (remove fp r c)"
    using d assms(2) by (auto simp: evicts_def remove_def cache_ops)
  show "m_totalContentsSize (remove fp r c) = m_totalContentsSize c - m_contentLength (deref c r)"
    by (simp add: remove_def cache_ops)
  show eq: "r' \<in> set (m_resourceList (remove fp r c)) \<Longrightarrow> deref (remove fp r c) r' = deref c r'" for r'
    by (rule evicts_deref [OF ev])
  have "body_sum (remove fp r c) = sum_list (map (\<lambda>r. sint (m_contentLength (deref c r))) (remove1 r (m_resourceList c)))"
    unfolding body_sum_def inv_remove(3) [OF assms]
    by (intro arg_cong [where f = sum_list] map_cong refl) (simp add: eq inv_remove(3) [OF assms])
  then show "body_sum (remove fp r c) = body_sum c - sint (m_contentLength (deref c r))"
    using assms(2) by (simp add: body_sum_def sum_remove1)
  show "bodies_ok c \<Longrightarrow> bodies_ok (remove fp r c)"
    using eq ev by (auto simp: bodies_ok_def evicts_def)
qed

lemma sint_add: "- (2 ^ 63) \<le> sint a + sint b \<Longrightarrow> sint a + sint b < 2 ^ 63 \<Longrightarrow> sint (a + b) = sint a + sint b" for a b :: i64
  by (simp add: sint_word_ariths(1) signed_take_bit_int_eq_self)

text \<open>The contract of one pass of eviction that starts with \<open>p\<close> bytes purged.\<close>

definition purged :: "i64 \<Rightarrow> 'w http_cache \<Rightarrow> i64 \<Rightarrow> 'w http_cache \<Rightarrow> bool" where
  "purged p c p' c' \<longleftrightarrow> cache_inv c' \<and> (contents_inv c \<longrightarrow> contents_inv c') \<and> evicts c c'
     \<and> m_totalContentsSize c' = m_totalContentsSize c - (p' - p)
     \<and> (bodies_ok c \<and> 0 \<le> sint p \<and> sint p + body_sum c < 2 ^ 63 \<longrightarrow>
          bodies_ok c' \<and> 0 \<le> sint p' \<and> sint p' + body_sum c' = sint p + body_sum c)"

lemma purged_refl: "cache_inv c \<Longrightarrow> purged p c p c"
  by (simp add: purged_def evicts_refl)

lemma purged_trans: "purged p c q d \<Longrightarrow> purged q d s e \<Longrightarrow> purged p c s e"
  unfolding purged_def using evicts_trans by (simp add: algebra_simps) blast

lemma purged_remove:
  assumes "cache_inv c" "r \<in> set (m_resourceList c)"
  shows "purged p c (p + m_contentLength (deref c r)) (remove fp r c)"
proof -
  let ?n = "sint (m_contentLength (deref c r))"
  note ev = remove_evicts [OF assms, where fp = fp]
  have "sint (p + m_contentLength (deref c r)) = sint p + ?n"
    if "bodies_ok c" "0 \<le> sint p" "sint p + body_sum c < 2 ^ 63"
  proof (rule sint_add)
    have "0 \<le> ?n" using that(1) assms(2) by (simp add: bodies_ok_def)
    moreover have "?n \<le> body_sum c" using ev(3) body_sum_nonneg [OF ev(4) [OF that(1)]] by simp
    ultimately show "- (2 ^ 63) \<le> sint p + ?n" "sint p + ?n < 2 ^ 63" using that(2,3) by simp_all
  qed
  moreover have "bodies_ok c \<Longrightarrow> 0 \<le> ?n" using assms(2) by (simp add: bodies_ok_def)
  ultimately show ?thesis using ev inv_remove [OF assms, where fp = fp] unfolding purged_def by simp
qed

lemma purge_loop_props:
  assumes "cache_inv c" "purge_loop fp sz num p c = (p', c')"
  shows "purged p c p' c' \<and> (num \<le> length (m_resourceList c) \<and> (\<forall>i < num. m_used (deref c (m_resourceList c ! i))) \<longrightarrow>
       sint sz < sint p' \<or> (\<forall>r \<in> set (m_resourceList c'). m_used (deref c' r)))"
  using assms
proof (induction fp sz num p c arbitrary: p' c' rule: purge_loop.induct)
  case (1 fp sz num p c)
  let ?l = "m_resourceList c"
  let ?x = "deref c (?l ! num)"
  show ?case
  proof (cases "num < length ?l")
    case F: False
    then have "p' = p" "c' = c" using "1.prems"(2) by (simp_all add: purge_loop.simps)
    then show ?thesis using F "1.prems"(1) by (auto simp: purged_refl in_set_conv_nth)
  next
    case num: True
    show ?thesis
    proof (cases "m_used ?x")
      case True
      then have "purge_loop fp sz (num + 1) p c = (p', c')"
        using "1.prems"(2) num by (simp add: purge_loop.simps [of fp sz num])
      from "1.IH"(1) [OF num refl True "1.prems"(1) this] num True show ?thesis by (auto simp: less_Suc_eq)
    next
      case False
      let ?q = "p + m_contentLength ?x" and ?c = "removeResourceByNumber fp num c"
      have r: "?l ! num \<in> set ?l" and d: "distinct ?l" using num cache_invD(1) [OF "1.prems"(1)] by simp_all
      have rm: "?c = remove fp (?l ! num) c" by (rule removeByNumber_remove [OF d num])
      have step: "purged p c ?q ?c" unfolding rm by (rule purged_remove [OF "1.prems"(1) r])
      have inv: "cache_inv ?c" using step by (simp add: purged_def)
      show ?thesis
      proof (cases "sint sz < sint ?q")
        case True
        then have "p' = ?q" "c' = ?c" using "1.prems"(2) num False by (simp_all add: purge_loop.simps [of fp sz num] Let_def)
        then show ?thesis using step True by simp
      next
        case ns: False
        then have "purge_loop fp sz num ?q ?c = (p', c')"
          using "1.prems"(2) num False by (simp add: purge_loop.simps [of fp sz num] Let_def)
        from "1.IH"(2) [OF num refl False refl refl ns inv this]
        have IH: "purged ?q ?c p' c'" "num \<le> length (m_resourceList ?c) \<Longrightarrow>
            (\<forall>i < num. m_used (deref ?c (m_resourceList ?c ! i))) \<Longrightarrow>
            sint sz < sint p' \<or> (\<forall>r \<in> set (m_resourceList c'). m_used (deref c' r))" by blast+
        have l: "m_resourceList ?c = vector_remove num ?l"
          by (simp add: removeResourceByNumber_def Let_def delete_resource_def unlink_resource_def take_from_totals_def)
        have "m_used (deref ?c (m_resourceList ?c ! i))" if "i < num" "\<forall>i < num. m_used (deref c (?l ! i))" for i
        proof -
          have i: "m_resourceList ?c ! i = ?l ! i" "i < length (m_resourceList ?c)"
            using that(1) num unfolding l by (simp_all add: vector_remove_def nth_append)
          then have "?l ! i \<in> set (m_resourceList ?c)" by (metis nth_mem)
          then show ?thesis using evicts_deref step that i(1) by (metis purged_def)
        qed
        moreover have "num \<le> length (m_resourceList ?c)" using num by (simp add: l length_vector_remove)
        ultimately show ?thesis using IH purged_trans [OF step] by blast
      qed
    qed
  qed
qed

lemma purgeInternal_props:
  assumes "cache_inv c" "purgeBySizeInternal fp sz c = (p, c')"
  shows "purged 0 c p c'" "sint sz < sint p \<or> (\<forall>r \<in> set (m_resourceList c'). m_used (deref c' r))"
  using purge_loop_props [OF assms [unfolded purgeBySizeInternal_def]] by simp_all


lemma bodies_unused:
  assumes "cache_inv c"
  shows "body_sum (set_all_unused c) = body_sum c" "bodies_ok (set_all_unused c) = bodies_ok c"
  using inv_set_all_unused(3,5) [OF assms] by (simp_all add: body_sum_def bodies_ok_def)

text \<open>What \<open>purgeBySize\<close> leaves as it was: like \<open>evicts\<close>, but marks may be taken back.\<close>

definition trims :: "'w http_cache \<Rightarrow> 'w http_cache \<Rightarrow> bool" where
  "trims c c' \<longleftrightarrow>
     set (m_resourceList c') \<subseteq> set (m_resourceList c)
     \<and> (\<forall>r. r \<notin> set (m_resourceList c) \<longrightarrow> heap c' r = heap c r)
     \<and> (\<forall>u. m_resources c u = None \<longrightarrow> m_resources c' u = None)
     \<and> m_disabled c' = m_disabled c \<and> next_rid c' = next_rid c \<and> m_filePath c' = m_filePath c
     \<and> m_fatFileName c' = m_fatFileName c \<and> m_fileNumber c' = m_fileNumber c"

lemma evicts_trims: "evicts c c' \<Longrightarrow> trims c c'"
  by (simp add: evicts_def trims_def)

lemma trims_trans: "trims c d \<Longrightarrow> trims d e \<Longrightarrow> trims c e"
  unfolding trims_def by (metis (no_types, lifting) subset_iff)

lemma trims_refl: "trims c c"
  by (simp add: trims_def)

lemma trims_unused: "cache_inv c \<Longrightarrow> trims c (set_all_unused c)"
proof -
  have "foldl (\<lambda>c r. store r ((deref c r)\<lparr>m_used := False\<rparr>) c) c rs
      = c\<lparr>heap := heap (foldl (\<lambda>c r. store r ((deref c r)\<lparr>m_used := False\<rparr>) c) c rs)\<rparr>
    \<and> (\<forall>r. r \<notin> set rs \<longrightarrow> heap (foldl (\<lambda>c r. store r ((deref c r)\<lparr>m_used := False\<rparr>) c) c rs) r = heap c r)"
    for c :: "'a http_cache" and rs
  proof (induction rs arbitrary: c)
    case (Cons r rs)
    let ?c = "store r ((deref c r)\<lparr>m_used := False\<rparr>) c"
    have s: "?c = c\<lparr>heap := heap ?c\<rparr>" "\<forall>ra. ra \<noteq> r \<longrightarrow> heap ?c ra = heap c ra" by (simp_all add: store_def)
    show ?case using Cons.IH [of ?c] s by (metis (no_types, lifting) foldl_Cons http_cache.surjective http_cache.update_convs(12) list.set_intros(1) list.set_intros(2))
  qed simp
  from this [of c "m_resourceList c"] show ?thesis
    unfolding trims_def set_all_unused_def by (metis (no_types, lifting) http_cache.ext_inject http_cache.surjective http_cache.update_convs(12) subset_refl)
qed

text \<open>A pass never evicts an entry in use.\<close>

lemma purge_loop_keeps_used:
  assumes "cache_inv c" "purge_loop fp sz num p c = (p', c')" "r \<in> set (m_resourceList c)" "m_used (deref c r)"
  shows "r \<in> set (m_resourceList c')"
  using assms
proof (induction fp sz num p c arbitrary: p' c' rule: purge_loop.induct)
  case (1 fp sz num p c)
  let ?l = "m_resourceList c"
  let ?x = "deref c (?l ! num)" and ?c = "removeResourceByNumber fp num c"
  show ?case
  proof (cases "num < length ?l \<and> \<not> m_used ?x")
    case True
    have mem: "?l ! num \<in> set ?l" and ne: "?l ! num \<noteq> r" using True "1.prems"(4) by auto
    have rm: "?c = remove fp (?l ! num) c"
      using removeByNumber_remove [OF cache_invD(1) [OF "1.prems"(1)]] True by blast
    note inv = inv_remove [OF "1.prems"(1) mem, where fp = fp, folded rm]
    have r': "r \<in> set (m_resourceList ?c)" using inv(3) ne "1.prems"(3) by simp
    have used: "m_used (deref ?c r)"
      using remove_evicts(5) [OF "1.prems"(1) mem r' [unfolded rm]] "1.prems"(4) rm by simp
    show ?thesis
    proof (cases "sint sz < sint (p + m_contentLength ?x)")
      case le: True
      then have "c' = ?c" using "1.prems"(2) True by (simp add: purge_loop.simps [of fp sz num] Let_def)
      then show ?thesis using r' by simp
    next
      case F: False
      then have "purge_loop fp sz num (p + m_contentLength ?x) ?c = (p', c')"
        using "1.prems"(2) True by (simp add: purge_loop.simps [of fp sz num] Let_def)
      from "1.IH"(2) [OF conjunct1 [OF True] refl conjunct2 [OF True] refl refl F inv(1) this r' used]
      show ?thesis .
    qed
  next
    case False
    show ?thesis
    proof (cases "num < length ?l")
      case num: True
      then have used: "m_used ?x" using False by simp
      then have "purge_loop fp sz (num + 1) p c = (p', c')"
        using "1.prems"(2) num by (simp add: purge_loop.simps [of fp sz num])
      from "1.IH"(1) [OF num refl used "1.prems"(1) this "1.prems"(3,4)] show ?thesis .
    next
      case num: False
      then show ?thesis using "1.prems"(2,3) by (simp add: purge_loop.simps)
    qed
  qed
qed

text \<open>The contract of \<open>purgeBySize\<close>.\<close>

definition made_room :: "i64 \<Rightarrow> 'w http_cache \<Rightarrow> i64 \<Rightarrow> 'w http_cache \<Rightarrow> bool" where
  "made_room sz c p c' \<longleftrightarrow> cache_inv c' \<and> (contents_inv c \<longrightarrow> contents_inv c') \<and> trims c c'
     \<and> m_totalContentsSize c' = m_totalContentsSize c - p
     \<and> (sint sz \<le> sint p \<or> m_resourceList c' = [] \<or> \<not> (bodies_ok c \<and> body_sum c < 2 ^ 63))
     \<and> ((\<forall>r \<in> set (m_resourceList c). m_used (deref c r) \<longrightarrow> r \<in> set (m_resourceList c'))
        \<or> (\<forall>r \<in> set (m_resourceList c'). m_used (deref c r)))"

lemma second_pass_empties:
  assumes "cache_inv c" "purgeBySizeInternal fp sz (set_all_unused c) = (p, c')" "\<not> sint sz < sint p"
  shows "m_resourceList c' = []"
proof -
  note u = inv_set_all_unused [OF assms(1)] and pp = purgeInternal_props [OF _ assms(2)]
  have ev: "evicts (set_all_unused c) c'" using pp(1) [OF u(1)] by (simp add: purged_def)
  have "\<not> m_used (deref c' r)" if "r \<in> set (m_resourceList c')" for r
    using evicts_deref [OF ev that] u(3,4) ev that by (auto simp: evicts_def)
  then show ?thesis using pp(2) [OF u(1)] assms(3) by fastforce
qed

lemma purgeBySize_made_room:
  assumes "cache_inv c" "purgeBySize fp sz c = (p, c')"
  shows "made_room sz c p c'"
proof -
  obtain p1 c1 where one: "purgeBySizeInternal fp sz c = (p1, c1)" by fastforce
  note P1 = purgeInternal_props [OF assms(1) one]
  have c1: "cache_inv c1" "evicts c c1" using P1(1) by (simp_all add: purged_def)
  have keep: "r \<in> set (m_resourceList c1)" if "r \<in> set (m_resourceList c)" "m_used (deref c r)" for r
    using purge_loop_keeps_used [OF assms(1) one [unfolded purgeBySizeInternal_def] that] .
  show ?thesis
  proof (cases "sint p1 < sint sz")
    case False
    then have "p = p1" "c' = c1" using assms(2) one by (simp_all add: purgeBySize_def)
    then show ?thesis using P1(1) False keep by (auto simp: made_room_def purged_def evicts_trims)
  next
    case True
    let ?d = "set_all_unused c1"
    obtain p2 c2 where two: "purgeBySizeInternal fp (sz - p1) ?d = (p2, c2)" by fastforce
    note u = inv_set_all_unused [OF c1(1)]
    have P2: "purged 0 ?d p2 c2" by (rule purgeInternal_props(1) [OF u(1) two])
    have res: "p = p1 + p2" "c' = c2" using assms(2) one two True by (simp_all add: purgeBySize_def)
    have tr: "trims c1 c2" using trims_trans [OF trims_unused [OF c1(1)]] P2 evicts_trims by (auto simp: purged_def)
    have gone: "m_used (deref c r)" if "r \<in> set (m_resourceList c2)" for r
    proof -
      have "r \<in> set (m_resourceList c1)" using tr that by (auto simp: trims_def)
      then show ?thesis using P1(2) True evicts_deref [OF c1(2)] by (metis less_asym)
    qed
    have enough: "sint sz \<le> sint p \<or> m_resourceList c2 = []" if ok: "bodies_ok c" "body_sum c < 2 ^ 63"
    proof (rule disjCI)
      assume "m_resourceList c2 \<noteq> []"
      then have lt: "sint (sz - p1) < sint p2" using second_pass_empties [OF c1(1) two] by blast
      have o1: "bodies_ok c1" "0 \<le> sint p1" "sint p1 + body_sum c1 = body_sum c"
        using P1(1) ok by (simp_all add: purged_def)
      have o2: "0 \<le> sint p2" "sint p2 + body_sum c2 = body_sum c1" "0 \<le> body_sum c2"
        using P2 o1 ok(2) bodies_unused [OF c1(1)] body_sum_nonneg by (auto simp: purged_def)
      have "sint (p1 + p2) = sint p1 + sint p2" by (rule sint_add) (use o1 o2 ok(2) in auto)
      moreover have "sint (sz - p1) = sint sz - sint p1"
      proof -
        have "sint sz < 2 ^ 63" using sint_lt [of sz] by simp
        then show ?thesis using True o1(2) by (simp add: sint_word_ariths(2) signed_take_bit_int_eq_self)
      qed
      ultimately show "sint sz \<le> sint p" using lt unfolding res(1) by linarith
    qed
    have "m_totalContentsSize c2 = m_totalContentsSize c - p"
      using P1(1) P2 u(9) by (simp add: purged_def res(1))
    moreover have "contents_inv c \<longrightarrow> contents_inv c2" "cache_inv c2" using P1(1) P2 u(2) by (simp_all add: purged_def)
    ultimately show ?thesis
      unfolding made_room_def res(2) using trims_trans [OF evicts_trims [OF c1(2)] tr] gone enough by blast
  qed
qed

section \<open>Every operation keeps the invariant\<close>

lemma first_unused_Some:
  "first_unused c k rs = Some n \<Longrightarrow> k \<le> n \<and> n < k + length rs \<and> \<not> m_used (deref c (rs ! (n - k)))"
  by (induction c k rs arbitrary: n rule: first_unused.induct) (fastforce split: if_splits simp: nth_Cons')+

lemma purgeOldest_removes:
  assumes "cache_inv c" "purgeOldest fp c = (p, c')"
  shows "(p = 0 \<and> c' = c) \<or>
    (\<exists>r \<in> set (m_resourceList c). \<not> m_used (deref c r) \<and> p = m_contentLength (deref c r) \<and> c' = remove fp r c)"
proof (cases "first_unused c 0 (m_resourceList c)")
  case None
  then show ?thesis using assms(2) by (simp add: purgeOldest_def)
next
  case (Some n)
  then have n: "n < length (m_resourceList c)" "\<not> m_used (deref c (m_resourceList c ! n))"
    using first_unused_Some [OF Some] by simp_all
  moreover have "removeResourceByNumber fp n c = remove fp (m_resourceList c ! n) c"
    by (rule removeByNumber_remove [OF cache_invD(1) [OF assms(1)] n(1)])
  ultimately show ?thesis using assms(2) Some by (auto simp: purgeOldest_def)
qed

lemma purgeOldest_keeps:
  assumes "cache_inv c" "purgeOldest fp c = (p, c')"
  shows "cache_inv c'" "contents_inv c \<longrightarrow> contents_inv c'" "trims c c'"
proof -
  consider "c' = c" | r where "r \<in> set (m_resourceList c)" "c' = remove fp r c"
    using purgeOldest_removes [OF assms] by blast
  then have "cache_inv c' \<and> (contents_inv c \<longrightarrow> contents_inv c') \<and> trims c c'"
  proof cases
    case 1
    then show ?thesis using assms(1) trims_refl by blast
  next
    case (2 r)
    then show ?thesis
      using inv_remove(1,2) [OF assms(1) 2(1)] evicts_trims [OF remove_evicts(1) [OF assms(1) 2(1)]] by blast
  qed
  then show "cache_inv c'" "contents_inv c \<longrightarrow> contents_inv c'" "trims c c'" by blast+
qed

lemma made_roomD:
  assumes "made_room sz c p c'"
  shows "cache_inv c'" "contents_inv c \<longrightarrow> contents_inv c'" "trims c c'"
  using assms by (simp_all add: made_room_def)

lemma trims_keeps:
  assumes "trims c c'" "cache_inv c"
  shows "heap c r \<noteq> None \<Longrightarrow> r \<notin> set (m_resourceList c) \<Longrightarrow> heap c' r = heap c r \<and> r \<notin> set (m_resourceList c')"
    and "r \<notin> set (m_resourceList c) \<Longrightarrow> deref c' r = deref c r"
    and "m_resources c u = None \<Longrightarrow> m_resources c' u = None"
  using assms by (auto simp: trims_def deref_def)

lemma fresh_next:
  assumes "cache_inv c"
  shows "heap c (next_rid c) = None" "next_rid c \<notin> set (m_resourceList c)"
  using cache_invD(6) [OF assms, of "next_rid c"] cache_invD(2) [OF assms, of "next_rid c"] by (metis less_irrefl)+

lemma inv_new_resource:
  assumes "cache_inv c" "new_resource x c = (r, c')"
  shows "cache_inv c'" "contents_inv c' = contents_inv c" "r = next_rid c" "heap c' r = Some x"
    "heap c' = (heap c)(r := Some x)" "m_resourceList c' = m_resourceList c" "m_resources c' = m_resources c"
    "m_totalContentsSize c' = m_totalContentsSize c"
proof -
  have d: "deref c' ra = deref c ra" if "ra \<in> set (m_resourceList c)" for ra
    using assms(2) that fresh_next [OF assms(1)] by (auto simp: new_resource_def deref_def)
  show s: "r = next_rid c" "heap c' r = Some x" "heap c' = (heap c)(r := Some x)"
    "m_resourceList c' = m_resourceList c" "m_resources c' = m_resources c" "m_totalContentsSize c' = m_totalContentsSize c"
    using assms(2) by (auto simp: new_resource_def)
  have t: "m_totalResourceSize c' = m_totalResourceSize c" "next_rid c' = next_rid c + 1"
    using assms(2) by (auto simp: new_resource_def)
  have m: "map (\<lambda>r. f (deref c' r)) (m_resourceList c) = map (\<lambda>r. f (deref c r)) (m_resourceList c)" for f :: "_ \<Rightarrow> 32 word"
    by (rule map_cong) (simp_all add: d)
  have m': "map (\<lambda>r. f (deref c' r)) (m_resourceList c) = map (\<lambda>r. f (deref c r)) (m_resourceList c)" for f :: "_ \<Rightarrow> 64 word"
    by (rule map_cong) (simp_all add: d)
  show "contents_inv c' = contents_inv c" by (simp add: contents_inv_def s m')
  show "cache_inv c'" unfolding cache_inv_def s(4,5) t m
  proof (intro conjI ballI allI impI)
    fix ra assume "ra \<in> set (m_resourceList c)"
    then show "heap c' ra \<noteq> None" "m_resources c (m_url (deref c' ra)) = Some ra"
      "m_resourceSize (deref c' ra) = of_nat (record_size (deref c' ra))"
      using cache_invD(2,3,8) [OF assms(1)] d by (auto simp: s(3))
  next
    fix u ra assume "m_resources c u = Some ra"
    then show "ra \<in> set (m_resourceList c)" "m_url (deref c' ra) = u"
      using cache_invD(4,5) [OF assms(1)] d by (simp_all)
  next
    fix ra assume "heap c' ra \<noteq> None"
    then show "ra < next_rid c + 1" using cache_invD(6) [OF assms(1), of ra] by (auto simp: s(1,3) split: if_splits)
  qed (use cache_invD(1,7) [OF assms(1)] in simp_all)
qed

lemma purge_for_size_keeps:
  assumes "cache_inv c" "purge_for_size fp n c = (ok, c')"
  shows "cache_inv c'" "contents_inv c \<longrightarrow> contents_inv c'" "trims c c'"
proof -
  obtain p d where "purgeBySize fp (word_of_int n) c = (p, d)" by fastforce
  moreover note made_roomD [OF purgeBySize_made_room [OF assms(1) this]]
  ultimately show "cache_inv c'" "contents_inv c \<longrightarrow> contents_inv c'" "trims c c'"
    using assms trims_refl by (auto simp: purge_for_size_def split: if_splits)
qed

lemma purge_for_entry_keeps:
  assumes "cache_inv c" "purge_for_entry fp c = (ok, c')"
  shows "cache_inv c'" "contents_inv c \<longrightarrow> contents_inv c'" "trims c c'"
proof -
  obtain p d where "purgeOldest fp c = (p, d)" by fastforce
  moreover note purgeOldest_keeps [OF assms(1) this]
  ultimately show "cache_inv c'" "contents_inv c \<longrightarrow> contents_inv c'" "trims c c'"
    using assms trims_refl by (auto simp: purge_for_entry_def split: if_splits)
qed

text \<open>
  A new entry is allocated outside the list, with the key of its URL, after evictions only.
\<close>

lemma create_steps:
  assumes "cache_inv c" "createHTTPCachedResource fp raw now url data resp nc mr ex ma c = (ro, c')"
  shows "\<exists>d. cache_inv d \<and> (contents_inv c \<longrightarrow> contents_inv d) \<and> trims c d \<and>
    (ro = None \<and> c' = d \<or>
     (\<exists>x r. ro = Some r \<and> m_url x = cache_key url \<and> m_contentLength x = word_of_int (m_size data)
        \<and> m_resourceData x = Some data \<and> new_resource x d = (r, c')))"
proof -
  define n where "n = sint (word_of_int (m_size data) :: i32)"
  define x where "x = setResourceData data (update (HTTPCachedResource_new raw now (cache_key url) resp) nc mr ex ma 0)"
  have x: "m_url x = cache_key url" "m_contentLength x = word_of_int (m_size data)" "m_resourceData x = Some data"
    by (simp_all add: x_def setResourceData_def update_def Let_def HTTPCachedResource_new_def setResourceResponse_def)
  obtain ok1 c1 where one: "purge_for_size fp n c = (ok1, c1)" by fastforce
  obtain ok2 c2 where two: "purge_for_entry fp c1 = (ok2, c2)" by fastforce
  obtain r c3 where new: "new_resource x c2 = (r, c3)" by fastforce
  note k1 = purge_for_size_keeps [OF assms(1) one]
  note k2 = purge_for_entry_keeps [OF k1(1) two]
  have eq: "(ro, c') =
     (if m_disabled c \<or> sint (m_limitContentSize c) < n \<or> sint (m_limitTotalContentsSize c) < n then (None, c)
      else if \<not> ok1 then (None, c1) else if \<not> ok2 then (None, c2) else (Some r, c3))"
    unfolding assms(2) [symmetric] createHTTPCachedResource_def n_def [symmetric] x_def [symmetric] Let_def
    by (simp add: one two new)
  consider "ro = None" "c' = c" | "ro = None" "c' = c1" | "ro = None" "c' = c2" | "ro = Some r" "c' = c3"
    using eq by (auto split: if_splits)
  then show ?thesis
  proof cases
    case 1
    then show ?thesis using assms(1) trims_refl by blast
  next
    case 2
    then show ?thesis using k1 by blast
  next
    case 3
    then show ?thesis using k1 k2 trims_trans by blast
  next
    case 4
    then have "new_resource x c2 = (r, c')" using new by simp
    then show ?thesis using 4(1) x k1 k2 trims_trans by blast
  qed
qed

lemma writeFile_result:
  assumes "writeFile fp x name path w = Some (ok, x', w')"
  shows "\<not> ok \<Longrightarrow> x' = x"
    and "ok \<Longrightarrow> m_url x' = m_url x \<and> m_fileName x' = name \<and> m_resourceSize x' = of_nat (record_size x')
      \<and> (\<exists>data. m_resourceData x = Some data \<and> m_contentLength x' = word_of_int (m_size data))"
  using assms
  by (auto simp: writeFile_def Let_def calcResourceSize_def record_size_def split: option.splits prod.splits if_splits)

text \<open>Linking a live entry with a new URL into the list and the map.\<close>

definition link_resource :: "rid \<Rightarrow> 'w http_cache \<Rightarrow> 'w http_cache" where
  "link_resource r c =
     c\<lparr>m_resources := (m_resources c)(m_url (deref c r) := Some r), m_resourceList := m_resourceList c @ [r],
       m_totalResourceSize := m_totalResourceSize c + m_resourceSize (deref c r),
       m_totalContentsSize := m_totalContentsSize c + m_contentLength (deref c r)\<rparr>"

lemma inv_link:
  assumes "cache_inv c" "heap c r \<noteq> None" "r \<notin> set (m_resourceList c)" "m_resources c (m_url (deref c r)) = None"
    and "m_resourceSize (deref c r) = of_nat (record_size (deref c r))"
  shows "cache_inv (link_resource r c)" "contents_inv c \<Longrightarrow> contents_inv (link_resource r c)"
proof -
  let ?c = "link_resource r c"
  have d: "deref ?c = deref c" by (simp add: link_resource_def deref_def fun_eq_iff)
  note D = cache_invD [OF assms(1)]
  show "cache_inv ?c" unfolding cache_inv_def d
  proof (intro conjI ballI allI impI)
    fix ra assume "ra \<in> set (m_resourceList ?c)"
    then consider "ra = r" | "ra \<in> set (m_resourceList c)" "ra \<noteq> r" "m_url (deref c ra) \<noteq> m_url (deref c r)"
      using assms(3,4) D(3) by (fastforce simp: link_resource_def)
    then show "heap ?c ra \<noteq> None" "m_resources ?c (m_url (deref c ra)) = Some ra"
      "m_resourceSize (deref c ra) = of_nat (record_size (deref c ra))"
      by (cases, use assms D in \<open>simp_all add: link_resource_def\<close>)+
  next
    fix u ra assume "m_resources ?c u = Some ra"
    then show "ra \<in> set (m_resourceList ?c)" "m_url (deref c ra) = u"
      using D(4,5) by (auto simp: link_resource_def split: if_splits)
  qed (use assms D in \<open>simp_all add: link_resource_def\<close>)
  show "contents_inv c \<Longrightarrow> contents_inv ?c" unfolding contents_inv_def d by (simp add: link_resource_def)
qed

lemma addCachedResource_link:
  "addCachedResource r c = (if m_disabled c then (False, c) else (True, link_resource r c))"
  by (simp add: addCachedResource_def link_resource_def)

lemma makeFileName_simps:
  "makeFileName c = (name, c') \<Longrightarrow> c' = c\<lparr>m_fileNumber := m_fileNumber c'\<rparr>"
  by (auto simp: makeFileName_def)

lemma inv_fileNumber [simp]:
  "cache_inv (c\<lparr>m_fileNumber := n\<rparr>) = cache_inv c" "contents_inv (c\<lparr>m_fileNumber := n\<rparr>) = contents_inv c"
  "deref (c\<lparr>m_fileNumber := n\<rparr>) = deref c"
  by (simp_all add: cache_inv_def contents_inv_def deref_def fun_eq_iff)

text \<open>
  Writing an entry that waits outside the list: evictions, then the entry is linked, or it stays
  as it was when the file could not be written.
\<close>

lemma cache_write_steps:
  assumes inv: "cache_inv c" and r: "heap c r \<noteq> None" "r \<notin> set (m_resourceList c)"
    and wr: "cache_write fp r c = Some (ok, c')"
  shows "\<exists>d x w. cache_inv d \<and> (contents_inv c \<longrightarrow> contents_inv d) \<and> heap d r = heap c r
      \<and> set (m_resourceList d) \<subseteq> set (m_resourceList c)
      \<and> (\<forall>u. m_resources c u = None \<longrightarrow> m_resources d u = None)
      \<and> (\<forall>ra. ra \<notin> set (m_resourceList c) \<longrightarrow> heap d ra = heap c ra)
      \<and> m_url x = m_url (deref c r)
      \<and> (ok \<longrightarrow> m_resourceSize x = of_nat (record_size x))
      \<and> (\<not> ok \<longrightarrow> x = deref c r)
      \<and> (m_resources c (m_url (deref c r)) = None \<longrightarrow>
          c' = (if ok then link_resource r ((store r x d)\<lparr>world := w\<rparr>) else (store r x d)\<lparr>world := w\<rparr>))"
proof -
  define c1 where "c1 = (if sint (m_limitTotalContentsSize c) < sint (m_totalContentsSize c + m_contentLength (deref c r))
                then snd (purgeBySize fp (m_contentLength (deref c r)) c) else c)"
  obtain name d where nm: "makeFileName c1 = (name, d)" by fastforce
  obtain p c'' where pb: "purgeBySize fp (m_contentLength (deref c r)) c = (p, c'')" by fastforce
  have c1: "cache_inv c1" "contents_inv c \<longrightarrow> contents_inv c1" "trims c c1"
    using made_roomD [OF purgeBySize_made_room [OF inv pb]] inv trims_refl pb by (auto simp: c1_def)
  note k = trims_keeps [OF c1(3) inv]
  have d: "d = c1\<lparr>m_fileNumber := m_fileNumber d\<rparr>" by (rule makeFileName_simps [OF nm])
  have hd: "heap d = heap c1" "m_resourceList d = m_resourceList c1" "m_resources d = m_resources c1"
    by (subst d, simp)+
  have idv: "cache_inv d" "contents_inv c \<longrightarrow> contents_inv d" using c1(1,2) by (subst d, simp)+
  have dr: "deref d r = deref c r" using k(1) [OF r] hd(1) by (simp add: deref_def)
  obtain x w where wf: "writeFile fp (deref c r) name (m_filePath d) (world d) = Some (ok, x, w)"
    "c' = (let c3 = (store r x d)\<lparr>world := w\<rparr> in if \<not> ok then c3
       else c3\<lparr>m_resources := (case m_resources c3 (m_url x) of
                                 None \<Rightarrow> (m_resources c3)(m_url x := Some r) | Some _ \<Rightarrow> m_resources c3),
                             m_resourceList := m_resourceList c3 @ [r],
                             m_totalResourceSize := m_totalResourceSize c3 + m_resourceSize x,
                             m_totalContentsSize := m_totalContentsSize c3 + m_contentLength x\<rparr>)"
    using wr unfolding cache_write_def c1_def [symmetric] Let_def nm prod.case dr
    by (auto split: if_splits)
  note x = writeFile_result [OF wf(1)]
  have url: "m_url x = m_url (deref c r)" using x by (cases ok) simp_all
  have none: "m_resources d (m_url x) = None" if "m_resources c (m_url (deref c r)) = None"
    using k(3) [OF that] hd(3) url by simp
  have "c' = (if ok then link_resource r ((store r x d)\<lparr>world := w\<rparr>) else (store r x d)\<lparr>world := w\<rparr>)"
    if "m_resources c (m_url (deref c r)) = None"
    using wf(2) none [OF that] by (simp add: link_resource_def Let_def)
  moreover have "set (m_resourceList d) \<subseteq> set (m_resourceList c)" "\<forall>u. m_resources c u = None \<longrightarrow> m_resources d u = None"
    "\<forall>ra. ra \<notin> set (m_resourceList c) \<longrightarrow> heap d ra = heap c ra"
    using c1(3) hd by (simp_all add: trims_def)
  ultimately show ?thesis
    by (intro exI [of _ d] exI [of _ x] exI [of _ w] conjI impI) (use idv x url r(2) in blast)+
qed

lemma cache_read_steps:
  assumes "cache_read fp r c = Some (ok, out, c')"
  shows "\<exists>x w. c' = (store r x c)\<lparr>world := w\<rparr> \<and> (x = deref c r \<or> x = (deref c r)\<lparr>m_used := True\<rparr>)"
  using assms by (auto simp: cache_read_def readFile_def Let_def split: option.splits prod.splits)

lemma foldl_delete:
  "heap (foldl (\<lambda>c r. delete_resource r c) c rs) = (\<lambda>r. if r \<in> set rs then None else heap c r)"
  "foldl (\<lambda>c r. delete_resource r c) c rs = c\<lparr>heap := heap (foldl (\<lambda>c r. delete_resource r c) c rs)\<rparr>"
proof (induction rs arbitrary: c)
  case (Cons a rs)
  { case 1
    show ?case using Cons(1) [of "delete_resource a c"] by (auto simp: delete_resource_def fun_eq_iff)
  next
    case 2
    show ?case using Cons(2) [of "delete_resource a c"] by (simp add: delete_resource_def)
  }
qed simp_all

lemma reset_simps [simp]:
  "m_resourceList (reset c) = []" "m_resources (reset c) = (\<lambda>_. None)"
  "m_totalResourceSize (reset c) = 0" "m_totalContentsSize (reset c) = 0"
  "heap (reset c) = (\<lambda>r. if r \<in> set (m_resourceList c) then None else heap c r)"
  by (simp_all add: reset_def foldl_delete(1))

lemma reset_others [simp]:
  "next_rid (reset c) = next_rid c" "m_disabled (reset c) = m_disabled c" "m_filePath (reset c) = m_filePath c"
  "m_fatFileName (reset c) = m_fatFileName c" "world (reset c) = world c" "m_fileNumber (reset c) = m_fileNumber c"
  unfolding reset_def by (subst foldl_delete(2), simp)+

lemma inv_reset: "cache_inv c \<Longrightarrow> cache_inv (reset c) \<and> contents_inv (reset c)"
  using cache_invD(6) [of c] by (auto simp: cache_inv_def contents_inv_def split: if_splits)

lemma inv_removeAll:
  assumes "cache_inv c"
  shows "cache_inv (removeAll fp c)" "contents_inv (removeAll fp c)" "m_resourceList (removeAll fp c) = []"
    "m_resources (removeAll fp c) = (\<lambda>_. None)"
    "heap (removeAll fp c) = (\<lambda>r. if r \<in> set (m_resourceList c) then None else heap c r)"
    "m_totalContentsSize (removeAll fp c) = 0" "m_totalResourceSize (removeAll fp c) = 0"
  using inv_reset [OF assms] by (simp_all add: removeAll_def Let_def)

text \<open>An entry of the list is overwritten with a new response and then taken out of the list.\<close>

lemma inv_update_detach:
  assumes "cache_inv c" "r \<in> set (m_resourceList c)"
    and "m_url x = m_url (deref c r)" "m_resourceSize x = m_resourceSize (deref c r)"
  shows "cache_inv (detach fp r (store r x c))"
    "m_resourceList (detach fp r (store r x c)) = remove1 r (m_resourceList c)"
    "heap (detach fp r (store r x c)) = (heap c)(r := Some x)"
    "m_resources (detach fp r (store r x c)) = (m_resources c)(m_url (deref c r) := None)"
    "m_totalContentsSize (detach fp r (store r x c)) = m_totalContentsSize c - m_contentLength x"
proof -
  let ?c = "detach fp r (store r x c)"
  have s: "m_resourceList ?c = remove1 r (m_resourceList c)" "m_resources ?c = (m_resources c)(m_url (deref c r) := None)"
    "m_totalResourceSize ?c = m_totalResourceSize c - m_resourceSize (deref c r)" "heap ?c = (heap c)(r := Some x)"
    "next_rid ?c = next_rid c" "m_totalContentsSize ?c = m_totalContentsSize c - m_contentLength x"
    using assms(3,4) by (simp_all add: detach_def cache_ops deref_def)
  then show "m_resourceList ?c = remove1 r (m_resourceList c)" "heap ?c = (heap c)(r := Some x)"
    "m_resources ?c = (m_resources c)(m_url (deref c r) := None)"
    "m_totalContentsSize ?c = m_totalContentsSize c - m_contentLength x" by simp_all
  note D = cache_invD [OF assms(1)]
  have d: "deref ?c ra = deref c ra" if "ra \<noteq> r" for ra using s(4) that by (simp add: deref_def)
  have set: "set (remove1 r (m_resourceList c)) = set (m_resourceList c) - {r}" using D(1) by simp
  have m: "map (\<lambda>r. m_resourceSize (deref ?c r)) (remove1 r (m_resourceList c)) = map (\<lambda>r. m_resourceSize (deref c r)) (remove1 r (m_resourceList c))"
    using set d by (intro map_cong) auto
  show "cache_inv ?c" unfolding cache_inv_def s m
  proof (intro conjI ballI allI impI)
    fix ra assume "ra \<in> set (remove1 r (m_resourceList c))"
    then have ra: "ra \<in> set (m_resourceList c)" "ra \<noteq> r" using set by simp_all
    then have "m_url (deref c ra) \<noteq> m_url (deref c r)" using cache_url_inject [OF assms(1)] assms(2) by blast
    then show "((heap c)(r \<mapsto> x)) ra \<noteq> None" "((m_resources c)(m_url (deref c r) := None)) (m_url (deref ?c ra)) = Some ra"
      "m_resourceSize (deref ?c ra) = of_nat (record_size (deref ?c ra))"
      using ra D(2,3,8) d by simp_all
  next
    fix u ra assume "((m_resources c)(m_url (deref c r) := None)) u = Some ra"
    then have u: "u \<noteq> m_url (deref c r)" "m_resources c u = Some ra" by (auto split: if_splits)
    then have "ra \<noteq> r" using D(5) by blast
    then show "ra \<in> set (remove1 r (m_resourceList c))" "m_url (deref ?c ra) = u" using u D(4,5) d set by simp_all
  next
    fix ra assume "((heap c)(r \<mapsto> x)) ra \<noteq> None"
    then show "ra < next_rid c" using D(2,6) assms(2) by (auto split: if_splits)
  qed (use D(1,7) assms(2) in \<open>simp_all add: sum_remove1\<close>)
qed

section \<open>The FAT file\<close>

lemma length_digest: "length (digest data) = 16"
  by (simp add: digest_def checksum_def Let_def bytes_of_word_def split: prod.split)

lemma of_nat_sum_list: "sum_list (map (\<lambda>x. of_nat (f x)) xs) = (of_nat (sum_list (map f xs)) :: 'a::semiring_1)"
  by (induction xs) simp_all

lemma length_serializeFATData:
  "length (serializeFATData c) = sum_list (map (\<lambda>r. record_size (deref c r)) (m_resourceList c))"
  by (simp add: serializeFATData_def length_concat length_serialize comp_def)

lemma total_is_length:
  assumes "cache_inv c"
  shows "m_totalResourceSize c = of_nat (length (serializeFATData c))"
proof -
  have "map (\<lambda>r. m_resourceSize (deref c r)) (m_resourceList c) = map (\<lambda>r. of_nat (record_size (deref c r))) (m_resourceList c)"
    using cache_invD(8) [OF assms] by (intro map_cong) simp_all
  with cache_invD(7) [OF assms] show ?thesis
    by (simp only: length_serializeFATData of_nat_sum_list)
qed

lemma fat_buffer_exact:
  assumes "cache_inv c" "length (serializeFATData c) < 2 ^ 31"
  shows "\<exists>body. body = put_u32 CACHEFAT_FORMAT_VERSION @ put_u32 (m_fileNumber c) @ serializeFATData c
    \<and> fat_buffer c = Some (digest body @ body)"
  using total_is_length [OF assms(1)] sint_of_nat32 [OF assms(2)] by (simp add: fat_buffer_def Let_def)

lemma cache_inv_new: "cache_inv (HTTPCache_new w)" "contents_inv (HTTPCache_new w)"
  by (simp_all add: cache_inv_def contents_inv_def HTTPCache_new_def)

lemma write_all_stores:
  assumes "storing_peer fp files writing" "buf \<noteq> []" "writing fd w = Some (path, [])"
  shows "\<exists>w1. write_all fp fd buf w = (True, w1) \<and> writing fd w1 = Some (path, buf)"
  using storing_peerD(2) [OF assms] assms(2)
  by (auto simp: write_all.simps [of fp fd buf] write_all.simps [of fp fd "[]"])

abbreviation "fat_path fp c \<equiv> utf8_bytes (pathByAppendingComponent fp (m_filePath c) (m_fatFileName c))"

lemma writeFATFile_stores:
  assumes "storing_peer fp files writing" "cache_inv c" "length (serializeFATData c) < 2 ^ 31"
  shows "\<exists>buf w. writeFATFile fp c = Some (True, c\<lparr>world := w\<rparr>) \<and> fat_buffer c = Some buf \<and> files w (fat_path fp c) = Some buf"
proof -
  obtain buf where b: "fat_buffer c = Some buf" and ne: "buf \<noteq> []"
    using fat_buffer_exact [OF assms(2,3)] length_put(1) [of CACHEFAT_FORMAT_VERSION] by fastforce
  obtain fd w1 where o: "fp_open fp (fat_path fp c) ''wb'' (world c) = (Some fd, w1)" "writing fd w1 = Some (fat_path fp c, [])"
    using storing_peerD(1) [OF assms(1)] by blast
  obtain w2 where w2: "write_all fp fd buf w1 = (True, w2)" "writing fd w2 = Some (fat_path fp c, buf)"
    using write_all_stores [OF assms(1) ne o(2)] by blast
  from storing_peerD(3) [OF assms(1) w2(2)] show ?thesis
    by (auto simp: writeFATFile_def b o(1) w2(1))
qed

text \<open>What one turn of \<open>deserializeFATData\<close> does with an entry.\<close>

definition load_entry :: "'w http_cache \<Rightarrow> cached_resource \<Rightarrow> 'w http_cache" where
  "load_entry c x = (let (r, c1) = new_resource x c in snd (addCachedResource r c1))"

lemma load_entry_inv:
  assumes "cache_inv c" "\<not> m_disabled c" "m_resources c (m_url x) = None" "m_resourceSize x = of_nat (record_size x)"
  shows "cache_inv (load_entry c x)" "contents_inv c \<Longrightarrow> contents_inv (load_entry c x)"
    "map (deref (load_entry c x)) (m_resourceList (load_entry c x)) = map (deref c) (m_resourceList c) @ [x]"
    "m_resources (load_entry c x) = (m_resources c)(m_url x \<mapsto> next_rid c)"
    "m_disabled (load_entry c x) = m_disabled c" "m_fileNumber (load_entry c x) = m_fileNumber c"
proof -
  obtain r d where n: "new_resource x c = (r, d)" by fastforce
  note N = inv_new_resource [OF assms(1) n]
  have dis: "m_disabled d = m_disabled c" "m_fileNumber d = m_fileNumber c" using n by (auto simp: new_resource_def)
  have l: "load_entry c x = link_resource r d" using n dis assms(2) by (simp add: load_entry_def addCachedResource_link)
  have x: "deref d r = x" using N(4) by (simp add: deref_def)
  have fr: "r \<notin> set (m_resourceList d)" using fresh_next(2) [OF assms(1)] N(3,6) by simp
  note L = inv_link [OF N(1) _ fr, unfolded x]
  show "cache_inv (load_entry c x)" using L(1) N(4,7) assms(3,4) l by simp
  show "contents_inv c \<Longrightarrow> contents_inv (load_entry c x)" using L(2) N(2,4,7) assms(3,4) l by simp
  have "map (deref d) (m_resourceList c) = map (deref c) (m_resourceList c)"
    using N(5) fr N(6) by (intro map_cong) (auto simp: deref_def)
  then show "map (deref (load_entry c x)) (m_resourceList (load_entry c x)) = map (deref c) (m_resourceList c) @ [x]"
    using N(6) x by (simp add: l link_resource_def deref_def)
  show "m_resources (load_entry c x) = (m_resources c)(m_url x \<mapsto> next_rid c)"
    using N(3,7) x by (simp add: l link_resource_def)
  show "m_disabled (load_entry c x) = m_disabled c" "m_fileNumber (load_entry c x) = m_fileNumber c"
    using dis by (simp_all add: l link_resource_def)
qed

lemma load_entries_inv:
  assumes "cache_inv c" "contents_inv c" "\<not> m_disabled c" "distinct (map m_url xs)"
    and "\<forall>x \<in> set xs. m_resources c (m_url x) = None \<and> m_resourceSize x = of_nat (record_size x)"
  shows "cache_inv (foldl load_entry c xs) \<and> contents_inv (foldl load_entry c xs)
    \<and> map (deref (foldl load_entry c xs)) (m_resourceList (foldl load_entry c xs)) = map (deref c) (m_resourceList c) @ xs
    \<and> m_fileNumber (foldl load_entry c xs) = m_fileNumber c"
  using assms
proof (induction xs arbitrary: c)
  case (Cons x xs)
  have x: "m_resources c (m_url x) = None" "m_resourceSize x = of_nat (record_size x)" using Cons.prems(5) by simp_all
  note L = load_entry_inv [OF Cons.prems(1,3) x]
  have "\<forall>y \<in> set xs. m_resources (load_entry c x) (m_url y) = None \<and> m_resourceSize y = of_nat (record_size y)"
    using Cons.prems(4,5) L(4) by (auto simp: rev_image_eqI)
  with Cons.IH [OF L(1) L(2) [OF Cons.prems(2)]] Cons.prems(3,4) L(3,5,6) show ?case by simp
qed simp

lemma deserializeFATData_loads:
  assumes "\<forall>x \<in> set xs. record_ok x"
  shows "deserializeFATData c (concat (map serialize xs)) = Some (foldl load_entry c (map persistent xs))"
proof -
  have "deserializeFATData c (concat (map serialize (map persistent xs))) = Some (foldl load_entry c (map persistent xs))"
  proof (rule fat_record.decode_loop)
    fix s :: "'a http_cache" and x rest
    assume "record_ok x \<and> persistent x = x"
    then show "deserializeFATData s (serialize x @ rest) = deserializeFATData (load_entry s x) rest"
      using serialize_nonempty [of x] deserialize_serialize [of x rest]
      by (subst deserializeFATData.simps) (simp add: load_entry_def case_prod_beta)
  next
    show "\<forall>x \<in> set (map persistent xs). record_ok x \<and> persistent x = x"
      using assms by (auto simp: record_ok_def persistent_idem) (simp_all add: persistent_def calcResourceSize_def)
  qed (simp_all add: deserializeFATData.simps serialize_nonempty)
  then show ?thesis by (simp add: comp_def serialize_persistent)
qed

lemma persistent_simps:
  "m_url (persistent x) = m_url x" "m_resourceSize (persistent x) = of_nat (record_size (persistent x))"
  by (simp_all add: persistent_def calcResourceSize_def record_size_def)

lemma distinct_urls:
  assumes "cache_inv c"
  shows "distinct (map (\<lambda>r. m_url (deref c r)) (m_resourceList c))"
  unfolding distinct_map
  using cache_invD(1) [OF assms] cache_url_inject [OF assms] by (auto intro!: inj_onI)

lemma readFATFile_loads:
  assumes fp: "storing_peer fp files writing" and f: "files (world c) (fat_path fp c) = Some (digest body @ body)"
    and body: "body = put_u32 CACHEFAT_FORMAT_VERSION @ put_u32 n @ concat (map serialize xs)"
    and xs: "xs \<noteq> []" "\<forall>x \<in> set xs. record_ok x"
  shows "\<exists>w. readFATFile fp c = Some (True, foldl load_entry (c\<lparr>world := w, m_fileNumber := n\<rparr>) (map persistent xs))"
proof -
  let ?buf = "digest body @ body"
  obtain fd w1 w2 where o: "fp_open fp (fat_path fp c) ''rb'' (world c) = (Some fd, w1)"
    "fp_stat fp fd w1 = Some (int (length ?buf))" "fp_read fp fd (int (length ?buf)) w1 = (int (length ?buf), ?buf, w2)"
    using storing_peerD(4) [OF fp f] by blast
  have "concat (map serialize xs) \<noteq> []" using xs(1) serialize_nonempty by (cases xs) auto
  then have len: "\<not> int (length ?buf) \<le> 24" by (simp add: body length_digest)
  have v: "verifyDigest ?buf" by (simp add: verifyDigest_def length_digest body)
  have d: "drop 16 ?buf = body" by (simp add: length_digest)
  have g1: "get_u32 body = Some (CACHEFAT_FORMAT_VERSION, put_u32 n @ concat (map serialize xs))"
    and g2: "get_u32 (put_u32 n @ concat (map serialize xs)) = Some (n, concat (map serialize xs))"
    by (simp_all add: body codec_simps)
  show ?thesis
    using len v by (intro exI [of _ "fp_close fp fd w2"]) (simp add: readFATFile_def o Let_def d g1 g2 deserializeFATData_loads [OF xs(2)]
        del: length_append drop_append)
qed

text \<open>
  C2: what \<open>writeFATFile\<close> stores \<open>readFATFile\<close> reads back: with file functions that store what they
  are given, a cache started on the same directory holds the same entries in the same order, less
  what is not kept in the file (data in memory, use marks, http-equiv flags), with both totals up to
  date and the same next file number.
\<close>

theorem fat_file_roundtrip:
  assumes "storing_peer fp files writing" "cache_inv c" "m_resourceList c \<noteq> []"
    and "\<forall>r \<in> set (m_resourceList c). record_ok (deref c r)" "length (serializeFATData c) < 2 ^ 31"
  shows "\<exists>w c'. writeFATFile fp c = Some (True, c\<lparr>world := w\<rparr>)
    \<and> readFATFile fp ((HTTPCache_new w)\<lparr>m_filePath := m_filePath c, m_fatFileName := m_fatFileName c\<rparr>) = Some (True, c')
    \<and> map (deref c') (m_resourceList c') = map (\<lambda>r. persistent (deref c r)) (m_resourceList c)
    \<and> cache_inv c' \<and> contents_inv c' \<and> m_fileNumber c' = m_fileNumber c"
proof -
  let ?xs = "map (deref c) (m_resourceList c)"
  obtain body w where b: "body = put_u32 CACHEFAT_FORMAT_VERSION @ put_u32 (m_fileNumber c) @ serializeFATData c"
    and w: "writeFATFile fp c = Some (True, c\<lparr>world := w\<rparr>)" "files w (fat_path fp c) = Some (digest body @ body)"
    using fat_buffer_exact [OF assms(2,5)] writeFATFile_stores [OF assms(1,2,5)] by auto
  let ?e = "(HTTPCache_new w)\<lparr>m_filePath := m_filePath c, m_fatFileName := m_fatFileName c\<rparr>"
  have b': "body = put_u32 CACHEFAT_FORMAT_VERSION @ put_u32 (m_fileNumber c) @ concat (map serialize ?xs)"
    by (simp add: b serializeFATData_def comp_def)
  have "files (world ?e) (fat_path fp ?e) = Some (digest body @ body)" using w(2) by (simp add: HTTPCache_new_def)
  from readFATFile_loads [OF assms(1) this b'] assms(3,4) obtain w' where
    r: "readFATFile fp ?e = Some (True, foldl load_entry (?e\<lparr>world := w', m_fileNumber := m_fileNumber c\<rparr>) (map persistent ?xs))"
    by auto
  let ?d = "?e\<lparr>world := w', m_fileNumber := m_fileNumber c\<rparr>"
  have i: "cache_inv ?d" "contents_inv ?d" "\<not> m_disabled ?d" "m_resources ?d u = None" "m_resourceList ?d = []" for u
    by (simp_all add: cache_inv_def contents_inv_def HTTPCache_new_def)
  have dist: "distinct (map m_url (map persistent ?xs))"
    using distinct_urls [OF assms(2)] by (simp add: comp_def persistent_simps)
  have "\<forall>x \<in> set (map persistent ?xs). m_resources ?d (m_url x) = None \<and> m_resourceSize x = of_nat (record_size x)"
    using i(4) by (auto simp: persistent_simps(2))
  from load_entries_inv [OF i(1-3) dist this] i(5) r w(1) show ?thesis by (auto simp: comp_def)
qed

text \<open>A cache with one entry, for the witnesses.\<close>

definition one_entry :: "'w \<Rightarrow> cached_resource \<Rightarrow> 'w http_cache" where
  "one_entry w x = load_entry (HTTPCache_new w) (persistent x)"

lemma one_entry:
  "cache_inv (one_entry w x)" "contents_inv (one_entry w x)"
  "m_resourceList (one_entry w x) = [0]" "deref (one_entry w x) 0 = persistent x"
  "m_resources (one_entry w x) = [m_url x \<mapsto> 0]" "m_totalContentsSize (one_entry w x) = m_contentLength x"
proof -
  have a: "\<not> m_disabled (HTTPCache_new w)" "m_resources (HTTPCache_new w) (m_url (persistent x)) = None"
    by (simp_all add: HTTPCache_new_def)
  show "cache_inv (one_entry w x)" "contents_inv (one_entry w x)" "m_resources (one_entry w x) = [m_url x \<mapsto> 0]"
    unfolding one_entry_def
    using load_entry_inv(1,2,4) [OF cache_inv_new(1) a persistent_simps(2)] cache_inv_new(2) [of w]
    by (simp_all add: persistent_simps(1)) (simp add: HTTPCache_new_def)
  show "m_resourceList (one_entry w x) = [0]" "deref (one_entry w x) 0 = persistent x" "m_totalContentsSize (one_entry w x) = m_contentLength x"
    by (simp_all add: one_entry_def load_entry_def new_resource_def addCachedResource_def HTTPCache_new_def deref_def
        persistent_def calcResourceSize_def)
qed

theorem fat_file_roundtrip_witness:
  "\<exists>w c'. writeFATFile mem_peer (one_entry (\<lambda>_. None, None) HTTPCachedResource_default)
       = Some (True, (one_entry (\<lambda>_. None, None) HTTPCachedResource_default)\<lparr>world := w\<rparr>)
    \<and> readFATFile mem_peer ((HTTPCache_new w)
         \<lparr>m_filePath := m_filePath (one_entry (\<lambda>_::byte list. None :: byte list option, None :: (byte list \<times> byte list) option) HTTPCachedResource_default),
          m_fatFileName := m_fatFileName (one_entry (\<lambda>_::byte list. None :: byte list option, None :: (byte list \<times> byte list) option) HTTPCachedResource_default)\<rparr>) = Some (True, c')
    \<and> map (deref c') (m_resourceList c') = [persistent HTTPCachedResource_default]"
proof -
  let ?c = "one_entry (\<lambda>_. None, None) HTTPCachedResource_default :: mem_world http_cache"
  have e: "utf8_bytes [] = []" by (simp add: utf8_bytes_def String_utf8_def)
  have ok: "\<forall>r \<in> set (m_resourceList ?c). record_ok (deref ?c r)"
    by (simp add: one_entry record_ok_def persistent_def calcResourceSize_def HTTPCachedResource_default_def string_ok_def e)
  have len: "length (serializeFATData ?c) < 2 ^ 31"
    by (simp add: length_serializeFATData one_entry record_size_sum persistent_def calcResourceSize_def
        HTTPCachedResource_default_def e ROUNDUP_def)
  have "m_resourceList ?c \<noteq> []" "map (\<lambda>r. persistent (deref ?c r)) (m_resourceList ?c) = [persistent HTTPCachedResource_default]"
    by (simp_all add: one_entry persistent_idem)
  with fat_file_roundtrip [OF mem_peer_stores one_entry(1) _ ok len] show ?thesis by metis
qed

section \<open>Properties of eviction\<close>

text \<open>
  C3: \<open>purgeBySize\<close> frees what it reports and enough of it. From a well-formed cache whose body
  sizes are not negative and sum below 2 ^ 63, it returns a well-formed cache with both totals up
  to date; the total of the bodies drops by the size it reports; at least the size asked for is
  freed unless the cache is empty afterwards; no entry is added; and an entry in use is only
  evicted when every entry that is not in use is gone.
\<close>

theorem purge_frees_enough:
  assumes "cache_inv c" "contents_inv c" "bodies_ok c" "body_sum c < 2 ^ 63" "purgeBySize fp sz c = (p, c')"
  shows "cache_inv c' \<and> contents_inv c' \<and> set (m_resourceList c') \<subseteq> set (m_resourceList c)
    \<and> m_totalContentsSize c' = m_totalContentsSize c - p
    \<and> (sint sz \<le> sint p \<or> m_resourceList c' = [])
    \<and> ((\<forall>r \<in> set (m_resourceList c). m_used (deref c r) \<longrightarrow> r \<in> set (m_resourceList c'))
       \<or> (\<forall>r \<in> set (m_resourceList c'). m_used (deref c r)))"
  using purgeBySize_made_room [OF assms(1,5)] assms(2-4) unfolding made_room_def trims_def by blast

theorem purge_frees_enough_witness:
  "let c = one_entry (\<lambda>_. None, None) (HTTPCachedResource_default\<lparr>m_contentLength := 5\<rparr>)
   in m_totalContentsSize (snd (purgeBySize mem_peer 3 c)) = m_totalContentsSize c - fst (purgeBySize mem_peer 3 c)
      \<and> (3 \<le> sint (fst (purgeBySize mem_peer 3 c)) \<or> m_resourceList (snd (purgeBySize mem_peer 3 c)) = [])"
proof -
  let ?c = "one_entry (\<lambda>_. None, None) (HTTPCachedResource_default\<lparr>m_contentLength := 5\<rparr>) :: mem_world http_cache"
  have "m_contentLength (persistent (HTTPCachedResource_default\<lparr>m_contentLength := 5\<rparr>)) = 5"
    by (simp add: persistent_def calcResourceSize_def)
  then have "bodies_ok ?c" "body_sum ?c < 2 ^ 63" by (simp_all add: bodies_ok_def body_sum_def one_entry)
  from purge_frees_enough [OF one_entry(1,2) this, of mem_peer 3 "fst (purgeBySize mem_peer 3 ?c)" "snd (purgeBySize mem_peer 3 ?c)"]
  show ?thesis by (simp add: Let_def)
qed

text \<open>
  Evicting an entry with an empty body frees its slot but is taken for a failure.
\<close>

lemma empty_body_eviction_fails:
  assumes "cache_inv c" "uint (m_limitContentEntries c) \<le> int (length (m_resourceList c))"
    and "m_resourceList c = r # rs" "\<not> m_used (deref c r)"
  shows "fst (purge_for_entry fp c) \<longleftrightarrow> m_contentLength (deref c r) \<noteq> 0"
    and "m_resourceList (snd (purge_for_entry fp c)) = rs"
proof -
  have "purgeOldest fp c = (m_contentLength (deref c r), removeResourceByNumber fp 0 c)"
    using assms(3,4) by (simp add: purgeOldest_def)
  moreover have "removeResourceByNumber fp 0 c = remove fp r c"
    using removeByNumber_remove [OF cache_invD(1) [OF assms(1)], of 0 fp] assms(3) by simp
  ultimately show "fst (purge_for_entry fp c) \<longleftrightarrow> m_contentLength (deref c r) \<noteq> 0"
    "m_resourceList (snd (purge_for_entry fp c)) = rs"
    using assms inv_remove(3) [OF assms(1), of r fp] by (simp_all add: purge_for_entry_def)
qed

end
