(* ===== verification/JobQueue.thy ===== *)
theory JobQueue
  imports HTTPCache ProxyFilter
begin

text \<open>
  The queues of \<open>ResourceHandleManager\<close> (\<open>ResourceHandleManagerWKC.cpp\<close>): jobs wait in the scheduled
  list for the application's permission and a free connection, run in the running list, or wait in
  the list of jobs that load from the disk cache. Each entry of a list holds a reference to its job.

  A job is its \<open>ResourceHandle\<close> together with its \<open>ResourceHandleInternal\<close>, in a store from job
  numbers; \<open>refs\<close> is the reference count, and a job is deleted when it reaches 0. libcurl, the
  application and the frame loader are parameters; what they are told is the log \<open>notified\<close>.
\<close>

section \<open>State\<close>

datatype PermitType = CANCEL | SUSPEND | ASKING | PERMIT

datatype ResourceRequestCachePolicy =
  UseProtocolCachePolicy | ReloadIgnoringCacheData | ReturnCacheDataElseLoad | ReturnCacheDataDontLoad

type_synonym jid = nat

record job =
  refs :: int
  firstRequestURL :: kurl
  httpMethod :: string
  cachePolicy :: ResourceRequestCachePolicy
  ifModifiedSince :: wtf_string
  ifNoneMatch :: wtf_string
  job_frame :: nat
  m_client :: bool
  m_handle :: bool
  m_cancelled :: bool
  m_redirectCount :: int
  d_url :: string
  m_fileLoading :: bool
  m_dataLoading :: bool
  m_matchProxyFilter :: bool
  m_composition :: int
  m_permitSend :: PermitType
  m_httpequivFlags :: i32
  m_httpequivMaxAge :: i32
  m_utilizedHTTPCache :: bool

datatype client_event =
  DidReceiveResponse | DidReceiveData "byte list" | DidFinishLoading | DidFail
| WillSendRequest kurl string | DidReceiveAuthenticationChallenge

record 'w rhm =
  m_httpCache :: "'w http_cache"
  m_readCacheJobList :: "jid list"
  m_readCacheTimer :: bool
  m_writeCacheList :: "rid list"
  m_writeCacheTimer :: bool
  m_scheduledJobList :: "jid list"
  m_runningJobList :: "jid list"
  m_downloadTimer :: bool
  m_proxyFilters :: "Filter list"
  m_harmfulSiteFilter :: bool
  m_tryProxySingleConnect :: bool
  m_httpConnections :: i32
  jobs :: "jid \<Rightarrow> job"
  notified :: "(jid \<times> client_event) list"

text \<open>
  What the frame loader, the application and libcurl answer: whether there is a loader client, what
  kind of content the frame is loading, whether the request may be sent (1 yes, -1 no, otherwise
  later through \<open>permitRequest\<close>), what the decoder of data URLs tells the client, and whether a
  transfer handle can be created and added.
\<close>

record frame_info =
  has_loader :: bool
  has_main :: bool
  isLoadingPlugIns :: bool
  isLoadingMainFrame :: bool
  isLoadingSubresources :: bool

record app =
  frameloaderclientwkc :: "jid \<Rightarrow> bool"
  frame_state :: "jid \<Rightarrow> frame_info"
  dispatchWillPermitSendRequest :: "jid \<Rightarrow> int"
  handleDataURL :: "jid \<Rightarrow> client_event list"
  easy_init :: "jid \<Rightarrow> bool"
  multi_add_handle :: "jid \<Rightarrow> bool"

definition upd_job :: "jid \<Rightarrow> (job \<Rightarrow> job) \<Rightarrow> 'w rhm \<Rightarrow> 'w rhm" where
  "upd_job j f m = m\<lparr>jobs := (jobs m)(j := f (jobs m j))\<rparr>"

definition ref_job :: "jid \<Rightarrow> 'w rhm \<Rightarrow> 'w rhm" where
  "ref_job j = upd_job j (\<lambda>d. d\<lparr>refs := refs d + 1\<rparr>)"

definition deref_job :: "jid \<Rightarrow> 'w rhm \<Rightarrow> 'w rhm" where
  "deref_job j = upd_job j (\<lambda>d. d\<lparr>refs := refs d - 1\<rparr>)"

definition notify :: "jid \<Rightarrow> client_event \<Rightarrow> 'w rhm \<Rightarrow> 'w rhm" where
  \<comment> \<open>a call of the job's client, if it has one\<close>
  "notify j e m = (if m_client (jobs m j) then m\<lparr>notified := notified m @ [(j, e)]\<rparr> else m)"

definition notify_all :: "jid \<Rightarrow> client_event list \<Rightarrow> 'w rhm \<Rightarrow> 'w rhm" where
  "notify_all j es m = foldl (\<lambda>m e. notify j e m) m es"

section \<open>Permission\<close>

definition EErrorContentComposition :: int where
  "EErrorContentComposition = -1"

definition contentComposition :: "frame_info \<Rightarrow> int" where
  \<comment> \<open>\<open>EInclusion\<close> is 0, \<open>ESubFrameRoot\<close> 1, \<open>ERootFrameRoot\<close> 2 and \<open>EOther\<close> 3\<close>
  "contentComposition f =
     (if \<not> has_loader f \<or> \<not> has_main f then EErrorContentComposition
      else if isLoadingPlugIns f then 3
      else if isLoadingSubresources f then 0
      else if isLoadingMainFrame f then 2 else 1)"

definition canPermitRequest :: "app \<Rightarrow> jid \<Rightarrow> 'w rhm \<Rightarrow> 'w rhm" where
  "canPermitRequest a j m =
     (let d = jobs m j in
      if m_cancelled d then m
      else if \<not> m_harmfulSiteFilter m then upd_job j (\<lambda>d. d\<lparr>m_permitSend := PERMIT\<rparr>) m
      else if m_permitSend d = SUSPEND then
        (if m_composition d \<noteq> EErrorContentComposition \<and> frameloaderclientwkc a j then
           let ret = dispatchWillPermitSendRequest a j
           in if ret = 1 then upd_job j (\<lambda>d. d\<lparr>m_permitSend := PERMIT\<rparr>) m
              else if ret = -1 then upd_job j (\<lambda>d. d\<lparr>m_permitSend := CANCEL, m_cancelled := True\<rparr>) m
              else upd_job j (\<lambda>d. d\<lparr>m_permitSend := ASKING\<rparr>) m
         else upd_job j (\<lambda>d. d\<lparr>m_permitSend := CANCEL, m_cancelled := True\<rparr>) m)
      else m)"

definition permitRequest :: "jid \<Rightarrow> bool \<Rightarrow> 'w rhm \<Rightarrow> 'w rhm" where
  "permitRequest j permit m =
     (let d = jobs m j in
      if j \<in> set (m_scheduledJobList m) \<and> \<not> m_cancelled d \<and> m_permitSend d = ASKING
      then (upd_job j (\<lambda>d. if permit then d\<lparr>m_permitSend := PERMIT\<rparr>
                           else d\<lparr>m_permitSend := CANCEL, m_cancelled := True\<rparr>) m)
             \<lparr>m_downloadTimer := True\<rparr>
      else m)"

section \<open>The lists\<close>

definition appendScheduledJob :: "app \<Rightarrow> jid \<Rightarrow> 'w rhm \<Rightarrow> 'w rhm" where
  "appendScheduledJob a j m =
     (let kurl = firstRequestURL (jobs m j);
          m1 = upd_job j (\<lambda>d. d
            \<lparr>m_permitSend := (if KURL_protocolIs kurl ''file'' \<or> KURL_protocolIs kurl ''data'' then PERMIT
                              else m_permitSend d),
             d_url := m_string kurl, m_composition := contentComposition (frame_state a j)\<rparr>) m
      in canPermitRequest a j (m1\<lparr>m_scheduledJobList := m_scheduledJobList m1 @ [j]\<rparr>))"

definition removeScheduledJob :: "jid \<Rightarrow> 'w rhm \<Rightarrow> bool \<times> 'w rhm" where
  "removeScheduledJob j m =
     (if j \<in> set (m_scheduledJobList m)
      then (True, deref_job j (m\<lparr>m_scheduledJobList := remove_first j (m_scheduledJobList m)\<rparr>))
      else if j \<in> set (m_readCacheJobList m)
      then (True, deref_job j (m\<lparr>m_readCacheJobList := remove_first j (m_readCacheJobList m)\<rparr>))
      else (False, m))"

text \<open>
  The loop of \<open>shiftScheduledJob\<close>. The \<open>break\<close> of the cases \<open>SUSPEND\<close> and \<open>ASKING\<close> leaves the switch, not
  the turn of the loop, so these jobs go on to the test below it.
\<close>

fun shift_index :: "'w rhm \<Rightarrow> nat \<Rightarrow> jid list \<Rightarrow> nat option" where
  "shift_index m i [] = None"
| "shift_index m i (j # js) =
     (let d = jobs m j in
      if m_cancelled d then Some i
      else if m_permitSend d = PERMIT \<or> m_permitSend d = CANCEL then Some i
      else if m_fileLoading d \<or> m_dataLoading d \<or> m_matchProxyFilter d then Some i
      else if m_tryProxySingleConnect m \<and> m_runningJobList m \<noteq> [] then shift_index m (Suc i) js
      else Some i)"

definition shiftScheduledJob :: "'w rhm \<Rightarrow> jid option \<times> 'w rhm" where
  "shiftScheduledJob m =
     (case shift_index m 0 (m_scheduledJobList m) of
        None \<Rightarrow> (None, m)
      | Some i \<Rightarrow> (Some (m_scheduledJobList m ! i), m\<lparr>m_scheduledJobList := vector_remove i (m_scheduledJobList m)\<rparr>))"

definition appendRunningJob :: "jid \<Rightarrow> 'w rhm \<Rightarrow> 'w rhm" where
  "appendRunningJob j m = m\<lparr>m_runningJobList := m_runningJobList m @ [j]\<rparr>"

definition removeRunningJob :: "jid \<Rightarrow> 'w rhm \<Rightarrow> bool \<times> 'w rhm" where
  "removeRunningJob j m =
     (j \<in> set (m_runningJobList m), m\<lparr>m_runningJobList := remove_first j (m_runningJobList m)\<rparr>)"

definition cancel :: "jid \<Rightarrow> 'w rhm \<Rightarrow> 'w rhm" where
  "cancel j m =
     (let (removed, m1) = removeScheduledJob j m
      in if removed then m1
         else let m2 = upd_job j (\<lambda>d. d\<lparr>m_cancelled := True\<rparr>) m1
              in if m_handle (jobs m2 j) then m2\<lparr>m_downloadTimer := True\<rparr> else m2)"

text \<open>From the end of the list, by position, as the source does.\<close>

fun cancel_scheduled_from :: "nat \<Rightarrow> nat \<Rightarrow> 'w rhm \<Rightarrow> 'w rhm" where
  "cancel_scheduled_from frame 0 m = m"
| "cancel_scheduled_from frame (Suc i) m =
     cancel_scheduled_from frame i
       (let j = m_scheduledJobList m ! i in if job_frame (jobs m j) = frame then cancel j m else m)"

fun cancel_running_from :: "nat \<Rightarrow> nat \<Rightarrow> 'w rhm \<Rightarrow> 'w rhm" where
  "cancel_running_from frame 0 m = m"
| "cancel_running_from frame (Suc i) m =
     cancel_running_from frame i
       (let j = m_runningJobList m ! i in if job_frame (jobs m j) = frame then cancel j m else m)"

definition cancelByFrame :: "nat \<Rightarrow> 'w rhm \<Rightarrow> 'w rhm" where
  "cancelByFrame frame m =
     (let m1 = cancel_scheduled_from frame (length (m_scheduledJobList m)) m
      in cancel_running_from frame (length (m_runningJobList m1)) m1)"

definition abort_job :: "jid \<Rightarrow> 'w rhm \<Rightarrow> 'w rhm" where
  "abort_job j m =
     (if \<not> m_cancelled (jobs m j) \<and> m_client (jobs m j)
      then upd_job j (\<lambda>d. d\<lparr>m_cancelled := True\<rparr>) (notify j DidFail m) else m)"

fun abort_scheduled :: "jid list \<Rightarrow> 'w rhm \<Rightarrow> 'w rhm" where
  "abort_scheduled [] m = m"
| "abort_scheduled (j # js) m = abort_scheduled js (deref_job j (abort_job j m))"

definition removeAllScheduledJobs :: "'w rhm \<Rightarrow> 'w rhm" where
  "removeAllScheduledJobs m = abort_scheduled (rev (m_scheduledJobList m)) (m\<lparr>m_scheduledJobList := []\<rparr>)"

fun abort_running :: "jid list \<Rightarrow> 'w rhm \<Rightarrow> 'w rhm" where
  "abort_running [] m = m"
| "abort_running (j # js) m =
     abort_running js
       (deref_job j (if m_handle (jobs m j) then upd_job j (\<lambda>d. d\<lparr>m_handle := False\<rparr>) (abort_job j m) else m))"

definition removeAllRunningJobs :: "'w rhm \<Rightarrow> 'w rhm" where
  "removeAllRunningJobs m = abort_running (m_runningJobList m) (m\<lparr>m_runningJobList := []\<rparr>)"

section \<open>Starting and finishing jobs\<close>

definition initializeHandle :: "app \<Rightarrow> jid \<Rightarrow> 'w rhm \<Rightarrow> 'w rhm" where
  \<comment> \<open>without the options set on the handle\<close>
  "initializeHandle a j m =
     (if m_redirectCount (jobs m j) = 0 \<and> \<not> easy_init a j then upd_job j (\<lambda>d. d\<lparr>m_handle := False\<rparr>) m
      else upd_job j (\<lambda>d. d\<lparr>m_handle := (m_redirectCount d = 0 \<or> m_handle d), m_cancelled := False,
             m_fileLoading := (KURL_protocolIs (firstRequestURL d) ''file'' \<or> m_fileLoading d),
             m_dataLoading := (KURL_protocolIs (firstRequestURL d) ''data'' \<or> m_dataLoading d)\<rparr>) m)"

definition startJob :: "app \<Rightarrow> jid \<Rightarrow> 'w rhm \<Rightarrow> 'w rhm" where
  "startJob a j m =
     (if KURL_protocolIs (firstRequestURL (jobs m j)) ''data''
      then deref_job j (cancel j (notify_all j (handleDataURL a j) m))
      else
        let m1 = initializeHandle a j m
        in if \<not> m_handle (jobs m1 j) then notify j DidFail m1
           else if \<not> multi_add_handle a j
           then deref_job j (upd_job j (\<lambda>d. d\<lparr>m_handle := False\<rparr>) (notify j DidFail (cancel j m1)))
           else appendRunningJob j m1)"

lemma length_shift:
  "shift_index m i js = Some k \<Longrightarrow> i \<le> k \<and> k < i + length js"
  by (induction m i js arbitrary: k rule: shift_index.induct) (fastforce simp: Let_def split: if_splits)+

lemma shift_shorter:
  "shiftScheduledJob m = (Some j, m') \<Longrightarrow> length (m_scheduledJobList m') < length (m_scheduledJobList m)"
  using length_shift [of m 0 "m_scheduledJobList m"]
  by (auto simp: shiftScheduledJob_def length_vector_remove split: option.splits)

lemma upd_lists [simp]:
  "m_scheduledJobList (upd_job j f m) = m_scheduledJobList m" "m_runningJobList (upd_job j f m) = m_runningJobList m"
  "m_readCacheJobList (upd_job j f m) = m_readCacheJobList m" "jobs (upd_job j f m) = (jobs m)(j := f (jobs m j))"
  "m_httpConnections (upd_job j f m) = m_httpConnections m" "m_tryProxySingleConnect (upd_job j f m) = m_tryProxySingleConnect m"
  by (simp_all add: upd_job_def)

lemma notify_lists [simp]:
  "m_scheduledJobList (notify j e m) = m_scheduledJobList m" "m_runningJobList (notify j e m) = m_runningJobList m"
  "m_readCacheJobList (notify j e m) = m_readCacheJobList m" "jobs (notify j e m) = jobs m"
  "m_httpConnections (notify j e m) = m_httpConnections m" "m_tryProxySingleConnect (notify j e m) = m_tryProxySingleConnect m"
  by (simp_all add: notify_def)

lemma notify_all_eq:
  "notify_all j es m = (if m_client (jobs m j) then m\<lparr>notified := notified m @ map (Pair j) es\<rparr> else m)"
  unfolding notify_all_def by (induction es arbitrary: m) (simp_all add: notify_def)

lemma notify_all_lists [simp]:
  "m_scheduledJobList (notify_all j es m) = m_scheduledJobList m" "m_runningJobList (notify_all j es m) = m_runningJobList m"
  "m_readCacheJobList (notify_all j es m) = m_readCacheJobList m" "jobs (notify_all j es m) = jobs m"
  "m_httpConnections (notify_all j es m) = m_httpConnections m"
  "m_tryProxySingleConnect (notify_all j es m) = m_tryProxySingleConnect m" "m_httpCache (notify_all j es m) = m_httpCache m"
  "m_writeCacheList (notify_all j es m) = m_writeCacheList m"
  by (simp_all add: notify_all_eq)

lemma cancel_shorter: "length (m_scheduledJobList (cancel j m)) \<le> length (m_scheduledJobList m)"
  by (auto simp: cancel_def removeScheduledJob_def deref_job_def Let_def length_remove1)

lemma startJob_shorter: "length (m_scheduledJobList (startJob a j m)) \<le> length (m_scheduledJobList m)"
  using cancel_shorter [of j "initializeHandle a j m"] cancel_shorter [of j "notify_all j (handleDataURL a j) m"]
  by (auto simp: startJob_def initializeHandle_def deref_job_def appendRunningJob_def Let_def)

definition drop_cancelled :: "jid \<Rightarrow> 'w rhm \<Rightarrow> 'w rhm" where
  "drop_cancelled j m =
     deref_job j (upd_job j (\<lambda>d. d\<lparr>m_handle := False\<rparr>)
       (if m_permitSend (jobs m j) = CANCEL then notify j DidFail m else m))"

definition may_start :: "'w rhm \<Rightarrow> bool" where
  "may_start m \<longleftrightarrow>
     (m_httpConnections m = 0 \<or> int (length (m_runningJobList m)) < uint (m_httpConnections m * 2))
     \<and> \<not> (m_tryProxySingleConnect m \<and> m_runningJobList m \<noteq> [])"

text \<open>The loop of \<open>startScheduledJobs\<close>; its result tells whether to poll again.\<close>

function start_loop :: "app \<Rightarrow> bool \<Rightarrow> 'w rhm \<Rightarrow> bool \<times> 'w rhm" where
  "start_loop a started m =
     (if may_start m then
        (case shiftScheduledJob m of
           (None, m1) \<Rightarrow> (True, m1)
         | (Some j, m1) \<Rightarrow>
             if m_cancelled (jobs m1 j) then start_loop a started (drop_cancelled j m1)
             else start_loop a True (startJob a j m1))
      else (started, m))"
  by pat_completeness auto
termination
  apply (relation "measure (\<lambda>(a, started, m). length (m_scheduledJobList m))")
    apply simp
   apply (auto simp: drop_cancelled_def deref_job_def dest!: shift_shorter [OF sym])[1]
  using startJob_shorter apply (fastforce dest!: shift_shorter [OF sym] intro: le_less_trans)
  done

declare start_loop.simps [simp del]

definition startScheduledJobs :: "app \<Rightarrow> 'w rhm \<Rightarrow> bool \<times> 'w rhm" where
  "startScheduledJobs a m = (if m_scheduledJobList m = [] then (False, m) else start_loop a False m)"

definition drop_running :: "jid \<Rightarrow> 'w rhm \<Rightarrow> 'w rhm" where
  "drop_running j m =
     deref_job j (upd_job j (\<lambda>d. d\<lparr>m_handle := False\<rparr>) (m\<lparr>m_runningJobList := remove_first j (m_runningJobList m)\<rparr>))"

function cancelScheduledJobs :: "'w rhm \<Rightarrow> 'w rhm" where
  "cancelScheduledJobs m =
     (case find (\<lambda>j. m_cancelled (jobs m j)) (m_runningJobList m) of
        None \<Rightarrow> m
      | Some j \<Rightarrow> cancelScheduledJobs (drop_running j m))"
  by pat_completeness auto
termination
proof (relation "measure (\<lambda>m. length (m_runningJobList m))", simp)
  fix m :: "'w rhm" and j assume "find (\<lambda>j. m_cancelled (jobs m j)) (m_runningJobList m) = Some j"
  then have "j \<in> set (m_runningJobList m)" by (auto simp: find_Some_iff)
  then have "length (remove_first j (m_runningJobList m)) < length (m_runningJobList m)"
    using length_pos_if_in_set [of j "m_runningJobList m"] by (simp add: length_remove1)
  then show "(drop_running j m, m) \<in> measure (\<lambda>m. length (m_runningJobList m))"
    by (simp add: drop_running_def deref_job_def)
qed

declare cancelScheduledJobs.simps [simp del]

text \<open>
  \<open>removeFromCurl\<close>: \<open>resumed\<close> tells that the transfer goes on, after an authentication challenge, a
  reconnection or a redirection; otherwise the job is finished.
\<close>

definition removeFromCurl :: "bool \<Rightarrow> jid \<Rightarrow> 'w rhm \<Rightarrow> 'w rhm" where
  "removeFromCurl resumed j m =
     (if \<not> m_handle (jobs m j) then m
      else if \<not> m_cancelled (jobs m j) \<and> resumed then m\<lparr>m_downloadTimer := True\<rparr>
      else deref_job j (upd_job j (\<lambda>d. d\<lparr>m_handle := False\<rparr>) (snd (removeRunningJob j m))))"

section \<open>Entry points\<close>

definition scheduleLoadResourceFromHTTPCache :: "jid \<Rightarrow> 'w rhm \<Rightarrow> 'w rhm" where
  "scheduleLoadResourceFromHTTPCache j m =
     (ref_job j m)\<lparr>m_readCacheJobList := m_readCacheJobList m @ [j], m_readCacheTimer := True\<rparr>"

text \<open>\<open>add\<close>: from the cache, conditionally from the network, or from the network.\<close>

definition queue_job :: "app \<Rightarrow> jid \<Rightarrow> 'w rhm \<Rightarrow> 'w rhm" where
  "queue_job a j m = (appendScheduledJob a j (ref_job j m))\<lparr>m_downloadTimer := True\<rparr>"

definition add :: "app \<Rightarrow> double \<Rightarrow> jid \<Rightarrow> 'w rhm \<Rightarrow> 'w rhm" where
  "add a now j m =
     (let kurl = firstRequestURL (jobs m j);
          m1 = upd_job j (\<lambda>d. d\<lparr>m_matchProxyFilter := (isMatchProxyFilter (m_proxyFilters m) (KURL_host kurl) = Some True)\<rparr>) m
      in if m_disabled (m_httpCache m) \<or> cachePolicy (jobs m j) = ReloadIgnoringCacheData then queue_job a j m1
         else
           case resourceForURL kurl (m_httpCache m) of
             None \<Rightarrow> queue_job a j m1
           | Some r \<Rightarrow>
               let x = deref (m_httpCache m) r in
               if m_lastModifiedHeader x = [] \<and> m_eTagHeader x = []
               then (if \<not> needRevalidate now x then scheduleLoadResourceFromHTTPCache j m1 else queue_job a j m1)
               else queue_job a j (upd_job j (\<lambda>d. d
                      \<lparr>ifModifiedSince := (if m_lastModifiedHeader x \<noteq> [] then m_lastModifiedHeader x else ifModifiedSince d),
                       ifNoneMatch := (if m_eTagHeader x \<noteq> [] then m_eTagHeader x else ifNoneMatch d),
                       m_utilizedHTTPCache := True\<rparr>) m1))"

section \<open>References\<close>

text \<open>
  The references to a job beyond those its list entries hold. A job that is in a list is alive as
  long as this is not negative.
\<close>

definition listed :: "'w rhm \<Rightarrow> jid \<Rightarrow> int" where
  "listed m j = int (count_list (m_scheduledJobList m) j) + int (count_list (m_runningJobList m) j)
     + int (count_list (m_readCacheJobList m) j)"

definition slack :: "'w rhm \<Rightarrow> jid \<Rightarrow> int" where
  "slack m j = refs (jobs m j) - listed m j"

named_theorems slack_simps \<open>how the operations change the references beyond the lists\<close>

lemma count_remove1: "int (count_list (remove1 j xs) k) = int (count_list xs k) - (if j \<in> set xs \<and> k = j then 1 else 0)"
proof (induction xs)
  case (Cons x xs)
  then show ?case by (auto simp: count_list_0_iff)
qed simp

lemma count_append: "count_list (xs @ [j]) k = count_list xs k + (if k = j then 1 else 0)"
  by (induction xs) auto

lemma count_vector_remove:
  assumes "i < length xs"
  shows "int (count_list (vector_remove i xs) k) = int (count_list xs k) - (if k = xs ! i then 1 else 0)"
proof -
  have "count_list xs k = count_list (take i xs @ xs ! i # drop (Suc i) xs) k"
    using id_take_nth_drop [OF assms] by simp
  then show ?thesis by (auto simp: vector_remove_def count_list_append)
qed

lemma slack_upd [slack_simps]: "(\<And>d. refs (f d) = refs d) \<Longrightarrow> slack (upd_job j f m) k = slack m k"
  by (simp add: slack_def listed_def)

lemma slack_deref [slack_simps]: "slack (deref_job j m) k = slack m k - (if k = j then 1 else 0)"
  by (simp add: slack_def listed_def deref_job_def)

lemma slack_ref [slack_simps]: "slack (ref_job j m) k = slack m k + (if k = j then 1 else 0)"
  by (simp add: slack_def listed_def ref_job_def)

lemma slack_notify [slack_simps]: "slack (notify j e m) k = slack m k" "slack (notify_all j es m) k = slack m k"
  by (simp_all add: slack_def listed_def)

lemma slack_fields [slack_simps]:
  "slack (m\<lparr>m_downloadTimer := b\<rparr>) k = slack m k" "slack (m\<lparr>m_readCacheTimer := b\<rparr>) k = slack m k"
  "slack (m\<lparr>m_writeCacheTimer := b\<rparr>) k = slack m k" "slack (m\<lparr>m_httpCache := c\<rparr>) k = slack m k"
  "slack (m\<lparr>m_writeCacheList := rs\<rparr>) k = slack m k"
  by (simp_all add: slack_def listed_def)

lemma slack_lists [slack_simps]:
  "slack (m\<lparr>m_scheduledJobList := js\<rparr>) k = slack m k + int (count_list (m_scheduledJobList m) k) - int (count_list js k)"
  "slack (m\<lparr>m_runningJobList := js\<rparr>) k = slack m k + int (count_list (m_runningJobList m) k) - int (count_list js k)"
  "slack (m\<lparr>m_readCacheJobList := js\<rparr>) k = slack m k + int (count_list (m_readCacheJobList m) k) - int (count_list js k)"
  by (simp_all add: slack_def listed_def)

lemma slack_removeScheduled [slack_simps]: "slack (snd (removeScheduledJob j m)) k = slack m k"
  by (simp add: removeScheduledJob_def slack_simps count_remove1 del: count_list_remove1)

lemma slack_cancel [slack_simps]: "slack (cancel j m) k = slack m k"
  using slack_removeScheduled [of j m k] by (simp add: cancel_def Let_def case_prod_beta slack_simps)

lemma slack_canPermit [slack_simps]: "slack (canPermitRequest a j m) k = slack m k"
  by (simp add: canPermitRequest_def Let_def slack_simps)

lemma slack_permit [slack_simps]: "slack (permitRequest j permit m) k = slack m k"
  by (simp add: permitRequest_def Let_def slack_simps)

lemma slack_appendScheduled [slack_simps]: "slack (appendScheduledJob a j m) k = slack m k - (if k = j then 1 else 0)"
  by (simp add: appendScheduledJob_def Let_def slack_simps count_append)

lemma slack_schedule_load [slack_simps]: "slack (scheduleLoadResourceFromHTTPCache j m) k = slack m k"
  using slack_ref [of j m k]
  by (simp add: scheduleLoadResourceFromHTTPCache_def slack_def listed_def ref_job_def count_append)

lemma slack_queue_job [slack_simps]: "slack (queue_job a j m) k = slack m k"
  by (simp add: queue_job_def slack_simps)

lemma slack_add [slack_simps]: "slack (add a now j m) k = slack m k"
  by (simp add: add_def Let_def slack_simps split: option.split)

lemma slack_cancel_from [slack_simps]:
  "slack (cancel_scheduled_from frame i m) k = slack m k" "slack (cancel_running_from frame i m) k = slack m k"
  by (induction i arbitrary: m) (simp_all add: Let_def slack_simps)

lemma slack_cancelByFrame [slack_simps]: "slack (cancelByFrame frame m) k = slack m k"
  by (simp add: cancelByFrame_def Let_def slack_simps)

lemma slack_abort_job [slack_simps]: "slack (abort_job j m) k = slack m k"
  by (simp add: abort_job_def slack_simps)

lemma slack_abort_scheduled: "slack (abort_scheduled js m) k = slack m k - int (count_list js k)"
  by (induction js arbitrary: m) (simp_all add: slack_simps)

lemma slack_removeAllScheduled [slack_simps]: "slack (removeAllScheduledJobs m) k = slack m k"
  by (simp add: removeAllScheduledJobs_def slack_abort_scheduled slack_simps count_list_rev)

lemma slack_abort_running: "slack (abort_running js m) k = slack m k - int (count_list js k)"
  by (induction js arbitrary: m) (simp_all add: slack_simps)

lemma slack_removeAllRunning [slack_simps]: "slack (removeAllRunningJobs m) k = slack m k"
  by (simp add: removeAllRunningJobs_def slack_abort_running slack_simps)

lemma slack_shift:
  assumes "shiftScheduledJob m = (Some j, m')"
  shows "slack m' k = slack m k + (if k = j then 1 else 0)"
proof -
  obtain i where i: "shift_index m 0 (m_scheduledJobList m) = Some i" "j = m_scheduledJobList m ! i"
    "m' = m\<lparr>m_scheduledJobList := vector_remove i (m_scheduledJobList m)\<rparr>"
    using assms by (auto simp: shiftScheduledJob_def split: option.splits)
  then show ?thesis using length_shift [OF i(1)] by (simp add: slack_simps count_vector_remove)
qed

text \<open>A job whose transfer handle cannot be created is dropped without releasing its reference.\<close>

lemma slack_startJob:
  "slack (startJob a j m) k = slack m k -
     (if k = j \<and> (KURL_protocolIs (firstRequestURL (jobs m j)) ''data''
        \<or> (if m_redirectCount (jobs m j) = 0 then easy_init a j else m_handle (jobs m j))) then 1 else 0)"
  by (simp add: startJob_def initializeHandle_def Let_def slack_simps appendRunningJob_def count_append)

lemma slack_drop_cancelled: "slack (drop_cancelled j m) k = slack m k - (if k = j then 1 else 0)"
  by (simp add: drop_cancelled_def slack_simps)

text \<open>What every turn of the loop keeps holds at its end.\<close>

lemma start_loop_keeps:
  assumes "\<And>m m1 j. P m \<Longrightarrow> may_start m \<Longrightarrow> shiftScheduledJob m = (Some j, m1) \<Longrightarrow> P (drop_cancelled j m1)"
    and "\<And>m m1 j. P m \<Longrightarrow> may_start m \<Longrightarrow> shiftScheduledJob m = (Some j, m1) \<Longrightarrow> P (startJob a j m1)"
  shows "P m \<Longrightarrow> P (snd (start_loop a started m))"
  using assms
proof (induction a started m rule: start_loop.induct)
  case (1 a started m)
  obtain jo m1 where sh: "shiftScheduledJob m = (jo, m1)" by fastforce
  show ?case
  proof (cases "may_start m")
    case True
    show ?thesis
    proof (cases jo)
      case None
      then have "m1 = m" using sh by (auto simp: shiftScheduledJob_def split: option.splits)
      then show ?thesis using True None sh "1.prems"(1) by (simp add: start_loop.simps [of a started m])
    next
      case (Some j)
      note keep = "1.prems"(2,3) [OF "1.prems"(1) True sh [unfolded Some]]
      show ?thesis
      proof (cases "m_cancelled (jobs m1 j)")
        case c: True
        have "P (snd (start_loop a started (drop_cancelled j m1)))"
          by (rule "1.IH"(1) [OF True sh [symmetric] Some c keep(1)]) (use "1.prems"(2,3) in blast)+
        then show ?thesis using True sh Some c by (simp add: start_loop.simps [of a started m])
      next
        case c: False
        have "P (snd (start_loop a True (startJob a j m1)))"
          by (rule "1.IH"(2) [OF True sh [symmetric] Some c keep(2)]) (use "1.prems"(2,3) in blast)+
        then show ?thesis using True sh Some c by (simp add: start_loop.simps [of a started m])
      qed
    qed
  qed (use "1.prems"(1) in \<open>simp add: start_loop.simps [of a started m]\<close>)
qed

lemma slack_start_loop: "slack m k \<le> slack (snd (start_loop a started m)) k"
  by (rule start_loop_keeps [where P = "\<lambda>m'. slack m k \<le> slack m' k"])
    (auto simp: slack_shift slack_drop_cancelled slack_startJob)

lemma slack_startScheduled: "slack m k \<le> slack (snd (startScheduledJobs a m)) k"
  using slack_start_loop [where m = m and started = False] by (simp add: startScheduledJobs_def)

lemma slack_drop_running [slack_simps]: "j \<in> set (m_runningJobList m) \<Longrightarrow> slack (drop_running j m) k = slack m k"
  by (simp add: drop_running_def slack_simps count_remove1 del: count_list_remove1)

lemma slack_cancelScheduled [slack_simps]: "slack (cancelScheduledJobs m) k = slack m k"
proof (induction m rule: cancelScheduledJobs.induct)
  case (1 m)
  show ?case
  proof (cases "find (\<lambda>j. m_cancelled (jobs m j)) (m_runningJobList m)")
    case (Some j)
    then have "j \<in> set (m_runningJobList m)" by (auto simp: find_Some_iff)
    then show ?thesis using "1.IH" [OF Some] Some by (simp add: cancelScheduledJobs.simps [of m] slack_simps)
  qed (simp add: cancelScheduledJobs.simps)
qed

lemma slack_removeFromCurl [slack_simps]:
  "j \<in> set (m_runningJobList m) \<Longrightarrow> slack (removeFromCurl resumed j m) k = slack m k"
  by (simp add: removeFromCurl_def removeRunningJob_def slack_simps count_remove1 del: count_list_remove1)

section \<open>Properties\<close>

lemma running_upd: "m_runningJobList (cancel j m) = m_runningJobList m" "m_httpConnections (cancel j m) = m_httpConnections m"
  "m_runningJobList (deref_job j m) = m_runningJobList m" "m_httpConnections (deref_job j m) = m_httpConnections m"
  by (simp_all add: cancel_def removeScheduledJob_def deref_job_def Let_def)

lemma running_startJob:
  "m_runningJobList (startJob a j m) = m_runningJobList m \<or> m_runningJobList (startJob a j m) = m_runningJobList m @ [j]"
  "m_httpConnections (startJob a j m) = m_httpConnections m"
  by (simp_all add: startJob_def initializeHandle_def Let_def running_upd appendRunningJob_def)

lemma running_shift:
  assumes "shiftScheduledJob m = (Some j, m1)"
  shows "m_runningJobList m1 = m_runningJobList m" "m_httpConnections m1 = m_httpConnections m"
  using assms by (auto simp: shiftScheduledJob_def split: option.splits)

text \<open>
  C30: \<open>startScheduledJobs\<close> ends, and with a limit on the connections it never has more than twice that
  many jobs running.
\<close>

theorem connection_limit_kept:
  assumes "m_httpConnections m \<noteq> 0" "int (length (m_runningJobList m)) \<le> uint (m_httpConnections m * 2)"
  shows "int (length (m_runningJobList (snd (startScheduledJobs a m)))) \<le> uint (m_httpConnections m * 2)"
proof -
  define P where "P = (\<lambda>m' :: 'a rhm. m_httpConnections m' = m_httpConnections m
    \<and> int (length (m_runningJobList m')) \<le> uint (m_httpConnections m * 2))"
  have "P (snd (start_loop a False m))"
  proof (rule start_loop_keeps)
    fix m' m1 j assume a: "P m'" "may_start m'" "shiftScheduledJob m' = (Some j, m1)"
    note r = running_shift [OF a(3)]
    show "P (drop_cancelled j m1)" using a(1) r by (simp add: P_def drop_cancelled_def running_upd)
    show "P (startJob a j m1)"
      using a(1,2) r running_startJob [of a j m1] assms(1) by (auto simp: P_def may_start_def)
  qed (use assms in \<open>simp add: P_def\<close>)
  then show ?thesis using assms(2) by (simp add: P_def startScheduledJobs_def)
qed

text \<open>A manager with empty queues.\<close>

definition rhm_new :: "'w http_cache \<Rightarrow> (jid \<Rightarrow> job) \<Rightarrow> 'w rhm" where
  "rhm_new c js =
     \<lparr>m_httpCache = c, m_readCacheJobList = [], m_readCacheTimer = False, m_writeCacheList = [],
      m_writeCacheTimer = False, m_scheduledJobList = [], m_runningJobList = [], m_downloadTimer = False,
      m_proxyFilters = [], m_harmfulSiteFilter = False, m_tryProxySingleConnect = False, m_httpConnections = 0,
      jobs = js, notified = []\<rparr>"

definition sample_job :: job where
  "sample_job =
     \<lparr>refs = 1, firstRequestURL = invalidate [], httpMethod = ''GET'', cachePolicy = UseProtocolCachePolicy,
      ifModifiedSince = [], ifNoneMatch = [], job_frame = 0, m_client = True, m_handle = False, m_cancelled = False,
      m_redirectCount = 0, d_url = [], m_fileLoading = False, m_dataLoading = False, m_matchProxyFilter = False, m_composition = 0,
      m_permitSend = SUSPEND, m_httpequivFlags = 0, m_httpequivMaxAge = 0, m_utilizedHTTPCache = False\<rparr>"

definition sample_app :: app where
  "sample_app =
     \<lparr>frameloaderclientwkc = (\<lambda>_. True), frame_state = (\<lambda>_. \<lparr>has_loader = True, has_main = True,
        isLoadingPlugIns = False, isLoadingMainFrame = True, isLoadingSubresources = False\<rparr>),
      dispatchWillPermitSendRequest = (\<lambda>_. 0), handleDataURL = (\<lambda>_. []), easy_init = (\<lambda>_. True), multi_add_handle = (\<lambda>_. True)\<rparr>"

theorem connection_limit_kept_witness:
  "let m = (rhm_new (HTTPCache_new ()) (\<lambda>_. sample_job))\<lparr>m_httpConnections := 1, m_scheduledJobList := [0, 1, 2]\<rparr>
   in int (length (m_runningJobList (snd (startScheduledJobs sample_app m)))) \<le> 2"
  using connection_limit_kept [of "(rhm_new (HTTPCache_new ()) (\<lambda>_. sample_job))
      \<lparr>m_httpConnections := 1, m_scheduledJobList := [0, 1, 2]\<rparr>" sample_app]
  by (simp add: rhm_new_def)

text \<open>
  C35: with the filter for harmful sites on, a request is sent while the application is still being
  asked about it: the only scheduled job, in the state \<open>ASKING\<close>, is started, and the application's
  refusal afterwards has no effect.
\<close>

theorem asking_job_is_started:
  assumes "m_harmfulSiteFilter m" "m_scheduledJobList m = [j]" "m_httpConnections m = 0" "\<not> m_tryProxySingleConnect m"
    and "m_permitSend (jobs m j) = ASKING" "\<not> m_cancelled (jobs m j)" "m_redirectCount (jobs m j) = 0"
    and "\<not> KURL_protocolIs (firstRequestURL (jobs m j)) ''data''" "easy_init a j" "multi_add_handle a j"
  shows "m_runningJobList (snd (startScheduledJobs a m)) = m_runningJobList m @ [j]
    \<and> permitRequest j False (snd (startScheduledJobs a m)) = snd (startScheduledJobs a m)"
proof -
  let ?m1 = "m\<lparr>m_scheduledJobList := []\<rparr>"
  have "shiftScheduledJob m = (Some j, ?m1)"
    using assms by (simp add: shiftScheduledJob_def Let_def vector_remove_def)
  then have "start_loop a False m = start_loop a True (startJob a j ?m1)"
    using assms by (simp add: start_loop.simps [of a False] may_start_def)
  moreover have "startJob a j ?m1 = appendRunningJob j (initializeHandle a j ?m1)"
    using assms by (simp add: startJob_def initializeHandle_def Let_def)
  moreover have "start_loop a True (appendRunningJob j (initializeHandle a j ?m1)) = (True, appendRunningJob j (initializeHandle a j ?m1))"
    using assms
    by (simp add: start_loop.simps may_start_def shiftScheduledJob_def appendRunningJob_def initializeHandle_def)
  ultimately have "snd (startScheduledJobs a m) = appendRunningJob j (initializeHandle a j ?m1)"
    using assms(2) by (simp add: startScheduledJobs_def)
  then show ?thesis by (simp add: appendRunningJob_def initializeHandle_def permitRequest_def)
qed

theorem asking_job_is_started_witness:
  "m_runningJobList (snd (startScheduledJobs sample_app
     (appendScheduledJob sample_app 0 ((rhm_new (HTTPCache_new ()) (\<lambda>_. sample_job))\<lparr>m_harmfulSiteFilter := True\<rparr>)))) = [0]"
  using asking_job_is_started [of "appendScheduledJob sample_app 0
      ((rhm_new (HTTPCache_new ()) (\<lambda>_. sample_job))\<lparr>m_harmfulSiteFilter := True\<rparr>)" 0 sample_app]
  by (simp add: appendScheduledJob_def canPermitRequest_def upd_job_def rhm_new_def sample_app_def sample_job_def
      contentComposition_def EErrorContentComposition_def KURL_protocolIs_def invalidate_def Let_def)

end
