(* ===== verification/CacheManager.thy ===== *)
theory CacheManager
  imports JobQueue
begin

text \<open>
  How \<open>ResourceHandleManager\<close> uses the disk cache (\<open>ResourceHandleManagerWKC.cpp\<close>): a finished response
  becomes an entry that waits in \<open>m_writeCacheList\<close> until no job is active, a timer writes one entry at
  a time and, when the list is empty, the FAT file; another timer serves the jobs that load from the
  cache; a page's \<open>meta http-equiv\<close> changes an entry. None is a call that does not return or that
  accesses memory outside its buffers.
\<close>

section \<open>Clearing\<close>

definition drop_pending :: "'w rhm \<Rightarrow> 'w rhm" where
  \<comment> \<open>the jobs that wait to read and the entries that wait to be written, from the end\<close>
  "drop_pending m =
     (let m1 = foldl (\<lambda>m j. deref_job j m) (m\<lparr>m_readCacheTimer := False, m_readCacheJobList := []\<rparr>)
                 (rev (m_readCacheJobList m))
      in m1\<lparr>m_writeCacheTimer := False, m_writeCacheList := [],
            m_httpCache := foldl (\<lambda>c r. delete_resource r c) (m_httpCache m) (rev (m_writeCacheList m))\<rparr>)"

definition resetHTTPCache :: "'w rhm \<Rightarrow> 'w rhm" where
  "resetHTTPCache m = (let m1 = drop_pending m in m1\<lparr>m_httpCache := reset (m_httpCache m1)\<rparr>)"

definition clearHTTPCache :: "('w, 'f) file_peer \<Rightarrow> 'w rhm \<Rightarrow> 'w rhm option" where
  "clearHTTPCache fp m =
     (if m_disabled (m_httpCache m) then Some m
      else
        let m1 = drop_pending m; c1 = removeAll fp (m_httpCache m1); c2 = snd (purgeBySize fp 0 c1)
        in Option.bind (writeFATFile fp c2) (\<lambda>(_, c3).
             map_option (\<lambda>(_, c4). m1\<lparr>m_httpCache := c4\<rparr>) (readFATFile fp c3)))"

section \<open>Storing a response\<close>

fun find_pending :: "(rid \<Rightarrow> bool) \<Rightarrow> nat \<Rightarrow> rid list \<Rightarrow> nat option" where
  "find_pending P num [] = None"
| "find_pending P num (r # rs) = (if P r then Some num else find_pending P (Suc num) rs)"

definition updateCacheResource :: "('w, 'f) file_peer \<Rightarrow> (uchar \<Rightarrow> uchar) \<Rightarrow> double \<Rightarrow> kurl \<Rightarrow> shared_buffer \<Rightarrow> response
    \<Rightarrow> bool \<Rightarrow> bool \<Rightarrow> bool \<Rightarrow> double \<Rightarrow> double \<Rightarrow> 'w rhm \<Rightarrow> rid option \<times> 'w rhm" where
  "updateCacheResource fp foldCase now url data resp noCache noStore mustRevalidate expires maxAge m =
     (let c = m_httpCache m;
          upd = (\<lambda>r. updateCachedResource now r data resp noCache mustRevalidate expires maxAge c)
      in case resourceForURL url c of
           Some r \<Rightarrow>
             if noStore then (None, m\<lparr>m_httpCache := remove fp r c\<rparr>)
             else (Some r, m\<lparr>m_httpCache := detach fp r (upd r)\<rparr>)
         | None \<Rightarrow>
             (case find_pending (\<lambda>r. equalHTTPCachedResourceURL foldCase r url c) 0 (m_writeCacheList m) of
                None \<Rightarrow> (None, m)
              | Some num \<Rightarrow>
                  let r = m_writeCacheList m ! num; m1 = m\<lparr>m_writeCacheList := vector_remove num (m_writeCacheList m)\<rparr>
                  in if noStore then (None, m1) else (Some r, m1\<lparr>m_httpCache := upd r\<rparr>)))"

definition addHTTPCache :: "('w, 'f) file_peer \<Rightarrow> (uchar \<Rightarrow> uchar) \<Rightarrow> cached_resource \<Rightarrow> double \<Rightarrow> jid \<Rightarrow> kurl
    \<Rightarrow> shared_buffer option \<Rightarrow> response \<Rightarrow> 'w rhm \<Rightarrow> bool \<times> 'w rhm" where
  "addHTTPCache fp foldCase raw now j url resourceData resp m =
     (case resourceData of None \<Rightarrow> (False, m) | Some data \<Rightarrow>
      if \<not> m_protocolIsInHTTPFamily url then (False, m)
      else if cachePolicy (jobs m j) = UseProtocolCachePolicy \<and> httpMethod (jobs m j) = ''OPTIONS'' then (False, m)
      else
        let flags = m_httpequivFlags (jobs m j);
            noCache = (r_noCache resp \<or> has_flag flags EHTTPEquivNoCache);
            noStore = r_noStore resp;
            mustRevalidate = (r_mustRevalidate resp \<or> has_flag flags EHTTPEquivMustRevalidate);
            maxAge = (if has_flag flags EHTTPEquivMaxAge then dbl_of_int (sint (m_httpequivMaxAge (jobs m j))) else quiet_NaN);
            (ro, m1) = updateCacheResource fp foldCase now url data resp noCache noStore mustRevalidate quiet_NaN maxAge m
        in if noStore then (False, m1)
           else
             let (ro', m2) =
                   (case ro of Some r \<Rightarrow> (Some r, m1)
                    | None \<Rightarrow>
                        let (new, c) = createHTTPCachedResource fp raw now url data resp noCache mustRevalidate quiet_NaN maxAge (m_httpCache m1)
                        in (new, m1\<lparr>m_httpCache := c\<rparr>))
             in case ro' of
                  None \<Rightarrow> (False, m2)
                | Some r \<Rightarrow> (True, m2\<lparr>m_writeCacheList := m_writeCacheList m2 @ [r], m_writeCacheTimer := True\<rparr>))"

definition writeCacheTimerCallback :: "('w, 'f) file_peer \<Rightarrow> 'w rhm \<Rightarrow> 'w rhm option" where
  "writeCacheTimerCallback fp m =
     (case m_writeCacheList m of
        [] \<Rightarrow> Some m
      | r # rs \<Rightarrow>
          if m_scheduledJobList m \<noteq> [] \<or> m_runningJobList m \<noteq> [] then Some (m\<lparr>m_writeCacheTimer := True\<rparr>)
          else Option.bind (cache_write fp r (m_httpCache m)) (\<lambda>(ok, c).
            let m1 = m\<lparr>m_writeCacheList := rs, m_httpCache := (if ok then c else delete_resource r c)\<rparr>
            in if rs = [] then map_option (\<lambda>(_, c'). m1\<lparr>m_httpCache := c'\<rparr>) (writeFATFile fp (m_httpCache m1))
               else Some (m1\<lparr>m_writeCacheTimer := True\<rparr>)))"

section \<open>Serving from the cache\<close>

text \<open>
  What the frame loader and the client of the job answer in one call of the timer: whether there is
  a loader client, whether the data is accepted at each of the points where it is offered, whether
  the frame changed, whether memory could be had, and whether the client cancels the job from
  within \<open>didReceiveResponse\<close> or while it receives the data.
\<close>

record reader =
  rd_frameclient :: bool
  rd_accept_response :: bool
  rd_client_accepts_response :: bool
  rd_cancels_in_response :: bool
  rd_same_frame :: bool
  rd_accept_data :: bool
  rd_client_accepts_data :: bool
  rd_malloc :: bool
  rd_cancels_in_data :: bool

definition next_read :: "'w rhm \<Rightarrow> 'w rhm" where
  "next_read m = (if m_readCacheJobList m = [] then m else m\<lparr>m_readCacheTimer := True\<rparr>)"

definition finish_read :: "jid \<Rightarrow> 'w rhm \<Rightarrow> 'w rhm" where
  "finish_read j m =
     next_read (if m_readCacheJobList m \<noteq> [] then deref_job j (m\<lparr>m_readCacheJobList := tl (m_readCacheJobList m)\<rparr>) else m)"

definition refuse_read :: "jid \<Rightarrow> 'w rhm \<Rightarrow> 'w rhm" where
  \<comment> \<open>the label \<open>cancel\<close>\<close>
  "refuse_read j m =
     next_read (if \<not> m_cancelled (jobs m j)
                then notify j DidFail (if m_handle (jobs m j) then cancel j m else m) else m)"

definition readCacheTimerCallback :: "('w, 'f) file_peer \<Rightarrow> reader \<Rightarrow> 'w rhm \<Rightarrow> 'w rhm option" where
  "readCacheTimerCallback fp rd m =
     (case m_readCacheJobList m of
        [] \<Rightarrow> Some m
      | j # _ \<Rightarrow>
          (case (if rd_frameclient rd then resourceForURL (firstRequestURL (jobs m j)) (m_httpCache m) else None) of
             None \<Rightarrow> Some (finish_read j m)
           | Some r \<Rightarrow>
               if \<not> rd_accept_response rd \<or> m_client (jobs m j) \<and> \<not> rd_client_accepts_response rd
                  \<or> \<not> m_client (jobs m j)
               then Some (refuse_read j m)
               else
                 let m1 = notify j DidReceiveResponse m;
                     m2 = (if rd_cancels_in_response rd then cancel j m1 else m1)
                 in if m_cancelled (jobs m2 j) \<or> \<not> rd_same_frame rd \<or> \<not> rd_accept_data rd \<or> \<not> rd_client_accepts_data rd
                    then Some (refuse_read j m2)
                    else if \<not> rd_malloc rd then Some (finish_read j m2)
                    else map_option (\<lambda>(ok, out, c).
                           let m3 = m2\<lparr>m_httpCache := c\<rparr>;
                               m4 = (if ok then notify j DidFinishLoading (notify j (DidReceiveData out) m3)
                                     else notify j DidFail m3)
                           in finish_read j (if rd_cancels_in_data rd then cancel j m4 else m4))
                         (cache_read fp r (m_httpCache m2))))"

section \<open>Directives of a page\<close>

text \<open>
  \<open>equalIgnoringCase(content.characters8(), "max-age", 7)\<close> reads seven characters whatever the length of
  the string; it stops at the first difference, so it reads beyond a string that is a proper prefix.
\<close>

definition is_max_age :: "string \<Rightarrow> bool option" where
  "is_max_age content =
     (if 7 \<le> length content then Some (str_lower (take 7 content) = ''max-age'')
      else if str_lower content = take (length content) ''max-age'' then None
      else Some False)"

definition max_age_seconds :: "string \<Rightarrow> int" where
  "max_age_seconds content =
     (case str_find content (CHR ''='') of
        None \<Rightarrow> -1
      | Some pos \<Rightarrow>
          if pos + 1 < length content then
            let num = stripWhiteSpace (drop (pos + 1) content)
            in if num = [] then -1 else (case toInt num of None \<Rightarrow> -1 | Some n \<Rightarrow> n)
          else -1)"

definition equiv_flag :: "bool \<Rightarrow> int \<Rightarrow> string \<Rightarrow> i32" where
  "equiv_flag cachecontrol sec content =
     (if equalIgnoringCase content ''no-cache'' then EHTTPEquivNoCache
      else if cachecontrol \<and> equalIgnoringCase content ''must-revalidate'' then EHTTPEquivMustRevalidate
      else if 0 \<le> sec then EHTTPEquivMaxAge else 0)"

definition same_url :: "kurl \<Rightarrow> job \<Rightarrow> bool" where
  "same_url url d \<longleftrightarrow> (case KURL_parse (d_url d) of None \<Rightarrow> False | Some rurl \<Rightarrow> m_string rurl = m_string url)"

definition equiv_job :: "i32 \<Rightarrow> int \<Rightarrow> kurl \<Rightarrow> 'w rhm \<Rightarrow> 'w rhm" where
  \<comment> \<open>the last scheduled job with the URL; a directive that is not known changes nothing\<close>
  "equiv_job flag sec url m =
     (if flag = 0 then m
      else case find (\<lambda>j. same_url url (jobs m j)) (rev (m_scheduledJobList m)) of
             None \<Rightarrow> m
           | Some j \<Rightarrow> upd_job j (\<lambda>d. d\<lparr>m_httpequivFlags := m_httpequivFlags d OR flag,
                 m_httpequivMaxAge := (if flag = EHTTPEquivMaxAge then word_of_int sec else m_httpequivMaxAge d)\<rparr>) m)"

definition processHttpEquiv :: "string \<Rightarrow> kurl \<Rightarrow> bool \<Rightarrow> 'w rhm \<Rightarrow> 'w rhm option" where
  "processHttpEquiv content url cachecontrol m =
     map_option (\<lambda>ismaxage.
       let c = m_httpCache m;
           sec = (if cachecontrol \<and> ismaxage \<and> 7 < length content then max_age_seconds content else -1);
           flag = equiv_flag cachecontrol sec content;
           rsp = (case resourceForURL url c of Some r \<Rightarrow> Some r
                  | None \<Rightarrow> find (\<lambda>r. m_url (deref c r) = of_latin1 (m_string url)) (m_writeCacheList m))
       in case rsp of
            None \<Rightarrow> equiv_job flag sec url m
          | Some r \<Rightarrow>
              let x = deref c r
              in m\<lparr>m_httpCache := store r
                    (update x (flag = EHTTPEquivNoCache \<or> m_noCache x) (flag = EHTTPEquivMustRevalidate \<or> m_mustRevalidate x)
                       (m_expires x) (if flag = EHTTPEquivMaxAge then dbl_of_int sec else m_maxAge x) flag) c\<rparr>)
     (is_max_age content)"

section \<open>Invariant of the pending entries\<close>

text \<open>
  An entry that waits to be written is alive, is not in the cache's list, and its URL is neither in
  the cache's map nor that of another waiting entry.
\<close>

definition pending_ok :: "'w http_cache \<Rightarrow> rid list \<Rightarrow> bool" where
  "pending_ok c rs \<longleftrightarrow> distinct rs \<and> distinct (map (\<lambda>r. m_url (deref c r)) rs)
     \<and> (\<forall>r \<in> set rs. heap c r \<noteq> None \<and> r \<notin> set (m_resourceList c) \<and> m_resources c (m_url (deref c r)) = None)"

lemma pending_Nil [simp]: "pending_ok c []"
  by (simp add: pending_ok_def)

lemma pending_frame:
  assumes "pending_ok c rs" "\<forall>r \<in> set rs. heap d r = heap c r" "set (m_resourceList d) \<subseteq> set (m_resourceList c)"
    and "\<forall>u. m_resources c u = None \<longrightarrow> m_resources d u = None"
  shows "pending_ok d rs"
proof -
  have d: "\<forall>r \<in> set rs. deref d r = deref c r" using assms(2) by (simp add: deref_def)
  then have m: "map (\<lambda>r. m_url (deref d r)) rs = map (\<lambda>r. m_url (deref c r)) rs" by simp
  show ?thesis using assms d unfolding pending_ok_def m by auto
qed

lemma pending_trims:
  assumes "pending_ok c rs" "trims c d"
  shows "pending_ok d rs"
  by (rule pending_frame [OF assms(1)]) (use assms in \<open>auto simp: trims_def pending_ok_def\<close>)

lemma pending_snoc:
  "pending_ok c (rs @ [r]) \<longleftrightarrow> pending_ok c rs \<and> r \<notin> set rs \<and> m_url (deref c r) \<notin> (\<lambda>r. m_url (deref c r)) ` set rs
     \<and> heap c r \<noteq> None \<and> r \<notin> set (m_resourceList c) \<and> m_resources c (m_url (deref c r)) = None"
  by (auto simp: pending_ok_def)

lemma pending_Cons:
  "pending_ok c (r # rs) \<longleftrightarrow> pending_ok c rs \<and> r \<notin> set rs \<and> m_url (deref c r) \<notin> (\<lambda>r. m_url (deref c r)) ` set rs
     \<and> heap c r \<noteq> None \<and> r \<notin> set (m_resourceList c) \<and> m_resources c (m_url (deref c r)) = None"
  by (auto simp: pending_ok_def)

lemma find_pending_Some:
  "find_pending P k rs = Some n \<Longrightarrow> k \<le> n \<and> n < k + length rs \<and> P (rs ! (n - k))"
  by (induction P k rs rule: find_pending.induct) (fastforce split: if_splits simp: nth_Cons')+

lemma find_pending_None: "find_pending P k rs = None \<longleftrightarrow> (\<forall>r \<in> set rs. \<not> P r)"
  by (induction P k rs rule: find_pending.induct) auto

lemma pending_remove:
  assumes "pending_ok c rs" "n < length rs"
  shows "pending_ok c (vector_remove n rs @ [rs ! n])"
proof -
  have "rs = take n rs @ rs ! n # drop (Suc n) rs" by (rule id_take_nth_drop [OF assms(2)])
  then obtain as bs where "rs = as @ rs ! n # bs" "vector_remove n rs = as @ bs" by (metis vector_remove_def)
  moreover have "pending_ok c (as @ x # bs) \<Longrightarrow> pending_ok c ((as @ bs) @ [x])" for as bs x
    by (auto simp: pending_ok_def)
  ultimately show ?thesis using assms(1) by metis
qed

lemma updated_entry:
  "\<exists>x. updateCachedResource now r data resp nc mr ex ma c = store r x c \<and> m_url x = m_url (deref c r)
    \<and> m_resourceSize x = m_resourceSize (deref c r) \<and> m_contentLength x = word_of_int (m_size data) \<and> m_resourceData x = Some data"
  by (auto simp: updateCachedResource_def update_def setResourceData_def setResourceResponse_def Let_def)

text \<open>An entry to be replaced is taken from the cache or from the pending entries.\<close>

lemma updateCacheResource_inv:
  assumes "cache_inv (m_httpCache m)" "pending_ok (m_httpCache m) (m_writeCacheList m)"
    and "updateCacheResource fp foldCase now url data resp nc noStore mr ex ma m = (ro, m')"
  shows "cache_inv (m_httpCache m') \<and> pending_ok (m_httpCache m') (m_writeCacheList m')
    \<and> (\<forall>r. ro = Some r \<longrightarrow> pending_ok (m_httpCache m') (m_writeCacheList m' @ [r]))
    \<and> (ro = None \<and> \<not> noStore \<longrightarrow> m' = m \<and> m_resources (m_httpCache m) (cache_key url) = None
        \<and> cache_key url \<notin> (\<lambda>r. m_url (deref (m_httpCache m) r)) ` set (m_writeCacheList m))
    \<and> (\<exists>c rs. m' = m\<lparr>m_httpCache := c, m_writeCacheList := rs\<rparr>)"
proof -
  let ?c = "m_httpCache m" and ?rs = "m_writeCacheList m"
  note D = cache_invD [OF assms(1)]
  show ?thesis
  proof (cases "resourceForURL url ?c")
    case (Some r)
    then have map: "m_resources ?c (cache_key url) = Some r" by (simp add: resourceForURL_def)
    then have r: "r \<in> set (m_resourceList ?c)" "m_url (deref ?c r) = cache_key url" using D(4,5) by auto
    have other: "ra \<noteq> r" "m_url (deref ?c ra) \<noteq> cache_key url" if "ra \<in> set ?rs" for ra
      using assms(2) that r(1) map by (auto simp: pending_ok_def)
    show ?thesis
    proof (cases noStore)
      case True
      then have "ro = None" "m' = m\<lparr>m_httpCache := remove fp r ?c\<rparr>"
        using assms(3) Some by (simp_all add: updateCacheResource_def Let_def)
      then show ?thesis
        using inv_remove(1) [OF assms(1) r(1)] pending_trims [OF assms(2) evicts_trims [OF remove_evicts(1) [OF assms(1) r(1)]]] True
        by (auto intro!: exI [of _ "remove fp r ?c"] exI [of _ ?rs])
    next
      case False
      obtain x where x: "updateCachedResource now r data resp nc mr ex ma ?c = store r x ?c" "m_url x = m_url (deref ?c r)"
        "m_resourceSize x = m_resourceSize (deref ?c r)" using updated_entry by metis
      let ?d = "detach fp r (store r x ?c)"
      note U = inv_update_detach [OF assms(1) r(1) x(2,3), where fp = fp]
      have res: "ro = Some r" "m' = m\<lparr>m_httpCache := ?d\<rparr>"
        using assms(3) Some False x(1) by (simp_all add: updateCacheResource_def Let_def)
      have p: "pending_ok ?d ?rs"
        by (rule pending_frame [OF assms(2)]) (use other U(2-4) D(1) in \<open>auto\<close>)
      have dr: "deref ?d r = x" "\<And>ra. ra \<noteq> r \<Longrightarrow> deref ?d ra = deref ?c ra" using U(3) by (simp_all add: deref_def)
      have "m_url (deref ?d r) \<notin> (\<lambda>r. m_url (deref ?d r)) ` set ?rs"
      proof
        assume "m_url (deref ?d r) \<in> (\<lambda>r. m_url (deref ?d r)) ` set ?rs"
        then obtain ra where ra: "ra \<in> set ?rs" "m_url (deref ?d r) = m_url (deref ?d ra)" by blast
        then show False using other [OF ra(1)] dr x(2) r(2) by simp
      qed
      moreover have "r \<notin> set ?rs" using other by blast
      ultimately have "pending_ok ?d (?rs @ [r])"
        unfolding pending_snoc using p dr(1) x(2) U(2-4) D(1) by simp
      then show ?thesis using res U(1) p by (auto intro!: exI [of _ ?d] exI [of _ ?rs])
    qed
  next
    case None
    then have nomap: "m_resources ?c (cache_key url) = None" by (simp add: resourceForURL_def)
    show ?thesis
    proof (cases "find_pending (\<lambda>r. equalHTTPCachedResourceURL foldCase r url ?c) 0 ?rs")
      case N: None
      then have "ro = None" "m' = m" using assms(3) None by (simp_all add: updateCacheResource_def Let_def)
      moreover have "cache_key url \<notin> (\<lambda>r. m_url (deref ?c r)) ` set ?rs"
        using N [unfolded find_pending_None] by (auto simp: equalHTTPCachedResourceURL_def)
      ultimately show ?thesis using assms(1,2) nomap by (auto intro!: exI [of _ ?c] exI [of _ ?rs])
    next
      case (Some n)
      let ?r = "?rs ! n" and ?vs = "vector_remove n ?rs"
      have n: "n < length ?rs" using find_pending_Some [OF Some] by simp
      have live: "heap ?c ?r \<noteq> None" "?r \<notin> set (m_resourceList ?c)" using assms(2) n by (auto simp: pending_ok_def)
      note P = pending_remove [OF assms(2) n]
      show ?thesis
      proof (cases noStore)
        case True
        then have "ro = None" "m' = m\<lparr>m_writeCacheList := ?vs\<rparr>"
          using assms(3) None Some by (simp_all add: updateCacheResource_def Let_def)
        then show ?thesis using assms(1) P True by (auto simp: pending_snoc intro!: exI [of _ ?c] exI [of _ ?vs])
      next
        case False
        obtain x where x: "updateCachedResource now ?r data resp nc mr ex ma ?c = store ?r x ?c" "m_url x = m_url (deref ?c ?r)"
          using updated_entry by metis
        let ?d = "store ?r x ?c"
        have res: "ro = Some ?r" "m' = m\<lparr>m_writeCacheList := ?vs, m_httpCache := ?d\<rparr>"
          using assms(3) None Some False x(1) by (simp_all add: updateCacheResource_def Let_def)
        have u: "m_url (deref ?d ra) = m_url (deref ?c ra)" for ra using x(2) by simp
        have "pending_ok ?d (?vs @ [?r])"
          using P unfolding pending_ok_def u store_simps(1,2,6) by blast
        then show ?thesis
          using res inv_store_other(1) [OF assms(1) live] by (auto simp: pending_snoc intro!: exI [of _ ?d] exI [of _ ?vs])
      qed
    qed
  qed
qed

lemma create_pending:
  assumes "cache_inv c" "pending_ok c rs" "m_resources c (cache_key url) = None"
    and "cache_key url \<notin> (\<lambda>r. m_url (deref c r)) ` set rs"
    and "createHTTPCachedResource fp raw now url data resp nc mr ex ma c = (ro, c')"
  shows "cache_inv c' \<and> pending_ok c' rs \<and> (\<forall>r. ro = Some r \<longrightarrow> pending_ok c' (rs @ [r]))"
proof -
  obtain d where d: "cache_inv d" "trims c d" "ro = None \<and> c' = d \<or>
     (\<exists>x r. ro = Some r \<and> m_url x = cache_key url \<and> new_resource x d = (r, c'))"
    using create_steps [OF assms(1,5)] by blast
  note pd = pending_trims [OF assms(2) d(2)]
  consider "ro = None" "c' = d" | x r where "ro = Some r" "m_url x = cache_key url" "new_resource x d = (r, c')"
    using d(3) by blast
  then show ?thesis
  proof cases
    case 1
    then show ?thesis using d(1) pd by simp
  next
    case (2 x r)
    note N = inv_new_resource [OF d(1) 2(3)]
    have fresh: "heap d r = None" "r \<notin> set (m_resourceList d)" using fresh_next [OF d(1)] N(3) by simp_all
    then have nr: "r \<notin> set rs" using pd by (auto simp: pending_ok_def)
    have p: "pending_ok c' rs"
      by (rule pending_frame [OF pd]) (use N(5-7) nr in auto)
    have "deref c' ra = deref c ra" if "ra \<in> set rs" for ra
      using that nr N(5) d(2) assms(2) by (auto simp: deref_def trims_def pending_ok_def)
    then have "pending_ok c' (rs @ [r])"
      unfolding pending_snoc
      using p nr N(4,6,7) fresh(2) assms(3,4) d(2) 2(2) by (auto simp: deref_def trims_def)
    then show ?thesis using N(1) p 2(1) by simp
  qed
qed

lemma write_pending:
  assumes "cache_inv c" "pending_ok c (r # rs)" "cache_write fp r c = Some (ok, c')"
  shows "cache_inv (if ok then c' else delete_resource r c')" "pending_ok (if ok then c' else delete_resource r c') rs"
proof -
  have r: "heap c r \<noteq> None" "r \<notin> set (m_resourceList c)" "m_resources c (m_url (deref c r)) = None" "r \<notin> set rs"
    "m_url (deref c r) \<notin> (\<lambda>r. m_url (deref c r)) ` set rs" "pending_ok c rs"
    using assms(2) by (auto simp: pending_Cons)
  obtain d x w where d: "cache_inv d" "heap d r = heap c r" "set (m_resourceList d) \<subseteq> set (m_resourceList c)"
    "\<forall>u. m_resources c u = None \<longrightarrow> m_resources d u = None" "\<forall>ra. ra \<notin> set (m_resourceList c) \<longrightarrow> heap d ra = heap c ra"
    and x: "m_url x = m_url (deref c r)" "ok \<longrightarrow> m_resourceSize x = of_nat (record_size x)"
    and c': "c' = (if ok then link_resource r ((store r x d)\<lparr>world := w\<rparr>) else (store r x d)\<lparr>world := w\<rparr>)"
    using cache_write_steps [OF assms(1) r(1,2) assms(3)] r(3) by blast
  let ?e = "(store r x d)\<lparr>world := w\<rparr>"
  have notin: "r \<notin> set (m_resourceList d)" using d(3) r(2) by blast
  have e: "cache_inv ?e" using inv_store_other(1) [OF d(1) _ notin] d(2) r(1) by simp
  have er: "deref ?e r = x" "m_resourceList ?e = m_resourceList d" "m_resources ?e = m_resources d" "heap ?e = (heap d)(r := Some x)"
    by (simp_all add: store_def deref_def)
  have hrs: "\<forall>ra \<in> set rs. heap ?e ra = heap c ra" using r(4,6) d(5) er(4) by (auto simp: pending_ok_def)
  show "cache_inv (if ok then c' else delete_resource r c')"
  proof (cases ok)
    case True
    then have "cache_inv (link_resource r ?e)"
      using d(4) r(3) x notin er by (intro inv_link(1) [OF e]) auto
    then show ?thesis using True c' by simp
  next
    case False
    then show ?thesis using inv_delete(1) [OF e] notin er(2) c' by simp
  qed
  show "pending_ok (if ok then c' else delete_resource r c') rs"
  proof (cases ok)
    case False
    then show ?thesis unfolding c'
      using d(3,4) er(2,3) hrs r(4) by (simp, intro pending_frame [OF r(6)]) (auto simp: delete_resource_def)
  next
    case True
    have ce: "pending_ok ?e rs" by (rule pending_frame [OF r(6)]) (use d(3,4) er(2,3) hrs in auto)
    have du: "m_url (deref ?e ra) \<noteq> m_url (deref ?e r)" if "ra \<in> set rs" for ra
    proof -
      have "deref ?e ra = deref c ra" using that hrs by (simp add: deref_def)
      then show ?thesis using that r(5) er(1) x(1) by (metis image_eqI)
    qed
    show ?thesis using True ce du r(4) unfolding c'
      by (auto simp: pending_ok_def link_resource_def deref_def)
  qed
qed

section \<open>The manager as a step relation\<close>

definition rhm_inv :: "'w rhm \<Rightarrow> bool" where
  "rhm_inv m \<longleftrightarrow> cache_inv (m_httpCache m) \<and> pending_ok (m_httpCache m) (m_writeCacheList m) \<and> (\<forall>j. 0 \<le> slack m j)"

definition rhm_start :: "'w rhm \<Rightarrow> bool" where
  "rhm_start m \<longleftrightarrow> m_scheduledJobList m = [] \<and> m_runningJobList m = [] \<and> m_readCacheJobList m = []
     \<and> m_writeCacheList m = [] \<and> (\<exists>w. m_httpCache m = HTTPCache_new w) \<and> (\<forall>j. 0 \<le> refs (jobs m j))"

text \<open>
  The entry points, in any order: the requests of the loader, the timers, libcurl's messages, the
  application's answers and the settings of the cache. A client may hold and release references of its own. The
  timer that reads from the cache runs with clients that do not cancel from within their callbacks. A new directory is set whose FAT
  file has no URL twice and none that an entry has which is already loaded or waits to be written: \<open>deserializeFATData\<close> adds its
  entries to the list without looking. A call whose result is undefined is no step.
\<close>

inductive rhm_step :: "('w, 'f) file_peer \<Rightarrow> (uchar \<Rightarrow> uchar) \<Rightarrow> 'w rhm \<Rightarrow> 'w rhm \<Rightarrow> bool"
  for fp foldCase where
  Add: "rhm_step fp foldCase m (add a now j m)"
| Cancel: "rhm_step fp foldCase m (cancel j m)"
| CancelByFrame: "rhm_step fp foldCase m (cancelByFrame frame m)"
| Permit: "rhm_step fp foldCase m (permitRequest j permit m)"
| Start: "rhm_step fp foldCase m (snd (startScheduledJobs a m))"
| DropCancelled: "rhm_step fp foldCase m (cancelScheduledJobs m)"
| AbortScheduled: "rhm_step fp foldCase m (removeAllScheduledJobs m)"
| AbortRunning: "rhm_step fp foldCase m (removeAllRunningJobs m)"
| Finished: "j \<in> set (m_runningJobList m) \<Longrightarrow> rhm_step fp foldCase m (removeFromCurl resumed j m)"
| NotModified: "j \<in> set (m_runningJobList m) \<Longrightarrow>
    rhm_step fp foldCase m (removeFromCurl False j (scheduleLoadResourceFromHTTPCache j m))"
| Store: "rhm_step fp foldCase m (snd (addHTTPCache fp foldCase raw now j url data resp m))"
| Write: "writeCacheTimerCallback fp (m\<lparr>m_writeCacheTimer := False\<rparr>) = Some m' \<Longrightarrow> rhm_step fp foldCase m m'"
| Read: "readCacheTimerCallback fp rd (m\<lparr>m_readCacheTimer := False\<rparr>) = Some m' \<Longrightarrow>
    \<not> rd_cancels_in_response rd \<Longrightarrow> \<not> rd_cancels_in_data rd \<Longrightarrow> rhm_step fp foldCase m m'"
| Equiv: "processHttpEquiv content url cachecontrol m = Some m' \<Longrightarrow> rhm_step fp foldCase m m'"
| Clear: "clearHTTPCache fp m = Some m' \<Longrightarrow> rhm_step fp foldCase m m'"
| Reset: "rhm_step fp foldCase m (resetHTTPCache m)"
| Disabled: "rhm_step fp foldCase m (m\<lparr>m_httpCache := setDisabled b (m_httpCache m)\<rparr>)"
| MaxEntries: "rhm_step fp foldCase m (m\<lparr>m_httpCache := setMaxContentEntries limit (m_httpCache m)\<rparr>)"
| MaxContent: "rhm_step fp foldCase m (m\<lparr>m_httpCache := setMaxContentSize limit64 (m_httpCache m)\<rparr>)"
| MaxTotal: "setMaxTotalCacheSize fp limit64 (m_httpCache m) = Some c \<Longrightarrow> rhm_step fp foldCase m (m\<lparr>m_httpCache := c\<rparr>)"
| FilePath: "setFilePath fp path (m_httpCache m) = Some c \<Longrightarrow>
    distinct (map (\<lambda>r. m_url (deref c r)) (m_resourceList c @ m_writeCacheList m)) \<Longrightarrow>
    rhm_step fp foldCase m (m\<lparr>m_httpCache := c\<rparr>)"
| ClientRef: "rhm_step fp foldCase m (ref_job j m)"
| ClientRelease: "0 < slack m j \<Longrightarrow> rhm_step fp foldCase m (deref_job j m)"

named_theorems keeps_cache \<open>operations on the queues leave the cache and the pending entries alone\<close>

lemma upd_keeps_cache [keeps_cache]:
  "m_httpCache (upd_job j f m) = m_httpCache m" "m_writeCacheList (upd_job j f m) = m_writeCacheList m"
  "m_httpCache (ref_job j m) = m_httpCache m" "m_writeCacheList (ref_job j m) = m_writeCacheList m"
  "m_httpCache (deref_job j m) = m_httpCache m" "m_writeCacheList (deref_job j m) = m_writeCacheList m"
  "m_httpCache (notify j e m) = m_httpCache m" "m_writeCacheList (notify j e m) = m_writeCacheList m"
  by (simp_all add: upd_job_def ref_job_def deref_job_def notify_def)

lemma lists_keep_cache [keeps_cache]:
  "m_httpCache (cancel j m) = m_httpCache m" "m_writeCacheList (cancel j m) = m_writeCacheList m"
  "m_httpCache (canPermitRequest a j m) = m_httpCache m" "m_writeCacheList (canPermitRequest a j m) = m_writeCacheList m"
  "m_httpCache (permitRequest j permit m) = m_httpCache m" "m_writeCacheList (permitRequest j permit m) = m_writeCacheList m"
  "m_httpCache (abort_job j m) = m_httpCache m" "m_writeCacheList (abort_job j m) = m_writeCacheList m"
  "m_httpCache (drop_running j m) = m_httpCache m" "m_writeCacheList (drop_running j m) = m_writeCacheList m"
  "m_httpCache (drop_cancelled j m) = m_httpCache m" "m_writeCacheList (drop_cancelled j m) = m_writeCacheList m"
  "m_httpCache (scheduleLoadResourceFromHTTPCache j m) = m_httpCache m"
  "m_writeCacheList (scheduleLoadResourceFromHTTPCache j m) = m_writeCacheList m"
  "m_httpCache (removeFromCurl resumed j m) = m_httpCache m" "m_writeCacheList (removeFromCurl resumed j m) = m_writeCacheList m"
  by (simp_all add: cancel_def removeScheduledJob_def canPermitRequest_def permitRequest_def abort_job_def drop_running_def
      drop_cancelled_def scheduleLoadResourceFromHTTPCache_def removeFromCurl_def removeRunningJob_def Let_def keeps_cache)

lemma queue_keeps_cache [keeps_cache]:
  "m_httpCache (queue_job a j m) = m_httpCache m" "m_writeCacheList (queue_job a j m) = m_writeCacheList m"
  "m_httpCache (startJob a j m) = m_httpCache m" "m_writeCacheList (startJob a j m) = m_writeCacheList m"
  by (simp_all add: queue_job_def appendScheduledJob_def startJob_def initializeHandle_def appendRunningJob_def Let_def keeps_cache)

lemma add_keeps_cache [keeps_cache]:
  "m_httpCache (add a now j m) = m_httpCache m" "m_writeCacheList (add a now j m) = m_writeCacheList m"
  by (simp_all add: add_def Let_def keeps_cache split: option.split)

lemma loops_keep_cache [keeps_cache]:
  "m_httpCache (cancel_scheduled_from frame i m) = m_httpCache m" "m_writeCacheList (cancel_scheduled_from frame i m) = m_writeCacheList m"
  "m_httpCache (cancel_running_from frame i m) = m_httpCache m" "m_writeCacheList (cancel_running_from frame i m) = m_writeCacheList m"
  "m_httpCache (abort_scheduled js m) = m_httpCache m" "m_writeCacheList (abort_scheduled js m) = m_writeCacheList m"
  "m_httpCache (abort_running js m) = m_httpCache m" "m_writeCacheList (abort_running js m) = m_writeCacheList m"
proof -
  show "m_httpCache (cancel_scheduled_from frame i m) = m_httpCache m" "m_writeCacheList (cancel_scheduled_from frame i m) = m_writeCacheList m"
    "m_httpCache (cancel_running_from frame i m) = m_httpCache m" "m_writeCacheList (cancel_running_from frame i m) = m_writeCacheList m"
    by (induction i arbitrary: m) (simp_all add: Let_def keeps_cache)
  show "m_httpCache (abort_scheduled js m) = m_httpCache m" "m_writeCacheList (abort_scheduled js m) = m_writeCacheList m"
    "m_httpCache (abort_running js m) = m_httpCache m" "m_writeCacheList (abort_running js m) = m_writeCacheList m"
    by (induction js arbitrary: m) (simp_all add: keeps_cache)
qed

lemma shift_keeps_cache:
  "shiftScheduledJob m = (jo, m1) \<Longrightarrow> m_httpCache m1 = m_httpCache m \<and> m_writeCacheList m1 = m_writeCacheList m"
  by (auto simp: shiftScheduledJob_def split: option.splits)

lemma start_keeps_cache [keeps_cache]:
  "m_httpCache (snd (startScheduledJobs a m)) = m_httpCache m \<and> m_writeCacheList (snd (startScheduledJobs a m)) = m_writeCacheList m"
proof -
  have "m_httpCache (snd (start_loop a False m)) = m_httpCache m \<and> m_writeCacheList (snd (start_loop a False m)) = m_writeCacheList m"
    by (rule start_loop_keeps [where P = "\<lambda>m'. m_httpCache m' = m_httpCache m \<and> m_writeCacheList m' = m_writeCacheList m"])
      (auto simp: keeps_cache dest: shift_keeps_cache)
  then show ?thesis by (simp add: startScheduledJobs_def)
qed

lemma cancelScheduled_keeps_cache [keeps_cache]:
  "m_httpCache (cancelScheduledJobs m) = m_httpCache m \<and> m_writeCacheList (cancelScheduledJobs m) = m_writeCacheList m"
proof (induction m rule: cancelScheduledJobs.induct)
  case (1 m)
  show ?case by (subst (1 2) cancelScheduledJobs.simps) (auto simp: keeps_cache "1.IH" split: option.split)
qed

lemma rhm_inv_same:
  assumes "rhm_inv m" "m_httpCache m' = m_httpCache m" "m_writeCacheList m' = m_writeCacheList m" "\<And>j. slack m j \<le> slack m' j"
  shows "rhm_inv m'"
  using assms order_trans unfolding rhm_inv_def by metis

lemma rhm_inv_timer [simp]:
  "rhm_inv (m\<lparr>m_writeCacheTimer := b\<rparr>) = rhm_inv m" "rhm_inv (m\<lparr>m_readCacheTimer := b\<rparr>) = rhm_inv m"
  by (simp_all add: rhm_inv_def slack_simps)

lemma inv_addHTTPCache:
  assumes "rhm_inv m"
  shows "rhm_inv (snd (addHTTPCache fp foldCase raw now j url data resp m))"
proof (cases "data = None \<or> \<not> m_protocolIsInHTTPFamily url
    \<or> cachePolicy (jobs m j) = UseProtocolCachePolicy \<and> httpMethod (jobs m j) = ''OPTIONS''")
  case True
  then show ?thesis using assms by (auto simp: addHTTPCache_def split: option.split)
next
  case False
  then obtain sb where sb: "data = Some sb" by (cases data) auto
  let ?fl = "m_httpequivFlags (jobs m j)"
  let ?nc = "r_noCache resp \<or> has_flag ?fl EHTTPEquivNoCache"
  let ?mr = "r_mustRevalidate resp \<or> has_flag ?fl EHTTPEquivMustRevalidate"
  let ?ma = "if has_flag ?fl EHTTPEquivMaxAge then dbl_of_int (sint (m_httpequivMaxAge (jobs m j))) else quiet_NaN"
  obtain ro m1 where u: "updateCacheResource fp foldCase now url sb resp ?nc (r_noStore resp) ?mr quiet_NaN ?ma m = (ro, m1)" by fastforce
  obtain new c where cr: "createHTTPCachedResource fp raw now url sb resp ?nc ?mr quiet_NaN ?ma (m_httpCache m1) = (new, c)" by fastforce
  have i: "cache_inv (m_httpCache m)" "pending_ok (m_httpCache m) (m_writeCacheList m)" "\<forall>k. 0 \<le> slack m k"
    using assms by (simp_all add: rhm_inv_def)
  note U = updateCacheResource_inv [OF i(1,2) u]
  obtain c1 rs1 where m1: "m1 = m\<lparr>m_httpCache := c1, m_writeCacheList := rs1\<rparr>" using U by blast
  have s1: "slack m1 k = slack m k" for k by (simp add: m1 slack_simps)
  have eq: "snd (addHTTPCache fp foldCase raw now j url data resp m) =
    (if r_noStore resp then m1 else case ro of
       Some r \<Rightarrow> m1\<lparr>m_writeCacheList := m_writeCacheList m1 @ [r], m_writeCacheTimer := True\<rparr>
     | None \<Rightarrow> (case new of None \<Rightarrow> m1\<lparr>m_httpCache := c\<rparr>
         | Some r \<Rightarrow> m1\<lparr>m_httpCache := c, m_writeCacheList := m_writeCacheList m1 @ [r], m_writeCacheTimer := True\<rparr>))"
    using False unfolding addHTTPCache_def sb option.case Let_def u prod.case cr
    by (auto simp: cr split: option.split)
  show ?thesis
  proof (cases "r_noStore resp")
    case True
    then show ?thesis using U i(3) s1 by (simp add: eq rhm_inv_def)
  next
    case ns: False
    show ?thesis
    proof (cases ro)
      case (Some r)
      then show ?thesis using U i(3) s1 ns by (simp add: eq rhm_inv_def slack_simps)
    next
      case None
      then have "m1 = m" "m_resources (m_httpCache m) (cache_key url) = None"
        "cache_key url \<notin> (\<lambda>r. m_url (deref (m_httpCache m) r)) ` set (m_writeCacheList m)" using U ns by auto
      with create_pending [OF i(1,2) _ _ cr [unfolded \<open>m1 = m\<close>]] show ?thesis
        using i(3) ns None by (cases new) (simp_all add: eq rhm_inv_def slack_simps)
    qed
  qed
qed

lemma inv_writeFAT:
  assumes "writeFATFile fp c = Some (ok, c')"
  shows "\<exists>w. c' = c\<lparr>world := w\<rparr>"
proof -
  obtain fo w1 where o: "fp_open fp (fat_path fp c) ''wb'' (world c) = (fo, w1)" by fastforce
  show ?thesis using assms by (cases fo) (auto simp: writeFATFile_def o case_prod_beta)
qed

lemma pending_world [simp]: "pending_ok (c\<lparr>world := w\<rparr>) rs = pending_ok c rs"
  by (simp add: pending_ok_def)

lemma inv_writeTimer:
  assumes "rhm_inv m" "writeCacheTimerCallback fp m = Some m'"
  shows "rhm_inv m'"
proof (cases "m_writeCacheList m")
  case Nil
  then show ?thesis using assms by (simp add: writeCacheTimerCallback_def)
next
  case (Cons r rs)
  show ?thesis
  proof (cases "m_scheduledJobList m \<noteq> [] \<or> m_runningJobList m \<noteq> []")
    case True
    then show ?thesis using assms Cons by (auto simp: writeCacheTimerCallback_def)
  next
    case False
    then obtain ok c where w: "cache_write fp r (m_httpCache m) = Some (ok, c)"
      using assms(2) Cons by (auto simp: writeCacheTimerCallback_def Option.bind_eq_Some_conv)
    let ?d = "if ok then c else delete_resource r c"
    have i: "cache_inv (m_httpCache m)" "pending_ok (m_httpCache m) (r # rs)" "\<forall>k. 0 \<le> slack m k"
      using assms(1) Cons by (simp_all add: rhm_inv_def)
    note W = write_pending [OF i(1,2) w]
    obtain wd b where "m' = m\<lparr>m_writeCacheList := rs, m_httpCache := ?d\<lparr>world := wd\<rparr>, m_writeCacheTimer := b\<rparr>"
    proof (cases "rs = []")
      case True
      then obtain ok' c' where f: "writeFATFile fp ?d = Some (ok', c')" "m' = m\<lparr>m_writeCacheList := rs, m_httpCache := c'\<rparr>"
        using assms(2) Cons False w by (auto simp: writeCacheTimerCallback_def Let_def split: if_splits)
      then show ?thesis using that [of "m_writeCacheTimer m"] inv_writeFAT [OF f(1)] by auto
    next
      case ne: False
      then have "m' = m\<lparr>m_writeCacheList := rs, m_httpCache := ?d, m_writeCacheTimer := True\<rparr>"
        using assms(2) Cons False w by (simp add: writeCacheTimerCallback_def Let_def)
      then show ?thesis using that [of True "world ?d"] by simp
    qed
    then show ?thesis using W i(3) by (simp add: rhm_inv_def slack_simps)
  qed
qed

lemma slack_finish_read:
  assumes "m_readCacheJobList m = j # js"
  shows "slack (finish_read j m) k = slack m k"
  using assms by (simp add: finish_read_def next_read_def slack_simps)

lemma slack_refuse_read [slack_simps]: "slack (refuse_read j m) k = slack m k"
  by (simp add: refuse_read_def next_read_def slack_simps)

lemma read_keeps_cache [keeps_cache]:
  "m_httpCache (finish_read j m) = m_httpCache m" "m_writeCacheList (finish_read j m) = m_writeCacheList m"
  "m_httpCache (refuse_read j m) = m_httpCache m" "m_writeCacheList (refuse_read j m) = m_writeCacheList m"
  by (simp_all add: finish_read_def refuse_read_def next_read_def keeps_cache)

lemma rhm_inv_finish: "rhm_inv m \<Longrightarrow> m_readCacheJobList m = j # js \<Longrightarrow> rhm_inv (finish_read j m)"
  by (erule rhm_inv_same) (simp_all add: keeps_cache slack_finish_read)

lemma rhm_inv_refuse: "rhm_inv m \<Longrightarrow> rhm_inv (refuse_read j m)"
  by (erule rhm_inv_same) (simp_all add: keeps_cache slack_simps)

lemma rhm_inv_notify: "rhm_inv m \<Longrightarrow> rhm_inv (notify j e m)"
  by (erule rhm_inv_same) (simp_all add: keeps_cache slack_simps)

text \<open>Writing back an entry that is in the list or pending, with its URL and record size unchanged.\<close>

lemma rhm_inv_store:
  assumes "rhm_inv m" "heap (m_httpCache m) r \<noteq> None"
    and "m_url x = m_url (deref (m_httpCache m) r)" "m_resourceSize x = m_resourceSize (deref (m_httpCache m) r)"
    and "record_size x = record_size (deref (m_httpCache m) r)"
  shows "rhm_inv (m\<lparr>m_httpCache := (store r x (m_httpCache m))\<lparr>world := w\<rparr>\<rparr>)"
proof -
  let ?c = "m_httpCache m"
  have u: "m_url (deref (store r x ?c) ra) = m_url (deref ?c ra)" for ra using assms(3) by simp
  have "pending_ok (store r x ?c) (m_writeCacheList m)"
    using assms(1) unfolding rhm_inv_def pending_ok_def u store_simps(1,2,6) by blast
  then show ?thesis
    using inv_store_same(1) [OF _ assms(2-5)] assms(1) by (simp add: rhm_inv_def slack_simps)
qed

lemma inv_readTimer:
  assumes "rhm_inv m" "readCacheTimerCallback fp rd m = Some m'" "\<not> rd_cancels_in_response rd" "\<not> rd_cancels_in_data rd"
  shows "rhm_inv m'"
proof (cases "m_readCacheJobList m")
  case Nil
  then show ?thesis using assms by (simp add: readCacheTimerCallback_def)
next
  case (Cons j js)
  let ?m1 = "notify j DidReceiveResponse m"
  have m1: "rhm_inv ?m1" "m_readCacheJobList ?m1 = j # js" using rhm_inv_notify [OF assms(1)] Cons by simp_all
  let ?ro = "if rd_frameclient rd then resourceForURL (firstRequestURL (jobs m j)) (m_httpCache m) else None"
  consider "m' = finish_read j m" | "m' = refuse_read j m" | "m' = refuse_read j ?m1" | "m' = finish_read j ?m1"
    | r ok out c where "?ro = Some r" "cache_read fp r (m_httpCache m) = Some (ok, out, c)"
        "m' = finish_read j (if ok then notify j DidFinishLoading (notify j (DidReceiveData out) (?m1\<lparr>m_httpCache := c\<rparr>))
                                     else notify j DidFail (?m1\<lparr>m_httpCache := c\<rparr>))"
    using assms(2-4) Cons
    by (auto simp: readCacheTimerCallback_def Let_def keeps_cache split: option.splits if_splits)
  then show ?thesis
  proof cases
    case (5 r ok out c)
    then have "m_resources (m_httpCache m) (cache_key (firstRequestURL (jobs m j))) = Some r"
      by (simp add: resourceForURL_def split: if_splits)
    then have live: "heap (m_httpCache m) r \<noteq> None" using assms(1) cache_invD(2,4) unfolding rhm_inv_def by metis
    obtain x w where x: "c = (store r x (m_httpCache m))\<lparr>world := w\<rparr>" "x = deref (m_httpCache m) r \<or> x = (deref (m_httpCache m) r)\<lparr>m_used := True\<rparr>"
      using cache_read_steps [OF 5(2)] by blast
    have "rhm_inv (?m1\<lparr>m_httpCache := c\<rparr>)" unfolding x(1)
      using rhm_inv_store [OF m1(1), of r x w] live x(2) by (auto simp: keeps_cache record_size_def)
    then show ?thesis
      using 5(3) m1(2) by (auto intro!: rhm_inv_finish [where js = js] rhm_inv_notify)
  qed (use assms(1) Cons m1 rhm_inv_finish rhm_inv_refuse in blast)+
qed

lemma inv_processHttpEquiv:
  assumes "rhm_inv m" "processHttpEquiv content url cachecontrol m = Some m'"
  shows "rhm_inv m'"
proof -
  let ?c = "m_httpCache m"
  let ?rsp = "case resourceForURL url ?c of Some r \<Rightarrow> Some r
                  | None \<Rightarrow> find (\<lambda>r. m_url (deref ?c r) = of_latin1 (m_string url)) (m_writeCacheList m)"
  have live: "heap ?c r \<noteq> None" if "?rsp = Some r" for r
  proof (cases "resourceForURL url ?c")
    case None
    then have "r \<in> set (m_writeCacheList m)" using that by (auto simp: find_Some_iff)
    then show ?thesis using assms(1) by (simp add: rhm_inv_def pending_ok_def)
  next
    case (Some r')
    then have "m_resources ?c (cache_key url) = Some r" using that by (simp add: resourceForURL_def)
    then show ?thesis using assms(1) cache_invD(2,4) unfolding rhm_inv_def by metis
  qed
  consider f sec where "m' = equiv_job f sec url m"
    | r nc mr ex ma f where "?rsp = Some r" "m' = m\<lparr>m_httpCache := store r (update (deref ?c r) nc mr ex ma f) ?c\<rparr>"
    using assms(2) unfolding processHttpEquiv_def Let_def by (cases ?rsp) auto
  then show ?thesis
  proof cases
    case (1 f sec)
    show ?thesis unfolding 1
      by (rule rhm_inv_same [OF assms(1)]) (auto simp: equiv_job_def keeps_cache slack_simps split: option.split)
  next
    case (2 r nc mr ex ma f)
    let ?x = "update (deref ?c r) nc mr ex ma f"
    have "(store r ?x ?c)\<lparr>world := world (store r ?x ?c)\<rparr> = store r ?x ?c" by simp
    with rhm_inv_store [OF assms(1) live [OF 2(1)], of ?x "world (store r ?x ?c)"] 2(2)
    show ?thesis by (simp add: update_def Let_def record_size_def)
  qed
qed

lemma inv_foldl_delete:
  "cache_inv c \<Longrightarrow> set rs \<inter> set (m_resourceList c) = {} \<Longrightarrow>
   cache_inv (foldl (\<lambda>c r. delete_resource r c) c rs) \<and> m_resourceList (foldl (\<lambda>c r. delete_resource r c) c rs) = m_resourceList c"
proof (induction rs arbitrary: c)
  case (Cons r rs)
  have "m_resourceList (delete_resource r c) = m_resourceList c" by (simp add: delete_resource_def)
  with Cons.IH [of "delete_resource r c"] inv_delete(1) [OF Cons.prems(1)] Cons.prems(2) show ?case by simp
qed simp

lemma slack_foldl_deref:
  "slack (foldl (\<lambda>m j. deref_job j m) m js) k = slack m k - int (count_list js k)"
  by (induction js arbitrary: m) (simp_all add: slack_simps)

lemma foldl_deref_keeps: "m_httpCache (foldl (\<lambda>m j. deref_job j m) m js) = m_httpCache m"
  by (induction js arbitrary: m) (simp_all add: keeps_cache)

lemma inv_drop_pending:
  assumes "rhm_inv m"
  shows "rhm_inv (drop_pending m)" "m_writeCacheList (drop_pending m) = []"
proof -
  have i: "cache_inv (m_httpCache m)" "set (rev (m_writeCacheList m)) \<inter> set (m_resourceList (m_httpCache m)) = {}"
    using assms by (auto simp: rhm_inv_def pending_ok_def)
  show "rhm_inv (drop_pending m)"
    using assms inv_foldl_delete [OF i] by (simp add: rhm_inv_def drop_pending_def Let_def slack_simps slack_foldl_deref)
  show "m_writeCacheList (drop_pending m) = []" by (simp add: drop_pending_def Let_def)
qed

lemma inv_reset_manager: "rhm_inv m \<Longrightarrow> rhm_inv (resetHTTPCache m)"
  using inv_drop_pending [of m] inv_reset by (auto simp: resetHTTPCache_def Let_def rhm_inv_def slack_simps)

lemma purge_empty: "m_resourceList c = [] \<Longrightarrow> purgeBySize fp 0 c = (0, c)"
  by (simp add: purgeBySize_def purgeBySizeInternal_def purge_loop.simps)

text \<open>With file functions that store what they are given, the cache is empty after it was cleared.\<close>

lemma clear_cache:
  assumes fp: "storing_peer fp files writing" and inv: "rhm_inv m" and en: "\<not> m_disabled (m_httpCache m)"
  shows "\<exists>w. clearHTTPCache fp m = Some ((drop_pending m)\<lparr>m_httpCache := (removeAll fp (m_httpCache (drop_pending m)))\<lparr>world := w\<rparr>\<rparr>)"
proof -
  let ?m = "drop_pending m" let ?c = "removeAll fp (m_httpCache ?m)"
  have i: "cache_inv (m_httpCache ?m)" using inv_drop_pending(1) [OF inv] by (simp add: rhm_inv_def)
  note R = inv_removeAll [OF i, where fp = fp]
  have len: "length (serializeFATData ?c) < 2 ^ 31" "serializeFATData ?c = []" by (simp_all add: serializeFATData_def R(3))
  obtain w where w: "writeFATFile fp ?c = Some (True, ?c\<lparr>world := w\<rparr>)"
    "\<exists>buf. fat_buffer ?c = Some buf \<and> files w (fat_path fp ?c) = Some buf"
    using writeFATFile_stores [OF fp R(1) len(1)] by blast
  obtain body where b: "body = put_u32 CACHEFAT_FORMAT_VERSION @ put_u32 (m_fileNumber ?c)" "files w (fat_path fp ?c) = Some (digest body @ body)"
    using fat_buffer_exact [OF R(1) len(1)] w(2) len(2) by auto
  obtain fd w1 where o: "fp_open fp (fat_path fp ?c) ''rb'' w = (Some fd, w1)" "fp_stat fp fd w1 = Some (int (length (digest body @ body)))"
    using storing_peerD(4) [OF fp b(2)] by blast
  have "int (length (digest body @ body)) = 24" by (simp add: b(1) length_digest)
  then have "readFATFile fp (?c\<lparr>world := w\<rparr>) = Some (False, ?c\<lparr>world := fp_close fp fd w1\<rparr>)"
    using o by (simp add: readFATFile_def)
  then show ?thesis
    using en w(1) purge_empty [OF R(3), of fp] by (intro exI [of _ "fp_close fp fd w1"]) (simp add: clearHTTPCache_def Let_def)
qed

lemma inv_clear:
  assumes "storing_peer fp files writing" "rhm_inv m" "clearHTTPCache fp m = Some m'"
  shows "rhm_inv m'"
proof (cases "m_disabled (m_httpCache m)")
  case True
  then show ?thesis using assms by (simp add: clearHTTPCache_def)
next
  case False
  have d: "rhm_inv (drop_pending m)" "m_writeCacheList (drop_pending m) = []" using inv_drop_pending [OF assms(2)] by simp_all
  then have "cache_inv (removeAll fp (m_httpCache (drop_pending m)))" using inv_removeAll(1) [where fp = fp] by (simp add: rhm_inv_def)
  then show ?thesis using clear_cache [OF assms(1,2) False] assms(3) d by (auto simp: rhm_inv_def slack_simps)
qed

section \<open>The settings\<close>

lemma deserialize_size: "deserialize b = Some (x, rest) \<Longrightarrow> m_resourceSize x = of_nat (record_size x)"
  by (auto simp: deserialize_def Option.bind_eq_Some_conv calcResourceSize_def record_size_def)

lemma deref_settings [simp]:
  "deref (c\<lparr>m_filePath := path\<rparr>) = deref c" "deref (c\<lparr>m_disabled := b\<rparr>) = deref c" "deref (c\<lparr>m_fileNumber := n\<rparr>) = deref c"
  "deref (c\<lparr>m_limitContentEntries := e\<rparr>) = deref c" "deref (c\<lparr>m_limitContentSize := l\<rparr>) = deref c"
  "deref (c\<lparr>m_limitTotalContentsSize := l\<rparr>) = deref c"
  by (simp_all add: deref_def fun_eq_iff)

text \<open>Loading only adds entries.\<close>

definition fresh_from :: "'w http_cache \<Rightarrow> bool" where
  "fresh_from c \<longleftrightarrow> (\<forall>r. heap c r \<noteq> None \<longrightarrow> r < next_rid c)"

definition extends :: "'w http_cache \<Rightarrow> 'w http_cache \<Rightarrow> bool" where
  "extends c d \<longleftrightarrow> fresh_from d \<and> (\<exists>rs. m_resourceList d = m_resourceList c @ rs \<and> (\<forall>r \<in> set rs. heap c r = None))
     \<and> (\<forall>r. heap c r \<noteq> None \<longrightarrow> heap d r = heap c r)"

lemma fresh_inv: "cache_inv c \<Longrightarrow> fresh_from c"
  by (simp add: cache_inv_def fresh_from_def)

lemma extends_load: "fresh_from c \<Longrightarrow> extends c (load_entry c x)"
proof -
  assume f: "fresh_from c"
  have n: "heap c (next_rid c) = None" using f unfolding fresh_from_def by (metis less_irrefl)
  show ?thesis
  proof (cases "m_disabled c")
    case True
    then show ?thesis using f n
      by (auto simp: extends_def fresh_from_def load_entry_def new_resource_def addCachedResource_def less_Suc_eq)
  next
    case False
    then show ?thesis using f n
      by (auto simp: extends_def fresh_from_def load_entry_def new_resource_def addCachedResource_def less_Suc_eq)
  qed
qed

lemma extends_trans:
  assumes "extends c d" "extends d e"
  shows "extends c e"
proof -
  obtain rs where rs: "m_resourceList d = m_resourceList c @ rs" "\<forall>r \<in> set rs. heap c r = None" using assms(1) by (auto simp: extends_def)
  obtain ss where ss: "m_resourceList e = m_resourceList d @ ss" "\<forall>r \<in> set ss. heap d r = None" using assms(2) by (auto simp: extends_def)
  have k: "heap c r \<noteq> None \<Longrightarrow> heap d r = heap c r" "heap d r \<noteq> None \<Longrightarrow> heap e r = heap d r" for r
    using assms unfolding extends_def by blast+
  have "heap c r = None" if "r \<in> set ss" for r using ss(2) k(1) [of r] that by (cases "heap c r = None") auto
  then have "\<forall>r \<in> set (rs @ ss). heap c r = None" using rs(2) by auto
  moreover have "heap e r = heap c r" if "heap c r \<noteq> None" for r using k(1) [OF that] k(2) [of r] that by metis
  ultimately show ?thesis using assms(2) rs(1) ss(1) unfolding extends_def by (metis append.assoc)
qed

lemma deserialize_induct:
  assumes "deserializeFATData c b = Some d" and "\<And>c. R c c"
    and "\<And>c x d. m_resourceSize x = of_nat (record_size x) \<Longrightarrow> R (load_entry c x) d \<Longrightarrow> R c d"
  shows "R c d"
  using assms(1)
proof (induction "length b" arbitrary: c b rule: less_induct)
  case less
  show ?case
  proof (cases "b = []")
    case True
    then show ?thesis using less.prems assms(2) by (simp add: deserializeFATData.simps)
  next
    case False
    with less.prems obtain x rest where x: "deserialize b = Some (x, rest)" "deserializeFATData (load_entry c x) rest = Some d"
      by (auto simp: deserializeFATData.simps [of c b] load_entry_def case_prod_beta split: option.splits)
    from less.hyps [OF deserialize_shorter [OF x(1)] x(2)] show ?thesis by (rule assms(3) [OF deserialize_size [OF x(1)]])
  qed
qed

abbreviation urls_differ :: "'w http_cache \<Rightarrow> bool" where
  "urls_differ c \<equiv> distinct (map (\<lambda>r. m_url (deref c r)) (m_resourceList c))"

lemma inv_load:
  assumes "cache_inv c" "m_resourceSize x = of_nat (record_size x)" "extends (load_entry c x) d" "urls_differ d"
  shows "cache_inv (load_entry c x)"
proof (cases "m_disabled c")
  case True
  obtain r c1 where n: "new_resource x c = (r, c1)" by fastforce
  then have "m_disabled c1" using True by (auto simp: new_resource_def)
  then show ?thesis using inv_new_resource(1) [OF assms(1) n] n by (simp add: load_entry_def addCachedResource_def)
next
  case dis: False
  have e: "extends c (load_entry c x)" by (rule extends_load [OF fresh_inv [OF assms(1)]])
  have "m_resources c (m_url x) = None"
  proof (rule ccontr)
    assume "m_resources c (m_url x) \<noteq> None"
    then obtain r where r: "m_resources c (m_url x) = Some r" by blast
    note R = cache_invD(4,5) [OF assms(1) r] cache_invD(2) [OF assms(1) cache_invD(4) [OF assms(1) r]]
    let ?n = "next_rid c"
    have l: "m_resourceList (load_entry c x) = m_resourceList c @ [?n]" "heap (load_entry c x) ?n = Some x"
      using dis by (simp_all add: load_entry_def new_resource_def addCachedResource_def)
    have ne: "r \<noteq> ?n" using R(3) fresh_next(1) [OF assms(1)] by auto
    have in_d: "r \<in> set (m_resourceList d)" "?n \<in> set (m_resourceList d)" using assms(3) l(1) R(1) by (auto simp: extends_def)
    have "heap d r = heap c r" using e assms(3) R(3) unfolding extends_def by metis
    moreover have "heap d ?n = Some x" using assms(3) l(2) unfolding extends_def by (metis option.distinct(1))
    ultimately have "m_url (deref d r) = m_url (deref d ?n)" using R(2) by (simp add: deref_def)
    then show False using assms(4) in_d ne by (auto simp: distinct_map inj_on_def)
  qed
  then show ?thesis using load_entry_inv(1) [OF assms(1) dis] assms(2) by blast
qed

lemma deserialize_keeps:
  assumes "deserializeFATData c b = Some d"
  shows "(fresh_from c \<longrightarrow> extends c d) \<and> (cache_inv c \<longrightarrow> urls_differ d \<longrightarrow> cache_inv d)"
proof (rule deserialize_induct [OF assms, where R = "\<lambda>c d. (fresh_from c \<longrightarrow> extends c d) \<and> (cache_inv c \<longrightarrow> urls_differ d \<longrightarrow> cache_inv d)"])
  fix c :: "'w http_cache"
  show "(fresh_from c \<longrightarrow> extends c c) \<and> (cache_inv c \<longrightarrow> urls_differ c \<longrightarrow> cache_inv c)" by (simp add: extends_def)
next
  fix c d :: "'w http_cache" and x
  let ?l = "load_entry c x"
  assume x: "m_resourceSize x = of_nat (record_size x)"
    and IH: "(fresh_from ?l \<longrightarrow> extends ?l d) \<and> (cache_inv ?l \<longrightarrow> urls_differ d \<longrightarrow> cache_inv d)"
  have e: "extends c ?l" "extends ?l d" if "fresh_from c"
    using extends_load [OF that] IH by (simp_all add: extends_def)
  show "(fresh_from c \<longrightarrow> extends c d) \<and> (cache_inv c \<longrightarrow> urls_differ d \<longrightarrow> cache_inv d)"
    using extends_trans [OF e] inv_load [OF _ x e(2)] fresh_inv IH by blast
qed

lemmas extends_deserialize = deserialize_keeps [THEN conjunct1, rule_format]
lemmas inv_deserialize = deserialize_keeps [THEN conjunct2, rule_format]

text \<open>What reading a FAT file can leave.\<close>

lemma readFAT_cases:
  assumes "readFATFile fp c = Some (ok, c')"
  shows "\<exists>w. c' = c\<lparr>world := w\<rparr> \<or> c' = removeAll fp (c\<lparr>world := w\<rparr>)
    \<or> (\<exists>n b. deserializeFATData (c\<lparr>world := w, m_fileNumber := n\<rparr>) b = Some c')"
  using assms unfolding readFATFile_def Let_def
  by (auto split: option.splits prod.splits if_splits)

lemma inv_readFAT:
  assumes "readFATFile fp c = Some (ok, c')" "cache_inv c" "pending_ok c rs"
    and "distinct (map (\<lambda>r. m_url (deref c' r)) (m_resourceList c' @ rs))"
  shows "cache_inv c' \<and> pending_ok c' rs"
proof -
  obtain w where w: "c' = c\<lparr>world := w\<rparr> \<or> c' = removeAll fp (c\<lparr>world := w\<rparr>)
    \<or> (\<exists>n b. deserializeFATData (c\<lparr>world := w, m_fileNumber := n\<rparr>) b = Some c')"
    using readFAT_cases [OF assms(1)] by blast
  have cw: "cache_inv (c\<lparr>world := w\<rparr>)" using assms(2) by (simp add: cache_inv_def)
  note R = inv_removeAll [OF cw, where fp = fp]
  have rem: "pending_ok (removeAll fp (c\<lparr>world := w\<rparr>)) rs"
    by (rule pending_frame [OF assms(3)]) (use assms(3) R in \<open>auto simp: pending_ok_def\<close>)
  consider "c' = c\<lparr>world := w\<rparr>" | "c' = removeAll fp (c\<lparr>world := w\<rparr>)"
    | n b where "deserializeFATData (c\<lparr>world := w, m_fileNumber := n\<rparr>) b = Some c'" using w by blast
  then show ?thesis
  proof cases
    case 1
    then show ?thesis using assms(3) cw by simp
  next
    case 2
    then show ?thesis using rem R(1) by simp
  next
    case 3
    let ?d = "c\<lparr>world := w, m_fileNumber := n\<rparr>"
    have d: "cache_inv ?d" using assms(2) by (simp add: cache_inv_def)
    have inv: "cache_inv c'" using inv_deserialize [OF 3 d] assms(4) by simp
    have e: "extends ?d c'" using extends_deserialize [OF 3 fresh_inv [OF d]] .
    then obtain ls where ls: "m_resourceList c' = m_resourceList c @ ls" "\<forall>r \<in> set ls. heap c r = None"
      by (auto simp: extends_def)
    have keep: "heap c' r = heap c r" if "heap c r \<noteq> None" for r using e that by (simp add: extends_def)
    have live: "heap c r \<noteq> None \<and> r \<notin> set (m_resourceList c)" if "r \<in> set rs" for r using assms(3) that by (simp add: pending_ok_def)
    have "m_resources c' (m_url (deref c' r)) = None" if r: "r \<in> set rs" for r
    proof (rule ccontr)
      assume "m_resources c' (m_url (deref c' r)) \<noteq> None"
      then obtain q where q: "m_resources c' (m_url (deref c' r)) = Some q" by blast
      from cache_invD(4,5) [OF inv q] r assms(4) show False unfolding map_append distinct_append set_map by (metis IntI empty_iff image_eqI)
    qed
    moreover have "heap c' r \<noteq> None \<and> r \<notin> set (m_resourceList c')" if "r \<in> set rs" for r
      using live [OF that] keep ls by auto
    ultimately have "pending_ok c' rs" using assms(3,4) unfolding pending_ok_def by simp
    with inv show ?thesis by blast
  qed
qed

lemma inv_setFilePath:
  assumes "setFilePath fp path c = Some c'" "cache_inv c" "pending_ok c rs"
    and "distinct (map (\<lambda>r. m_url (deref c' r)) (m_resourceList c' @ rs))"
  shows "cache_inv c' \<and> pending_ok c' rs"
proof (cases "c' = c")
  case True
  then show ?thesis using assms by simp
next
  case False
  then obtain w ok where r: "readFATFile fp (c\<lparr>m_filePath := from_utf8 path, world := w\<rparr>) = Some (ok, c')"
    using assms(1) by (auto simp: setFilePath_def Let_def split: if_splits)
  have "cache_inv (c\<lparr>m_filePath := from_utf8 path, world := w\<rparr>)" "pending_ok (c\<lparr>m_filePath := from_utf8 path, world := w\<rparr>) rs"
    using assms(2,3) by (simp_all add: cache_inv_def pending_ok_def)
  from inv_readFAT [OF r this assms(4)] show ?thesis .
qed

lemma inv_setMaxTotal:
  assumes "setMaxTotalCacheSize fp limit c = Some c'" "cache_inv c" "pending_ok c rs"
  shows "cache_inv c' \<and> pending_ok c' rs"
proof -
  let ?l = "if sint limit \<le> 0 then 0x7fffffffffffffff else limit"
  let ?c = "c\<lparr>m_limitTotalContentsSize := ?l\<rparr>"
  have c: "cache_inv ?c" "pending_ok ?c rs" using assms(2,3) by (simp_all add: cache_inv_def pending_ok_def)
  obtain p d where d: "purgeBySize fp (m_totalContentsSize c - ?l) ?c = (p, d)" by fastforce
  note D = made_roomD [OF purgeBySize_made_room [OF c(1) d]]
  have pd: "pending_ok d rs" using pending_trims [OF c(2) D(3)] .
  consider "c' = ?c" | ok where "writeFATFile fp d = Some (ok, c')"
    using assms(1) d by (auto simp: setMaxTotalCacheSize_def Let_def split: if_splits)
  then show ?thesis
  proof cases
    case 1
    then show ?thesis using c by simp
  next
    case 2
    then obtain w where "c' = d\<lparr>world := w\<rparr>" using inv_writeFAT by blast
    then show ?thesis using D(1) pd by simp
  qed
qed

lemma rhm_inv_cache:
  assumes "rhm_inv m" "cache_inv c \<and> pending_ok c (m_writeCacheList m)"
  shows "rhm_inv (m\<lparr>m_httpCache := c\<rparr>)"
  using assms by (simp add: rhm_inv_def slack_simps)

lemma inv_limits:
  assumes "cache_inv c" "pending_ok c rs"
  shows "cache_inv (setDisabled b c) \<and> pending_ok (setDisabled b c) rs"
    "cache_inv (setMaxContentEntries n c) \<and> pending_ok (setMaxContentEntries n c) rs"
    "cache_inv (setMaxContentSize l c) \<and> pending_ok (setMaxContentSize l c) rs"
  using assms by (simp_all add: setDisabled_def setMaxContentEntries_def setMaxContentSize_def cache_inv_def pending_ok_def)

lemma rhm_inv_start: "rhm_start m \<Longrightarrow> rhm_inv m"
  using cache_inv_new(1) by (auto simp: rhm_start_def rhm_inv_def slack_def listed_def)

lemma rhm_inv_step:
  assumes "storing_peer fp files writing" "rhm_step fp foldCase m m'" "rhm_inv m"
  shows "rhm_inv m'"
  using assms(2,3)
proof cases
  case (Start a)
  show ?thesis unfolding Start
    by (rule rhm_inv_same [OF assms(3)]) (simp_all add: keeps_cache slack_startScheduled)
next
  case (NotModified j)
  then have "j \<in> set (m_runningJobList (scheduleLoadResourceFromHTTPCache j m))"
    by (simp add: scheduleLoadResourceFromHTTPCache_def ref_job_def)
  then show ?thesis unfolding NotModified(1)
    by (intro rhm_inv_same [OF assms(3)]) (simp_all add: keeps_cache slack_simps)
next
  case Store
  then show ?thesis using inv_addHTTPCache [OF assms(3)] by simp
next
  case Write
  then show ?thesis using inv_writeTimer assms(3) by (metis rhm_inv_timer(1))
next
  case Read
  then show ?thesis using inv_readTimer assms(3) by (metis rhm_inv_timer(2))
next
  case Equiv
  then show ?thesis using inv_processHttpEquiv [OF assms(3)] by simp
next
  case Clear
  then show ?thesis using inv_clear [OF assms(1,3)] by simp
next
  case Reset
  then show ?thesis using inv_reset_manager [OF assms(3)] by simp
next
  case Disabled
  then show ?thesis using rhm_inv_cache [OF assms(3) inv_limits(1)] assms(3) by (simp add: rhm_inv_def)
next
  case MaxEntries
  then show ?thesis using rhm_inv_cache [OF assms(3) inv_limits(2)] assms(3) by (simp add: rhm_inv_def)
next
  case MaxContent
  then show ?thesis using rhm_inv_cache [OF assms(3) inv_limits(3)] assms(3) by (simp add: rhm_inv_def)
next
  case (MaxTotal limit c)
  then show ?thesis using rhm_inv_cache [OF assms(3) inv_setMaxTotal [OF MaxTotal(2)]] assms(3) by (simp add: rhm_inv_def)
next
  case (FilePath path c)
  then show ?thesis using rhm_inv_cache [OF assms(3) inv_setFilePath [OF FilePath(2) _ _ FilePath(3)]] assms(3) by (simp add: rhm_inv_def)
next
  case (ClientRelease j)
  then show ?thesis using assms(3) by (auto simp: rhm_inv_def keeps_cache slack_simps)
qed (simp_all, (rule rhm_inv_same [OF assms(3)], simp_all add: keeps_cache slack_simps cancelByFrame_def
      removeAllScheduledJobs_def removeAllRunningJobs_def Let_def slack_abort_scheduled slack_abort_running)+)

interpretation manager: invariant_system rhm_start "rhm_step fp foldCase" "\<lambda>m. storing_peer fp files writing \<longrightarrow> rhm_inv m"
  by unfold_locales (use rhm_inv_start rhm_inv_step in blast)+

section \<open>Properties\<close>

text \<open>
  C1: whatever the order of requests, timer calls, messages and changes of the cache's settings, from an empty manager: every
  job in one of the lists is alive; what the cache finds for a URL is an entry that was not deleted and that has this URL; the
  entries that wait to be written are alive, each once, and not in the cache. The file functions store what they are given,
  clients do not cancel a cached load from within its callbacks, and a directory that is set has a FAT file in which no URL
  occurs twice or belongs to an entry that is already there.
\<close>

theorem manager_stays_consistent:
  assumes "storing_peer fp files writing" "rhm_start m0" "(rhm_step fp foldCase)\<^sup>*\<^sup>* m0 m"
  shows "cache_inv (m_httpCache m)
    \<and> (\<forall>j \<in> set (m_scheduledJobList m @ m_runningJobList m @ m_readCacheJobList m). 0 < refs (jobs m j))
    \<and> (\<forall>url r. resourceForURL url (m_httpCache m) = Some r \<longrightarrow>
         heap (m_httpCache m) r \<noteq> None \<and> m_url (deref (m_httpCache m) r) = cache_key url)
    \<and> pending_ok (m_httpCache m) (m_writeCacheList m)"
proof -
  have inv: "rhm_inv m" using manager.inv_reachable [OF assms(2,3)] assms(1) by blast
  have "0 < refs (jobs m j)" if "j \<in> set (m_scheduledJobList m @ m_runningJobList m @ m_readCacheJobList m)" for j
  proof -
    have "count_list (m_scheduledJobList m) j + count_list (m_runningJobList m) j + count_list (m_readCacheJobList m) j \<noteq> 0"
      using that by (auto simp: count_list_0_iff)
    then have "0 < listed m j" unfolding listed_def by linarith
    moreover have "0 \<le> slack m j" using inv by (simp add: rhm_inv_def)
    ultimately show ?thesis by (simp add: slack_def)
  qed
  moreover have "heap (m_httpCache m) r \<noteq> None \<and> m_url (deref (m_httpCache m) r) = cache_key url"
    if "resourceForURL url (m_httpCache m) = Some r" for url r
    using that inv cache_invD(2,4,5) unfolding rhm_inv_def resourceForURL_def by metis
  ultimately show ?thesis using inv unfolding rhm_inv_def by blast
qed

theorem manager_stays_consistent_witness:
  "let m0 = rhm_new (HTTPCache_new ((\<lambda>_. None, None) :: mem_world)) (\<lambda>_. sample_job); m = add sample_app 0 7 m0
   in m_scheduledJobList m = [7] \<and> 0 < refs (jobs m 7)"
proof -
  let ?start = "rhm_new (HTTPCache_new (\<lambda>_. None, None)) (\<lambda>_. sample_job) :: mem_world rhm"
  let ?m = "add sample_app 0 7 ?start"
  have s: "rhm_start ?start" by (auto simp: rhm_start_def rhm_new_def sample_job_def)
  have "(rhm_step mem_peer id)\<^sup>*\<^sup>* ?start ?m" by (rule r_into_rtranclp) (rule rhm_step.Add)
  note P = manager_stays_consistent [OF mem_peer_stores s this]
  have "resourceForURL u (m_httpCache ?start) = None" for u
    by (simp add: rhm_new_def HTTPCache_new_def resourceForURL_def)
  then have l: "m_scheduledJobList ?m = [7]"
    by (simp add: add_def queue_job_def appendScheduledJob_def canPermitRequest_def ref_job_def Let_def)
      (simp add: rhm_new_def)
  with P show ?thesis by (simp add: Let_def)
qed

text \<open>
  Unless the cache is disabled, \<open>clearHTTPCache\<close> returns and leaves nothing: no entry in the cache, none waiting to
  be written, no job waiting to read, both totals zero.
\<close>

theorem clear_leaves_nothing:
  assumes "storing_peer fp files writing" "rhm_inv m" "\<not> m_disabled (m_httpCache m)"
  shows "\<exists>m'. clearHTTPCache fp m = Some m' \<and> m_resourceList (m_httpCache m') = []
    \<and> m_resources (m_httpCache m') = (\<lambda>_. None) \<and> m_totalContentsSize (m_httpCache m') = 0
    \<and> m_totalResourceSize (m_httpCache m') = 0 \<and> m_writeCacheList m' = [] \<and> m_readCacheJobList m' = []
    \<and> (\<forall>j. slack m' j = slack m j)"
proof -
  have "m_readCacheJobList (foldl (\<lambda>m j. deref_job j m) m' js) = m_readCacheJobList m'" for m' :: "'a rhm" and js
    by (induction js arbitrary: m') (simp_all add: deref_job_def)
  then have d: "m_readCacheJobList (drop_pending m) = []" by (simp add: drop_pending_def Let_def)
  have "cache_inv (m_httpCache (drop_pending m))" using inv_drop_pending(1) [OF assms(2)] by (simp add: rhm_inv_def)
  note R = inv_removeAll [OF this, where fp = fp]
  have "slack (drop_pending m) j = slack m j" for j
    by (simp add: drop_pending_def Let_def slack_simps slack_foldl_deref)
  then show ?thesis
    using clear_cache [OF assms] R inv_drop_pending(2) [OF assms(2)] d by (auto simp: slack_simps)
qed

theorem clear_leaves_nothing_witness:
  "\<exists>m'. clearHTTPCache mem_peer (rhm_new (one_entry (\<lambda>_. None, None) HTTPCachedResource_default) (\<lambda>_. sample_job)) = Some m'
     \<and> m_resourceList (m_httpCache m') = []"
proof -
  let ?m = "rhm_new (one_entry (\<lambda>_. None, None) HTTPCachedResource_default) (\<lambda>_. sample_job) :: mem_world rhm"
  have "rhm_inv ?m" "\<not> m_disabled (m_httpCache ?m)"
    by (simp_all add: rhm_inv_def rhm_new_def one_entry slack_def listed_def sample_job_def)
      (simp add: one_entry_def load_entry_def new_resource_def addCachedResource_def HTTPCache_new_def)
  from clear_leaves_nothing [OF mem_peer_stores this] show ?thesis by blast
qed

text \<open>
  C36: Replacing a cached entry puts the total of the body sizes out of step: the entry gets its new size before
  \<open>detach\<close> subtracts it, so the total is the sum over the list only if the new body is exactly as long as the old
  one.
\<close>

theorem replacing_breaks_total:
  assumes "cache_inv (m_httpCache m)" "contents_inv (m_httpCache m)" "resourceForURL url (m_httpCache m) = Some r"
    and "updateCacheResource fp foldCase now url data resp nc False mr ex ma m = (ro, m')"
  shows "contents_inv (m_httpCache m') \<longleftrightarrow> m_contentLength (deref (m_httpCache m) r) = word_of_int (m_size data)"
proof -
  let ?c = "m_httpCache m"
  have r: "r \<in> set (m_resourceList ?c)" using cache_invD(4) [OF assms(1)] assms(3) by (simp add: resourceForURL_def)
  obtain x where x: "updateCachedResource now r data resp nc mr ex ma ?c = store r x ?c" "m_url x = m_url (deref ?c r)"
    "m_resourceSize x = m_resourceSize (deref ?c r)" "m_contentLength x = word_of_int (m_size data)" using updated_entry by metis
  let ?d = "detach fp r (store r x ?c)"
  note U = inv_update_detach [OF assms(1) r x(2,3), where fp = fp]
  have m': "m_httpCache m' = ?d" using assms(3,4) x(1) by (auto simp: updateCacheResource_def Let_def)
  have eq: "map (\<lambda>r. m_contentLength (deref ?d r)) (remove1 r (m_resourceList ?c))
      = map (\<lambda>r. m_contentLength (deref ?c r)) (remove1 r (m_resourceList ?c))"
    using cache_invD(1) [OF assms(1)] U(3) by (intro map_cong) (auto simp: deref_def)
  show ?thesis
    using assms(2) r unfolding m' contents_inv_def U(2,5) eq sum_remove1 [OF r] x(4) by (simp add: algebra_simps)
qed

definition sample_response :: response where
  "sample_response =
     \<lparr>r_mimeType = [], r_expectedContentLength = 0, r_textEncodingName = [], r_suggestedFilename = [],
      r_httpStatusCode = 200, r_expires = 0, r_date = 0, r_lastModified = 0, r_lastModifiedHeader = [],
      r_eTagHeader = [], r_noCache = False, r_noStore = False, r_mustRevalidate = False, r_maxAge = 0\<rparr>"

theorem replacing_breaks_total_witness:
  "\<not> contents_inv (m_httpCache (snd (updateCacheResource mem_peer id 0 (invalidate []) (adoptVector [1, 2, 3])
      sample_response False False False 0 0
      (rhm_new (one_entry (\<lambda>_. None, None) (HTTPCachedResource_default\<lparr>m_contentLength := 5\<rparr>)) (\<lambda>_. sample_job)))))"
proof -
  let ?x = "HTTPCachedResource_default\<lparr>m_contentLength := 5\<rparr>"
  let ?m = "rhm_new (one_entry (\<lambda>_. None, None) ?x) (\<lambda>_. sample_job) :: mem_world rhm"
  have m: "m_httpCache ?m = one_entry (\<lambda>_. None, None) ?x" by (simp add: rhm_new_def)
  have "cache_key (invalidate []) = []"
    by (simp add: cache_key_def removeFragmentIdentifierIfNeeded_def KURL_hasFragmentIdentifier_def invalidate_def of_latin1_def)
  moreover have "m_url ?x = []" by (simp add: HTTPCachedResource_default_def)
  ultimately have f: "resourceForURL (invalidate []) (m_httpCache ?m) = Some 0"
    by (simp add: m resourceForURL_def one_entry(5))
  have "m_contentLength (deref (m_httpCache ?m) 0) \<noteq> word_of_int (m_size (adoptVector [1, 2, 3]))"
    by (simp add: m one_entry persistent_def calcResourceSize_def adoptVector_def)
  then show ?thesis
    using replacing_breaks_total [of ?m "invalidate []" 0] f one_entry(1,2) [of "(\<lambda>_. None, None)" ?x]
    unfolding m by (metis prod.collapse)
qed

text \<open>
  C37: The search among the entries that wait to be written ignores case, the cache does not: a response for one URL replaces
  the body of a waiting entry whose URL differs only in case, and that entry is later found, with the wrong body, under its own
  URL.
\<close>

theorem case_variant_poisons_entry:
  assumes "resourceForURL url (m_httpCache m) = None" "m_writeCacheList m = [r]"
    and "map foldCase (m_url (deref (m_httpCache m) r)) = map foldCase (cache_key url)"
    and "m_url (deref (m_httpCache m) r) \<noteq> cache_key url"
    and "m_protocolIsInHTTPFamily url" "httpMethod (jobs m j) = ''GET''" "\<not> r_noStore resp"
    and "addHTTPCache fp foldCase raw now j url (Some data) resp m = (ok, m')"
  shows "ok \<and> m_writeCacheList m' = [r]
    \<and> m_url (deref (m_httpCache m') r) = m_url (deref (m_httpCache m) r)
    \<and> m_url (deref (m_httpCache m') r) \<noteq> cache_key url
    \<and> m_resourceData (deref (m_httpCache m') r) = Some data"
proof -
  let ?fl = "m_httpequivFlags (jobs m j)"
  let ?nc = "r_noCache resp \<or> has_flag ?fl EHTTPEquivNoCache"
  let ?mr = "r_mustRevalidate resp \<or> has_flag ?fl EHTTPEquivMustRevalidate"
  let ?ma = "if has_flag ?fl EHTTPEquivMaxAge then dbl_of_int (sint (m_httpequivMaxAge (jobs m j))) else quiet_NaN"
  obtain x where x: "updateCachedResource now r data resp ?nc ?mr quiet_NaN ?ma (m_httpCache m) = store r x (m_httpCache m)"
    "m_url x = m_url (deref (m_httpCache m) r)" "m_resourceData x = Some data"
    using updated_entry by metis
  have u: "updateCacheResource fp foldCase now url data resp ?nc False ?mr quiet_NaN ?ma m
      = (Some r, m\<lparr>m_writeCacheList := [], m_httpCache := store r x (m_httpCache m)\<rparr>)"
    using assms(1-3) x(1) by (simp add: updateCacheResource_def Let_def equalHTTPCachedResourceURL_def vector_remove_def)
  have "addHTTPCache fp foldCase raw now j url (Some data) resp m
      = (True, m\<lparr>m_writeCacheList := [r], m_httpCache := store r x (m_httpCache m), m_writeCacheTimer := True\<rparr>)"
    using assms(5-7) unfolding addHTTPCache_def option.case Let_def by (simp only: u) simp
  with assms(4,8) x(2,3) show ?thesis by auto
qed

theorem case_variant_poisons_entry_witness:
  "let lower = (\<lambda>c :: uchar. if 65 \<le> c \<and> c \<le> 90 then c + 32 else c);
       c = snd (new_resource (HTTPCachedResource_default\<lparr>m_url := of_latin1 ''http://h/A''\<rparr>) (HTTPCache_new ((\<lambda>_. None, None) :: mem_world)));
       m = (rhm_new c (\<lambda>_. sample_job))\<lparr>m_writeCacheList := [0]\<rparr>;
       url = (invalidate ''http://h/a'')\<lparr>m_protocolIsInHTTPFamily := True\<rparr>;
       m' = snd (addHTTPCache mem_peer lower HTTPCachedResource_default 0 0 url (Some (adoptVector [1])) sample_response m)
   in m_url (deref (m_httpCache m') 0) \<noteq> cache_key url
      \<and> m_resourceData (deref (m_httpCache m') 0) = Some (adoptVector [1])"
proof -
  define lower where "lower = (\<lambda>c :: uchar. if 65 \<le> c \<and> c \<le> 90 then c + 32 else c)"
  let ?c = "snd (new_resource (HTTPCachedResource_default\<lparr>m_url := of_latin1 ''http://h/A''\<rparr>) (HTTPCache_new ((\<lambda>_. None, None) :: mem_world)))"
  let ?m = "(rhm_new ?c (\<lambda>_. sample_job))\<lparr>m_writeCacheList := [0]\<rparr>"
  let ?url = "(invalidate ''http://h/a'')\<lparr>m_protocolIsInHTTPFamily := True\<rparr>"
  have k: "cache_key ?url = of_latin1 ''http://h/a''"
    by (simp add: cache_key_def removeFragmentIdentifierIfNeeded_def KURL_hasFragmentIdentifier_def invalidate_def)
  have d: "m_url (deref (m_httpCache ?m) 0) = of_latin1 ''http://h/A''" "resourceForURL ?url (m_httpCache ?m) = None"
    by (simp_all add: rhm_new_def new_resource_def HTTPCache_new_def deref_def resourceForURL_def)
  have e: "map lower (of_latin1 ''http://h/A'') = map lower (of_latin1 ''http://h/a'')" "of_latin1 ''http://h/A'' \<noteq> of_latin1 ''http://h/a''"
    unfolding lower_def by code_simp+
  obtain ok m' where a: "addHTTPCache mem_peer lower HTTPCachedResource_default 0 0 ?url (Some (adoptVector [1])) sample_response ?m = (ok, m')"
    by fastforce
  have h: "m_writeCacheList ?m = [0]" "m_protocolIsInHTTPFamily ?url" "httpMethod (jobs ?m 0) = ''GET''" "\<not> r_noStore sample_response"
    "map lower (m_url (deref (m_httpCache ?m) 0)) = map lower (cache_key ?url)" "m_url (deref (m_httpCache ?m) 0) \<noteq> cache_key ?url"
    unfolding k d(1) using e by (simp_all add: rhm_new_def sample_job_def sample_response_def)
  note P = case_variant_poisons_entry [OF d(2) h(1,5,6,2,3,4) a]
  have "m_url (deref (m_httpCache m') 0) \<noteq> cache_key ?url" using P by (elim conjE)
  moreover have "m_resourceData (deref (m_httpCache m') 0) = Some (adoptVector [1])" using P by (elim conjE)
  ultimately show ?thesis unfolding Let_def lower_def [symmetric] a snd_conv by (rule conjI)
qed

text \<open>One poll of the read timer after another, with the same answers.\<close>

fun read_polls :: "('w, 'f) file_peer \<Rightarrow> reader \<Rightarrow> nat \<Rightarrow> 'w rhm \<Rightarrow> 'w rhm option" where
  "read_polls fp rd 0 m = Some m"
| "read_polls fp rd (Suc n) m =
     Option.bind (readCacheTimerCallback fp rd (m\<lparr>m_readCacheTimer := False\<rparr>)) (read_polls fp rd n)"

text \<open>
  C39: A cached load that is refused never leaves the queue: a job that loads from the cache has no transfer handle, so the
  refusal does not cancel it; it stays first, the timer is started again, and after any number of polls the client has been told
  that many failures while the jobs behind it still wait.
\<close>

theorem refused_load_blocks_queue:
  assumes "m_readCacheJobList m = j # js" "\<not> m_handle (jobs m j)" "m_client (jobs m j)" "\<not> m_cancelled (jobs m j)"
    and "resourceForURL (firstRequestURL (jobs m j)) (m_httpCache m) = Some r"
    and "rd_frameclient rd" "\<not> rd_accept_response rd"
  shows "\<exists>m'. read_polls fp rd n m = Some m' \<and> m_readCacheJobList m' = j # js
    \<and> notified m' = notified m @ replicate n (j, DidFail) \<and> (0 < n \<longrightarrow> m_readCacheTimer m')"
  using assms(1-5)
proof (induction n arbitrary: m)
  case (Suc n)
  let ?m = "(notify j DidFail (m\<lparr>m_readCacheTimer := False\<rparr>))\<lparr>m_readCacheTimer := True\<rparr>"
  have step: "readCacheTimerCallback fp rd (m\<lparr>m_readCacheTimer := False\<rparr>) = Some ?m"
    using Suc.prems assms(6,7) by (simp add: readCacheTimerCallback_def refuse_read_def next_read_def)
  have f: "m_readCacheJobList ?m = j # js" "jobs ?m = jobs m" "m_httpCache ?m = m_httpCache m"
    "notified ?m = notified m @ [(j, DidFail)]" "m_readCacheTimer ?m"
    using Suc.prems by (simp_all add: notify_def)
  from Suc.IH [of ?m] f Suc.prems obtain m' where
    "read_polls fp rd n ?m = Some m'" "m_readCacheJobList m' = j # js"
    "notified m' = notified ?m @ replicate n (j, DidFail)" "0 < n \<longrightarrow> m_readCacheTimer m'" by auto
  with step f(4,5) show ?case by (cases n) auto
qed simp

definition refusing_reader :: reader where
  "refusing_reader =
     \<lparr>rd_frameclient = True, rd_accept_response = False, rd_client_accepts_response = True,
      rd_cancels_in_response = False, rd_same_frame = True, rd_accept_data = True, rd_client_accepts_data = True,
      rd_malloc = True, rd_cancels_in_data = False\<rparr>"

definition two_readers :: "mem_world rhm" where
  \<comment> \<open>two jobs that wait to read the same entry\<close>
  "two_readers = (rhm_new (one_entry (\<lambda>_. None, None) HTTPCachedResource_default) (\<lambda>_. sample_job\<lparr>refs := 2\<rparr>))
     \<lparr>m_readCacheJobList := [1, 2]\<rparr>"

lemma two_readers:
  "resourceForURL (firstRequestURL (jobs two_readers 1)) (m_httpCache two_readers) = Some 0"
  "m_readCacheJobList two_readers = [1, 2]" "m_scheduledJobList two_readers = []"
  "\<not> m_handle (jobs two_readers 1)" "m_client (jobs two_readers 1)" "\<not> m_cancelled (jobs two_readers 1)"
proof -
  have "cache_key (invalidate []) = []"
    by (simp add: cache_key_def removeFragmentIdentifierIfNeeded_def KURL_hasFragmentIdentifier_def invalidate_def of_latin1_def)
  moreover have "m_url HTTPCachedResource_default = []" by (simp add: HTTPCachedResource_default_def)
  ultimately show "resourceForURL (firstRequestURL (jobs two_readers 1)) (m_httpCache two_readers) = Some 0"
    by (simp add: two_readers_def rhm_new_def sample_job_def resourceForURL_def one_entry(5))
qed (simp_all add: two_readers_def rhm_new_def sample_job_def)

theorem refused_load_blocks_queue_witness:
  "\<exists>m'. read_polls mem_peer refusing_reader 3 two_readers = Some m' \<and> m_readCacheJobList m' = [1, 2]"
  using refused_load_blocks_queue [OF two_readers(2,4-6,1), of refusing_reader mem_peer 3]
  by (auto simp: refusing_reader_def)

text \<open>
  A client that cancels a cached load from within \<open>didReceiveResponse\<close> is released once too often, and the next job
  in the queue is thrown away with its reference: the cancellation takes the job out of the list, after which the timer removes
  the first entry, now that of the next job, and releases the cancelled job again. The theorem follows the way through the timer
  on which the buffer for the body cannot be allocated, for a queue of two jobs.
\<close>

theorem cancel_in_callback_overreleases:
  assumes "m_readCacheJobList m = [j, k]" "j \<noteq> k" "j \<notin> set (m_scheduledJobList m)"
    and "m_client (jobs m j)" "\<not> m_cancelled (jobs m j)"
    and "resourceForURL (firstRequestURL (jobs m j)) (m_httpCache m) = Some r"
    and "rd_frameclient rd" "rd_accept_response rd" "rd_client_accepts_response rd" "rd_cancels_in_response rd"
    and "rd_same_frame rd" "rd_accept_data rd" "rd_client_accepts_data rd" "\<not> rd_malloc rd"
    and "readCacheTimerCallback fp rd m = Some m'"
  shows "m_readCacheJobList m' = [] \<and> slack m' j = slack m j - 1 \<and> slack m' k = slack m k + 1"
proof -
  let ?m1 = "notify j DidReceiveResponse m"
  let ?m2 = "deref_job j (?m1\<lparr>m_readCacheJobList := [k]\<rparr>)"
  have c: "cancel j ?m1 = ?m2" using assms(1-3) by (simp add: cancel_def removeScheduledJob_def)
  have "\<not> m_cancelled (jobs ?m2 j)" using assms(5) by (simp add: deref_job_def)
  then have "m' = finish_read j ?m2"
    using assms(4-15) assms(1) c by (simp add: readCacheTimerCallback_def Let_def)
  moreover have "slack ?m2 i = slack m i" for i using slack_cancel [of j ?m1 i] c by (simp add: slack_simps)
  moreover have "m_readCacheJobList ?m2 = [k]" by (simp add: deref_job_def)
  ultimately have m': "m' = deref_job j (?m2\<lparr>m_readCacheJobList := []\<rparr>)" and s: "\<And>i. slack ?m2 i = slack m i"
    and l: "m_readCacheJobList ?m2 = [k]"
    by (simp_all add: finish_read_def next_read_def deref_job_def)
  have "m_readCacheJobList m' = []" by (simp add: m' deref_job_def)
  moreover have "slack m' i = slack m i + (if i = k then 1 else 0) - (if i = j then 1 else 0)" for i
  proof -
    have "slack m' i = slack (?m2\<lparr>m_readCacheJobList := []\<rparr>) i - (if i = j then 1 else 0)" unfolding m' by (rule slack_deref)
    moreover have "slack (?m2\<lparr>m_readCacheJobList := []\<rparr>) i = slack ?m2 i + int (count_list (m_readCacheJobList ?m2) i) - int (count_list [] i)"
      by (rule slack_lists(3))
    ultimately show ?thesis unfolding s l by simp
  qed
  ultimately show ?thesis using assms(2) by simp
qed

theorem cancel_in_callback_overreleases_witness:
  "\<exists>m'. readCacheTimerCallback mem_peer (refusing_reader\<lparr>rd_accept_response := True, rd_cancels_in_response := True, rd_malloc := False\<rparr>)
     two_readers = Some m' \<and> slack m' 1 = slack two_readers 1 - 1 \<and> slack m' 2 = slack two_readers 2 + 1"
proof -
  let ?rd = "refusing_reader\<lparr>rd_accept_response := True, rd_cancels_in_response := True, rd_malloc := False\<rparr>"
  have "\<exists>m'. readCacheTimerCallback mem_peer ?rd two_readers = Some m'"
    by (simp add: readCacheTimerCallback_def two_readers [simplified] refusing_reader_def Let_def)
  then obtain m' where "readCacheTimerCallback mem_peer ?rd two_readers = Some m'" by blast
  with cancel_in_callback_overreleases [OF two_readers(2) _ _ two_readers(5,6,1), of ?rd mem_peer m']
  show ?thesis by (simp add: two_readers refusing_reader_def)
qed

end
