(* ===== verification/HTTPResponse.thy ===== *)
theory HTTPResponse
  imports KURL Double
begin

text \<open>
  The header of a response: \<open>HTTPHeaderMap\<close>, the header fields, the Cache-Control directives and the dates of
  \<open>ResourceResponseBase\<close> (\<open>WebCore/platform/network/ResourceResponseBase.cpp\<close>), and the parsers of Content-Type and
  Content-Disposition (\<open>HTTPParsers.cpp\<close>). The names of a header map differ in more than case, so its keys are the
  names in lower case. The numeric and date parsers of WTF, which the code calls through \<open>String::toDouble\<close> and
  \<open>parseDate\<close>, are the arguments \<open>toDouble\<close> and \<open>parseDate\<close>; nothing is assumed of them.

  The locale \<open>header_store\<close> is what a client of the fields relies on; a client that adds the fields that may be
  repeated and sets the others finds in a field the values of its lines.
\<close>

section \<open>Header fields\<close>

text \<open>\<open>None\<close> is the null \<open>String\<close>, which is not the empty one.\<close>

type_synonym nstring = "string option"

definition text_of :: "nstring \<Rightarrow> string" where
  \<comment> \<open>the characters of a string, none for the null string\<close>
  "text_of s = (case s of None \<Rightarrow> [] | Some t \<Rightarrow> t)"

type_synonym header_map = "string \<rightharpoonup> nstring"

record http_response =
  rs_url :: kurl
  rs_mimeType :: nstring
  rs_expectedContentLength :: int
  rs_textEncodingName :: nstring
  rs_suggestedFilename :: nstring
  rs_httpStatusCode :: int
  m_httpStatusText :: nstring
  m_httpHeaderFields :: header_map
  m_haveParsedCacheControlHeader :: bool
  m_haveParsedAgeHeader :: bool
  m_haveParsedDateHeader :: bool
  m_haveParsedExpiresHeader :: bool
  m_haveParsedLastModifiedHeader :: bool
  m_cacheControlContainsNoCache :: bool
  m_cacheControlContainsNoStore :: bool
  m_cacheControlContainsMustRevalidate :: bool
  m_cacheControlMaxAge :: double
  m_age :: double
  rs_date :: double
  rs_expires :: double
  rs_lastModified :: double
  m_responseFired :: bool

definition ResourceResponse_new :: http_response where
  "ResourceResponse_new =
     \<lparr>rs_url = invalidate [], rs_mimeType = None, rs_expectedContentLength = 0, rs_textEncodingName = None, rs_suggestedFilename = None,
      rs_httpStatusCode = 0, m_httpStatusText = None, m_httpHeaderFields = Map.empty, m_haveParsedCacheControlHeader = False,
      m_haveParsedAgeHeader = False, m_haveParsedDateHeader = False, m_haveParsedExpiresHeader = False,
      m_haveParsedLastModifiedHeader = False, m_cacheControlContainsNoCache = False, m_cacheControlContainsNoStore = False,
      m_cacheControlContainsMustRevalidate = False, m_cacheControlMaxAge = 0, m_age = 0, rs_date = 0, rs_expires = 0,
      rs_lastModified = 0, m_responseFired = False\<rparr>"

definition HTTPHeaderMap_get :: "header_map \<Rightarrow> string \<Rightarrow> nstring" where
  "HTTPHeaderMap_get h name = (case h (str_lower name) of None \<Rightarrow> None | Some v \<Rightarrow> v)"

definition httpHeaderField :: "http_response \<Rightarrow> string \<Rightarrow> nstring" where
  "httpHeaderField r name = HTTPHeaderMap_get (m_httpHeaderFields r) name"

definition updateHeaderParsedState :: "string \<Rightarrow> http_response \<Rightarrow> http_response" where
  "updateHeaderParsedState name r =
     (if equalIgnoringCase name ''age'' then r\<lparr>m_haveParsedAgeHeader := False\<rparr>
      else if equalIgnoringCase name ''cache-control'' \<or> equalIgnoringCase name ''pragma''
      then r\<lparr>m_haveParsedCacheControlHeader := False\<rparr>
      else if equalIgnoringCase name ''date'' then r\<lparr>m_haveParsedDateHeader := False\<rparr>
      else if equalIgnoringCase name ''expires'' then r\<lparr>m_haveParsedExpiresHeader := False\<rparr>
      else if equalIgnoringCase name ''last-modified'' then r\<lparr>m_haveParsedLastModifiedHeader := False\<rparr>
      else r)"

definition setHTTPHeaderField :: "string \<Rightarrow> nstring \<Rightarrow> http_response \<Rightarrow> http_response" where
  "setHTTPHeaderField name value r0 =
     (let r = updateHeaderParsedState name r0
      in r\<lparr>m_httpHeaderFields := (m_httpHeaderFields r)(str_lower name \<mapsto> value)\<rparr>)"

definition addHTTPHeaderField :: "string \<Rightarrow> string \<Rightarrow> http_response \<Rightarrow> http_response" where
  \<comment> \<open>an entry that is there, even with the null string, is extended\<close>
  "addHTTPHeaderField name value r0 =
     (let r = updateHeaderParsedState name r0; h = m_httpHeaderFields r in
      case h (str_lower name) of
        None \<Rightarrow> r\<lparr>m_httpHeaderFields := h(str_lower name \<mapsto> Some value)\<rparr>
      | Some old \<Rightarrow> r\<lparr>m_httpHeaderFields := h(str_lower name \<mapsto> Some (text_of old @ '', '' @ value))\<rparr>)"

section \<open>Cache-Control\<close>

definition isCacheHeaderSeparator :: "char \<Rightarrow> bool" where
  "isCacheHeaderSeparator c \<longleftrightarrow> c \<in> set ''()<>@,;:/[]?={} '' \<or> c = CHR 0x5C \<or> c = CHR 0x22 \<or> c = CHR 0x09"

definition isControlCharacter :: "char \<Rightarrow> bool" where
  "isControlCharacter c \<longleftrightarrow> code c < 32 \<or> code c = 127"

definition trimToNextSeparator :: "string \<Rightarrow> string" where
  "trimToNextSeparator s = takeWhile (\<lambda>c. \<not> isCacheHeaderSeparator c) s"

definition str_find_after :: "string \<Rightarrow> char \<Rightarrow> nat \<Rightarrow> nat option" where
  \<comment> \<open>\<open>find(c, start)\<close>\<close>
  "str_find_after s c start = map_option (\<lambda>i. start + i) (str_find (drop start s) c)"

lemma find_from_bound: "find_from i c s = Some k \<Longrightarrow> i \<le> k \<and> k < i + length s"
  by (induction i c s arbitrary: k rule: find_from.induct) (fastforce split: if_splits)+

lemma str_find_bound: "str_find s c = Some k \<Longrightarrow> k < length s"
  using find_from_bound [of 0 c s k] by (simp add: str_find_def)

text \<open>
  The loop of \<open>parseCacheHeader\<close> on the characters from \<open>pos\<close>. A quoted value starts at
  the first quote after the equals sign, since only blanks come before it.
\<close>

function parse_directives :: "string \<Rightarrow> (string \<times> string) list" where
  "parse_directives s =
     (if s = [] then []
      else
        let comma = str_find s (CHR '',''); eq = str_find s (CHR ''='')
        in if eq \<noteq> None \<and> (comma = None \<or> the eq < the comma) then
             let directive = trimToNextSeparator (stripWhiteSpace (take (the eq) s));
                 s1 = drop (the eq + 1) s;
                 value = stripWhiteSpace s1
             in if value \<noteq> [] \<and> hd value = CHR 0x22 then
                  (case str_find_after value (CHR 0x22) 1 of
                     Some q \<Rightarrow>
                       (directive, stripWhiteSpace (substring value 1 (q - 1))) #
                       (let s2 = drop (the (str_find s1 (CHR 0x22)) + q + 1) s1 in
                        case str_find s2 (CHR '','') of None \<Rightarrow> [] | Some k \<Rightarrow> parse_directives (drop (k + 1) s2))
                   | None \<Rightarrow> [(directive, trimToNextSeparator (stripWhiteSpace (substring value 1 (length value - 1))))])
                else
                  (case str_find value (CHR '','') of
                     Some k \<Rightarrow>
                       (directive, trimToNextSeparator (stripWhiteSpace (take k value))) #
                       parse_directives (drop (the (str_find s1 (CHR '','')) + 1) s1)
                   | None \<Rightarrow> [(directive, trimToNextSeparator value)])
           else if comma \<noteq> None then
             (trimToNextSeparator (stripWhiteSpace (take (the comma) s)), []) # parse_directives (drop (the comma + 1) s)
           else [(trimToNextSeparator (stripWhiteSpace s), [])])"
  by pat_completeness auto
termination
  by (relation "measure length") auto

declare parse_directives.simps [simp del]

definition parseCacheHeader :: "string \<Rightarrow> (string \<times> string) list" where
  "parseCacheHeader header = parse_directives (filter (\<lambda>c. \<not> isControlCharacter c) header)"

definition apply_directive :: "(string \<Rightarrow> double option) \<Rightarrow> http_response \<Rightarrow> string \<times> string \<Rightarrow> http_response" where
  "apply_directive toDouble r d =
     (if equalIgnoringCase (fst d) ''no-cache'' \<and> snd d = [] then r\<lparr>m_cacheControlContainsNoCache := True\<rparr>
      else if equalIgnoringCase (fst d) ''no-store'' then r\<lparr>m_cacheControlContainsNoStore := True\<rparr>
      else if equalIgnoringCase (fst d) ''must-revalidate'' then r\<lparr>m_cacheControlContainsMustRevalidate := True\<rparr>
      else if equalIgnoringCase (fst d) ''max-age'' then
        (if \<not> isnan (m_cacheControlMaxAge r) then r
         else case toDouble (snd d) of None \<Rightarrow> r | Some maxAge \<Rightarrow> r\<lparr>m_cacheControlMaxAge := maxAge\<rparr>)
      else r)"

definition contains_string :: "string \<Rightarrow> string \<Rightarrow> bool" where
  "contains_string s p \<longleftrightarrow> list_ex (\<lambda>i. startsWith (drop i s) p) [0..<length s + 1]"

definition parseCacheControlDirectives :: "(string \<Rightarrow> double option) \<Rightarrow> http_response \<Rightarrow> http_response" where
  "parseCacheControlDirectives toDouble r0 =
     (let r1 = r0\<lparr>m_haveParsedCacheControlHeader := True, m_cacheControlContainsMustRevalidate := False,
                  m_cacheControlContainsNoCache := False, m_cacheControlMaxAge := quiet_NaN\<rparr>;
          cacheControlValue = text_of (HTTPHeaderMap_get (m_httpHeaderFields r0) ''cache-control'');
          r = (if cacheControlValue \<noteq> [] then foldl (apply_directive toDouble) r1 (parseCacheHeader cacheControlValue) else r1)
      in if m_cacheControlContainsNoCache r then r
         else r\<lparr>m_cacheControlContainsNoCache :=
                  contains_string (str_lower (text_of (HTTPHeaderMap_get (m_httpHeaderFields r0) ''pragma''))) ''no-cache''\<rparr>)"


text \<open>The accessors parse when a header has changed since the last time; the caches they fill are part of the response.\<close>

definition with_cache_control :: "(string \<Rightarrow> double option) \<Rightarrow> http_response \<Rightarrow> http_response" where
  "with_cache_control toDouble r = (if m_haveParsedCacheControlHeader r then r else parseCacheControlDirectives toDouble r)"

definition cacheControlContainsNoCache :: "(string \<Rightarrow> double option) \<Rightarrow> http_response \<Rightarrow> bool \<times> http_response" where
  "cacheControlContainsNoCache toDouble r =
     (let r' = with_cache_control toDouble r in (m_cacheControlContainsNoCache r', r'))"

definition cacheControlContainsNoStore :: "(string \<Rightarrow> double option) \<Rightarrow> http_response \<Rightarrow> bool \<times> http_response" where
  "cacheControlContainsNoStore toDouble r =
     (let r' = with_cache_control toDouble r in (m_cacheControlContainsNoStore r', r'))"

definition cacheControlContainsMustRevalidate :: "(string \<Rightarrow> double option) \<Rightarrow> http_response \<Rightarrow> bool \<times> http_response" where
  "cacheControlContainsMustRevalidate toDouble r =
     (let r' = with_cache_control toDouble r in (m_cacheControlContainsMustRevalidate r', r'))"

definition cacheControlMaxAge :: "(string \<Rightarrow> double option) \<Rightarrow> http_response \<Rightarrow> double \<times> http_response" where
  "cacheControlMaxAge toDouble r = (let r' = with_cache_control toDouble r in (m_cacheControlMaxAge r', r'))"

definition hasCacheValidatorFields :: "http_response \<Rightarrow> bool" where
  "hasCacheValidatorFields r \<longleftrightarrow>
     text_of (HTTPHeaderMap_get (m_httpHeaderFields r) ''last-modified'') \<noteq> []
     \<or> text_of (HTTPHeaderMap_get (m_httpHeaderFields r) ''etag'') \<noteq> []"

section \<open>Dates\<close>

definition parseDateValueInHeader :: "(string \<Rightarrow> double) \<Rightarrow> header_map \<Rightarrow> string \<Rightarrow> double" where
  "parseDateValueInHeader parseDate h name =
     (let headerValue = text_of (HTTPHeaderMap_get h name) in
      if headerValue = [] then quiet_NaN
      else let ms = parseDate headerValue
           in if isfinite ms then dbl_div ms (dbl_of_int 1000) else quiet_NaN)"

definition response_date :: "(string \<Rightarrow> double) \<Rightarrow> http_response \<Rightarrow> double \<times> http_response" where
  "response_date parseDate r =
     (if m_haveParsedDateHeader r then (rs_date r, r)
      else let v = parseDateValueInHeader parseDate (m_httpHeaderFields r) ''date''
           in (v, r\<lparr>rs_date := v, m_haveParsedDateHeader := True\<rparr>))"

definition response_age :: "(string \<Rightarrow> double option) \<Rightarrow> http_response \<Rightarrow> double \<times> http_response" where
  "response_age toDouble r =
     (if m_haveParsedAgeHeader r then (m_age r, r)
      else let v = (case toDouble (text_of (HTTPHeaderMap_get (m_httpHeaderFields r) ''age'')) of None \<Rightarrow> quiet_NaN | Some v \<Rightarrow> v)
           in (v, r\<lparr>m_age := v, m_haveParsedAgeHeader := True\<rparr>))"

definition response_expires :: "(string \<Rightarrow> double) \<Rightarrow> http_response \<Rightarrow> double \<times> http_response" where
  "response_expires parseDate r =
     (if m_haveParsedExpiresHeader r then (rs_expires r, r)
      else let v = parseDateValueInHeader parseDate (m_httpHeaderFields r) ''expires''
           in (v, r\<lparr>rs_expires := v, m_haveParsedExpiresHeader := True\<rparr>))"

definition response_lastModified :: "(string \<Rightarrow> double) \<Rightarrow> http_response \<Rightarrow> double \<times> http_response" where
  "response_lastModified parseDate r =
     (if m_haveParsedLastModifiedHeader r then (rs_lastModified r, r)
      else let v = parseDateValueInHeader parseDate (m_httpHeaderFields r) ''last-modified''
           in (v, r\<lparr>rs_lastModified := v, m_haveParsedLastModifiedHeader := True\<rparr>))"

definition isAttachment :: "http_response \<Rightarrow> bool" where
  "isAttachment r \<longleftrightarrow>
     (let v = text_of (HTTPHeaderMap_get (m_httpHeaderFields r) ''content-disposition'');
          v1 = (case str_find v (CHR '';'') of None \<Rightarrow> v | Some loc \<Rightarrow> str_left v loc)
      in equalIgnoringCase (stripWhiteSpace v1) ''attachment'')"

section \<open>Content-Type and Content-Disposition\<close>

definition extractMIMETypeFromMediaType :: "string \<Rightarrow> string" where
  "extractMIMETypeFromMediaType mediaType =
     filter (\<lambda>c. \<not> isASCIISpace c) (takeWhile (\<lambda>c. c \<noteq> CHR '';'' \<and> c \<noteq> CHR '','') mediaType)"

definition find_ignoring_case :: "string \<Rightarrow> string \<Rightarrow> nat \<Rightarrow> nat option" where
  \<comment> \<open>\<open>find(p, start, false)\<close>\<close>
  "find_ignoring_case s p start = find (\<lambda>i. startsWith (str_lower (drop i s)) (str_lower p)) [start..<length s]"

lemma find_ignoring_case_bound: "find_ignoring_case s p start = Some i \<Longrightarrow> start \<le> i \<and> i < length s"
  by (auto simp: find_ignoring_case_def find_Some_iff)

function find_charset :: "string \<Rightarrow> nat \<Rightarrow> nat \<times> nat" where
  \<comment> \<open>position and length; a character outside the string reads as 0\<close>
  "find_charset s pos =
     (if length s \<le> pos then (0, 0)
      else case find_ignoring_case s ''charset'' pos of
        None \<Rightarrow> (0, 0)
      | Some p \<Rightarrow>
          if p = 0 then (0, 0)
          else if 32 < code (char_at s (p - 1)) \<and> char_at s (p - 1) \<noteq> CHR '';'' then find_charset s (p + 7)
          else
            let p1 = scan (\<lambda>c. code c \<le> 32) s (p + 7)
            in if char_at s p1 \<noteq> CHR ''='' then find_charset s (p1 + 1)
               else
                 let p2 = scan (\<lambda>c. code c \<le> 32 \<or> c = CHR 0x22 \<or> c = CHR 0x27) s (p1 + 1);
                     endpos = scan (\<lambda>c. 32 < code c \<and> c \<noteq> CHR 0x22 \<and> c \<noteq> CHR 0x27 \<and> c \<noteq> CHR '';'') s p2
                 in (p2, endpos - p2))"
  by pat_completeness auto
termination
proof (relation "measure (\<lambda>(s, pos). length s - pos)"; clarsimp)
  fix s pos p
  assume "\<not> length s \<le> pos" "find_ignoring_case s ''charset'' pos = Some p"
  then show "length s - (p + 7) < length s - pos"
    using find_ignoring_case_bound [of s "''charset''" pos p] by linarith
next
  fix s pos p
  assume "\<not> length s \<le> pos" "find_ignoring_case s ''charset'' pos = Some p"
  then show "length s - Suc (scan (\<lambda>c. code c \<le> 32) s (p + 7)) < length s - pos"
    using find_ignoring_case_bound [of s "''charset''" pos p] scan_ge [of "p + 7" "\<lambda>c. code c \<le> 32" s] by linarith
qed

declare find_charset.simps [simp del]

definition extractCharsetFromMediaType :: "string \<Rightarrow> string" where
  "extractCharsetFromMediaType mediaType = (case find_charset mediaType 0 of (pos, len) \<Rightarrow> substring mediaType pos len)"

fun filename_of :: "string list \<Rightarrow> nstring" where
  \<comment> \<open>\<open>length() - 2\<close> of a lone quote wraps around and the rest, nothing, is taken\<close>
  "filename_of [] = None"
| "filename_of (kv # kvs) =
     (case str_find kv (CHR ''='') of
        None \<Rightarrow> filename_of kvs
      | Some i \<Rightarrow>
          if stripWhiteSpace (str_left kv i) \<noteq> ''filename'' then filename_of kvs
          else let value = stripWhiteSpace (drop (i + 1) kv)
               in Some (if value \<noteq> [] \<and> hd value = CHR 0x22 then substring value 1 (length value - 2) else value))"

definition filenameFromHTTPContentDisposition :: "string \<Rightarrow> nstring" where
  "filenameFromHTTPContentDisposition value = filename_of (str_split False (CHR '';'') value)"


section \<open>Lines of a header\<close>

text \<open>
  A store of header fields: \<open>field\<close> reads, \<open>present\<close> tells whether there is an entry, \<open>setf\<close>
  replaces and \<open>addf\<close> extends. A client that adds the fields that may be repeated and sets the others
  then finds in a field the values of its lines.
\<close>

fun join_values :: "string list \<Rightarrow> string" where
  "join_values [] = []"
| "join_values [v] = v"
| "join_values (v # vs) = v @ '', '' @ join_values vs"

lemma join_values_snoc: "vs \<noteq> [] \<Longrightarrow> join_values (vs @ [v]) = join_values vs @ '', '' @ v"
  by (induction vs rule: join_values.induct) simp_all

definition line_with :: "(string \<Rightarrow> string \<Rightarrow> 'r \<Rightarrow> 'r) \<Rightarrow> (string \<Rightarrow> string \<Rightarrow> 'r \<Rightarrow> 'r) \<Rightarrow> (string \<Rightarrow> bool)
    \<Rightarrow> string \<times> string \<Rightarrow> 'r \<Rightarrow> 'r" where
  "line_with setf addf appendable nv = (if appendable (fst nv) then addf (fst nv) (snd nv) else setf (fst nv) (snd nv))"

definition values_with :: "(string \<Rightarrow> string \<Rightarrow> bool) \<Rightarrow> string \<Rightarrow> (string \<times> string) list \<Rightarrow> string list" where
  "values_with same k nvs = map snd (filter (\<lambda>nv. same (fst nv) k) nvs)"

lemma values_with_Nil [simp]: "values_with same k [] = []"
  by (simp add: values_with_def)

lemma values_with_snoc: "values_with same k (nvs @ [nv]) = values_with same k nvs @ (if same (fst nv) k then [snd nv] else [])"
  by (simp add: values_with_def)

locale header_store =
  fixes field :: "'r \<Rightarrow> string \<Rightarrow> nstring"
    and present :: "'r \<Rightarrow> string \<Rightarrow> bool"
    and setf addf :: "string \<Rightarrow> string \<Rightarrow> 'r \<Rightarrow> 'r"
    and same :: "string \<Rightarrow> string \<Rightarrow> bool"
  assumes field_set: "field (setf n v r) k = (if same n k then Some v else field r k)"
    and field_add: "field (addf n v r) k =
      (if same n k then Some (if present r k then text_of (field r k) @ '', '' @ v else v) else field r k)"
    and present_set: "present (setf n v r) k \<longleftrightarrow> same n k \<or> present r k"
    and present_add: "present (addf n v r) k \<longleftrightarrow> same n k \<or> present r k"
    and field_absent: "\<not> present r k \<Longrightarrow> field r k = None"
begin

lemma present_lines:
  "present (fold (line_with setf addf appendable) nvs r) k \<longleftrightarrow> present r k \<or> values_with same k nvs \<noteq> []"
proof (induction nvs rule: rev_induct)
  case (snoc nv nvs)
  then show ?case by (auto simp: line_with_def present_set present_add values_with_snoc)
qed simp

lemma field_lines:
  assumes "\<And>n. same n k \<Longrightarrow> appendable n \<longleftrightarrow> appendable k" "\<not> present r k"
  shows "field (fold (line_with setf addf appendable) nvs r) k =
    (let vs = values_with same k nvs in if vs = [] then None else Some (if appendable k then join_values vs else last vs))"
proof (induction nvs rule: rev_induct)
  case Nil
  show ?case using field_absent [OF assms(2)] by simp
next
  case (snoc nv nvs)
  let ?r = "fold (line_with setf addf appendable) nvs r"
  have fold: "fold (line_with setf addf appendable) (nvs @ [nv]) r = line_with setf addf appendable nv ?r" by simp
  show ?case
  proof (cases "same (fst nv) k")
    case False
    then have "field (line_with setf addf appendable nv ?r) k = field ?r k" by (simp add: line_with_def field_set field_add)
    then show ?thesis unfolding fold using snoc False by (simp add: values_with_snoc)
  next
    case True
    note app = assms(1) [OF True]
    show ?thesis
    proof (cases "values_with same k nvs = []")
      case True
      then have "\<not> present ?r k" using assms(2) by (simp add: present_lines)
      then show ?thesis unfolding fold using \<open>same (fst nv) k\<close> True by (simp add: line_with_def field_set field_add values_with_snoc Let_def)
    next
      case False
      then have p: "present ?r k" by (simp add: present_lines)
      from snoc False have "field ?r k = Some (if appendable k then join_values (values_with same k nvs) else last (values_with same k nvs))"
        by (simp add: Let_def)
      then show ?thesis unfolding fold using True p app False
        by (simp add: line_with_def field_set field_add values_with_snoc join_values_snoc text_of_def Let_def)
    qed
  qed
qed

end

definition header_present :: "http_response \<Rightarrow> string \<Rightarrow> bool" where
  "header_present r k \<longleftrightarrow> m_httpHeaderFields r (str_lower k) \<noteq> None"

lemma fields_update [simp]: "m_httpHeaderFields (updateHeaderParsedState n r) = m_httpHeaderFields r"
  by (simp add: updateHeaderParsedState_def)

interpretation fields: header_store httpHeaderField header_present "\<lambda>n v. setHTTPHeaderField n (Some v)" addHTTPHeaderField equalIgnoringCase
  by unfold_locales
    (auto simp: httpHeaderField_def header_present_def setHTTPHeaderField_def addHTTPHeaderField_def HTTPHeaderMap_get_def
      equalIgnoringCase_def Let_def text_of_def split: option.splits)


section \<open>Directives that are printed are parsed\<close>

datatype directive_form = Plain | Token | Quoted

definition token_char :: "char \<Rightarrow> bool" where
  "token_char c \<longleftrightarrow> \<not> isCacheHeaderSeparator c \<and> \<not> isControlCharacter c"

definition trimmed :: "string \<Rightarrow> bool" where
  "trimmed s \<longleftrightarrow> s = [] \<or> \<not> isASCIISpace (hd s) \<and> \<not> isASCIISpace (last s)"

fun well_formed :: "directive_form \<times> string \<times> string \<Rightarrow> bool" where
  "well_formed (f, n, v) \<longleftrightarrow> n \<noteq> [] \<and> list_all token_char n \<and>
     (case f of
        Plain \<Rightarrow> v = []
      | Token \<Rightarrow> list_all token_char v
      | Quoted \<Rightarrow> trimmed v \<and> list_all (\<lambda>c. c \<noteq> CHR 0x22 \<and> \<not> isControlCharacter c) v)"

fun print_directive :: "directive_form \<times> string \<times> string \<Rightarrow> string" where
  "print_directive (Plain, n, v) = n"
| "print_directive (Token, n, v) = n @ CHR ''='' # v"
| "print_directive (Quoted, n, v) = n @ CHR ''='' # CHR 0x22 # v @ [CHR 0x22]"

lemma find_from_append: "c \<notin> set xs \<Longrightarrow> find_from i c (xs @ ys) = find_from (i + length xs) c ys"
  by (induction xs arbitrary: i) auto

lemma find_from_None: "find_from i c xs = None \<longleftrightarrow> c \<notin> set xs"
  by (induction xs arbitrary: i) auto

lemma str_find_here: "c \<notin> set xs \<Longrightarrow> str_find (xs @ c # ys) c = Some (length xs)"
  by (simp add: str_find_def find_from_append)

lemma str_find_later: "c \<notin> set xs \<Longrightarrow> str_find (xs @ ys) c = Some k \<Longrightarrow> length xs \<le> k"
  using find_from_bound [of "length xs" c ys k] by (simp add: str_find_def find_from_append)

lemma str_find_None: "str_find xs c = None \<longleftrightarrow> c \<notin> set xs"
  by (simp add: str_find_def find_from_None)

definition strip_end :: "string \<Rightarrow> string" where
  "strip_end s = rev (dropWhile isASCIISpace (rev s))"

lemma strip_front: "list_all isASCIISpace sp \<Longrightarrow> stripWhiteSpace (sp @ x) = stripWhiteSpace x"
  by (induction sp) (simp_all add: stripWhiteSpace_def)

lemma strip_at: "\<not> isASCIISpace c \<Longrightarrow> x = [] \<or> \<not> isASCIISpace (hd x) \<Longrightarrow> stripWhiteSpace (x @ c # y) = x @ c # strip_end y"
  by (cases x) (simp_all add: stripWhiteSpace_def strip_end_def dropWhile_append3)

lemma strip_trimmed: "trimmed x \<Longrightarrow> stripWhiteSpace x = x"
proof (cases x rule: rev_cases)
  case (snoc y c)
  assume "trimmed x"
  then show ?thesis using snoc strip_at [of c y "[]"] by (cases y) (simp_all add: trimmed_def strip_end_def)
qed (simp add: stripWhiteSpace_def)

lemma space_code: "isASCIISpace c \<Longrightarrow> \<not> token_char c"
proof -
  assume "isASCIISpace c"
  then consider "code c = 32" | "code c < 32" by (force simp: isASCIISpace_def)
  then show ?thesis
  proof cases
    case 1
    then have "c = CHR '' ''" using code_inj [of c "CHR '' ''"] by (simp add: code_def)
    then show ?thesis by (simp add: token_char_def isCacheHeaderSeparator_def)
  qed (simp add: token_char_def isControlCharacter_def)
qed

lemma separators: "isCacheHeaderSeparator (CHR '','')" "isCacheHeaderSeparator (CHR ''='')" "isCacheHeaderSeparator (CHR 0x22)"
  "\<not> isASCIISpace (CHR '','')" "\<not> isASCIISpace (CHR 0x22)"
  by (simp_all add: isCacheHeaderSeparator_def isASCIISpace_def code_def)

lemma token_facts:
  assumes "list_all token_char n"
  shows "CHR '','' \<notin> set n" "CHR ''='' \<notin> set n" "CHR 0x22 \<notin> set n" "trimmed n" "trimToNextSeparator n = n"
    "filter (\<lambda>c. \<not> isControlCharacter c) n = n"
proof -
  show "CHR '','' \<notin> set n" "CHR ''='' \<notin> set n" "CHR 0x22 \<notin> set n"
    using assms separators by (auto simp: list_all_iff token_char_def)
  have "hd n \<in> set n" "last n \<in> set n" if "n \<noteq> []" using that by simp_all
  then show "trimmed n" using assms space_code unfolding trimmed_def list_all_iff by blast
  show "trimToNextSeparator n = n" using assms by (auto simp: trimToNextSeparator_def takeWhile_eq_all_conv list_all_iff token_char_def)
  show "filter (\<lambda>c. \<not> isControlCharacter c) n = n" using assms by (auto simp: filter_id_conv list_all_iff token_char_def)
qed

lemma parse_directives_Nil [simp]: "parse_directives [] = []"
  by (simp add: parse_directives.simps)

lemma parse_plain_last:
  "s \<noteq> [] \<Longrightarrow> str_find s (CHR '','') = None \<Longrightarrow> str_find s (CHR ''='') = None
    \<Longrightarrow> parse_directives s = [(trimToNextSeparator (stripWhiteSpace s), [])]"
  by (subst parse_directives.simps) simp

lemma parse_plain:
  assumes "str_find s (CHR '','') = Some c" "\<forall>e. str_find s (CHR ''='') = Some e \<longrightarrow> c < e"
  shows "parse_directives s = (trimToNextSeparator (stripWhiteSpace (take c s)), []) # parse_directives (drop (c + 1) s)"
proof -
  have "s \<noteq> []" using str_find_bound [OF assms(1)] by auto
  then show ?thesis using assms
    by (cases "str_find s (CHR ''='')") (subst parse_directives.simps, simp add: Let_def)+
qed

lemma parse_value:
  assumes "str_find s (CHR ''='') = Some e" "\<forall>c. str_find s (CHR '','') = Some c \<longrightarrow> e < c"
  shows "parse_directives s =
    (let directive = trimToNextSeparator (stripWhiteSpace (take e s)); s1 = drop (e + 1) s; value = stripWhiteSpace s1 in
     if value \<noteq> [] \<and> hd value = CHR 0x22 then
       (case str_find_after value (CHR 0x22) 1 of
          Some q \<Rightarrow> (directive, stripWhiteSpace (substring value 1 (q - 1))) #
            (let s2 = drop (the (str_find s1 (CHR 0x22)) + q + 1) s1 in
             case str_find s2 (CHR '','') of None \<Rightarrow> [] | Some k \<Rightarrow> parse_directives (drop (k + 1) s2))
        | None \<Rightarrow> [(directive, trimToNextSeparator (stripWhiteSpace (substring value 1 (length value - 1))))])
     else (case str_find value (CHR '','') of
          Some k \<Rightarrow> (directive, trimToNextSeparator (stripWhiteSpace (take k value))) #
            parse_directives (drop (the (str_find s1 (CHR '','')) + 1) s1)
        | None \<Rightarrow> [(directive, trimToNextSeparator value)]))"
proof -
  have "s \<noteq> []" using str_find_bound [OF assms(1)] by auto
  moreover have "str_find s (CHR '','') = None \<or> e < the (str_find s (CHR '',''))" using assms(2) by (cases "str_find s (CHR '','')") simp_all
  ultimately show ?thesis unfolding parse_directives.simps [of s] assms(1)
    by (simp only: Let_def option.sel option.simps not_False_eq_True simp_thms if_True if_False)
qed

lemma parse_token:
  assumes n: "CHR ''='' \<notin> set w" "CHR '','' \<notin> set w" and v: "list_all token_char v" and rest: "rest = [] \<or> rest = CHR '','' # t"
  shows "parse_directives (w @ CHR ''='' # v @ rest) = (trimToNextSeparator (stripWhiteSpace w), v) # parse_directives (tl rest)"
proof -
  let ?s = "w @ CHR ''='' # v @ rest"
  note vf = token_facts [OF v]
  have e: "str_find ?s (CHR ''='') = Some (length w)" by (rule str_find_here [OF n(1)])
  have c: "\<forall>k. str_find ?s (CHR '','') = Some k \<longrightarrow> length w < k"
    using str_find_later [of "CHR '',''" "w @ [CHR ''='']" "v @ rest"] n by fastforce
  note eq = parse_value [OF e c]
  show ?thesis
  proof (cases "rest = []")
    case True
    have "stripWhiteSpace v = v" using vf by (simp add: strip_trimmed)
    moreover have "\<not> (v \<noteq> [] \<and> hd v = CHR 0x22)" using vf(3) by (metis list.set_sel(1))
    moreover have "str_find v (CHR '','') = None" using vf(1) by (simp add: str_find_None)
    ultimately show ?thesis unfolding eq using vf True by (auto simp: Let_def)
  next
    case False
    with rest have r: "rest = CHR '','' # t" by simp
    have "v = [] \<or> \<not> isASCIISpace (hd v)" using vf(4) by (auto simp: trimmed_def)
    then have s: "stripWhiteSpace (v @ CHR '','' # t) = v @ CHR '','' # strip_end t"
      using strip_at separators by blast
    have "hd (v @ CHR '','' # strip_end t) \<noteq> CHR 0x22" using vf(3) by (cases v) auto
    moreover have "str_find (v @ CHR '','' # x) (CHR '','') = Some (length v)" for x by (rule str_find_here [OF vf(1)])
    ultimately show ?thesis unfolding eq using vf by (simp add: Let_def s r strip_trimmed)
  qed
qed

lemma parse_quoted:
  assumes n: "CHR ''='' \<notin> set w" "CHR '','' \<notin> set w" and v: "trimmed v" "CHR 0x22 \<notin> set v" and rest: "rest = [] \<or> rest = CHR '','' # t"
  shows "parse_directives (w @ CHR ''='' # CHR 0x22 # v @ CHR 0x22 # rest)
    = (trimToNextSeparator (stripWhiteSpace w), v) # parse_directives (tl rest)"
proof -
  let ?s1 = "CHR 0x22 # v @ CHR 0x22 # rest"
  let ?s = "w @ CHR ''='' # ?s1"
  have e: "str_find ?s (CHR ''='') = Some (length w)" by (rule str_find_here [OF n(1)])
  have c: "\<forall>k. str_find ?s (CHR '','') = Some k \<longrightarrow> length w < k"
    using str_find_later [of "CHR '',''" "w @ [CHR ''='']" ?s1] n by fastforce
  have s: "stripWhiteSpace ?s1 = CHR 0x22 # v @ CHR 0x22 # strip_end rest"
    using strip_at [of "CHR 0x22" "CHR 0x22 # v" rest] separators by simp
  have q: "str_find_after (CHR 0x22 # v @ CHR 0x22 # x) (CHR 0x22) 1 = Some (1 + length v)" for x
    using str_find_here [OF v(2)] by (simp add: str_find_after_def)
  have q1: "str_find ?s1 (CHR 0x22) = Some 0" by (simp add: str_find_def)
  have tail: "(case str_find rest (CHR '','') of None \<Rightarrow> [] | Some k \<Rightarrow> parse_directives (drop (k + 1) rest)) = parse_directives (tl rest)"
    using rest by (auto simp: str_find_def)
  show ?thesis unfolding parse_value [OF e c]
    using tail by (simp add: Let_def s q [simplified] q1 substring_def strip_trimmed [OF v(1)])
qed

lemma parse_printed:
  assumes d: "well_formed d" and sp: "sp = [] \<or> sp = '' ''" and rest: "rest = [] \<or> rest = CHR '','' # t"
  shows "parse_directives (sp @ print_directive d @ rest) = snd d # parse_directives (tl rest)"
proof -
  obtain f n v where fnv: "d = (f, n, v)" by (cases d) auto
  have n: "n \<noteq> []" "list_all token_char n" using d by (simp_all add: fnv)
  have sp': "list_all isASCIISpace sp" "CHR '','' \<notin> set sp" "CHR ''='' \<notin> set sp"
    using sp by (auto simp: isASCIISpace_def code_def)
  have w: "sp @ n \<noteq> []" "CHR '','' \<notin> set (sp @ n)" "CHR ''='' \<notin> set (sp @ n)" using n token_facts [OF n(2)] sp' by simp_all
  have trim: "trimToNextSeparator (stripWhiteSpace (sp @ n)) = n"
    using token_facts [OF n(2)] by (simp add: strip_front [OF sp'(1)] strip_trimmed)
  show ?thesis
  proof (cases f)
    case Plain
    show ?thesis using rest
    proof
      assume r: "rest = []"
      have v: "v = []" using d by (simp add: fnv Plain)
      have "str_find (sp @ n) (CHR '','') = None" "str_find (sp @ n) (CHR ''='') = None" unfolding str_find_None by (rule w)+
      from parse_plain_last [OF w(1) this] show ?thesis by (simp add: trim fnv Plain r v)
    next
      assume r: "rest = CHR '','' # t"
      let ?s = "(sp @ n) @ CHR '','' # t"
      have e: "\<forall>e. str_find ?s (CHR ''='') = Some e \<longrightarrow> length (sp @ n) < e"
        using str_find_later [of "CHR ''=''" "(sp @ n) @ [CHR '','']" t] w by fastforce
      have v: "v = []" using d by (simp add: fnv Plain)
      have "parse_directives ?s = (n, []) # parse_directives t" using parse_plain [OF str_find_here [OF w(2)] e] trim by simp
      then show ?thesis by (simp add: fnv Plain r v)
    qed
  next
    case Token
    have v: "list_all token_char v" using d by (simp add: fnv Token)
    show ?thesis using parse_token [OF w(3,2) v rest] unfolding trim by (simp add: fnv Token)
  next
    case Quoted
    have v: "trimmed v" "CHR 0x22 \<notin> set v" using d by (auto simp: fnv Quoted list_all_iff)
    show ?thesis using parse_quoted [OF w(3,2) v rest] unfolding trim by (simp add: fnv Quoted)
  qed
qed

lemma parse_printed_list:
  assumes "list_all well_formed ds" "sp = [] \<or> sp = '' ''" "ds \<noteq> []"
  shows "parse_directives (sp @ join_values (map print_directive ds)) = map snd ds"
  using assms
proof (induction ds arbitrary: sp)
  case (Cons d ds)
  show ?case
  proof (cases ds)
    case Nil
    then show ?thesis using parse_printed [of d sp "[]"] Cons.prems by simp
  next
    case (Cons e es)
    have "parse_directives (sp @ print_directive d @ CHR '','' # '' '' @ join_values (map print_directive ds))
      = snd d # parse_directives ('' '' @ join_values (map print_directive ds))"
      using parse_printed [of d sp "CHR '','' # '' '' @ join_values (map print_directive ds)"] Cons.prems by simp
    then show ?thesis using Cons.IH [of "'' ''"] Cons.prems Cons by simp
  qed
qed simp

lemma separator_no_control: "\<not> isControlCharacter (CHR '','')" "\<not> isControlCharacter (CHR '' '')"
  "\<not> isControlCharacter (CHR ''='')" "\<not> isControlCharacter (CHR 0x22)"
  by (simp_all add: isControlCharacter_def code_def)

lemma print_no_control:
  assumes "well_formed d" "c \<in> set (print_directive d)"
  shows "\<not> isControlCharacter c"
  using assms separator_no_control by (cases d rule: print_directive.cases) (auto simp: list_all_iff token_char_def)

lemma join_set: "c \<in> set (join_values vs) \<Longrightarrow> (\<exists>v \<in> set vs. c \<in> set v) \<or> c = CHR '','' \<or> c = CHR '' ''"
  by (induction vs rule: join_values.induct) auto

lemma printed_no_control:
  assumes "list_all well_formed ds"
  shows "filter (\<lambda>c. \<not> isControlCharacter c) (join_values (map print_directive ds)) = join_values (map print_directive ds)"
proof -
  have "\<not> isControlCharacter c" if "c \<in> set (join_values (map print_directive ds))" for c
    using join_set [OF that] assms print_no_control separator_no_control by (auto simp: list_all_iff simp del: well_formed.simps)
  then show ?thesis by (auto simp: filter_id_conv)
qed

lemma parse_printed_header:
  assumes "list_all well_formed ds" "ds \<noteq> []"
  shows "parseCacheHeader (join_values (map print_directive ds)) = map snd ds"
  unfolding parseCacheHeader_def printed_no_control [OF assms(1)] using parse_printed_list [OF assms(1) _ assms(2), of "[]"] by simp


lemma join_values_append:
  "vs \<noteq> [] \<Longrightarrow> ws \<noteq> [] \<Longrightarrow> join_values (vs @ ws) = join_values vs @ '', '' @ join_values ws"
proof (induction vs rule: join_values.induct)
  case (2 v)
  then show ?case by (cases ws) simp_all
qed simp_all

lemma join_values_concat:
  "\<forall>vs \<in> set vss. vs \<noteq> [] \<Longrightarrow> join_values (map join_values vss) = join_values (concat vss)"
proof (induction vss)
  case (Cons vs vss)
  show ?case
  proof (cases vss)
    case (Cons ws wss)
    then have "concat vss \<noteq> []" using Cons.prems by simp
    then show ?thesis using Cons.IH Cons.prems join_values_append [of vs "concat vss"] Cons by simp
  qed simp
qed simp

section \<open>What the directives say\<close>

definition says :: "string \<Rightarrow> (string \<times> string) list \<Rightarrow> bool" where
  "says name ds \<longleftrightarrow> list_ex (\<lambda>d. equalIgnoringCase (fst d) name) ds"

definition says_no_cache :: "(string \<times> string) list \<Rightarrow> bool" where
  "says_no_cache ds \<longleftrightarrow> list_ex (\<lambda>d. equalIgnoringCase (fst d) ''no-cache'' \<and> snd d = []) ds"

definition max_ages :: "(string \<Rightarrow> double option) \<Rightarrow> (string \<times> string) list \<Rightarrow> double list" where
  "max_ages toDouble ds = filter (\<lambda>x. \<not> isnan x)
     (List.map_filter (\<lambda>d. if equalIgnoringCase (fst d) ''max-age'' then toDouble (snd d) else None) ds)"

lemma names_differ:
  "equalIgnoringCase n ''no-store'' \<Longrightarrow> \<not> equalIgnoringCase n ''no-cache'' \<and> \<not> equalIgnoringCase n ''must-revalidate'' \<and> \<not> equalIgnoringCase n ''max-age''"
  "equalIgnoringCase n ''no-cache'' \<Longrightarrow> \<not> equalIgnoringCase n ''must-revalidate'' \<and> \<not> equalIgnoringCase n ''max-age''"
  "equalIgnoringCase n ''must-revalidate'' \<Longrightarrow> \<not> equalIgnoringCase n ''max-age''"
  by (auto simp: equalIgnoringCase_def str_lower_def toASCIILower_def code_def)

lemma directives_no_store:
  "m_cacheControlContainsNoStore (foldl (apply_directive toDouble) r ds) \<longleftrightarrow> m_cacheControlContainsNoStore r \<or> says ''no-store'' ds"
  by (induction ds arbitrary: r) (auto simp: says_def apply_directive_def dest: names_differ split: option.split)

lemma directives_no_cache:
  "m_cacheControlContainsNoCache (foldl (apply_directive toDouble) r ds) \<longleftrightarrow> m_cacheControlContainsNoCache r \<or> says_no_cache ds"
  by (induction ds arbitrary: r) (auto simp: says_no_cache_def apply_directive_def dest: names_differ split: option.split)

lemma directives_must_revalidate:
  "m_cacheControlContainsMustRevalidate (foldl (apply_directive toDouble) r ds)
    \<longleftrightarrow> m_cacheControlContainsMustRevalidate r \<or> says ''must-revalidate'' ds"
  by (induction ds arbitrary: r) (auto simp: says_def apply_directive_def dest: names_differ split: option.split)

lemma directives_max_age_kept:
  "\<not> isnan (m_cacheControlMaxAge r) \<Longrightarrow> m_cacheControlMaxAge (foldl (apply_directive toDouble) r ds) = m_cacheControlMaxAge r"
  by (induction ds arbitrary: r) (auto simp: apply_directive_def split: option.split)

lemma directives_max_age:
  "isnan (m_cacheControlMaxAge r) \<Longrightarrow>
   (case max_ages toDouble ds of
      [] \<Rightarrow> isnan (m_cacheControlMaxAge (foldl (apply_directive toDouble) r ds))
    | x # _ \<Rightarrow> m_cacheControlMaxAge (foldl (apply_directive toDouble) r ds) = x)"
proof (induction ds arbitrary: r)
  case (Cons d ds)
  let ?age = "if equalIgnoringCase (fst d) ''max-age'' then toDouble (snd d) else None"
  let ?r = "apply_directive toDouble r d"
  show ?case
  proof (cases ?age)
    case None
    then have "m_cacheControlMaxAge ?r = m_cacheControlMaxAge r" by (auto simp: apply_directive_def split: if_splits)
    then show ?thesis using Cons.IH [of ?r] Cons.prems None unfolding foldl_Cons by (simp add: max_ages_def List.map_filter_simps)
  next
    case (Some x)
    then have m: "equalIgnoringCase (fst d) ''max-age''" "toDouble (snd d) = Some x" by (simp_all split: if_splits)
    then have age: "m_cacheControlMaxAge ?r = x" using Cons.prems names_differ by (auto simp: apply_directive_def)
    show ?thesis
    proof (cases "isnan x")
      case True
      then show ?thesis using Cons.IH [of ?r] age m unfolding foldl_Cons by (simp add: max_ages_def List.map_filter_simps)
    next
      case False
      then show ?thesis using directives_max_age_kept [of ?r toDouble ds] age m unfolding foldl_Cons by (simp add: max_ages_def List.map_filter_simps)
    qed
  qed
qed (simp add: max_ages_def List.map_filter_simps)

end
