(* ===== verification/ResponseCallbacks.thy ===== *)
theory ResponseCallbacks
  imports CacheManager AuthJar HTTPResponse
begin

text \<open>
  The callbacks through which libcurl reports a response (\<open>headerCallback\<close> and \<open>writeCallback\<close> of
  \<open>ResourceHandleManagerWKC.cpp\<close>) with the handling of redirections. A job is its record in
  \<open>JobQueue\<close>, which the queues use, and its \<open>transfer\<close>, the rest of its \<open>ResourceHandleInternal\<close>; the
  manager is that of \<open>JobQueue\<close> with the passwords and the proxy. A null C string is the empty one. What libcurl, the
  frame loader, the client and the platform answer is the argument \<open>e\<close>; a client may cancel the job from within
  each of its calls. The callbacks have an option type because they parse URLs; \<open>0\<close> makes libcurl give up.
  The options set on the transfer handle and the SSL bookkeeping are left out.
\<close>

section \<open>State\<close>

record challenge =
  ch_isNull :: bool
  ch_host :: string
  ch_port :: int
  ch_serverType :: ProtectionSpaceServerType
  ch_realm :: string
  ch_scheme :: ProtectionSpaceAuthenticationScheme
  ch_user :: string
  ch_password :: string

definition AuthenticationChallenge_new :: challenge where
  "AuthenticationChallenge_new =
     \<lparr>ch_isNull = True, ch_host = [], ch_port = 0, ch_serverType = ProtectionSpaceServerHTTP, ch_realm = [],
      ch_scheme = SchemeDefault, ch_user = [], ch_password = []\<rparr>"

record transfer =
  m_response :: http_response
  allowCookies :: bool
  targetIsXHR :: bool
  firstPartyForCookies :: "kurl option"
  m_isSynchronous :: bool
  m_isSSL :: bool
  m_SSLHandshaked :: bool
  m_sslReconnect :: bool
  m_urlhost :: string
  m_webAuthUser :: string
  m_webAuthPass :: string
  m_webAuthScheme :: ProtectionSpaceAuthenticationScheme
  m_webAuthRealm :: string
  m_webAuthURL :: string
  m_webAuthWellKnownWhenInitializeHandle :: bool
  m_webAuthCallengeTimes :: int
  m_proxyAuthUser :: string
  m_proxyAuthPass :: string
  m_proxyAuthScheme :: ProtectionSpaceAuthenticationScheme
  m_proxyAuthRealm :: string
  m_proxyAuthURL :: string
  m_proxyAuthWellKnownWhenInitializeHandle :: bool
  m_proxyAuthCallengeTimes :: int
  m_didAuthChallenge :: bool
  m_currentWebChallenge :: challenge
  m_doRedirectChallenge :: bool
  m_redirectMaxCount :: int
  m_recvData :: "byte list"
  m_receivedData :: "byte list"
  curl_webauth :: "answer option"
  curl_proxyauth :: "answer option"

definition ResourceHandleInternal_new :: "string \<Rightarrow> string \<Rightarrow> bool \<Rightarrow> bool \<Rightarrow> transfer" where
  \<comment> \<open>the user and password of the URL, and two settings of the request\<close>
  "ResourceHandleInternal_new user pass cookies xhr =
     \<lparr>m_response = ResourceResponse_new, allowCookies = cookies, targetIsXHR = xhr, firstPartyForCookies = None, m_isSynchronous = False,
      m_isSSL = False, m_SSLHandshaked = False, m_sslReconnect = False, m_urlhost = [],
      m_webAuthUser = user, m_webAuthPass = pass, m_webAuthScheme = SchemeUnknown, m_webAuthRealm = [], m_webAuthURL = [],
      m_webAuthWellKnownWhenInitializeHandle = False, m_webAuthCallengeTimes = 0,
      m_proxyAuthUser = [], m_proxyAuthPass = [], m_proxyAuthScheme = SchemeUnknown, m_proxyAuthRealm = [], m_proxyAuthURL = [],
      m_proxyAuthWellKnownWhenInitializeHandle = False, m_proxyAuthCallengeTimes = 0,
      m_didAuthChallenge = False, m_currentWebChallenge = AuthenticationChallenge_new, m_doRedirectChallenge = False, m_redirectMaxCount = 20,
      m_recvData = [], m_receivedData = [], curl_webauth = None, curl_proxyauth = None\<rparr>"

record 'w net =
  net_rhm :: "'w rhm"
  m_authJar :: auth_jar
  m_redirectInWKC :: bool
  m_proxy :: string
  m_proxyPort :: int
  transfers :: "jid \<Rightarrow> transfer"

definition upd_transfer :: "jid \<Rightarrow> (transfer \<Rightarrow> transfer) \<Rightarrow> 'w net \<Rightarrow> 'w net" where
  "upd_transfer j f n = n\<lparr>transfers := (transfers n)(j := f (transfers n j))\<rparr>"

definition upd_response :: "jid \<Rightarrow> (http_response \<Rightarrow> http_response) \<Rightarrow> 'w net \<Rightarrow> 'w net" where
  "upd_response j f = upd_transfer j (\<lambda>d. d\<lparr>m_response := f (m_response d)\<rparr>)"

definition upd_rhm :: "('w rhm \<Rightarrow> 'w rhm) \<Rightarrow> 'w net \<Rightarrow> 'w net" where
  "upd_rhm f n = n\<lparr>net_rhm := f (net_rhm n)\<rparr>"

abbreviation the_job :: "'w net \<Rightarrow> jid \<Rightarrow> job" where
  "the_job n j \<equiv> jobs (net_rhm n) j"

text \<open>
  What libcurl, the application, the frame loader, the client of the job and the platform answer in one call.
\<close>

record env =
  effective_url :: string
  response_code :: int
  connect_code :: int
  content_length :: int
  getinfo_ok :: bool
  loader_client :: bool
  dispatchWillReceiveData :: "nat \<Rightarrow> bool"
  willReceiveData :: "nat \<Rightarrow> bool"
  cancels_in :: "client_event \<Rightarrow> bool"
  getMIMETypeForPath :: "string \<Rightarrow> string"
  wkcGuessMIMETypeByContentPeer :: "byte list \<Rightarrow> string"
  encode_relative :: "string \<Rightarrow> string"

definition client_call :: "env \<Rightarrow> jid \<Rightarrow> client_event \<Rightarrow> 'w net \<Rightarrow> 'w net" where
  \<comment> \<open>the client, if there is one, may cancel the job before it returns\<close>
  "client_call e j ev n =
     (if \<not> m_client (the_job n j) then n
      else upd_rhm (\<lambda>m. if cancels_in e ev then cancel j (notify j ev m) else notify j ev m) n)"

section \<open>MIME types\<close>

definition KURL_lastPathComponent :: "kurl \<Rightarrow> nstring" where
  "KURL_lastPathComponent k =
     (if \<not> KURL_hasPath k then None
      else
        let end0 = m_pathEnd k - 1;
            end1 = (if char_at (m_string k) end0 = CHR ''/'' then end0 - 1 else end0)
        in case str_reverseFind (take (end1 + 1) (m_string k)) (CHR ''/'') of
             None \<Rightarrow> Some (substring (m_string k) 0 (end1 + 1))
           | Some start \<Rightarrow> if start < m_portEnd k then None else Some (substring (m_string k) (start + 1) (end1 - start)))"

definition guessMIMETypeByURL :: "env \<Rightarrow> kurl \<Rightarrow> int \<Rightarrow> bool \<Rightarrow> string" where
  "guessMIMETypeByURL e k httpCode isxhr =
     (if httpCode = 200 then
        let byPath = getMIMETypeForPath e (text_of (KURL_lastPathComponent k))
        in if byPath = ''application/octet-stream'' then
             (if \<not> KURL_hasPath k then ''text/html''
              else if text_of (KURL_lastPathComponent k) = [] then ''text/html''
              else if isxhr then byPath else [])
           else byPath
      else if httpCode < 200 \<or> httpCode = 204 \<or> httpCode = 205 \<or> httpCode = 304 then []
      else ''text/html'')"

section \<open>Authentication headers\<close>

fun scheme_num :: "ProtectionSpaceAuthenticationScheme \<Rightarrow> int" where
  "scheme_num SchemeDefault = 1"
| "scheme_num SchemeHTTPBasic = 2"
| "scheme_num SchemeHTTPDigest = 3"
| "scheme_num SchemeHTMLForm = 4"
| "scheme_num SchemeNTLM = 5"
| "scheme_num SchemeNegotiate = 6"
| "scheme_num SchemeClientCertificateRequested = 7"
| "scheme_num SchemeServerTrustEvaluationRequested = 8"
| "scheme_num SchemeUnknown = 100"


definition valueToScheme :: "string \<Rightarrow> ProtectionSpaceAuthenticationScheme" where
  "valueToScheme value =
     (if startsWith (str_lower value) ''ntlm'' then SchemeNTLM
      else if startsWith (str_lower value) ''digest'' then SchemeHTTPDigest
      else if startsWith (str_lower value) ''basic'' then SchemeHTTPBasic
      else SchemeDefault)"

definition AuthenticateHeaderDuplicate :: "http_response \<Rightarrow> string \<Rightarrow> string \<Rightarrow> bool" where
  "AuthenticateHeaderDuplicate r name value =
     (if equalIgnoringCase name ''WWW-Authenticate'' \<or> equalIgnoringCase name ''Proxy-Authenticate'' then
        let old_value = text_of (httpHeaderField r name); cur = valueToScheme value
        in (case valueToScheme old_value of
              SchemeDefault \<Rightarrow> cur \<noteq> SchemeDefault
            | SchemeHTTPBasic \<Rightarrow> scheme_num SchemeHTTPBasic < scheme_num cur
            | SchemeHTTPDigest \<Rightarrow> scheme_num SchemeHTTPDigest < scheme_num cur
            | SchemeNTLM \<Rightarrow> cur = SchemeNTLM
            | _ \<Rightarrow> False)
      else True)"

definition appendableHeaders :: "string list" where
  "appendableHeaders =
     [''access-control-allow-headers'', ''access-control-allow-methods'', ''access-control-allow-origin'',
      ''access-control-expose-headers'', ''allow'', ''cache-control'', ''connection'', ''content-encoding'',
      ''content-language'', ''if-match'', ''if-none-match'', ''keep-alive'', ''pragma'', ''proxy-authenticate'',
      ''public'', ''server'', ''te'', ''trailer'', ''transfer-encoding'', ''upgrade'', ''user-agent'', ''vary'',
      ''via'', ''warning'', ''www-authenticate'']"

definition isAppendableHeader :: "string \<Rightarrow> bool" where
  "isAppendableHeader key \<longleftrightarrow>
     startsWith (str_lower key) ''x-'' \<or> list_ex (equalIgnoringCase key) appendableHeaders"

definition unquote_realm :: "string \<Rightarrow> string" where
  "unquote_realm value =
     (let v1 = (if value \<noteq> [] \<and> hd value = CHR 0x22 then str_right value (length value - 1) else value)
      in if v1 \<noteq> [] \<and> last v1 = CHR 0x22 then str_left v1 (length v1 - 1) else v1)"

definition realm_of :: "string \<Rightarrow> string option" where
  \<comment> \<open>the turn of the loop for one element of the list\<close>
  "realm_of piece =
     (let items = str_split False (CHR ''='') piece in
      if length items < 2 then None
      else if str_lower (stripWhiteSpace (items ! 0)) \<noteq> ''realm'' then None
      else Some (unquote_realm (stripWhiteSpace (items ! 1 @ concat (map (Cons (CHR ''='')) (drop 2 items))))))"

fun first_realm :: "string list \<Rightarrow> string option" where
  "first_realm [] = None"
| "first_realm (p # ps) = (case realm_of p of Some v \<Rightarrow> Some v | None \<Rightarrow> first_realm ps)"

definition headerRealm :: "int \<Rightarrow> transfer \<Rightarrow> bool \<times> transfer" where
  "headerRealm httpCode d =
     (case httpHeaderField (m_response d) (if httpCode = 401 then ''WWW-Authenticate'' else ''Proxy-Authenticate'') of
        None \<Rightarrow> (False, d)
      | Some h0 \<Rightarrow>
          let h = stripWhiteSpace h0;
              pieces = (if startsWith (str_lower h) ''digest'' then str_split False (CHR '','') (str_right h (length h - 6))
                        else if startsWith (str_lower h) ''basic'' then [stripWhiteSpace (str_right h (length h - 5))]
                        else [])
          in case first_realm pieces of
               None \<Rightarrow> (False, d)
             | Some v \<Rightarrow> (True, if httpCode = 401 then d\<lparr>m_webAuthRealm := v\<rparr> else d\<lparr>m_proxyAuthRealm := v\<rparr>))"

section \<open>A redirection\<close>

definition KURL_hasPort :: "kurl \<Rightarrow> bool" where
  "KURL_hasPort k \<longleftrightarrow> m_hostEnd k < m_portEnd k"

definition hostAndPort :: "kurl \<Rightarrow> string" where
  \<comment> \<open>the buffer holds six characters of the port, which has at most five\<close>
  "hostAndPort k = (if KURL_hasPort k then KURL_host k @ '':'' @ take 6 (dec_string (KURL_port k)) else KURL_host k)"

definition redirected_method :: "int \<Rightarrow> string \<Rightarrow> string" where
  "redirected_method httpCode meth =
     (if httpCode = 301 \<or> httpCode = 302
      then (if equalIgnoringCase meth ''POST'' \<or> equalIgnoringCase meth ''PUT'' then ''GET'' else meth)
      else if httpCode = 303 then (if \<not> equalIgnoringCase meth ''GET'' then ''GET'' else meth)
      else meth)"

definition didReceiveRedirect :: "jid \<Rightarrow> kurl \<Rightarrow> 'w net \<Rightarrow> bool \<times> 'w net" where
  "didReceiveRedirect j newURL n =
     (let https = equalIgnoringCase (KURL_protocol newURL) ''https'' in
      if m_redirectInWKC n then
        let n1 = upd_rhm (upd_job j (\<lambda>d. d\<lparr>firstRequestURL := newURL, m_redirectCount := m_redirectCount d + 1\<rparr>)) n
        in if m_redirectMaxCount (transfers n j) < m_redirectCount (the_job n1 j) then (False, n1)
           else
             let n2 = upd_rhm (\<lambda>m. snd (removeRunningJob j (upd_job j (\<lambda>d. d\<lparr>d_url := [],
                        httpMethod := redirected_method (rs_httpStatusCode (m_response (transfers n j))) (httpMethod d)\<rparr>) m))) n1
             in (True, upd_transfer j (\<lambda>d. d\<lparr>m_urlhost := [], m_doRedirectChallenge := True,
                    m_isSSL := (https \<or> m_isSSL d), m_SSLHandshaked := (\<not> https \<and> m_SSLHandshaked d)\<rparr>) n2)
      else
        let m = net_rhm n;
            cached = (\<not> m_disabled (m_httpCache m) \<and> cachePolicy (jobs m j) \<noteq> ReloadIgnoringCacheData \<and>
              (case resourceForURL newURL (m_httpCache m) of
                 None \<Rightarrow> False
               | Some r \<Rightarrow> m_lastModifiedHeader (deref (m_httpCache m) r) \<noteq> [] \<or> m_eTagHeader (deref (m_httpCache m) r) \<noteq> []))
        in (True, upd_transfer j (\<lambda>d. d\<lparr>m_urlhost := hostAndPort newURL, m_isSSL := (https \<or> m_isSSL d),
                    m_SSLHandshaked := (\<not> https \<and> m_SSLHandshaked d)\<rparr>)
              (upd_rhm (upd_job j (\<lambda>d. d\<lparr>d_url := m_string newURL, m_utilizedHTTPCache := (cached \<or> m_utilizedHTTPCache d)\<rparr>)) n)))"

section \<open>The end of a header\<close>

definition fire_response :: "env \<Rightarrow> jid \<Rightarrow> nat \<Rightarrow> 'w net \<Rightarrow> nat \<times> 'w net" where
  "fire_response e j totalSize n =
     (if text_of (rs_mimeType (m_response (transfers n j))) = [] then (totalSize, n)
      else
        let n1 = client_call e j DidReceiveResponse n
        in if m_cancelled (the_job n1 j) then (0, n1)
           else (totalSize, upd_response j (\<lambda>r. r\<lparr>m_responseFired := True\<rparr>) n1))"

definition store_password :: "env \<Rightarrow> jid \<Rightarrow> string \<Rightarrow> 'w net \<Rightarrow> 'w net option" where
  \<comment> \<open>the password that was entered for the job is confirmed\<close>
  "store_password e j location n =
     (let d = transfers n j in
      if m_webAuthURL d = [] then Some n
      else map_option (\<lambda>jar. n\<lparr>m_authJar := jar\<rparr>)
             (setWebUserPassword (encode_relative e) (m_webAuthURL d) ProtectionSpaceServerHTTP (m_webAuthScheme d)
                (m_webAuthRealm d) (m_webAuthUser d) (m_webAuthPass d) location True (m_authJar n)))"

definition clear_redirect_headers :: "http_response \<Rightarrow> http_response" where
  "clear_redirect_headers r0 =
     (let r = setHTTPHeaderField ''Location'' None r0 in
      if text_of (httpHeaderField r ''X-Frame-Options'') \<noteq> [] then setHTTPHeaderField ''X-Frame-Options'' None r else r)"

definition before_redirect :: "env \<Rightarrow> jid \<Rightarrow> int \<Rightarrow> kurl \<Rightarrow> 'w net \<Rightarrow> 'w net" where
  "before_redirect e j httpCode newURL n0 =
     (let n = (if 0 < m_composition (the_job n0 j) then upd_transfer j (\<lambda>d. d\<lparr>firstPartyForCookies := Some newURL\<rparr>) n0 else n0)
      in if m_isSynchronous (transfers n j) then n
         else client_call e j (WillSendRequest newURL (redirected_method httpCode (httpMethod (the_job n j)))) n)"

definition follow_redirect :: "env \<Rightarrow> jid \<Rightarrow> nat \<Rightarrow> int \<Rightarrow> kurl \<Rightarrow> 'w net \<Rightarrow> nat \<times> 'w net" where
  "follow_redirect e j totalSize httpCode newURL n0 =
     (let n = before_redirect e j httpCode newURL n0 in
      if m_cancelled (the_job n j) then (0, n)
      else
        let (handled, n') = didReceiveRedirect j newURL
              (upd_rhm (upd_job j (\<lambda>d. d\<lparr>firstRequestURL := newURL\<rparr>)) (upd_response j clear_redirect_headers n))
        in if handled then (totalSize, n') else fire_response e j totalSize n')"

definition redirect :: "env \<Rightarrow> jid \<Rightarrow> nat \<Rightarrow> int \<Rightarrow> string \<Rightarrow> 'w net \<Rightarrow> (nat \<times> 'w net) option" where
  "redirect e j totalSize httpCode location n =
     Option.bind (KURL_init (encode_relative e) (firstRequestURL (the_job n j)) location) (\<lambda>newURL.
       map_option (follow_redirect e j totalSize httpCode newURL)
         (if httpCode < 304 then store_password e j location n else Some n))"

definition final_code :: "env \<Rightarrow> bool \<Rightarrow> int option" where
  \<comment> \<open>\<open>None\<close>: a tunnel has been set up and the header of the response is still to come\<close>
  "final_code e ssl =
     (if response_code e = 0 \<and> ssl then
        (if connect_code e = 200 then None
         else if connect_code e = 407 then Some 407
         else if 300 \<le> connect_code e \<and> connect_code e < 400 then Some 0
         else Some (connect_code e))
      else Some (response_code e))"

definition fill_response :: "env \<Rightarrow> bool \<Rightarrow> int \<Rightarrow> http_response \<Rightarrow> http_response" where
  "fill_response e isxhr httpCode r =
     (let contentType = text_of (httpHeaderField r ''Content-Type'');
          mime = str_lower (extractMIMETypeFromMediaType contentType)
      in r\<lparr>rs_expectedContentLength := content_length e,
           rs_mimeType := Some (if mime = [] then guessMIMETypeByURL e (rs_url r) httpCode isxhr else mime),
           rs_textEncodingName := Some (extractCharsetFromMediaType contentType),
           rs_suggestedFilename := filenameFromHTTPContentDisposition (text_of (httpHeaderField r ''Content-Disposition''))\<rparr>)"

definition isHTTP :: "http_response \<Rightarrow> bool" where
  "isHTTP r \<longleftrightarrow> equalIgnoringCase (KURL_protocol (rs_url r)) ''http'' \<or> equalIgnoringCase (KURL_protocol (rs_url r)) ''https''"

definition respond :: "env \<Rightarrow> jid \<Rightarrow> nat \<Rightarrow> int \<Rightarrow> 'w net \<Rightarrow> (nat \<times> 'w net) option" where
  "respond e j totalSize httpCode n =
     (if (httpCode = 401 \<or> httpCode = 407) \<and> isHTTP (m_response (transfers n j))
      then Some (totalSize, upd_transfer j (\<lambda>d. snd (headerRealm httpCode d)) n)
      else Option.bind (if httpCode < 300 then store_password e j [] n else Some n) (\<lambda>n'.
        let location = text_of (httpHeaderField (m_response (transfers n' j)) ''location'') in
        if 300 \<le> httpCode \<and> httpCode < 400 \<and> location \<noteq> [] then redirect e j totalSize httpCode location n'
        else Some (fire_response e j totalSize n')))"

definition end_of_header :: "env \<Rightarrow> jid \<Rightarrow> nat \<Rightarrow> 'w net \<Rightarrow> (nat \<times> 'w net) option" where
  "end_of_header e j totalSize n0 =
     Option.bind (KURL_parse (effective_url e)) (\<lambda>url.
       let n1 = upd_response j (\<lambda>r. r\<lparr>rs_url := url\<rparr>) n0 in
       case final_code e (m_isSSL (transfers n1 j)) of
         None \<Rightarrow> Some (totalSize, n1)
       | Some httpCode \<Rightarrow>
           let n2 = upd_response j (\<lambda>r. r\<lparr>rs_httpStatusCode := httpCode\<rparr>) n1 in
           if httpCode = 100 then Some (totalSize, n2)
           else respond e j totalSize httpCode
                  (upd_response j (fill_response e (targetIsXHR (transfers n2 j)) httpCode) n2))"

section \<open>One line of a header\<close>

definition hex_digit :: "int \<Rightarrow> char" where
  "hex_digit i = (if i < 10 then char_of (48 + i) else char_of (87 + i))"

definition header_text :: "byte list \<Rightarrow> string" where
  \<comment> \<open>bytes beyond ASCII are written \<open>%xx\<close>\<close>
  "header_text bs =
     concat (map (\<lambda>b. if uint b < 128 then [char_of (uint b)]
                      else [CHR ''%'', hex_digit (uint b div 16), hex_digit (uint b mod 16)]) bs)"

definition find_string :: "string \<Rightarrow> string \<Rightarrow> nat option" where
  "find_string s p = find (\<lambda>i. startsWith (drop i s) p) [0..<length s]"

definition set_status_text :: "env \<Rightarrow> string \<Rightarrow> http_response \<Rightarrow> http_response option" where
  \<comment> \<open>\<open>snprintf\<close> leaves two characters of the code in the buffer of four but returns the length of all of it\<close>
  "set_status_text e header r =
     (if \<not> getinfo_ok e then Some r
      else
        let s = dec_string (response_code e); len = length s in
        if 3 < len then None
        else case find_string header (take 2 s) of
               None \<Rightarrow> Some r
             | Some pos \<Rightarrow> Some (r\<lparr>m_httpStatusText := Some (stripWhiteSpace (drop (pos + len) header))\<rparr>))"

definition status_line :: "env \<Rightarrow> jid \<Rightarrow> string \<Rightarrow> 'w net \<Rightarrow> 'w net option" where
  "status_line e j header n =
     (let n1 = (if m_isSSL (transfers n j) \<and> loader_client e
                  \<and> (response_code e \<noteq> 0
                     \<or> connect_code e \<noteq> 0 \<and> connect_code e \<noteq> 407 \<and> find_ignoring_case header ''Connection established'' 0 = None)
                then upd_transfer j (\<lambda>d. d\<lparr>m_SSLHandshaked := True\<rparr>) n else n)
      in map_option (\<lambda>r. upd_response j (\<lambda>_. r) n1) (set_status_text e header (m_response (transfers n1 j))))"

definition store_field :: "string \<times> string \<Rightarrow> http_response \<Rightarrow> http_response" where
  "store_field nv r =
     (if isAppendableHeader (fst nv) then addHTTPHeaderField (fst nv) (snd nv) r
      else setHTTPHeaderField (fst nv) (Some (snd nv)) r)"

definition accept_field :: "string \<times> string \<Rightarrow> http_response \<Rightarrow> http_response" where
  "accept_field nv r = (if AuthenticateHeaderDuplicate r (fst nv) (snd nv) then store_field nv r else r)"

definition split_line :: "string \<Rightarrow> (string \<times> string) option" where
  "split_line header =
     map_option (\<lambda>splitPos. (str_left header splitPos, stripWhiteSpace (drop (splitPos + 1) header))) (str_find header (CHR '':''))"

definition header_line :: "env \<Rightarrow> jid \<Rightarrow> string \<Rightarrow> 'w net \<Rightarrow> 'w net option" where
  "header_line e j header n =
     (case split_line header of
        Some nv \<Rightarrow> Some (upd_response j (accept_field nv) n)
      | None \<Rightarrow> if find_ignoring_case header ''HTTP/'' 0 \<noteq> None then status_line e j header n else Some n)"

definition may_receive :: "env \<Rightarrow> jid \<Rightarrow> nat \<Rightarrow> 'w net \<Rightarrow> bool" where
  "may_receive e j k n \<longleftrightarrow>
     (loader_client e \<longrightarrow> dispatchWillReceiveData e k) \<and> (m_client (the_job n j) \<longrightarrow> willReceiveData e k)"

definition headerCallback :: "env \<Rightarrow> jid \<Rightarrow> byte list \<Rightarrow> 'w net \<Rightarrow> (nat \<times> 'w net) option" where
  "headerCallback e j ptr n =
     (let totalSize = length ptr; header = header_text ptr in
      if m_cancelled (the_job n j) then Some (0, n)
      else if \<not> may_receive e j totalSize n then Some (0, n)
      else if header = [CHR 0x0D, CHR 0x0A] \<or> header = [CHR 0x0A] then end_of_header e j totalSize n
      else map_option (Pair totalSize) (header_line e j header n))"

section \<open>The body\<close>

definition DATA_KEEP_LENGTH :: nat where
  "DATA_KEEP_LENGTH = 512"

definition handleLocalReceiveResponse :: "env \<Rightarrow> jid \<Rightarrow> 'w net \<Rightarrow> 'w net option" where
  "handleLocalReceiveResponse e j n =
     map_option (\<lambda>url.
       let n1 = upd_response j (\<lambda>r.
             let r1 = r\<lparr>rs_url := url\<rparr>;
                 mime = str_lower (extractMIMETypeFromMediaType (text_of (httpHeaderField r1 ''Content-Type'')))
             in if text_of (rs_mimeType r1) \<noteq> [] then r1
                else r1\<lparr>rs_mimeType := Some (if mime = [] then guessMIMETypeByURL e url (response_code e) False else mime)\<rparr>) n;
           n2 = client_call e j DidReceiveResponse n1
       in if m_cancelled (the_job n2 j) then n2 else upd_response j (\<lambda>r. r\<lparr>m_responseFired := True\<rparr>) n2)
     (KURL_parse (effective_url e))"

definition deliver_kept :: "env \<Rightarrow> jid \<Rightarrow> 'w net \<Rightarrow> bool \<times> 'w net" where
  \<comment> \<open>the data kept to guess the type; False: the callback returns 0\<close>
  "deliver_kept e j n =
     (let kept = m_recvData (transfers n j) in
      if kept = [] then (True, n)
      else if \<not> may_receive e j (length kept) n then (False, n)
      else
        let n1 = client_call e j (DidReceiveData kept) n
        in if m_cancelled (the_job n1 j) then (False, n1)
           else (True, upd_transfer j (\<lambda>d. d\<lparr>m_recvData := []\<rparr>) n1))"

definition deliver_data :: "env \<Rightarrow> jid \<Rightarrow> nat \<Rightarrow> byte list \<Rightarrow> 'w net \<Rightarrow> nat \<times> 'w net" where
  "deliver_data e j totalSize ptr n =
     (if ptr \<noteq> [] \<and> loader_client e \<and> \<not> dispatchWillReceiveData e (length ptr) then (0, n)
      else if m_client (the_job n j) \<and> \<not> willReceiveData e (length ptr) then (0, n)
      else
        let n1 = (if ptr \<noteq> [] then client_call e j (DidReceiveData ptr) n else n)
        in if m_cancelled (the_job n1 j) then (0, n1) else (totalSize, n1))"

definition unlabelled_response :: "env \<Rightarrow> jid \<Rightarrow> byte list \<Rightarrow> 'w net \<Rightarrow> 'w net" where
  "unlabelled_response e j ptr n =
     (let n1 = client_call e j DidReceiveResponse (upd_response j (\<lambda>r. r
           \<lparr>rs_httpStatusCode := 200, rs_url := firstRequestURL (the_job n j), rs_expectedContentLength := 0,
            rs_textEncodingName := None, rs_suggestedFilename := None,
            rs_mimeType := Some (wkcGuessMIMETypeByContentPeer e ptr)\<rparr>) n)
      in if m_cancelled (the_job n1 j) then n1 else upd_response j (\<lambda>r. r\<lparr>m_responseFired := True\<rparr>) n1)"

definition begin_body :: "env \<Rightarrow> jid \<Rightarrow> byte list \<Rightarrow> 'w net \<Rightarrow> byte list option \<times> 'w net" where
  \<comment> \<open>the type is guessed from the first data; \<open>None\<close>: it has to wait for more\<close>
  "begin_body e j ptr n =
     (let kept = m_recvData (transfers n j);
          len = min (length ptr) (DATA_KEEP_LENGTH - length kept);
          kept1 = kept @ take len ptr;
          n1 = upd_transfer j (\<lambda>d. d\<lparr>m_recvData := kept1\<rparr>) n;
          mime = wkcGuessMIMETypeByContentPeer e kept1
      in if mime = [] \<and> length kept1 < DATA_KEEP_LENGTH
            \<and> int (length kept1) < rs_expectedContentLength (m_response (transfers n j)) then (None, n1)
         else (Some (drop len ptr), upd_response j (\<lambda>r. r\<lparr>rs_mimeType :=
                      Some (if mime = [] then ''application/octet-stream'' else mime)\<rparr>) n1))"

definition receive_body :: "env \<Rightarrow> jid \<Rightarrow> byte list \<Rightarrow> 'w net \<Rightarrow> (nat \<times> 'w net) option" where
  "receive_body e j ptr n =
     (let r = m_response (transfers n j); totalSize = length ptr in
      if m_responseFired r then Some (deliver_data e j totalSize ptr n)
      else
        let (rest, n1) = (if text_of (rs_mimeType r) = [] then begin_body e j ptr n else (Some ptr, n))
        in case rest of
             None \<Rightarrow> Some (totalSize, n1)
           | Some ptr' \<Rightarrow>
               map_option (\<lambda>n2.
                 if m_cancelled (the_job n2 j) then (0, n2)
                 else let (ok, n3) = deliver_kept e j n2
                      in if ok then deliver_data e j totalSize ptr' n3 else (0, n3))
               (handleLocalReceiveResponse e j n1))"

definition writeCallback :: "env \<Rightarrow> jid \<Rightarrow> byte list \<Rightarrow> 'w net \<Rightarrow> (nat \<times> 'w net) option" where
  "writeCallback e j ptr n =
     (let d = transfers n j; httpCode = response_code e; totalSize = length ptr in
      if m_cancelled (the_job n j) then Some (0, n)
      else if 100 \<le> httpCode \<and> httpCode < 200 then Some (0, n)
      else if 300 \<le> httpCode \<and> httpCode < 400 then
        (if m_doRedirectChallenge d then Some (totalSize, n)
         else if m_responseFired (m_response d) then receive_body e j ptr n
         else let n1 = unlabelled_response e j ptr n
              in if m_cancelled (the_job n1 j) then Some (0, n1) else receive_body e j ptr n1)
      else if httpCode = 401 \<or> httpCode = 407
      then Some (totalSize, upd_transfer j (\<lambda>d. d\<lparr>m_receivedData := m_receivedData d @ ptr\<rparr>) n)
      else receive_body e j ptr n)"

section \<open>Views\<close>

lemma transfer_simps [simp]:
  "transfers (upd_transfer j f n) = (transfers n)(j := f (transfers n j))"
  "net_rhm (upd_transfer j f n) = net_rhm n"
  "m_authJar (upd_transfer j f n) = m_authJar n"
  "transfers (upd_response j g n) = (transfers n)(j := (transfers n j)\<lparr>m_response := g (m_response (transfers n j))\<rparr>)"
  "net_rhm (upd_response j g n) = net_rhm n"
  "m_authJar (upd_response j g n) = m_authJar n"
  "transfers (upd_rhm h n) = transfers n"
  "net_rhm (upd_rhm h n) = h (net_rhm n)"
  "m_authJar (upd_rhm h n) = m_authJar n"
  by (simp_all add: upd_transfer_def upd_response_def upd_rhm_def)

lemma client_call_transfers [simp]: "transfers (client_call e j ev n) = transfers n"
  by (simp add: client_call_def)

text \<open>The data a client has been given.\<close>

fun data_of :: "client_event \<Rightarrow> byte list" where
  "data_of (DidReceiveData bs) = bs"
| "data_of _ = []"

definition delivered :: "jid \<Rightarrow> 'w net \<Rightarrow> byte list" where
  "delivered j n = concat (map (data_of \<circ> snd) (filter (\<lambda>x. fst x = j) (notified (net_rhm n))))"

lemma notified_cancel [simp]: "notified (cancel j m) = notified m"
  by (simp add: cancel_def removeScheduledJob_def deref_job_def upd_job_def Let_def)

lemma client_cancel [simp]: "m_client (jobs (cancel j m) i) = m_client (jobs m i)"
  by (simp add: cancel_def removeScheduledJob_def deref_job_def upd_job_def Let_def)

lemma delivered_call:
  "m_client (the_job n j) \<Longrightarrow> delivered j (client_call e j ev n) = delivered j n @ data_of ev"
  by (simp add: delivered_def client_call_def upd_rhm_def notify_def)

lemma client_after_call [simp]: "m_client (the_job (client_call e j ev n) i) = m_client (the_job n i)"
  by (simp add: client_call_def upd_rhm_def notify_def)

lemma delivered_upd [simp]:
  "delivered j (upd_transfer i f n) = delivered j n" "delivered j (upd_response i g n) = delivered j n"
  by (simp_all add: delivered_def)

definition body_inv :: "jid \<Rightarrow> 'w net \<Rightarrow> bool" where
  \<comment> \<open>data is kept only before the response has been reported, and less than is announced\<close>
  "body_inv j n \<longleftrightarrow> m_client (the_job n j)
     \<and> (m_recvData (transfers n j) \<noteq> [] \<longrightarrow>
          \<not> m_responseFired (m_response (transfers n j))
          \<and> length (m_recvData (transfers n j)) < DATA_KEEP_LENGTH
          \<and> int (length (m_recvData (transfers n j))) < rs_expectedContentLength (m_response (transfers n j)))"

definition body_of :: "jid \<Rightarrow> 'w net \<Rightarrow> byte list" where
  "body_of j n = delivered j n @ m_recvData (transfers n j)"

lemma deliver_data_body:
  assumes "deliver_data e j k ptr n = (r, n')" "r \<noteq> 0" "m_client (the_job n j)"
  shows "delivered j n' = delivered j n @ ptr \<and> transfers n' = transfers n \<and> m_client (the_job n' j) \<and> r = k"
  using assms by (auto simp: deliver_data_def Let_def delivered_call split: if_splits)

lemma deliver_kept_body:
  assumes "deliver_kept e j n = (True, n')" "m_client (the_job n j)"
  shows "delivered j n' = body_of j n \<and> m_recvData (transfers n' j) = [] \<and> m_client (the_job n' j)
    \<and> m_response (transfers n' j) = m_response (transfers n j)"
  using assms by (auto simp: deliver_kept_def Let_def delivered_call body_of_def split: if_splits)

lemma local_response_body:
  assumes "handleLocalReceiveResponse e j n = Some n'" "\<not> m_cancelled (the_job n' j)" "m_client (the_job n j)"
  shows "delivered j n' = delivered j n \<and> m_recvData (transfers n' j) = m_recvData (transfers n j)
    \<and> m_client (the_job n' j) \<and> m_responseFired (m_response (transfers n' j))"
proof -
  obtain g where n': "n' = (let n2 = client_call e j DidReceiveResponse (upd_response j g n)
      in if m_cancelled (the_job n2 j) then n2 else upd_response j (\<lambda>r. r\<lparr>m_responseFired := True\<rparr>) n2)"
    using assms(1) unfolding handleLocalReceiveResponse_def by (auto simp: Let_def)
  then have "n' = upd_response j (\<lambda>r. r\<lparr>m_responseFired := True\<rparr>) (client_call e j DidReceiveResponse (upd_response j g n))"
    using assms(2) by (metis (full_types))
  then show ?thesis using assms(3) by (simp add: delivered_call)
qed

lemma begin_body_split:
  assumes "begin_body e j ptr n = (rest, n')" "length (m_recvData (transfers n j)) \<le> DATA_KEEP_LENGTH"
  shows "m_recvData (transfers n' j) @ (case rest of None \<Rightarrow> [] | Some p \<Rightarrow> p) = m_recvData (transfers n j) @ ptr"
    and "net_rhm n' = net_rhm n"
    and "m_responseFired (m_response (transfers n' j)) = m_responseFired (m_response (transfers n j))"
    and "rest = None \<Longrightarrow> length (m_recvData (transfers n' j)) < DATA_KEEP_LENGTH
      \<and> int (length (m_recvData (transfers n' j))) < rs_expectedContentLength (m_response (transfers n' j))"
proof -
  let ?k = "m_recvData (transfers n j)"
  define len where "len = min (length ptr) (DATA_KEEP_LENGTH - length ?k)"
  define wait where "wait \<longleftrightarrow> wkcGuessMIMETypeByContentPeer e (?k @ take len ptr) = [] \<and> length (?k @ take len ptr) < DATA_KEEP_LENGTH
    \<and> int (length (?k @ take len ptr)) < rs_expectedContentLength (m_response (transfers n j))"
  obtain g where n': "(rest, n') = (let n1 = upd_transfer j (\<lambda>d. d\<lparr>m_recvData := ?k @ take len ptr\<rparr>) n in
      if wait then (None, n1) else (Some (drop len ptr), upd_response j (\<lambda>r. r\<lparr>rs_mimeType := g\<rparr>) n1))"
    using assms(1) unfolding begin_body_def Let_def len_def wait_def by metis
  show "m_recvData (transfers n' j) @ (case rest of None \<Rightarrow> [] | Some p \<Rightarrow> p) = ?k @ ptr"
  proof (cases wait)
    case True
    then have "length ptr \<le> len" unfolding wait_def len_def by (auto simp: min_def split: if_splits)
    then show ?thesis using n' True by simp
  qed (use n' in simp)
  show "net_rhm n' = net_rhm n" "m_responseFired (m_response (transfers n' j)) = m_responseFired (m_response (transfers n j))"
    using n' by (simp_all add: Let_def split: if_splits)
  show "length (m_recvData (transfers n' j)) < DATA_KEEP_LENGTH
      \<and> int (length (m_recvData (transfers n' j))) < rs_expectedContentLength (m_response (transfers n' j))" if "rest = None"
    using n' that by (simp add: Let_def wait_def split: if_splits)
qed

lemma receive_body_step:
  assumes "receive_body e j ptr n = Some (r, n')" "r \<noteq> 0" "body_inv j n"
  shows "body_inv j n' \<and> body_of j n' = body_of j n @ ptr"
proof -
  let ?d = "transfers n j"
  have c: "m_client (the_job n j)" using assms(3) by (simp add: body_inv_def)
  show ?thesis
  proof (cases "m_responseFired (m_response ?d)")
    case True
    then have "m_recvData ?d = []" using assms(3) by (auto simp: body_inv_def)
    moreover have "deliver_data e j (length ptr) ptr n = (r, n')" using assms(1) True by (simp add: receive_body_def)
    ultimately show ?thesis using deliver_data_body [OF _ assms(2) c] by (auto simp: body_inv_def body_of_def)
  next
    case False
    define b where "b = (if text_of (rs_mimeType (m_response ?d)) = [] then begin_body e j ptr n else (Some ptr, n))"
    obtain rest n1 where b1: "b = (rest, n1)" by (cases b)
    have "length (m_recvData ?d) \<le> DATA_KEEP_LENGTH" using assms(3) by (cases "m_recvData ?d = []") (auto simp: body_inv_def)
    note split = begin_body_split [OF _ this]
    have kept: "m_recvData (transfers n1 j) @ (case rest of None \<Rightarrow> [] | Some p \<Rightarrow> p) = m_recvData ?d @ ptr"
      and rhm: "net_rhm n1 = net_rhm n" and fired: "\<not> m_responseFired (m_response (transfers n1 j))"
      and wait: "rest = None \<Longrightarrow> length (m_recvData (transfers n1 j)) < DATA_KEEP_LENGTH
        \<and> int (length (m_recvData (transfers n1 j))) < rs_expectedContentLength (m_response (transfers n1 j))"
      using b1 split [of e ptr rest n1] False unfolding b_def by (auto split: if_splits)
    have deliv: "delivered j n1 = delivered j n" using rhm by (simp add: delivered_def)
    have res: "Some (r, n') = (case rest of None \<Rightarrow> Some (length ptr, n1)
        | Some ptr' \<Rightarrow> map_option (\<lambda>n2. if m_cancelled (the_job n2 j) then (0, n2)
            else let (ok, n3) = deliver_kept e j n2 in if ok then deliver_data e j (length ptr) ptr' n3 else (0, n3))
          (handleLocalReceiveResponse e j n1))"
      using assms(1) False b1 unfolding receive_body_def b_def by (simp add: Let_def)
    show ?thesis
    proof (cases rest)
      case None
      then show ?thesis using res kept rhm fired wait deliv c by (auto simp: body_inv_def body_of_def)
    next
      case (Some ptr')
      from res Some obtain n2 where n2: "handleLocalReceiveResponse e j n1 = Some n2"
        by (cases "handleLocalReceiveResponse e j n1") simp_all
      obtain ok n3 where k: "deliver_kept e j n2 = (ok, n3)" by (cases "deliver_kept e j n2")
      have nc: "\<not> m_cancelled (the_job n2 j)" and ok: ok and d: "deliver_data e j (length ptr) ptr' n3 = (r, n')"
        using res Some n2 k assms(2) by (auto split: if_splits)
      have c1: "m_client (the_job n1 j)" using c rhm by simp
      note l = local_response_body [OF n2 nc c1]
      note dk = deliver_kept_body [of e j n2 n3] and dd = deliver_data_body [OF d assms(2)]
      have "delivered j n' = delivered j n1 @ m_recvData (transfers n1 j) @ ptr'"
        and "m_recvData (transfers n' j) = []" "m_client (the_job n' j)"
        using l dk dd k ok by (auto simp: body_of_def)
      then show ?thesis using kept deliv Some by (simp add: body_inv_def body_of_def)
    qed
  qed
qed

definition body_code :: "int \<Rightarrow> bool" where
  \<comment> \<open>neither provisional nor a redirection nor a challenge\<close>
  "body_code c \<longleftrightarrow> \<not> (100 \<le> c \<and> c < 200) \<and> \<not> (300 \<le> c \<and> c < 400) \<and> c \<noteq> 401 \<and> c \<noteq> 407"

text \<open>libcurl hands over the body in pieces, and gives up when a call does not take all of its piece.\<close>

fun receive_chunks :: "jid \<Rightarrow> (env \<times> byte list) list \<Rightarrow> 'w net \<Rightarrow> 'w net option" where
  "receive_chunks j [] n = Some n"
| "receive_chunks j ((e, ptr) # cs) n =
     (case writeCallback e j ptr n of
        None \<Rightarrow> None
      | Some (r, n') \<Rightarrow> if r = length ptr then receive_chunks j cs n' else None)"

lemma receive_chunks_body:
  assumes "receive_chunks j cs n = Some n'" "body_inv j n" "list_all (\<lambda>(e, ptr). ptr \<noteq> [] \<and> body_code (response_code e)) cs"
  shows "body_inv j n' \<and> body_of j n' = body_of j n @ concat (map snd cs)"
  using assms
proof (induction j cs n rule: receive_chunks.induct)
  case (2 j e ptr cs n)
  from 2(2) obtain n1 where n1: "writeCallback e j ptr n = Some (length ptr, n1)" and rest: "receive_chunks j cs n1 = Some n'"
    by (auto split: option.splits if_splits)
  have "ptr \<noteq> []" "body_code (response_code e)" using 2(4) by auto
  then have "receive_body e j ptr n = Some (length ptr, n1)" using n1 by (auto simp: writeCallback_def body_code_def Let_def split: if_splits)
  from receive_body_step [OF this _ 2(3)] \<open>ptr \<noteq> []\<close> have "body_inv j n1" "body_of j n1 = body_of j n @ ptr" by simp_all
  then show ?case using 2(1) [OF n1 refl refl] rest 2(4) by auto
qed simp


definition accepting :: "env \<Rightarrow> bool" where
  "accepting e \<longleftrightarrow> (\<forall>k. dispatchWillReceiveData e k \<and> willReceiveData e k) \<and> (\<forall>ev. \<not> cancels_in e ev)
     \<and> KURL_parse (effective_url e) \<noteq> None"

lemma accepting_call: "accepting e \<Longrightarrow> m_cancelled (the_job (client_call e j ev n) i) = m_cancelled (the_job n i)"
  by (simp add: accepting_def client_call_def notify_def)

lemma accepting_receive: "accepting e \<Longrightarrow> may_receive e j k n"
  by (simp add: accepting_def may_receive_def)

lemma accepting_data:
  "accepting e \<Longrightarrow> \<not> m_cancelled (the_job n j) \<Longrightarrow> \<exists>n'. deliver_data e j k ptr n = (k, n') \<and> \<not> m_cancelled (the_job n' j)"
  using accepting_call [of e j "DidReceiveData ptr" n j] by (auto simp: deliver_data_def Let_def accepting_def)

lemma accepting_kept:
  "accepting e \<Longrightarrow> \<not> m_cancelled (the_job n j) \<Longrightarrow> \<exists>n'. deliver_kept e j n = (True, n') \<and> \<not> m_cancelled (the_job n' j)"
  by (auto simp: deliver_kept_def Let_def accepting_receive accepting_call)

lemma accepting_local:
  "accepting e \<Longrightarrow> \<not> m_cancelled (the_job n j) \<Longrightarrow> \<exists>n'. handleLocalReceiveResponse e j n = Some n' \<and> \<not> m_cancelled (the_job n' j)"
  by (auto simp: handleLocalReceiveResponse_def Let_def accepting_call accepting_def)


lemma begin_body_rhm: "net_rhm (snd (begin_body e j ptr n)) = net_rhm n"
  by (simp add: begin_body_def Let_def)

lemma accepting_body:
  assumes "accepting e" "\<not> m_cancelled (the_job n j)"
  shows "\<exists>n'. receive_body e j ptr n = Some (length ptr, n') \<and> \<not> m_cancelled (the_job n' j)"
proof (cases "m_responseFired (m_response (transfers n j))")
  case True
  then show ?thesis using accepting_data [OF assms] by (simp add: receive_body_def)
next
  case False
  obtain rest n1 where b: "(if text_of (rs_mimeType (m_response (transfers n j))) = [] then begin_body e j ptr n else (Some ptr, n)) = (rest, n1)"
    by (metis surj_pair)
  have c1: "\<not> m_cancelled (the_job n1 j)" using b assms(2) begin_body_rhm [of e j ptr n] by (auto split: if_splits)
  show ?thesis
  proof (cases rest)
    case None
    then show ?thesis using b c1 False by (simp add: receive_body_def)
  next
    case (Some ptr')
    obtain n2 where n2: "handleLocalReceiveResponse e j n1 = Some n2" "\<not> m_cancelled (the_job n2 j)"
      using accepting_local [OF assms(1) c1] by blast
    obtain n3 where n3: "deliver_kept e j n2 = (True, n3)" "\<not> m_cancelled (the_job n3 j)"
      using accepting_kept [OF assms(1) n2(2)] by blast
    show ?thesis using accepting_data [OF assms(1) n3(2), of "length ptr" ptr'] b Some n2 n3 False by (simp add: receive_body_def)
  qed
qed

lemma accepting_chunks:
  assumes "list_all (\<lambda>(e, ptr). accepting e \<and> body_code (response_code e)) cs" "\<not> m_cancelled (the_job n j)"
  shows "\<exists>n'. receive_chunks j cs n = Some n'"
  using assms
proof (induction cs arbitrary: n)
  case (Cons c cs)
  obtain e ptr where c: "c = (e, ptr)" by (cases c)
  have "accepting e" "body_code (response_code e)" using Cons.prems(1) c by auto
  then have "\<exists>n'. writeCallback e j ptr n = Some (length ptr, n') \<and> \<not> m_cancelled (the_job n' j)"
    using accepting_body [of e n j ptr] Cons.prems(2) by (auto simp: writeCallback_def body_code_def)
  then show ?case using Cons.IH Cons.prems(1) c by auto
qed simp

section \<open>The lines of a header\<close>

fun receive_header :: "jid \<Rightarrow> (env \<times> byte list) list \<Rightarrow> 'w net \<Rightarrow> 'w net option" where
  "receive_header j [] n = Some n"
| "receive_header j ((e, ptr) # ls) n =
     (case headerCallback e j ptr n of
        None \<Rightarrow> None
      | Some (r, n') \<Rightarrow> if r = length ptr then receive_header j ls n' else None)"

definition field_of :: "env \<times> byte list \<Rightarrow> string \<times> string" where
  "field_of l = the (split_line (header_text (snd l)))"

definition field_line :: "env \<times> byte list \<Rightarrow> bool" where
  "field_line l \<longleftrightarrow> accepting (fst l) \<and> split_line (header_text (snd l)) \<noteq> None"

lemma split_line_text: "split_line t \<noteq> None \<Longrightarrow> t \<noteq> [CHR 0x0D, CHR 0x0A] \<and> t \<noteq> [CHR 0x0A]"
  by (auto simp: split_line_def str_find_def)

lemma field_line_step:
  assumes "field_line (e, ptr)" "\<not> m_cancelled (the_job n j)"
  shows "headerCallback e j ptr n = Some (length ptr, upd_response j (accept_field (field_of (e, ptr))) n)"
  using assms split_line_text [of "header_text ptr"]
  by (auto simp: headerCallback_def header_line_def field_line_def field_of_def accepting_receive Let_def)

lemma receive_fields:
  assumes "list_all field_line ls" "\<not> m_cancelled (the_job n j)"
  shows "\<exists>n'. receive_header j ls n = Some n' \<and> net_rhm n' = net_rhm n
    \<and> m_response (transfers n' j) = fold accept_field (map field_of ls) (m_response (transfers n j))"
  using assms
proof (induction ls arbitrary: n)
  case (Cons l ls)
  obtain e ptr where l: "l = (e, ptr)" by (cases l)
  let ?n = "upd_response j (accept_field (field_of l)) n"
  have step: "headerCallback e j ptr n = Some (length ptr, ?n)" using field_line_step [of e ptr n j] Cons.prems l by simp
  have "\<exists>n'. receive_header j ls ?n = Some n' \<and> net_rhm n' = net_rhm ?n
    \<and> m_response (transfers n' j) = fold accept_field (map field_of ls) (m_response (transfers ?n j))"
    using Cons.IH [of ?n] Cons.prems by simp
  then show ?case using step l by auto
qed simp

definition is_challenge :: "string \<Rightarrow> bool" where
  "is_challenge name \<longleftrightarrow> equalIgnoringCase name ''WWW-Authenticate'' \<or> equalIgnoringCase name ''Proxy-Authenticate''"

lemma accept_other: "\<not> is_challenge (fst nv) \<Longrightarrow> accept_field nv = store_field nv"
  by (auto simp: accept_field_def AuthenticateHeaderDuplicate_def is_challenge_def)

lemma store_field_line: "store_field = line_with (\<lambda>n v. setHTTPHeaderField n (Some v)) addHTTPHeaderField isAppendableHeader"
  by (auto simp: store_field_def line_with_def fun_eq_iff)

lemma fold_accept_other: "list_all (\<lambda>nv. \<not> is_challenge (fst nv)) nvs \<Longrightarrow> fold accept_field nvs r = fold store_field nvs r"
  by (induction nvs arbitrary: r) (simp_all add: accept_other)

lemma appendable_same: "equalIgnoringCase n k \<Longrightarrow> isAppendableHeader n \<longleftrightarrow> isAppendableHeader k"
  by (simp add: isAppendableHeader_def equalIgnoringCase_def [abs_def])

lemma folded_field:
  assumes "list_all (\<lambda>nv. \<not> is_challenge (fst nv)) nvs" "\<not> header_present r k"
  shows "httpHeaderField (fold accept_field nvs r) k =
    (let vs = values_with equalIgnoringCase k nvs in
     if vs = [] then None else Some (if isAppendableHeader k then join_values vs else last vs))"
  unfolding fold_accept_other [OF assms(1)] store_field_line
  by (rule fields.field_lines [OF appendable_same assms(2)])


section \<open>The strongest challenge does not win\<close>

definition challenge_field :: "string \<Rightarrow> bool" where
  "challenge_field k \<longleftrightarrow> k = ''WWW-Authenticate'' \<or> k = ''Proxy-Authenticate''"

lemma challenge_names: "challenge_field k \<Longrightarrow> isAppendableHeader k"
proof -
  have "isAppendableHeader ''WWW-Authenticate''" "isAppendableHeader ''Proxy-Authenticate''" by code_simp+
  then show "challenge_field k \<Longrightarrow> isAppendableHeader k" by (auto simp: challenge_field_def)
qed

lemma scheme_append: "valueToScheme v \<noteq> SchemeDefault \<Longrightarrow> valueToScheme (v @ w) = valueToScheme v"
  by (auto simp: valueToScheme_def startsWith_def str_lower_def split: if_splits)

definition first_scheme :: "string list \<Rightarrow> ProtectionSpaceAuthenticationScheme" where
  "first_scheme vs = (case filter (\<lambda>s. s \<noteq> SchemeDefault) (map valueToScheme vs) of [] \<Rightarrow> SchemeDefault | s # _ \<Rightarrow> s)"

lemma first_scheme_snoc: "first_scheme (vs @ [v]) = (if first_scheme vs = SchemeDefault then valueToScheme v else first_scheme vs)"
  by (auto simp: first_scheme_def filter_eq_Cons_iff split: list.splits)

lemma accept_field_challenge:
  assumes "challenge_field k" "header_present r k \<longrightarrow> valueToScheme (text_of (httpHeaderField r k)) \<noteq> SchemeDefault"
  shows "(header_present (accept_field nv r) k \<longrightarrow> valueToScheme (text_of (httpHeaderField (accept_field nv r) k)) \<noteq> SchemeDefault)
    \<and> valueToScheme (text_of (httpHeaderField (accept_field nv r) k)) =
      (let s = valueToScheme (text_of (httpHeaderField r k)) in
       if s = SchemeDefault \<and> equalIgnoringCase (fst nv) k then valueToScheme (snd nv) else s)"
proof (cases "equalIgnoringCase (fst nv) k")
  case False
  then have "httpHeaderField (accept_field nv r) k = httpHeaderField r k" "header_present (accept_field nv r) k = header_present r k"
    by (simp_all add: accept_field_def store_field_def fields.field_set fields.field_add fields.present_set fields.present_add)
  then show ?thesis using assms(2) False by simp
next
  case True
  have app: "isAppendableHeader (fst nv)" using appendable_same [OF True] challenge_names [OF assms(1)] by simp
  have ch: "is_challenge (fst nv)" using True assms(1) by (auto simp: is_challenge_def challenge_field_def)
  have same: "httpHeaderField r (fst nv) = httpHeaderField r k"
    using True by (simp add: httpHeaderField_def HTTPHeaderMap_get_def equalIgnoringCase_def)
  have acc: "AuthenticateHeaderDuplicate r (fst nv) (snd nv) \<Longrightarrow> valueToScheme (text_of (httpHeaderField r k)) = SchemeDefault
      \<Longrightarrow> valueToScheme (snd nv) \<noteq> SchemeDefault"
    using ch same by (simp add: AuthenticateHeaderDuplicate_def is_challenge_def)
  have rej: "\<not> AuthenticateHeaderDuplicate r (fst nv) (snd nv) \<Longrightarrow> valueToScheme (text_of (httpHeaderField r k)) = SchemeDefault
      \<Longrightarrow> valueToScheme (snd nv) = SchemeDefault"
    using ch same by (simp add: AuthenticateHeaderDuplicate_def is_challenge_def)
  show ?thesis
  proof (cases "AuthenticateHeaderDuplicate r (fst nv) (snd nv)")
    case dup: True
    then have f: "httpHeaderField (accept_field nv r) k
        = Some (if header_present r k then text_of (httpHeaderField r k) @ '', '' @ snd nv else snd nv)"
      using app True by (simp add: accept_field_def store_field_def fields.field_add)
    show ?thesis
    proof (cases "header_present r k")
      case True
      then show ?thesis using f assms(2) scheme_append by (simp add: text_of_def)
    next
      case False
      then have "text_of (httpHeaderField r k) = []" using fields.field_absent by (simp add: text_of_def)
      then have "valueToScheme (text_of (httpHeaderField r k)) = SchemeDefault"
        by (simp add: valueToScheme_def startsWith_def str_lower_def)
      then show ?thesis using f False acc [OF dup] \<open>equalIgnoringCase (fst nv) k\<close> by (simp add: text_of_def)
    qed
  next
    case dup: False
    then show ?thesis using rej assms(2) True by (simp add: accept_field_def Let_def)
  qed
qed

lemma fold_challenge:
  assumes "challenge_field k" "\<not> header_present r k"
  shows "(header_present (fold accept_field nvs r) k \<longrightarrow> valueToScheme (text_of (httpHeaderField (fold accept_field nvs r) k)) \<noteq> SchemeDefault)
    \<and> valueToScheme (text_of (httpHeaderField (fold accept_field nvs r) k)) = first_scheme (values_with equalIgnoringCase k nvs)"
proof (induction nvs rule: rev_induct)
  case Nil
  have "httpHeaderField r k = None" using fields.field_absent assms(2) .
  then show ?case using assms(2) by (simp add: first_scheme_def text_of_def valueToScheme_def startsWith_def str_lower_def)
next
  case (snoc nv nvs)
  then show ?case using accept_field_challenge [OF assms(1), of "fold accept_field nvs r" nv]
    by (auto simp: values_with_snoc first_scheme_snoc Let_def)
qed

section \<open>X-Frame-Options\<close>

definition shouldInterruptLoadForXFrameOptions :: "bool \<Rightarrow> bool \<Rightarrow> string \<Rightarrow> bool" where
  \<comment> \<open>whether the frame is the top frame, and whether its origin is that of the top frame\<close>
  "shouldInterruptLoadForXFrameOptions isTop sameOrigin content \<longleftrightarrow>
     \<not> isTop \<and> (equalIgnoringCase content ''deny'' \<or> equalIgnoringCase content ''sameorigin'' \<and> \<not> sameOrigin)"

lemma no_comma_in_options: "CHR '','' \<in> set c \<Longrightarrow> \<not> shouldInterruptLoadForXFrameOptions isTop sameOrigin c"
proof -
  assume "CHR '','' \<in> set c"
  then have "toASCIILower (CHR '','') \<in> set (str_lower c)" unfolding str_lower_def set_map by (rule imageI)
  moreover have "toASCIILower (CHR '','') = CHR '',''" by (simp add: toASCIILower_def code_def)
  ultimately have "CHR '','' \<in> set (str_lower c)" by simp
  moreover have "CHR '','' \<notin> set (str_lower ''deny'')" "CHR '','' \<notin> set (str_lower ''sameorigin'')"
    by (simp_all add: str_lower_def toASCIILower_def code_def)
  ultimately show ?thesis unfolding shouldInterruptLoadForXFrameOptions_def equalIgnoringCase_def by auto
qed


lemma field_callback:
  assumes "headerCallback e j ptr n = Some (length ptr, n')" "split_line (header_text ptr) = Some nv"
  shows "n' = upd_response j (accept_field nv) n"
proof -
  have "ptr \<noteq> []" using assms(2) by (auto simp: split_line_def str_find_def header_text_def)
  then show ?thesis using assms split_line_text [of "header_text ptr"]
    by (auto simp: headerCallback_def header_line_def Let_def split: if_splits)
qed

lemma present_fields_eq: "m_httpHeaderFields r' = m_httpHeaderFields r \<Longrightarrow> header_present r' k = header_present r k"
  by (simp add: header_present_def)

lemma present_accept: "header_present r k \<Longrightarrow> header_present (accept_field nv r) k"
  by (simp add: accept_field_def store_field_def fields.present_set fields.present_add)

lemma present_set_null: "header_present r k \<Longrightarrow> header_present (setHTTPHeaderField name v r) k"
  by (auto simp: header_present_def setHTTPHeaderField_def Let_def)

lemma present_clear: "header_present r k \<Longrightarrow> header_present (clear_redirect_headers r) k"
  by (simp add: clear_redirect_headers_def Let_def present_set_null)

definition has_field :: "jid \<Rightarrow> string \<Rightarrow> 'w net \<Rightarrow> bool" where
  "has_field j k n \<longleftrightarrow> header_present (m_response (transfers n j)) k"

lemma has_field_simps [simp]:
  "has_field j k (upd_rhm h n) = has_field j k n"
  "has_field j k (client_call e j ev n) = has_field j k n"
  "has_field j k (n\<lparr>m_authJar := jar\<rparr>) = has_field j k n"
  "(\<And>d. m_response (f d) = m_response d) \<Longrightarrow> has_field j k (upd_transfer j f n) = has_field j k n"
  "(\<And>r. m_httpHeaderFields (g r) = m_httpHeaderFields r) \<Longrightarrow> has_field j k (upd_response j g n) = has_field j k n"
  by (simp_all add: has_field_def header_present_def)

lemma has_field_redirected: "has_field j k n \<Longrightarrow> has_field j k (snd (didReceiveRedirect j url n))"
  by (simp add: didReceiveRedirect_def Let_def)

lemma has_field_fire: "has_field j k n \<Longrightarrow> has_field j k (snd (fire_response e j t n))"
  by (simp add: fire_response_def Let_def)

lemma has_field_password: "store_password e j l n = Some n' \<Longrightarrow> has_field j k n' = has_field j k n"
  by (auto simp: store_password_def Let_def split: if_splits)

lemma has_field_before: "has_field j k (before_redirect e j c url n) = has_field j k n"
  by (simp add: before_redirect_def Let_def)

lemma has_field_follow:
  assumes "has_field j k n"
  shows "has_field j k (snd (follow_redirect e j t c url n))"
proof -
  let ?n = "before_redirect e j c url n"
  let ?n4 = "upd_rhm (upd_job j (\<lambda>d. d\<lparr>firstRequestURL := url\<rparr>)) (upd_response j clear_redirect_headers ?n)"
  have b: "has_field j k ?n" using assms by (simp add: has_field_before)
  then have 4: "has_field j k ?n4" using present_clear by (simp add: has_field_def)
  obtain h n5 where 5: "didReceiveRedirect j url ?n4 = (h, n5)" by (metis surj_pair)
  have "has_field j k n5" using has_field_redirected [OF 4, of url] 5 by simp
  then show ?thesis using b 5 has_field_fire [of j k n5 e t] by (simp add: follow_redirect_def Let_def)
qed

lemma has_field_redirect:
  assumes "redirect e j t c l n = Some (r, n')" "has_field j k n"
  shows "has_field j k n'"
proof -
  obtain url n1 where n1: "(if c < 304 then store_password e j l n else Some n) = Some n1"
    and res: "follow_redirect e j t c url n1 = (r, n')"
    using assms(1) unfolding redirect_def by (auto simp: bind_eq_Some_conv)
  have "has_field j k n1" using n1 assms(2) has_field_password [of e j l n n1 k] by (auto split: if_splits)
  then show ?thesis using has_field_follow [of j k n1 e t c url] res by simp
qed

lemma response_headerRealm: "m_response (snd (headerRealm c d)) = m_response d"
proof (cases "httpHeaderField (m_response d) (if c = 401 then ''WWW-Authenticate'' else ''Proxy-Authenticate'')")
  case None
  then show ?thesis unfolding headerRealm_def None by simp
next
  case (Some h)
  then show ?thesis unfolding headerRealm_def Some option.case Let_def
    by (simp only: option.case_distrib [of snd] option.case_distrib [of m_response] split: option.split) simp
qed

lemma has_field_respond:
  assumes "respond e j t c n = Some (r, n')" "has_field j k n"
  shows "has_field j k n'"
proof -
  have p: "has_field j k n4" if "(if c < 300 then store_password e j [] n else Some n) = Some n4" for n4
    using that has_field_password [of e j "[]" n n4 k] assms(2) by (auto split: if_splits)
  show ?thesis
  proof (cases "(c = 401 \<or> c = 407) \<and> isHTTP (m_response (transfers n j))")
    case True
    have "n' = upd_transfer j (\<lambda>d. snd (headerRealm c d)) n" using assms(1) unfolding respond_def if_P [OF True] by simp
    then show ?thesis using assms(2) by (simp add: response_headerRealm)
  next
    case False
    then obtain n4 where n4: "(if c < 300 then store_password e j [] n else Some n) = Some n4"
      and res: "(let l = text_of (httpHeaderField (m_response (transfers n4 j)) ''location'') in
        if 300 \<le> c \<and> c < 400 \<and> l \<noteq> [] then redirect e j t c l n4 else Some (fire_response e j t n4)) = Some (r, n')"
      using assms(1) unfolding respond_def if_not_P [OF False] bind_eq_Some_conv by blast
    show ?thesis
    proof (cases "300 \<le> c \<and> c < 400 \<and> text_of (httpHeaderField (m_response (transfers n4 j)) ''location'') \<noteq> []")
      case True
      then show ?thesis using res has_field_redirect p [OF n4] by (simp add: Let_def)
    next
      case False
      then have "fire_response e j t n4 = (r, n')" using res unfolding Let_def if_not_P [OF False] by simp
      then show ?thesis using has_field_fire [of j k n4 e t] p [OF n4] by simp
    qed
  qed
qed

lemma has_field_end:
  assumes "end_of_header e j t n = Some (r, n')" "has_field j k n"
  shows "has_field j k n'"
proof -
  have fill: "m_httpHeaderFields (fill_response e b c r) = m_httpHeaderFields r" for b c r by (simp add: fill_response_def Let_def)
  obtain url where res: "(let n1 = upd_response j (\<lambda>r. r\<lparr>rs_url := url\<rparr>) n in
      case final_code e (m_isSSL (transfers n1 j)) of
        None \<Rightarrow> Some (t, n1)
      | Some c \<Rightarrow> let n2 = upd_response j (\<lambda>r. r\<lparr>rs_httpStatusCode := c\<rparr>) n1 in
          if c = 100 then Some (t, n2)
          else respond e j t c (upd_response j (fill_response e (targetIsXHR (transfers n2 j)) c) n2)) = Some (r, n')"
    using assms(1) unfolding end_of_header_def bind_eq_Some_conv by blast
  define n1 where "n1 = upd_response j (\<lambda>r. r\<lparr>rs_url := url\<rparr>) n"
  define n2 where "n2 c = upd_response j (\<lambda>r. r\<lparr>rs_httpStatusCode := c\<rparr>) n1" for c
  have h: "has_field j k n1" "has_field j k (n2 c)" "has_field j k (upd_response j (fill_response e b c) (n2 c))" for b c
    using assms(2) by (simp_all add: n1_def n2_def fill)
  show ?thesis
  proof (cases "final_code e (m_isSSL (transfers n1 j))")
    case None
    then show ?thesis using res h(1) unfolding n1_def [symmetric] Let_def by simp
  next
    case (Some c)
    have "(if c = 100 then Some (t, n2 c) else respond e j t c (upd_response j (fill_response e (targetIsXHR (transfers (n2 c) j)) c) (n2 c)))
        = Some (r, n')"
      using res unfolding n1_def [symmetric] Let_def Some option.case n2_def [symmetric] .
    note res = this
    show ?thesis
    proof (cases "c = 100")
      case True
      then show ?thesis using res h(2) [of c] by simp
    next
      case False
      show ?thesis by (rule has_field_respond [OF res [unfolded if_not_P [OF False]] h(3)])
    qed
  qed
qed

lemma has_field_callback:
  assumes "headerCallback e j ptr n = Some (r, n')" "has_field j k n"
  shows "has_field j k n'"
proof -
  have status: "has_field j k n2" if "status_line e j header n = Some n2" for header n2
    using that assms(2) by (auto simp: status_line_def set_status_text_def has_field_def header_present_def Let_def split: if_splits option.splits)
  have line: "has_field j k n2" if "header_line e j header n = Some n2" for header n2
    using that assms(2) status present_accept by (auto simp: header_line_def has_field_def split: option.splits if_splits)
  show ?thesis using assms line has_field_end by (auto simp: headerCallback_def Let_def split: if_splits)
qed

lemma has_field_header: "receive_header j ls n = Some n' \<Longrightarrow> has_field j k n \<Longrightarrow> has_field j k n'"
  by (induction j ls n rule: receive_header.induct) (auto dest: has_field_callback split: option.splits if_splits)

lemma receive_header_append:
  "receive_header j (ls @ ls') n = Option.bind (receive_header j ls n) (receive_header j ls')"
  by (induction j ls n rule: receive_header.induct) (auto split: option.split)

section \<open>Properties\<close>

definition line_bytes :: "string \<Rightarrow> byte list" where
  "line_bytes t = map of_char t"

lemma header_text_ascii: "list_all (\<lambda>c. code c < 128) t \<Longrightarrow> header_text (line_bytes t) = t"
proof (induction t)
  case (Cons c t)
  have "uint (of_char c :: 8 word) = code c"
    using code_bounds [of c] by (simp add: code_def unsigned_of_nat of_char_def)
  then show ?case using Cons by (simp add: header_text_def line_bytes_def code_def)
qed (simp add: header_text_def line_bytes_def)

definition sample_env :: "int \<Rightarrow> env" where
  "sample_env c =
     \<lparr>effective_url = ''http://h/'', response_code = c, connect_code = 0, content_length = 0, getinfo_ok = True, loader_client = True,
      dispatchWillReceiveData = (\<lambda>_. True), willReceiveData = (\<lambda>_. True), cancels_in = (\<lambda>_. False),
      getMIMETypeForPath = (\<lambda>_. ''text/html''), wkcGuessMIMETypeByContentPeer = (\<lambda>_. []), encode_relative = (\<lambda>s. s)\<rparr>"

definition net_new :: "unit net" where
  "net_new =
     \<lparr>net_rhm = rhm_new (HTTPCache_new ()) (\<lambda>_. sample_job), m_authJar = AuthenticationJar_new, m_redirectInWKC = False,
      m_proxy = [], m_proxyPort = 0, transfers = (\<lambda>_. ResourceHandleInternal_new [] [] True False)\<rparr>"

lemma net_new: "\<not> m_cancelled (the_job net_new j)" "m_client (the_job net_new j)" "m_recvData (transfers net_new j) = []"
  "\<not> header_present (m_response (transfers net_new j)) k" "delivered j net_new = []"
  "\<not> m_cacheControlContainsNoStore (m_response (transfers net_new j))"
  by (simp_all add: net_new_def rhm_new_def sample_job_def ResourceHandleInternal_new_def ResourceResponse_new_def header_present_def delivered_def)

lemma accepting_sample: "accepting (sample_env c)"
proof -
  have "KURL_parse ''http://h/'' \<noteq> None" by code_simp
  then show ?thesis by (simp add: accepting_def sample_env_def)
qed

lemma sample_field_line:
  assumes "list_all (\<lambda>c. code c < 128) t" "split_line t = Some nv"
  shows "field_line (sample_env c, line_bytes t)" "field_of (sample_env c, line_bytes t) = nv"
  using assms accepting_sample by (simp_all add: field_line_def field_of_def header_text_ascii)

text \<open>
  C9: the body reaches the client byte by byte and in order, however libcurl cuts it. When the status of the response is none
  whose body is dropped or kept aside (1xx, 3xx, 401, 407) and the client accepts everything and cancels nothing, it has been
  given what arrived except for what is kept to guess the type of the content, and that is less than 512 bytes and less than the
  announced length, and only until the response has been reported.
\<close>

theorem body_delivered_in_order:
  assumes "body_inv j n" "\<not> m_cancelled (the_job n j)"
    and "list_all (\<lambda>(e, ptr). ptr \<noteq> [] \<and> accepting e \<and> body_code (response_code e)) cs"
  shows "\<exists>n'. receive_chunks j cs n = Some n'
    \<and> delivered j n' @ m_recvData (transfers n' j) = delivered j n @ m_recvData (transfers n j) @ concat (map snd cs)
    \<and> (m_recvData (transfers n' j) \<noteq> [] \<longrightarrow>
         length (m_recvData (transfers n' j)) < DATA_KEEP_LENGTH
         \<and> int (length (m_recvData (transfers n' j))) < rs_expectedContentLength (m_response (transfers n' j))
         \<and> \<not> m_responseFired (m_response (transfers n' j)))"
proof -
  have "list_all (\<lambda>(e, ptr). accepting e \<and> body_code (response_code e)) cs"
    and cs: "list_all (\<lambda>(e, ptr). ptr \<noteq> [] \<and> body_code (response_code e)) cs"
    using assms(3) by (auto simp: list_all_iff)
  from accepting_chunks [OF this(1) assms(2)] obtain n' where n': "receive_chunks j cs n = Some n'" by blast
  from receive_chunks_body [OF n' assms(1) cs] n' show ?thesis by (auto simp: body_inv_def body_of_def)
qed

theorem body_delivered_in_order_witness:
  "\<exists>n'. receive_chunks 0 [(sample_env 200, line_bytes ''ab''), (sample_env 200, line_bytes ''c'')] net_new = Some n'
     \<and> delivered 0 n' @ m_recvData (transfers n' 0) = line_bytes ''abc''"
  using body_delivered_in_order [of 0 net_new "[(sample_env 200, line_bytes ''ab''), (sample_env 200, line_bytes ''c'')]"]
    accepting_sample [of 200]
  by (auto simp: net_new body_inv_def body_code_def line_bytes_def sample_env_def)

text \<open>
  After any sequence of header lines none of which is a challenge a field holds what they say: a field that may be repeated has
  the values of all its lines joined by commas, any other that of the last one.
\<close>

theorem header_lines_folded:
  assumes "list_all field_line ls" "\<not> m_cancelled (the_job n j)" "\<not> header_present (m_response (transfers n j)) k"
    and "list_all (\<lambda>nv. \<not> is_challenge (fst nv)) (map field_of ls)"
  shows "\<exists>n'. receive_header j ls n = Some n'
    \<and> httpHeaderField (m_response (transfers n' j)) k =
        (let vs = values_with equalIgnoringCase k (map field_of ls) in
         if vs = [] then None else Some (if isAppendableHeader k then join_values vs else last vs))"
  using receive_fields [OF assms(1,2)] folded_field [OF assms(4,3)] by auto

theorem header_lines_folded_witness:
  "\<exists>n'. receive_header 0 [(sample_env 200, line_bytes ''Vary: a''), (sample_env 200, line_bytes ''ETag: e''), (sample_env 200, line_bytes ''vary: b'')]
      net_new = Some n' \<and> httpHeaderField (m_response (transfers n' 0)) ''VARY'' = Some ''a, b''"
proof -
  let ?ls = "[(sample_env 200, line_bytes ''Vary: a''), (sample_env 200, line_bytes ''ETag: e''), (sample_env 200, line_bytes ''vary: b'')]"
  have a: "list_all (\<lambda>c. code c < 128) ''Vary: a''" "list_all (\<lambda>c. code c < 128) ''ETag: e''" "list_all (\<lambda>c. code c < 128) ''vary: b''"
    by code_simp+
  have p: "split_line ''Vary: a'' = Some (''Vary'', ''a'')" "split_line ''ETag: e'' = Some (''ETag'', ''e'')"
    "split_line ''vary: b'' = Some (''vary'', ''b'')"
    by code_simp+
  note f = sample_field_line [OF a(1) p(1)] sample_field_line [OF a(2) p(2)] sample_field_line [OF a(3) p(3)]
  have "list_all field_line ?ls" using f by simp
  moreover have m: "map field_of ?ls = [(''Vary'', ''a''), (''ETag'', ''e''), (''vary'', ''b'')]" using f by simp
  moreover have "list_all (\<lambda>nv. \<not> is_challenge (fst nv)) [(''Vary'', ''a''), (''ETag'', ''e''), (''vary'', ''b'')]" by code_simp
  moreover have "(let vs = values_with equalIgnoringCase ''VARY'' [(''Vary'', ''a''), (''ETag'', ''e''), (''vary'', ''b'')] in
      if vs = [] then None else Some (if isAppendableHeader ''VARY'' then join_values vs else last vs)) = Some ''a, b''"
    by code_simp
  ultimately show ?thesis using header_lines_folded [of ?ls net_new 0 "''VARY''"] by (simp only: net_new m) simp
qed

lemma update_state_flags [simp]:
  "m_cacheControlContainsNoStore (updateHeaderParsedState k r) = m_cacheControlContainsNoStore r"
  by (simp add: updateHeaderParsedState_def)

lemma accept_no_store [simp]: "m_cacheControlContainsNoStore (accept_field nv r) = m_cacheControlContainsNoStore r"
  by (simp add: accept_field_def store_field_def addHTTPHeaderField_def setHTTPHeaderField_def Let_def split: option.split)

lemma fold_no_store [simp]: "m_cacheControlContainsNoStore (fold accept_field nvs r) = m_cacheControlContainsNoStore r"
  by (induction nvs arbitrary: r) simp_all

lemma cache_control_appendable: "isAppendableHeader ''cache-control''" "isAppendableHeader ''pragma''"
  by code_simp+

lemma parsed_directives:
  assumes "HTTPHeaderMap_get (m_httpHeaderFields r) ''cache-control'' = Some (join_values (map print_directive ds))"
    and "list_all well_formed ds" "ds \<noteq> []"
    and p_def: "p = parseCacheControlDirectives toDouble r"
  shows "m_cacheControlContainsNoStore p \<longleftrightarrow> m_cacheControlContainsNoStore r \<or> says ''no-store'' (map snd ds)"
    and "m_cacheControlContainsMustRevalidate p \<longleftrightarrow> says ''must-revalidate'' (map snd ds)"
    and "says_no_cache (map snd ds) \<Longrightarrow> m_cacheControlContainsNoCache p"
    and "case max_ages toDouble (map snd ds) of [] \<Rightarrow> isnan (m_cacheControlMaxAge p) | x # _ \<Rightarrow> m_cacheControlMaxAge p = x"
proof -
  let ?v = "join_values (map print_directive ds)"
  obtain d ds' where ds: "ds = d # ds'" using assms(3) by (cases ds) auto
  have "print_directive d \<noteq> []" using assms(2) ds by (cases d rule: print_directive.cases) auto
  then have ne: "?v \<noteq> []" using ds by (cases ds') simp_all
  define r1 where "r1 = r\<lparr>m_haveParsedCacheControlHeader := True, m_cacheControlContainsMustRevalidate := False,
    m_cacheControlContainsNoCache := False, m_cacheControlMaxAge := quiet_NaN\<rparr>"
  define r2 where "r2 = foldl (apply_directive toDouble) r1 (map snd ds)"
  have p: "p = (if m_cacheControlContainsNoCache r2 then r2
      else r2\<lparr>m_cacheControlContainsNoCache := contains_string (str_lower (text_of (HTTPHeaderMap_get (m_httpHeaderFields r) ''pragma''))) ''no-cache''\<rparr>)"
    using ne by (simp add: p_def parseCacheControlDirectives_def assms(1) text_of_def parse_printed_header [OF assms(2,3)]
        r1_def [symmetric] r2_def [symmetric] Let_def)
  have nan: "isnan quiet_NaN" by code_simp
  have r1: "m_cacheControlMaxAge r1 = quiet_NaN" by (simp add: r1_def)
  show "m_cacheControlContainsNoStore p \<longleftrightarrow> m_cacheControlContainsNoStore r \<or> says ''no-store'' (map snd ds)"
    by (simp add: p r2_def directives_no_store r1_def)
  show "m_cacheControlContainsMustRevalidate p \<longleftrightarrow> says ''must-revalidate'' (map snd ds)"
    by (simp add: p r2_def directives_must_revalidate r1_def)
  show "m_cacheControlContainsNoCache p" if "says_no_cache (map snd ds)"
    using that by (simp add: p r2_def directives_no_cache r1_def)
  have "m_cacheControlMaxAge p = m_cacheControlMaxAge r2" by (simp add: p)
  then show "case max_ages toDouble (map snd ds) of [] \<Rightarrow> isnan (m_cacheControlMaxAge p) | x # _ \<Rightarrow> m_cacheControlMaxAge p = x"
    using directives_max_age [of r1 toDouble "map snd ds"] nan r1 unfolding r2_def by (simp split: list.splits)
qed

text \<open>
  C28: the Cache-Control lines of a header, whatever their number, together mean what their directives say: nothing may be stored
  exactly if one of them says \<open>no-store\<close>, the response must be revalidated exactly if one says \<open>must-revalidate\<close>, and the
  first \<open>max-age\<close> that is a number counts; commas and quotes inside quoted values do no harm.
\<close>

theorem cache_control_lines_obeyed:
  assumes "list_all field_line ls" "\<not> m_cancelled (the_job n j)" "list_all (\<lambda>nv. \<not> is_challenge (fst nv)) (map field_of ls)"
    and "\<not> header_present (m_response (transfers n j)) ''cache-control''" "\<not> m_cacheControlContainsNoStore (m_response (transfers n j))"
    and "values_with equalIgnoringCase ''cache-control'' (map field_of ls) = map (\<lambda>ds. join_values (map print_directive ds)) dss"
    and "dss \<noteq> []" "list_all (\<lambda>ds. ds \<noteq> [] \<and> list_all well_formed ds) dss"
  shows "\<exists>n' p. receive_header j ls n = Some n' \<and> p = parseCacheControlDirectives toDouble (m_response (transfers n' j))
    \<and> (m_cacheControlContainsNoStore p \<longleftrightarrow> says ''no-store'' (map snd (concat dss)))
    \<and> (m_cacheControlContainsMustRevalidate p \<longleftrightarrow> says ''must-revalidate'' (map snd (concat dss)))
    \<and> (says_no_cache (map snd (concat dss)) \<longrightarrow> m_cacheControlContainsNoCache p)
    \<and> (case max_ages toDouble (map snd (concat dss)) of [] \<Rightarrow> isnan (m_cacheControlMaxAge p) | x # _ \<Rightarrow> m_cacheControlMaxAge p = x)"
proof -
  obtain n' where n': "receive_header j ls n = Some n'"
    and r: "m_response (transfers n' j) = fold accept_field (map field_of ls) (m_response (transfers n j))"
    using receive_fields [OF assms(1,2)] by blast
  have ne: "\<forall>vs \<in> set (map (map print_directive) dss). vs \<noteq> []" using assms(8) by (auto simp: list_all_iff)
  have "join_values (map (\<lambda>ds. join_values (map print_directive ds)) dss) = join_values (map print_directive (concat dss))"
    using join_values_concat [OF ne] by (simp add: map_concat comp_def)
  then have "HTTPHeaderMap_get (m_httpHeaderFields (m_response (transfers n' j))) ''cache-control''
      = Some (join_values (map print_directive (concat dss)))"
    using folded_field [OF assms(3,4)] assms(6,7) cache_control_appendable(1) by (simp add: r httpHeaderField_def Let_def)
  moreover have "list_all well_formed (concat dss)" "concat dss \<noteq> []"
    using assms(7,8) by (auto simp: list_all_iff neq_Nil_conv)
  ultimately show ?thesis using parsed_directives [OF _ _ _ refl, of "m_response (transfers n' j)" "concat dss" toDouble] n' assms(5) r by auto
qed

theorem cache_control_lines_obeyed_witness:
  "\<exists>n' p. receive_header 0 [(sample_env 200, line_bytes ''Cache-Control: private=''),
        (sample_env 200, line_bytes ''cache-control: max-age=5, no-store'')] net_new = Some n'
     \<and> p = parseCacheControlDirectives (\<lambda>s. if s = ''5'' then Some (dbl_of_int 5) else None) (m_response (transfers n' 0))
     \<and> m_cacheControlContainsNoStore p \<and> \<not> m_cacheControlContainsMustRevalidate p \<and> m_cacheControlMaxAge p = dbl_of_int 5"
proof -
  let ?ls = "[(sample_env 200, line_bytes ''Cache-Control: private=''), (sample_env 200, line_bytes ''cache-control: max-age=5, no-store'')]"
  let ?fs = "[(''Cache-Control'', ''private=''), (''cache-control'', ''max-age=5, no-store'')]"
  let ?dss = "[[(Token, ''private'', [])], [(Token, ''max-age'', ''5''), (Plain, ''no-store'', [])]]"
  let ?td = "\<lambda>s. if s = ''5'' then Some (dbl_of_int 5) else None"
  have a: "list_all (\<lambda>c. code c < 128) ''Cache-Control: private=''" "list_all (\<lambda>c. code c < 128) ''cache-control: max-age=5, no-store''"
    by code_simp+
  have p: "split_line ''Cache-Control: private='' = Some (''Cache-Control'', ''private='')"
    "split_line ''cache-control: max-age=5, no-store'' = Some (''cache-control'', ''max-age=5, no-store'')"
    by code_simp+
  note f = sample_field_line [OF a(1) p(1)] sample_field_line [OF a(2) p(2)]
  have ls: "list_all field_line ?ls" and m: "map field_of ?ls = ?fs" using f by simp_all
  have ch: "list_all (\<lambda>nv. \<not> is_challenge (fst nv)) ?fs" by code_simp
  have vs: "values_with equalIgnoringCase ''cache-control'' ?fs = map (\<lambda>ds. join_values (map print_directive ds)) ?dss" by code_simp
  have wf: "list_all (\<lambda>ds. ds \<noteq> [] \<and> list_all well_formed ds) ?dss" by code_simp
  have says: "says ''no-store'' (map snd (concat ?dss))" "\<not> says ''must-revalidate'' (map snd (concat ?dss))"
    "max_ages ?td (map snd (concat ?dss)) = [dbl_of_int 5]" by code_simp+
  show ?thesis
    using cache_control_lines_obeyed [of ?ls net_new 0 ?dss ?td, unfolded m, OF ls _ ch _ _ vs _ wf] says by (simp only: net_new) auto
qed

text \<open>
  C32: A page is shown in a frame although its X-Frame-Options forbid it when another response came before it in the same
  transfer, with the field as well: the answer to a redirection or to a challenge does not start a new header, and the field is
  one that is appended to, so that its text is neither \<open>deny\<close> nor \<open>sameorigin\<close>.
\<close>

theorem frame_options_defeated:
  assumes "receive_header j ([l1] @ between @ [l2]) n = Some n'"
    and "split_line (header_text (snd l1)) = Some nv1" "equalIgnoringCase (fst nv1) ''X-Frame-Options''"
    and "split_line (header_text (snd l2)) = Some nv2" "equalIgnoringCase (fst nv2) ''X-Frame-Options''"
  shows "\<not> shouldInterruptLoadForXFrameOptions isTop sameOrigin (text_of (httpHeaderField (m_response (transfers n' j)) ''X-Frame-Options''))"
proof -
  let ?k = "''X-Frame-Options''"
  obtain n1 n2 where n1: "receive_header j [l1] n = Some n1" and n2: "receive_header j between n1 = Some n2"
    and n3: "receive_header j [l2] n2 = Some n'"
    using assms(1) unfolding receive_header_append bind_eq_Some_conv by blast
  have last: "n'' = upd_response j (accept_field nv) m" if "receive_header j [l] m = Some n''" "split_line (header_text (snd l)) = Some nv"
    for l nv m and n'' :: "'a net"
    using that field_callback [of "fst l" j "snd l" m n'' nv] by (cases l) (auto split: option.splits if_splits)
  have app: "isAppendableHeader ?k" by code_simp
  have acc: "accept_field nv r = addHTTPHeaderField (fst nv) (snd nv) r" if "equalIgnoringCase (fst nv) ?k" for nv r
  proof -
    have "\<not> is_challenge (fst nv)"
    proof -
      have "\<not> is_challenge ?k" by code_simp
      then show ?thesis using that by (simp add: is_challenge_def equalIgnoringCase_def)
    qed
    then show ?thesis using appendable_same [OF that] app by (simp add: accept_other store_field_def)
  qed
  have "has_field j ?k n1" using last [OF n1 assms(2)] acc [OF assms(3)] assms(3) by (simp add: has_field_def fields.present_add)
  then have "has_field j ?k n2" by (rule has_field_header [OF n2])
  then have "CHR '','' \<in> set (text_of (httpHeaderField (m_response (transfers n' j)) ?k))"
    using last [OF n3 assms(4)] acc [OF assms(5)] assms(5) by (simp add: has_field_def fields.field_add text_of_def)
  then show ?thesis by (rule no_comma_in_options)
qed


lemma challenge_header_ends:
  assumes "accepting e" "response_code e = 401" "header_text ptr = [CHR 0x0A]" "\<not> m_cancelled (the_job n j)"
  shows "\<exists>n'. headerCallback e j ptr n = Some (length ptr, n') \<and> \<not> m_cancelled (the_job n' j)"
proof -
  obtain url where url: "KURL_parse (effective_url e) = Some url" using assms(1) by (auto simp: accepting_def)
  define n2 where "n2 = upd_response j (\<lambda>r. r\<lparr>rs_httpStatusCode := 401\<rparr>) (upd_response j (\<lambda>r. r\<lparr>rs_url := url\<rparr>) n)"
  define n3 where "n3 = upd_response j (fill_response e (targetIsXHR (transfers n2 j)) 401) n2"
  have c3: "\<not> m_cancelled (the_job n3 j)" using assms(4) by (simp add: n3_def n2_def)
  have "headerCallback e j ptr n = respond e j (length ptr) 401 n3"
    using assms url by (simp add: headerCallback_def end_of_header_def final_code_def accepting_receive Let_def n2_def n3_def)
  moreover have "\<exists>n'. respond e j (length ptr) 401 n3 = Some (length ptr, n') \<and> \<not> m_cancelled (the_job n' j)"
    using c3 by (auto simp: respond_def fire_response_def Let_def accepting_call [OF assms(1)])
  ultimately show ?thesis by simp
qed

theorem frame_options_defeated_witness:
  "\<exists>n'. receive_header 0 ([(sample_env 401, line_bytes ''X-Frame-Options: DENY'')] @ [(sample_env 401, line_bytes [CHR 0x0A])]
        @ [(sample_env 200, line_bytes ''X-Frame-Options: DENY'')]) net_new = Some n'
     \<and> \<not> shouldInterruptLoadForXFrameOptions False False (text_of (httpHeaderField (m_response (transfers n' 0)) ''X-Frame-Options''))"
proof -
  let ?t = "''X-Frame-Options: DENY''"
  let ?l = "(sample_env 401, line_bytes ?t)" and ?b = "(sample_env 401, line_bytes [CHR 0x0A])" and ?l2 = "(sample_env 200, line_bytes ?t)"
  have t: "list_all (\<lambda>c. code c < 128) ?t" "split_line ?t = Some (''X-Frame-Options'', ''DENY'')" by code_simp+
  have h: "header_text (line_bytes ?t) = ?t" by (rule header_text_ascii [OF t(1)])
  have b: "header_text (line_bytes [CHR 0x0A]) = [CHR 0x0A]" by (rule header_text_ascii) code_simp
  let ?n1 = "upd_response 0 (accept_field (''X-Frame-Options'', ''DENY'')) net_new"
  have 1: "headerCallback (sample_env 401) 0 (line_bytes ?t) net_new = Some (length (line_bytes ?t), ?n1)"
    using field_line_step [OF sample_field_line(1) [OF t] net_new(1)] sample_field_line(2) [OF t] by simp
  have "\<not> m_cancelled (the_job ?n1 0)" using net_new(1) by simp
  from challenge_header_ends [OF accepting_sample _ b this]
  obtain n2 where 2: "headerCallback (sample_env 401) 0 (line_bytes [CHR 0x0A]) ?n1 = Some (length (line_bytes [CHR 0x0A]), n2)"
    "\<not> m_cancelled (the_job n2 0)"
    by (auto simp: sample_env_def)
  obtain n3 where 3: "headerCallback (sample_env 200) 0 (line_bytes ?t) n2 = Some (length (line_bytes ?t), n3)"
    using field_line_step [OF sample_field_line(1) [OF t] 2(2)] by blast
  have run: "receive_header 0 ([?l] @ [?b] @ [?l2]) net_new = Some n3" using 1 2(1) 3 by simp
  have "equalIgnoringCase (fst (''X-Frame-Options'', ''DENY'')) ''X-Frame-Options''" by (simp add: equalIgnoringCase_def)
  from frame_options_defeated [OF run _ this _ this] run show ?thesis using t(2) h by auto
qed

end
