(* ===== verification/TransferEnd.thy ===== *)
theory TransferEnd
  imports ResponseCallbacks
begin

text \<open>
  The end of a transfer: the turn of \<open>_downloadTimerCallback\<close> of \<open>ResourceHandleManagerWKC.cpp\<close> for a finished job, with
  the authentication challenges (\<open>didReceiveAuthenticationChallenge\<close> and the answers of the user in \<open>ResourceHandleWKC.cpp\<close>),
  the removal of the job from libcurl, which decides whether the transfer goes on with a password, after a redirection
  or not at all, and the entry made in the cache. What libcurl offers and what the user, the frame loader and the
  application answer is the argument \<open>a\<close>. A password is handed to libcurl in \<open>curl_webauth\<close> and \<open>curl_proxyauth\<close>.
\<close>


section \<open>What the outside answers\<close>

datatype user_reply = Credentials string string | WithoutCredential bool | NoReply

record answers =
  av_ntlm :: bool
  av_digest :: bool
  av_basic :: bool
  reply :: "challenge \<Rightarrow> user_reply"
  frame_alive :: bool
  reconnect_SSL :: bool

section \<open>Answers of the user\<close>

definition isProxy :: "challenge \<Rightarrow> bool" where
  "isProxy ch \<longleftrightarrow> ch_serverType ch \<in> {ProtectionSpaceProxyHTTP, ProtectionSpaceProxyHTTPS, ProtectionSpaceProxyFTP, ProtectionSpaceProxySOCKS}"

definition same_challenge :: "challenge \<Rightarrow> challenge \<Rightarrow> bool" where
  \<comment> \<open>the failure count is always 0; response and error are copied with the challenge that is handed to the user\<close>
  "same_challenge a b \<longleftrightarrow>
     ch_isNull a \<and> ch_isNull b
     \<or> \<not> ch_isNull a \<and> \<not> ch_isNull b
       \<and> ch_host a = ch_host b \<and> ch_port a = ch_port b \<and> ch_serverType a = ch_serverType b
       \<and> (\<not> isProxy a \<longrightarrow> ch_realm a = ch_realm b) \<and> ch_scheme a = ch_scheme b
       \<and> ch_user a = ch_user b \<and> ch_password a = ch_password b"

definition didAuthChallenge :: "jid \<Rightarrow> bool \<Rightarrow> 'w net \<Rightarrow> 'w net option" where
  "didAuthChallenge j proxy n =
     (let ch = m_currentWebChallenge (transfers n j) in
      if ch_isNull ch then Some n
      else if proxy then
        map_option (\<lambda>jar. upd_transfer j (\<lambda>d. d\<lparr>m_proxyAuthURL := ch_host ch, m_proxyAuthScheme := ch_scheme ch,
            m_proxyAuthUser := ch_user ch, m_proxyAuthPass := ch_password ch, m_didAuthChallenge := True\<rparr>) (n\<lparr>m_authJar := jar\<rparr>))
          (setProxyUserPassword (ch_host ch) (ch_port ch) ProtectionSpaceProxyHTTP (ch_scheme ch) (ch_user ch) (ch_password ch) (m_authJar n))
      else
        map_option (\<lambda>jar. upd_transfer j (\<lambda>d. d\<lparr>m_webAuthURL := ch_host ch, m_webAuthScheme := ch_scheme ch, m_webAuthRealm := ch_realm ch,
            m_webAuthUser := ch_user ch, m_webAuthPass := ch_password ch, m_didAuthChallenge := True\<rparr>) (n\<lparr>m_authJar := jar\<rparr>))
          (setWebUserPassword id (ch_host ch) ProtectionSpaceServerHTTP (ch_scheme ch) (ch_realm ch) (ch_user ch) (ch_password ch) [] False
             (m_authJar n)))"

definition cancelAuthChallenge :: "jid \<Rightarrow> bool \<Rightarrow> 'w net \<Rightarrow> 'w net" where
  "cancelAuthChallenge j proxy n = upd_transfer j (\<lambda>d.
     if proxy then d\<lparr>m_proxyAuthURL := [], m_proxyAuthScheme := SchemeUnknown, m_proxyAuthUser := [], m_proxyAuthPass := [],
                     m_didAuthChallenge := False\<rparr>
     else d\<lparr>m_webAuthURL := [], m_webAuthScheme := SchemeUnknown, m_webAuthRealm := [], m_webAuthUser := [], m_webAuthPass := [],
            m_didAuthChallenge := False\<rparr>) n"

definition receivedCredential :: "jid \<Rightarrow> challenge \<Rightarrow> string \<Rightarrow> string \<Rightarrow> 'w net \<Rightarrow> 'w net option" where
  "receivedCredential j ch user password n =
     (if \<not> same_challenge ch (m_currentWebChallenge (transfers n j)) then Some n
      else didAuthChallenge j (isProxy ch)
             (upd_transfer j (\<lambda>d. d\<lparr>m_currentWebChallenge := ch\<lparr>ch_isNull := False, ch_user := user, ch_password := password\<rparr>\<rparr>) n))"

definition receivedRequestToContinueWithoutCredential :: "bool \<Rightarrow> jid \<Rightarrow> challenge \<Rightarrow> 'w net \<Rightarrow> 'w net" where
  \<comment> \<open>\<open>aliased\<close>: the argument is the current challenge itself and becomes null with it\<close>
  "receivedRequestToContinueWithoutCredential aliased j ch n =
     (let n1 = upd_transfer j (\<lambda>d. d\<lparr>m_currentWebChallenge := (m_currentWebChallenge d)\<lparr>ch_isNull := True\<rparr>\<rparr>) n;
          ch1 = (if aliased then ch\<lparr>ch_isNull := True\<rparr> else ch)
      in if \<not> same_challenge ch1 (m_currentWebChallenge (transfers n1 j)) then n1
         else cancelAuthChallenge j (isProxy ch1)
                (upd_transfer j (\<lambda>d. if isProxy ch1 then d\<lparr>m_proxyAuthScheme := SchemeUnknown\<rparr> else d\<lparr>m_webAuthScheme := SchemeUnknown\<rparr>) n1))"

section \<open>A challenge\<close>

definition requested_scheme :: "answers \<Rightarrow> ProtectionSpaceAuthenticationScheme option" where
  "requested_scheme a =
     (if av_ntlm a then Some SchemeNTLM else if av_digest a then Some SchemeHTTPDigest
      else if av_basic a then Some SchemeHTTPBasic else None)"

definition ntlm_step :: "bool \<Rightarrow> jid \<Rightarrow> 'w net \<Rightarrow> bool \<times> 'w net" where
  \<comment> \<open>True: nothing is to be done, the second step of the protocol or an icon\<close>
  "ntlm_step proxy j n =
     (let name = (if proxy then ''Proxy-Authenticate'' else ''WWW-Authenticate'');
          r = m_response (transfers n j);
          value = text_of (httpHeaderField r name)
      in if startsWith (str_lower value) ''ntlm'' \<and> 4 < length value then (True, n)
         else
           let n1 = (if startsWith (str_lower value) ''ntlm'' then upd_response j (setHTTPHeaderField name (Some [])) n else n)
           in (find_string (text_of (httpHeaderField (m_response (transfers n1 j)) ''Server'')) ''IIS/6.0'' \<noteq> None
                 \<and> endsWith (KURL_path (firstRequestURL (the_job n1 j))) ''.ico'', n1))"

definition web_space :: "kurl \<Rightarrow> (string \<times> int) option" where
  "web_space k0 =
     Option.bind (removeFragmentIdentifier k0) (\<lambda>k1. Option.bind (setQuery (Some []) k1) (\<lambda>k.
       let port = (if 0 < KURL_port k then KURL_port k else 80)
       in map_option (\<lambda>k'. (m_string k', port)) (removePort k)))"

definition proxy_lookup :: "jid \<Rightarrow> 'w net \<Rightarrow> (bool \<times> ProtectionSpaceServerType \<times> 'w net) option" where
  \<comment> \<open>whether the user has to be asked\<close>
  "proxy_lookup j n =
     (let d = transfers n j; host = m_proxy n; port = m_proxyPort n in
      if m_proxyAuthURL d \<noteq> [] then
        map_option (\<lambda>jar. (True, ProtectionSpaceProxyHTTP, upd_transfer j (\<lambda>d. d\<lparr>m_proxyAuthURL := []\<rparr>) (n\<lparr>m_authJar := jar\<rparr>)))
          (deleteProxyUserPassword host port (m_authJar n))
      else if m_proxyAuthCallengeTimes d \<noteq> 0 then Some (True, ProtectionSpaceProxyHTTP, n)
      else map_option (\<lambda>ans. case ans of
          None \<Rightarrow> (True, ProtectionSpaceProxyHTTP, n)
        | Some (st, scheme, user, passwd) \<Rightarrow> (scheme = SchemeDefault \<or> user = [] \<or> passwd = [], st, n))
        (getProxyUserPassword host port (m_authJar n)))"

definition web_lookup :: "jid \<Rightarrow> string \<Rightarrow> 'w net \<Rightarrow> (bool \<times> ProtectionSpaceServerType \<times> 'w net) option" where
  "web_lookup j host n =
     (let d = transfers n j; realm = m_webAuthRealm d in
      if m_webAuthURL d \<noteq> [] then
        map_option (\<lambda>jar. (True, ProtectionSpaceServerHTTP, n\<lparr>m_authJar := jar\<rparr>)) (deleteWebUserPassword host realm (m_authJar n))
      else if m_webAuthCallengeTimes d \<noteq> 0 then Some (True, ProtectionSpaceServerHTTP, n)
      else map_option (\<lambda>(ans, jar). case ans of
          None \<Rightarrow> (True, ProtectionSpaceServerHTTP, n\<lparr>m_authJar := jar\<rparr>)
        | Some (st, _) \<Rightarrow> (False, st, n\<lparr>m_authJar := jar\<rparr>))
        (getWebUserPassword host realm (m_authJar n)))"

definition ask_user :: "env \<Rightarrow> answers \<Rightarrow> jid \<Rightarrow> 'w net \<Rightarrow> 'w net option" where
  "ask_user e a j n0 =
     (let n = client_call e j DidReceiveAuthenticationChallenge n0; ch = m_currentWebChallenge (transfers n0 j) in
      if \<not> m_client (the_job n0 j) then Some n
      else case reply a ch of
             Credentials user password \<Rightarrow> receivedCredential j ch user password n
           | WithoutCredential aliased \<Rightarrow> Some (receivedRequestToContinueWithoutCredential aliased j ch n)
           | NoReply \<Rightarrow> Some n)"

definition put_challenge :: "jid \<Rightarrow> string \<Rightarrow> int \<Rightarrow> ProtectionSpaceServerType \<Rightarrow> string \<Rightarrow> ProtectionSpaceAuthenticationScheme
    \<Rightarrow> 'w net \<Rightarrow> 'w net" where
  \<comment> \<open>the proposed credential is that of the last challenge\<close>
  "put_challenge j host port st realm scheme = upd_transfer j (\<lambda>d. d\<lparr>m_currentWebChallenge := (m_currentWebChallenge d)
     \<lparr>ch_isNull := False, ch_host := host, ch_port := port, ch_serverType := st, ch_realm := realm, ch_scheme := scheme\<rparr>\<rparr>)"

definition settle_challenge :: "env \<Rightarrow> answers \<Rightarrow> jid \<Rightarrow> bool \<Rightarrow> ProtectionSpaceAuthenticationScheme \<Rightarrow> bool \<Rightarrow> 'w net \<Rightarrow> 'w net option" where
  "settle_challenge e a j proxy scheme ask n =
     (if ask then ask_user e a j n
      else Some (upd_transfer j (\<lambda>d. d\<lparr>m_didAuthChallenge := (scheme \<noteq> SchemeHTTPDigest
             \<or> \<not> (if proxy then m_proxyAuthWellKnownWhenInitializeHandle d else m_webAuthWellKnownWhenInitializeHandle d))\<rparr>) n))"

definition count_challenge :: "jid \<Rightarrow> bool \<Rightarrow> 'w net \<Rightarrow> 'w net" where
  "count_challenge j proxy = upd_transfer j (\<lambda>d. if proxy then d\<lparr>m_proxyAuthCallengeTimes := m_proxyAuthCallengeTimes d + 1\<rparr>
     else d\<lparr>m_webAuthCallengeTimes := m_webAuthCallengeTimes d + 1\<rparr>)"

definition pose_challenge :: "env \<Rightarrow> answers \<Rightarrow> jid \<Rightarrow> bool \<Rightarrow> ProtectionSpaceAuthenticationScheme \<Rightarrow> 'w net \<Rightarrow> 'w net option" where
  "pose_challenge e a j proxy scheme n0 =
     Option.bind (if proxy then Some (m_proxy n0, m_proxyPort n0) else web_space (firstRequestURL (the_job n0 j))) (\<lambda>(host, port).
     Option.bind (if proxy then proxy_lookup j n0 else web_lookup j host n0) (\<lambda>(ask, st, n1).
       let realm = (if proxy then m_proxyAuthRealm (transfers n0 j) else m_webAuthRealm (transfers n0 j))
       in map_option (count_challenge j proxy)
            (settle_challenge e a j proxy scheme ask (put_challenge j host port st realm scheme n1))))"

definition didReceiveAuthenticationChallenge :: "env \<Rightarrow> answers \<Rightarrow> jid \<Rightarrow> 'w net \<Rightarrow> 'w net option" where
  "didReceiveAuthenticationChallenge e a j n =
     (let d = transfers n j; proxy = (rs_httpStatusCode (m_response d) \<noteq> 401) in
      if \<not> proxy \<and> \<not> allowCookies d then Some (upd_transfer j (\<lambda>d. d\<lparr>m_didAuthChallenge := False\<rparr>) n)
      else case requested_scheme a of
             None \<Rightarrow> Some n
           | Some scheme \<Rightarrow>
               let (stop, n1) = (if scheme = SchemeNTLM then ntlm_step proxy j n else (False, n))
               in if stop then Some n1 else pose_challenge e a j proxy scheme n1)"

section \<open>The end of a transfer\<close>

definition setAuthChallenge :: "jid \<Rightarrow> 'w net \<Rightarrow> (bool \<times> 'w net) option" where
  "setAuthChallenge j n =
     (let d = transfers n j; code = rs_httpStatusCode (m_response d) in
      if ch_isNull (m_currentWebChallenge d) \<or> \<not> m_didAuthChallenge d then Some (False, n)
      else
        let n1 = upd_transfer j (\<lambda>d. d\<lparr>m_didAuthChallenge := False\<rparr>) n in
        if code = 407 \<and> m_proxy n = [] then Some (False, n1)
        else if code = 401 then
          map_option (\<lambda>(ans, jar). (ans \<noteq> None, upd_transfer j (\<lambda>d. if ans = None then d else d\<lparr>curl_webauth := ans\<rparr>) (n1\<lparr>m_authJar := jar\<rparr>)))
            (getWebUserPassword (m_string (firstRequestURL (the_job n j))) (m_webAuthRealm d) (m_authJar n))
        else if code = 407 then
          map_option (\<lambda>ans. (ans \<noteq> None, upd_transfer j (\<lambda>d. if ans = None then d else d\<lparr>curl_proxyauth := ans\<rparr>) n1))
            (getProxyUserPassword (m_proxy n) (m_proxyPort n) (m_authJar n))
        else Some (False, n1))"

definition doRedirect :: "app \<Rightarrow> jid \<Rightarrow> 'w net \<Rightarrow> bool \<times> 'w net" where
  "doRedirect ap j n =
     (if \<not> m_doRedirectChallenge (transfers n j) then (False, n)
      else (True, upd_rhm (\<lambda>m. appendScheduledJob ap j (upd_job j (\<lambda>d. d\<lparr>m_permitSend := SUSPEND\<rparr>) m))
             (upd_transfer j (\<lambda>d. d\<lparr>m_doRedirectChallenge := False\<rparr>) n)))"

definition start_timer :: "'w net \<Rightarrow> 'w net" where
  "start_timer = upd_rhm (\<lambda>m. m\<lparr>m_downloadTimer := True\<rparr>)"

definition remove_from_curl :: "app \<Rightarrow> jid \<Rightarrow> 'w net \<Rightarrow> 'w net option" where
  \<comment> \<open>\<open>removeFromCurl\<close> with what decides whether the transfer goes on\<close>
  "remove_from_curl ap j n =
     (let finish = upd_rhm (removeFromCurl False j) in
      if \<not> m_handle (the_job n j) then Some n
      else if m_cancelled (the_job n j) then Some (finish n)
      else map_option (\<lambda>(resumed, n1).
        if resumed then start_timer n1
        else if m_sslReconnect (transfers n1 j)
        then start_timer (upd_rhm (upd_job j (\<lambda>d. d\<lparr>m_permitSend := PERMIT\<rparr>)) (upd_transfer j (\<lambda>d. d\<lparr>m_sslReconnect := False\<rparr>) n1))
        else if m_redirectInWKC n1 \<and> m_doRedirectChallenge (transfers n1 j) then start_timer (snd (doRedirect ap j n1))
        else finish n1) (setAuthChallenge j n))"


section \<open>A finished transfer\<close>

datatype CURLcode = CURLE_OK | CURLE_PARTIAL_FILE | CURLE_OPERATION_TIMEDOUT | CURLE_OTHER

record ('w, 'f) cache_env =
  ce_files :: "('w, 'f) file_peer"
  ce_foldCase :: "uchar \<Rightarrow> uchar"
  ce_raw :: cached_resource
  ce_now :: double
  ce_toDouble :: "string \<Rightarrow> double option"
  ce_parseDate :: "string \<Rightarrow> double"
  ce_resourceData :: "shared_buffer option"

definition for_cache :: "('w, 'f) cache_env \<Rightarrow> http_response \<Rightarrow> response" where
  \<comment> \<open>what the cache asks of the response\<close>
  "for_cache ce r =
     (let p = with_cache_control (ce_toDouble ce) r; text = (\<lambda>s. of_latin1 (text_of s)) in
      \<lparr>r_mimeType = text (rs_mimeType r), r_expectedContentLength = word_of_int (rs_expectedContentLength r),
       r_textEncodingName = text (rs_textEncodingName r), r_suggestedFilename = text (rs_suggestedFilename r),
       r_httpStatusCode = word_of_int (rs_httpStatusCode r),
       r_expires = fst (response_expires (ce_parseDate ce) r), r_date = fst (response_date (ce_parseDate ce) r),
       r_lastModified = fst (response_lastModified (ce_parseDate ce) r),
       r_lastModifiedHeader = text (httpHeaderField r ''Last-Modified''), r_eTagHeader = text (httpHeaderField r ''ETag''),
       r_noCache = m_cacheControlContainsNoCache p, r_noStore = m_cacheControlContainsNoStore p,
       r_mustRevalidate = m_cacheControlContainsMustRevalidate p, r_maxAge = m_cacheControlMaxAge p\<rparr>)"

definition updateProxyAuthenticate :: "answers \<Rightarrow> jid \<Rightarrow> 'w net \<Rightarrow> 'w net option" where
  "updateProxyAuthenticate a j n =
     (if \<not> m_tryProxySingleConnect (net_rhm n) then Some n
      else
        let n1 = upd_rhm (\<lambda>m. m\<lparr>m_tryProxySingleConnect := False\<rparr>) n; d = transfers n j in
        case requested_scheme a of
          None \<Rightarrow> Some n1
        | Some scheme \<Rightarrow> map_option (\<lambda>jar. n1\<lparr>m_authJar := jar\<rparr>)
            (setProxyUserPassword (m_proxy n) (m_proxyPort n) ProtectionSpaceProxyHTTP scheme (m_proxyAuthUser d) (m_proxyAuthPass d) (m_authJar n)))"

definition known_proxy :: "answers \<Rightarrow> jid \<Rightarrow> 'w net \<Rightarrow> 'w net option" where
  "known_proxy a j n =
     (if \<not> m_fileLoading (the_job n j) \<and> m_proxyAuthWellKnownWhenInitializeHandle (transfers n j)
      then updateProxyAuthenticate a j n else Some n)"

datatype next_step = Proceed | Next_message

definition store_or_serve :: "app \<Rightarrow> env \<Rightarrow> ('w, 'f) cache_env \<Rightarrow> jid \<Rightarrow> 'w net \<Rightarrow> (next_step \<times> 'w net) option" where
  "store_or_serve ap e ce j n =
     (let m = net_rhm n; r = m_response (transfers n j); url = firstRequestURL (jobs m j); code = rs_httpStatusCode r in
      if m_disabled (m_httpCache m) then Some (Proceed, n)
      else if code \<in> {200, 201, 300, 301, 410} then
        Some (Proceed, upd_rhm (\<lambda>m. snd (addHTTPCache (ce_files ce) (ce_foldCase ce) (ce_raw ce) (ce_now ce) j url (ce_resourceData ce) (for_cache ce r) m))
          (upd_response j (with_cache_control (ce_toDouble ce)) n))
      else if code = 304 \<and> m_utilizedHTTPCache (jobs m j) \<and> cachePolicy (jobs m j) \<noteq> ReloadIgnoringCacheData then
        map_option (Pair Next_message)
          (remove_from_curl ap j
             (case resourceForURL url (m_httpCache m) of
                Some r \<Rightarrow> upd_rhm (scheduleLoadResourceFromHTTPCache j) n
              | None \<Rightarrow> client_call e j DidFail n))
      else Some (Proceed, n))"

definition transfer_ok :: "app \<Rightarrow> env \<Rightarrow> answers \<Rightarrow> ('w, 'f) cache_env \<Rightarrow> jid \<Rightarrow> 'w net \<Rightarrow> (next_step \<times> 'w net) option" where
  "transfer_ok ap e a ce j n0 =
     Option.bind (if m_responseFired (m_response (transfers n0 j)) then Some n0 else handleLocalReceiveResponse e j n0) (\<lambda>n1.
       if \<not> m_responseFired (m_response (transfers n0 j))
          \<and> (m_cancelled (the_job n1 j) \<or> m_didAuthChallenge (transfers n1 j) \<or> m_doRedirectChallenge (transfers n1 j))
       then map_option (Pair Next_message) (remove_from_curl ap j n1)
       else Option.bind (known_proxy a j n1) (\<lambda>n2.
         if \<not> m_client (the_job n2 j) then Some (Proceed, n2)
         else map_option (\<lambda>(s, n3). (s, if s = Proceed then client_call e j DidFinishLoading n3 else n3))
                (store_or_serve ap e ce j n2)))"

definition transfer_failed :: "env \<Rightarrow> answers \<Rightarrow> jid \<Rightarrow> 'w net \<Rightarrow> 'w net" where
  "transfer_failed e a j n =
     (let ssl = (m_isSSL (transfers n j) \<and> \<not> m_SSLHandshaked (transfers n j) \<and> loader_client e) in
      if ssl \<and> reconnect_SSL a then upd_transfer j (\<lambda>d. d\<lparr>m_sslReconnect := True\<rparr>) n
      else client_call e j DidFail (if ssl then upd_transfer j (\<lambda>d. d\<lparr>m_SSLHandshaked := True\<rparr>) n else n))"

definition transfer_result :: "app \<Rightarrow> env \<Rightarrow> answers \<Rightarrow> ('w, 'f) cache_env \<Rightarrow> CURLcode \<Rightarrow> jid \<Rightarrow> 'w net \<Rightarrow> (next_step \<times> 'w net) option" where
  "transfer_result ap e a ce res j n =
     (if m_redirectInWKC n \<and> m_redirectMaxCount (transfers n j) < m_redirectCount (the_job n j)
      then Some (Proceed, client_call e j DidFail n)
      else if res = CURLE_OK \<or> res = CURLE_PARTIAL_FILE then transfer_ok ap e a ce j n
      else if res = CURLE_OPERATION_TIMEDOUT \<and> m_responseFired (m_response (transfers n j))
      then map_option (\<lambda>n1. (Proceed, client_call e j DidFinishLoading n1)) (known_proxy a j n)
      else Some (Proceed, transfer_failed e a j n))"

definition answer_challenge :: "app \<Rightarrow> env \<Rightarrow> answers \<Rightarrow> jid \<Rightarrow> 'w net \<Rightarrow> (next_step \<times> 'w net) option" where
  "answer_challenge ap e a j n0 =
     (let clear = upd_transfer j (\<lambda>d. d\<lparr>m_receivedData := []\<rparr>);
          next = (\<lambda>n. map_option (\<lambda>n'. (Next_message, clear n')) (remove_from_curl ap j n))
      in Option.bind (didReceiveAuthenticationChallenge e a j n0) (\<lambda>n.
           if m_cancelled (the_job n j) \<or> m_didAuthChallenge (transfers n j) then next n
           else if \<not> m_client (the_job n j) then Some (Proceed, clear n)
           else
             let n1 = upd_response j (\<lambda>r. r\<lparr>m_responseFired := True\<rparr>) (client_call e j DidReceiveResponse n)
             in if \<not> frame_alive a then next n1
                else Some (Proceed, clear (client_call e j (DidReceiveData (m_receivedData (transfers n1 j))) n1))))"

definition end_message :: "app \<Rightarrow> jid \<Rightarrow> 'w net \<Rightarrow> 'w net option" where
  "end_message ap j n =
     (if m_cancelled (the_job n j) \<or> \<not> m_handle (the_job n j) \<or> j \<notin> set (m_runningJobList (net_rhm n)) then Some n
      else remove_from_curl ap j n)"

definition transfer_message :: "app \<Rightarrow> env \<Rightarrow> answers \<Rightarrow> ('w, 'f) cache_env \<Rightarrow> CURLcode \<Rightarrow> jid \<Rightarrow> 'w net \<Rightarrow> 'w net option" where
  \<comment> \<open>the turn of the loop of \<open>_downloadTimerCallback\<close> for a message \<open>CURLMSG_DONE\<close>\<close>
  "transfer_message ap e a ce res j n =
     (let code = rs_httpStatusCode (m_response (transfers n j)) in
      if m_cancelled (the_job n j) \<or> m_doRedirectChallenge (transfers n j) then remove_from_curl ap j n
      else Option.bind (if code = 401 \<or> code = 407 then answer_challenge ap e a j n else Some (Proceed, n)) (\<lambda>(s1, n1).
        if s1 = Next_message then Some n1
        else Option.bind (transfer_result ap e a ce res j n1) (\<lambda>(s2, n2).
          if s2 = Next_message then Some n2 else end_message ap j n2)))"


section \<open>References\<close>

text \<open>
  A job whose redirection is being followed is in none of the lists until it is scheduled again, but keeps the reference it
  had as a running job.
\<close>

definition floating :: "'w net \<Rightarrow> jid \<Rightarrow> bool" where
  "floating n k \<longleftrightarrow> m_doRedirectChallenge (transfers n k) \<and> m_handle (the_job n k)"

definition net_slack :: "'w net \<Rightarrow> jid \<Rightarrow> int" where
  "net_slack n k = slack (net_rhm n) k - (if floating n k then 1 else 0)"

text \<open>What most operations leave alone.\<close>

definition core :: "'w net \<Rightarrow> (jid \<Rightarrow> int) \<times> (jid \<Rightarrow> bool) \<times> (jid \<Rightarrow> bool) \<times> jid list" where
  "core n = (slack (net_rhm n), (\<lambda>k. m_handle (the_job n k)), (\<lambda>k. m_doRedirectChallenge (transfers n k)), m_runningJobList (net_rhm n))"

named_theorems core_simps

lemma core_transfer [core_simps]: "(\<And>d. m_doRedirectChallenge (f d) = m_doRedirectChallenge d) \<Longrightarrow> core (upd_transfer j f n) = core n"
  by (auto simp: core_def)

lemma core_response [core_simps]: "core (upd_response j g n) = core n"
  by (simp add: upd_response_def core_transfer)

lemma core_jar [core_simps]: "core (n\<lparr>m_authJar := jar\<rparr>) = core n"
  by (simp add: core_def)

lemma core_job [core_simps]:
  "(\<And>d. refs (f d) = refs d \<and> m_handle (f d) = m_handle d) \<Longrightarrow> core (upd_rhm (upd_job j f) n) = core n"
  by (auto simp: core_def slack_upd upd_job_def fun_eq_iff slack_def listed_def)

lemma core_timer [core_simps]: "core (start_timer n) = core n"
  by (simp add: start_timer_def core_def slack_simps fun_eq_iff)

lemma cancel_keeps: "m_handle (jobs (cancel j m) k) = m_handle (jobs m k)" "m_runningJobList (cancel j m) = m_runningJobList m"
  by (simp_all add: cancel_def removeScheduledJob_def deref_job_def upd_job_def Let_def)

lemma notify_keeps: "jobs (notify j ev m) = jobs m" "m_runningJobList (notify j ev m) = m_runningJobList m"
  by (simp_all add: notify_def)

lemma core_call [core_simps]: "core (client_call e j ev n) = core n"
  by (simp add: client_call_def core_def cancel_keeps slack_simps notify_keeps fun_eq_iff)

lemma core_floating: "core n' = core n \<Longrightarrow> floating n' k = floating n k \<and> net_slack n' k = net_slack n k"
  by (auto simp: core_def floating_def net_slack_def fun_eq_iff)

definition attached :: "'w net \<Rightarrow> jid \<Rightarrow> bool" where
  \<comment> \<open>a job with a handle is running or floating\<close>
  "attached n j \<longleftrightarrow> (m_handle (the_job n j) \<longrightarrow> (j \<in> set (m_runningJobList (net_rhm n)) \<longleftrightarrow> \<not> m_doRedirectChallenge (transfers n j)))"

lemma core_attached: "core n' = core n \<Longrightarrow> attached n' j = attached n j"
  by (auto simp: core_def attached_def fun_eq_iff)


lemma core_didAuth: "didAuthChallenge j p n = Some n' \<Longrightarrow> core n' = core n"
  by (auto simp: didAuthChallenge_def Let_def core_simps split: if_splits)

lemma core_cancelAuth [core_simps]: "core (cancelAuthChallenge j p n) = core n"
  by (simp add: cancelAuthChallenge_def core_simps)

lemma core_received: "receivedCredential j ch u w n = Some n' \<Longrightarrow> core n' = core n"
  by (auto simp: receivedCredential_def core_simps dest!: core_didAuth split: if_splits)

lemma core_without [core_simps]: "core (receivedRequestToContinueWithoutCredential b j ch n) = core n"
  by (simp add: receivedRequestToContinueWithoutCredential_def Let_def core_simps)

lemma core_ask: "ask_user e a j n = Some n' \<Longrightarrow> core n' = core n"
  by (auto simp: ask_user_def Let_def core_simps dest!: core_received split: if_splits user_reply.splits)

lemma core_ntlm [core_simps]: "core (snd (ntlm_step p j n)) = core n"
  by (simp add: ntlm_step_def Let_def core_simps)

lemma core_proxy_lookup: "proxy_lookup j n = Some (b, st, n') \<Longrightarrow> core n' = core n"
  by (auto simp: proxy_lookup_def Let_def core_simps split: if_splits option.splits)

lemma core_web_lookup: "web_lookup j h n = Some (b, st, n') \<Longrightarrow> core n' = core n"
  by (auto simp: web_lookup_def Let_def core_simps split: if_splits option.splits)

lemma core_put [core_simps]: "core (put_challenge j h p st r s n) = core n" "core (count_challenge j proxy n) = core n"
  by (simp_all add: put_challenge_def count_challenge_def core_simps)

lemma core_settle: "settle_challenge e a j p s ask n = Some n' \<Longrightarrow> core n' = core n"
  by (auto simp: settle_challenge_def core_simps dest!: core_ask split: if_splits)

lemma core_pose:
  assumes "pose_challenge e a j p s n = Some n'"
  shows "core n' = core n"
proof -
  obtain host port ask st n1 realm n2 where l: "(if p then proxy_lookup j n else web_lookup j host n) = Some (ask, st, n1)"
    and s: "settle_challenge e a j p s ask (put_challenge j host port st realm s n1) = Some n2" and n': "n' = count_challenge j p n2"
    using assms unfolding pose_challenge_def by (auto simp: bind_eq_Some_conv Let_def)
  have "core n1 = core n" using l core_proxy_lookup core_web_lookup by (metis (full_types))
  then show ?thesis using core_settle [OF s] n' by (simp add: core_simps)
qed

lemma core_challenge: "didReceiveAuthenticationChallenge e a j n = Some n' \<Longrightarrow> core n' = core n"
  using core_ntlm [of _ j n]
  by (auto simp: didReceiveAuthenticationChallenge_def Let_def core_simps case_prod_beta dest!: core_pose split: if_splits option.splits)

lemma core_setAuth: "setAuthChallenge j n = Some (b, n') \<Longrightarrow> core n' = core n"
  by (auto simp: setAuthChallenge_def Let_def core_simps split: if_splits)

lemma core_local: "handleLocalReceiveResponse e j n = Some n' \<Longrightarrow> core n' = core n"
  by (auto simp: handleLocalReceiveResponse_def Let_def core_simps)

lemma core_known_proxy: "known_proxy a j n = Some n' \<Longrightarrow> core n' = core n"
proof -
  have "core (upd_rhm (\<lambda>m. m\<lparr>m_tryProxySingleConnect := b\<rparr>) n) = core n" for b and n :: "'a net"
    by (simp add: core_def slack_def listed_def fun_eq_iff)
  then show "known_proxy a j n = Some n' \<Longrightarrow> core n' = core n"
    by (auto simp: known_proxy_def updateProxyAuthenticate_def Let_def core_simps split: if_splits option.splits)
qed

lemma core_failed [core_simps]: "core (transfer_failed e a j n) = core n"
  by (simp add: transfer_failed_def Let_def core_simps)

lemma jobs_update_cache:
  "updateCacheResource fp fc now url dat resp nc ns mr ex ma m = (ro, m') \<Longrightarrow> jobs m' = jobs m \<and> m_runningJobList m' = m_runningJobList m
    \<and> m_scheduledJobList m' = m_scheduledJobList m \<and> m_readCacheJobList m' = m_readCacheJobList m"
  by (auto simp: updateCacheResource_def Let_def split: option.splits if_splits)

lemma jobs_addHTTPCache:
  assumes "addHTTPCache fp fc raw now j url dat resp m = (ok, m')"
  shows "jobs m' = jobs m \<and> m_runningJobList m' = m_runningJobList m
    \<and> m_scheduledJobList m' = m_scheduledJobList m \<and> m_readCacheJobList m' = m_readCacheJobList m"
  using assms unfolding addHTTPCache_def
  by (auto simp: Let_def dest!: jobs_update_cache split: option.splits prod.splits if_splits)


lemma canPermit_keeps:
  "m_handle (jobs (canPermitRequest ap j m) k) = m_handle (jobs m k)"
  "m_runningJobList (canPermitRequest ap j m) = m_runningJobList m"
  by (simp_all add: canPermitRequest_def upd_job_def Let_def)

lemma appendScheduled_keeps:
  "m_handle (jobs (appendScheduledJob ap j m) k) = m_handle (jobs m k)"
  "m_runningJobList (appendScheduledJob ap j m) = m_runningJobList m"
  by (simp_all add: appendScheduledJob_def Let_def canPermit_keeps)

lemma slack_finish:
  assumes "m_handle (the_job n j)" "attached n j"
  shows "net_slack (upd_rhm (removeFromCurl False j) n) k = net_slack n k"
proof -
  have "slack (removeFromCurl False j (net_rhm n)) k = slack (net_rhm n) k
      - (if k = j \<and> j \<notin> set (m_runningJobList (net_rhm n)) then 1 else 0)"
    using assms(1) by (simp add: removeFromCurl_def removeRunningJob_def slack_simps count_remove1 del: count_list_remove1)
  moreover have "m_handle (jobs (removeFromCurl False j (net_rhm n)) k) \<longleftrightarrow> k \<noteq> j \<and> m_handle (the_job n k)"
    using assms(1) by (simp add: removeFromCurl_def removeRunningJob_def deref_job_def upd_job_def)
  ultimately show ?thesis using assms by (auto simp: net_slack_def floating_def attached_def)
qed

lemma slack_doRedirect:
  assumes "m_handle (the_job n j)"
  shows "net_slack (snd (doRedirect ap j n)) k = net_slack n k"
  using assms by (auto simp: doRedirect_def net_slack_def floating_def slack_simps appendScheduled_keeps)

lemma core_slack: "core n' = core n \<Longrightarrow> net_slack n' k = net_slack n k"
  using core_floating by blast

lemma core_handle: "core n' = core n \<Longrightarrow> m_handle (the_job n' k) = m_handle (the_job n k)"
  by (auto simp: core_def fun_eq_iff)

lemma slack_remove_from_curl:
  assumes "remove_from_curl ap j n = Some n'" "attached n j"
  shows "net_slack n' k = net_slack n k"
proof (cases "m_handle (the_job n j)")
  case False
  then show ?thesis using assms(1) by (simp add: remove_from_curl_def)
next
  case True
  show ?thesis
  proof (cases "m_cancelled (the_job n j)")
    case True
    then show ?thesis using assms \<open>m_handle (the_job n j)\<close> slack_finish by (auto simp: remove_from_curl_def)
  next
    case False
    then obtain b n1 where s: "setAuthChallenge j n = Some (b, n1)"
      and n': "n' = (if b then start_timer n1
        else if m_sslReconnect (transfers n1 j)
        then start_timer (upd_rhm (upd_job j (\<lambda>d. d\<lparr>m_permitSend := PERMIT\<rparr>)) (upd_transfer j (\<lambda>d. d\<lparr>m_sslReconnect := False\<rparr>) n1))
        else if m_redirectInWKC n1 \<and> m_doRedirectChallenge (transfers n1 j) then start_timer (snd (doRedirect ap j n1))
        else upd_rhm (removeFromCurl False j) n1)"
      using assms(1) True by (auto simp: remove_from_curl_def)
    note c = core_setAuth [OF s]
    have h: "m_handle (the_job n1 j)" "attached n1 j" using core_handle [OF c] core_attached [OF c] True assms(2) by simp_all
    have timer: "net_slack (start_timer x) k = net_slack x k" for x :: "'a net" by (rule core_slack [OF core_timer])
    have "core (upd_rhm (upd_job j (\<lambda>d. d\<lparr>m_permitSend := PERMIT\<rparr>)) (upd_transfer j (\<lambda>d. d\<lparr>m_sslReconnect := False\<rparr>) n1)) = core n1"
      by (simp add: core_simps)
    note ssl = core_slack [OF this, of k]
    have "net_slack n' k = net_slack n1 k"
      unfolding n' using slack_finish [OF h, of k] slack_doRedirect [OF h(1), of ap k] timer ssl by (simp only: split: if_split) simp
    then show ?thesis using core_slack [OF c] by simp
  qed
qed

lemma slack_redirected:
  assumes "didReceiveRedirect j url n = (b, n')" "attached n j" "m_handle (the_job n j)" "\<not> m_doRedirectChallenge (transfers n j)"
  shows "net_slack n' k = net_slack n k"
proof -
  have run: "j \<in> set (m_runningJobList (net_rhm n))" using assms(2-4) by (simp add: attached_def)
  show ?thesis using assms(1,3,4) run
    by (auto simp: didReceiveRedirect_def Let_def net_slack_def floating_def removeRunningJob_def slack_simps count_remove1
        simp del: count_list_remove1 split: if_splits)
qed

section \<open>The callbacks and the references\<close>

lemma core_password: "store_password e j location n = Some n' \<Longrightarrow> core n' = core n"
  by (auto simp: store_password_def Let_def core_simps split: if_splits)

lemma core_before [core_simps]: "core (before_redirect e j c u n) = core n"
  by (simp add: before_redirect_def Let_def core_simps)

lemma core_fire: "fire_response e j k n = (r, n') \<Longrightarrow> core n' = core n"
  by (auto simp: fire_response_def Let_def core_simps split: if_splits)

lemma core_header_line: "header_line e j h n = Some n' \<Longrightarrow> core n' = core n"
  by (auto simp: header_line_def status_line_def Let_def core_simps split: option.splits if_splits)

lemma core_data: "deliver_data e j k ptr n = (r, n') \<Longrightarrow> core n' = core n"
  by (auto simp: deliver_data_def Let_def core_simps split: if_splits)

lemma core_kept: "deliver_kept e j n = (ok, n') \<Longrightarrow> core n' = core n"
  by (auto simp: deliver_kept_def Let_def core_simps split: if_splits)

lemma core_begin: "begin_body e j ptr n = (rest, n') \<Longrightarrow> core n' = core n"
  by (auto simp: begin_body_def Let_def core_simps split: if_splits)

lemma core_unlabelled [core_simps]: "core (unlabelled_response e j ptr n) = core n"
  by (simp add: unlabelled_response_def Let_def core_simps)

lemma core_body:
  assumes "receive_body e j ptr n = Some (r, n')"
  shows "core n' = core n"
proof (cases "m_responseFired (m_response (transfers n j))")
  case True
  then show ?thesis using assms core_data by (simp add: receive_body_def) blast
next
  case False
  define b where "b = (if text_of (rs_mimeType (m_response (transfers n j))) = [] then begin_body e j ptr n else (Some ptr, n))"
  obtain rest n1 where b1: "b = (rest, n1)" by (cases b)
  then have c1: "core n1 = core n" unfolding b_def using core_begin by (auto split: if_splits)
  have res: "Some (r, n') = (case rest of None \<Rightarrow> Some (length ptr, n1)
      | Some ptr' \<Rightarrow> map_option (\<lambda>n2. if m_cancelled (the_job n2 j) then (0, n2)
          else let (ok, n3) = deliver_kept e j n2 in if ok then deliver_data e j (length ptr) ptr' n3 else (0, n3))
        (handleLocalReceiveResponse e j n1))"
    using assms False b1 unfolding receive_body_def b_def by (simp add: Let_def)
  show ?thesis
  proof (cases rest)
    case (Some ptr')
    from res Some obtain n2 where n2: "handleLocalReceiveResponse e j n1 = Some n2"
      by (cases "handleLocalReceiveResponse e j n1") simp_all
    obtain ok n3 where k: "deliver_kept e j n2 = (ok, n3)" by (cases "deliver_kept e j n2")
    have "core n' = core n2 \<or> core n' = core n3"
      using res Some n2 k core_data [of e j "length ptr" ptr' n3 r n'] by (auto split: if_splits)
    then show ?thesis using core_local [OF n2] core_kept [OF k] c1 by simp
  qed (use res c1 in simp)
qed

lemma core_write:
  assumes "writeCallback e j ptr n = Some (r, n')"
  shows "core n' = core n"
  using assms core_body [of e j ptr n r n'] core_body [of e j ptr "unlabelled_response e j ptr n" r n']
  by (auto simp: writeCallback_def Let_def core_simps split: if_splits)

lemma core_store: "core (upd_rhm (\<lambda>m. snd (addHTTPCache fp fc raw now j url dat resp m)) n) = core n"
  using jobs_addHTTPCache [of fp fc raw now j url dat resp "net_rhm n"]
  by (cases "addHTTPCache fp fc raw now j url dat resp (net_rhm n)") (simp add: core_def slack_def listed_def fun_eq_iff)

lemma core_load: "core (upd_rhm (scheduleLoadResourceFromHTTPCache j) n) = core n"
  by (simp add: core_def slack_simps fun_eq_iff) (simp add: scheduleLoadResourceFromHTTPCache_def ref_job_def)

section \<open>Transfers as a step relation\<close>

text \<open>
  The jobs that libcurl works on are in the list of running jobs, once, until their redirection is taken up.
\<close>

definition on_curl :: "'w net \<Rightarrow> bool" where
  "on_curl n \<longleftrightarrow> distinct (m_runningJobList (net_rhm n))
     \<and> (\<forall>j \<in> set (m_runningJobList (net_rhm n)). m_handle (the_job n j) \<and> \<not> m_doRedirectChallenge (transfers n j))"

lemma core_on_curl: "core n' = core n \<Longrightarrow> on_curl n' = on_curl n"
  unfolding core_def on_curl_def prod.inject fun_eq_iff by metis

lemma on_curl_attached: "on_curl n \<Longrightarrow> j \<in> set (m_runningJobList (net_rhm n)) \<or> floating n j \<Longrightarrow> attached n j"
  by (auto simp: on_curl_def attached_def floating_def)

definition kept :: "'w net \<Rightarrow> 'w net \<Rightarrow> bool" where
  "kept n n' \<longleftrightarrow> (on_curl n \<longrightarrow> on_curl n') \<and> (\<forall>k. net_slack n' k = net_slack n k)"

lemma kept_core: "core n' = core n \<Longrightarrow> kept n n'"
  using core_on_curl core_slack unfolding kept_def by metis

lemma kept_trans: "kept n n1 \<Longrightarrow> kept n1 n2 \<Longrightarrow> kept n n2"
  by (simp add: kept_def)

definition live :: "'w net \<Rightarrow> jid \<Rightarrow> bool" where
  "live n j \<longleftrightarrow> on_curl n \<and> (j \<in> set (m_runningJobList (net_rhm n)) \<or> floating n j)"

lemma core_live: "core n' = core n \<Longrightarrow> live n' j = live n j"
  unfolding live_def using core_on_curl [of n' n] core_floating [of n' n j] by (simp add: core_def)

lemma live_handle: "live n j \<Longrightarrow> m_handle (the_job n j)"
  by (auto simp: live_def floating_def on_curl_def)

lemma on_curl_finish:
  assumes "on_curl n"
  shows "on_curl (upd_rhm (removeFromCurl False j) n)"
  using assms by (auto simp: on_curl_def removeFromCurl_def removeRunningJob_def deref_job_def upd_job_def)

lemma on_curl_doRedirect: "on_curl n \<Longrightarrow> on_curl (snd (doRedirect ap j n))"
  by (auto simp: on_curl_def doRedirect_def appendScheduled_keeps)

lemma kept_remove:
  assumes "remove_from_curl ap j n = Some n'" "live n j"
  shows "kept n n'"
proof -
  have "on_curl n'"
  proof (cases "m_cancelled (the_job n j)")
    case True
    then show ?thesis using assms live_handle [OF assms(2)] on_curl_finish by (auto simp: remove_from_curl_def live_def)
  next
    case False
    then obtain b n1 where s: "setAuthChallenge j n = Some (b, n1)"
      and n': "n' = (if b then start_timer n1
        else if m_sslReconnect (transfers n1 j)
        then start_timer (upd_rhm (upd_job j (\<lambda>d. d\<lparr>m_permitSend := PERMIT\<rparr>)) (upd_transfer j (\<lambda>d. d\<lparr>m_sslReconnect := False\<rparr>) n1))
        else if m_redirectInWKC n1 \<and> m_doRedirectChallenge (transfers n1 j) then start_timer (snd (doRedirect ap j n1))
        else upd_rhm (removeFromCurl False j) n1)"
      using assms(1) live_handle [OF assms(2)] by (auto simp: remove_from_curl_def)
    have o: "on_curl n1" using core_on_curl [OF core_setAuth [OF s]] assms(2) by (simp add: live_def)
    have c: "core (upd_rhm (upd_job j (\<lambda>d. d\<lparr>m_permitSend := PERMIT\<rparr>)) (upd_transfer j (\<lambda>d. d\<lparr>m_sslReconnect := False\<rparr>) n1)) = core n1"
      by (simp add: core_simps)
    note t = core_on_curl [OF core_timer]
    show ?thesis unfolding n'
      using o on_curl_finish [OF o] on_curl_doRedirect [OF o, of ap j] core_on_curl [OF c] by (simp only: t split: if_split) simp
  qed
  then show ?thesis
    using slack_remove_from_curl [OF assms(1) on_curl_attached] assms(2) by (auto simp: kept_def live_def)
qed

lemma kept_redirected:
  assumes "didReceiveRedirect j url n = (b, n')" "on_curl n" "j \<in> set (m_runningJobList (net_rhm n))"
  shows "kept n n'"
proof -
  have "on_curl n'" using assms
    by (auto simp: didReceiveRedirect_def Let_def on_curl_def removeRunningJob_def split: if_splits)
  moreover have "m_handle (the_job n j)" "\<not> m_doRedirectChallenge (transfers n j)" using assms(2,3) by (auto simp: on_curl_def)
  ultimately show ?thesis
    using slack_redirected [OF assms(1)] on_curl_attached [OF assms(2), of j] assms(3) by (auto simp: kept_def)
qed

lemma kept_follow:
  assumes "follow_redirect e j k c url n = (r, n')" "on_curl n" "j \<in> set (m_runningJobList (net_rhm n))"
  shows "kept n n'"
proof -
  define n1 where "n1 = before_redirect e j c url n"
  define n2 where "n2 = upd_rhm (upd_job j (\<lambda>d. d\<lparr>firstRequestURL := url\<rparr>)) (upd_response j clear_redirect_headers n1)"
  have c1: "core n1 = core n" and c2: "core n2 = core n" by (simp_all add: n1_def n2_def core_simps)
  obtain h n3 where d: "didReceiveRedirect j url n2 = (h, n3)" by (cases "didReceiveRedirect j url n2")
  have r: "kept n n3"
    using kept_trans [OF kept_core [OF c2] kept_redirected [OF d]] core_on_curl [OF c2] assms(2,3) c2 by (simp add: core_def)
  have "core n' = core n \<or> core n' = core n3"
    using assms(1) c1 d core_fire [of e j k n3 r n'] unfolding follow_redirect_def n1_def [symmetric] Let_def n2_def [symmetric]
    by (auto split: if_splits)
  then show ?thesis using kept_core r kept_trans by blast
qed

lemma kept_respond:
  assumes "respond e j k c n = Some (r, n')" "on_curl n" "j \<in> set (m_runningJobList (net_rhm n))"
  shows "kept n n'"
proof (cases "(c = 401 \<or> c = 407) \<and> isHTTP (m_response (transfers n j))")
  case True
  have "core (upd_transfer j (\<lambda>d. snd (headerRealm c d)) n) = core n"
    by (rule core_transfer) (simp add: headerRealm_def Let_def split: option.splits)
  then show ?thesis using assms(1) True kept_core by (auto simp: respond_def)
next
  case False
  then obtain n1 where n1: "(if c < 300 then store_password e j [] n else Some n) = Some n1"
    and r: "(let location = text_of (httpHeaderField (m_response (transfers n1 j)) ''location'') in
      if 300 \<le> c \<and> c < 400 \<and> location \<noteq> [] then redirect e j k c location n1 else Some (fire_response e j k n1)) = Some (r, n')"
    using assms(1) unfolding respond_def if_not_P [OF False] bind_eq_Some_conv by blast
  have c1: "core n1 = core n" using n1 by (auto dest!: core_password split: if_splits)
  from r consider "fire_response e j k n1 = (r, n')" | l where "redirect e j k c l n1 = Some (r, n')"
    by (auto simp: Let_def split: if_splits)
  then show ?thesis
  proof cases
    case 1
    then show ?thesis using core_fire c1 kept_core by metis
  next
    case (2 l)
    then obtain url n2 where n2: "(if c < 304 then store_password e j l n1 else Some n1) = Some n2"
      and f: "follow_redirect e j k c url n2 = (r, n')"
      unfolding redirect_def bind_eq_Some_conv by auto
    have c2: "core n2 = core n" using n2 c1 by (auto dest!: core_password split: if_splits)
    show ?thesis using kept_trans [OF kept_core [OF c2] kept_follow [OF f]] core_on_curl [OF c2] assms(2,3) c2
      by (simp add: core_def)
  qed
qed

lemma core_end:
  assumes "end_of_header e j k n = Some (r, n')"
  shows "core n' = core n \<or> (\<exists>k c n1. respond e j k c n1 = Some (r, n') \<and> core n1 = core n)"
proof -
  obtain url where url: "KURL_parse (effective_url e) = Some url" using assms by (auto simp: end_of_header_def bind_eq_Some_conv)
  define n1 where "n1 = upd_response j (\<lambda>r. r\<lparr>rs_url := url\<rparr>) n"
  have c1: "core n1 = core n" by (simp add: n1_def core_response)
  note eq = assms [unfolded end_of_header_def url bind.simps Let_def n1_def [symmetric]]
  show ?thesis
  proof (cases "final_code e (m_isSSL (transfers n1 j))")
    case None
    then show ?thesis using eq c1 by simp
  next
    case (Some c)
    define n2 where "n2 = upd_response j (\<lambda>r. r\<lparr>rs_httpStatusCode := c\<rparr>) n1"
    have c2: "core (upd_response j f n2) = core n" "core n2 = core n" for f by (simp_all add: n2_def core_response c1)
    note eq' = eq [unfolded Some option.case n2_def [symmetric]]
    show ?thesis
    proof (cases "c = 100")
      case True
      then show ?thesis using eq' c2(2) by simp
    next
      case False
      show ?thesis using eq' [unfolded if_not_P [OF False]] c2(1) by blast
    qed
  qed
qed

lemma kept_header:
  assumes "headerCallback e j ptr n = Some (r, n')" "on_curl n" "j \<in> set (m_runningJobList (net_rhm n))"
  shows "kept n n'"
proof -
  have "core n' = core n \<or> (\<exists>k c n1. respond e j k c n1 = Some (r, n') \<and> core n1 = core n)"
    using assms(1) core_end [of e j "length ptr" n r n'] core_header_line [of e j "header_text ptr" n n'] unfolding headerCallback_def Let_def
    by (simp split: if_splits)
  then consider "core n' = core n" | k c n1 where "respond e j k c n1 = Some (r, n')" "core n1 = core n" by blast
  then show ?thesis
  proof cases
    case (2 k c n1)
    have "kept n1 n'" using kept_respond [OF 2(1)] core_on_curl [OF 2(2)] assms(2,3) 2(2) by (simp add: core_def)
    then show ?thesis using kept_core [OF 2(2)] kept_trans by blast
  qed (rule kept_core)
qed

lemma kept_store:
  assumes "store_or_serve ap e ce j n = Some (s, n')" "live n j"
  shows "kept n n'"
proof -
  define n1 where "n1 = (case resourceForURL (firstRequestURL (the_job n j)) (m_httpCache (net_rhm n)) of
      Some r \<Rightarrow> upd_rhm (scheduleLoadResourceFromHTTPCache j) n | None \<Rightarrow> client_call e j DidFail n)"
  have c1: "core n1 = core n" unfolding n1_def using core_load [of j n] by (simp add: core_simps split: option.split)
  have "core n' = core n \<or> remove_from_curl ap j n1 = Some n'"
    using assms(1) unfolding store_or_serve_def Let_def n1_def
    by (auto simp: core_simps core_store split: if_splits)
  then show ?thesis
    using kept_core kept_trans [OF kept_core [OF c1] kept_remove] core_live [OF c1] assms(2) by blast
qed

lemma kept_call: "kept n n1 \<Longrightarrow> kept n (client_call e j ev n1)"
  by (rule kept_trans [OF _ kept_core [OF core_call]])

lemma kept_ok:
  assumes "transfer_ok ap e a ce j n = Some (s, n')" "live n j"
  shows "kept n n' \<and> (s = Proceed \<longrightarrow> core n' = core n)"
proof -
  obtain n1 where n1: "(if m_responseFired (m_response (transfers n j)) then Some n else handleLocalReceiveResponse e j n) = Some n1"
    using assms(1) unfolding transfer_ok_def bind_eq_Some_conv by blast
  have c1: "core n1 = core n" using n1 core_local by (auto split: if_splits)
  note l1 = core_live [OF c1]
  consider "remove_from_curl ap j n1 = Some n'" "s = Next_message"
    | n2 where "known_proxy a j n1 = Some n2" "n' = n2"
    | n2 n3 where "known_proxy a j n1 = Some n2" "store_or_serve ap e ce j n2 = Some (s, n3)"
        "n' = (if s = Proceed then client_call e j DidFinishLoading n3 else n3)"
    using assms(1) n1 unfolding transfer_ok_def by (auto simp: bind_eq_Some_conv split: if_splits)
  then show ?thesis
  proof cases
    case 1
    then show ?thesis using kept_trans [OF kept_core [OF c1] kept_remove] l1 assms(2) by blast
  next
    case (2 n2)
    then show ?thesis using core_known_proxy c1 kept_core by metis
  next
    case (3 n2 n3)
    have c2: "core n2 = core n" using core_known_proxy [OF 3(1)] c1 by simp
    have "kept n n3" using kept_trans [OF kept_core [OF c2] kept_store [OF 3(2)]] core_live [OF c2] assms(2) by blast
    moreover have "s = Proceed \<longrightarrow> core n3 = core n2"
      using 3(2) unfolding store_or_serve_def Let_def by (auto simp: core_simps core_store split: if_splits)
    ultimately show ?thesis using 3(3) c2 kept_call by (auto simp: core_simps)
  qed
qed

lemma kept_result:
  assumes "transfer_result ap e a ce res j n = Some (s, n')" "live n j"
  shows "kept n n' \<and> (s = Proceed \<longrightarrow> core n' = core n)"
proof -
  consider "transfer_ok ap e a ce j n = Some (s, n')" | "core n' = core n"
    using assms(1) unfolding transfer_result_def
    by (auto simp: core_simps dest!: core_known_proxy split: if_splits)
  then show ?thesis using kept_ok [OF _ assms(2)] kept_core by cases blast+
qed

lemma kept_answer:
  assumes "answer_challenge ap e a j n = Some (s, n')" "live n j"
  shows "kept n n' \<and> (s = Proceed \<longrightarrow> core n' = core n)"
proof -
  let ?clear = "upd_transfer j (\<lambda>d. d\<lparr>m_receivedData := []\<rparr>)"
  have clear: "core (?clear x) = core x" for x :: "'a net" by (simp add: core_simps)
  obtain n1 where n1: "didReceiveAuthenticationChallenge e a j n = Some n1"
    using assms(1) unfolding answer_challenge_def Let_def bind_eq_Some_conv by blast
  have "core n' = core n1 \<or> (\<exists>n2 n3. core n2 = core n1 \<and> remove_from_curl ap j n2 = Some n3 \<and> n' = ?clear n3 \<and> s = Next_message)"
    using assms(1) n1 unfolding answer_challenge_def Let_def
    by (auto simp: core_simps split: if_splits) (metis core_call core_response)
  then consider "core n' = core n" | n2 n3 where "core n2 = core n" "remove_from_curl ap j n2 = Some n3" "n' = ?clear n3" "s = Next_message"
    using core_challenge [OF n1] by auto
  then show ?thesis
  proof cases
    case (2 n2 n3)
    then have "kept n n3" using kept_trans [OF kept_core [OF 2(1)] kept_remove [OF 2(2)]] core_live [OF 2(1)] assms(2) by blast
    then show ?thesis using 2(3,4) kept_trans [OF _ kept_core [OF clear]] by simp
  qed (use kept_core in blast)
qed

lemma kept_message:
  assumes "transfer_message ap e a ce res j n = Some n'" "live n j"
  shows "kept n n'"
proof (cases "m_cancelled (the_job n j) \<or> m_doRedirectChallenge (transfers n j)")
  case True
  then show ?thesis using assms kept_remove by (simp add: transfer_message_def)
next
  case False
  let ?code = "rs_httpStatusCode (m_response (transfers n j))"
  obtain s1 n1 where n1: "(if ?code = 401 \<or> ?code = 407 then answer_challenge ap e a j n else Some (Proceed, n)) = Some (s1, n1)"
    and r: "(if s1 = Next_message then Some n1 else Option.bind (transfer_result ap e a ce res j n1) (\<lambda>(s2, n2).
          if s2 = Next_message then Some n2 else end_message ap j n2)) = Some n'"
    using assms(1) unfolding transfer_message_def Let_def if_not_P [OF False] bind_eq_Some_conv split_paired_Ex prod.case by blast
  have k1: "kept n n1 \<and> (s1 = Proceed \<longrightarrow> core n1 = core n)"
    using n1 kept_answer [OF _ assms(2)] kept_core [OF refl, of n] by (auto split: if_splits)
  show ?thesis
  proof (cases s1)
    case Next_message
    then show ?thesis using r k1 by simp
  next
    case Proceed
    then have c1: "core n1 = core n" using k1 by simp
    obtain s2 n2 where n2: "transfer_result ap e a ce res j n1 = Some (s2, n2)"
      and r2: "(if s2 = Next_message then Some n2 else end_message ap j n2) = Some n'"
      using r Proceed by (auto simp: bind_eq_Some_conv)
    have l1: "live n1 j" using core_live [OF c1] assms(2) by simp
    note k2 = kept_result [OF n2 l1]
    show ?thesis
    proof (cases s2)
      case Next_message
      then show ?thesis using r2 k2 kept_trans [OF conjunct1 [OF k1]] by auto
    next
      case Proceed
      then have c2: "core n2 = core n" using k2 c1 by simp
      have "n' = n2 \<or> remove_from_curl ap j n2 = Some n'" using r2 Proceed by (auto simp: end_message_def split: if_splits)
      then show ?thesis
        using kept_core [OF c2] kept_trans [OF kept_core [OF c2] kept_remove] core_live [OF c2] assms(2) by blast
    qed
  qed
qed

text \<open>
  libcurl calls back for the handles it has been given; a message comes for a running job or one to be redirected. A call whose
  result is undefined is no step, and inside a callback a client cancels its own job only.
\<close>

inductive net_step :: "('w, 'f) file_peer \<Rightarrow> app \<Rightarrow> 'w net \<Rightarrow> 'w net \<Rightarrow> bool" for fp ap where
  Header: "j \<in> set (m_runningJobList (net_rhm n)) \<Longrightarrow> headerCallback e j ptr n = Some (r, n') \<Longrightarrow> net_step fp ap n n'"
| Body: "j \<in> set (m_runningJobList (net_rhm n)) \<or> floating n j \<Longrightarrow> writeCallback e j ptr n = Some (r, n') \<Longrightarrow> net_step fp ap n n'"
| Message: "j \<in> set (m_runningJobList (net_rhm n)) \<or> floating n j \<Longrightarrow>
    ce_files ce = fp \<Longrightarrow> transfer_message ap e a ce res j n = Some n' \<Longrightarrow> net_step fp ap n n'"
| Cancelled: "net_step fp ap n (upd_rhm (cancel j) n)"

lemma kept_step:
  assumes "net_step fp ap n n'" "on_curl n"
  shows "kept n n'"
  using assms(1)
proof cases
  case (Header j e ptr r)
  then show ?thesis using kept_header assms(2) by blast
next
  case (Body j e ptr r)
  then show ?thesis using core_write kept_core by blast
next
  case (Message j ce e a res)
  then show ?thesis using kept_message [of ap e a ce res j n n'] assms(2) by (simp add: live_def)
next
  case (Cancelled j)
  have "core (upd_rhm (cancel j) n) = core n" by (simp add: core_def cancel_keeps slack_simps fun_eq_iff)
  then show ?thesis using Cancelled kept_core by simp
qed

interpretation transfers: invariant_system "\<lambda>n. n = n0" "net_step fp ap" "\<lambda>n. on_curl n0 \<longrightarrow> on_curl n \<and> kept n0 n"
  for n0 :: "'w net"
proof unfold_locales
  fix s t :: "'w net"
  assume "on_curl n0 \<longrightarrow> on_curl s \<and> kept n0 s" "net_step fp ap s t"
  then show "on_curl n0 \<longrightarrow> on_curl t \<and> kept n0 t" using kept_step kept_trans kept_def by metis
qed (simp add: kept_def)

section \<open>Properties\<close>

text \<open>
  C8: transfers keep the references of the jobs in balance. Whatever the headers and bodies libcurl hands over, whatever the
  clients do in their callbacks (they may cancel the job in each), whatever the user answers to a challenge and however
  the transfers end, every job keeps as many references beyond those of the lists as it had, one more being held for a
  job between its redirection and its new start. A job that is in a list or waits to be redirected is therefore never deleted.
\<close>

theorem transfers_keep_references:
  assumes "(net_step fp ap)\<^sup>*\<^sup>* n0 n" "on_curl n0"
  shows "on_curl n \<and> net_slack n k = net_slack n0 k
    \<and> (0 \<le> net_slack n0 k \<and> (0 < listed (net_rhm n) k \<or> floating n k) \<longrightarrow> 0 < refs (the_job n k))"
proof -
  have k: "on_curl n" "net_slack n k = net_slack n0 k"
    using transfers.inv_reachable [OF refl assms(1)] assms(2) by (simp_all add: kept_def)
  have "0 \<le> listed (net_rhm n) k" by (simp add: listed_def)
  then show ?thesis using k by (auto simp: net_slack_def slack_def split: if_splits)
qed

definition running_net :: "bool \<Rightarrow> mem_world net" where
  "running_net inWKC =
     \<lparr>net_rhm = (rhm_new (HTTPCache_new (\<lambda>_. None, None)) (\<lambda>_. sample_job\<lparr>refs := 2, m_handle := True\<rparr>))\<lparr>m_runningJobList := [0]\<rparr>,
      m_authJar = AuthenticationJar_new, m_redirectInWKC = inWKC, m_proxy = [], m_proxyPort = 0,
      transfers = (\<lambda>_. ResourceHandleInternal_new [] [] True False)\<rparr>"

definition sample_answers :: "user_reply \<Rightarrow> answers" where
  "sample_answers u = \<lparr>av_ntlm = False, av_digest = False, av_basic = True, reply = (\<lambda>_. u), frame_alive = True, reconnect_SSL = False\<rparr>"

lemma message_step:
  "(net_step mem_peer sample_app)\<^sup>*\<^sup>* (running_net False) (upd_rhm (removeFromCurl False 0) (client_call (sample_env 0) 0 DidFail (running_net False)))"
proof (rule r_into_rtranclp, rule net_step.Message [where j = 0 and res = CURLE_OTHER and a = "sample_answers NoReply" and e = "sample_env 0"])
  show "ce_files \<lparr>ce_files = mem_peer, ce_foldCase = id, ce_raw = HTTPCachedResource_default, ce_now = 0, ce_toDouble = (\<lambda>_. None), ce_parseDate = (\<lambda>_. 0), ce_resourceData = None\<rparr> = mem_peer"
    by simp
qed (simp_all add: running_net_def rhm_new_def sample_job_def sample_env_def sample_answers_def transfer_message_def transfer_result_def ResourceHandleInternal_new_def
    ResourceResponse_new_def transfer_failed_def client_call_def notify_def upd_rhm_def end_message_def remove_from_curl_def setAuthChallenge_def AuthenticationChallenge_new_def)

theorem transfers_keep_references_witness:
  "let n = upd_rhm (removeFromCurl False 0) (client_call (sample_env 0) 0 DidFail (running_net False))
   in m_runningJobList (net_rhm (running_net False)) = [0] \<and> m_runningJobList (net_rhm n) = [] \<and> net_slack n 0 = net_slack (running_net False) 0"
  using transfers_keep_references [OF message_step, of 0]
  by (simp add: Let_def running_net_def rhm_new_def sample_job_def on_curl_def ResourceHandleInternal_new_def removeFromCurl_def removeRunningJob_def
      client_call_def notify_def sample_env_def deref_job_def upd_job_def)

section \<open>A password that was entered\<close>

lemma search_web_other: "\<forall>x \<in> set xs. m_host x \<noteq> h \<Longrightarrow> search_web h r f i fl bl xs = (None, fl, bl)"
  by (induction xs arbitrary: i) simp_all

lemma unknown_host:
  assumes "auth_url_of url = Some au" "\<forall>x \<in> set (m_WebAuthInfoList jar). m_host x \<noteq> url_host au"
  shows "getWebUserPassword url realm jar = Some (None, jar)"
  unfolding getWebUserPassword_def Let_def assms(1) option.map search_web_other [OF assms(2)] by simp

lemma same_challenge_refl: "same_challenge ch ch"
  by (simp add: same_challenge_def)

lemma web_lookup_unknown:
  assumes "m_webAuthURL (transfers n j) = []" "auth_url_of host = Some au" "\<forall>x \<in> set (m_WebAuthInfoList (m_authJar n)). m_host x \<noteq> url_host au"
  shows "web_lookup j host n = Some (True, ProtectionSpaceServerHTTP, n)"
  using assms(1) unknown_host [OF assms(2,3)] by (simp add: web_lookup_def Let_def)

text \<open>The job after its user has entered a password for the web server.\<close>

definition entered :: "jid \<Rightarrow> string \<Rightarrow> string \<Rightarrow> auth_jar \<Rightarrow> 'w net \<Rightarrow> 'w net" where
  "entered j user pass jar n = (let ch = (m_currentWebChallenge (transfers n j))\<lparr>ch_isNull := False, ch_user := user, ch_password := pass\<rparr> in
     upd_transfer j (\<lambda>d. d\<lparr>m_currentWebChallenge := ch, m_webAuthURL := ch_host ch, m_webAuthScheme := ch_scheme ch,
       m_webAuthRealm := ch_realm ch, m_webAuthUser := user, m_webAuthPass := pass, m_didAuthChallenge := True\<rparr>) (n\<lparr>m_authJar := jar\<rparr>))"

lemma received_web:
  assumes "m_currentWebChallenge (transfers n j) = ch" "\<not> ch_isNull ch" "\<not> isProxy ch"
    and "setWebUserPassword id (ch_host ch) ProtectionSpaceServerHTTP (ch_scheme ch) (ch_realm ch) user pass [] False (m_authJar n) = Some jar"
  shows "receivedCredential j ch user pass n = Some (entered j user pass jar n)"
  using assms by (simp add: receivedCredential_def same_challenge_refl didAuthChallenge_def entered_def Let_def upd_transfer_def)

lemma setWeb_total:
  "auth_url_of url = Some au \<Longrightarrow> \<exists>jar'. setWebUserPassword enc url st scheme realm user pass [] c jar = Some jar'"
  by (simp add: setWebUserPassword_def folder_confirmed_def)

lemma call_quiet:
  "\<not> cancels_in e ev \<Longrightarrow> m_client (the_job n j) \<Longrightarrow>
   client_call e j ev n = upd_rhm (\<lambda>m. m\<lparr>notified := notified m @ [(j, ev)]\<rparr>) n"
  by (simp add: client_call_def notify_def upd_rhm_def)

text \<open>The job when its challenge has been posed to the user.\<close>

definition posed :: "jid \<Rightarrow> string \<Rightarrow> int \<Rightarrow> ProtectionSpaceAuthenticationScheme \<Rightarrow> 'w net \<Rightarrow> 'w net" where
  "posed j host port scheme n =
     upd_rhm (\<lambda>m. m\<lparr>notified := notified m @ [(j, DidReceiveAuthenticationChallenge)]\<rparr>)
       (put_challenge j host port ProtectionSpaceServerHTTP (m_webAuthRealm (transfers n j)) scheme n)"

definition posed_challenge :: "jid \<Rightarrow> string \<Rightarrow> int \<Rightarrow> ProtectionSpaceAuthenticationScheme \<Rightarrow> 'w net \<Rightarrow> challenge" where
  "posed_challenge j host port scheme n = m_currentWebChallenge (transfers (posed j host port scheme n) j)"

lemma posed_challenge:
  "posed_challenge j host port scheme n = (m_currentWebChallenge (transfers n j))\<lparr>ch_isNull := False, ch_host := host, ch_port := port,
     ch_serverType := ProtectionSpaceServerHTTP, ch_realm := m_webAuthRealm (transfers n j), ch_scheme := scheme\<rparr>"
  by (simp add: posed_challenge_def posed_def put_challenge_def)

lemma pose_entered:
  assumes "m_client (the_job n j)" "\<not> cancels_in e DidReceiveAuthenticationChallenge"
    and "web_space (firstRequestURL (the_job n j)) = Some (host, port)" "m_webAuthURL (transfers n j) = []"
    and "auth_url_of host = Some au" "\<forall>x \<in> set (m_WebAuthInfoList (m_authJar n)). m_host x \<noteq> url_host au"
    and "reply a (posed_challenge j host port scheme n) = Credentials user pass"
    and "setWebUserPassword id host ProtectionSpaceServerHTTP scheme (m_webAuthRealm (transfers n j)) user pass [] False (m_authJar n) = Some jar"
  shows "pose_challenge e a j False scheme n = Some (count_challenge j False (entered j user pass jar (posed j host port scheme n)))"
proof -
  let ?p = "put_challenge j host port ProtectionSpaceServerHTTP (m_webAuthRealm (transfers n j)) scheme n"
  let ?ch = "posed_challenge j host port scheme n"
  have ch: "m_currentWebChallenge (transfers ?p j) = ?ch" "m_client (the_job ?p j)" using assms(1) by (simp_all add: posed_challenge put_challenge_def)
  have call: "client_call e j DidReceiveAuthenticationChallenge ?p = posed j host port scheme n"
    using call_quiet [OF assms(2) ch(2)] by (simp add: posed_def)
  have "receivedCredential j ?ch user pass (posed j host port scheme n) = Some (entered j user pass jar (posed j host port scheme n))"
    using assms(8) by (intro received_web) (simp_all add: posed_challenge_def [symmetric] posed_challenge isProxy_def, simp_all add: posed_def put_challenge_def upd_transfer_def upd_rhm_def)
  then have "settle_challenge e a j False scheme True ?p = Some (entered j user pass jar (posed j host port scheme n))"
    using assms(7) ch by (simp add: settle_challenge_def ask_user_def call Let_def)
  then show ?thesis
    using assms(3) web_lookup_unknown [OF assms(4-6)] by (simp add: pose_challenge_def)
qed

text \<open>
  C25: a user name and password that the user enters for the first challenge of a server are sent. When a page of a web server
  for whose host the jar has no entry answers 401 with a scheme other than NTLM, and the user answers the first such challenge
  of the transfer, the end of the transfer hands them to libcurl with the scheme of the challenge, the job stays with libcurl,
  the transfer is polled again, and the client has been told of the challenge and nothing else.
\<close>

theorem entered_password_is_sent:
  assumes "j \<in> set (m_runningJobList (net_rhm n))" "m_handle (the_job n j)" "\<not> m_cancelled (the_job n j)" "m_client (the_job n j)"
    and "\<not> m_doRedirectChallenge (transfers n j)" "rs_httpStatusCode (m_response (transfers n j)) = 401" "allowCookies (transfers n j)"
    and "requested_scheme a = Some scheme" "scheme \<noteq> SchemeNTLM" "\<not> cancels_in e DidReceiveAuthenticationChallenge"
    and "web_space (firstRequestURL (the_job n j)) = Some (host, port)" "m_webAuthURL (transfers n j) = []"
    and "auth_url_of host = Some au" "\<forall>x \<in> set (m_WebAuthInfoList (m_authJar n)). m_host x \<noteq> url_host au"
    and "auth_url_of (m_string (firstRequestURL (the_job n j))) = Some au2" "url_host au2 = url_host au" "url_full_path au2 = url_full_path au"
    and "reply a (posed_challenge j host port scheme n) = Credentials user pass"
  shows "\<exists>n'. transfer_message ap e a ce res j n = Some n'
    \<and> curl_webauth (transfers n' j) = Some (ProtectionSpaceServerHTTP, scheme, user, pass)
    \<and> j \<in> set (m_runningJobList (net_rhm n')) \<and> m_handle (the_job n' j) \<and> m_downloadTimer (net_rhm n')
    \<and> notified (net_rhm n') = notified (net_rhm n) @ [(j, DidReceiveAuthenticationChallenge)]"
proof -
  let ?realm = "m_webAuthRealm (transfers n j)"
  obtain jar where jar: "setWebUserPassword id host ProtectionSpaceServerHTTP scheme ?realm user pass [] False (m_authJar n) = Some jar"
    using setWeb_total [OF assms(13)] by blast
  have found: "getWebUserPassword (m_string (firstRequestURL (the_job n j))) ?realm jar
      = Some (Some (ProtectionSpaceServerHTTP, scheme, user, pass), jar)"
    using stored_found [OF jar assms(13,15-17,9)] assms(14) by blast
  define n1 where "n1 = count_challenge j False (entered j user pass jar (posed j host port scheme n))"
  have pose: "didReceiveAuthenticationChallenge e a j n = Some n1"
    using pose_entered [OF assms(4,10-14,18) jar] assms(6-9) by (simp add: didReceiveAuthenticationChallenge_def n1_def)
  have rhm: "net_rhm n1 = (net_rhm n)\<lparr>notified := notified (net_rhm n) @ [(j, DidReceiveAuthenticationChallenge)]\<rparr>"
    by (simp add: n1_def count_challenge_def entered_def posed_def put_challenge_def Let_def)
  have d: "m_didAuthChallenge (transfers n1 j)" "\<not> ch_isNull (m_currentWebChallenge (transfers n1 j))"
    "rs_httpStatusCode (m_response (transfers n1 j)) = 401" "m_webAuthRealm (transfers n1 j) = ?realm" "m_authJar n1 = jar"
    using assms(6) by (simp_all add: n1_def count_challenge_def entered_def posed_def put_challenge_def Let_def)
  obtain n2 where n2: "setAuthChallenge j n1 = Some (True, n2)" "net_rhm n2 = net_rhm n1"
    "curl_webauth (transfers n2 j) = Some (ProtectionSpaceServerHTTP, scheme, user, pass)"
    using d found rhm by (simp add: setAuthChallenge_def)
  have "remove_from_curl ap j n1 = Some (start_timer n2)"
    using n2(1) assms(2,3) rhm by (simp add: remove_from_curl_def)
  then have "transfer_message ap e a ce res j n = Some (upd_transfer j (\<lambda>d. d\<lparr>m_receivedData := []\<rparr>) (start_timer n2))"
    using assms(3,5,6) pose d(1) by (simp add: transfer_message_def answer_challenge_def)
  then show ?thesis using n2 rhm assms(1,2) by (simp add: start_timer_def)
qed

definition challenged_net :: "mem_world net" where
  "challenged_net = upd_response 0 (\<lambda>r. r\<lparr>rs_httpStatusCode := 401\<rparr>)
     (upd_rhm (upd_job 0 (\<lambda>d. d\<lparr>firstRequestURL := the (KURL_parse ''http://h/a'')\<rparr>)) (running_net False))"

theorem entered_password_is_sent_witness:
  "\<exists>n'. transfer_message sample_app (sample_env 401) (sample_answers (Credentials ''u'' ''p''))
      \<lparr>ce_files = mem_peer, ce_foldCase = id, ce_raw = HTTPCachedResource_default, ce_now = 0, ce_toDouble = (\<lambda>_. None),
       ce_parseDate = (\<lambda>_. 0), ce_resourceData = None\<rparr> CURLE_OK 0 challenged_net = Some n'
     \<and> curl_webauth (transfers n' 0) = Some (ProtectionSpaceServerHTTP, SchemeHTTPBasic, ''u'', ''p'')"
proof -
  let ?k = "the (KURL_parse ''http://h/a'')"
  have s: "web_space ?k = Some (''http://h/a?'', 80)" "m_string ?k = ''http://h/a''" by code_simp+
  have "auth_url_of ''http://h/a'' \<noteq> None" "auth_url_of ''http://h/a?'' \<noteq> None" by code_simp+
  then obtain au au2 where au: "auth_url_of ''http://h/a?'' = Some au" "auth_url_of ''http://h/a'' = Some au2" by blast
  have "url_host (the (auth_url_of ''http://h/a'')) = url_host (the (auth_url_of ''http://h/a?''))"
    "url_full_path (the (auth_url_of ''http://h/a'')) = url_full_path (the (auth_url_of ''http://h/a?''))" by code_simp+
  then have eq: "url_host au2 = url_host au" "url_full_path au2 = url_full_path au" by (simp_all add: au)
  have f: "firstRequestURL (the_job challenged_net 0) = ?k" "m_authJar challenged_net = AuthenticationJar_new"
    "m_runningJobList (net_rhm challenged_net) = [0]" "m_handle (the_job challenged_net 0)" "\<not> m_cancelled (the_job challenged_net 0)"
    "m_client (the_job challenged_net 0)" "\<not> m_doRedirectChallenge (transfers challenged_net 0)"
    "rs_httpStatusCode (m_response (transfers challenged_net 0)) = 401" "allowCookies (transfers challenged_net 0)"
    "m_webAuthURL (transfers challenged_net 0) = []"
    by (simp_all add: challenged_net_def running_net_def rhm_new_def sample_job_def ResourceHandleInternal_new_def)
  have a: "reply (sample_answers (Credentials ''u'' ''p'')) ch = Credentials ''u'' ''p''"
    "requested_scheme (sample_answers (Credentials ''u'' ''p'')) = Some SchemeHTTPBasic" for ch
    by (simp_all add: sample_answers_def requested_scheme_def)
  show ?thesis
    using entered_password_is_sent [of 0 challenged_net "sample_answers (Credentials ''u'' ''p'')" SchemeHTTPBasic "sample_env 401" "''http://h/a?''" 80 au au2
        "''u''" "''p''" sample_app "\<lparr>ce_files = mem_peer, ce_foldCase = id, ce_raw = HTTPCachedResource_default, ce_now = 0, ce_toDouble = (\<lambda>_. None),
       ce_parseDate = (\<lambda>_. 0), ce_resourceData = None\<rparr>" CURLE_OK]
    using a s au eq f by (simp add: AuthenticationJar_new_def sample_env_def) blast
qed

end
