(* ===== verification/RequestBody.thy ===== *)
theory RequestBody
  imports JobQueue
begin

text \<open>
  The body of a request: the stream that hands the elements of a form to libcurl (\<open>FormDataStreamWKC.cpp\<close>), the callbacks that
  read it, and the options set for a POST, PUT or OPTIONS request (\<open>setupMethod\<close> and its callers in
  \<open>ResourceHandleManagerWKC.cpp\<close>). Sizes are 32 bits wide, the total size 64. The file functions of the
  platform and the blobs registered by pages are parameters; the options set on the handle are logged in their order.
  A copy from outside the source has the value None.
\<close>


section \<open>Files\<close>

text \<open>The file functions of the platform that an upload uses; \<open>up_read\<close> has the arguments of \<open>fread\<close>.\<close>

record ('w, 'f) upload_peer =
  up_open :: "byte list \<Rightarrow> 'w \<Rightarrow> 'f option \<times> 'w"
  up_read :: "'f \<Rightarrow> nat \<Rightarrow> nat \<Rightarrow> 'w \<Rightarrow> int \<times> byte list \<times> 'w"
  up_feof :: "'f \<Rightarrow> 'w \<Rightarrow> bool"
  up_stat :: "'f \<Rightarrow> 'w \<Rightarrow> int option"
  up_close :: "'f \<Rightarrow> 'w \<Rightarrow> 'w"

definition getFileSize :: "('w, 'f) upload_peer \<Rightarrow> byte list \<Rightarrow> 'w \<Rightarrow> int option \<times> 'w" where
  "getFileSize up path w =
     (if path = [] then (None, w)
      else case up_open up path w of
             (None, w1) \<Rightarrow> (None, w1)
           | (Some fd, w1) \<Rightarrow> (up_stat up fd w1, up_close up fd w1))"

section \<open>State\<close>

datatype BlobDataItem = BlobItemData "byte list" int int | BlobItemFile | BlobItemBlob

datatype FormDataElement = FormData_data "byte list" | FormData_encodedFile "byte list" | FormData_encodedBlob string

type_synonym blobs = "string \<Rightarrow> BlobDataItem list option"

record 'f form_stream =
  m_file :: "'f option"
  m_formDataElementIndex :: nat
  m_formDataElementDataOffset :: u32

definition FormDataStream_new :: "'f form_stream" where
  "FormDataStream_new = \<lparr>m_file = None, m_formDataElementIndex = 0, m_formDataElementDataOffset = 0\<rparr>"

definition next_element :: "'f form_stream \<Rightarrow> 'f form_stream" where
  "next_element st = st\<lparr>m_formDataElementIndex := m_formDataElementIndex st + 1\<rparr>"

section \<open>Reading the form\<close>

definition memcpy_from :: "byte list \<Rightarrow> int \<Rightarrow> nat \<Rightarrow> byte list option" where
  \<comment> \<open>None if a byte outside \<open>src\<close> is read, which a copy of no bytes never does\<close>
  "memcpy_from src start n =
     (if n = 0 then Some [] else if 0 \<le> start \<and> start + int n \<le> int (length src) then Some (take n (drop (nat start) src)) else None)"

definition read_piece :: "u32 \<Rightarrow> byte list \<Rightarrow> int \<Rightarrow> u32 \<Rightarrow> 'f form_stream \<Rightarrow> (u32 \<times> byte list \<times> 'f form_stream) option" where
  \<comment> \<open>\<open>len\<close> bytes of \<open>src\<close> from \<open>start\<close> on are the data; the subtraction wraps around\<close>
  "read_piece toSend src start len st =
     (let elementSize = len - m_formDataElementDataOffset st;
          sent = (if elementSize > toSend then toSend else elementSize)
      in map_option (\<lambda>bs. (sent, bs,
           if elementSize > sent then st\<lparr>m_formDataElementDataOffset := m_formDataElementDataOffset st + sent\<rparr>
           else next_element (st\<lparr>m_formDataElementDataOffset := 0\<rparr>)))
         (memcpy_from src (start + uint (m_formDataElementDataOffset st)) (unat sent)))"

definition overlay :: "byte list \<Rightarrow> byte list \<Rightarrow> byte list" where
  "overlay bs buf = bs @ drop (length bs) buf"

fun read_items :: "u32 \<Rightarrow> BlobDataItem list \<Rightarrow> u32 \<Rightarrow> byte list \<Rightarrow> 'f form_stream \<Rightarrow> (u32 \<times> byte list \<times> 'f form_stream) option" where
  "read_items toSend [] sent buf st = Some (sent, buf, st)"
| "read_items toSend (BlobItemData bytes off len # items) sent buf st =
     (case read_piece toSend bytes (sint (word_of_int off :: i32)) (word_of_int len) st of
        None \<Rightarrow> None
      | Some (sent', bs, st') \<Rightarrow> read_items toSend items sent' (overlay bs buf) st')"
| "read_items toSend (_ # items) sent buf st = read_items toSend items sent buf st"

definition read_file :: "('w, 'f) upload_peer \<Rightarrow> byte list \<Rightarrow> u32 \<Rightarrow> u32 \<Rightarrow> byte list \<Rightarrow> 'f form_stream \<Rightarrow> 'w
    \<Rightarrow> u32 \<times> byte list \<times> 'f form_stream \<times> 'w" where
  "read_file up name blockSize numberOfBlocks buf st0 w0 =
     (case (case m_file st0 of Some fd \<Rightarrow> (Some fd, w0) | None \<Rightarrow> up_open up name w0) of
        (None, w) \<Rightarrow> (0, buf, next_element st0, w)
      | (Some fd, w) \<Rightarrow>
          let st = st0\<lparr>m_file := Some fd\<rparr>;
              (n, bs, w1) = up_read up fd (unat blockSize) (unat numberOfBlocks) w;
              sent = word_of_int n :: u32
          in if sint sent < 0 then (0, overlay bs buf, st, w1)
             else if up_feof up fd w1 then (sent, overlay bs buf, next_element (st\<lparr>m_file := None\<rparr>), up_close up fd w1)
             else (sent, overlay bs buf, st, w1))"

definition form_read :: "('w, 'f) upload_peer \<Rightarrow> blobs \<Rightarrow> bool \<Rightarrow> FormDataElement list \<Rightarrow> u32 \<Rightarrow> u32 \<Rightarrow> byte list \<Rightarrow> u32
    \<Rightarrow> 'f form_stream \<Rightarrow> 'w \<Rightarrow> (u32 \<times> byte list \<times> 'f form_stream \<times> 'w) option" where
  \<comment> \<open>\<open>buf\<close> is the memory at \<open>ptr\<close>, \<open>junk\<close> what \<open>sent\<close> holds before it is set\<close>
  "form_read up blobs client elements blockSize numberOfBlocks buf junk st w =
     (if \<not> client then Some (0, buf, st, w)
      else if numberOfBlocks = 0 \<or> (- 1) div numberOfBlocks < blockSize then Some (0, buf, st, w)
      else if length elements \<le> m_formDataElementIndex st then Some (0, buf, st, w)
      else
        let toSend = blockSize * numberOfBlocks in
        case elements ! m_formDataElementIndex st of
          FormData_encodedFile name \<Rightarrow> Some (read_file up name blockSize numberOfBlocks buf st w)
        | FormData_encodedBlob url \<Rightarrow>
            map_option (\<lambda>(sent, buf', st'). (sent, buf', st', w))
              (read_items toSend (case blobs url of None \<Rightarrow> [] | Some items \<Rightarrow> items) junk buf st)
        | FormData_data bytes \<Rightarrow>
            map_option (\<lambda>(sent, bs, st'). (sent, overlay bs buf, st', w))
              (read_piece toSend bytes 0 (of_nat (length bytes)) st))"

definition hasMoreElements :: "FormDataElement list \<Rightarrow> 'f form_stream \<Rightarrow> bool" where
  "hasMoreElements elements st \<longleftrightarrow> m_formDataElementIndex st < length elements"

definition form_refresh :: "'f form_stream \<Rightarrow> 'f form_stream" where
  "form_refresh st = st\<lparr>m_formDataElementIndex := 0, m_formDataElementDataOffset := 0\<rparr>"

datatype read_result = Sent u32 "byte list" | CURL_READFUNC_NODATA

definition readCallback :: "('w, 'f) upload_peer \<Rightarrow> blobs \<Rightarrow> job \<Rightarrow> FormDataElement list \<Rightarrow> u32 \<Rightarrow> u32 \<Rightarrow> byte list \<Rightarrow> u32
    \<Rightarrow> 'f form_stream \<Rightarrow> 'w \<Rightarrow> (read_result \<times> 'f form_stream \<times> 'w) option" where
  "readCallback up blobs d elements sz nmemb buf junk st w =
     (if m_cancelled d then Some (Sent 0 buf, st, w)
      else if sz = 0 \<or> nmemb = 0 then Some (Sent 0 buf, st, w)
      else if \<not> hasMoreElements elements st then Some (Sent 0 buf, st, w)
      else map_option (\<lambda>(sent, buf', st', w'). (if sent = 0 then CURL_READFUNC_NODATA else Sent sent buf', st', w'))
             (form_read up blobs (m_client d) elements sz nmemb buf junk st w))"

definition ioctlCallback :: "bool \<Rightarrow> string list \<Rightarrow> string list" where
  \<comment> \<open>the custom headers; the command is not looked at\<close>
  "ioctlCallback handle headers =
     (let new_headers = filter (\<lambda>h. \<not> startsWith (str_lower h) ''content-type:'') headers
      in if handle \<and> new_headers \<noteq> [] then new_headers else headers)"

section \<open>Setting up a request with a body\<close>

datatype HTTPMethod = HTTPMethod_POST | HTTPMethod_PUT | HTTPMethod_OPTIONS

datatype curl_option =
  CURLOPT_POST | CURLOPT_UPLOAD | CURLOPT_CUSTOMREQUEST string
| CURLOPT_POSTFIELDSIZE int | CURLOPT_POSTFIELDSIZE_LARGE int | CURLOPT_POSTFIELDS "byte list"
| CURLOPT_INFILESIZE int | CURLOPT_INFILESIZE_LARGE int
| CURLOPT_READFUNCTION | CURLOPT_READDATA | CURLOPT_IOCTLFUNCTION | CURLOPT_IOCTLDATA

record request_setup =
  rq_headers :: "string list"
  rq_options :: "curl_option list"
  m_postBytes :: "byte list"

definition setopt :: "curl_option list \<Rightarrow> request_setup \<Rightarrow> request_setup" where
  "setopt os rq = rq\<lparr>rq_options := rq_options rq @ os\<rparr>"

definition slist_append :: "string \<Rightarrow> request_setup \<Rightarrow> request_setup" where
  "slist_append h rq = rq\<lparr>rq_headers := rq_headers rq @ [h]\<rparr>"

fun flatten :: "FormDataElement list \<Rightarrow> byte list" where
  "flatten [] = []"
| "flatten (FormData_data bytes # es) = bytes @ flatten es"
| "flatten (_ # es) = flatten es"

definition maxCurlOffT :: "bool \<Rightarrow> int" where
  "maxCurlOffT large = 2 ^ ((if large then 8 else 4) * 8 - 1) - 1"

fun items_size :: "BlobDataItem list \<Rightarrow> i64 \<Rightarrow> i64" where
  "items_size [] acc = acc"
| "items_size (BlobItemData bytes off len # items) acc = items_size items (acc + word_of_int len)"
| "items_size (_ # items) acc = items_size items acc"

fun total_size :: "('w, 'f) upload_peer \<Rightarrow> blobs \<Rightarrow> bool \<Rightarrow> FormDataElement list \<Rightarrow> i64 \<Rightarrow> 'w \<Rightarrow> bool \<times> i64 \<times> 'w" where
  \<comment> \<open>whether the transfer has to be chunked, the size and the world\<close>
  "total_size up blobs large [] acc w = (False, acc, w)"
| "total_size up blobs large (FormData_encodedFile name # es) acc w =
     (case getFileSize up name w of
        (None, w1) \<Rightarrow> total_size up blobs large es acc w1
      | (Some fileSizeResult, w1) \<Rightarrow>
          if fileSizeResult > maxCurlOffT large \<or> fileSizeResult < 0 then (True, acc, w1)
          else total_size up blobs large es (acc + word_of_int fileSizeResult) w1)"
| "total_size up blobs large (FormData_encodedBlob url # es) acc w =
     total_size up blobs large es (acc + items_size (case blobs url of None \<Rightarrow> [] | Some items \<Rightarrow> items) 0) w"
| "total_size up blobs large (FormData_data bytes # es) acc w =
     total_size up blobs large es (acc + of_nat (length bytes)) w"

definition size_option :: "HTTPMethod \<Rightarrow> bool \<Rightarrow> i64 \<Rightarrow> curl_option" where
  "size_option meth large sz =
     (if meth = HTTPMethod_PUT
      then (if large then CURLOPT_INFILESIZE_LARGE (sint sz) else CURLOPT_INFILESIZE (sint (ucast sz :: i32)))
      else (if large then CURLOPT_POSTFIELDSIZE_LARGE (sint sz) else CURLOPT_POSTFIELDSIZE (sint (ucast sz :: i32))))"

fun is_data :: "FormDataElement \<Rightarrow> bool" where
  "is_data (FormData_data _) = True"
| "is_data _ = False"

definition setupMethod :: "('w, 'f) upload_peer \<Rightarrow> blobs \<Rightarrow> bool \<Rightarrow> FormDataElement list option \<Rightarrow> HTTPMethod \<Rightarrow> request_setup \<Rightarrow> 'w
    \<Rightarrow> bool \<times> request_setup \<times> 'w" where
  "setupMethod up blobs large httpBody meth rq w =
     (case httpBody of
        None \<Rightarrow> (False, slist_append ''Content-Length: 0'' rq, w)
      | Some elements \<Rightarrow>
          if elements = [] then (False, slist_append ''Content-Length: 0'' rq, w)
          else if meth \<noteq> HTTPMethod_PUT \<and> length elements = 1 \<and> is_data (elements ! 0) then
            let bytes = flatten elements; rq1 = rq\<lparr>m_postBytes := bytes\<rparr>
            in (False, if bytes \<noteq> [] then setopt [CURLOPT_POST, CURLOPT_POSTFIELDSIZE (int (length bytes)), CURLOPT_POSTFIELDS bytes] rq1
                       else slist_append ''Content-Length: 0'' rq1, w)
          else
            let (chunked, sz, w1) = total_size up blobs large elements 0 w;
                rq1 = (if chunked then slist_append ''Transfer-Encoding: chunked'' rq else setopt [size_option meth large sz] rq)
            in (True, setopt [CURLOPT_READFUNCTION, CURLOPT_READDATA] rq1, w1))"

definition setupPUT :: "('w, 'f) upload_peer \<Rightarrow> blobs \<Rightarrow> bool \<Rightarrow> FormDataElement list option \<Rightarrow> request_setup \<Rightarrow> 'w \<Rightarrow> request_setup \<times> 'w" where
  "setupPUT up blobs large httpBody rq w =
     snd (setupMethod up blobs large httpBody HTTPMethod_PUT (setopt [CURLOPT_UPLOAD, CURLOPT_INFILESIZE 0] rq) w)"

definition setupPOST :: "('w, 'f) upload_peer \<Rightarrow> blobs \<Rightarrow> bool \<Rightarrow> FormDataElement list option \<Rightarrow> request_setup \<Rightarrow> 'w \<Rightarrow> request_setup \<times> 'w" where
  "setupPOST up blobs large httpBody rq w =
     (let (streamed, rq1, w1) = setupMethod up blobs large httpBody HTTPMethod_POST (setopt [CURLOPT_POSTFIELDSIZE 0] rq) w
      in (if \<not> streamed then (if m_postBytes rq1 = [] then setopt [CURLOPT_CUSTOMREQUEST ''POST''] rq1 else rq1)
          else setopt [CURLOPT_POST, CURLOPT_IOCTLFUNCTION, CURLOPT_IOCTLDATA] rq1, w1))"

definition setupOPTIONS :: "('w, 'f) upload_peer \<Rightarrow> blobs \<Rightarrow> bool \<Rightarrow> FormDataElement list option \<Rightarrow> request_setup \<Rightarrow> 'w \<Rightarrow> request_setup \<times> 'w" where
  "setupOPTIONS up blobs large httpBody rq w =
     (let (streamed, rq1, w1) = setupMethod up blobs large httpBody HTTPMethod_OPTIONS
            (setopt [CURLOPT_CUSTOMREQUEST ''OPTIONS'', CURLOPT_POSTFIELDSIZE 0] rq) w
      in (if \<not> streamed then rq1 else setopt [CURLOPT_POST, CURLOPT_IOCTLFUNCTION, CURLOPT_IOCTLDATA] rq1, w1))"


section \<open>What is to be sent\<close>

text \<open>
  File functions that behave like those of C: a file that is there is opened at its start, read in order and
  at its end the mark is set; opening, reading and closing change no file. \<open>files\<close> are the files of a world,
  \<open>unread\<close> is what an open file still has to give.
\<close>

definition serving_peer :: "('w, 'f) upload_peer \<Rightarrow> ('w \<Rightarrow> byte list \<Rightarrow> byte list option) \<Rightarrow> ('f \<Rightarrow> 'w \<Rightarrow> byte list option) \<Rightarrow> bool" where
  "serving_peer up files unread \<longleftrightarrow>
     (\<forall>name w. case files w name of
        Some bs \<Rightarrow> \<exists>fd w1. up_open up name w = (Some fd, w1) \<and> unread fd w1 = Some bs \<and> files w1 = files w
                       \<and> up_stat up fd w1 = Some (int (length bs))
      | None \<Rightarrow> \<exists>w1. up_open up name w = (None, w1) \<and> files w1 = files w)
     \<and> (\<forall>fd w rest n. unread fd w = Some rest \<longrightarrow>
          (\<exists>w1. up_read up fd 1 n w = (int (min n (length rest)), take n rest, w1) \<and> unread fd w1 = Some (drop n rest) \<and> files w1 = files w
             \<and> (length rest < n \<longrightarrow> up_feof up fd w1) \<and> (up_feof up fd w1 \<longrightarrow> drop n rest = [])))
     \<and> (\<forall>fd w. files (up_close up fd w) = files w)"

lemma serving_peerD:
  assumes "serving_peer up files unread"
  shows "files w name = Some bs \<Longrightarrow> \<exists>fd w1. up_open up name w = (Some fd, w1) \<and> unread fd w1 = Some bs \<and> files w1 = files w
      \<and> up_stat up fd w1 = Some (int (length bs))"
    and "files w name = None \<Longrightarrow> \<exists>w1. up_open up name w = (None, w1) \<and> files w1 = files w"
    and "unread fd w = Some rest \<Longrightarrow> \<exists>w1. up_read up fd 1 n w = (int (min n (length rest)), take n rest, w1)
      \<and> unread fd w1 = Some (drop n rest) \<and> files w1 = files w
      \<and> (length rest < n \<longrightarrow> up_feof up fd w1) \<and> (up_feof up fd w1 \<longrightarrow> drop n rest = [])"
    and "files (up_close up fd w) = files w"
proof -
  note p = assms [unfolded serving_peer_def]
  note o = spec [OF spec [OF conjunct1 [OF p], of name], of w]
  show "files w name = Some bs \<Longrightarrow> \<exists>fd w1. up_open up name w = (Some fd, w1) \<and> unread fd w1 = Some bs \<and> files w1 = files w
      \<and> up_stat up fd w1 = Some (int (length bs))" using o by simp
  show "files w name = None \<Longrightarrow> \<exists>w1. up_open up name w = (None, w1) \<and> files w1 = files w" using o by simp
qed (use assms in \<open>unfold serving_peer_def, blast+\<close>)

text \<open>What an element stands for. A blob is sent as it should be when it has one piece of data.\<close>

fun element_bytes :: "blobs \<Rightarrow> (byte list \<Rightarrow> byte list option) \<Rightarrow> FormDataElement \<Rightarrow> byte list" where
  "element_bytes blobs fs (FormData_data bytes) = bytes"
| "element_bytes blobs fs (FormData_encodedFile name) = (case fs name of None \<Rightarrow> [] | Some bs \<Rightarrow> bs)"
| "element_bytes blobs fs (FormData_encodedBlob url) =
     (case blobs url of Some [BlobItemData bytes off len] \<Rightarrow> take (nat len) (drop (nat off) bytes) | _ \<Rightarrow> [])"

fun element_ok :: "blobs \<Rightarrow> FormDataElement \<Rightarrow> bool" where
  "element_ok blobs (FormData_data bytes) \<longleftrightarrow> length bytes < 2 ^ 31"
| "element_ok blobs (FormData_encodedFile name) \<longleftrightarrow> name \<noteq> []"
| "element_ok blobs (FormData_encodedBlob url) \<longleftrightarrow>
     (case blobs url of Some [BlobItemData bytes off len] \<Rightarrow> 0 \<le> off \<and> 0 \<le> len \<and> off + len \<le> int (length bytes) \<and> length bytes < 2 ^ 31
      | _ \<Rightarrow> False)"

definition form_bytes :: "blobs \<Rightarrow> (byte list \<Rightarrow> byte list option) \<Rightarrow> FormDataElement list \<Rightarrow> byte list" where
  "form_bytes blobs fs es = concat (map (element_bytes blobs fs) es)"

definition left_bytes :: "blobs \<Rightarrow> (byte list \<Rightarrow> byte list option) \<Rightarrow> (byte list option) \<Rightarrow> FormDataElement list \<Rightarrow> 'f form_stream \<Rightarrow> byte list" where
  \<comment> \<open>the argument after \<open>fs\<close>: what the open file still has\<close>
  "left_bytes blobs fs open_rest es st =
     (if m_formDataElementIndex st < length es
      then (case open_rest of Some rest \<Rightarrow> rest
            | None \<Rightarrow> drop (unat (m_formDataElementDataOffset st)) (element_bytes blobs fs (es ! m_formDataElementIndex st)))
           @ form_bytes blobs fs (drop (Suc (m_formDataElementIndex st)) es)
      else [])"

definition open_rest :: "('f \<Rightarrow> 'w \<Rightarrow> byte list option) \<Rightarrow> 'f form_stream \<Rightarrow> 'w \<Rightarrow> byte list option" where
  "open_rest unread st w = (case m_file st of None \<Rightarrow> None | Some fd \<Rightarrow> unread fd w)"

definition stream_ok :: "blobs \<Rightarrow> (byte list \<Rightarrow> byte list option) \<Rightarrow> ('f \<Rightarrow> 'w \<Rightarrow> byte list option) \<Rightarrow> FormDataElement list \<Rightarrow> 'f form_stream \<Rightarrow> 'w \<Rightarrow> bool" where
  "stream_ok blobs fs unread es st w \<longleftrightarrow>
     (case m_file st of
        Some fd \<Rightarrow> unread fd w \<noteq> None \<and> m_formDataElementIndex st < length es \<and> m_formDataElementDataOffset st = 0
          \<and> (\<exists>name. es ! m_formDataElementIndex st = FormData_encodedFile name)
      | None \<Rightarrow> m_formDataElementDataOffset st = 0
          \<or> m_formDataElementIndex st < length es \<and> (\<forall>name. es ! m_formDataElementIndex st \<noteq> FormData_encodedFile name)
            \<and> unat (m_formDataElementDataOffset st) < length (element_bytes blobs fs (es ! m_formDataElementIndex st)))"

lemma drop_element:
  "i < length es \<Longrightarrow> form_bytes blobs fs (drop i es) = element_bytes blobs fs (es ! i) @ form_bytes blobs fs (drop (Suc i) es)"
  by (simp add: form_bytes_def Cons_nth_drop_Suc [symmetric])

lemma left_start: "i = m_formDataElementIndex st \<Longrightarrow> m_file st = None \<Longrightarrow> m_formDataElementDataOffset st = 0 \<Longrightarrow>
    left_bytes blobs fs (open_rest unread st w) es st = form_bytes blobs fs (drop i es)"
  by (cases "i < length es") (simp_all add: left_bytes_def open_rest_def drop_element, simp add: form_bytes_def)

text \<open>One piece of data.\<close>

lemma small_u32:
  assumes "n < 2 ^ 31"
  shows "unat (of_nat n :: u32) = n" "unat (word_of_int (int n) :: u32) = n" "\<not> sint (word_of_int (int n) :: u32) < 0"
proof -
  show u: "unat (of_nat n :: u32) = n" using assms by (simp add: unsigned_of_nat take_bit_nat_eq_self)
  then show "unat (word_of_int (int n) :: u32) = n" by simp
  have "signed_take_bit 31 (int n) = int n" using assms by (intro signed_take_bit_int_eq_self) simp_all
  then show "\<not> sint (word_of_int (int n) :: u32) < 0" by (simp add: signed_of_nat)
qed

lemma drop_split: "drop a xs = take n (drop a xs) @ drop (n + a) xs"
  by (metis append_take_drop_id drop_drop)

lemma read_piece_ok:
  assumes "len = word_of_int (int n)" "n < 2 ^ 31" "0 \<le> start" "nat start + n \<le> length src" "toSend \<noteq> 0"
    and "unat (m_formDataElementDataOffset st) \<le> n"
  defines "bytes \<equiv> drop (unat (m_formDataElementDataOffset st)) (take n (drop (nat start) src))"
  shows "read_piece toSend src start len st = Some (word_of_int (int (min (unat toSend) (length bytes))), take (unat toSend) bytes,
    if unat toSend < length bytes then st\<lparr>m_formDataElementDataOffset := m_formDataElementDataOffset st + toSend\<rparr>
    else next_element (st\<lparr>m_formDataElementDataOffset := 0\<rparr>))"
proof -
  let ?o = "m_formDataElementDataOffset st"
  have un: "unat len = n" using assms(1) small_u32 [OF assms(2)] by simp
  have lb: "length bytes = n - unat ?o" using assms(4) by (simp add: bytes_def min_absorb2)
  have es: "unat (len - ?o) = length bytes" using assms(6) lb un by (simp add: unat_sub_if')
  have m: "memcpy_from src (start + uint ?o) k = Some (take k (drop (unat ?o) (drop (nat start) src)))" if "k \<le> length bytes" for k
  proof -
    have u: "uint ?o = int (unat ?o)" by simp
    have "start + uint ?o + int k \<le> int (length src)" unfolding u using that lb assms(3,4,6) by linarith
    moreover have "nat (start + uint ?o) = unat ?o + nat start" unfolding u using assms(3) by linarith
    ultimately show ?thesis using assms(3) by (simp add: memcpy_from_def)
  qed
  have t: "take k (drop (unat ?o) (drop (nat start) src)) = take k bytes" if "k \<le> length bytes" for k
    using that unfolding lb by (simp add: bytes_def drop_take min_absorb1)
  show ?thesis
  proof (cases "toSend < len - ?o")
    case True
    then have "unat toSend < length bytes" using es by (simp add: word_less_nat_alt)
    then show ?thesis using True m [of "unat toSend"] t [of "unat toSend"] by (simp add: read_piece_def Let_def min_def)
  next
    case False
    then have "length bytes \<le> unat toSend" using es by (simp add: word_less_nat_alt)
    moreover have "len - ?o = word_of_int (int (length bytes))" unfolding es [symmetric] by simp
    ultimately show ?thesis using False m [of "length bytes"] t [of "length bytes"] es by (simp add: read_piece_def Let_def min_def)
  qed
qed

definition progress :: "blobs \<Rightarrow> (byte list \<Rightarrow> byte list option) \<Rightarrow> ('f \<Rightarrow> 'w \<Rightarrow> byte list option) \<Rightarrow> FormDataElement list
    \<Rightarrow> byte list \<Rightarrow> 'f form_stream \<Rightarrow> 'w \<Rightarrow> 'f form_stream \<Rightarrow> 'w \<Rightarrow> bool" where
  \<comment> \<open>a step that sends \<open>bs\<close> and brings the end nearer\<close>
  "progress blobs fs unread es bs st w st' w' \<longleftrightarrow>
     stream_ok blobs fs unread es st' w'
     \<and> left_bytes blobs fs (open_rest unread st w) es st = bs @ left_bytes blobs fs (open_rest unread st' w') es st'
     \<and> (m_formDataElementIndex st < m_formDataElementIndex st' \<or> m_formDataElementIndex st' = m_formDataElementIndex st \<and> bs \<noteq> [])"

lemma next_element_simps [simp]:
  "m_file (next_element st) = m_file st" "m_formDataElementIndex (next_element st) = Suc (m_formDataElementIndex st)"
  "m_formDataElementDataOffset (next_element st) = m_formDataElementDataOffset st"
  by (simp_all add: next_element_def)

lemma progress_next:
  assumes "i = m_formDataElementIndex st" "i < length es" "m_file st' = None" "m_formDataElementIndex st' = Suc i" "m_formDataElementDataOffset st' = 0"
    and "left_bytes blobs fs (open_rest unread st w) es st = bs @ form_bytes blobs fs (drop (Suc i) es)"
  shows "progress blobs fs unread es bs st w st' w'"
  using assms left_start [of "Suc i" st' blobs fs unread w' es] by (simp add: progress_def stream_ok_def)

lemma piece_progress:
  assumes "i = m_formDataElementIndex st" "i < length es" "m_file st = None" "\<And>name. es ! i \<noteq> FormData_encodedFile name"
    and "unat (m_formDataElementDataOffset st) \<le> length (element_bytes blobs fs (es ! i))" "length (element_bytes blobs fs (es ! i)) < 2 ^ 31"
    and "toSend \<noteq> 0" "bytes = drop (unat (m_formDataElementDataOffset st)) (element_bytes blobs fs (es ! i))"
    and "st' = (if unat toSend < length bytes then st\<lparr>m_formDataElementDataOffset := m_formDataElementDataOffset st + toSend\<rparr>
      else next_element (st\<lparr>m_formDataElementDataOffset := 0\<rparr>))"
  shows "progress blobs fs unread es (take (unat toSend) bytes) st w st' w"
proof -
  have l: "left_bytes blobs fs (open_rest unread st w) es st = bytes @ form_bytes blobs fs (drop (Suc i) es)"
    using assms(1-3,8) by (simp add: left_bytes_def open_rest_def)
  show ?thesis
  proof (cases "unat toSend < length bytes")
    case False
    then show ?thesis using assms(1-3,9) l by (intro progress_next) simp_all
  next
    case True
    let ?o = "m_formDataElementDataOffset st"
    have "unat ?o + unat toSend < length (element_bytes blobs fs (es ! i))" using True assms(5,8) by simp
    then have u: "unat (?o + toSend) = unat ?o + unat toSend" using assms(6) by (simp add: unat_plus_if' )
    have "0 < unat toSend" using assms(7) by (simp add: unat_gt_0)
    then have "take (unat toSend) bytes \<noteq> []" using True by auto
    then show ?thesis
      using True assms(1-4,8,9) l u
      using drop_split [of "unat ?o" "element_bytes blobs fs (es ! i)" "unat toSend"]
      by (auto simp: progress_def stream_ok_def left_bytes_def open_rest_def add.commute)
  qed
qed

lemma file_progress:
  assumes peer: "serving_peer up files unread" and ok: "stream_ok blobs (files w) unread es st w"
    and i: "i = m_formDataElementIndex st" "i < length es" "es ! i = FormData_encodedFile name"
    and buf: "buf \<noteq> []" "length buf < 2 ^ 31"
    and r: "read_file up name 1 (of_nat (length buf)) buf st w = (sent, buf', st', w')"
  shows "files w' = files w \<and> progress blobs (files w) unread es (take (unat sent) buf') st w st' w'"
proof -
  let ?n = "length buf"
  have off: "m_formDataElementDataOffset st = 0" using ok i by (auto simp: stream_ok_def split: option.splits)
  have un: "unat (of_nat ?n :: u32) = ?n" by (rule small_u32(1) [OF buf(2)])
  show ?thesis
  proof (cases "m_file st = None \<and> files w name = None")
    case True
    then obtain w1 where w1: "up_open up name w = (None, w1)" "files w1 = files w" using serving_peerD(2) [OF peer] by blast
    have "left_bytes blobs (files w) (open_rest unread st w) es st = form_bytes blobs (files w) (drop (Suc i) es)"
      using True i off by (simp add: left_bytes_def open_rest_def)
    then show ?thesis using r w1 True i off by (auto simp: read_file_def intro!: progress_next)
  next
    case False
    obtain fd w1 rest where fd: "(case m_file st of Some fd \<Rightarrow> (Some fd, w) | None \<Rightarrow> up_open up name w) = (Some fd, w1)"
      "unread fd w1 = Some rest" "files w1 = files w"
      "left_bytes blobs (files w) (open_rest unread st w) es st = rest @ form_bytes blobs (files w) (drop (Suc i) es)"
    proof (cases "m_file st")
      case None
      then obtain bs where bs: "files w name = Some bs" using False by auto
      from serving_peerD(1) [OF peer bs] obtain fd w1 where "up_open up name w = (Some fd, w1)" "unread fd w1 = Some bs" "files w1 = files w" by blast
      with None that [of fd w1 bs] bs i off show ?thesis by (simp add: left_bytes_def open_rest_def)
    next
      case (Some fd)
      then obtain rest where "unread fd w = Some rest" using ok by (auto simp: stream_ok_def)
      with Some that [of fd w rest] i show ?thesis by (simp add: left_bytes_def open_rest_def)
    qed
    obtain w2 where rd: "up_read up fd 1 ?n w1 = (int (min ?n (length rest)), take ?n rest, w2)" "unread fd w2 = Some (drop ?n rest)"
      "files w2 = files w1" "length rest < ?n \<longrightarrow> up_feof up fd w2" "up_feof up fd w2 \<longrightarrow> drop ?n rest = []"
      using serving_peerD(3) [OF peer fd(2)] by blast
    define k where "k = min ?n (length rest)"
    have k: "k < 2 ^ 31" using buf(2) by (simp add: k_def)
    have s: "unat (word_of_int (int k) :: u32) = k" "\<not> sint (word_of_int (int k) :: u32) < 0"
      by (rule small_u32(2,3) [OF k])+
    have t: "take k (overlay (take ?n rest) buf) = take ?n rest" by (simp add: overlay_def k_def min_def)
    show ?thesis
    proof (cases "up_feof up fd w2")
      case True
      then have "(sent, buf', st', w') = (word_of_int (int k), overlay (take ?n rest) buf, next_element (st\<lparr>m_file := None\<rparr>), up_close up fd w2)"
        using r s unfolding read_file_def fd(1) by (simp add: rd(1) un k_def [symmetric] Let_def del: One_nat_def)
      moreover have "take ?n rest = rest" using True rd(5) by simp
      ultimately show ?thesis
        using s t fd(3,4) rd(3) serving_peerD(4) [OF peer] i off by (auto intro!: progress_next)
    next
      case False
      then have e: "(sent, buf', st', w') = (word_of_int (int k), overlay (take ?n rest) buf, st\<lparr>m_file := Some fd\<rparr>, w2)"
        using r s unfolding read_file_def fd(1) by (simp add: rd(1) un k_def [symmetric] Let_def del: One_nat_def)
      have "take ?n rest \<noteq> []" using False rd(4) buf(1) by auto
      then show ?thesis
        using e s t fd(3,4) rd(2,3) i off by (auto simp: progress_def stream_ok_def left_bytes_def open_rest_def)
    qed
  qed
qed

fun taken :: "read_result \<Rightarrow> byte list" where
  "taken (Sent n buf) = take (unat n) buf"
| "taken CURL_READFUNC_NODATA = []"

lemma overlay_taken: "length bs \<le> k \<Longrightarrow> k \<le> length bs \<Longrightarrow> take k (overlay bs buf) = bs"
  by (simp add: overlay_def)

lemma no_overflow:
  assumes "n \<noteq> (0 :: u32)"
  shows "\<not> (- 1) div n < (1 :: u32)"
proof -
  have "unat n \<le> 2 ^ 32 - 1" using unsigned_less [of n, where ?'a = nat] by simp
  moreover have "0 < unat n" using assms by (simp add: unat_gt_0)
  ultimately have "0 < unat ((- 1 :: u32) div n)"
    by (simp add: unat_div unsigned_minus_1_eq_mask mask_eq_exp_minus_1 div_greater_zero_iff)
  then show ?thesis by (simp add: word_less_nat_alt)
qed

lemma blob_ok:
  "element_ok blobs (FormData_encodedBlob url) \<Longrightarrow> \<exists>bytes off len. blobs url = Some [BlobItemData bytes off len] \<and> 0 \<le> off \<and> 0 \<le> len
    \<and> off + len \<le> int (length bytes) \<and> length bytes < 2 ^ 31"
  by (cases "blobs url"; cases "the (blobs url)"; cases "tl (the (blobs url))"; cases "hd (the (blobs url))") auto

lemma read_progress:
  assumes peer: "serving_peer up files unread" and ok: "stream_ok blobs (files w) unread es st w" "list_all (element_ok blobs) es"
    and i: "m_formDataElementIndex st < length es"
    and buf: "buf \<noteq> []" "length buf < 2 ^ 31"
  shows "\<exists>sent buf' st' w'. form_read up blobs True es 1 (of_nat (length buf)) buf junk st w = Some (sent, buf', st', w')
    \<and> files w' = files w \<and> progress blobs (files w) unread es (take (unat sent) buf') st w st' w'"
proof -
  let ?n = "of_nat (length buf) :: u32" and ?i = "m_formDataElementIndex st"
  have un: "unat ?n = length buf" by (rule small_u32(1) [OF buf(2)])
  have n0: "?n \<noteq> 0" using un buf(1) by (metis length_0_conv unat_0)
  note nov = no_overflow [OF n0]
  have eok: "element_ok blobs (es ! ?i)" using ok(2) i by (simp add: list_all_length)
  have src: "read_piece ?n src start (word_of_int (int m)) st = Some (sent, bs, st')
      \<Longrightarrow> unat sent = length bs \<and> progress blobs (files w) unread es bs st w st' w"
    if m: "m < 2 ^ 31" "0 \<le> start" "nat start + m \<le> length src" "element_bytes blobs (files w) (es ! ?i) = take m (drop (nat start) src)"
      and f: "\<And>name. es ! ?i \<noteq> FormData_encodedFile name" for src start m sent bs st'
  proof -
    assume r: "read_piece ?n src start (word_of_int (int m)) st = Some (sent, bs, st')"
    have len: "length (element_bytes blobs (files w) (es ! ?i)) = m" using m by simp
    have none: "m_file st = None" using ok(1) f by (auto simp: stream_ok_def split: option.splits)
    then have off: "unat (m_formDataElementDataOffset st) \<le> m" using ok(1) len by (auto simp: stream_ok_def)
    let ?b = "drop (unat (m_formDataElementDataOffset st)) (take m (drop (nat start) src))"
    have b: "length (take (unat ?n) ?b) < 2 ^ 31" using buf(2) un by simp
    have e: "sent = word_of_int (int (min (unat ?n) (length ?b)))" "bs = take (unat ?n) ?b"
      "st' = (if unat ?n < length ?b then st\<lparr>m_formDataElementDataOffset := m_formDataElementDataOffset st + ?n\<rparr>
        else next_element (st\<lparr>m_formDataElementDataOffset := 0\<rparr>))"
      using r read_piece_ok [OF refl m(1-3) n0 off] by simp_all
    have "unat sent = length bs" unfolding e(1,2) using small_u32(2) [OF b] by (simp add: min.commute)
    moreover have "progress blobs (files w) unread es bs st w st' w"
      unfolding e(2) by (rule piece_progress [OF refl i none f]) (use e(3) m(1,4) off len n0 in simp_all)
    ultimately show ?thesis by blast
  qed
  have tot: "\<exists>sent bs st'. read_piece ?n src start (word_of_int (int m)) st = Some (sent, bs, st')"
    if m: "m < 2 ^ 31" "0 \<le> start" "nat start + m \<le> length src" "element_bytes blobs (files w) (es ! ?i) = take m (drop (nat start) src)"
      and f: "\<And>name. es ! ?i \<noteq> FormData_encodedFile name" for src start m
  proof -
    have "m_file st = None" using ok(1) f by (auto simp: stream_ok_def split: option.splits)
    then have "unat (m_formDataElementDataOffset st) \<le> m" using ok(1) m by (auto simp: stream_ok_def)
    then show ?thesis using read_piece_ok [OF refl m(1-3) n0] by blast
  qed
  show ?thesis
  proof (cases "es ! ?i")
    case (FormData_encodedFile name)
    obtain sent buf' st' w' where r: "read_file up name 1 ?n buf st w = (sent, buf', st', w')" by (metis prod_cases4)
    show ?thesis
      using file_progress [OF peer ok(1) refl i FormData_encodedFile buf r] FormData_encodedFile r n0 nov i by (simp add: form_read_def)
  next
    case (FormData_data bytes)
    then have m: "length bytes < 2 ^ 31" "(0 :: int) \<le> 0" "nat 0 + length bytes \<le> length bytes"
      "element_bytes blobs (files w) (es ! ?i) = take (length bytes) (drop (nat 0) bytes)" "\<And>name. es ! ?i \<noteq> FormData_encodedFile name"
      using eok by simp_all
    obtain sent bs st' where r: "read_piece ?n bytes 0 (word_of_int (int (length bytes))) st = Some (sent, bs, st')" using tot [OF m] by blast
    then show ?thesis using src [OF m r] FormData_data n0 nov i by (simp add: form_read_def overlay_def)
  next
    case (FormData_encodedBlob url)
    then obtain bytes off len where b: "blobs url = Some [BlobItemData bytes off len]" "0 \<le> off" "0 \<le> len" "off + len \<le> int (length bytes)"
      "length bytes < 2 ^ 31" using blob_ok eok by metis
    then have m: "nat len < 2 ^ 31" "0 \<le> off" "nat off + nat len \<le> length bytes"
      "element_bytes blobs (files w) (es ! ?i) = take (nat len) (drop (nat off) bytes)" "\<And>name. es ! ?i \<noteq> FormData_encodedFile name"
      using FormData_encodedBlob by simp_all
    obtain sent bs st' where r: "read_piece ?n bytes off (word_of_int (int (nat len))) st = Some (sent, bs, st')" using tot [OF m] by blast
    have "sint (word_of_int off :: i32) = off" using b by (simp add: signed_of_int signed_take_bit_int_eq_self)
    then show ?thesis using src [OF m r] r b(1,3) FormData_encodedBlob n0 nov i by (simp add: form_read_def overlay_def)
  qed
qed

lemma callback_progress:
  assumes peer: "serving_peer up files unread" and ok: "stream_ok blobs (files w) unread es st w" "list_all (element_ok blobs) es"
    and i: "m_formDataElementIndex st < length es" and buf: "buf \<noteq> []" "length buf < 2 ^ 31" and d: "\<not> m_cancelled d" "m_client d"
  shows "\<exists>r st' w'. readCallback up blobs d es 1 (of_nat (length buf)) buf junk st w = Some (r, st', w')
    \<and> files w' = files w \<and> progress blobs (files w) unread es (taken r) st w st' w'"
proof -
  obtain sent buf' st' w' where r: "form_read up blobs True es 1 (of_nat (length buf)) buf junk st w = Some (sent, buf', st', w')"
    and p: "files w' = files w" "progress blobs (files w) unread es (take (unat sent) buf') st w st' w'"
    using read_progress [OF peer ok i buf] by blast
  have n0: "(of_nat (length buf) :: u32) \<noteq> 0" using small_u32(1) [OF buf(2)] buf(1) by (metis length_0_conv unat_0)
  have "readCallback up blobs d es 1 (of_nat (length buf)) buf junk st w = Some (if sent = 0 then CURL_READFUNC_NODATA else Sent sent buf', st', w')"
    using d i n0 r by (simp add: readCallback_def hasMoreElements_def)
  then show ?thesis using p by auto
qed

text \<open>libcurl calls back with one buffer after the other.\<close>

fun upload :: "('w, 'f) upload_peer \<Rightarrow> blobs \<Rightarrow> job \<Rightarrow> FormDataElement list \<Rightarrow> u32 \<Rightarrow> byte list list \<Rightarrow> 'f form_stream \<Rightarrow> 'w
    \<Rightarrow> (byte list \<times> 'f form_stream \<times> 'w) option" where
  "upload up blobs d es junk [] st w = Some ([], st, w)"
| "upload up blobs d es junk (buf # bufs) st w =
     (case readCallback up blobs d es 1 (of_nat (length buf)) buf junk st w of
        None \<Rightarrow> None
      | Some (r, st', w') \<Rightarrow> map_option (\<lambda>(out, s). (taken r @ out, s)) (upload up blobs d es junk bufs st' w'))"

lemma upload_all:
  assumes "serving_peer up files unread" "list_all (element_ok blobs) es" "\<not> m_cancelled d" "m_client d"
    and "stream_ok blobs (files w) unread es st w" "list_all (\<lambda>buf. buf \<noteq> [] \<and> length buf < 2 ^ 31) bufs"
    and "length es - m_formDataElementIndex st + length (left_bytes blobs (files w) (open_rest unread st w) es st) \<le> length bufs"
  shows "\<exists>st' w'. upload up blobs d es junk bufs st w = Some (left_bytes blobs (files w) (open_rest unread st w) es st, st', w')
    \<and> \<not> hasMoreElements es st' \<and> files w' = files w"
  using assms(5-7)
proof (induction bufs arbitrary: st w)
  case Nil
  then show ?case by (auto simp: hasMoreElements_def left_bytes_def)
next
  case (Cons buf bufs)
  let ?left = "\<lambda>st w. left_bytes blobs (files w) (open_rest unread st w) es st"
  have buf: "buf \<noteq> []" "length buf < 2 ^ 31" and bufs: "list_all (\<lambda>buf. buf \<noteq> [] \<and> length buf < 2 ^ 31) bufs" using Cons.prems(2) by simp_all
  show ?case
  proof (cases "m_formDataElementIndex st < length es")
    case False
    have "\<exists>st' w'. upload up blobs d es junk bufs st w = Some (?left st w, st', w') \<and> \<not> hasMoreElements es st' \<and> files w' = files w"
      using False Cons.prems(1) bufs by (intro Cons.IH) (simp_all add: left_bytes_def)
    then show ?thesis using False by (auto simp: readCallback_def hasMoreElements_def left_bytes_def)
  next
    case True
    obtain r st1 w1 where r: "readCallback up blobs d es 1 (of_nat (length buf)) buf junk st w = Some (r, st1, w1)" "files w1 = files w"
      "progress blobs (files w) unread es (taken r) st w st1 w1"
      using callback_progress [OF assms(1) Cons.prems(1) assms(2) True buf assms(3,4)] by blast
    have p: "stream_ok blobs (files w1) unread es st1 w1" "?left st w = taken r @ ?left st1 w1"
      "length es - m_formDataElementIndex st1 + length (?left st1 w1) < length es - m_formDataElementIndex st + length (?left st w)"
      using r(2,3) True by (auto simp: progress_def neq_Nil_conv)
    have "\<exists>st' w'. upload up blobs d es junk bufs st1 w1 = Some (?left st1 w1, st', w') \<and> \<not> hasMoreElements es st' \<and> files w' = files w1"
      using p(3) Cons.prems(3) by (intro Cons.IH [OF p(1) bufs]) simp
    then show ?thesis using r p(2) by auto
  qed
qed

section \<open>What is announced\<close>

lemma getFileSize_ok:
  assumes "serving_peer up files unread" "name \<noteq> []"
  shows "\<exists>w'. getFileSize up name w = (map_option (\<lambda>bs. int (length bs)) (files w name), w') \<and> files w' = files w"
proof (cases "files w name")
  case None
  then show ?thesis using serving_peerD(2) [OF assms(1) None] assms(2) by (auto simp: getFileSize_def)
next
  case (Some bs)
  then show ?thesis using serving_peerD(1) [OF assms(1) Some] serving_peerD(4) [OF assms(1)] assms(2) by (auto simp: getFileSize_def)
qed

lemma total_size_ok:
  assumes "serving_peer up files unread" "list_all (element_ok blobs) es" "n + length (form_bytes blobs (files w) es) < 2 ^ 63"
  shows "\<exists>w'. total_size up blobs True es (of_nat n) w = (False, of_nat (n + length (form_bytes blobs (files w) es)), w') \<and> files w' = files w"
  using assms(2,3)
proof (induction es arbitrary: n w)
  case Nil
  then show ?case by (simp add: form_bytes_def)
next
  case (Cons e es)
  let ?b = "element_bytes blobs (files w) e"
  have sum: "form_bytes blobs (files w) (e # es) = ?b @ form_bytes blobs (files w) es" by (simp add: form_bytes_def)
  have acc: "(of_nat n :: i64) + of_nat (length ?b) = of_nat (n + length ?b)" by simp
  have IH: "\<exists>w'. total_size up blobs True es (of_nat (n + length ?b)) w1 = (False, of_nat (n + length (form_bytes blobs (files w) (e # es))), w')
      \<and> files w' = files w" if "files w1 = files w" for w1
    using Cons.IH [of "n + length ?b" w1] Cons.prems that by (simp add: sum add.assoc)
  show ?case
  proof (cases e)
    case (FormData_data bytes)
    then show ?thesis using IH [of w] by simp
  next
    case (FormData_encodedBlob url)
    then obtain bytes off len where b: "blobs url = Some [BlobItemData bytes off len]" "0 \<le> off" "0 \<le> len" "off + len \<le> int (length bytes)"
      using blob_ok [of blobs url] Cons.prems(1) by auto
    then have "int (length ?b) = len" using FormData_encodedBlob by simp
    then have "(word_of_int len :: i64) = of_nat (length ?b)" by (metis of_int_of_nat_eq)
    then show ?thesis using IH [of w] b(1) FormData_encodedBlob acc by simp
  next
    case (FormData_encodedFile name)
    then have "name \<noteq> []" using Cons.prems(1) by simp
    then obtain w1 where g: "getFileSize up name w = (map_option (\<lambda>bs. int (length bs)) (files w name), w1)" "files w1 = files w"
      using getFileSize_ok [OF assms(1)] by blast
    show ?thesis
    proof (cases "files w name")
      case None
      then have "?b = []" using FormData_encodedFile by simp
      then show ?thesis using IH [OF g(2)] g(1) None FormData_encodedFile by simp
    next
      case (Some bs)
      then have b: "?b = bs" using FormData_encodedFile by simp
      have "int (length bs) \<le> 2 ^ 63 - 1" using Cons.prems(2) unfolding sum b by simp
      then show ?thesis using IH [OF g(2)] g(1) Some FormData_encodedFile b by (simp add: maxCurlOffT_def)
    qed
  qed
qed

section \<open>Properties\<close>

text \<open>
  C24: the body of a request is sent as it is. When a form of data, files and blobs of one piece is streamed, each piece of data
  shorter than 2 GiB, libcurl is told the length of their bytes in their order and gets exactly these bytes, whatever the sizes
  of its buffers; after as many calls as there are bytes and elements the callback reports the end. The file functions behave
  like those of C.
\<close>

theorem upload_is_the_body:
  fixes up :: "('w, 'f) upload_peer"
  assumes "serving_peer up files unread" "list_all (element_ok blobs) es" "length (form_bytes blobs (files w) es) < 2 ^ 63"
    and "setupMethod up blobs True (Some es) meth rq w = (True, rq', w')"
    and "\<not> m_cancelled d" "m_client d" "list_all (\<lambda>buf. buf \<noteq> [] \<and> length buf < 2 ^ 31) bufs"
    and "length es + length (form_bytes blobs (files w) es) \<le> length bufs"
  shows "(if meth = HTTPMethod_PUT then CURLOPT_INFILESIZE_LARGE else CURLOPT_POSTFIELDSIZE_LARGE)
           (int (length (form_bytes blobs (files w) es))) \<in> set (rq_options rq')
    \<and> (\<exists>st'' w''. upload up blobs d es junk bufs FormDataStream_new w' = Some (form_bytes blobs (files w) es, st'', w'')
         \<and> readCallback up blobs d es 1 (of_nat (length buf)) buf junk st'' w'' = Some (Sent 0 buf, st'', w''))"
proof -
  let ?n = "length (form_bytes blobs (files w) es)"
  obtain w1 where t: "total_size up blobs True es 0 w = (False, of_nat ?n, w1)" "files w1 = files w"
    using total_size_ok [OF assms(1,2), of 0 w] assms(3) by auto
  have "signed_take_bit 63 (int ?n) = int ?n" using assms(3) by (intro signed_take_bit_int_eq_self) simp_all
  then have s: "sint (of_nat ?n :: i64) = int ?n" by (simp add: signed_of_nat)
  have m: "rq' = setopt [CURLOPT_READFUNCTION, CURLOPT_READDATA] (setopt [size_option meth True (of_nat ?n)] rq)" "w' = w1"
    using assms(4) t(1) by (auto simp: setupMethod_def Let_def split: if_splits)
  let ?st = "FormDataStream_new :: 'f form_stream"
  have l: "left_bytes blobs (files w1) (open_rest unread ?st w1) es ?st = form_bytes blobs (files w) es"
    using left_start [of 0 ?st blobs "files w" unread w1 es] t(2) by (simp add: FormDataStream_new_def)
  have st: "stream_ok blobs (files w1) unread es ?st w1" by (simp add: stream_ok_def FormDataStream_new_def)
  have len: "length es - m_formDataElementIndex ?st
      + length (left_bytes blobs (files w1) (open_rest unread ?st w1) es ?st) \<le> length bufs"
    unfolding l using assms(8) by (simp add: FormDataStream_new_def)
  obtain st'' w'' where u: "upload up blobs d es junk bufs ?st w1 = Some (form_bytes blobs (files w) es, st'', w'')"
    "\<not> hasMoreElements es st''"
    using upload_all [OF assms(1,2,5,6) st assms(7) len, of junk] l by auto
  have "readCallback up blobs d es 1 (of_nat (length buf)) buf junk st'' w'' = Some (Sent 0 buf, st'', w'')"
    using u(2) by (simp add: readCallback_def)
  then show ?thesis using u(1) s unfolding m by (simp add: setopt_def size_option_def)
qed

text \<open>
  C34: a blob of two pieces is read outside its memory. The offset reached in the first piece, when the buffer is shorter than it, is
  subtracted from the length of the second one; if that is shorter than the buffer the difference wraps around and a whole buffer is
  copied from behind the end of the second piece: the call is undefined, and with any memory \<open>behind\<close> the piece it is the bytes of
  that memory which are copied into the buffer.
\<close>

theorem blob_pieces_overread:
  assumes "blobs url = Some [BlobItemData a 0 (int (length a)), BlobItemData b 0 (int (length b))]"
    and "length b < length buf" "length buf < length a" "length a < 2 ^ 31"
    and "m_formDataElementIndex st < length es" "es ! m_formDataElementIndex st = FormData_encodedBlob url" "m_formDataElementDataOffset st = 0"
    and "\<not> m_cancelled d" "m_client d" "2 * length buf \<le> length b + length behind"
  shows "readCallback up blobs d es 1 (of_nat (length buf)) buf junk st w = None
    \<and> read_piece (of_nat (length buf)) (b @ behind) 0 (of_nat (length b)) (st\<lparr>m_formDataElementDataOffset := of_nat (length buf)\<rparr>)
      = Some (of_nat (length buf), take (length buf) (drop (length buf - length b) behind),
          st\<lparr>m_formDataElementDataOffset := of_nat (length buf) + of_nat (length buf)\<rparr>)"
proof -
  let ?n = "of_nat (length buf) :: u32"
  have un: "unat ?n = length buf" using assms(3,4) by (intro small_u32) simp
  have n0: "?n \<noteq> 0" using un assms(2) by auto
  have nov: "\<not> (- 1) div ?n < (1 :: u32)" by (rule no_overflow [OF n0])
  have "length b < 2 ^ 31" using assms(2-4) by simp
  note ub = small_u32(1) [OF this]
  have p: "read_piece ?n a 0 (word_of_int (int (length a))) st
      = Some (?n, take (length buf) a, st\<lparr>m_formDataElementDataOffset := ?n\<rparr>)"
    using read_piece_ok [OF refl assms(4), of 0 a ?n st] assms(3,7) un n0 by (simp add: min_def)
  have wrap: "unat (of_nat (length b) - ?n) = length b + 2 ^ 32 - length buf"
    using ub un assms(2) by (simp add: unat_sub_if')
  then have sent: "of_nat (length b) - ?n > ?n" using un assms(2-4) by (simp add: word_less_nat_alt)
  have u: "uint ?n = int (length buf)" using un by (metis uint_nat)
  have "buf \<noteq> []" using assms(2) by auto
  then have "memcpy_from b (uint ?n) (unat ?n) = None" using u assms(2) un by (simp add: memcpy_from_def)
  then have r: "read_piece ?n b 0 (word_of_int (int (length b))) (st\<lparr>m_formDataElementDataOffset := ?n\<rparr>) = None"
    using sent by (simp add: read_piece_def Let_def)
  have "memcpy_from (b @ behind) (uint ?n) (unat ?n) = Some (take (length buf) (drop (length buf - length b) behind))"
    using u un assms(2,10) by (auto simp: memcpy_from_def)
  then have "read_piece ?n (b @ behind) 0 (of_nat (length b)) (st\<lparr>m_formDataElementDataOffset := ?n\<rparr>)
      = Some (?n, take (length buf) (drop (length buf - length b) behind), st\<lparr>m_formDataElementDataOffset := ?n + ?n\<rparr>)"
    using sent by (simp add: read_piece_def Let_def)
  moreover have "readCallback up blobs d es 1 ?n buf junk st w = None"
    using assms(1,5,6,8,9) p n0 nov r by (simp add: readCallback_def hasMoreElements_def form_read_def)
  ultimately show ?thesis by blast
qed

text \<open>A file system in memory with one open file.\<close>

definition mem_upload :: "((byte list \<Rightarrow> byte list option) \<times> (byte list \<times> bool) option, unit) upload_peer" where
  "mem_upload =
     \<lparr>up_open = (\<lambda>name (fs, cur). case fs name of None \<Rightarrow> (None, (fs, cur)) | Some bs \<Rightarrow> (Some (), (fs, Some (bs, False)))),
      up_read = (\<lambda>_ sz n (fs, cur). case cur of None \<Rightarrow> (- 1, [], (fs, cur))
        | Some (rest, e) \<Rightarrow> (int (min (sz * n) (length rest) div sz), take (sz * n) rest, (fs, Some (drop (sz * n) rest, e \<or> length rest < sz * n)))),
      up_feof = (\<lambda>_ (fs, cur). case cur of None \<Rightarrow> True | Some (rest, e) \<Rightarrow> e),
      up_stat = (\<lambda>_ (fs, cur). map_option (\<lambda>(rest, e). int (length rest)) cur),
      up_close = (\<lambda>_ (fs, cur). (fs, None))\<rparr>"

lemma mem_upload_serves:
  "serving_peer mem_upload fst (\<lambda>_ w. case snd w of None \<Rightarrow> None | Some (rest, e) \<Rightarrow> if e \<and> rest \<noteq> [] then None else Some rest)"
  by (auto simp: serving_peer_def mem_upload_def split: option.splits if_splits)

theorem upload_is_the_body_witness:
  "let es = [FormData_data [1, 2], FormData_encodedFile [0x66]]; w = ([[0x66] \<mapsto> [3]], None);
       (streamed, rq', w') = setupMethod mem_upload Map.empty True (Some es) HTTPMethod_POST \<lparr>rq_headers = [], rq_options = [], m_postBytes = []\<rparr> w
   in CURLOPT_POSTFIELDSIZE_LARGE 3 \<in> set (rq_options rq')
      \<and> (\<exists>s. upload mem_upload Map.empty sample_job es 0 (replicate 5 [0, 0]) FormDataStream_new w' = Some ([1, 2, 3], s))"
proof -
  let ?es = "[FormData_data [1, 2], FormData_encodedFile [0x66]]"
    and ?w = "([[0x66] \<mapsto> [3]], None) :: (byte list \<Rightarrow> byte list option) \<times> (byte list \<times> bool) option"
    and ?rq = "\<lparr>rq_headers = [], rq_options = [], m_postBytes = []\<rparr>"
  obtain s rq' w' where m: "setupMethod mem_upload Map.empty True (Some ?es) HTTPMethod_POST ?rq ?w = (s, rq', w')" by (metis prod_cases3)
  then have s by (auto simp: setupMethod_def Let_def split: prod.splits)
  have f: "form_bytes Map.empty (fst ?w) ?es = [1, 2, 3]" by (simp add: form_bytes_def)
  have "\<not> m_cancelled sample_job" "m_client sample_job" by (simp_all add: sample_job_def)
  then show ?thesis
    using upload_is_the_body [OF mem_upload_serves, of Map.empty ?es ?w HTTPMethod_POST ?rq rq' w' sample_job "replicate 5 [0, 0]" 0 "[]"] f m \<open>s\<close>
    by (auto simp: Let_def list_all_iff)
qed

theorem blob_pieces_overread_witness:
  "readCallback mem_upload [''blob:a'' \<mapsto> [BlobItemData [1, 2, 3] 0 3, BlobItemData [] 0 0]] sample_job [FormData_encodedBlob ''blob:a''] 1 1 [0] 0
     FormDataStream_new (Map.empty, None) = None
   \<and> map_option (\<lambda>(n, bs, st). bs) (read_piece 1 ([] @ [8, 9]) 0 0 (FormDataStream_new\<lparr>m_formDataElementDataOffset := 1\<rparr> :: unit form_stream)) = Some [9]"
  using blob_pieces_overread [of "[''blob:a'' \<mapsto> [BlobItemData [1, 2, 3] 0 3, BlobItemData [] 0 0]]" "''blob:a''" "[1, 2, 3]" "[]" "[0]"
      "FormDataStream_new :: unit form_stream" "[FormData_encodedBlob ''blob:a'']" sample_job "[8, 9]" mem_upload 0 "(Map.empty, None)"]
  by (simp add: FormDataStream_new_def sample_job_def)

end
