(* ===== verification/Cookies.thy ===== *)
theory Cookies
  imports ResponseCallbacks
begin

text \<open>
  Cookies: the questions to the application (\<open>cookie_callback\<close>, \<open>cookieCallback\<close>), the cookies of scripts (\<open>CookieJarWKC.cpp\<close>), and
  clearing, saving and restoring them (\<open>ResourceHandleManagerWKC.cpp\<close>). The cookies themselves are kept by libcurl; its store is the
  parameter \<open>cookie_share\<close>. Strings are C strings; an access outside a buffer has the value None. The text that \<open>CookieDeserialize\<close> gets
  ends with a NUL, as its interface asks for; the lengths that \<open>CookieSerialize\<close> adds up in an \<open>int\<close> are below 2 GiB.
\<close>


section \<open>The store of libcurl\<close>

datatype cookie_type = COOKIETYPE_HEADERLINE | COOKIETYPE_COOKIELIST | COOKIETYPE_COOKIELIST_ALL

record 'c cookie_share =
  ck_set :: "nstring \<Rightarrow> nstring \<Rightarrow> string \<Rightarrow> cookie_type \<Rightarrow> 'c \<Rightarrow> 'c"
  ck_get :: "string \<Rightarrow> string \<Rightarrow> bool \<Rightarrow> bool \<Rightarrow> 'c \<Rightarrow> string"
  ck_list :: "'c \<Rightarrow> string list option"
  ck_num :: "'c \<Rightarrow> int"
  ck_names :: "string \<Rightarrow> string \<Rightarrow> bool \<Rightarrow> 'c \<Rightarrow> string list option"
  ck_clear :: "'c \<Rightarrow> bool \<times> 'c"

text \<open>What the platform and the application answer.\<close>

record cookie_policy =
  isIPAddress :: "string \<Rightarrow> bool"
  dispatchWillAcceptCookie :: "bool \<Rightarrow> string \<Rightarrow> string \<Rightarrow> string \<Rightarrow> bool"

record document =
  top_url :: "kurl option"
  has_client :: bool

section \<open>Asking the application\<close>

definition cookieCallback_job :: "cookie_policy \<Rightarrow> bool \<Rightarrow> bool \<Rightarrow> string \<Rightarrow> string \<Rightarrow> string \<Rightarrow> bool" where
  \<comment> \<open>True: \<open>CURLE_COOKIE_ACCEPT\<close>\<close>
  "cookieCallback_job pol client income url firstparty_host cookie_domain \<longleftrightarrow>
     client \<and> dispatchWillAcceptCookie pol income url firstparty_host cookie_domain"

definition cookieCallback_document :: "cookie_policy \<Rightarrow> document option \<Rightarrow> bool \<Rightarrow> string \<Rightarrow> string \<Rightarrow> string \<Rightarrow> bool" where
  "cookieCallback_document pol doc income url firstparty_host cookie_domain \<longleftrightarrow>
     (case doc of None \<Rightarrow> False
      | Some d \<Rightarrow> has_client d \<and> dispatchWillAcceptCookie pol income url firstparty_host cookie_domain)"

definition cookie_callback :: "cookie_policy \<Rightarrow> bool \<Rightarrow> job \<Rightarrow> transfer \<Rightarrow> bool \<Rightarrow> nstring \<Rightarrow> bool \<Rightarrow> bool" where
  "cookie_callback pol client d t receive domain tailmatch \<longleftrightarrow>
     (let firstparty_host = (case firstPartyForCookies t of None \<Rightarrow> [] | Some k \<Rightarrow> KURL_host k);
          named = text_of domain
      in if m_cancelled d then False
         else if \<not> allowCookies t then False
         else if isIPAddress pol firstparty_host then
           (if firstparty_host \<noteq> named then False
            else cookieCallback_job pol client receive (d_url d) firstparty_host named)
         else cookieCallback_job pol client receive (d_url d) firstparty_host
                (if named \<noteq> [] then (if tailmatch \<and> hd named \<noteq> CHR ''.'' then ''.'' else []) @ named else []))"

section \<open>Clearing\<close>

record 'c cookie_state =
  m_cookiesDeleting :: bool
  ck_store :: 'c

definition doClearCookies :: "'c cookie_share \<Rightarrow> jid list \<Rightarrow> 'c cookie_state \<Rightarrow> 'c cookie_state" where
  \<comment> \<open>with the list of running jobs\<close>
  "doClearCookies sh running st =
     (if \<not> m_cookiesDeleting st then st
      else if running \<noteq> [] then st
      else case ck_clear sh (ck_store st) of
             (True, c) \<Rightarrow> st\<lparr>ck_store := c, m_cookiesDeleting := False\<rparr>
           | (False, c) \<Rightarrow> st\<lparr>ck_store := c\<rparr>)"

definition clearCookies :: "'c cookie_share \<Rightarrow> jid list \<Rightarrow> 'c cookie_state \<Rightarrow> 'c cookie_state" where
  "clearCookies sh running st = doClearCookies sh running (st\<lparr>m_cookiesDeleting := True\<rparr>)"

section \<open>Cookies of scripts\<close>

definition setCookie :: "'c cookie_share \<Rightarrow> string \<Rightarrow> string \<Rightarrow> string \<Rightarrow> 'c \<Rightarrow> 'c" where
  "setCookie sh domain path cookie = ck_set sh (Some domain) (Some path) cookie COOKIETYPE_HEADERLINE"

definition getCookie :: "'c cookie_share \<Rightarrow> string \<Rightarrow> string \<Rightarrow> bool \<Rightarrow> bool \<Rightarrow> 'c \<Rightarrow> nstring" where
  "getCookie sh domain path secure includehttponly c =
     (let s = ck_get sh domain path secure includehttponly c in if s = [] then None else Some s)"

definition isHttpOnly :: "string \<Rightarrow> bool" where
  "isHttpOnly value \<longleftrightarrow> list_ex (\<lambda>v. equalIgnoringCase (stripWhiteSpace v) ''HttpOnly'') (str_split False (CHR '';'') value)"

definition firstparty_of :: "document option \<Rightarrow> kurl \<Rightarrow> string" where
  "firstparty_of doc url =
     (let h = (case doc of None \<Rightarrow> [] | Some d \<Rightarrow> (case top_url d of None \<Rightarrow> [] | Some k \<Rightarrow> KURL_host k))
      in if h = [] then KURL_host url else h)"

definition default_domain :: "cookie_policy \<Rightarrow> kurl \<Rightarrow> string" where
  "default_domain pol url = (if isIPAddress pol (KURL_host url) then KURL_host url else CHR ''.'' # KURL_host url)"

definition min_pos :: "nat option \<Rightarrow> nat option \<Rightarrow> nat option" where
  "min_pos len1 len2 = (case len1 of None \<Rightarrow> len2 | Some a \<Rightarrow> (case len2 of None \<Rightarrow> len1 | Some b \<Rightarrow> Some (if a < b then a else b)))"

definition domain_attribute :: "string \<Rightarrow> string" where
  \<comment> \<open>searched in the whole cookie\<close>
  "domain_attribute value =
     (let i = (case find_ignoring_case value ''domain='' 0 of None \<Rightarrow> 0 | Some i \<Rightarrow> i);
          rest = drop (i + 7) value
      in stripWhiteSpace (case min_pos (str_find rest (CHR '','')) (str_find rest (CHR '';'')) of None \<Rightarrow> rest | Some n \<Rightarrow> str_left rest n))"

definition script_domain :: "cookie_policy \<Rightarrow> string \<Rightarrow> string \<Rightarrow> string option" where
  \<comment> \<open>None: the cookie is refused; empty: it names no domain\<close>
  "script_domain pol firstparty_host value =
     (case str_find value (CHR '';'') of
        None \<Rightarrow> Some []
      | Some pos \<Rightarrow>
          let str = drop pos value in
          if isHttpOnly str then None
          else if find_ignoring_case str ''domain='' 0 = None then Some []
          else if isIPAddress pol firstparty_host \<and> firstparty_host \<noteq> domain_attribute value then None
          else Some (domain_attribute value))"

definition setCookies :: "'c cookie_share \<Rightarrow> cookie_policy \<Rightarrow> document option \<Rightarrow> kurl \<Rightarrow> string \<Rightarrow> 'c \<Rightarrow> 'c option" where
  "setCookies sh pol doc url value c =
     (let fp = firstparty_of doc url in
      case script_domain pol fp value of
        None \<Rightarrow> Some c
      | Some named \<Rightarrow>
          let cookie_domain = (if named = [] then default_domain pol url else named) in
          if \<not> cookieCallback_document pol doc True (m_string url) fp cookie_domain then Some c
          else map_option (\<lambda>opt_url. setCookie sh (KURL_host opt_url) (KURL_path opt_url) value c) (KURL_parse (KURL_baseAsString url)))"

definition cookiesInternal :: "'c cookie_share \<Rightarrow> cookie_policy \<Rightarrow> document option \<Rightarrow> kurl \<Rightarrow> bool \<Rightarrow> 'c \<Rightarrow> nstring option" where
  "cookiesInternal sh pol doc url includehttponly c =
     map_option (\<lambda>opt_url.
       if \<not> cookieCallback_document pol doc False (m_string url) (firstparty_of doc url) (default_domain pol url) then None
       else getCookie sh (KURL_host opt_url) (KURL_path opt_url) (KURL_protocolIs url ''https'') includehttponly c)
     (KURL_parse (KURL_baseAsString url))"

definition cookies :: "'c cookie_share \<Rightarrow> cookie_policy \<Rightarrow> document option \<Rightarrow> kurl \<Rightarrow> 'c \<Rightarrow> nstring option" where
  "cookies sh pol doc url = cookiesInternal sh pol doc url False"

definition cookieRequestHeaderFieldValue :: "'c cookie_share \<Rightarrow> cookie_policy \<Rightarrow> document option \<Rightarrow> kurl \<Rightarrow> 'c \<Rightarrow> nstring option" where
  "cookieRequestHeaderFieldValue sh pol doc url = cookiesInternal sh pol doc url True"

definition deleteCookie :: "'c cookie_share \<Rightarrow> string \<Rightarrow> string \<Rightarrow> bool \<Rightarrow> string \<Rightarrow> 'c \<Rightarrow> 'c" where
  "deleteCookie sh domain path secure name c =
     (case ck_names sh domain path secure c of
        None \<Rightarrow> c
      | Some names \<Rightarrow>
          if list_ex (equalIgnoringCase name) names
          then setCookie sh domain path
                 (''Set-Cookie: '' @ name @ ''=; expires=Thu, 01-Jan-1970 00:00:00 GMT; path='' @ path @ ''; domain='' @ domain @ '';'') c
          else c)"

section \<open>Saving and restoring\<close>

definition line :: "string \<Rightarrow> string" where
  "line s = s @ [CHR 0x0D, CHR 0x0A]"

definition cookie_text :: "string list \<Rightarrow> string" where
  "cookie_text cs = concat (map line cs) @ (if cs = [] then [] else [CHR 0x00])"

fun first_kept :: "string list \<Rightarrow> int \<Rightarrow> int \<Rightarrow> nat \<Rightarrow> nat option" where
  \<comment> \<open>from the last cookie back; the position after the first one that does not fit\<close>
  "first_kept arr bufflen total_len 0 = None"
| "first_kept arr bufflen total_len (Suc i) =
     (let total_len' = total_len + int (length (arr ! i)) + 2
      in if bufflen < total_len' + 1 then Some (Suc i) else first_kept arr bufflen total_len' i)"

definition CookieSerialize :: "'c cookie_share \<Rightarrow> bool \<Rightarrow> int \<Rightarrow> 'c \<Rightarrow> (int \<times> string) option" where
  \<comment> \<open>\<open>buff\<close>: a buffer is given; the result with what is written to it, None for an access outside\<close>
  "CookieSerialize sh buff bufflen c =
     (case ck_list sh c of
        None \<Rightarrow> Some (- 1, [])
      | Some cs \<Rightarrow>
          if \<not> buff then Some (int (length (cookie_text cs)), [])
          else if ck_num sh c \<le> 0 then Some (0, [])
          else
            let num = nat (ck_num sh c) in
            if length cs < num then None
            else
              let current = (case first_kept cs bufflen 0 num of None \<Rightarrow> cs | Some k \<Rightarrow> if k = num then [] else drop k cs);
                  out = cookie_text current
              in if bufflen < int (length out) then None else Some (int (length out), out))"

definition is_eol :: "char \<Rightarrow> bool" where
  "is_eol c \<longleftrightarrow> c = CHR 0x0D \<or> c = CHR 0x0A"

function lines_of :: "string \<Rightarrow> string list" where
  "lines_of s =
     (let s1 = dropWhile is_eol s in
      if s1 = [] then []
      else takeWhile (\<lambda>c. \<not> is_eol c) s1 # lines_of (dropWhile (\<lambda>c. \<not> is_eol c) s1))"
  by pat_completeness auto
termination
proof (relation "measure length", simp)
  fix s s1 :: string assume s1: "s1 = dropWhile is_eol s" "s1 \<noteq> []"
  then have "\<not> is_eol (hd s1)" using hd_dropWhile [of is_eol s] by simp
  with s1(2) have "length (dropWhile (\<lambda>c. \<not> is_eol c) s1) < length s1"
    by (cases s1) (simp_all add: le_imp_less_Suc length_dropWhile_le)
  also have "length s1 \<le> length s" using s1(1) by (simp add: length_dropWhile_le)
  finally show "(dropWhile (\<lambda>c. \<not> is_eol c) s1, s) \<in> measure length" by simp
qed

declare lines_of.simps [simp del]

definition CookieDeserialize :: "'c cookie_share \<Rightarrow> string \<Rightarrow> bool \<Rightarrow> 'c \<Rightarrow> 'c" where
  "CookieDeserialize sh buff restart c =
     foldl (\<lambda>c cookie. ck_set sh None None cookie (if restart then COOKIETYPE_COOKIELIST_ALL else COOKIETYPE_COOKIELIST) c) c
       (lines_of (takeWhile (\<lambda>ch. ch \<noteq> CHR 0x00) buff))"

section \<open>What is kept\<close>

lemma cookie_text_length: "cs \<noteq> [] \<Longrightarrow> length (cookie_text cs) = length (concat (map line cs)) + 1"
  by (simp add: cookie_text_def)

lemma first_kept_spec:
  assumes "i \<le> length cs" "i = length cs \<or> int (length (cookie_text (drop i cs))) \<le> bufflen"
  shows "case first_kept cs bufflen (int (length (concat (map line (drop i cs))))) i of
      None \<Rightarrow> int (length (cookie_text cs)) \<le> bufflen \<or> cs = []
    | Some k \<Rightarrow> 0 < k \<and> k \<le> i \<and> bufflen < int (length (cookie_text (drop (k - 1) cs)))
        \<and> (k = length cs \<or> int (length (cookie_text (drop k cs))) \<le> bufflen)"
  using assms
proof (induction i)
  case (Suc i)
  have d: "drop i cs = cs ! i # drop (Suc i) cs" using Suc.prems(1) by (simp add: Cons_nth_drop_Suc)
  then have l: "int (length (concat (map line (drop (Suc i) cs)))) + int (length (cs ! i)) + 2 = int (length (concat (map line (drop i cs))))"
    by (simp add: line_def)
  have c: "int (length (cookie_text (drop i cs))) = int (length (concat (map line (drop i cs)))) + 1"
    using d by (subst cookie_text_length) simp_all
  show ?case
  proof (cases "bufflen < int (length (concat (map line (drop i cs)))) + 1")
    case True
    then show ?thesis using Suc.prems l c by (simp add: Let_def)
  next
    case False
    then show ?thesis using Suc.IH Suc.prems(1) l c by (auto simp: Let_def split: option.splits)
  qed
qed (auto split: option.splits)

definition plain_cookie :: "string \<Rightarrow> bool" where
  "plain_cookie s \<longleftrightarrow> s \<noteq> [] \<and> CHR 0x0D \<notin> set s \<and> CHR 0x0A \<notin> set s \<and> CHR 0x00 \<notin> set s"

lemma lines_of_Cons:
  assumes "plain_cookie s"
  shows "lines_of (line s @ rest) = s # lines_of rest"
proof -
  have ne: "\<forall>x \<in> set s. \<not> is_eol x" "s \<noteq> []" using assms by (auto simp: plain_cookie_def is_eol_def)
  then have 1: "dropWhile is_eol (line s @ rest) = line s @ rest" by (cases s) (auto simp: line_def)
  have 2: "takeWhile (\<lambda>c. \<not> is_eol c) (line s @ rest) = s" "dropWhile (\<lambda>c. \<not> is_eol c) (line s @ rest) = CHR 0x0D # CHR 0x0A # rest"
    using ne by (simp_all add: line_def takeWhile_append2 dropWhile_append2 is_eol_def)
  have "lines_of (CHR 0x0D # CHR 0x0A # rest) = lines_of rest"
    by (simp add: lines_of.simps [of "CHR 0x0D # _"] lines_of.simps [of rest] is_eol_def)
  then show ?thesis using ne(2) 1 2 by (subst lines_of.simps) (simp add: Let_def line_def)
qed

lemma lines_of_Nil: "lines_of [] = []"
  by (subst lines_of.simps) simp

lemma cookie_text_drop: "length (cookie_text (drop k cs)) \<le> length (cookie_text cs)"
proof (induction cs arbitrary: k)
  case (Cons a cs)
  have "length (cookie_text cs) \<le> length (cookie_text (a # cs))" by (simp add: cookie_text_def)
  note le = le_trans [OF Cons.IH this]
  show ?case
  proof (cases k)
    case (Suc i)
    then show ?thesis using le [of i] by simp
  qed simp
qed simp

lemma line_no_nul: "plain_cookie s \<Longrightarrow> CHR 0x00 \<notin> set (line s)"
  by (simp add: line_def plain_cookie_def)

lemma text_no_nul: "list_all plain_cookie cs \<Longrightarrow> CHR 0x00 \<notin> set (concat (map line cs))"
  by (induction cs) (simp_all add: line_no_nul)

lemma takeWhile_text: "list_all plain_cookie cs \<Longrightarrow> takeWhile (\<lambda>ch. ch \<noteq> CHR 0x00) (cookie_text cs) = concat (map line cs)"
proof -
  assume "list_all plain_cookie cs"
  then have n: "\<And>ch. ch \<in> set (concat (map line cs)) \<Longrightarrow> ch \<noteq> CHR 0x00" using text_no_nul by blast
  have "takeWhile (\<lambda>ch. ch \<noteq> CHR 0x00) (concat (map line cs) @ ys) = concat (map line cs) @ takeWhile (\<lambda>ch. ch \<noteq> CHR 0x00) ys" for ys
    by (rule takeWhile_append2) (rule n)
  then show ?thesis by (simp add: cookie_text_def)
qed

lemma lines_of_text:
  assumes "list_all plain_cookie cs"
  shows "lines_of (takeWhile (\<lambda>ch. ch \<noteq> CHR 0x00) (cookie_text cs)) = cs"
  unfolding takeWhile_text [OF assms] using assms by (induction cs) (simp_all add: lines_of_Cons lines_of_Nil)

section \<open>Properties\<close>

text \<open>
  C14: cookies survive a restart. \<open>CookieSerialize\<close> never writes outside the buffer it is given and reports what it wrote; restored
  from there, \<open>CookieDeserialize\<close> hands libcurl the newest cookies in their order, dropping older ones only when one more would not
  have fitted, and none in a buffer of the size the call without a buffer asks for. No cookie contains line ends or zeros.
\<close>

theorem cookies_survive_restart:
  assumes "ck_list sh c = Some cs" "ck_num sh c = int (length cs)" "list_all plain_cookie cs" "0 \<le> bufflen"
  shows "\<exists>out k. CookieSerialize sh True bufflen c = Some (int (length out), out) \<and> int (length out) \<le> bufflen \<and> k \<le> length cs
    \<and> CookieDeserialize sh' out restart c'
       = foldl (\<lambda>c cookie. ck_set sh' None None cookie (if restart then COOKIETYPE_COOKIELIST_ALL else COOKIETYPE_COOKIELIST) c) c' (drop k cs)
    \<and> (0 < k \<longrightarrow> bufflen < int (length (cookie_text (drop (k - 1) cs))))
    \<and> (\<forall>n. CookieSerialize sh False 0 c = Some (n, []) \<and> n \<le> bufflen \<longrightarrow> k = 0)"
proof -
  define k where "k = (case first_kept cs bufflen 0 (length cs) of None \<Rightarrow> 0 | Some k \<Rightarrow> k)"
  define out where "out = cookie_text (drop k cs)"
  have nil: "int (length (cookie_text [])) \<le> bufflen" using assms(4) by (simp add: cookie_text_def)
  have f: "case first_kept cs bufflen 0 (length cs) of None \<Rightarrow> int (length (cookie_text cs)) \<le> bufflen \<or> cs = []
    | Some k \<Rightarrow> 0 < k \<and> k \<le> length cs \<and> bufflen < int (length (cookie_text (drop (k - 1) cs)))
        \<and> (k = length cs \<or> int (length (cookie_text (drop k cs))) \<le> bufflen)"
    using first_kept_spec [of "length cs" cs bufflen] by simp
  have spec: "k \<le> length cs \<and> (0 < k \<longrightarrow> bufflen < int (length (cookie_text (drop (k - 1) cs)))) \<and> int (length out) \<le> bufflen"
  proof (cases "first_kept cs bufflen 0 (length cs)")
    case None
    then show ?thesis using f nil by (auto simp: k_def out_def)
  next
    case (Some i)
    then have "int (length (cookie_text (drop i cs))) \<le> bufflen" using f nil by (cases "i = length cs") simp_all
    then show ?thesis using f Some by (simp add: k_def out_def)
  qed
  have ser: "CookieSerialize sh True bufflen c = Some (int (length out), out)"
  proof (cases "cs = []")
    case True
    then show ?thesis using assms(1,2) by (simp add: CookieSerialize_def out_def cookie_text_def)
  next
    case False
    have "(case first_kept cs bufflen 0 (length cs) of None \<Rightarrow> cs | Some k \<Rightarrow> if k = length cs then [] else drop k cs) = drop k cs"
      by (auto simp: k_def split: option.splits)
    then show ?thesis using assms(1,2) False spec by (simp add: CookieSerialize_def out_def Let_def)
  qed
  have l: "lines_of (takeWhile (\<lambda>ch. ch \<noteq> CHR 0x00) out) = drop k cs"
    unfolding out_def using assms(3) by (intro lines_of_text) (simp add: list_all_iff, meson in_set_dropD)
  have all: "k = 0" if "int (length (cookie_text cs)) \<le> bufflen"
  proof (rule ccontr)
    assume "k \<noteq> 0"
    then have "int (length (cookie_text cs)) < int (length (cookie_text (drop (k - 1) cs)))" using spec that by simp
    moreover have "length (cookie_text (drop (k - 1) cs)) \<le> length (cookie_text cs)" by (rule cookie_text_drop)
    ultimately show False by simp
  qed
  then show ?thesis
    using ser spec l assms(1) by (intro exI [of _ out] exI [of _ k]) (auto simp: CookieDeserialize_def CookieSerialize_def)
qed

definition sample_share :: "(string list) cookie_share" where
  "sample_share =
     \<lparr>ck_set = (\<lambda>_ _ s _ c. c @ [s]), ck_get = (\<lambda>_ _ _ _ c. concat c), ck_list = (\<lambda>c. Some c), ck_num = (\<lambda>c. int (length c)),
      ck_names = (\<lambda>_ _ _ c. Some c), ck_clear = (\<lambda>_. (True, []))\<rparr>"

theorem cookies_survive_restart_witness:
  "\<exists>out. CookieSerialize sample_share True 7 [''abc'', ''de'', ''f''] = Some (int (length out), out)
     \<and> CookieDeserialize sample_share out True [] = [''f'']"
proof -
  let ?cs = "[''abc'', ''de'', ''f'']"
  have "list_all plain_cookie ?cs" by code_simp
  then obtain out k where o: "CookieSerialize sample_share True 7 ?cs = Some (int (length out), out)"
    "CookieDeserialize sample_share out True [] = foldl (\<lambda>c cookie. c @ [cookie]) [] (drop k ?cs)"
    using cookies_survive_restart [of sample_share ?cs ?cs 7 sample_share True "[]"] by (auto simp: sample_share_def)
  moreover have "CookieSerialize sample_share True 7 ?cs = Some (4, cookie_text [''f''])" by code_simp
  moreover have "CookieDeserialize sample_share (cookie_text [''f'']) True [] = [''f'']"
  proof -
    have "lines_of (takeWhile (\<lambda>ch. ch \<noteq> CHR 0x00) (cookie_text [''f''])) = [''f'']" by (rule lines_of_text) code_simp
    then show ?thesis by (simp add: CookieDeserialize_def sample_share_def)
  qed
  ultimately show ?thesis by auto
qed

lemma find_start: "xs \<noteq> [] \<Longrightarrow> startsWith (str_lower xs) (str_lower p) \<Longrightarrow> find_ignoring_case xs p 0 = Some 0"
  by (simp add: find_ignoring_case_def upt_conv_Cons)

lemma find_inside:
  assumes "i < length xs" "startsWith (str_lower (drop i xs)) (str_lower p)"
  shows "find_ignoring_case xs p 0 \<noteq> None"
  unfolding find_ignoring_case_def find_None_iff using assms by (metis atLeastLessThan_iff le0 set_upt)

lemma domain_attribute_first:
  assumes "CHR '';'' \<notin> set d1" "CHR '','' \<notin> set d1" "stripWhiteSpace d1 = d1"
  shows "domain_attribute (''domain='' @ d1 @ CHR '';'' # rest) = d1"
proof -
  let ?v = "''domain='' @ d1 @ CHR '';'' # rest"
  have "startsWith (str_lower ?v) (str_lower ''domain='')" by (simp add: startsWith_def str_lower_def)
  then have i: "find_ignoring_case ?v ''domain='' 0 = Some 0" by (intro find_start) simp_all
  have semi: "str_find (d1 @ CHR '';'' # rest) (CHR '';'') = Some (length d1)"
    using assms(1) by (rule str_find_here)
  have "length d1 < n" if "str_find (d1 @ CHR '';'' # rest) (CHR '','') = Some n" for n
    using that assms(2) by (auto simp: str_find_def find_from_append dest!: find_from_bound)
  then have "min_pos (str_find (d1 @ CHR '';'' # rest) (CHR '','')) (str_find (d1 @ CHR '';'' # rest) (CHR '';'')) = Some (length d1)"
    unfolding semi min_pos_def by (auto split: option.splits dest: less_not_sym)
  then show ?thesis unfolding domain_attribute_def i using assms(3) by (simp add: str_left_def substring_def)
qed

text \<open>
  C33: the application is asked about another domain than the one a cookie gets. The domain is searched for in the whole cookie and not
  only in its attributes: for a cookie with the name \<open>domain\<close> its value is shown to the application, and when that is accepted
  libcurl is given the cookie with the domain its attribute names, whatever that is.
\<close>

theorem cookie_domain_spoofed:
  assumes "CHR '';'' \<notin> set d1" "CHR '','' \<notin> set d1" "stripWhiteSpace d1 = d1" "d1 \<noteq> []"
    and "\<not> isHttpOnly (''; domain='' @ d2)" "\<not> isIPAddress pol (firstparty_of (Some doc) url)" "has_client doc"
    and "KURL_parse (KURL_baseAsString url) = Some opt_url"
    and "dispatchWillAcceptCookie pol True (m_string url) (firstparty_of (Some doc) url) d1"
  shows "setCookies sh pol (Some doc) url (''domain='' @ d1 @ ''; domain='' @ d2) c
    = Some (setCookie sh (KURL_host opt_url) (KURL_path opt_url) (''domain='' @ d1 @ ''; domain='' @ d2) c)"
proof -
  let ?v = "''domain='' @ d1 @ CHR '';'' # '' domain='' @ d2"
  have pos: "str_find ?v (CHR '';'') = Some (7 + length d1)"
    using assms(1) by (simp add: str_find_def find_from_append)
  have "drop (7 + length d1) ?v = drop (length d1) (drop 7 ?v)" by (simp only: drop_drop add.commute)
  then have str: "drop (7 + length d1) ?v = ''; domain='' @ d2" by simp
  have "find_ignoring_case (''; domain='' @ d2) ''domain='' 0 \<noteq> None"
    by (rule find_inside [of 2]) (simp_all add: startsWith_def str_lower_def)
  then have "script_domain pol (firstparty_of (Some doc) url) ?v = Some d1"
    unfolding script_domain_def pos option.case Let_def str domain_attribute_first [OF assms(1-3)] using assms(5,6) by (simp only: if_False simp_thms)
  then have "setCookies sh pol (Some doc) url ?v c = Some (setCookie sh (KURL_host opt_url) (KURL_path opt_url) ?v c)"
    using assms(4,7-9) by (simp add: setCookies_def Let_def cookieCallback_document_def)
  then show ?thesis by simp
qed

theorem cookie_domain_spoofed_witness:
  "\<exists>url. KURL_parse ''http://www.e.com/'' = Some url
     \<and> setCookies sample_share \<lparr>isIPAddress = (\<lambda>_. False), dispatchWillAcceptCookie = (\<lambda>_ _ _ d. d = ''ok'')\<rparr>
         (Some \<lparr>top_url = None, has_client = True\<rparr>) url ''domain=ok; domain=e.com'' [] = Some [''domain=ok; domain=e.com'']"
proof -
  have "KURL_parse ''http://www.e.com/'' \<noteq> None" by code_simp
  then obtain url where u: "KURL_parse ''http://www.e.com/'' = Some url" by blast
  have "KURL_parse (KURL_baseAsString (the (KURL_parse ''http://www.e.com/''))) \<noteq> None" by code_simp
  then obtain opt where o: "KURL_parse (KURL_baseAsString url) = Some opt" using u by auto
  have h: "\<not> isHttpOnly (''; domain='' @ ''e.com'')" "stripWhiteSpace ''ok'' = ''ok''" by code_simp+
  show ?thesis
    using cookie_domain_spoofed [of "''ok''" "''e.com''" "\<lparr>isIPAddress = (\<lambda>_. False), dispatchWillAcceptCookie = (\<lambda>_ _ _ d. d = ''ok'')\<rparr>"
        "\<lparr>top_url = None, has_client = True\<rparr>" url opt sample_share "[]"] h o u
    by (simp add: setCookie_def sample_share_def)
qed

end
