(* ===== verification/SocketStream.thy ===== *)
theory SocketStream
  imports AuthJar ProxyFilter
begin

text \<open>
  The sockets of WebSockets: the buffered stream of WebCore (\<open>SocketStreamHandleBase.cpp\<close>), the
  port's handle over libcurl (\<open>SocketStreamHandleWKC.cpp\<close>) and the part of the resource handle
  manager that limits their number (\<open>reserveWebSocketConnection\<close> and its neighbours).

  All handles live in one state, because reserving a connection for one handle closes others. A
  handle is named by a number, in the order of creation. libcurl and the socket peer are functions of an
  environment \<open>env\<close> over a world \<open>'w\<close>; the client is a record of callbacks on the whole state,
  since a callback may call the handle again (the channel disconnects inside \<open>didFail\<close>). The value
  None of an operation means that it does not return, which \<open>fin_loop\<close> and \<open>open_loop\<close> can do, or
  that the URL parser reads outside its buffers.
\<close>

section \<open>State\<close>

datatype SocketStreamState = Connecting | Open | Closing | Closed

datatype SocketState = SockNone | Initialized | Connected | Active

datatype curl_value = Num int | Text string

type_synonym hid = nat

record handle =
  h_url :: kurl
  h_client :: bool
  h_buffer :: "byte list"
  m_state :: SocketStreamState
  m_socketState :: SocketState
  m_socket :: int
  m_progressTimer :: bool
  m_interval :: nat
  m_lastUpdate :: u32
  m_isProxy :: bool
  m_recvData :: bool
  m_handle :: bool
  m_multiHandle :: bool
  h_options :: "(string \<times> curl_value) list"

definition SocketStreamHandle_fields :: "kurl \<Rightarrow> handle" where
  \<comment> \<open>the initialisers of both classes, before \<open>construct\<close>\<close>
  "SocketStreamHandle_fields url =
     \<lparr>h_url = url, h_client = True, h_buffer = [], m_state = Connecting, m_socketState = SockNone,
      m_socket = -1, m_progressTimer = False, m_interval = 1, m_lastUpdate = 0, m_isProxy = False,
      m_recvData = False, m_handle = False, m_multiHandle = False, h_options = []\<rparr>"

record 'w ws_net =
  m_socketStreamHandleList :: "hid list"
  m_maxWebSocketConnections :: int
  ws_proxy :: string
  ws_proxyPort :: int
  ws_proxyFilters :: "Filter list"
  ws_authJar :: auth_jar
  m_AllowServerHost :: "string list"
  next_handle :: hid
  sockets :: "hid \<Rightarrow> handle"
  world :: 'w

datatype CURLcode = CURLE_OK | CURLE_AGAIN | CURLE_UNSUPPORTED_PROTOCOL | CURLE_OTHER

text \<open>
  libcurl, the socket peer and the allocator: \<open>easy_send\<close> answers the code, the number of bytes taken
  and the error of the socket; \<open>multi_perform\<close> the socket it opened, if any, through the callback,
  and the message, if any: whether it is \<open>CURLMSG_DONE\<close>; \<open>select_peer\<close> the result and whether the
  socket can be read and written.
\<close>

record 'w sock_env =
  multi_init :: "'w \<Rightarrow> bool \<times> 'w"
  easy_init :: "'w \<Rightarrow> bool \<times> 'w"
  recv_alloc :: "'w \<Rightarrow> bool \<times> 'w"
  curl_setup :: "hid \<Rightarrow> 'w \<Rightarrow> 'w"
  curl_cleanup :: "hid \<Rightarrow> 'w \<Rightarrow> 'w"
  net_close :: "int \<Rightarrow> 'w \<Rightarrow> 'w"
  certf_registered :: "'w \<Rightarrow> bool"
  crl_registered :: "'w \<Rightarrow> bool"
  tick_count :: "'w \<Rightarrow> u32"
  multi_perform :: "hid \<Rightarrow> 'w \<Rightarrow> (int option \<times> bool option) \<times> 'w"
  easy_send :: "hid \<Rightarrow> byte list \<Rightarrow> 'w \<Rightarrow> (CURLcode \<times> nat \<times> bool) \<times> 'w"
  recv_peer :: "int \<Rightarrow> 'w \<Rightarrow> (int \<times> byte list) \<times> 'w"
  select_peer :: "int \<Rightarrow> bool \<Rightarrow> 'w \<Rightarrow> (int \<times> bool \<times> bool) \<times> 'w"
  easy_recv :: "hid \<Rightarrow> 'w \<Rightarrow> (CURLcode \<times> byte list) \<times> 'w"

type_synonym 'w op = "'w ws_net \<Rightarrow> 'w ws_net option"

record 'w client =
  cl_isClosing :: "hid \<Rightarrow> 'w ws_net \<Rightarrow> bool"
  cl_willOpen :: "hid \<Rightarrow> 'w op"
  cl_didOpen :: "hid \<Rightarrow> 'w op"
  cl_didClose :: "hid \<Rightarrow> 'w op"
  cl_didReceive :: "hid \<Rightarrow> byte list \<Rightarrow> 'w op"
  cl_didUpdate :: "hid \<Rightarrow> nat \<Rightarrow> 'w op"
  cl_didFail :: "hid \<Rightarrow> 'w op"

definition upd :: "hid \<Rightarrow> (handle \<Rightarrow> handle) \<Rightarrow> 'w ws_net \<Rightarrow> 'w ws_net" where
  "upd h f n = n\<lparr>sockets := (sockets n)(h := f (sockets n h))\<rparr>"

definition to_client :: "hid \<Rightarrow> 'w op \<Rightarrow> 'w op" where
  \<comment> \<open>\<open>if (m_client) m_client->...\<close>\<close>
  "to_client h callback n = (if h_client (sockets n h) then callback n else Some n)"

section \<open>The limit of connections\<close>

definition releaseWebSocketConnection :: "hid \<Rightarrow> 'w ws_net \<Rightarrow> 'w ws_net" where
  "releaseWebSocketConnection h n =
     n\<lparr>m_socketStreamHandleList := remove1 h (m_socketStreamHandleList n)\<rparr>"

text \<open>\<open>platformClose\<close>: the timer, libcurl's handles and the socket, then the client, then the manager.\<close>

definition close_curl :: "'w sock_env \<Rightarrow> hid \<Rightarrow> 'w ws_net \<Rightarrow> 'w ws_net" where
  "close_curl env h n =
     (let s = sockets n h; w1 = curl_cleanup env h (world n);
          w2 = (if 0 < m_socket s then net_close env (m_socket s) w1 else w1)
      in (upd h (\<lambda>s. s\<lparr>m_handle := False, m_multiHandle := False, m_socket := -1\<rparr>) n)\<lparr>world := w2\<rparr>)"

definition platformClose :: "'w sock_env \<Rightarrow> 'w client \<Rightarrow> hid \<Rightarrow> 'w op" where
  "platformClose env cl h n =
     (let n1 = upd h (\<lambda>s. s\<lparr>m_progressTimer := False\<rparr>) n; s = sockets n1 h in
      if \<not> m_handle s \<or> \<not> m_multiHandle s then Some n1
      else
        Option.bind (to_client h (cl_didClose cl h) (close_curl env h n1))
          (\<lambda>n2. Some (releaseWebSocketConnection h n2)))"

definition disconnect :: "'w sock_env \<Rightarrow> 'w client \<Rightarrow> hid \<Rightarrow> 'w op" where
  "disconnect env cl h n =
     Option.bind (platformClose env cl h n) (\<lambda>n1. Some (upd h (\<lambda>s. s\<lparr>m_state := Closed\<rparr>) n1))"

definition isClosingSocketStreamChannel :: "'w client \<Rightarrow> hid \<Rightarrow> 'w ws_net \<Rightarrow> bool" where
  "isClosingSocketStreamChannel cl h n \<longleftrightarrow> h_client (sockets n h) \<and> cl_isClosing cl h n"

fun disconnect_each :: "'w sock_env \<Rightarrow> 'w client \<Rightarrow> hid list \<Rightarrow> 'w op" where
  "disconnect_each env cl [] n = Some n"
| "disconnect_each env cl (h # hs) n = Option.bind (disconnect env cl h n) (disconnect_each env cl hs)"

definition reserveWebSocketConnection :: "'w sock_env \<Rightarrow> 'w client \<Rightarrow> hid \<Rightarrow> 'w ws_net \<Rightarrow> (bool \<times> 'w ws_net) option" where
  "reserveWebSocketConnection env cl h n =
     Option.bind
       (if m_maxWebSocketConnections n \<le> int (length (m_socketStreamHandleList n))
        then disconnect_each env cl
               (filter (\<lambda>x. isClosingSocketStreamChannel cl x n) (m_socketStreamHandleList n)) n
        else Some n)
       (\<lambda>n1. if m_maxWebSocketConnections n1 \<le> int (length (m_socketStreamHandleList n1)) then Some (False, n1)
             else Some (True, n1\<lparr>m_socketStreamHandleList := m_socketStreamHandleList n1 @ [h]\<rparr>))"

fun other_blocks :: "hid \<Rightarrow> string \<Rightarrow> int \<Rightarrow> hid list \<Rightarrow> 'w ws_net \<Rightarrow> bool" where
  "other_blocks h host port [] n = False"
| "other_blocks h host port (item # items) n =
     (if item = h then other_blocks h host port items n
      else
        let url = h_url (sockets n item) in
        if host \<noteq> KURL_host url \<or> port \<noteq> KURL_port url then other_blocks h host port items n
        else
          (case m_socketState (sockets n item) of
             Initialized \<Rightarrow> other_blocks h host port items n
           | Active \<Rightarrow> other_blocks h host port items n
           | _ \<Rightarrow> True))"

definition canStartWebSocketConnecting :: "hid \<Rightarrow> 'w ws_net \<Rightarrow> bool" where
  "canStartWebSocketConnecting h n \<longleftrightarrow>
     h \<in> set (m_socketStreamHandleList n)
     \<and> \<not> other_blocks h (KURL_host (h_url (sockets n h))) (KURL_port (h_url (sockets n h)))
            (m_socketStreamHandleList n) n"

definition getCurrentWebSocketConnectionsNum :: "'w ws_net \<Rightarrow> int" where
  "getCurrentWebSocketConnectionsNum n = int (length (m_socketStreamHandleList n))"

definition setMaxWebSocketConnections :: "int \<Rightarrow> 'w ws_net \<Rightarrow> 'w ws_net" where
  \<comment> \<open>one connection is kept for the inspector; 0 means no limit\<close>
  "setMaxWebSocketConnections number n =
     (if number < 0 then n
      else if number = 0 then n\<lparr>m_maxWebSocketConnections := INT_MAX\<rparr>
      else if 1 < number then n\<lparr>m_maxWebSocketConnections := number - 1\<rparr>
      else n)"

section \<open>A new handle\<close>

definition SSLhostAndPort :: "kurl \<Rightarrow> string" where
  "SSLhostAndPort u =
     (if m_hostEnd u < m_portEnd u then str_lower (KURL_host u) @ '':'' @ dec_string (KURL_port u)
      else KURL_host u @ '':443'')"

definition allowsServerHost :: "string list \<Rightarrow> string \<Rightarrow> bool" where
  "allowsServerHost hosts host \<longleftrightarrow> str_lower host \<in> set hosts"

definition tls_options :: "'w sock_env \<Rightarrow> 'w ws_net \<Rightarrow> kurl \<Rightarrow> (string \<times> curl_value) list" where
  "tls_options env n httpurl =
     (if certf_registered env (world n) then [(''CAINFO'', Text ''WKCOSSL_CERT_FILE'')] else [])
     @ (if crl_registered env (world n) then [(''CRLFILE'', Text ''WKCOSSL_CRL_FILE'')] else [])
     @ [(''RANDOM_FILE'', Text ''WKCOSSL_RANDFILE''), (''SSLVERSION'', Text ''CURL_SSLVERSION_DEFAULT''),
        (''CERTINFO'', Num 0)]
     @ (if allowsServerHost (m_AllowServerHost n) (SSLhostAndPort httpurl)
        then [(''SSL_VERIFYHOST'', Num 0), (''SSL_VERIFYPEER'', Num 0)]
        else [(''SSL_VERIFYHOST'', Num 2), (''SSL_VERIFYPEER'', Num 1)])"

definition proxyauth_option :: "ProtectionSpaceAuthenticationScheme \<Rightarrow> (string \<times> curl_value) list" where
  "proxyauth_option authScheme =
     (case authScheme of
        SchemeHTTPBasic \<Rightarrow> [(''PROXYAUTH'', Text ''CURLAUTH_BASIC'')]
      | SchemeHTTPDigest \<Rightarrow> [(''PROXYAUTH'', Text ''CURLAUTH_DIGEST''), (''MULTI_MAXCONNECTS'', Num 2)]
      | SchemeNTLM \<Rightarrow> [(''PROXYAUTH'', Text ''CURLAUTH_NTLM'')]
      | _ \<Rightarrow> [])"

text \<open>The proxy options, or None if a URL or a filter is read outside its buffers.\<close>

definition proxy_options :: "'w ws_net \<Rightarrow> kurl \<Rightarrow> (bool \<times> (string \<times> curl_value) list) option" where
  "proxy_options n url =
     (if ws_proxy n = [] then Some (False, [])
      else Option.bind (isMatchProxyFilter (ws_proxyFilters n) (KURL_host url)) (\<lambda>matched.
        if matched then Some (False, [])
        else Option.bind (getProxyUserPassword (ws_proxy n) (ws_proxyPort n) (ws_authJar n)) (\<lambda>answer.
          let auth = (case answer of
                        Some (serverType, authScheme, user, pass) \<Rightarrow>
                          [(''PROXYUSERNAME'', Text user), (''PROXYPASSWORD'', Text pass)] @ proxyauth_option authScheme
                      | None \<Rightarrow> [(''PROXYAUTH'', Text ''CURLAUTH_ANY'')])
          in Some (True, [(''PROXY'', Text (ws_proxy n))] @ auth @ [(''HTTPPROXYTUNNEL'', Num 1)]))))"

definition curl_options :: "'w sock_env \<Rightarrow> 'w ws_net \<Rightarrow> kurl \<Rightarrow> (bool \<times> (string \<times> curl_value) list) option" where
  "curl_options env n url =
     (let tls = str_lower (KURL_protocol url) = ''wss'' in
      Option.bind (setProtocol (if tls then ''https'' else ''http'') url) (\<lambda>(_, httpurl).
      Option.bind (proxy_options n url) (\<lambda>(isProxy, proxy).
        Some (isProxy,
          [(''MULTI_MAXCONNECTS'', Num 1), (''FOLLOWLOCATION'', Num 1), (''MAXREDIRS'', Num 10), (''MAXCONNECTS'', Num 1)]
          @ (if tls then tls_options env n httpurl else [])
          @ [(''URL'', Text (m_string httpurl))] @ proxy
          @ [(''CONNECT_ONLY'', Num 1)]))))"

text \<open>The early exits of \<open>construct\<close> after the connection is reserved: it is released again.\<close>

definition construct_resources :: "'w sock_env \<Rightarrow> hid \<Rightarrow> 'w ws_net \<Rightarrow> bool \<times> 'w ws_net" where
  "construct_resources env h n =
     (let (okm, w1) = multi_init env (world n) in
      if \<not> okm then (False, releaseWebSocketConnection h (n\<lparr>world := w1\<rparr>))
      else
        let (oke, w2) = easy_init env w1 in
        if \<not> oke then (False, releaseWebSocketConnection h (n\<lparr>world := curl_cleanup env h w2\<rparr>))
        else
          let (okr, w3) = recv_alloc env w2; n3 = upd h (\<lambda>s. s\<lparr>m_recvData := okr\<rparr>) (n\<lparr>world := w3\<rparr>) in
          if \<not> okr then (False, releaseWebSocketConnection h (n3\<lparr>world := curl_cleanup env h w3\<rparr>))
          else (True, n3))"

definition construct_handles :: "'w sock_env \<Rightarrow> hid \<Rightarrow> bool \<Rightarrow> 'w op" where
  "construct_handles env h reserved n1 =
     (if \<not> reserved then Some n1
      else
        let (got, n2) = construct_resources env h n1 in
        if \<not> got then Some n2
        else
          Option.bind (curl_options env n2 (h_url (sockets n2 h))) (\<lambda>(isProxy, options).
            Some (upd h (\<lambda>s. s\<lparr>h_options := options, m_isProxy := isProxy, m_multiHandle := True,
                               m_handle := True, m_socketState := Initialized\<rparr>)
                   (n2\<lparr>world := curl_setup env h (world n2)\<rparr>))))"

definition construct_end :: "'w client \<Rightarrow> hid \<Rightarrow> 'w op" where
  "construct_end cl h n =
     Option.bind
       (if m_socketState (sockets n h) = Initialized then to_client h (cl_willOpen cl h) n else Some n)
       (\<lambda>n1. Some (upd h (\<lambda>s. s\<lparr>m_progressTimer := True\<rparr>) n1))"

definition construct :: "'w sock_env \<Rightarrow> 'w client \<Rightarrow> hid \<Rightarrow> 'w op" where
  "construct env cl h n =
     Option.bind (reserveWebSocketConnection env cl h n) (\<lambda>(reserved, n1).
     Option.bind (construct_handles env h reserved n1) (construct_end cl h))"

definition SocketStreamHandle_new :: "'w sock_env \<Rightarrow> 'w client \<Rightarrow> kurl \<Rightarrow> 'w op" where
  \<comment> \<open>the new handle is \<open>next_handle n\<close>\<close>
  "SocketStreamHandle_new env cl url n =
     construct env cl (next_handle n)
       (upd (next_handle n) (\<lambda>_. SocketStreamHandle_fields url) (n\<lparr>next_handle := Suc (next_handle n)\<rparr>))"

definition SocketStreamHandle_destroy :: "'w sock_env \<Rightarrow> 'w client \<Rightarrow> hid \<Rightarrow> 'w op" where
  "SocketStreamHandle_destroy env cl h n =
     Option.bind (platformClose env cl h (upd h (\<lambda>s. s\<lparr>h_client := False\<rparr>) n))
       (\<lambda>n1. Some (upd h (\<lambda>s. s\<lparr>m_recvData := False\<rparr>) n1))"


section \<open>Sending\<close>

definition bufferSize :: nat where
  "bufferSize = 100 * 1024 * 1024"

definition bufferedAmount :: "hid \<Rightarrow> 'w ws_net \<Rightarrow> nat" where
  "bufferedAmount h n = length (h_buffer (sockets n h))"

definition nextProgress :: "'w sock_env \<Rightarrow> hid \<Rightarrow> bool \<Rightarrow> 'w ws_net \<Rightarrow> 'w ws_net" where
  \<comment> \<open>\<open>m_interval\<close> in units of \<open>BASE_INTERVAL\<close>; the timer runs afterwards in both cases\<close>
  "nextProgress env h refresh n =
     (let s = sockets n h; now = tick_count env (world n) in
      if \<not> m_handle s \<or> \<not> m_multiHandle s then n
      else if refresh then upd h (\<lambda>s. s\<lparr>m_lastUpdate := now, m_interval := 1, m_progressTimer := True\<rparr>) n
      else
        let k = unat (now - m_lastUpdate s) div 1024 + 1
        in upd h (\<lambda>s. s\<lparr>m_interval := (if 10 < k then 10 else k), m_progressTimer := True\<rparr>) n)"

text \<open>
  The loop of \<open>platformSend\<close> that looks for the end of the connection; \<open>again\<close> is the comparison
  with \<open>EAGAIN\<close> of the error that was read before the loop.
\<close>

partial_function (option) fin_loop ::
    "'w sock_env \<Rightarrow> 'w client \<Rightarrow> hid \<Rightarrow> bool \<Rightarrow> nat \<Rightarrow> 'w ws_net \<Rightarrow> (int \<times> 'w ws_net) option" where
  "fin_loop env cl h again len n =
     (let ((r, bytes), w1) = recv_peer env (m_socket (sockets n h)) (world n); n1 = n\<lparr>world := w1\<rparr> in
      if 0 < r then Option.bind (to_client h (cl_didReceive cl h bytes) n1) (\<lambda>n2. fin_loop env cl h again len n2)
      else if r = 0 then Some (int len, n1)
      else if again then fin_loop env cl h again len n1
      else Some (-1, n1))"

definition platformSend :: "'w sock_env \<Rightarrow> 'w client \<Rightarrow> hid \<Rightarrow> byte list \<Rightarrow> 'w ws_net \<Rightarrow> (int \<times> 'w ws_net) option" where
  "platformSend env cl h data n =
     (let s = sockets n h in
      if m_state s \<noteq> Open \<or> \<not> m_handle s \<or> \<not> m_multiHandle s \<or> m_socket s < 0
      then map_option (Pair (-1)) (to_client h (cl_didFail cl h) n)
      else
        let ((ret, out_len, again), w1) = easy_send env h data (world n); n1 = n\<lparr>world := w1\<rparr> in
        if ret = CURLE_UNSUPPORTED_PROTOCOL then fin_loop env cl h again (length data) n1
        else if ret \<noteq> CURLE_OK \<and> ret \<noteq> CURLE_AGAIN then Some (-1, n1)
        else Some (int out_len, nextProgress env h True n1))"

text \<open>The tail of \<open>send\<close>, when \<open>bytesWritten\<close> bytes have been taken.\<close>

definition keep_rest :: "'w client \<Rightarrow> hid \<Rightarrow> byte list \<Rightarrow> int \<Rightarrow> 'w ws_net \<Rightarrow> (bool \<times> 'w ws_net) option" where
  "keep_rest cl h data bytesWritten n =
     (if bytesWritten < 0 then Some (False, n)
      else if int bufferSize < int (bufferedAmount h n) + int (length data) - bytesWritten then Some (False, n)
      else if bytesWritten < int (length data) then
        (let n1 = upd h (\<lambda>s. s\<lparr>h_buffer := h_buffer s @ drop (nat bytesWritten) data\<rparr>) n
         in map_option (Pair True) (to_client h (cl_didUpdate cl h (bufferedAmount h n1)) n1))
      else Some (True, n))"

definition send :: "'w sock_env \<Rightarrow> 'w client \<Rightarrow> hid \<Rightarrow> byte list \<Rightarrow> 'w ws_net \<Rightarrow> (bool \<times> 'w ws_net) option" where
  "send env cl h data n =
     (let s = sockets n h in
      if m_state s = Connecting \<or> m_state s = Closing then Some (False, n)
      else if h_buffer s \<noteq> [] then
        (if bufferSize < length (h_buffer s) + length data then Some (False, n)
         else
           let n1 = upd h (\<lambda>s. s\<lparr>h_buffer := h_buffer s @ data\<rparr>) n
           in map_option (Pair True) (to_client h (cl_didUpdate cl h (bufferedAmount h n1)) n1))
      else
        Option.bind (if m_state s = Open then platformSend env cl h data n else Some (0, n))
          (\<lambda>(bytesWritten, n1). keep_rest cl h data bytesWritten n1))"

definition close :: "'w sock_env \<Rightarrow> 'w client \<Rightarrow> hid \<Rightarrow> 'w op" where
  "close env cl h n =
     (if m_state (sockets n h) = Closed then Some n
      else
        let n1 = upd h (\<lambda>s. s\<lparr>m_state := Closing\<rparr>) n in
        if h_buffer (sockets n1 h) \<noteq> [] then Some n1 else disconnect env cl h n1)"

definition sendPendingData :: "'w sock_env \<Rightarrow> 'w client \<Rightarrow> hid \<Rightarrow> 'w ws_net \<Rightarrow> (bool \<times> 'w ws_net) option" where
  "sendPendingData env cl h n =
     (let s = sockets n h in
      if m_state s \<noteq> Open \<and> m_state s \<noteq> Closing then Some (False, n)
      else if h_buffer s = [] \<and> m_state s = Open then Some (False, n)
      else if h_buffer s = [] \<and> m_state s = Closing then map_option (Pair False) (disconnect env cl h n)
      else
        Option.bind (platformSend env cl h (h_buffer s) n) (\<lambda>(bytesWritten, n1).
          if bytesWritten \<le> 0 then Some (False, n1)
          else
            let n2 = upd h (\<lambda>s. s\<lparr>h_buffer := drop (nat bytesWritten) (h_buffer s)\<rparr>) n1
            in map_option (Pair True) (to_client h (cl_didUpdate cl h (bufferedAmount h n2)) n2)))"

section \<open>Progress\<close>

text \<open>What \<open>curl_easy_recv\<close> answered: \<open>Inl\<close> leaves the loop, \<open>Inr\<close> goes round again.\<close>

definition received :: "'w sock_env \<Rightarrow> 'w client \<Rightarrow> hid \<Rightarrow> CURLcode \<Rightarrow> byte list \<Rightarrow> 'w ws_net
    \<Rightarrow> ('w ws_net + 'w ws_net) option" where
  "received env cl h ret bytes n =
     (if ret = CURLE_OK then
        Option.bind (if bytes \<noteq> [] then to_client h (cl_didReceive cl h bytes) n else Some n) (\<lambda>n1.
          let n2 = nextProgress env h True n1
          in Some (if bytes = [] then Inl n2 else Inr n2))
      else if ret = CURLE_AGAIN then Some (Inl (nextProgress env h True n))
      else map_option Inl (to_client h (cl_didFail cl h) n))"

definition when_writable :: "'w sock_env \<Rightarrow> 'w client \<Rightarrow> hid \<Rightarrow> 'w op" where
  "when_writable env cl h n =
     Option.bind (sendPendingData env cl h n) (\<lambda>(ok, n1). if ok then Some n1 else to_client h (cl_didFail cl h) n1)"

definition when_readable :: "'w sock_env \<Rightarrow> 'w client \<Rightarrow> hid \<Rightarrow> 'w ws_net \<Rightarrow> ('w ws_net + 'w ws_net) option" where
  "when_readable env cl h n =
     (let ((ret, bytes), w1) = easy_recv env h (world n) in received env cl h ret bytes (n\<lparr>world := w1\<rparr>))"

definition open_turn :: "'w sock_env \<Rightarrow> 'w client \<Rightarrow> hid \<Rightarrow> 'w ws_net \<Rightarrow> ('w ws_net + 'w ws_net) option" where
  "open_turn env cl h n =
     (let s = sockets n h in
      if \<not> m_handle s \<or> m_socket s = -1 then Some (Inl n)
      else
        let ((ret, rd, wd), w1) = select_peer env (m_socket s) (h_buffer s \<noteq> []) (world n); n1 = n\<lparr>world := w1\<rparr> in
        if ret = 0 then Some (Inl (nextProgress env h False n1))
        else if ret = -1 then Some (Inl (nextProgress env h True n1))
        else
          let n2 = upd h (\<lambda>s. s\<lparr>m_socketState := Active\<rparr>) n1 in
          if wd then map_option Inl (when_writable env cl h n2)
          else if rd then when_readable env cl h n2
          else Some (Inr n2))"

partial_function (option) open_loop :: "'w sock_env \<Rightarrow> 'w client \<Rightarrow> hid \<Rightarrow> 'w ws_net \<Rightarrow> 'w ws_net option" where
  "open_loop env cl h n =
     Option.bind (open_turn env cl h n) (\<lambda>r. case r of Inl n' \<Rightarrow> Some n' | Inr n' \<Rightarrow> open_loop env cl h n')"

definition connect_message :: "'w sock_env \<Rightarrow> 'w client \<Rightarrow> hid \<Rightarrow> bool \<Rightarrow> 'w op" where
  "connect_message env cl h isDone n =
     (if \<not> isDone \<or> m_socket (sockets n h) < 0
      then to_client h (cl_didClose cl h) (upd h (\<lambda>s. s\<lparr>m_state := Closed\<rparr>) n)
      else
        Option.bind (to_client h (cl_didOpen cl h) (upd h (\<lambda>s. s\<lparr>m_state := Open\<rparr>) n)) (\<lambda>n1.
          Some (nextProgress env h True (upd h (\<lambda>s. s\<lparr>m_socketState := Connected\<rparr>) n1))))"

definition connecting :: "'w sock_env \<Rightarrow> 'w client \<Rightarrow> hid \<Rightarrow> 'w op" where
  \<comment> \<open>the case Connecting of \<open>progressTimerFired\<close>; its test for null handles was made before\<close>
  "connecting env cl h n =
     (if \<not> canStartWebSocketConnecting h n then Some (nextProgress env h True n)
      else
        let ((opened, msg), w1) = multi_perform env h (world n);
            n1 = (case opened of None \<Rightarrow> n\<lparr>world := w1\<rparr>
                                | Some sock \<Rightarrow> upd h (\<lambda>s. s\<lparr>m_socket := sock\<rparr>) (n\<lparr>world := w1\<rparr>))
        in case msg of
             None \<Rightarrow> Some (nextProgress env h True n1)
           | Some isDone \<Rightarrow> connect_message env cl h isDone n1)"

definition progressTimerFired :: "'w sock_env \<Rightarrow> 'w client \<Rightarrow> hid \<Rightarrow> 'w op" where
  "progressTimerFired env cl h n =
     (let s = sockets n h in
      if m_socketState s = SockNone then
        Option.bind
          (if h_client s
           then Option.bind (cl_didOpen cl h n) (\<lambda>n1. to_client h (cl_didFail cl h) n1)
           else Some n)
          (\<lambda>n2. Some (upd h (\<lambda>s. s\<lparr>m_state := Closed\<rparr>) n2))
      else if \<not> m_handle s \<or> \<not> m_multiHandle s then Some n
      else
        (case m_state s of
           Connecting \<Rightarrow> connecting env cl h n
         | Open \<Rightarrow> open_loop env cl h n
         | Closing \<Rightarrow> Some n
         | Closed \<Rightarrow> Some n))"

text \<open>A one-shot timer is no longer active when its function is called.\<close>

definition timer_fires :: "'w sock_env \<Rightarrow> 'w client \<Rightarrow> hid \<Rightarrow> 'w op" where
  "timer_fires env cl h n =
     (if m_progressTimer (sockets n h)
      then progressTimerFired env cl h (upd h (\<lambda>s. s\<lparr>m_progressTimer := False\<rparr>) n)
      else Some n)"


section \<open>The list of connections\<close>

text \<open>
  \<open>X\<close> are the handles being closed: their libcurl handles are gone and they are still in the list
  while their client is told.
\<close>

definition conn_inv :: "hid set \<Rightarrow> 'w ws_net \<Rightarrow> bool" where
  "conn_inv X n \<longleftrightarrow>
     distinct (m_socketStreamHandleList n)
     \<and> int (length (m_socketStreamHandleList n)) \<le> m_maxWebSocketConnections n
     \<and> (\<forall>h. m_handle (sockets n h) = m_multiHandle (sockets n h))
     \<and> (\<forall>h \<in> set (m_socketStreamHandleList n). h < next_handle n)
     \<and> (\<forall>h. m_handle (sockets n h) \<longrightarrow> h \<in> set (m_socketStreamHandleList n))
     \<and> (\<forall>h \<in> set (m_socketStreamHandleList n) - X. m_handle (sockets n h))"

definition handshaking :: "'w ws_net \<Rightarrow> hid \<Rightarrow> bool" where
  "handshaking n h \<longleftrightarrow> h \<in> set (m_socketStreamHandleList n) \<and> m_socketState (sockets n h) = Connected"

text \<open>What every operation, and every callback of an orderly client, does to the list.\<close>

definition orderly_step :: "'w ws_net \<Rightarrow> 'w ws_net \<Rightarrow> bool" where
  "orderly_step n n' \<longleftrightarrow>
     m_maxWebSocketConnections n' = m_maxWebSocketConnections n
     \<and> next_handle n \<le> next_handle n'
     \<and> (\<forall>X. conn_inv X n \<longrightarrow> conn_inv X n')
     \<and> (\<forall>h < next_handle n.
          (h \<in> set (m_socketStreamHandleList n') \<longrightarrow> h \<in> set (m_socketStreamHandleList n))
          \<and> (m_handle (sockets n' h) \<longrightarrow> m_handle (sockets n h))
          \<and> h_url (sockets n' h) = h_url (sockets n h))
     \<and> (\<forall>h. handshaking n' h \<longrightarrow> handshaking n h)"

definition orderly :: "'w op \<Rightarrow> bool" where
  "orderly f \<longleftrightarrow> (\<forall>n n'. f n = Some n' \<longrightarrow> orderly_step n n')"

definition orderly_client :: "'w client \<Rightarrow> bool" where
  "orderly_client cl \<longleftrightarrow>
     (\<forall>h. orderly (cl_willOpen cl h) \<and> orderly (cl_didOpen cl h) \<and> orderly (cl_didClose cl h)
        \<and> (\<forall>bs. orderly (cl_didReceive cl h bs)) \<and> (\<forall>k. orderly (cl_didUpdate cl h k)) \<and> orderly (cl_didFail cl h))"

named_theorems orderly_intros \<open>operations that treat the list of connections properly\<close>

lemma orderly_step_refl [simp]: "orderly_step n n"
  by (simp add: orderly_step_def)

lemma orderly_step_trans: "orderly_step n n1 \<Longrightarrow> orderly_step n1 n2 \<Longrightarrow> orderly_step n n2"
proof -
  assume a: "orderly_step n n1" "orderly_step n1 n2"
  then have "h < next_handle n \<Longrightarrow> h < next_handle n1" for h
    by (auto simp: orderly_step_def intro: less_le_trans)
  with a show ?thesis unfolding orderly_step_def by auto
qed

lemma orderlyD: "orderly f \<Longrightarrow> f n = Some n' \<Longrightarrow> orderly_step n n'"
  by (simp add: orderly_def)

lemma sockets_upd [simp]: "sockets (upd h f n) k = (if k = h then f (sockets n h) else sockets n k)"
  and list_upd [simp]: "m_socketStreamHandleList (upd h f n) = m_socketStreamHandleList n"
  and max_upd [simp]: "m_maxWebSocketConnections (upd h f n) = m_maxWebSocketConnections n"
  and world_upd [simp]: "world (upd h f n) = world n"
  and next_upd [simp]: "next_handle (upd h f n) = next_handle n"
  by (simp_all add: upd_def)

text \<open>An update of fields the list does not depend on.\<close>

lemma orderly_step_upd:
  assumes "\<And>s. m_handle (f s) = m_handle s" "\<And>s. m_multiHandle (f s) = m_multiHandle s"
    "\<And>s. m_socketState (f s) = Connected \<Longrightarrow> m_socketState s = Connected" "\<And>s. h_url (f s) = h_url s"
  shows "orderly_step n ((upd h f n)\<lparr>world := w\<rparr>)" "orderly_step n (upd h f n)"
  using assms by (auto simp: orderly_step_def conn_inv_def handshaking_def)

lemma orderly_step_world [simp]: "orderly_step n (n\<lparr>world := w\<rparr>)"
  by (auto simp: orderly_step_def conn_inv_def handshaking_def)

lemma orderly_to_client: "orderly f \<Longrightarrow> to_client h f n = Some n' \<Longrightarrow> orderly_step n n'"
  by (auto simp: to_client_def orderly_def split: if_splits)

lemma orderly_nextProgress: "orderly_step n (nextProgress env h r n)"
  unfolding nextProgress_def Let_def by (auto intro!: orderly_step_upd)

lemma orderly_platformClose:
  assumes cl: "orderly_client cl" and r: "platformClose env cl h n = Some n'"
  shows "orderly_step n n'"
proof -
  let ?n1 = "upd h (\<lambda>s. s\<lparr>m_progressTimer := False\<rparr>) n"
  have s1: "orderly_step n ?n1" by (rule orderly_step_upd) simp_all
  show ?thesis
  proof (cases "m_handle (sockets n h) \<and> m_multiHandle (sockets n h)")
    case False
    then have "n' = ?n1" using r by (simp add: platformClose_def Let_def)
    then show ?thesis using s1 by simp
  next
    case True
    define n2 where n2_def: "n2 = close_curl env h ?n1"
    obtain n3 where n3: "to_client h (cl_didClose cl h) n2 = Some n3"
      and n': "n' = releaseWebSocketConnection h n3"
      using r True unfolding platformClose_def Let_def n2_def by (auto simp: bind_eq_Some_conv)
    have n2: "m_socketStreamHandleList n2 = m_socketStreamHandleList n" "next_handle n2 = next_handle n"
      "m_maxWebSocketConnections n2 = m_maxWebSocketConnections n"
      "m_handle (sockets n2 k) = (k \<noteq> h \<and> m_handle (sockets n k))"
      "m_multiHandle (sockets n2 k) = (k \<noteq> h \<and> m_multiHandle (sockets n k))"
      "h_url (sockets n2 k) = h_url (sockets n k)" "m_socketState (sockets n2 k) = m_socketState (sockets n k)" for k
      by (auto simp: n2_def close_curl_def Let_def)
    have R: "orderly_step n2 n3"
      using cl n3 by (auto simp: orderly_client_def intro: orderly_to_client)
    have "conn_inv X n'" if i: "conn_inv X n" for X
    proof -
      have hin: "h < next_handle n2" "\<not> m_handle (sockets n2 h)"
        using i True by (auto simp: conn_inv_def n2)
      have "conn_inv (insert h X) n2"
        using i unfolding conn_inv_def n2 by auto
      then have c3: "conn_inv (insert h X) n3" "\<not> m_handle (sockets n3 h)"
        using R hin by (auto simp: orderly_step_def)
      then show ?thesis
        unfolding n' conn_inv_def releaseWebSocketConnection_def
        by (auto simp: length_remove1)
    qed
    moreover have "(k \<in> set (m_socketStreamHandleList n') \<longrightarrow> k \<in> set (m_socketStreamHandleList n))
        \<and> (m_handle (sockets n' k) \<longrightarrow> m_handle (sockets n k)) \<and> h_url (sockets n' k) = h_url (sockets n k)"
      if "k < next_handle n" for k
    proof -
      have k: "k < next_handle n2" using that by (simp add: n2)
      then have "(k \<in> set (m_socketStreamHandleList n3) \<longrightarrow> k \<in> set (m_socketStreamHandleList n2))
          \<and> (m_handle (sockets n3 k) \<longrightarrow> m_handle (sockets n2 k)) \<and> h_url (sockets n3 k) = h_url (sockets n2 k)"
        using R by (simp add: orderly_step_def)
      then show ?thesis
        by (auto simp: n' n2 releaseWebSocketConnection_def dest: subsetD [OF set_remove1_subset]
            split: if_splits)
    qed
    moreover have "handshaking n k" if "handshaking n' k" for k
    proof -
      have "handshaking n3 k"
        using that by (auto simp: n' releaseWebSocketConnection_def handshaking_def dest: subsetD [OF set_remove1_subset])
      then have "handshaking n2 k"
        using R by (simp add: orderly_step_def)
      then show ?thesis
        by (auto simp: n2 handshaking_def split: if_splits)
    qed
    moreover have "m_maxWebSocketConnections n' = m_maxWebSocketConnections n" "next_handle n \<le> next_handle n'"
      using R by (simp_all add: orderly_step_def n' n2 releaseWebSocketConnection_def)
    ultimately show ?thesis by (simp add: orderly_step_def)
  qed
qed

lemma orderly_disconnect:
  assumes "orderly_client cl" "disconnect env cl h n = Some n'"
  shows "orderly_step n n'"
proof -
  obtain n1 where n1: "platformClose env cl h n = Some n1" "n' = upd h (\<lambda>s. s\<lparr>m_state := Closed\<rparr>) n1"
    using assms(2) by (auto simp: disconnect_def bind_eq_Some_conv)
  show ?thesis unfolding n1(2)
    by (rule orderly_step_trans [OF orderly_platformClose [OF assms(1) n1(1)] orderly_step_upd(2)]) simp_all
qed

lemma orderly_disconnect_each:
  assumes "orderly_client cl" "disconnect_each env cl hs n = Some n'"
  shows "orderly_step n n'"
  using assms(2)
proof (induction hs arbitrary: n)
  case (Cons h hs)
  then obtain n1 where "disconnect env cl h n = Some n1" "disconnect_each env cl hs n1 = Some n'"
    by (auto simp: bind_eq_Some_conv)
  with Cons.IH orderly_disconnect [OF assms(1)] show ?case by (blast intro: orderly_step_trans)
qed simp


text \<open>Sending keeps order; the loops by induction on their unfolding.\<close>

lemma orderly_callbacks:
  assumes "orderly_client cl"
  shows "to_client h (cl_willOpen cl k) n = Some n' \<Longrightarrow> orderly_step n n'"
    "to_client h (cl_didOpen cl k) n = Some n' \<Longrightarrow> orderly_step n n'"
    "to_client h (cl_didClose cl k) n = Some n' \<Longrightarrow> orderly_step n n'"
    "to_client h (cl_didReceive cl k bs) n = Some n' \<Longrightarrow> orderly_step n n'"
    "to_client h (cl_didUpdate cl k m) n = Some n' \<Longrightarrow> orderly_step n n'"
    "to_client h (cl_didFail cl k) n = Some n' \<Longrightarrow> orderly_step n n'"
  using assms by (auto simp: orderly_client_def intro: orderly_to_client)

lemma orderly_fin_loop:
  assumes "orderly_client cl" "fin_loop env cl h again len n = Some rn"
  shows "orderly_step n (snd rn)"
proof -
  have "orderly_client cl \<longrightarrow> orderly_step n (snd rn)"
  proof (rule fin_loop.raw_induct [where P = "\<lambda>env cl h again len n rn. orderly_client cl \<longrightarrow> orderly_step n (snd rn)",
        OF _ assms(2)], intro impI)
    fix loop env cl h again len n rn
    assume IH: "\<And>env cl h again len n rn. loop env cl h again len n = Some rn \<Longrightarrow>
        orderly_client (cl :: 'a client) \<longrightarrow> orderly_step n (snd rn)"
      and cl: "orderly_client cl"
      and r: "(let ((r, bytes), w1) = recv_peer env (m_socket (sockets n h)) (world n); n1 = n\<lparr>world := w1\<rparr>
        in if 0 < r then Option.bind (to_client h (cl_didReceive cl h bytes) n1) (loop env cl h again len)
           else if r = 0 then Some (int len, n1)
           else if again then loop env cl h again len n1 else Some (- 1, n1)) = Some rn"
    obtain p bytes w1 where e: "recv_peer env (m_socket (sockets n h)) (world n) = ((p, bytes), w1)"
      by (metis surj_pair)
    let ?n1 = "n\<lparr>world := w1\<rparr>"
    consider n2 where "to_client h (cl_didReceive cl h bytes) ?n1 = Some n2" "loop env cl h again len n2 = Some rn"
      | "loop env cl h again len ?n1 = Some rn" | "snd rn = ?n1"
      using r unfolding e Let_def by (auto simp: bind_eq_Some_conv split: if_splits)
    then show "orderly_step n (snd rn)"
    proof cases
      case (1 n2)
      show ?thesis
        by (rule orderly_step_trans [OF orderly_step_world orderly_step_trans
              [OF orderly_callbacks(4) [OF cl 1(1)] mp [OF IH [OF 1(2)] cl]]])
    next
      case 2
      show ?thesis by (rule orderly_step_trans [OF orderly_step_world mp [OF IH [OF 2] cl]])
    qed simp
  qed
  with assms(1) show ?thesis by simp
qed

lemma orderly_platformSend:
  assumes cl: "orderly_client cl" and r: "platformSend env cl h data n = Some rn"
  shows "orderly_step n (snd rn)"
proof -
  obtain ret out again w1 where e: "easy_send env h data (world n) = ((ret, out, again), w1)"
    by (metis surj_pair)
  let ?n1 = "n\<lparr>world := w1\<rparr>"
  consider n1 where "to_client h (cl_didFail cl h) n = Some n1" "rn = (-1, n1)"
    | "fin_loop env cl h again (length data) ?n1 = Some rn" | "snd rn = ?n1"
    | "snd rn = nextProgress env h True ?n1"
    using r unfolding platformSend_def Let_def e by (auto split: if_splits)
  then show ?thesis
  proof cases
    case 1
    then show ?thesis using orderly_callbacks(6) [OF cl] by simp
  next
    case 2
    then show ?thesis using orderly_fin_loop [OF cl] by (blast intro: orderly_step_trans orderly_step_world)
  next
    case 4
    then show ?thesis
      using orderly_nextProgress [of ?n1 env h True] by (simp add: orderly_step_trans [OF orderly_step_world])
  qed simp
qed

lemma orderly_update_call:
  assumes cl: "orderly_client cl"
    and r: "map_option (Pair b) (to_client h (cl_didUpdate cl h k) (upd h (\<lambda>s. s\<lparr>h_buffer := g s\<rparr>) n)) = Some rn"
  shows "orderly_step n (snd rn)"
proof -
  have "orderly_step n (upd h (\<lambda>s. s\<lparr>h_buffer := g s\<rparr>) n)" by (rule orderly_step_upd) simp_all
  then show ?thesis using r orderly_callbacks(5) [OF cl] by (auto intro: orderly_step_trans)
qed

lemma orderly_send:
  assumes cl: "orderly_client cl" and r: "send env cl h data n = Some rn"
  shows "orderly_step n (snd rn)"
proof -
  have keep: "orderly_step m (snd qn)" if "keep_rest cl h data bw m = Some qn" for m qn bw
  proof -
    let ?u = "upd h (\<lambda>s. s\<lparr>h_buffer := h_buffer s @ drop (nat bw) data\<rparr>) m"
    have "snd qn = m \<or> map_option (Pair True) (to_client h (cl_didUpdate cl h (bufferedAmount h ?u)) ?u) = Some qn"
      using that by (auto simp: keep_rest_def Let_def split: if_splits)
    then show ?thesis by (elim disjE) (simp, rule orderly_update_call [OF cl])
  qed
  consider "snd rn = n"
    | "map_option (Pair True) (to_client h (cl_didUpdate cl h
          (bufferedAmount h (upd h (\<lambda>s. s\<lparr>h_buffer := h_buffer s @ data\<rparr>) n)))
          (upd h (\<lambda>s. s\<lparr>h_buffer := h_buffer s @ data\<rparr>) n)) = Some rn"
    | q where "platformSend env cl h data n = Some q" "keep_rest cl h data (fst q) (snd q) = Some rn"
    | "keep_rest cl h data 0 n = Some rn"
    using r unfolding send_def Let_def by (auto simp: bind_eq_Some_conv split: if_splits)
  then show ?thesis
  proof cases
    case 2
    then show ?thesis by (rule orderly_update_call [OF cl])
  next
    case 3
    then show ?thesis using keep orderly_platformSend [OF cl] by (blast intro: orderly_step_trans)
  qed (use keep in auto)
qed

lemma orderly_close:
  assumes cl: "orderly_client cl" and r: "close env cl h n = Some n'"
  shows "orderly_step n n'"
proof -
  have s: "orderly_step n (upd h (\<lambda>s. s\<lparr>m_state := Closing\<rparr>) n)" by (rule orderly_step_upd) simp_all
  then show ?thesis
    using r orderly_disconnect [OF cl]
    by (auto simp: close_def Let_def split: if_splits intro: orderly_step_trans)
qed

lemma orderly_sendPendingData:
  assumes cl: "orderly_client cl" and r: "sendPendingData env cl h n = Some rn"
  shows "orderly_step n (snd rn)"
proof -
  consider "snd rn = n" | n1 where "disconnect env cl h n = Some n1" "snd rn = n1"
    | bw n1 where "platformSend env cl h (h_buffer (sockets n h)) n = Some (bw, n1)" "snd rn = n1"
    | bw n1 where "platformSend env cl h (h_buffer (sockets n h)) n = Some (bw, n1)"
        "map_option (Pair True) (to_client h (cl_didUpdate cl h
          (bufferedAmount h (upd h (\<lambda>s. s\<lparr>h_buffer := drop (nat bw) (h_buffer s)\<rparr>) n1)))
          (upd h (\<lambda>s. s\<lparr>h_buffer := drop (nat bw) (h_buffer s)\<rparr>) n1)) = Some rn"
    using r unfolding sendPendingData_def Let_def by (auto simp: bind_eq_Some_conv split: if_splits)
  then show ?thesis
  proof cases
    case 2
    then show ?thesis using orderly_disconnect [OF cl] by simp
  next
    case (3 bw n1)
    then show ?thesis using orderly_platformSend [OF cl 3(1)] by simp
  next
    case (4 bw n1)
    then show ?thesis
      using orderly_platformSend [OF cl 4(1)] orderly_update_call [OF cl 4(2)]
      by (auto intro: orderly_step_trans)
  qed simp
qed


text \<open>A new handle: \<open>h\<close> is the number it got, \<open>n0\<close> the state with its fields.\<close>

lemma same_recvData: "\<exists>b. s = s\<lparr>m_recvData := b\<rparr>"
  by (rule exI [of _ "m_recvData s"]) simp

lemma construct_resources_cases:
  assumes "construct_resources env h n = (got, n')"
  shows "(\<exists>w. got \<and> n' = upd h (\<lambda>s. s\<lparr>m_recvData := True\<rparr>) (n\<lparr>world := w\<rparr>))
    \<or> \<not> got \<and> m_socketStreamHandleList n' = remove1 h (m_socketStreamHandleList n)
      \<and> m_maxWebSocketConnections n' = m_maxWebSocketConnections n \<and> next_handle n' = next_handle n
      \<and> (\<forall>k. \<exists>b. sockets n' k = (sockets n k)\<lparr>m_recvData := b\<rparr>)"
proof -
  obtain okm w1 where w1: "multi_init env (world n) = (okm, w1)" by fastforce
  obtain oke w2 where w2: "easy_init env w1 = (oke, w2)" by fastforce
  obtain okr w3 where w3: "recv_alloc env w2 = (okr, w3)" by fastforce
  show ?thesis
  proof (cases "okm \<and> oke \<and> okr")
    case True
    then show ?thesis using assms by (auto simp: construct_resources_def w1 w2 w3 upd_def)
  next
    case False
    then have n': "\<not> got" "m_socketStreamHandleList n' = remove1 h (m_socketStreamHandleList n)"
      "m_maxWebSocketConnections n' = m_maxWebSocketConnections n" "next_handle n' = next_handle n"
      "sockets n' = sockets n \<or> sockets n' = (sockets n)(h := (sockets n h)\<lparr>m_recvData := False\<rparr>)"
      using assms by (auto simp: construct_resources_def w1 w2 w3 releaseWebSocketConnection_def upd_def split: if_splits)
    from n'(5) have "\<exists>b. sockets n' k = (sockets n k)\<lparr>m_recvData := b\<rparr>" for k
      using same_recvData [of "sockets n k"] by (cases "k = h") auto
    with n' show ?thesis by blast
  qed
qed

lemma orderly_reserve:
  assumes cl: "orderly_client cl" and r: "reserveWebSocketConnection env cl h n = Some (b, n')"
  shows "\<exists>n1. orderly_step n n1 \<and>
    (if b then n' = n1\<lparr>m_socketStreamHandleList := m_socketStreamHandleList n1 @ [h]\<rparr>
            \<and> int (length (m_socketStreamHandleList n1)) < m_maxWebSocketConnections n1
     else n' = n1)"
proof -
  obtain n1 where n1: "(if m_maxWebSocketConnections n \<le> int (length (m_socketStreamHandleList n))
        then disconnect_each env cl
               (filter (\<lambda>x. isClosingSocketStreamChannel cl x n) (m_socketStreamHandleList n)) n
        else Some n) = Some n1"
    "(if m_maxWebSocketConnections n1 \<le> int (length (m_socketStreamHandleList n1)) then Some (False, n1)
      else Some (True, n1\<lparr>m_socketStreamHandleList := m_socketStreamHandleList n1 @ [h]\<rparr>)) = Some (b, n')"
    using r unfolding reserveWebSocketConnection_def bind_eq_Some_conv by blast
  have "orderly_step n n1"
    using n1(1) orderly_disconnect_each [OF cl] by (auto split: if_splits)
  then show ?thesis using n1(2) by (auto split: if_splits)
qed

lemma orderly_reserved:
  assumes h: "h < next_handle n" "h \<notin> set (m_socketStreamHandleList n)" "\<not> m_handle (sockets n h)"
    and n2: "n2 = n\<lparr>m_socketStreamHandleList := m_socketStreamHandleList n @ [h]\<rparr>"
    and room: "int (length (m_socketStreamHandleList n)) < m_maxWebSocketConnections n"
    and n3: "m_socketStreamHandleList n3 = m_socketStreamHandleList n2" "next_handle n3 = next_handle n2"
      "m_maxWebSocketConnections n3 = m_maxWebSocketConnections n2"
      "\<And>k. k \<noteq> h \<Longrightarrow> sockets n3 k = sockets n2 k"
      "m_handle (sockets n3 h)" "m_multiHandle (sockets n3 h)" "m_socketState (sockets n3 h) = Initialized"
  shows "conn_inv X n \<Longrightarrow> conn_inv X n3" "handshaking n3 k \<Longrightarrow> handshaking n k"
proof -
  show "handshaking n3 k \<Longrightarrow> handshaking n k"
    using n3 by (cases "k = h") (auto simp: handshaking_def n2)
  assume i: "conn_inv X n"
  have eq: "m_handle (sockets n3 k) = (k = h \<or> m_handle (sockets n k))"
    "m_multiHandle (sockets n3 k) = (k = h \<or> m_multiHandle (sockets n k))" for k
    using n3(4) [of k] n3(5,6) by (cases "k = h"; simp add: n2)+
  show "conn_inv X n3"
    using i h room unfolding conn_inv_def eq by (auto simp: n3(1-3) n2)
qed


lemma orderly_fields:
  "orderly_step n (upd (next_handle n) (\<lambda>_. SocketStreamHandle_fields url) (n\<lparr>next_handle := Suc (next_handle n)\<rparr>))"
  (is "orderly_step n ?m")
proof -
  let ?h = "next_handle n"
  have s: "sockets ?m k = (if k = ?h then SocketStreamHandle_fields url else sockets n k)" for k by simp
  have f: "\<not> m_handle (SocketStreamHandle_fields url)" "\<not> m_multiHandle (SocketStreamHandle_fields url)"
    "m_socketState (SocketStreamHandle_fields url) = SockNone"
    by (simp_all add: SocketStreamHandle_fields_def)
  have "conn_inv X ?m" if "conn_inv X n" for X
    using that unfolding conn_inv_def s by (auto simp: f less_Suc_eq)
  moreover have "handshaking n k" if "handshaking ?m k" for k
    using that by (auto simp: handshaking_def f split: if_splits)
  ultimately show ?thesis by (simp add: orderly_step_def)
qed

lemma construct_failed:
  assumes res: "construct_resources env h (m\<lparr>m_socketStreamHandleList := m_socketStreamHandleList m @ [h]\<rparr>) = (False, n2)"
    and nm: "orderly_step n m" and h: "h = next_handle n"
    and fresh: "\<And>X. conn_inv X n \<Longrightarrow> h \<notin> set (m_socketStreamHandleList m)"
  shows "orderly_step n n2"
proof -
  have c: "m_socketStreamHandleList n2 = remove1 h (m_socketStreamHandleList m @ [h])"
    "m_maxWebSocketConnections n2 = m_maxWebSocketConnections m" "next_handle n2 = next_handle m"
    "\<And>k. \<exists>b. sockets n2 k = (sockets m k)\<lparr>m_recvData := b\<rparr>"
    using construct_resources_cases [OF res] by simp_all
  have same: "m_handle (sockets n2 k) = m_handle (sockets m k)" "m_multiHandle (sockets n2 k) = m_multiHandle (sockets m k)"
    "m_socketState (sockets n2 k) = m_socketState (sockets m k)" "h_url (sockets n2 k) = h_url (sockets m k)" for k
    using c(4) [of k] by auto
  have sub: "k \<in> set (m_socketStreamHandleList m)" if "k \<in> set (m_socketStreamHandleList n2)" for k
  proof (cases "h \<in> set (m_socketStreamHandleList m)")
    case True
    then have "k \<in> set (remove1 h (m_socketStreamHandleList m)) \<or> k = h"
      using that by (auto simp: c(1) remove1_append)
    then show ?thesis using True set_remove1_subset by fastforce
  next
    case False
    then show ?thesis using that by (simp add: c(1) remove1_append)
  qed
  have inv: "conn_inv X n2" if i: "conn_inv X n" for X
  proof -
    have "conn_inv X m" using nm i by (simp add: orderly_step_def)
    moreover have "m_socketStreamHandleList n2 = m_socketStreamHandleList m"
      using fresh [OF i] by (simp add: c(1) remove1_append)
    ultimately show ?thesis by (auto simp: conn_inv_def same c(2,3))
  qed
  have hs: "handshaking n k" if "handshaking n2 k" for k
  proof -
    have "handshaking m k" using that sub [of k] by (simp add: handshaking_def same)
    then show ?thesis using nm by (simp add: orderly_step_def)
  qed
  have old: "(k \<in> set (m_socketStreamHandleList n2) \<longrightarrow> k \<in> set (m_socketStreamHandleList n))
      \<and> (m_handle (sockets n2 k) \<longrightarrow> m_handle (sockets n k)) \<and> h_url (sockets n2 k) = h_url (sockets n k)"
    if "k < next_handle n" for k
    using that nm sub [of k] unfolding same by (simp add: orderly_step_def)
  show ?thesis using inv hs old nm by (simp add: orderly_step_def c(2,3))
qed

lemma construct_succeeded:
  assumes nm: "orderly_step n m" and h: "h = next_handle n"
    and fresh: "\<And>X. conn_inv X n \<Longrightarrow> h \<notin> set (m_socketStreamHandleList m) \<and> \<not> m_handle (sockets m h)"
    and hm: "h < next_handle m"
    and room: "int (length (m_socketStreamHandleList m)) < m_maxWebSocketConnections m"
    and n3: "m_socketStreamHandleList n3 = m_socketStreamHandleList m @ [h]" "next_handle n3 = next_handle m"
      "m_maxWebSocketConnections n3 = m_maxWebSocketConnections m"
      "\<And>k. k \<noteq> h \<Longrightarrow> sockets n3 k = sockets m k"
      "m_handle (sockets n3 h)" "m_multiHandle (sockets n3 h)" "m_socketState (sockets n3 h) = Initialized"
  shows "orderly_step n n3"
proof -
  have inv: "conn_inv X n3" if i: "conn_inv X n" for X
  proof -
    have "conn_inv X m" using nm i by (simp add: orderly_step_def)
    then show ?thesis
      using orderly_reserved(1) [OF hm _ _ refl room, of n3 X] fresh [OF i] n3 by simp
  qed
  have hs: "handshaking n k" if "handshaking n3 k" for k
  proof -
    have "k \<noteq> h" using that n3(7) by (auto simp: handshaking_def)
    then have "handshaking m k" using that n3(4) [of k] by (simp add: handshaking_def n3(1))
    then show ?thesis using nm by (simp add: orderly_step_def)
  qed
  have old: "(k \<in> set (m_socketStreamHandleList n3) \<longrightarrow> k \<in> set (m_socketStreamHandleList n))
      \<and> (m_handle (sockets n3 k) \<longrightarrow> m_handle (sockets n k)) \<and> h_url (sockets n3 k) = h_url (sockets n k)"
    if "k < next_handle n" for k
    using that nm n3(4) [of k] h by (simp add: orderly_step_def n3(1))
  show ?thesis using inv hs old nm by (simp add: orderly_step_def n3(2,3))
qed

lemma orderly_construct_end:
  assumes cl: "orderly_client cl" and fin: "construct_end cl h n3 = Some n'"
  shows "orderly_step n3 n'"
proof -
  obtain n4 where n4: "(if m_socketState (sockets n3 h) = Initialized then to_client h (cl_willOpen cl h) n3
      else Some n3) = Some n4" and n': "n' = upd h (\<lambda>s. s\<lparr>m_progressTimer := True\<rparr>) n4"
    using fin by (auto simp: construct_end_def bind_eq_Some_conv)
  have "orderly_step n3 n4" using n4 orderly_callbacks(1) [OF cl] by (auto split: if_splits)
  moreover have "orderly_step n4 n'" unfolding n' by (rule orderly_step_upd) simp_all
  ultimately show ?thesis by (rule orderly_step_trans)
qed

lemma orderly_new:
  assumes cl: "orderly_client cl" and r: "SocketStreamHandle_new env cl url n = Some n'"
  shows "orderly_step n n'"
proof -
  let ?h = "next_handle n"
  define n0 where "n0 = upd ?h (\<lambda>_. SocketStreamHandle_fields url) (n\<lparr>next_handle := Suc ?h\<rparr>)"
  have n0: "next_handle n0 = Suc ?h" "m_socketStreamHandleList n0 = m_socketStreamHandleList n"
    "\<not> m_handle (sockets n0 ?h)"
    by (simp_all add: n0_def SocketStreamHandle_fields_def)
  have r0: "construct env cl ?h n0 = Some n'" using r by (simp add: SocketStreamHandle_new_def n0_def)
  then obtain p where rs0: "reserveWebSocketConnection env cl ?h n0 = Some p"
    and r1: "(case p of (b, n1) \<Rightarrow> Option.bind (construct_handles env ?h b n1) (construct_end cl ?h)) = Some n'"
    unfolding construct_def bind_eq_Some_conv by blast
  obtain b n1 where p: "p = (b, n1)" by fastforce
  note rs = rs0 [unfolded p]
  obtain n3 where mid: "construct_handles env ?h b n1 = Some n3" and fin: "construct_end cl ?h n3 = Some n'"
    using r1 unfolding p prod.case bind_eq_Some_conv by blast
  obtain m where m1: "orderly_step n0 m"
    and m2: "if b then n1 = m\<lparr>m_socketStreamHandleList := m_socketStreamHandleList m @ [?h]\<rparr>
            \<and> int (length (m_socketStreamHandleList m)) < m_maxWebSocketConnections m else n1 = m"
    using orderly_reserve [OF cl rs] by blast
  have m: "orderly_step n0 m"
    "b \<Longrightarrow> n1 = m\<lparr>m_socketStreamHandleList := m_socketStreamHandleList m @ [?h]\<rparr>"
    "b \<Longrightarrow> int (length (m_socketStreamHandleList m)) < m_maxWebSocketConnections m"
    "\<not> b \<Longrightarrow> n1 = m"
    using m1 m2 by simp_all
  note tail = orderly_construct_end [OF cl fin]
  have "orderly_step n n0" unfolding n0_def by (rule orderly_fields)
  then have nm: "orderly_step n m" using m(1) by (rule orderly_step_trans)
  have h: "?h < next_handle m" using m(1) n0(1) by (simp add: orderly_step_def)
  have fresh: "?h \<notin> set (m_socketStreamHandleList m) \<and> \<not> m_handle (sockets m ?h)" if "conn_inv X n" for X
  proof -
    have "?h \<notin> set (m_socketStreamHandleList n0)" using that by (auto simp: n0(2) conn_inv_def)
    moreover have "?h < next_handle n0" by (simp add: n0(1))
    ultimately show ?thesis using m(1) n0(3) unfolding orderly_step_def by blast
  qed
  have "orderly_step n n3"
  proof (cases b)
    case False
    then show ?thesis using mid m(4) nm by (simp add: construct_handles_def)
  next
    case True
    note n1 = m(2) [OF True]
    obtain got n2 where res: "construct_resources env ?h n1 = (got, n2)" by fastforce
    show ?thesis
    proof (cases got)
      case False
      then have "n3 = n2" using mid \<open>b\<close> res by (simp add: construct_handles_def)
      moreover have "construct_resources env ?h
          (m\<lparr>m_socketStreamHandleList := m_socketStreamHandleList m @ [?h]\<rparr>) = (False, n2)"
        using res n1 False by simp
      ultimately show ?thesis using construct_failed nm fresh by blast
    next
      case True
      then obtain w where n2: "n2 = upd ?h (\<lambda>s. s\<lparr>m_recvData := True\<rparr>) (n1\<lparr>world := w\<rparr>)"
        using construct_resources_cases [OF res] by blast
      obtain isProxy options where n3: "n3 = upd ?h (\<lambda>s. s\<lparr>h_options := options, m_isProxy := isProxy,
          m_multiHandle := True, m_handle := True, m_socketState := Initialized\<rparr>)
          (n2\<lparr>world := curl_setup env ?h (world n2)\<rparr>)"
        using mid \<open>b\<close> res True by (auto simp: construct_handles_def bind_eq_Some_conv)
      show ?thesis
        by (rule construct_succeeded [OF nm refl fresh h m(3) [OF \<open>b\<close>]]) (simp_all add: n3 n2 n1)
    qed
  qed
  then show ?thesis using tail by (rule orderly_step_trans)
qed


lemma orderly_destroy:
  assumes cl: "orderly_client cl" and r: "SocketStreamHandle_destroy env cl h n = Some n'"
  shows "orderly_step n n'"
proof -
  obtain n1 where n1: "platformClose env cl h (upd h (\<lambda>s. s\<lparr>h_client := False\<rparr>) n) = Some n1"
    and n': "n' = upd h (\<lambda>s. s\<lparr>m_recvData := False\<rparr>) n1"
    using r by (auto simp: SocketStreamHandle_destroy_def bind_eq_Some_conv)
  have "orderly_step n (upd h (\<lambda>s. s\<lparr>h_client := False\<rparr>) n)" by (rule orderly_step_upd) simp_all
  moreover note orderly_platformClose [OF cl n1]
  moreover have "orderly_step n1 n'" unfolding n' by (rule orderly_step_upd) simp_all
  ultimately show ?thesis by (blast intro: orderly_step_trans)
qed

lemma orderly_received:
  assumes cl: "orderly_client cl" and r: "received env cl h cc bytes n = Some q"
  shows "orderly_step n (case q of Inl m \<Rightarrow> m | Inr m \<Rightarrow> m)"
proof -
  consider n1 where "(if bytes \<noteq> [] then to_client h (cl_didReceive cl h bytes) n else Some n) = Some n1"
      "(case q of Inl m \<Rightarrow> m | Inr m \<Rightarrow> m) = nextProgress env h True n1"
    | "q = Inl (nextProgress env h True n)"
    | n1 where "to_client h (cl_didFail cl h) n = Some n1" "q = Inl n1"
    using r unfolding received_def Let_def by (auto simp: bind_eq_Some_conv split: if_splits)
  then show ?thesis
  proof cases
    case (1 n1)
    have "orderly_step n n1" using 1(1) orderly_callbacks(4) [OF cl] by (auto split: if_splits)
    then show ?thesis unfolding 1(2) using orderly_nextProgress by (rule orderly_step_trans)
  next
    case 2
    then show ?thesis by (simp add: orderly_nextProgress)
  next
    case 3
    then show ?thesis using orderly_callbacks(6) [OF cl] by simp
  qed
qed

lemma orderly_when_writable:
  assumes cl: "orderly_client cl" and r: "when_writable env cl h n = Some n'"
  shows "orderly_step n n'"
proof -
  obtain q where q: "sendPendingData env cl h n = Some q"
    "(case q of (ok, n1) \<Rightarrow> if ok then Some n1 else to_client h (cl_didFail cl h) n1) = Some n'"
    using r unfolding when_writable_def bind_eq_Some_conv by blast
  have "orderly_step (snd q) n'"
    using q(2) orderly_callbacks(6) [OF cl] by (cases q) (auto split: if_splits)
  then show ?thesis using orderly_sendPendingData [OF cl q(1)] by (rule orderly_step_trans [rotated])
qed

lemma orderly_when_readable:
  assumes cl: "orderly_client cl" and r: "when_readable env cl h n = Some t"
  shows "orderly_step n (case t of Inl m \<Rightarrow> m | Inr m \<Rightarrow> m)"
proof -
  obtain cc bytes w1 where "easy_recv env h (world n) = ((cc, bytes), w1)" by (metis surj_pair)
  then have "received env cl h cc bytes (n\<lparr>world := w1\<rparr>) = Some t" using r by (simp add: when_readable_def)
  from orderly_received [OF cl this] show ?thesis by (rule orderly_step_trans [OF orderly_step_world])
qed

lemma orderly_open_turn:
  assumes cl: "orderly_client cl" and r: "open_turn env cl h n = Some t"
  shows "orderly_step n (case t of Inl m \<Rightarrow> m | Inr m \<Rightarrow> m)"
proof (cases "\<not> m_handle (sockets n h) \<or> m_socket (sockets n h) = -1")
  case True
  then show ?thesis using r by (auto simp: open_turn_def Let_def)
next
  case False
  obtain ret rd wd w1 where e: "select_peer env (m_socket (sockets n h)) (h_buffer (sockets n h) \<noteq> []) (world n)
      = ((ret, rd, wd), w1)" by (metis surj_pair)
  let ?n1 = "n\<lparr>world := w1\<rparr>"
  let ?n2 = "upd h (\<lambda>s. s\<lparr>m_socketState := Active\<rparr>) ?n1"
  have s2: "orderly_step n ?n2"
    by (rule orderly_step_trans [OF orderly_step_world orderly_step_upd(2)]) simp_all
  have "t = Inl (nextProgress env h False ?n1) \<or> t = Inl (nextProgress env h True ?n1)
      \<or> map_option Inl (when_writable env cl h ?n2) = Some t \<or> when_readable env cl h ?n2 = Some t \<or> t = Inr ?n2"
    using r False unfolding open_turn_def Let_def e by (simp split: if_splits)
  then show ?thesis
  proof (elim disjE)
    assume "t = Inl (nextProgress env h False ?n1)"
    then show ?thesis by (simp add: orderly_step_trans [OF orderly_step_world orderly_nextProgress])
  next
    assume "t = Inl (nextProgress env h True ?n1)"
    then show ?thesis by (simp add: orderly_step_trans [OF orderly_step_world orderly_nextProgress])
  next
    assume "map_option Inl (when_writable env cl h ?n2) = Some t"
    then obtain m where "when_writable env cl h ?n2 = Some m" "t = Inl m" by blast
    then show ?thesis using orderly_step_trans [OF s2 orderly_when_writable [OF cl]] by simp
  next
    assume "when_readable env cl h ?n2 = Some t"
    from orderly_when_readable [OF cl this] show ?thesis by (rule orderly_step_trans [OF s2])
  next
    assume "t = Inr ?n2"
    then show ?thesis using s2 by simp
  qed
qed

lemma orderly_open_loop:
  assumes "orderly_client cl" "open_loop env cl h n = Some n'"
  shows "orderly_step n n'"
proof -
  have "orderly_client cl \<longrightarrow> orderly_step n n'"
  proof (rule open_loop.raw_induct [where P = "\<lambda>env cl h n n'. orderly_client cl \<longrightarrow> orderly_step n n'",
        OF _ assms(2)], intro impI)
    fix loop env cl h n n'
    assume IH: "\<And>env cl h n n'. loop env cl h n = Some n' \<Longrightarrow> orderly_client (cl :: 'a client) \<longrightarrow> orderly_step n n'"
      and cl: "orderly_client cl"
      and r: "Option.bind (open_turn env cl h n) (\<lambda>r. case r of Inl n' \<Rightarrow> Some n' | Inr n' \<Rightarrow> loop env cl h n') = Some n'"
    obtain t where t: "open_turn env cl h n = Some t" "(case t of Inl n' \<Rightarrow> Some n' | Inr n' \<Rightarrow> loop env cl h n') = Some n'"
      using r unfolding bind_eq_Some_conv by blast
    note s = orderly_open_turn [OF cl t(1)]
    show "orderly_step n n'"
    proof (cases t)
      case (Inl m)
      then show ?thesis using t(2) s by simp
    next
      case (Inr m)
      then have "loop env cl h m = Some n'" using t(2) by simp
      then have "orderly_step m n'" using IH cl by blast
      then show ?thesis using s Inr by (simp add: orderly_step_trans)
    qed
  qed
  with assms(1) show ?thesis by simp
qed

section \<open>The system of connections\<close>

definition same_peer :: "'w ws_net \<Rightarrow> hid \<Rightarrow> hid \<Rightarrow> bool" where
  "same_peer n h k \<longleftrightarrow>
     KURL_host (h_url (sockets n h)) = KURL_host (h_url (sockets n k))
     \<and> KURL_port (h_url (sockets n h)) = KURL_port (h_url (sockets n k))"

definition one_handshake :: "'w ws_net \<Rightarrow> bool" where
  "one_handshake n \<longleftrightarrow> (\<forall>h k. handshaking n h \<and> handshaking n k \<and> same_peer n h k \<longrightarrow> h = k)"

definition connections_ok :: "'w ws_net \<Rightarrow> bool" where
  "connections_ok n \<longleftrightarrow> conn_inv {} n \<and> one_handshake n"

lemma orderly_keeps_ok:
  assumes "orderly_step n n'" "connections_ok n"
  shows "connections_ok n'"
proof -
  have "one_handshake n'"
    unfolding one_handshake_def
  proof (intro allI impI, elim conjE)
    fix h k assume hk: "handshaking n' h" "handshaking n' k" "same_peer n' h k"
    then have b: "handshaking n h" "handshaking n k" using assms(1) by (simp_all add: orderly_step_def)
    then have "h < next_handle n" "k < next_handle n"
      using assms(2) by (auto simp: connections_ok_def conn_inv_def handshaking_def)
    then have "same_peer n h k" using assms(1) hk(3) by (simp add: orderly_step_def same_peer_def)
    with b assms(2) show "h = k" by (simp add: connections_ok_def one_handshake_def)
  qed
  with assms show ?thesis by (simp add: connections_ok_def orderly_step_def)
qed

lemma other_blocks_iff:
  "other_blocks h host port items n \<longleftrightarrow>
     (\<exists>k \<in> set items. k \<noteq> h \<and> KURL_host (h_url (sockets n k)) = host \<and> KURL_port (h_url (sockets n k)) = port
        \<and> m_socketState (sockets n k) \<noteq> Initialized \<and> m_socketState (sockets n k) \<noteq> Active)"
  by (induction items) (auto simp: Let_def split: SocketState.splits)


lemma connected_keeps_ok:
  assumes start: "canStartWebSocketConnecting h n" and s2: "orderly_step n n2" and ok: "connections_ok n"
  shows "connections_ok (upd h (\<lambda>s. s\<lparr>m_socketState := Connected\<rparr>) n2)" (is "connections_ok ?m")
proof -
  have c2: "connections_ok n2" using s2 ok by (rule orderly_keeps_ok)
  have same: "m_handle (sockets ?m x) = m_handle (sockets n2 x)"
    "m_multiHandle (sockets ?m x) = m_multiHandle (sockets n2 x)"
    "h_url (sockets ?m x) = h_url (sockets n2 x)" for x by simp_all
  have ci: "conn_inv {} ?m"
    using c2 unfolding connections_ok_def conn_inv_def same list_upd max_upd next_upd by (elim conjE) (intro conjI)
  have free: "m_socketState (sockets n k) \<noteq> Connected"
    if k: "k \<in> set (m_socketStreamHandleList n)" "k \<noteq> h" "same_peer n h k" for k
  proof
    assume "m_socketState (sockets n k) = Connected"
    then have "other_blocks h (KURL_host (h_url (sockets n h))) (KURL_port (h_url (sockets n h)))
        (m_socketStreamHandleList n) n"
      unfolding other_blocks_iff using k by (intro bexI [of _ k]) (simp_all add: same_peer_def)
    then show False using start unfolding canStartWebSocketConnecting_def by blast
  qed
  have hin: "h < next_handle n"
    using start ok by (auto simp: canStartWebSocketConnecting_def connections_ok_def conn_inv_def)
  have other: "k = h" if k: "handshaking ?m k" "same_peer ?m h k" for k
  proof (rule ccontr)
    assume "k \<noteq> h"
    then have "handshaking n2 k" using k(1) by (simp add: handshaking_def)
    then have hn: "handshaking n k" using s2 by (simp add: orderly_step_def)
    then have kin: "k < next_handle n" using ok by (auto simp: connections_ok_def conn_inv_def handshaking_def)
    have url: "h_url (sockets ?m x) = h_url (sockets n x)" if "x < next_handle n" for x
      using that s2 unfolding same orderly_step_def by blast
    have "same_peer n h k" using k(2) unfolding same_peer_def url [OF hin] url [OF kin] .
    then show False using free [of k] hn \<open>k \<noteq> h\<close> by (simp add: handshaking_def)
  qed
  have "a = b" if ab: "handshaking ?m a" "handshaking ?m b" "same_peer ?m a b" for a b
  proof (cases "a = h \<or> b = h")
    case True
    have sym: "same_peer ?m b a" using ab(3) unfolding same_peer_def by (elim conjE) (intro conjI; erule HOL.sym)
    from True show ?thesis
    proof
      assume a: "a = h"
      show ?thesis unfolding a by (rule HOL.sym, rule other [OF ab(2) ab(3) [unfolded a]])
    next
      assume b: "b = h"
      show ?thesis unfolding b by (rule other [OF ab(1) sym [unfolded b]])
    qed
  next
    case False
    then have "handshaking n2 a" "handshaking n2 b" "same_peer n2 a b"
      using ab by (simp_all add: handshaking_def same_peer_def)
    then show ?thesis using c2 by (simp add: connections_ok_def one_handshake_def)
  qed
  then have "one_handshake ?m" unfolding one_handshake_def by (intro allI impI) (elim conjE)
  with ci show ?thesis unfolding connections_ok_def by (rule conjI)
qed

lemma connecting_keeps_ok:
  assumes cl: "orderly_client cl" and ok: "connections_ok n" and r: "connecting env cl h n = Some n'"
  shows "connections_ok n'"
proof (cases "canStartWebSocketConnecting h n")
  case False
  then have "n' = nextProgress env h True n" using r by (simp add: connecting_def)
  then show ?thesis using orderly_keeps_ok [OF orderly_nextProgress ok] by simp
next
  case True
  obtain opened msg w1 where e: "multi_perform env h (world n) = ((opened, msg), w1)" by (metis surj_pair)
  define n1 where "n1 = (case opened of None \<Rightarrow> n\<lparr>world := w1\<rparr>
                       | Some sock \<Rightarrow> upd h (\<lambda>s. s\<lparr>m_socket := sock\<rparr>) (n\<lparr>world := w1\<rparr>))"
  have s1: "orderly_step n n1"
  proof (cases opened)
    case (Some sock)
    have "orderly_step (n\<lparr>world := w1\<rparr>) (upd h (\<lambda>s. s\<lparr>m_socket := sock\<rparr>) (n\<lparr>world := w1\<rparr>))"
      by (rule orderly_step_upd) simp_all
    then show ?thesis using Some by (simp add: n1_def orderly_step_trans [OF orderly_step_world])
  qed (simp add: n1_def)
  have st: "orderly_step n1 (upd h (\<lambda>s. s\<lparr>m_state := x\<rparr>) n1)" for x by (rule orderly_step_upd) simp_all
  have "n' = nextProgress env h True n1
    \<or> to_client h (cl_didClose cl h) (upd h (\<lambda>s. s\<lparr>m_state := Closed\<rparr>) n1) = Some n'
    \<or> (\<exists>n2. to_client h (cl_didOpen cl h) (upd h (\<lambda>s. s\<lparr>m_state := Open\<rparr>) n1) = Some n2
         \<and> n' = nextProgress env h True (upd h (\<lambda>s. s\<lparr>m_socketState := Connected\<rparr>) n2))"
  proof (cases msg)
    case None
    then show ?thesis using r True by (simp add: connecting_def e n1_def [symmetric])
  next
    case (Some isDone)
    then have "connect_message env cl h isDone n1 = Some n'"
      using r True by (simp add: connecting_def e n1_def [symmetric])
    then show ?thesis by (auto simp: connect_message_def bind_eq_Some_conv split: if_splits)
  qed
  then show ?thesis
  proof (elim disjE exE conjE)
    assume "n' = nextProgress env h True n1"
    then show ?thesis using orderly_keeps_ok [OF orderly_step_trans [OF s1 orderly_nextProgress] ok] by simp
  next
    assume "to_client h (cl_didClose cl h) (upd h (\<lambda>s. s\<lparr>m_state := Closed\<rparr>) n1) = Some n'"
    from orderly_callbacks(3) [OF cl this] show ?thesis
      using orderly_keeps_ok [OF orderly_step_trans [OF s1 orderly_step_trans [OF st]] ok] by blast
  next
    fix n2
    assume n2: "to_client h (cl_didOpen cl h) (upd h (\<lambda>s. s\<lparr>m_state := Open\<rparr>) n1) = Some n2"
      and n': "n' = nextProgress env h True (upd h (\<lambda>s. s\<lparr>m_socketState := Connected\<rparr>) n2)"
    have s2: "orderly_step n n2"
      using s1 orderly_step_trans [OF st orderly_callbacks(2) [OF cl n2]] by (rule orderly_step_trans)
    have "connections_ok (upd h (\<lambda>s. s\<lparr>m_socketState := Connected\<rparr>) n2)"
      using True s2 ok by (rule connected_keeps_ok)
    then show ?thesis unfolding n' by (rule orderly_keeps_ok [OF orderly_nextProgress])
  qed
qed

lemma timer_keeps_ok:
  assumes cl: "orderly_client cl" and ok: "connections_ok n" and r: "timer_fires env cl h n = Some n'"
  shows "connections_ok n'"
proof (cases "m_progressTimer (sockets n h)")
  case False
  then show ?thesis using r ok by (simp add: timer_fires_def)
next
  case True
  define m where "m = upd h (\<lambda>s. s\<lparr>m_progressTimer := False\<rparr>) n"
  have "orderly_step n m" unfolding m_def by (rule orderly_step_upd) simp_all
  then have okm: "connections_ok m" using ok by (rule orderly_keeps_ok)
  have r': "progressTimerFired env cl h m = Some n'" using r True by (simp add: timer_fires_def m_def)
  show ?thesis
  proof (cases "m_socketState (sockets m h) = SockNone")
    case True
    then obtain n2 where n2: "(if h_client (sockets m h)
           then Option.bind (cl_didOpen cl h m) (\<lambda>n1. to_client h (cl_didFail cl h) n1) else Some m) = Some n2"
      and n': "n' = upd h (\<lambda>s. s\<lparr>m_state := Closed\<rparr>) n2"
      using r' by (auto simp: progressTimerFired_def Let_def bind_eq_Some_conv)
    have "orderly_step m n2"
    proof (cases "h_client (sockets m h)")
      case c: True
      then obtain n1 where n1: "cl_didOpen cl h m = Some n1" "to_client h (cl_didFail cl h) n1 = Some n2"
        using n2 by (auto simp: bind_eq_Some_conv)
      have "orderly_step m n1" using orderly_callbacks(2) [OF cl, of h] n1(1) c by (simp add: to_client_def)
      then show ?thesis using orderly_callbacks(6) [OF cl n1(2)] by (rule orderly_step_trans)
    qed (use n2 in simp)
    moreover have "orderly_step n2 n'" unfolding n' by (rule orderly_step_upd) simp_all
    ultimately show ?thesis using orderly_keeps_ok [OF orderly_step_trans okm] by blast
  next
    case False
    then have "n' = m \<or> connecting env cl h m = Some n' \<or> open_loop env cl h m = Some n'"
      using r' by (auto simp: progressTimerFired_def Let_def split: if_splits SocketStreamState.splits)
    then show ?thesis
      using okm connecting_keeps_ok [OF cl okm] orderly_keeps_ok [OF orderly_open_loop [OF cl] okm] by blast
  qed
qed

text \<open>What can happen to the sockets: the calls of the clients and the timers, in any order.\<close>

inductive socket_step :: "'w sock_env \<Rightarrow> 'w client \<Rightarrow> 'w ws_net \<Rightarrow> 'w ws_net \<Rightarrow> bool" for env cl where
  New: "SocketStreamHandle_new env cl url n = Some n' \<Longrightarrow> socket_step env cl n n'"
| Send: "send env cl h data n = Some (ok, n') \<Longrightarrow> socket_step env cl n n'"
| Close: "close env cl h n = Some n' \<Longrightarrow> socket_step env cl n n'"
| Disconnect: "disconnect env cl h n = Some n' \<Longrightarrow> socket_step env cl n n'"
| Destroy: "SocketStreamHandle_destroy env cl h n = Some n' \<Longrightarrow> socket_step env cl n n'"
| Timer: "timer_fires env cl h n = Some n' \<Longrightarrow> socket_step env cl n n'"

definition no_sockets :: "'w ws_net \<Rightarrow> bool" where
  "no_sockets n \<longleftrightarrow> m_socketStreamHandleList n = [] \<and> 0 < m_maxWebSocketConnections n
     \<and> (\<forall>h. \<not> m_handle (sockets n h) \<and> \<not> m_multiHandle (sockets n h))"

lemma step_keeps_ok:
  assumes "orderly_client cl" "connections_ok n" "socket_step env cl n n'"
  shows "connections_ok n'"
  using assms(3)
proof cases
  case (New url)
  then show ?thesis using orderly_keeps_ok [OF orderly_new [OF assms(1)] assms(2)] by blast
next
  case (Send h data ok)
  then show ?thesis using orderly_keeps_ok [OF orderly_send [OF assms(1) Send] assms(2)] by simp
next
  case (Close h)
  then show ?thesis using orderly_keeps_ok [OF orderly_close [OF assms(1)] assms(2)] by blast
next
  case (Disconnect h)
  then show ?thesis using orderly_keeps_ok [OF orderly_disconnect [OF assms(1)] assms(2)] by blast
next
  case (Destroy h)
  then show ?thesis using orderly_keeps_ok [OF orderly_destroy [OF assms(1)] assms(2)] by blast
next
  case (Timer h)
  then show ?thesis using timer_keeps_ok [OF assms(1,2)] by blast
qed

interpretation socket_system: invariant_system no_sockets
  "\<lambda>n n'. orderly_client cl \<and> socket_step env cl n n'" connections_ok for env cl
proof unfold_locales
  show "connections_ok n" if "no_sockets n" for n :: "'b ws_net"
    using that by (auto simp: no_sockets_def connections_ok_def conn_inv_def one_handshake_def handshaking_def)
  show "connections_ok n'" if "connections_ok n" "orderly_client cl \<and> socket_step env cl n n'" for n n'
    using that step_keeps_ok by blast
qed


text \<open>
  C17: Whatever the order of new sockets, sends, closes and timers, there are never more WebSocket
  connections than the limit, a handle is counted exactly as long as it holds libcurl's handles, and
  at most one connection to a host and port is between its opening and the first activity on it.
\<close>

theorem connections_stay_limited:
  assumes "no_sockets n0" "orderly_client cl" "(socket_step env cl)\<^sup>*\<^sup>* n0 n"
  shows "getCurrentWebSocketConnectionsNum n \<le> m_maxWebSocketConnections n
    \<and> distinct (m_socketStreamHandleList n)
    \<and> (\<forall>h. h \<in> set (m_socketStreamHandleList n) \<longleftrightarrow> m_handle (sockets n h))
    \<and> (\<forall>h k. handshaking n h \<and> handshaking n k \<and> same_peer n h k \<longrightarrow> h = k)"
proof -
  have "(\<lambda>n n'. orderly_client cl \<and> socket_step env cl n n')\<^sup>*\<^sup>* n0 n"
    using assms(3) by (rule rtranclp_mono [THEN predicate2D, rotated]) (use assms(2) in auto)
  from socket_system.inv_reachable [OF assms(1) this]
  show ?thesis
    by (auto simp: connections_ok_def conn_inv_def one_handshake_def getCurrentWebSocketConnectionsNum_def)
qed

text \<open>A network that takes at most two bytes at a time, and a client that does nothing.\<close>

definition slow_env :: "byte list sock_env" where
  "slow_env = \<lparr>multi_init = Pair True, easy_init = Pair True, recv_alloc = Pair True,
     curl_setup = (\<lambda>h w. w), curl_cleanup = (\<lambda>h w. w), net_close = (\<lambda>s w. w),
     certf_registered = (\<lambda>w. True), crl_registered = (\<lambda>w. False), tick_count = (\<lambda>w. 0),
     multi_perform = (\<lambda>h w. ((Some 3, Some True), w)),
     easy_send = (\<lambda>h data w. ((CURLE_OK, min 2 (length data), False), w @ take 2 data)),
     recv_peer = (\<lambda>s w. ((0, []), w)),
     select_peer = (\<lambda>s wr w. ((if wr then 1 else 0, False, wr), w)),
     easy_recv = (\<lambda>h w. ((CURLE_AGAIN, []), w))\<rparr>"

definition idle_client :: "'w client" where
  "idle_client = \<lparr>cl_isClosing = (\<lambda>h n. False), cl_willOpen = (\<lambda>h. Some), cl_didOpen = (\<lambda>h. Some),
     cl_didClose = (\<lambda>h. Some), cl_didReceive = (\<lambda>h bs. Some), cl_didUpdate = (\<lambda>h k. Some), cl_didFail = (\<lambda>h. Some)\<rparr>"

definition ws_url :: kurl where
  "ws_url = the (KURL_parse ''ws://a.example/chat'')"

definition empty_net :: "'w \<Rightarrow> 'w ws_net" where
  "empty_net w = \<lparr>m_socketStreamHandleList = [], m_maxWebSocketConnections = 1, ws_proxy = [], ws_proxyPort = 0,
     ws_proxyFilters = [], ws_authJar = AuthenticationJar_new, m_AllowServerHost = [], next_handle = 0,
     sockets = (\<lambda>_. SocketStreamHandle_fields ws_url), world = w\<rparr>"


lemma idle_orderly: "orderly_client idle_client"
  by (simp add: orderly_client_def orderly_def idle_client_def)

lemma connections_stay_limited_witness:
  "\<exists>n. SocketStreamHandle_new slow_env idle_client ws_url (empty_net []) = Some n
    \<and> m_socketStreamHandleList n = [0] \<and> getCurrentWebSocketConnectionsNum n \<le> m_maxWebSocketConnections n"
proof -
  have "map_option m_socketStreamHandleList
      (SocketStreamHandle_new slow_env idle_client ws_url (empty_net [])) = Some [0]"
    by code_simp
  then obtain n where n: "SocketStreamHandle_new slow_env idle_client ws_url (empty_net []) = Some n"
    "m_socketStreamHandleList n = [0]" by blast
  have "no_sockets (empty_net ([] :: byte list))"
    by (simp add: no_sockets_def empty_net_def SocketStreamHandle_fields_def)
  from connections_stay_limited [OF this idle_orderly r_into_rtranclp [where r = "socket_step slow_env idle_client", OF socket_step.New [OF n(1)]]] n
  show ?thesis by blast
qed

end
