(* ===== verification/SocketData.thy ===== *)
theory SocketData
  imports SocketStream
begin

text \<open>
  The data of the sockets of WebSockets: what \<open>send\<close> accepts is handed to libcurl in order, and the
  cases in which it is not: closing with data in the buffer, a send that would block, a lost
  connection.
\<close>

section \<open>What becomes of the data\<close>

text \<open>The client's and the timer's part in sending over one handle.\<close>

datatype own_op = OpSend "byte list" | OpTimer | OpClose

fun run_op :: "'w sock_env \<Rightarrow> 'w client \<Rightarrow> hid \<Rightarrow> own_op \<Rightarrow> 'w ws_net \<Rightarrow> (byte list \<times> 'w ws_net) option" where
  \<comment> \<open>with the bytes \<open>send\<close> has accepted\<close>
  "run_op env cl h (OpSend data) n =
     map_option (\<lambda>(ok, n1). (if ok then data else [], n1)) (send env cl h data n)"
| "run_op env cl h OpTimer n = map_option (Pair []) (timer_fires env cl h n)"
| "run_op env cl h OpClose n = map_option (Pair []) (close env cl h n)"

fun run_ops :: "'w sock_env \<Rightarrow> 'w client \<Rightarrow> hid \<Rightarrow> own_op list \<Rightarrow> 'w ws_net \<Rightarrow> (byte list \<times> 'w ws_net) option" where
  "run_ops env cl h [] n = Some ([], n)"
| "run_ops env cl h (x # xs) n =
     Option.bind (run_op env cl h x n) (\<lambda>(acc, n1).
       map_option (\<lambda>(acc', n2). (acc @ acc', n2)) (run_ops env cl h xs n1))"

text \<open>
  What libcurl documents: \<open>curl_easy_send\<close> passes on a prefix of the data and says how long it is, and
  nothing when it fails. \<open>wire h\<close> are the bytes passed on for a handle. The connection is not lost.
\<close>

definition curl_sends :: "(hid \<Rightarrow> 'w \<Rightarrow> byte list) \<Rightarrow> 'w sock_env \<Rightarrow> bool" where
  "curl_sends wire env \<longleftrightarrow>
     (\<forall>h data w ret k again w'. easy_send env h data w = ((ret, k, again), w') \<longrightarrow>
        ret \<noteq> CURLE_UNSUPPORTED_PROTOCOL \<and> k \<le> length data \<and> wire h w' = wire h w @ take k data
        \<and> (ret = CURLE_OTHER \<longrightarrow> k = 0))
     \<and> (\<forall>h s b w. wire h (snd (select_peer env s b w)) = wire h w)
     \<and> (\<forall>h k w. wire h (snd (easy_recv env k w)) = wire h w)
     \<and> (\<forall>h k w. wire h (snd (multi_perform env k w)) = wire h w)
     \<and> (\<forall>h k w. wire h (curl_cleanup env k w) = wire h w)
     \<and> (\<forall>h s w. wire h (net_close env s w) = wire h w)"

text \<open>A client that does not call the handle from its callbacks.\<close>

definition quiet :: "(hid \<Rightarrow> 'w \<Rightarrow> byte list) \<Rightarrow> 'w op \<Rightarrow> bool" where
  "quiet wire f \<longleftrightarrow> (\<forall>n n'. f n = Some n' \<longrightarrow>
     sockets n' = sockets n \<and> (\<forall>h. wire h (world n') = wire h (world n)))"

definition quiet_client :: "(hid \<Rightarrow> 'w \<Rightarrow> byte list) \<Rightarrow> 'w client \<Rightarrow> bool" where
  "quiet_client wire cl \<longleftrightarrow>
     (\<forall>h. quiet wire (cl_didOpen cl h) \<and> quiet wire (cl_didClose cl h)
        \<and> (\<forall>bs. quiet wire (cl_didReceive cl h bs)) \<and> (\<forall>k. quiet wire (cl_didUpdate cl h k)) \<and> quiet wire (cl_didFail cl h))"

definition pending :: "(hid \<Rightarrow> 'w \<Rightarrow> byte list) \<Rightarrow> hid \<Rightarrow> 'w ws_net \<Rightarrow> byte list" where
  \<comment> \<open>what has been passed on and what is kept\<close>
  "pending wire h n = wire h (world n) @ h_buffer (sockets n h)"

lemma quiet_to_client:
  "quiet wire f \<Longrightarrow> to_client h f n = Some n' \<Longrightarrow> sockets n' = sockets n \<and> wire k (world n') = wire k (world n)"
  by (auto simp: to_client_def quiet_def split: if_splits)

lemma quiet_callbacks:
  assumes "quiet_client wire cl"
  shows "to_client h (cl_didOpen cl k) n = Some n' \<Longrightarrow> sockets n' = sockets n \<and> wire x (world n') = wire x (world n)"
    "to_client h (cl_didClose cl k) n = Some n' \<Longrightarrow> sockets n' = sockets n \<and> wire x (world n') = wire x (world n)"
    "to_client h (cl_didReceive cl k bs) n = Some n' \<Longrightarrow> sockets n' = sockets n \<and> wire x (world n') = wire x (world n)"
    "to_client h (cl_didUpdate cl k m) n = Some n' \<Longrightarrow> sockets n' = sockets n \<and> wire x (world n') = wire x (world n)"
    "to_client h (cl_didFail cl k) n = Some n' \<Longrightarrow> sockets n' = sockets n \<and> wire x (world n') = wire x (world n)"
  using assms quiet_to_client unfolding quiet_client_def by blast+

lemma pending_nextProgress [simp]: "pending wire h (nextProgress env k r n) = pending wire h n"
  by (simp add: nextProgress_def pending_def Let_def)

lemma pending_upd: "(\<And>s. h_buffer (f s) = h_buffer s) \<Longrightarrow> pending wire h (upd k f n) = pending wire h n"
  by (simp add: pending_def)

lemma pending_same:
  "sockets n' = sockets n \<and> wire h (world n') = wire h (world n) \<Longrightarrow> pending wire h n' = pending wire h n"
  by (simp add: pending_def)

lemma pending_callbacks:
  assumes "quiet_client wire cl"
  shows "to_client h (cl_didOpen cl k) n = Some n' \<Longrightarrow> pending wire x n' = pending wire x n"
    "to_client h (cl_didClose cl k) n = Some n' \<Longrightarrow> pending wire x n' = pending wire x n"
    "to_client h (cl_didReceive cl k bs) n = Some n' \<Longrightarrow> pending wire x n' = pending wire x n"
    "to_client h (cl_didFail cl k) n = Some n' \<Longrightarrow> pending wire x n' = pending wire x n"
  by (drule quiet_callbacks [OF assms, where x = x], erule pending_same)+

lemma pending_platformClose:
  assumes "curl_sends wire env" "quiet_client wire cl" "platformClose env cl h n = Some n'"
  shows "pending wire h n' = pending wire h n"
proof (cases "m_handle (sockets n h) \<and> m_multiHandle (sockets n h)")
  case False
  then show ?thesis using assms(3) by (auto simp: platformClose_def Let_def pending_upd)
next
  case True
  define n2 where "n2 = close_curl env h (upd h (\<lambda>s. s\<lparr>m_progressTimer := False\<rparr>) n)"
  obtain n3 where n3: "to_client h (cl_didClose cl h) n2 = Some n3" and n': "n' = releaseWebSocketConnection h n3"
    using assms(3) True unfolding platformClose_def Let_def n2_def by (auto simp: bind_eq_Some_conv)
  have "pending wire h n' = pending wire h n3" by (simp add: n' pending_def releaseWebSocketConnection_def)
  also have "\<dots> = pending wire h n2" by (rule pending_callbacks(2) [OF assms(2) n3])
  also have "\<dots> = pending wire h n" using assms(1) by (simp add: n2_def close_curl_def Let_def pending_def curl_sends_def)
  finally show ?thesis .
qed

lemma pending_disconnect:
  assumes "curl_sends wire env" "quiet_client wire cl" "disconnect env cl h n = Some n'"
  shows "pending wire h n' = pending wire h n"
proof -
  obtain n1 where n1: "platformClose env cl h n = Some n1" "n' = upd h (\<lambda>s. s\<lparr>m_state := Closed\<rparr>) n1"
    using assms(3) by (auto simp: disconnect_def bind_eq_Some_conv)
  show ?thesis using pending_platformClose [OF assms(1,2) n1(1)] by (simp add: n1(2) pending_upd)
qed


lemma platformSend_quiet:
  assumes c: "curl_sends wire env" and q: "quiet_client wire cl"
    and r: "platformSend env cl h data n = Some (k, n')"
  shows "h_buffer (sockets n' h) = h_buffer (sockets n h) \<and> k \<le> int (length data)
    \<and> wire h (world n') = wire h (world n) @ take (nat k) data"
proof -
  obtain ret out again w1 where e: "easy_send env h data (world n) = ((ret, out, again), w1)"
    by (metis surj_pair)
  have w: "ret \<noteq> CURLE_UNSUPPORTED_PROTOCOL" "out \<le> length data" "wire h w1 = wire h (world n) @ take out data"
    "ret = CURLE_OTHER \<longrightarrow> out = 0"
    using c e by (auto simp: curl_sends_def)
  consider "to_client h (cl_didFail cl h) n = Some n'" "k = -1" | "k = -1" "n' = n\<lparr>world := w1\<rparr>" "ret = CURLE_OTHER"
    | "k = int out" "n' = nextProgress env h True (n\<lparr>world := w1\<rparr>)"
    using r w(1) unfolding platformSend_def Let_def e by (cases ret) (auto split: if_splits)
  then show ?thesis
  proof cases
    case 1
    then show ?thesis using quiet_callbacks(5) [OF q 1(1)] by simp
  next
    case 2
    then show ?thesis using w by simp
  next
    case 3
    then show ?thesis using w by (simp add: nextProgress_def Let_def)
  qed
qed

lemma pending_didUpdate:
  assumes "quiet_client wire cl"
    and "map_option (Pair b) (to_client h (cl_didUpdate cl h k) m) = Some (b', n')"
  shows "pending wire h n' = pending wire h m \<and> b' = b"
  using assms quiet_callbacks(4) [OF assms(1)] by (auto intro: pending_same)

lemma pending_send:
  assumes c: "curl_sends wire env" and q: "quiet_client wire cl" and len: "length data \<le> bufferSize"
    and r: "send env cl h data n = Some (ok, n')"
  shows "pending wire h n' = pending wire h n @ (if ok then data else [])"
proof -
  have app: "pending wire h (upd h (\<lambda>s. s\<lparr>h_buffer := h_buffer s @ d\<rparr>) m) = pending wire h m @ d" for d m
    by (simp add: pending_def)
  consider "n' = n" "\<not> ok"
    | "map_option (Pair True) (to_client h (cl_didUpdate cl h
          (bufferedAmount h (upd h (\<lambda>s. s\<lparr>h_buffer := h_buffer s @ data\<rparr>) n)))
          (upd h (\<lambda>s. s\<lparr>h_buffer := h_buffer s @ data\<rparr>) n)) = Some (ok, n')"
    | bw n1 where "h_buffer (sockets n h) = []" "keep_rest cl h data bw n1 = Some (ok, n')"
        "bw = 0 \<and> n1 = n \<or> platformSend env cl h data n = Some (bw, n1)"
    using r unfolding send_def Let_def by (auto simp: bind_eq_Some_conv split: if_splits)
  then show ?thesis
  proof cases
    case 2
    then show ?thesis using pending_didUpdate [OF q 2] app by auto
  next
    case (3 bw n1)
    have n1: "h_buffer (sockets n1 h) = []" "bw \<le> int (length data)"
      "wire h (world n1) = wire h (world n) @ take (nat bw) data"
      using 3(1,3) platformSend_quiet [OF c q, of h data n bw n1] by auto
    have p1: "pending wire h n1 = pending wire h n @ take (nat bw) data" using n1 3(1) by (simp add: pending_def)
    show ?thesis
    proof (cases "bw < 0")
      case True
      then show ?thesis using 3(2) p1 by (simp add: keep_rest_def)
    next
      case False
      then have fits: "\<not> int bufferSize < int (bufferedAmount h n1) + int (length data) - bw"
        using len n1(1) by (simp add: bufferedAmount_def)
      show ?thesis
      proof (cases "bw < int (length data)")
        case True
        let ?u = "upd h (\<lambda>s. s\<lparr>h_buffer := h_buffer s @ drop (nat bw) data\<rparr>) n1"
        have "map_option (Pair True) (to_client h (cl_didUpdate cl h (bufferedAmount h ?u)) ?u) = Some (ok, n')"
          using 3(2) False fits True by (simp add: keep_rest_def Let_def)
        from pending_didUpdate [OF q this] app [of "drop (nat bw) data" n1] p1 show ?thesis by simp
      next
        case False
        then show ?thesis using 3(2) fits \<open>\<not> bw < 0\<close> n1(2) p1 by (simp add: keep_rest_def)
      qed
    qed
  qed simp
qed

lemma pending_sendPendingData:
  assumes c: "curl_sends wire env" and q: "quiet_client wire cl" and r: "sendPendingData env cl h n = Some (ok, n')"
  shows "pending wire h n' = pending wire h n"
proof -
  let ?b = "h_buffer (sockets n h)"
  consider "n' = n" | "disconnect env cl h n = Some n'"
    | k n1 where "platformSend env cl h ?b n = Some (k, n1)" "k \<le> 0" "n' = n1"
    | k n1 where "platformSend env cl h ?b n = Some (k, n1)" "0 < k"
       "map_option (Pair True) (to_client h (cl_didUpdate cl h
          (bufferedAmount h (upd h (\<lambda>s. s\<lparr>h_buffer := drop (nat k) (h_buffer s)\<rparr>) n1)))
          (upd h (\<lambda>s. s\<lparr>h_buffer := drop (nat k) (h_buffer s)\<rparr>) n1)) = Some (ok, n')"
    using r unfolding sendPendingData_def Let_def by (auto simp: bind_eq_Some_conv not_le split: if_splits)
  then show ?thesis
  proof cases
    case 2
    then show ?thesis by (rule pending_disconnect [OF c q])
  next
    case (3 k n1)
    then show ?thesis using platformSend_quiet [OF c q 3(1)] by (simp add: pending_def)
  next
    case (4 k n1)
    have "pending wire h (upd h (\<lambda>s. s\<lparr>h_buffer := drop (nat k) (h_buffer s)\<rparr>) n1) = pending wire h n"
      using platformSend_quiet [OF c q 4(1)] by (simp add: pending_def)
    then show ?thesis using pending_didUpdate [OF q 4(3)] by simp
  qed simp
qed


lemma pending_when_writable:
  assumes c: "curl_sends wire env" and q: "quiet_client wire cl" and r: "when_writable env cl h n = Some n'"
  shows "pending wire h n' = pending wire h n"
proof -
  obtain x where x: "sendPendingData env cl h n = Some x"
    "(case x of (ok, n1) \<Rightarrow> if ok then Some n1 else to_client h (cl_didFail cl h) n1) = Some n'"
    using r unfolding when_writable_def bind_eq_Some_conv by blast
  obtain ok n1 where p: "x = (ok, n1)" by fastforce
  have "pending wire h n' = pending wire h n1"
  proof (cases ok)
    case True
    then show ?thesis using x(2) by (simp add: p)
  next
    case False
    then have "to_client h (cl_didFail cl h) n1 = Some n'" using x(2) by (simp add: p)
    then show ?thesis by (rule pending_callbacks(4) [OF q])
  qed
  then show ?thesis using pending_sendPendingData [OF c q x(1) [unfolded p]] by simp
qed

lemma pending_when_readable:
  assumes c: "curl_sends wire env" and q: "quiet_client wire cl" and r: "when_readable env cl h n = Some t"
  shows "pending wire h (case t of Inl m \<Rightarrow> m | Inr m \<Rightarrow> m) = pending wire h n"
proof -
  obtain cc bytes w1 where e: "easy_recv env h (world n) = ((cc, bytes), w1)" by (metis surj_pair)
  let ?n1 = "n\<lparr>world := w1\<rparr>"
  have "wire h (snd (easy_recv env h (world n))) = wire h (world n)" using c unfolding curl_sends_def by blast
  then have p1: "pending wire h ?n1 = pending wire h n" by (simp add: pending_def e)
  have "received env cl h cc bytes ?n1 = Some t" using r by (simp add: when_readable_def e)
  then consider n2 where "(if bytes \<noteq> [] then to_client h (cl_didReceive cl h bytes) ?n1 else Some ?n1) = Some n2"
      "(case t of Inl m \<Rightarrow> m | Inr m \<Rightarrow> m) = nextProgress env h True n2"
    | "t = Inl (nextProgress env h True ?n1)"
    | n2 where "to_client h (cl_didFail cl h) ?n1 = Some n2" "t = Inl n2"
    unfolding received_def Let_def by (auto simp: bind_eq_Some_conv split: if_splits)
  then show ?thesis
  proof cases
    case (1 n2)
    have "pending wire h n2 = pending wire h ?n1"
    proof (cases "bytes = []")
      case True
      then show ?thesis using 1(1) by simp
    next
      case False
      then have "to_client h (cl_didReceive cl h bytes) ?n1 = Some n2" using 1(1) by simp
      then show ?thesis by (rule pending_callbacks(3) [OF q])
    qed
    then show ?thesis unfolding 1(2) by (simp only: pending_nextProgress p1)
  next
    case 2
    then show ?thesis by (simp only: sum.case pending_nextProgress p1)
  next
    case (3 n2)
    show ?thesis unfolding 3(2) sum.case by (rule trans [OF pending_callbacks(4) [OF q 3(1)] p1])
  qed
qed

lemma pending_open_turn:
  assumes c: "curl_sends wire env" and q: "quiet_client wire cl" and r: "open_turn env cl h n = Some t"
  shows "pending wire h (case t of Inl m \<Rightarrow> m | Inr m \<Rightarrow> m) = pending wire h n"
proof (cases "\<not> m_handle (sockets n h) \<or> m_socket (sockets n h) = -1")
  case True
  then show ?thesis using r by (auto simp: open_turn_def Let_def)
next
  case False
  obtain ret rd wd w1 where e: "select_peer env (m_socket (sockets n h)) (h_buffer (sockets n h) \<noteq> []) (world n)
      = ((ret, rd, wd), w1)" by (metis surj_pair)
  let ?n1 = "n\<lparr>world := w1\<rparr>"
  let ?n2 = "upd h (\<lambda>s. s\<lparr>m_socketState := Active\<rparr>) ?n1"
  have "wire h (snd (select_peer env (m_socket (sockets n h)) (h_buffer (sockets n h) \<noteq> []) (world n))) = wire h (world n)"
    using c unfolding curl_sends_def by blast
  then have "wire h w1 = wire h (world n)" by (simp only: e snd_conv)
  then have p1: "pending wire h ?n1 = pending wire h n" by (simp add: pending_def)
  then have p2: "pending wire h ?n2 = pending wire h n" by (subst pending_upd) simp_all
  have "t = Inl (nextProgress env h False ?n1) \<or> t = Inl (nextProgress env h True ?n1)
      \<or> map_option Inl (when_writable env cl h ?n2) = Some t \<or> when_readable env cl h ?n2 = Some t \<or> t = Inr ?n2"
    using r False unfolding open_turn_def Let_def e by (simp split: if_splits)
  then show ?thesis
  proof (elim disjE)
    assume "map_option Inl (when_writable env cl h ?n2) = Some t"
    then obtain m where "when_writable env cl h ?n2 = Some m" "t = Inl m" by blast
    then show ?thesis using pending_when_writable [OF c q] p2 by simp
  next
    assume "when_readable env cl h ?n2 = Some t"
    then show ?thesis using pending_when_readable [OF c q] p2 by simp
  qed (use p1 p2 in simp_all)
qed

lemma pending_open_loop:
  assumes "curl_sends wire env" "quiet_client wire cl" "open_loop env cl h n = Some n'"
  shows "pending wire h n' = pending wire h n"
proof -
  have "curl_sends wire env \<longrightarrow> quiet_client wire cl \<longrightarrow> pending wire h n' = pending wire h n"
  proof (rule open_loop.raw_induct [where P = "\<lambda>env cl h n n'. curl_sends wire env \<longrightarrow> quiet_client wire cl
        \<longrightarrow> pending wire h n' = pending wire h n", OF _ assms(3)], intro impI)
    fix loop env cl h n n'
    assume IH: "\<And>env cl h n n'. loop env cl h n = Some n' \<Longrightarrow>
        curl_sends wire env \<longrightarrow> quiet_client wire cl \<longrightarrow> pending wire h n' = pending wire h n"
      and c: "curl_sends wire env" and q: "quiet_client wire cl"
      and r: "Option.bind (open_turn env cl h n) (\<lambda>r. case r of Inl n' \<Rightarrow> Some n' | Inr n' \<Rightarrow> loop env cl h n') = Some n'"
    obtain t where t: "open_turn env cl h n = Some t" "(case t of Inl n' \<Rightarrow> Some n' | Inr n' \<Rightarrow> loop env cl h n') = Some n'"
      using r unfolding bind_eq_Some_conv by blast
    note s = pending_open_turn [OF c q t(1)]
    show "pending wire h n' = pending wire h n"
    proof (cases t)
      case (Inl m)
      then show ?thesis using t(2) s by simp
    next
      case (Inr m)
      then have "loop env cl h m = Some n'" using t(2) by simp
      then have "pending wire h n' = pending wire h m" using IH c q by blast
      then show ?thesis using s Inr by simp
    qed
  qed
  with assms(1,2) show ?thesis by simp
qed

lemma pending_connecting:
  assumes c: "curl_sends wire env" and q: "quiet_client wire cl" and r: "connecting env cl h n = Some n'"
  shows "pending wire h n' = pending wire h n"
proof (cases "canStartWebSocketConnecting h n")
  case False
  then show ?thesis using r by (auto simp: connecting_def)
next
  case True
  obtain opened msg w1 where e: "multi_perform env h (world n) = ((opened, msg), w1)" by (metis surj_pair)
  define n1 where "n1 = (case opened of None \<Rightarrow> n\<lparr>world := w1\<rparr>
                       | Some sock \<Rightarrow> upd h (\<lambda>s. s\<lparr>m_socket := sock\<rparr>) (n\<lparr>world := w1\<rparr>))"
  have "wire h (snd (multi_perform env h (world n))) = wire h (world n)"
    using c unfolding curl_sends_def by blast
  then have "wire h w1 = wire h (world n)" by (simp only: e snd_conv)
  then have p1: "pending wire h n1 = pending wire h n"
    by (cases opened) (simp_all add: n1_def pending_def)
  have p2: "pending wire h (upd h (\<lambda>s. s\<lparr>m_state := x\<rparr>) n1) = pending wire h n" for x
    using p1 by (simp add: pending_upd)
  show ?thesis
  proof (cases msg)
    case None
    then have "n' = nextProgress env h True n1" using r True by (simp add: connecting_def e n1_def [symmetric])
    then show ?thesis using p1 by simp
  next
    case (Some isDone)
    then have m: "connect_message env cl h isDone n1 = Some n'"
      using r True by (simp add: connecting_def e n1_def [symmetric])
    show ?thesis
    proof (cases "\<not> isDone \<or> m_socket (sockets n1 h) < 0")
      case True
      then have "to_client h (cl_didClose cl h) (upd h (\<lambda>s. s\<lparr>m_state := Closed\<rparr>) n1) = Some n'"
        using m by (simp add: connect_message_def)
      from pending_callbacks(2) [OF q this, of h] show ?thesis by (simp only: p2)
    next
      case False
      then obtain n2 where n2: "to_client h (cl_didOpen cl h) (upd h (\<lambda>s. s\<lparr>m_state := Open\<rparr>) n1) = Some n2"
        and n': "n' = nextProgress env h True (upd h (\<lambda>s. s\<lparr>m_socketState := Connected\<rparr>) n2)"
        using m by (auto simp: connect_message_def bind_eq_Some_conv)
      have "pending wire h n2 = pending wire h n" using pending_callbacks(1) [OF q n2, of h] by (simp only: p2)
      then show ?thesis by (simp add: n' pending_upd)
    qed
  qed
qed

lemma pending_timer:
  assumes c: "curl_sends wire env" and q: "quiet_client wire cl" and r: "timer_fires env cl h n = Some n'"
  shows "pending wire h n' = pending wire h n"
proof (cases "m_progressTimer (sockets n h)")
  case False
  then show ?thesis using r by (simp add: timer_fires_def)
next
  case True
  define m where "m = upd h (\<lambda>s. s\<lparr>m_progressTimer := False\<rparr>) n"
  have pm: "pending wire h m = pending wire h n" by (simp add: m_def pending_upd)
  have r': "progressTimerFired env cl h m = Some n'" using r True by (simp add: timer_fires_def m_def)
  show ?thesis
  proof (cases "m_socketState (sockets m h) = SockNone")
    case True
    then obtain n2 where n2: "(if h_client (sockets m h)
           then Option.bind (cl_didOpen cl h m) (\<lambda>n1. to_client h (cl_didFail cl h) n1) else Some m) = Some n2"
      and n': "n' = upd h (\<lambda>s. s\<lparr>m_state := Closed\<rparr>) n2"
      using r' by (auto simp: progressTimerFired_def Let_def bind_eq_Some_conv)
    have "pending wire h n2 = pending wire h m"
    proof (cases "h_client (sockets m h)")
      case cl: True
      then obtain n1 where n1: "cl_didOpen cl h m = Some n1" "to_client h (cl_didFail cl h) n1 = Some n2"
        using n2 by (auto simp: bind_eq_Some_conv)
      have "to_client h (cl_didOpen cl h) m = Some n1" using n1(1) cl by (simp add: to_client_def)
      from pending_callbacks(1) [OF q this, of h] pending_callbacks(4) [OF q n1(2), of h]
      show ?thesis by simp
    qed (use n2 in simp)
    then show ?thesis by (simp add: n' pending_upd pm)
  next
    case False
    then have "n' = m \<or> connecting env cl h m = Some n' \<or> open_loop env cl h m = Some n'"
      using r' by (auto simp: progressTimerFired_def Let_def split: if_splits SocketStreamState.splits)
    then show ?thesis using pm pending_connecting [OF c q] pending_open_loop [OF c q] by auto
  qed
qed

fun small_sends :: "own_op list \<Rightarrow> bool" where
  "small_sends [] = True"
| "small_sends (OpSend data # xs) = (length data \<le> bufferSize \<and> small_sends xs)"
| "small_sends (_ # xs) = small_sends xs"

text \<open>
  C18: Whatever the sizes libcurl takes and whenever the timer fires, the bytes handed to libcurl and
  the bytes kept in the buffer are together the data of the sends that were accepted, in order and
  without loss. The connection stays up and the client does not call the handle from its callbacks.
\<close>

theorem accepted_data_in_order:
  assumes "curl_sends wire env" "quiet_client wire cl" "small_sends ops"
    and "run_ops env cl h ops n = Some (accepted, n')"
  shows "wire h (world n') @ h_buffer (sockets n' h) = wire h (world n) @ h_buffer (sockets n h) @ accepted"
proof -
  have op: "pending wire h m' = pending wire h m @ acc"
    if "run_op env cl h x m = Some (acc, m')" "small_sends [x]" for x m acc m'
  proof (cases x)
    case (OpSend data)
    then have "map_option (\<lambda>(ok, n1). (if ok then data else [], n1)) (send env cl h data m) = Some (acc, m')"
      using that(1) by simp
    then obtain q where q: "send env cl h data m = Some q" "(case q of (ok, n1) \<Rightarrow> (if ok then data else [], n1)) = (acc, m')"
      unfolding map_option_eq_Some by blast
    obtain ok m2 where p: "q = (ok, m2)" by fastforce
    then have "m' = m2" "acc = (if ok then data else [])" using q(2) by simp_all
    then have "send env cl h data m = Some (ok, m')" "acc = (if ok then data else [])" using q(1) p by simp_all
    then show ?thesis using pending_send [OF assms(1,2)] that(2) OpSend by simp
  next
    case OpTimer
    then show ?thesis using that(1) pending_timer [OF assms(1,2)] by auto
  next
    case OpClose
    then have "close env cl h m = Some m'" "acc = []" using that(1) by auto
    then show ?thesis
      using pending_disconnect [OF assms(1,2), of h "upd h (\<lambda>s. s\<lparr>m_state := Closing\<rparr>) m" m']
      by (auto simp: close_def Let_def pending_upd split: if_splits)
  qed
  have sm: "small_sends (x # xs) \<Longrightarrow> small_sends [x] \<and> small_sends xs" for x xs by (cases x) simp_all
  have "pending wire h n' = pending wire h n @ accepted" using assms(3,4)
  proof (induction ops arbitrary: n accepted)
    case (Cons x xs)
    obtain acc n1 acc' where 1: "run_op env cl h x n = Some (acc, n1)"
      "run_ops env cl h xs n1 = Some (acc', n')" "accepted = acc @ acc'"
      using Cons.prems(2) by (auto simp: bind_eq_Some_conv)
    then show ?case using Cons.IH [of n1 acc'] op [OF 1(1)] sm [OF Cons.prems(1)] by simp
  qed simp
  then show ?thesis by (simp add: pending_def)
qed

section \<open>Data that is not sent\<close>

definition open_net :: "byte list ws_net" where
  "open_net = (empty_net [])\<lparr>m_socketStreamHandleList := [0], next_handle := 1,
     sockets := (\<lambda>_. (SocketStreamHandle_fields ws_url)\<lparr>m_state := Open, m_socketState := Active, m_socket := 3,
       m_handle := True, m_multiHandle := True\<rparr>)\<rparr>"

lemma slow_env_sends: "curl_sends (\<lambda>h w. w) slow_env"
  by (auto simp: curl_sends_def slow_env_def min_def)

lemma idle_quiet: "quiet_client wire idle_client"
  by (simp add: quiet_client_def quiet_def idle_client_def)

lemma open_loop_ends: "open_turn env cl h n = Some (Inl n') \<Longrightarrow> open_loop env cl h n = Some n'"
  by (subst open_loop.simps) simp

lemma open_net_simps [simp]:
  "sockets open_net 0 = (SocketStreamHandle_fields ws_url)\<lparr>m_state := Open, m_socketState := Active, m_socket := 3,
     m_handle := True, m_multiHandle := True\<rparr>" "world open_net = []"
  by (simp_all add: open_net_def empty_net_def)

lemma fields_simps [simp]:
  "h_buffer (SocketStreamHandle_fields u) = []" "h_client (SocketStreamHandle_fields u) = True"
  by (simp_all add: SocketStreamHandle_fields_def)

lemmas run_simps = run_op.simps send_def platformSend_def keep_rest_def bufferedAmount_def bufferSize_def Let_def
  timer_fires_def progressTimerFired_def nextProgress_def to_client_def

lemma accepted_data_in_order_witness:
  "\<exists>n. run_ops slow_env idle_client 0 [OpSend [1, 2, 3, 4, 5], OpTimer, OpSend [6]] open_net
         = Some ([1, 2, 3, 4, 5, 6], n)
     \<and> world n = [1, 2, 3, 4] \<and> world n @ h_buffer (sockets n 0) = [1, 2, 3, 4, 5, 6]"
proof -
  let ?ops = "[OpSend [1, 2, 3, 4, 5], OpTimer, OpSend [6]]"
  obtain n1 where 1: "run_op slow_env idle_client 0 (OpSend [1, 2, 3, 4, 5]) open_net = Some ([1, 2, 3, 4, 5], n1)"
    and n1: "world n1 = [1, 2]" "h_buffer (sockets n1 0) = [3, 4, 5]" "m_state (sockets n1 0) = Open"
      "m_handle (sockets n1 0)" "m_multiHandle (sockets n1 0)" "m_socket (sockets n1 0) = 3"
      "m_socketState (sockets n1 0) = Active" "m_progressTimer (sockets n1 0)" "h_client (sockets n1 0)"
    by (simp add: run_simps slow_env_def idle_client_def)
  let ?n = "upd 0 (\<lambda>s. s\<lparr>m_progressTimer := False\<rparr>) n1"
  obtain n2 where 2: "open_turn slow_env idle_client 0 ?n = Some (Inl n2)"
    and n2: "world n2 = [1, 2, 3, 4]" "h_buffer (sockets n2 0) = [5]" "m_state (sockets n2 0) = Open"
      "h_client (sockets n2 0)"
    using n1 by (simp add: run_simps open_turn_def when_writable_def sendPendingData_def slow_env_def idle_client_def)
  have t: "run_op slow_env idle_client 0 OpTimer n1 = Some ([], n2)"
    using n1 open_loop_ends [OF 2] by (simp add: timer_fires_def progressTimerFired_def Let_def)
  obtain n3 where 3: "run_op slow_env idle_client 0 (OpSend [6]) n2 = Some ([6], n3)" "world n3 = world n2"
    using n2 by (simp add: run_simps slow_env_def idle_client_def)
  have r: "run_ops slow_env idle_client 0 ?ops open_net = Some ([1, 2, 3, 4, 5, 6], n3)"
    by (simp del: run_op.simps add: 1 t 3(1))
  have s: "small_sends ?ops" by (simp add: bufferSize_def)
  from accepted_data_in_order [OF slow_env_sends idle_quiet s r] r 3(2) n2(1) show ?thesis
    by (simp add: open_net_def empty_net_def SocketStreamHandle_fields_def)
qed

text \<open>A handle that is closing and has data: nothing moves any more.\<close>

lemma closing_op:
  assumes "m_state (sockets n h) = Closing" "h_buffer (sockets n h) \<noteq> []" "m_socketState (sockets n h) \<noteq> SockNone"
  shows "run_op env cl h x n = Some ([], n) \<or>
    run_op env cl h x n = Some ([], upd h (\<lambda>s. s\<lparr>m_progressTimer := False\<rparr>) n)"
proof (cases x)
  case (OpSend data)
  then show ?thesis using assms by (simp add: send_def Let_def)
next
  case OpTimer
  then show ?thesis using assms by (auto simp: timer_fires_def progressTimerFired_def Let_def)
next
  case OpClose
  have "(sockets n h)\<lparr>m_state := Closing\<rparr> = sockets n h" using assms(1) by (cases "sockets n h") simp
  then have "upd h (\<lambda>s. s\<lparr>m_state := Closing\<rparr>) n = n" by (simp add: upd_def)
  then show ?thesis using OpClose assms by (simp add: close_def Let_def)
qed

text \<open>
  C40: \<open>close()\<close> is to disconnect after all data in the buffer are sent. When there is data in the
  buffer, the handle stays in the state Closing for ever: neither the timer nor a further call sends
  a byte of it, and the connection is never closed.
\<close>

theorem close_with_data_is_stuck:
  assumes "m_state (sockets n h) = Open" "h_buffer (sockets n h) \<noteq> []" "m_socketState (sockets n h) \<noteq> SockNone"
  shows "\<exists>n1. close env cl h n = Some n1 \<and>
    (\<forall>ops. \<exists>n2. run_ops env cl h ops n1 = Some ([], n2) \<and> m_state (sockets n2 h) = Closing
       \<and> h_buffer (sockets n2 h) = h_buffer (sockets n h) \<and> m_handle (sockets n2 h) = m_handle (sockets n h)
       \<and> world n2 = world n)"
proof -
  let ?n1 = "upd h (\<lambda>s. s\<lparr>m_state := Closing\<rparr>) n"
  let ?stuck = "\<lambda>m. m_state (sockets m h) = Closing \<and> h_buffer (sockets m h) = h_buffer (sockets n h)
    \<and> m_handle (sockets m h) = m_handle (sockets n h) \<and> world m = world n \<and> m_socketState (sockets m h) \<noteq> SockNone"
  have "\<exists>n2. run_ops env cl h ops m = Some ([], n2) \<and> ?stuck n2" if "?stuck m" for ops m
    using that
  proof (induction ops arbitrary: m)
    case (Cons x xs)
    obtain m' where m': "run_op env cl h x m = Some ([], m')"
      "m' = m \<or> m' = upd h (\<lambda>s. s\<lparr>m_progressTimer := False\<rparr>) m"
      using closing_op [of m h env cl x] Cons.prems assms(2) by auto
    then have "?stuck m'" using Cons.prems by auto
    from Cons.IH [OF this] m'(1) show ?case by auto
  qed simp
  then have "\<forall>ops. \<exists>n2. run_ops env cl h ops ?n1 = Some ([], n2) \<and> ?stuck n2"
    using assms by simp
  moreover have "close env cl h n = Some ?n1" using assms by (simp add: close_def Let_def)
  ultimately show ?thesis by blast
qed

lemma close_with_data_is_stuck_witness:
  "\<exists>n1. close slow_env idle_client 0 (upd 0 (\<lambda>s. s\<lparr>h_buffer := [7]\<rparr>) open_net) = Some n1 \<and>
    (\<forall>ops. \<exists>n2. run_ops slow_env idle_client 0 ops n1 = Some ([], n2) \<and> m_state (sockets n2 0) = Closing
       \<and> h_buffer (sockets n2 0) = [7] \<and> m_handle (sockets n2 0) \<and> world n2 = [])"
  using close_with_data_is_stuck [of "upd 0 (\<lambda>s. s\<lparr>h_buffer := [7]\<rparr>) open_net" 0 slow_env idle_client]
  by (simp add: open_net_def empty_net_def)

text \<open>
  When libcurl answers that sending would block, which for a secure connection it may do although the socket can be written,
  \<open>sendPendingData\<close> reports that nothing was sent and the timer tells the client that the connection has failed.
\<close>

theorem blocked_send_fails_connection:
  assumes "m_state (sockets n h) = Open" "m_handle (sockets n h)" "m_multiHandle (sockets n h)"
    and "0 \<le> m_socket (sockets n h)" "h_buffer (sockets n h) \<noteq> []"
    and "select_peer env (m_socket (sockets n h)) True (world n) = ((1, rd, True), w1)"
    and "easy_send env h (h_buffer (sockets n h)) w1 = ((CURLE_AGAIN, 0, again), w2)"
  shows "open_loop env cl h n =
    to_client h (cl_didFail cl h)
      (nextProgress env h True ((upd h (\<lambda>s. s\<lparr>m_socketState := Active\<rparr>) n)\<lparr>world := w2\<rparr>))"
proof -
  let ?n2 = "upd h (\<lambda>s. s\<lparr>m_socketState := Active\<rparr>) (n\<lparr>world := w1\<rparr>)"
  let ?n3 = "nextProgress env h True ((upd h (\<lambda>s. s\<lparr>m_socketState := Active\<rparr>) n)\<lparr>world := w2\<rparr>)"
  have eq: "?n2\<lparr>world := w2\<rparr> = (upd h (\<lambda>s. s\<lparr>m_socketState := Active\<rparr>) n)\<lparr>world := w2\<rparr>"
    by (simp add: upd_def)
  have "platformSend env cl h (h_buffer (sockets n h)) ?n2 = Some (0, ?n3)"
    using assms by (simp add: platformSend_def Let_def eq)
  then have "sendPendingData env cl h ?n2 = Some (False, ?n3)"
    using assms(1,5) by (simp add: sendPendingData_def Let_def)
  then have "when_writable env cl h ?n2 = to_client h (cl_didFail cl h) ?n3"
    by (simp add: when_writable_def)
  moreover have "open_turn env cl h n = map_option Inl (when_writable env cl h ?n2)"
    using assms by (simp add: open_turn_def Let_def)
  ultimately show ?thesis
    by (subst open_loop.simps) (simp add: bind_map_option comp_def split: option.splits)
qed


lemma blocked_send_fails_connection_witness:
  "open_loop (slow_env\<lparr>easy_send := \<lambda>h data w. ((CURLE_AGAIN, 0, True), w)\<rparr>)
     (idle_client\<lparr>cl_didFail := \<lambda>h n. Some (n\<lparr>world := [0xFA]\<rparr>)\<rparr>) 0 (upd 0 (\<lambda>s. s\<lparr>h_buffer := [7]\<rparr>) open_net) =
   Some ((nextProgress slow_env 0 True (upd 0 (\<lambda>s. s\<lparr>h_buffer := [7], m_socketState := Active\<rparr>) open_net))\<lparr>world := [0xFA]\<rparr>)"
  by (subst blocked_send_fails_connection [where rd = False and ?w1.0 = "[]" and ?w2.0 = "[]" and again = True])
     (simp_all add: slow_env_def nextProgress_def Let_def to_client_def upd_def)

text \<open>
  After \<open>curl_easy_send\<close> has lost the connection, \<open>platformSend\<close> compares the error from before its
  loop with \<open>EAGAIN\<close> in every turn. With that error and a peer that stays silent it reads the socket again and
  again and never returns: the browser hangs.
\<close>

theorem lost_connection_hangs:
  assumes "m_state (sockets n h) = Open" "m_handle (sockets n h)" "m_multiHandle (sockets n h)"
    and "0 \<le> m_socket (sockets n h)"
    and "easy_send env h data (world n) = ((CURLE_UNSUPPORTED_PROTOCOL, k, True), w1)"
    and "\<forall>s w. \<exists>w'. recv_peer env s w = ((-1, []), w')"
  shows "platformSend env cl h data n = None"
proof (rule ccontr)
  assume "platformSend env cl h data n \<noteq> None"
  then obtain y where y: "fin_loop env cl h True (length data) (n\<lparr>world := w1\<rparr>) = Some y"
    using assms(1-5) by (auto simp: platformSend_def Let_def)
  have "(\<forall>s w. \<exists>w'. recv_peer env s w = ((-1, []), w')) \<longrightarrow> True \<longrightarrow> False"
  proof (rule fin_loop.raw_induct [where P = "\<lambda>env cl h again len n y.
        (\<forall>s w. \<exists>w'. recv_peer env s w = ((-1, []), w')) \<longrightarrow> again \<longrightarrow> False", OF _ y], intro impI)
    fix loop env cl h again len n y
    assume IH: "\<And>env cl h again len n y. loop env cl h again len n = Some y \<Longrightarrow>
        (\<forall>s (w :: 'a). \<exists>w'. recv_peer env s w = ((-1, []), w')) \<longrightarrow> again \<longrightarrow> False"
      and silent: "\<forall>s (w :: 'a). \<exists>w'. recv_peer env s w = ((-1, []), w')" and "again"
      and r: "(let ((r, bytes), w1) = recv_peer env (m_socket (sockets n h)) (world n); n1 = n\<lparr>world := w1\<rparr>
        in if 0 < r then Option.bind (to_client h (cl_didReceive cl h bytes) n1) (loop env cl h again len)
           else if r = 0 then Some (int len, n1)
           else if again then loop env cl h again len n1 else Some (- 1, n1)) = Some y"
    obtain w1 where "recv_peer env (m_socket (sockets n h)) (world n) = ((-1, []), w1)" using silent by blast
    then have "loop env cl h again len (n\<lparr>world := w1\<rparr>) = Some y" using r \<open>again\<close> by simp
    with IH silent \<open>again\<close> show False by blast
  qed
  then show False using assms(6) by blast
qed

lemma lost_connection_hangs_witness:
  "platformSend (slow_env\<lparr>easy_send := \<lambda>h data w. ((CURLE_UNSUPPORTED_PROTOCOL, 0, True), w),
     recv_peer := \<lambda>s w. ((-1, []), w)\<rparr>) idle_client 0 [1, 2, 3] open_net = None"
  by (rule lost_connection_hangs [where k = 0 and ?w1.0 = "[]"]) (simp_all add: slow_env_def)

text \<open>
  A handle that got no connection or no resources is told to its client only as opened and
  failed: whatever the client does about it, no operation on the handle ever calls \<open>didClose\<close>.
\<close>

lemma refused_handle_never_closes:
  assumes "\<not> m_handle (sockets n h)"
  shows "disconnect env cl h n = disconnect env (cl\<lparr>cl_didClose := f\<rparr>) h n
    \<and> disconnect env cl h n = Some (upd h (\<lambda>s. s\<lparr>m_progressTimer := False, m_state := Closed\<rparr>) n)"
proof -
  have "platformClose env c h n = Some (upd h (\<lambda>s. s\<lparr>m_progressTimer := False\<rparr>) n)" for c
    using assms by (simp add: platformClose_def Let_def)
  then show ?thesis by (simp add: disconnect_def upd_def)
qed

end
