(* ===== verification/WebSocketFrame.thy ===== *)
theory WebSocketFrame
  imports WTFString
begin

text \<open>
  The frames of RFC 6455 as \<open>WebSocketFrame.cpp\<close> reads and writes them. A buffer is the
  list of its bytes, a pointer into it an index; a read or write outside the buffer makes
  the result None, so that a theorem can say there is none. \<open>size_t\<close> has 32 bits on the
  console. The four bytes of the masking key that \<open>cryptographicallyRandomValues\<close>
  produces are an argument of the encoder.
\<close>

section \<open>Frames\<close>

text \<open>\<open>payload\<close> and \<open>payloadLength\<close> of the source are the bytes they delimit.\<close>

record ws_frame =
  opCode :: byte
  fr_final :: bool
  fr_compress :: bool
  reserved2 :: bool
  reserved3 :: bool
  fr_masked :: bool
  fr_payload :: "byte list"

abbreviation payloadLength :: "ws_frame \<Rightarrow> nat" where
  "payloadLength f \<equiv> length (fr_payload f)"

definition OpCodeContinuation :: byte where "OpCodeContinuation = 0x0"
definition OpCodeText :: byte where "OpCodeText = 0x1"
definition OpCodeBinary :: byte where "OpCodeBinary = 0x2"
definition OpCodeClose :: byte where "OpCodeClose = 0x8"
definition OpCodePing :: byte where "OpCodePing = 0x9"
definition OpCodePong :: byte where "OpCodePong = 0xA"

lemmas opcode_defs = OpCodeContinuation_def OpCodeText_def OpCodeBinary_def OpCodeClose_def
  OpCodePing_def OpCodePong_def

definition isNonControlOpCode :: "byte \<Rightarrow> bool" where
  "isNonControlOpCode c \<longleftrightarrow> c = OpCodeContinuation \<or> c = OpCodeText \<or> c = OpCodeBinary"

definition isControlOpCode :: "byte \<Rightarrow> bool" where
  "isControlOpCode c \<longleftrightarrow> c = OpCodeClose \<or> c = OpCodePing \<or> c = OpCodePong"

definition isReservedOpCode :: "byte \<Rightarrow> bool" where
  "isReservedOpCode c \<longleftrightarrow> \<not> isNonControlOpCode c \<and> \<not> isControlOpCode c"

definition finalBit :: byte where "finalBit = 0x80"
definition compressBit :: byte where "compressBit = 0x40"
definition reserved2Bit :: byte where "reserved2Bit = 0x20"
definition reserved3Bit :: byte where "reserved3Bit = 0x10"
definition opCodeMask :: byte where "opCodeMask = 0xF"
definition maskBit :: byte where "maskBit = 0x80"
definition payloadLengthMask :: byte where "payloadLengthMask = 0x7F"

lemmas frame_bits = finalBit_def compressBit_def reserved2Bit_def reserved3Bit_def opCodeMask_def
  maskBit_def payloadLengthMask_def

definition needsExtendedLengthField :: "nat \<Rightarrow> bool" where
  "needsExtendedLengthField n \<longleftrightarrow> 125 < n"

section \<open>Reading\<close>

datatype ParseFrameResult =
    FrameOK ws_frame nat "byte list" \<comment> \<open>the frame, \<open>frameEnd\<close> and the buffer, unmasked in place\<close>
  | FrameIncomplete
  | FrameError string

definition rd :: "byte list \<Rightarrow> nat \<Rightarrow> byte option" where
  "rd data i = (if i < length data then Some (data ! i) else None)"

fun read_be :: "byte list \<Rightarrow> nat \<Rightarrow> nat \<Rightarrow> u64 \<Rightarrow> u64 option" where
  "read_be data p 0 acc = Some acc"
| "read_be data p (Suc n) acc =
     (case rd data p of
        None \<Rightarrow> None
      | Some b \<Rightarrow> read_be data (Suc p) n (push_bit 8 acc OR ucast b))"

definition minimal_length_error :: string where
  "minimal_length_error = ''The minimal number of bytes MUST be used to encode the length''"

definition too_large_error :: "nat \<Rightarrow> string" where
  "too_large_error n = ''WebSocket frame length too large: '' @ dec_digits n @ '' bytes''"

text \<open>The length field: \<open>Inl\<close> is an early return, \<open>Inr\<close> the length and the position after it.\<close>

definition payload_length_field :: "byte list \<Rightarrow> byte \<Rightarrow> (ParseFrameResult + u64 \<times> nat) option" where
  "payload_length_field data secondByte =
     (let payloadLength64 = ucast (secondByte AND payloadLengthMask) :: u64; p = 2 in
      if 125 < payloadLength64 then
        (let size = (if payloadLength64 = 126 then 2 else 8) in
         if int (length data) - int p < int size then Some (Inl FrameIncomplete)
         else
           (case read_be data p size 0 of
              None \<Rightarrow> None
            | Some v \<Rightarrow>
                if size = 2 \<and> v \<le> 125 then Some (Inl (FrameError minimal_length_error))
                else if size = 8 \<and> v \<le> 0xFFFF then Some (Inl (FrameError minimal_length_error))
                else Some (Inr (v, p + size))))
      else Some (Inr (payloadLength64, p)))"

text \<open>\<open>payload[i] ^= maskingKey[i % 4]\<close> for the \<open>n\<close> positions from \<open>i\<close> on.\<close>

fun xor_mask :: "byte list \<Rightarrow> nat \<Rightarrow> nat \<Rightarrow> nat \<Rightarrow> nat \<Rightarrow> byte list option" where
  "xor_mask data key pl i 0 = Some data"
| "xor_mask data key pl i (Suc n) =
     (case (rd data (key + i mod 4), rd data (pl + i)) of
        (Some k, Some b) \<Rightarrow> xor_mask (data[pl + i := b XOR k]) key pl (Suc i) n
      | _ \<Rightarrow> None)"

definition maxPayloadLength :: u64 where "maxPayloadLength = 0x7FFFFFFFFFFFFFFF"
definition SIZE_MAX :: u64 where "SIZE_MAX = 0xFFFFFFFF"

text \<open>The bytes \<open>[from, from + n)\<close> of the buffer, None if they are not all in it.\<close>

definition rd_range :: "byte list \<Rightarrow> nat \<Rightarrow> nat \<Rightarrow> byte list option" where
  "rd_range data start n = (if start + n \<le> length data then Some (take n (drop start data)) else None)"

text \<open>From the check of the length on: the key, the payload, and the frame.\<close>

definition parse_payload :: "byte list \<Rightarrow> byte \<Rightarrow> bool \<Rightarrow> u64 \<Rightarrow> nat \<Rightarrow> ParseFrameResult option" where
  "parse_payload data firstByte masked payloadLength64 p =
     (let maskingKeyLength = (if masked then 4 else 0) :: u32 in
      if maxPayloadLength < payloadLength64 \<or> SIZE_MAX < payloadLength64 + ucast maskingKeyLength
      then Some (FrameError (too_large_error (unat payloadLength64)))
      else
        let n = ucast payloadLength64 :: u32 in
        if length data - p < unat (maskingKeyLength + n) then Some FrameIncomplete
        else
          (case if masked then xor_mask data p (p + 4) 0 (unat n) else Some data of
             None \<Rightarrow> None
           | Some data' \<Rightarrow>
               (case rd_range data' (p + unat maskingKeyLength) (unat n) of
                  None \<Rightarrow> None
                | Some bytes \<Rightarrow>
                    Some (FrameOK
                      \<lparr>opCode = firstByte AND opCodeMask, fr_final = (firstByte AND finalBit \<noteq> 0),
                       fr_compress = (firstByte AND compressBit \<noteq> 0),
                       reserved2 = (firstByte AND reserved2Bit \<noteq> 0),
                       reserved3 = (firstByte AND reserved3Bit \<noteq> 0),
                       fr_masked = masked, fr_payload = bytes\<rparr>
                      (p + unat maskingKeyLength + unat n) data'))))"

definition parseFrame :: "byte list \<Rightarrow> ParseFrameResult option" where
  "parseFrame data =
     (if length data < 2 then Some FrameIncomplete
      else
        case (rd data 0, rd data 1) of
          (Some firstByte, Some secondByte) \<Rightarrow>
            (case payload_length_field data secondByte of
               None \<Rightarrow> None
             | Some (Inl r) \<Rightarrow> Some r
             | Some (Inr (payloadLength64, p)) \<Rightarrow>
                 parse_payload data firstByte (secondByte AND maskBit \<noteq> 0) payloadLength64 p)
        | _ \<Rightarrow> None)"

section \<open>Writing\<close>

fun fill_length :: "nat \<Rightarrow> u32 \<Rightarrow> byte list \<Rightarrow> byte list" where
  "fill_length 0 remaining acc = acc"
| "fill_length (Suc n) remaining acc = fill_length n (drop_bit 8 remaining) (ucast (remaining AND 0xFF) # acc)"

definition appendFramePayload :: "ws_frame \<Rightarrow> byte list \<Rightarrow> byte list \<Rightarrow> byte list option" where
  "appendFramePayload f key frameData =
     (let maskingKeyStart = length frameData;
          d1 = (if fr_masked f then frameData @ replicate 4 0 else frameData);
          payloadStart = length d1;
          d2 = d1 @ fr_payload f
      in if fr_masked f
         then xor_mask (take maskingKeyStart d2 @ key @ drop (maskingKeyStart + 4) d2)
                maskingKeyStart payloadStart 0 (payloadLength f)
         else Some d2)"

definition frame_header :: "ws_frame \<Rightarrow> byte list" where
  "frame_header f =
     (let b0 = (if fr_final f then finalBit else 0) OR (if fr_compress f then compressBit else 0) OR opCode f;
          b1 = (if fr_masked f then maskBit else 0);
          n = of_nat (payloadLength f) :: u32
      in if n \<le> 125 then [b0, b1 OR ucast n]
         else if n \<le> 0xFFFF then [b0, b1 OR 126, ucast (drop_bit 8 (n AND 0xFF00)), ucast (n AND 0xFF)]
         else [b0, b1 OR 127] @ fill_length 8 n [])"

definition makeFrameData :: "ws_frame \<Rightarrow> byte list \<Rightarrow> byte list option" where
  "makeFrameData f key = appendFramePayload f key (frame_header f)"

section \<open>Masking\<close>

lemma rd_in [simp]: "i < length data \<Longrightarrow> rd data i = Some (data ! i)"
  by (simp add: rd_def)

definition masked_bytes :: "byte list \<Rightarrow> nat \<Rightarrow> byte list \<Rightarrow> byte list" where
  "masked_bytes key i bs = map (\<lambda>(j, b). b XOR key ! (j mod 4)) (enumerate i bs)"

lemma masked_bytes_simps [simp]:
  "masked_bytes key i [] = []"
  "masked_bytes key i (b # bs) = (b XOR key ! (i mod 4)) # masked_bytes key (Suc i) bs"
  by (simp_all add: masked_bytes_def)

lemma length_masked_bytes [simp]: "length (masked_bytes key i bs) = length bs"
  by (simp add: masked_bytes_def)

lemma masked_bytes_twice [simp]: "masked_bytes key i (masked_bytes key i bs) = bs"
  by (induction bs arbitrary: i) (simp_all add: xor.assoc)

lemma xor_mask_eq:
  assumes "length key = 4"
  shows "xor_mask (pre @ key @ done' @ bs @ rest) (length pre) (length pre + 4) (length done') (length bs)
           = Some (pre @ key @ done' @ masked_bytes key (length done') bs @ rest)"
proof (induction bs arbitrary: done')
  case (Cons b bs)
  let ?d = "pre @ key @ done' @ (b # bs) @ rest"
  let ?k = "key ! (length done' mod 4)"
  have "rd ?d (length pre + length done' mod 4) = Some ?k"
    using assms by (simp add: rd_def nth_append)
  moreover have "rd ?d (length pre + 4 + length done') = Some b"
    using assms by (simp add: rd_def nth_append)
  moreover have "?d[length pre + 4 + length done' := b XOR ?k] = pre @ key @ (done' @ [b XOR ?k]) @ bs @ rest"
    using assms by (simp add: list_update_append)
  ultimately show ?case using Cons.IH [of "done' @ [b XOR ?k]"] by simp
qed simp

lemma xor_mask_payload:
  assumes "length key = 4"
  shows "xor_mask (pre @ key @ bs @ rest) (length pre) (length pre + 4) 0 (length bs)
           = Some (pre @ key @ masked_bytes key 0 bs @ rest)"
  using xor_mask_eq [OF assms, of pre "[]" bs rest] by simp


section \<open>The length field\<close>

abbreviation be_value :: "u64 \<Rightarrow> byte list \<Rightarrow> u64" where
  "be_value acc bs \<equiv> foldl (\<lambda>a b. push_bit 8 a OR ucast b) acc bs"

lemma read_be_in:
  "p + n \<le> length data \<Longrightarrow> read_be data p n acc = Some (be_value acc (take n (drop p data)))"
proof (induction n arbitrary: p acc)
  case (Suc n)
  then have "take (Suc n) (drop p data) = data ! p # take n (drop (Suc p) data)"
    by (simp add: take_Suc_conv_app_nth Cons_nth_drop_Suc [symmetric])
  with Suc show ?case by simp
qed simp

definition length_bytes :: "byte \<Rightarrow> nat" where
  "length_bytes b1 = (let n = b1 AND payloadLengthMask in if n \<le> 125 then 0 else if n = 126 then 2 else 8)"

definition length_value :: "byte \<Rightarrow> byte list \<Rightarrow> u64" where
  "length_value b1 bs = (if length_bytes b1 = 0 then ucast (b1 AND payloadLengthMask) else be_value 0 bs)"

definition length_minimal :: "byte \<Rightarrow> u64 \<Rightarrow> bool" where
  "length_minimal b1 v \<longleftrightarrow>
     (length_bytes b1 = 2 \<longrightarrow> 125 < v) \<and> (length_bytes b1 = 8 \<longrightarrow> 0xFFFF < v)"

lemma length_bytes_cases: "length_bytes b1 = 0 \<or> length_bytes b1 = 2 \<or> length_bytes b1 = 8"
  by (simp add: length_bytes_def Let_def)

lemma ucast_u64_less: "(125 < (ucast (b :: byte) :: u64)) = (125 < b)"
  "((ucast (b :: byte) :: u64) = 126) = (b = 126)"
proof -
  have "uint (ucast b :: u64) = uint b" by (simp add: uint_up_ucast is_up)
  then show "(125 < (ucast b :: u64)) = (125 < b)" "((ucast b :: u64) = 126) = (b = 126)"
    by (simp_all add: word_less_def word_uint_eq_iff)
qed

lemma payload_length_field_eq:
  "payload_length_field (b0 # b1 # bs) b =
     Some (if length bs < length_bytes b then Inl FrameIncomplete
           else let v = length_value b (take (length_bytes b) bs)
                in if length_minimal b v then Inr (v, 2 + length_bytes b)
                   else Inl (FrameError minimal_length_error))"
proof -
  have len: "125 < (ucast (b AND payloadLengthMask) :: u64) \<longleftrightarrow> length_bytes b \<noteq> 0"
    "(ucast (b AND payloadLengthMask) :: u64) = 126 \<longleftrightarrow> length_bytes b = 2"
    by (auto simp: ucast_u64_less length_bytes_def Let_def not_less)
  show ?thesis
  proof (cases "length_bytes b = 0")
    case True
    then show ?thesis
      using len by (simp add: payload_length_field_def length_value_def length_minimal_def)
  next
    case False
    then have size: "(if (ucast (b AND payloadLengthMask) :: u64) = 126 then 2 else 8) = length_bytes b"
      using len(2) length_bytes_cases [of b] by auto
    have inc: "int (length (b0 # b1 # bs)) - int 2 < int (length_bytes b) \<longleftrightarrow> length bs < length_bytes b"
      by simp
    have rdb: "read_be (b0 # b1 # bs) 2 (length_bytes b) 0 = Some (be_value 0 (take (length_bytes b) bs))"
      if "\<not> length bs < length_bytes b"
      using that by (subst read_be_in) (simp_all add: numeral_2_eq_2)
    show ?thesis
      unfolding payload_length_field_def Let_def size inc
      using False len(1) length_bytes_cases [of b] rdb
      by (auto simp: length_value_def length_minimal_def not_le not_less)
  qed
qed


section \<open>The parser in one equation\<close>

definition key_bytes :: "byte \<Rightarrow> nat" where
  "key_bytes b1 = (if b1 AND maskBit \<noteq> 0 then 4 else 0)"

definition frame_of :: "byte \<Rightarrow> bool \<Rightarrow> byte list \<Rightarrow> ws_frame" where
  "frame_of b0 masked bytes =
     \<lparr>opCode = b0 AND opCodeMask, fr_final = (b0 AND finalBit \<noteq> 0), fr_compress = (b0 AND compressBit \<noteq> 0),
      reserved2 = (b0 AND reserved2Bit \<noteq> 0), reserved3 = (b0 AND reserved3Bit \<noteq> 0),
      fr_masked = masked, fr_payload = bytes\<rparr>"

definition unmasked :: "byte \<Rightarrow> nat \<Rightarrow> byte list \<Rightarrow> byte list" where
  \<comment> \<open>the payload of \<open>n\<close> bytes that follows the length field, \<open>bs\<close> the bytes after that field\<close>
  "unmasked b1 n bs =
     (if b1 AND maskBit \<noteq> 0 then masked_bytes (take 4 bs) 0 (take n (drop 4 bs)) else take n bs)"

definition parse_spec :: "byte \<Rightarrow> byte \<Rightarrow> byte list \<Rightarrow> ParseFrameResult" where
  "parse_spec b0 b1 bs =
     (let k = length_bytes b1; v = length_value b1 (take k bs); n = unat v; m = key_bytes b1;
          pay = unmasked b1 n (drop k bs)
      in if length bs < k then FrameIncomplete
         else if \<not> length_minimal b1 v then FrameError minimal_length_error
         else if 2 ^ 32 \<le> n + m
         then FrameError (too_large_error n)
         else if length bs < k + m + n then FrameIncomplete
         else FrameOK (frame_of b0 (b1 AND maskBit \<noteq> 0) pay) (2 + k + m + n)
                (b0 # b1 # take (k + m) bs @ pay @ drop (k + m + n) bs))"

lemma too_large_iff:
  fixes v :: u64
  assumes "m = 0 \<or> m = 4"
  shows "(maxPayloadLength < v \<or> SIZE_MAX < v + of_nat m) \<longleftrightarrow> 2 ^ 32 \<le> unat v + m"
proof (cases "maxPayloadLength < v")
  case True
  then have "2 ^ 32 \<le> unat v" by (simp add: maxPayloadLength_def word_less_nat_alt)
  with True show ?thesis by simp
next
  case False
  then have "unat v \<le> 0x7FFFFFFFFFFFFFFF" by (simp add: maxPayloadLength_def word_le_nat_alt not_less)
  with assms have "unat (v + of_nat m) = unat v + m"
    by (auto simp: unat_word_ariths)
  with False show ?thesis by (auto simp: SIZE_MAX_def word_less_nat_alt)
qed

lemma unat_ucast_small:
  fixes v :: u64
  assumes "unat v < 2 ^ 32"
  shows "unat (ucast v :: u32) = unat v"
  using assms by (simp add: unsigned_ucast_eq take_bit_nat_eq_self)

lemma parse_payload_eq:
  fixes v :: u64 and b0 b1 :: byte
  defines "m \<equiv> key_bytes b1"
  assumes k: "k \<le> length bs"
  shows "parse_payload (b0 # b1 # bs) b0 (b1 AND maskBit \<noteq> 0) v (2 + k) =
    Some (if 2 ^ 32 \<le> unat v + m
          then FrameError (too_large_error (unat v))
          else if length bs < k + m + unat v then FrameIncomplete
          else FrameOK (frame_of b0 (b1 AND maskBit \<noteq> 0) (unmasked b1 (unat v) (drop k bs)))
            (2 + k + m + unat v)
            (b0 # b1 # take (k + m) bs @ unmasked b1 (unat v) (drop k bs) @ drop (k + m + unat v) bs))"
proof -
  let ?data = "b0 # b1 # bs" and ?masked = "b1 AND maskBit \<noteq> 0"
  have m: "m = (if ?masked then 4 else 0)" by (simp add: m_def key_bytes_def)
  have key: "(if ?masked then 4 else 0 :: u32) = of_nat m" by (simp add: m)
  have ukey: "ucast (of_nat m :: u32) = (of_nat m :: u64)" "unat (of_nat m :: u32) = m" by (simp_all add: m)
  have large: "(maxPayloadLength < v \<or> SIZE_MAX < v + of_nat m) \<longleftrightarrow> 2 ^ 32 \<le> unat v + m"
    by (rule too_large_iff) (simp add: m)
  have inc: "length ?data - (2 + k) < m + unat v \<longleftrightarrow> length bs < k + m + unat v" using k by auto
  show ?thesis
  proof (cases "2 ^ 32 \<le> unat v + m")
    case True
    then show ?thesis unfolding parse_payload_def Let_def key ukey large by simp
  next
    case False
    then have n: "unat (ucast v :: u32) = unat v" by (intro unat_ucast_small) simp
    have tot: "unat (of_nat m + ucast v :: u32) = m + unat v"
      using False n ukey(2) by (simp add: unat_word_ariths)
    show ?thesis
    proof (cases "length bs < k + m + unat v")
      case True
      with False show ?thesis unfolding parse_payload_def Let_def key ukey large tot inc by simp
    next
      case enough: False
      have xm: "(if ?masked then xor_mask ?data (2 + k) (2 + k + 4) 0 (unat v) else Some ?data) =
          Some (b0 # b1 # take (k + m) bs @ unmasked b1 (unat v) (drop k bs) @ drop (k + m + unat v) bs)"
        (is "?l = Some ?d")
      proof (cases ?masked)
        case True
        let ?raw = "take (unat v) (drop 4 (drop k bs))"
        have four: "m = 4" using True by (simp add: m)
        have l: "length (take 4 (drop k bs)) = 4" "length ?raw = unat v"
          "length (b0 # b1 # take k bs) = 2 + k"
          using enough k four by simp_all
        have e: "drop (unat v) (drop 4 (drop k bs)) = drop (k + m + unat v) bs"
          by (simp add: four ac_simps)
        have "take 4 (drop k bs) @ ?raw @ drop (k + m + unat v) bs = drop k bs"
          by (simp only: e [symmetric] append_take_drop_id)
        then have d: "?data = (b0 # b1 # take k bs) @ take 4 (drop k bs) @ ?raw @ drop (k + m + unat v) bs"
          by simp
        have t: "b0 # b1 # take (k + m) bs = (b0 # b1 # take k bs) @ take 4 (drop k bs)"
          using four by (simp add: take_add)
        have "?l = xor_mask ((b0 # b1 # take k bs) @ take 4 (drop k bs) @ ?raw @ drop (k + m + unat v) bs)
                (2 + k) (2 + k + 4) 0 (unat v)"
          using True by (subst d) simp
        also have "\<dots> = Some ((b0 # b1 # take k bs) @ take 4 (drop k bs)
             @ masked_bytes (take 4 (drop k bs)) 0 ?raw @ drop (k + m + unat v) bs)"
          using xor_mask_payload [OF l(1), of "b0 # b1 # take k bs" ?raw "drop (k + m + unat v) bs"]
          unfolding l by simp
        also have "\<dots> = Some ?d"
          using True t by (simp add: unmasked_def)
        finally show ?thesis .
      next
        case False
        then have "?d = ?data"
          using append_take_drop_id [of "unat v" "drop k bs"] by (simp add: unmasked_def m add.commute)
        with False show ?thesis by simp
      qed
      have rg: "rd_range ?d (2 + k + m) (unat v) = Some (unmasked b1 (unat v) (drop k bs))"
      proof -
        have "length (unmasked b1 (unat v) (drop k bs)) = unat v"
          using enough k by (auto simp: unmasked_def m)
        moreover have "length (take (k + m) bs) = k + m" using enough by simp
        ultimately show ?thesis by (simp add: rd_range_def)
      qed
      show ?thesis
        unfolding parse_payload_def Let_def key ukey large tot inc n
        using False enough by (simp only: xm rg option.case if_False frame_of_def)
    qed
  qed
qed

lemma parseFrame_eq: "parseFrame (b0 # b1 # bs) = Some (parse_spec b0 b1 bs)"
proof (cases "length bs < length_bytes b1 \<or> \<not> length_minimal b1 (length_value b1 (take (length_bytes b1) bs))")
  case True
  then show ?thesis
    by (auto simp: parseFrame_def payload_length_field_eq parse_spec_def Let_def)
next
  case False
  then have k: "length_bytes b1 \<le> length bs" by simp
  have "payload_length_field (b0 # b1 # bs) b1 =
      Some (Inr (length_value b1 (take (length_bytes b1) bs), 2 + length_bytes b1))"
    using False by (simp add: payload_length_field_eq Let_def)
  then have "parseFrame (b0 # b1 # bs) =
      parse_payload (b0 # b1 # bs) b0 (b1 AND maskBit \<noteq> 0)
        (length_value b1 (take (length_bytes b1) bs)) (2 + length_bytes b1)"
    by (simp add: parseFrame_def)
  also have "\<dots> = Some (parse_spec b0 b1 bs)"
    unfolding parse_payload_eq [OF k] parse_spec_def Let_def using False by simp
  finally show ?thesis .
qed


section \<open>Writing and reading back\<close>

definition frame_ok :: "ws_frame \<Rightarrow> bool" where
  "frame_ok f \<longleftrightarrow> opCode f < 16 \<and> \<not> reserved2 f \<and> \<not> reserved3 f \<and> payloadLength f + 4 < 2 ^ 32"

lemma byte_FF [simp]: "(w :: 'a::len word) AND 0xFF = take_bit 8 w"
  by (simp add: take_bit_eq_mask mask_eq_exp_minus_1)

lemma low_bits:
  fixes c :: byte
  shows "c < 128 \<Longrightarrow> c AND 0x7F = c" "c < 16 \<Longrightarrow> c AND 0xF = c"
proof -
  have "c AND 0x7F = take_bit 7 c" "c AND 0xF = take_bit 4 c"
    by (simp_all add: take_bit_eq_mask mask_eq_exp_minus_1)
  then show "c < 128 \<Longrightarrow> c AND 0x7F = c" "c < 16 \<Longrightarrow> c AND 0xF = c"
    by (simp_all add: word_less_def word_uint_eq_iff unsigned_take_bit_eq take_bit_int_eq_self)
qed

lemma header_byte0:
  fixes opc :: byte and fin cmp :: bool
  assumes "opc < 16"
  defines "b \<equiv> (if fin then finalBit else 0) OR (if cmp then compressBit else 0) OR opc"
  shows "b AND opCodeMask = opc" "b AND finalBit \<noteq> 0 \<longleftrightarrow> fin" "b AND compressBit \<noteq> 0 \<longleftrightarrow> cmp"
    "b AND reserved2Bit = 0" "b AND reserved3Bit = 0"
proof -
  obtain w where w: "opc = w AND 0xF" using low_bits(2) [OF assms(1)] by metis
  show "b AND opCodeMask = opc" "b AND finalBit \<noteq> 0 \<longleftrightarrow> fin" "b AND compressBit \<noteq> 0 \<longleftrightarrow> cmp"
    "b AND reserved2Bit = 0" "b AND reserved3Bit = 0"
    unfolding b_def w frame_bits by (simp_all add: bit.conj_disj_distrib2 and.assoc)
qed

lemma header_byte1:
  fixes c :: byte and masked :: bool
  assumes "c < 128"
  defines "b \<equiv> (if masked then maskBit else 0) OR c"
  shows "b AND payloadLengthMask = c" "b AND maskBit \<noteq> 0 \<longleftrightarrow> masked"
proof -
  obtain w where w: "c = w AND 0x7F" using low_bits(1) [OF assms(1)] by metis
  show "b AND payloadLengthMask = c" "b AND maskBit \<noteq> 0 \<longleftrightarrow> masked"
    unfolding b_def w frame_bits by (simp_all add: bit.conj_disj_distrib2 and.assoc)
qed

lemma be_value_two:
  fixes n :: u32
  assumes "n \<le> 0xFFFF"
  shows "be_value 0 [ucast (drop_bit 8 (n AND 0xFF00)), ucast (n AND 0xFF)] = ucast n"
proof -
  have tb: "take_bit 16 n = n"
  proof -
    have "uint n < 2 ^ 16" using assms by (simp add: word_le_def)
    then have "take_bit 16 (uint n) = uint n" by (intro take_bit_int_eq_self) simp_all
    then show ?thesis by (simp only: word_uint_eq_iff unsigned_take_bit_eq)
  qed
  have hi: "i < 16" if "bit n i" for i using bit_take_bit_iff [of 16 n i] that tb by simp
  have "drop_bit 8 (n AND 0xFF00) = take_bit 8 (drop_bit 8 n)"
    by (simp only: drop_bit_and) (simp add: drop_bit_and)
  moreover have "be_value 0 [ucast (take_bit 8 (drop_bit 8 n)), ucast (take_bit 8 n)] = ucast n"
  proof (rule bit_word_eqI)
    fix i :: nat
    show "bit (be_value 0 [ucast (take_bit 8 (drop_bit 8 n)), ucast (take_bit 8 n)]) i = bit (ucast n :: u64) i"
      using hi [of i] by (cases "i < 8") (auto simp: bit_simps)
  qed
  ultimately show ?thesis by simp
qed

lemma fill_length_eight:
  "fill_length 8 n [] =
     [ucast (take_bit 8 (drop_bit 56 n)), ucast (take_bit 8 (drop_bit 48 n)),
      ucast (take_bit 8 (drop_bit 40 n)), ucast (take_bit 8 (drop_bit 32 n)),
      ucast (take_bit 8 (drop_bit 24 n)), ucast (take_bit 8 (drop_bit 16 n)),
      ucast (take_bit 8 (drop_bit 8 n)), ucast (take_bit 8 n)]"
proof -
  have eight: "(8 :: nat) = Suc (Suc (Suc (Suc (Suc (Suc (Suc (Suc 0)))))))" by simp
  show ?thesis
    by (subst (1) eight) (simp only: fill_length.simps byte_FF drop_bit_drop_bit, simp)
qed

lemma be_value_eight: "be_value 0 (fill_length 8 (n :: u32) []) = ucast n"
  unfolding fill_length_eight foldl.simps
proof (rule bit_word_eqI, goal_cases)
  case (1 i)
  have "i < 32" if "bit n i" using that bit_imp_le_length by fastforce
  then show ?case
    by (cases "i < 8"; cases "i < 16"; cases "i < 24") (auto simp: bit_simps)
qed


definition length_field :: "ws_frame \<Rightarrow> byte list" where
  "length_field f =
     (let n = of_nat (payloadLength f) :: u32 in
      if n \<le> 125 then []
      else if n \<le> 0xFFFF then [ucast (drop_bit 8 (n AND 0xFF00)), ucast (n AND 0xFF)]
      else fill_length 8 n [])"

lemma frame_header_eq:
  "frame_header f =
     ((if fr_final f then finalBit else 0) OR (if fr_compress f then compressBit else 0) OR opCode f)
     # ((if fr_masked f then maskBit else 0) OR
        (if of_nat (payloadLength f) \<le> (125 :: u32) then ucast (of_nat (payloadLength f) :: u32)
         else if of_nat (payloadLength f) \<le> (0xFFFF :: u32) then 126 else 127))
     # length_field f"
  by (simp add: frame_header_def length_field_def Let_def)

lemma unat_ucast_up:
  "unat (ucast (w :: u32) :: u64) = unat w" "unat (ucast (b :: byte) :: u64) = unat b"
proof -
  have "uint (ucast w :: u64) = uint w" "uint (ucast b :: u64) = uint b"
    by (simp_all add: uint_up_ucast is_up)
  then show "unat (ucast w :: u64) = unat w" "unat (ucast b :: u64) = unat b"
    by (metis nat_uint_eq)+
qed

lemma frame_header_split:
  assumes "frame_ok f"
  obtains b0 b1 where "frame_header f = b0 # b1 # length_field f"
    "\<And>m bytes. frame_of b0 m bytes = f\<lparr>fr_masked := m, fr_payload := bytes\<rparr>"
    "b1 AND maskBit \<noteq> 0 \<longleftrightarrow> fr_masked f"
    "length_bytes b1 = length (length_field f)"
    "length_value b1 (length_field f) = of_nat (payloadLength f)"
    "length_minimal b1 (of_nat (payloadLength f))"
proof -
  let ?n = "of_nat (payloadLength f) :: u32"
  have un: "unat ?n = payloadLength f"
    using assms by (simp add: frame_ok_def unat_of_nat take_bit_nat_eq_self)
  have un64: "unat (ucast ?n :: u64) = payloadLength f" by (simp add: unat_ucast_up un)
  have u64: "(of_nat (payloadLength f) :: u64) = ucast ?n"
    using assms by (simp add: word_unat_eq_iff un64 frame_ok_def unat_of_nat take_bit_nat_eq_self)
  define c :: byte where "c = (if ?n \<le> 125 then ucast ?n else if ?n \<le> 0xFFFF then 126 else 127)"
  define b0 where "b0 = (if fr_final f then finalBit else 0) OR (if fr_compress f then compressBit else 0) OR opCode f"
  define b1 where "b1 = (if fr_masked f then maskBit else 0) OR c"
  have uc: "unat (ucast ?n :: byte) = payloadLength f" if "?n \<le> 125"
  proof -
    have "payloadLength f < 2 ^ 8" using that un by (simp add: word_le_nat_alt)
    then show ?thesis by (simp add: unsigned_ucast_eq un take_bit_nat_eq_self)
  qed
  have "c < 128" using uc by (auto simp: c_def word_less_nat_alt word_le_nat_alt un)
  note b1 = header_byte1 [OF this, of "fr_masked f", folded b1_def]
  have lb: "length_bytes b1 = length (length_field f)"
    using uc by (auto simp: length_bytes_def b1 c_def length_field_def Let_def word_le_nat_alt un fill_length_eight)
  show thesis
  proof (rule that [of b0 b1])
    show "frame_header f = b0 # b1 # length_field f"
      by (simp add: frame_header_def b0_def b1_def c_def length_field_def Let_def)
    show "frame_of b0 m bytes = f\<lparr>fr_masked := m, fr_payload := bytes\<rparr>" for m bytes
      using header_byte0 [of "opCode f" "fr_final f" "fr_compress f", folded b0_def] assms
      by (cases f) (simp add: frame_of_def frame_ok_def)
    show "b1 AND maskBit \<noteq> 0 \<longleftrightarrow> fr_masked f" by (rule b1)
    show "length_bytes b1 = length (length_field f)" by (rule lb)
    show "length_value b1 (length_field f) = of_nat (payloadLength f)"
    proof (cases "?n \<le> 125")
      case True
      then have "length_bytes b1 = 0" by (simp add: lb length_field_def)
      moreover have "(ucast (ucast ?n :: byte) :: u64) = ucast ?n"
        by (simp add: word_unat_eq_iff unat_ucast_up uc [OF True] un)
      ultimately show ?thesis using True by (simp add: length_value_def b1 c_def u64)
    next
      case False
      then show ?thesis
        using lb be_value_two [of ?n] be_value_eight [of ?n]
        by (auto simp: length_value_def length_field_def Let_def u64 fill_length_eight)
    qed
    show "length_minimal b1 (of_nat (payloadLength f))"
      unfolding length_minimal_def lb u64
      by (auto simp: length_field_def Let_def word_less_nat_alt word_le_nat_alt un64 un fill_length_eight
          split: if_splits)
  qed
qed

lemma makeFrameData_eq:
  assumes "length key = 4"
  shows "makeFrameData f key =
    Some (frame_header f @ (if fr_masked f then key @ masked_bytes key 0 (fr_payload f) else fr_payload f))"
  using assms xor_mask_payload [OF assms, of "frame_header f" "fr_payload f" "[]"]
  by (simp add: makeFrameData_def appendFramePayload_def Let_def)

lemma parse_makeFrameData:
  assumes f: "frame_ok f" and key: "length key = 4" and d: "makeFrameData f key = Some bytes"
  shows "parseFrame (bytes @ rest) = Some (FrameOK f (length bytes)
    (frame_header f @ (if fr_masked f then key else []) @ fr_payload f @ rest))"
proof -
  obtain b0 b1 where h: "frame_header f = b0 # b1 # length_field f"
    "\<And>m bytes. frame_of b0 m bytes = f\<lparr>fr_masked := m, fr_payload := bytes\<rparr>"
    "b1 AND maskBit \<noteq> 0 \<longleftrightarrow> fr_masked f"
    "length_bytes b1 = length (length_field f)"
    "length_value b1 (length_field f) = of_nat (payloadLength f)"
    "length_minimal b1 (of_nat (payloadLength f))"
    using frame_header_split [OF f] by metis
  let ?k = "if fr_masked f then key else []"
  let ?m = "if fr_masked f then masked_bytes key 0 (fr_payload f) else fr_payload f"
  have bytes: "bytes = b0 # b1 # length_field f @ ?k @ ?m"
    using d makeFrameData_eq [OF key, of f] h(1) by (cases "fr_masked f") simp_all
  have n: "unat (of_nat (payloadLength f) :: u64) = payloadLength f"
    using f by (simp add: frame_ok_def unat_of_nat take_bit_nat_eq_self)
  have kb: "key_bytes b1 = length ?k" using h(3) key by (simp add: key_bytes_def)
  have um: "unmasked b1 (payloadLength f) (?k @ ?m @ rest) = fr_payload f"
    using h(3) key by (simp add: unmasked_def)
  have f': "frame_of b0 (fr_masked f) (fr_payload f) = f" by (simp add: h(2))
  have small: "\<not> 2 ^ 32 \<le> payloadLength f + length ?k" using f key by (simp add: frame_ok_def)
  have "parse_spec b0 b1 (length_field f @ ?k @ ?m @ rest) =
      FrameOK f (length bytes) (frame_header f @ ?k @ fr_payload f @ rest)"
    unfolding parse_spec_def Let_def h(4) kb
    using small by (simp add: h n um f' bytes)
  then show ?thesis by (simp add: bytes parseFrame_eq)
qed


section \<open>Reading and writing back\<close>

lemma single_bit:
  fixes b :: byte
  assumes "m = 2 ^ i"
  shows "(if b AND m \<noteq> 0 then m else 0) = b AND m"
proof -
  have "b AND m = (if bit b i then m else 0)"
    unfolding assms by (rule bit_word_eqI) (auto simp: bit_simps)
  then show ?thesis by auto
qed

lemma byte0_rebuilt:
  fixes b :: byte
  assumes "b AND reserved2Bit = 0" "b AND reserved3Bit = 0"
  shows "(if b AND finalBit \<noteq> 0 then finalBit else 0)
    OR (if b AND compressBit \<noteq> 0 then compressBit else 0) OR b AND opCodeMask = b"
proof -
  have "(b AND 0x80) OR (b AND 0x40) OR (b AND 0xF) = (b AND 0x80) OR (b AND 0x40) OR (b AND 0x20) OR (b AND 0x10) OR (b AND 0xF)"
    using assms by (simp add: frame_bits)
  also have "\<dots> = b AND (0x80 OR 0x40 OR 0x20 OR 0x10 OR 0xF)"
    by (simp only: bit.conj_disj_distrib)
  also have "\<dots> = b" by (simp add: take_bit_word_eq_self)
  finally have b: "(b AND 0x80) OR (b AND 0x40) OR (b AND 0xF) = b" .
  have "(if b AND 0x80 \<noteq> 0 then 0x80 else 0) = b AND 0x80" "(if b AND 0x40 \<noteq> 0 then 0x40 else 0) = b AND 0x40"
    by (rule single_bit [of _ 7], simp, rule single_bit [of _ 6], simp)
  then show ?thesis unfolding frame_bits by (simp only: b)
qed

lemma byte1_rebuilt:
  fixes b :: byte
  shows "(if b AND maskBit \<noteq> 0 then maskBit else 0) OR b AND payloadLengthMask = b"
proof -
  have "(b AND 0x80) OR (b AND 0x7F) = b AND (0x80 OR 0x7F)" by (simp only: bit.conj_disj_distrib)
  also have "\<dots> = b" by (simp add: take_bit_word_eq_self)
  finally have b: "(b AND 0x80) OR (b AND 0x7F) = b" .
  have "(if b AND 0x80 \<noteq> 0 then 0x80 else 0) = b AND 0x80" by (rule single_bit [of _ 7]) simp
  then show ?thesis unfolding frame_bits by (simp only: b)
qed

lemma two_bytes_rebuilt:
  fixes v :: u64
  assumes "v = be_value 0 [x, y]"
  defines "n \<equiv> ucast v :: u32"
  shows "[ucast (drop_bit 8 (n AND 0xFF00)), ucast (n AND 0xFF)] = [x, y]" "unat v < 2 ^ 16"
proof -
  have hi: "drop_bit 8 (n AND 0xFF00) = take_bit 8 (drop_bit 8 n)"
    by (simp only: drop_bit_and) (simp add: drop_bit_and)
  have bits: "bit v i \<longleftrightarrow> (8 \<le> i \<and> i < 64 \<and> bit x (i - 8)) \<or> bit y i" for i
    using assms(1) bit_imp_le_length [of y i] by (auto simp: bit_simps)
  have "(ucast (take_bit 8 (drop_bit 8 n)) :: byte) = x"
    by (rule bit_word_eqI) (auto simp: n_def bit_simps bits dest: bit_imp_le_length)
  moreover have "(ucast (take_bit 8 n) :: byte) = y"
    by (rule bit_word_eqI) (auto simp: n_def bit_simps bits dest: bit_imp_le_length)
  ultimately show "[ucast (drop_bit 8 (n AND 0xFF00)), ucast (n AND 0xFF)] = [x, y]"
    using hi by simp
  have "take_bit 16 v = v"
    by (rule bit_word_eqI) (auto simp: bit_simps bits dest: bit_imp_le_length)
  then show "unat v < 2 ^ 16"
    by (metis unsigned_take_bit_eq take_bit_nat_less_exp)
qed

lemma be_value_snoc: "be_value 0 (bs @ [b]) = push_bit 8 (be_value 0 bs) OR ucast b"
  by simp

lemma be_value_small: "length bs \<le> n \<Longrightarrow> n \<le> 8 \<Longrightarrow> bit (be_value 0 bs) i \<Longrightarrow> i < 8 * n"
proof (induction bs arbitrary: n i rule: rev_induct)
  case (snoc b bs)
  have "bit b i \<or> 8 \<le> i \<and> bit (be_value 0 bs) (i - 8)"
    using snoc.prems(3) unfolding be_value_snoc by (auto simp: bit_simps)
  then show ?case
  proof
    assume "bit b i"
    then show ?thesis using snoc.prems(1) bit_imp_le_length [of b i] by simp
  next
    assume h: "8 \<le> i \<and> bit (be_value 0 bs) (i - 8)"
    then have "i - 8 < 8 * (n - 1)" using snoc.IH [of "n - 1" "i - 8"] snoc.prems(1,2) by simp
    then show ?thesis using h by simp
  qed
qed simp

lemma be_value_inject:
  "length xs = length ys \<Longrightarrow> length xs \<le> 8 \<Longrightarrow> be_value 0 xs = be_value 0 ys \<Longrightarrow> xs = ys"
proof (induction xs arbitrary: ys rule: rev_induct)
  case (snoc x xs)
  then obtain zs z where ys: "ys = zs @ [z]" by (metis length_0_conv rev_exhaust snoc_eq_iff_butlast)
  let ?v = "\<lambda>bs b. push_bit 8 (be_value 0 bs) OR ucast (b :: byte) :: u64"
  have inv: "drop_bit 8 (?v bs b) = be_value 0 bs \<and> ucast (?v bs b) = b" if "length bs \<le> 7" for bs b
  proof
    have le: "bit (be_value 0 bs) i \<Longrightarrow> i < 56" for i using be_value_small [of bs 7 i] that by simp
    show "drop_bit 8 (?v bs b) = be_value 0 bs"
      by (rule bit_word_eqI) (auto simp: bit_simps dest: bit_imp_le_length le)
    show "ucast (?v bs b) = b"
      by (rule bit_word_eqI) (auto simp: bit_simps dest: bit_imp_le_length)
  qed
  have v: "?v xs x = ?v zs z" using snoc.prems(3) unfolding ys be_value_snoc .
  have l: "length xs \<le> 7" "length zs \<le> 7" using snoc.prems(1,2) ys by simp_all
  have "be_value 0 xs = be_value 0 zs \<and> x = z"
    using inv [OF l(1), of x] inv [OF l(2), of z] unfolding v by (elim conjE) (rule conjI; erule (1) trans [OF sym])
  then show ?case using snoc.IH [of zs] snoc.prems(1,2) ys by simp
qed simp

lemma eight_bytes_rebuilt:
  fixes v :: u64
  assumes v: "v = be_value 0 bs" "length bs = 8" and small: "unat v < 2 ^ 32"
  shows "fill_length 8 (ucast v :: u32) [] = bs"
proof (rule be_value_inject)
  have "unat (ucast v :: u32) = unat v" using small by (rule unat_ucast_small)
  then have "(ucast (ucast v :: u32) :: u64) = v" by (simp add: word_unat_eq_iff unat_ucast_up)
  then show "be_value 0 (fill_length 8 (ucast v :: u32) []) = be_value 0 bs"
    by (simp only: be_value_eight v(1))
qed (simp_all add: fill_length_eight v)


lemma length_field_rebuilt:
  assumes v: "v = length_value b1 L" and L: "length L = length_bytes b1"
    and min: "length_minimal b1 v" and small: "unat v < 2 ^ 32"
    and f: "payloadLength f = unat v"
  shows "length_field f = L" "unat v \<le> 125 \<Longrightarrow> b1 AND payloadLengthMask = ucast v"
    "125 < unat v \<Longrightarrow> unat v \<le> 0xFFFF \<Longrightarrow> b1 AND payloadLengthMask = 126"
    "0xFFFF < unat v \<Longrightarrow> b1 AND payloadLengthMask = 127"
proof -
  let ?m = "b1 AND payloadLengthMask"
  have n: "(of_nat (payloadLength f) :: u32) = ucast v"
    using small by (simp add: f word_unat_eq_iff unat_ucast_small)
  have un: "unat (ucast v :: u32) = unat v" using small by (rule unat_ucast_small)
  have m127: "?m \<le> 127"
  proof -
    have "?m = take_bit 7 b1" by (simp add: payloadLengthMask_def take_bit_eq_mask mask_eq_exp_minus_1)
    then have "unat ?m < 2 ^ 7" by (simp only: unsigned_take_bit_eq take_bit_nat_less_exp)
    then show ?thesis by (simp add: word_le_nat_alt)
  qed
  consider (zero) "length_bytes b1 = 0" | (two) "length_bytes b1 = 2" | (eight) "length_bytes b1 = 8"
    using length_bytes_cases [of b1] by (elim disjE)
  then have "length_field f = L \<and> (unat v \<le> 125 \<longrightarrow> ?m = ucast v)
      \<and> (125 < unat v \<and> unat v \<le> 0xFFFF \<longrightarrow> ?m = 126) \<and> (0xFFFF < unat v \<longrightarrow> ?m = 127)"
  proof cases
    case zero
    then have m: "?m \<le> 125" by (auto simp: length_bytes_def Let_def split: if_splits)
    have "v = ucast ?m" using v zero by (simp add: length_value_def)
    moreover have "(ucast (ucast ?m :: u64) :: byte) = ?m" by (rule bit_word_eqI) (auto simp: bit_simps)
    ultimately have "unat v = unat ?m" "?m = ucast v" by (simp_all add: unat_ucast_up)
    then show ?thesis
      using m L zero by (auto simp: length_field_def n Let_def word_le_nat_alt un)
  next
    case two
    then obtain x y where xy: "L = [x, y]" using L
      by (metis (no_types, lifting) One_nat_def Suc_1 length_0_conv length_Suc_conv)
    have w: "v = be_value 0 [x, y]" using v two xy by (simp add: length_value_def)
    have "125 < unat v" using min two by (simp add: length_minimal_def word_less_nat_alt)
    moreover have "unat v < 2 ^ 16" using two_bytes_rebuilt(2) [OF w] .
    moreover have "?m = 126" using two by (auto simp: length_bytes_def Let_def split: if_splits)
    ultimately show ?thesis
      using two_bytes_rebuilt(1) [OF w] by (auto simp: length_field_def n Let_def word_le_nat_alt un xy)
  next
    case eight
    have w: "v = be_value 0 L" using v eight by (simp add: length_value_def)
    have big: "0xFFFF < unat v" using min eight by (simp add: length_minimal_def word_less_nat_alt)
    have "\<not> ?m \<le> 125" "?m \<noteq> 126" using eight by (auto simp: length_bytes_def Let_def split: if_splits)
    then have "unat ?m = 127" using m127 by (simp add: word_le_nat_alt word_unat_eq_iff)
    then have "?m = 127" by (simp add: word_unat_eq_iff)
    then show ?thesis
      using big eight_bytes_rebuilt [OF w _ small] L eight
      by (auto simp: length_field_def n Let_def word_le_nat_alt un)
  qed
  then show "length_field f = L" "unat v \<le> 125 \<Longrightarrow> ?m = ucast v"
    "125 < unat v \<Longrightarrow> unat v \<le> 0xFFFF \<Longrightarrow> ?m = 126" "0xFFFF < unat v \<Longrightarrow> ?m = 127"
    by simp_all
qed

lemma parse_spec_OK:
  assumes "parse_spec b0 b1 bs = FrameOK f e d"
  obtains k v n m where "k = length_bytes b1" "v = length_value b1 (take k bs)" "n = unat v" "m = key_bytes b1"
    "length_minimal b1 v" "n + m < 2 ^ 32" "k + m + n \<le> length bs"
    "f = frame_of b0 (b1 AND maskBit \<noteq> 0) (unmasked b1 n (drop k bs))" "payloadLength f = n"
    "e = 2 + k + m + n" "d = b0 # b1 # take (k + m) bs @ fr_payload f @ drop (k + m + n) bs"
proof -
  have "length (unmasked b1 (unat v) (drop k bs)) = unat v"
    if "k + key_bytes b1 + unat v \<le> length bs" for k v
    using that by (auto simp: unmasked_def key_bytes_def)
  then show thesis
    using assms that [OF refl refl refl refl]
    by (auto simp: parse_spec_def Let_def frame_of_def not_less split: if_splits)
qed

lemma header_rebuilt:
  assumes v: "v = length_value b1 L" and f: "f = frame_of b0 (b1 AND maskBit \<noteq> 0) payload"
    and lk: "length L = length_bytes b1" and min: "length_minimal b1 v"
    and small: "unat v < 2 ^ 32" and fn: "payloadLength f = unat v" and res: "\<not> reserved2 f" "\<not> reserved3 f"
  shows "frame_header f = b0 # b1 # L"
proof -
  note lf = length_field_rebuilt [OF v lk min small fn]
  have un: "unat (ucast v :: u32) = unat v" using small by (rule unat_ucast_small)
  have n: "(of_nat (payloadLength f) :: u32) = ucast v" by (simp add: fn word_unat_eq_iff un)
  have r: "b0 AND reserved2Bit = 0" "b0 AND reserved3Bit = 0" using res by (simp_all add: f frame_of_def)
  have hb0: "(if fr_final f then finalBit else 0) OR (if fr_compress f then compressBit else 0) OR opCode f = b0"
    using byte0_rebuilt [OF r] by (simp add: f frame_of_def)
  have hb1: "(if fr_masked f then maskBit else 0) OR (b1 AND payloadLengthMask) = b1"
    using byte1_rebuilt [of b1] by (simp add: f frame_of_def)
  have "(of_nat (payloadLength f) \<le> (125 :: u32)) = (unat v \<le> 125)"
    "(of_nat (payloadLength f) \<le> (0xFFFF :: u32)) = (unat v \<le> 0xFFFF)"
    by (simp_all add: n word_le_nat_alt un)
  moreover have "(ucast (ucast v :: u32) :: byte) = ucast v"
    by (rule bit_word_eqI) (auto simp: bit_simps)
  moreover have "(if unat v \<le> 125 then ucast v else if unat v \<le> 0xFFFF then 126 else 127)
      = b1 AND payloadLengthMask"
    using lf(2-4) by auto
  ultimately show ?thesis unfolding frame_header_eq n by (simp only: lf(1) hb0 hb1)
qed

text \<open>
  C15: what is written is what was read. A frame that \<open>parseFrame\<close> accepts, with the two reserved bits clear, is
  written by \<open>makeFrameData\<close> with a suitable key as exactly the bytes it was read from: but for the key, there is one
  encoding of every frame.
\<close>

theorem frame_encoding_unique:
  assumes "parseFrame data = Some (FrameOK f e d)" "\<not> reserved2 f" "\<not> reserved3 f"
  shows "\<exists>key. length key = 4 \<and> makeFrameData f key = Some (take e data)"
proof -
  obtain b0 b1 bs where data: "data = b0 # b1 # bs"
    using assms(1) by (cases data; cases "tl data") (auto simp: parseFrame_def)
  from assms(1) have "parse_spec b0 b1 bs = FrameOK f e d" by (simp add: data parseFrame_eq)
  then obtain k v n m where p: "k = length_bytes b1" "v = length_value b1 (take k bs)" "n = unat v" "m = key_bytes b1"
    "length_minimal b1 v" "n + m < 2 ^ 32" "k + m + n \<le> length bs"
    "f = frame_of b0 (b1 AND maskBit \<noteq> 0) (unmasked b1 n (drop k bs))" "payloadLength f = n"
    "e = 2 + k + m + n"
    by (rule parse_spec_OK)
  have h: "frame_header f = b0 # b1 # take k bs"
    using header_rebuilt [OF p(2,8) _ p(5) _ _ assms(2,3)] p by simp
  define key where "key = (if fr_masked f then take 4 (drop k bs) else replicate 4 0)"
  have m: "m = (if fr_masked f then 4 else 0)" and mk: "(b1 AND maskBit \<noteq> 0) = fr_masked f"
    by (simp_all add: p(4,8) key_bytes_def frame_of_def)
  have key: "length key = 4" using p(7) m by (cases "fr_masked f") (simp_all add: key_def)
  have un_f: "unmasked b1 n (drop k bs) = fr_payload f" by (simp add: p(8) frame_of_def)
  have pay: "(if fr_masked f then key @ masked_bytes key 0 (fr_payload f) else fr_payload f)
      = take (m + n) (drop k bs)"
  proof (cases "fr_masked f")
    case True
    with un_f mk have "fr_payload f = masked_bytes key 0 (take n (drop 4 (drop k bs)))"
      by (simp add: unmasked_def key_def)
    then show ?thesis using True by (simp add: take_add m key_def)
  next
    case False
    with un_f mk show ?thesis by (simp add: unmasked_def m)
  qed
  have "take e data = b0 # b1 # take k bs @ take (m + n) (drop k bs)"
    by (simp add: data p(10) take_add add.assoc)
  then have "makeFrameData f key = Some (take e data)"
    by (simp add: makeFrameData_eq [OF key] h pay)
  with key show ?thesis by blast
qed


lemma frame_encoding_unique_witness:
  "\<exists>key. length key = 4 \<and> makeFrameData
     \<lparr>opCode = 1, fr_final = True, fr_compress = False, reserved2 = False, reserved3 = False,
      fr_masked = True, fr_payload = [0x48, 0x69]\<rparr> key
     = Some (take 8 [0x81, 0x82, 1, 2, 3, 4, 0x49, 0x6B, 0x89])"
proof -
  have "parseFrame [0x81, 0x82, 1, 2, 3, 4, 0x49, 0x6B, 0x89] = Some (FrameOK
     \<lparr>opCode = 1, fr_final = True, fr_compress = False, reserved2 = False, reserved3 = False,
      fr_masked = True, fr_payload = [0x48, 0x69]\<rparr> 8 [0x81, 0x82, 1, 2, 3, 4, 0x48, 0x69, 0x89])"
    by code_simp
  from frame_encoding_unique [OF this] show ?thesis by simp
qed

text \<open>
  C16: Whatever the peer sends, \<open>parseFrame\<close> reads and unmasks inside the buffer only, the
  frame it returns lies in it, and nothing but the payload of that frame is changed.
\<close>

theorem parseFrame_in_bounds:
  "case parseFrame data of
     None \<Rightarrow> False
   | Some (FrameOK f e d) \<Rightarrow>
       2 + payloadLength f \<le> e \<and> e \<le> length data \<and> length d = length data
       \<and> take (e - payloadLength f) d = take (e - payloadLength f) data
       \<and> take (payloadLength f) (drop (e - payloadLength f) d) = fr_payload f
       \<and> drop e d = drop e data
   | Some _ \<Rightarrow> True"
proof (cases "length data < 2")
  case True
  then show ?thesis by (simp add: parseFrame_def)
next
  case False
  then obtain b0 b1 bs where data: "data = b0 # b1 # bs"
    by (cases data; cases "tl data") auto
  show ?thesis
  proof (cases "parse_spec b0 b1 bs")
    case (FrameOK f e d)
    then obtain k v n m where "k + m + n \<le> length bs" "payloadLength f = n" "e = 2 + k + m + n"
      "d = b0 # b1 # take (k + m) bs @ fr_payload f @ drop (k + m + n) bs"
      by (rule parse_spec_OK)
    then show ?thesis by (simp add: data parseFrame_eq FrameOK)
  qed (simp_all add: data parseFrame_eq)
qed

text \<open>
  C19: A frame written by \<open>makeFrameData\<close> is read back by \<open>parseFrame\<close> as the same frame,
  masked or not, whatever the key and the bytes that follow it, and \<open>frameEnd\<close> is its end.
\<close>

theorem frame_roundtrip:
  assumes "opCode f < 16" "\<not> reserved2 f" "\<not> reserved3 f" "payloadLength f + 4 < 2 ^ 32" "length key = 4"
  shows "\<exists>bytes d. makeFrameData f key = Some bytes
    \<and> parseFrame (bytes @ rest) = Some (FrameOK f (length bytes) (d @ rest))"
proof -
  have f: "frame_ok f" using assms by (simp add: frame_ok_def)
  obtain bytes where "makeFrameData f key = Some bytes" using makeFrameData_eq [OF assms(5)] by blast
  with parse_makeFrameData [OF f assms(5), of bytes rest] show ?thesis by auto
qed

lemma frame_roundtrip_witness:
  "\<exists>bytes d. makeFrameData \<lparr>opCode = 2, fr_final = False, fr_compress = True, reserved2 = False,
      reserved3 = False, fr_masked = True, fr_payload = replicate 300 7\<rparr> [1, 2, 3, 4] = Some bytes
    \<and> parseFrame (bytes @ [0xFF]) = Some (FrameOK \<lparr>opCode = 2, fr_final = False, fr_compress = True,
      reserved2 = False, reserved3 = False, fr_masked = True, fr_payload = replicate 300 7\<rparr>
      (length bytes) (d @ [0xFF]))"
  by (rule frame_roundtrip) simp_all

section \<open>A stream of frames\<close>

text \<open>A frame that is complete, or in error, stays so when more bytes arrive behind it.\<close>

lemma unmasked_append:
  "key_bytes b1 + n \<le> length bs \<Longrightarrow> unmasked b1 n (bs @ extra) = unmasked b1 n bs"
  by (auto simp: unmasked_def key_bytes_def)

lemma parse_spec_append:
  assumes "parse_spec b0 b1 bs \<noteq> FrameIncomplete"
  shows "parse_spec b0 b1 (bs @ extra) =
    (case parse_spec b0 b1 bs of FrameOK f e d \<Rightarrow> FrameOK f e (d @ extra) | r \<Rightarrow> r)"
proof -
  let ?k = "length_bytes b1"
  have k: "?k \<le> length bs" using assms by (auto simp: parse_spec_def Let_def split: if_splits)
  then have t: "take ?k (bs @ extra) = take ?k bs" "drop ?k (bs @ extra) = drop ?k bs @ extra" by simp_all
  show ?thesis
    using assms k unmasked_append [of b1 "unat (length_value b1 (take ?k bs))" "drop ?k bs" extra]
    unfolding parse_spec_def Let_def t
    by (auto simp: not_less split: if_splits)
qed

lemma parseFrame_append:
  assumes "parseFrame data = Some r" "r \<noteq> FrameIncomplete"
  shows "parseFrame (data @ extra) =
    Some (case r of FrameOK f e d \<Rightarrow> FrameOK f e (d @ extra) | r \<Rightarrow> r)"
proof -
  obtain b0 b1 bs where "data = b0 # b1 # bs"
    using assms by (cases data; cases "tl data") (auto simp: parseFrame_def)
  with assms parse_spec_append [of b0 b1 bs extra] show ?thesis by (simp add: parseFrame_eq)
qed

text \<open>What a server sends: frames without a key. They form a byte codec.\<close>

definition server_frame :: "ws_frame \<Rightarrow> bool" where
  "server_frame f \<longleftrightarrow> frame_ok f \<and> \<not> fr_masked f"

definition frame_bytes :: "ws_frame \<Rightarrow> byte list" where
  "frame_bytes f = (case makeFrameData f [0, 0, 0, 0] of Some bytes \<Rightarrow> bytes | None \<Rightarrow> [])"

definition take_frame :: "byte list \<Rightarrow> (ws_frame \<times> byte list) option" where
  "take_frame data =
     (case parseFrame data of Some (FrameOK f e d) \<Rightarrow> Some (f, drop e d) | _ \<Rightarrow> None)"

lemma parse_frame_bytes:
  assumes "server_frame f"
  shows "parseFrame (frame_bytes f @ rest) = Some (FrameOK f (length (frame_bytes f)) (frame_bytes f @ rest))"
  using assms parse_makeFrameData [of f "[0, 0, 0, 0]" "frame_bytes f" rest] makeFrameData_eq [of "[0, 0, 0, 0]" f]
  by (auto simp: server_frame_def frame_bytes_def)

interpretation ws_frames: byte_codec frame_bytes take_frame server_frame
  by unfold_locales (simp add: take_frame_def parse_frame_bytes)

end
