(* ===== verification/WebSocketExtension.thy ===== *)
theory WebSocketExtension
  imports WTFString UTF8
begin

text \<open>
  The extensions of a WebSocket handshake (\<open>WebSocketExtensionDispatcher.cpp\<close>,
  \<open>WebSocketDeflateFramer.cpp\<close>). The parser is the rest of its input; the dispatcher keeps the
  processors, of which the one that the program has is \<open>WebSocketExtensionDeflateFrame\<close>.
  Strings are UTF-16; None is the null String. zlib and the order of a hash table are arguments.
\<close>

section \<open>Strings\<close>

text \<open>
  \<open>String(p, n)\<close> of bytes; \<open>String::fromUTF8(v.data(), v.size())\<close> of a Vector: an empty Vector that was
  never filled has no buffer, so that the result is null and not empty.
\<close>

definition String_latin1 :: "byte list \<Rightarrow> wtf_string" where
  "String_latin1 bs = map ucast bs"

definition Vector_fromUTF8 :: "byte list \<Rightarrow> wtf_string option" where
  "Vector_fromUTF8 bs = (if bs = [] then None else String_fromUTF8 bs)"

definition chars :: "string \<Rightarrow> byte list" where
  "chars s = map of_char s"

section \<open>The parser\<close>

definition isSeparator :: "byte \<Rightarrow> bool" where
  "isSeparator c \<longleftrightarrow> c \<in> set (chars ''()<>@,;:'') \<or> c \<in> {0x5C, 0x22, 0x2F, 0x5B, 0x5D, 0x3F, 0x3D, 0x7B, 0x7D, 0x20, 0x09}"

definition isASCIIPrintable :: "byte \<Rightarrow> bool" where
  "isASCIIPrintable c \<longleftrightarrow> 0x20 \<le> c \<and> c \<le> 0x7E"

definition skipSpaces :: "byte list \<Rightarrow> byte list" where
  "skipSpaces p = dropWhile (\<lambda>c. c = 0x20 \<or> c = 0x09) p"

definition token_byte :: "byte \<Rightarrow> bool" where
  "token_byte c \<longleftrightarrow> isASCIIPrintable c \<and> \<not> isSeparator c"

text \<open>A result is the token, None where the source returns false, and the place it stops at.\<close>

definition consumeToken :: "byte list \<Rightarrow> wtf_string option \<times> byte list" where
  "consumeToken p =
     (let start = skipSpaces p; token = takeWhile token_byte start
      in (if token = [] then None else Some (String_latin1 token), dropWhile token_byte start))"

fun quoted_bytes :: "byte list \<Rightarrow> byte list \<Rightarrow> (byte list \<times> byte list) option" where
  \<comment> \<open>the loop of \<open>consumeQuotedString\<close>: the bytes and what follows the closing quote; None at the end\<close>
  "quoted_bytes buffer [] = None"
| "quoted_bytes buffer (c # rest) =
     (if c = 0x22 then Some (buffer, rest)
      else if c = 0x5C then (case rest of [] \<Rightarrow> None | d # rest' \<Rightarrow> quoted_bytes (buffer @ [d]) rest')
      else quoted_bytes (buffer @ [c]) rest)"

definition consumeQuotedString :: "byte list \<Rightarrow> wtf_string option option \<times> byte list" where
  "consumeQuotedString p =
     (case skipSpaces p of
        c # rest \<Rightarrow>
          if c = 0x22 then
            (case quoted_bytes [] rest of None \<Rightarrow> (None, [])
             | Some (buffer, rest') \<Rightarrow> (Some (Vector_fromUTF8 buffer), rest'))
          else (None, c # rest)
      | [] \<Rightarrow> (None, []))"

definition consumeQuotedStringOrToken :: "byte list \<Rightarrow> wtf_string option option \<times> byte list" where
  "consumeQuotedStringOrToken p =
     (case consumeQuotedString p of
        (Some s, p1) \<Rightarrow> (Some s, p1)
      | (None, p1) \<Rightarrow> (case consumeToken p1 of (Some t, p2) \<Rightarrow> (Some (Some t), p2) | (None, p2) \<Rightarrow> (None, p2)))"

definition consumeCharacter :: "byte \<Rightarrow> byte list \<Rightarrow> bool \<times> byte list" where
  "consumeCharacter c p =
     (case skipSpaces p of d # rest \<Rightarrow> if d = c then (True, rest) else (False, d # rest) | [] \<Rightarrow> (False, []))"

lemma consumeToken_shorter:
  "length (snd (consumeToken p)) \<le> length p" "fst (consumeToken p) \<noteq> None \<Longrightarrow> length (snd (consumeToken p)) < length p"
proof -
  define s where "s = skipSpaces p"
  have s: "length s \<le> length p" by (simp add: s_def skipSpaces_def length_dropWhile_le)
  then show "length (snd (consumeToken p)) \<le> length p"
    using length_dropWhile_le [of token_byte s] by (simp add: consumeToken_def Let_def s_def)
  assume "fst (consumeToken p) \<noteq> None"
  then have "takeWhile token_byte s \<noteq> []" by (auto simp: consumeToken_def Let_def s_def)
  then have "0 < length (takeWhile token_byte s)" by simp
  moreover have "length (takeWhile token_byte s) + length (dropWhile token_byte s) = length s"
    by (metis length_append takeWhile_dropWhile_id)
  ultimately have "length (dropWhile token_byte s) < length p" using s by linarith
  then show "length (snd (consumeToken p)) < length p" by (simp add: consumeToken_def Let_def s_def)
qed

lemma skipSpaces_shorter: "length (skipSpaces p) \<le> length p"
  by (simp add: skipSpaces_def length_dropWhile_le)

lemma consumeCharacter_shorter: "length (snd (consumeCharacter c p)) \<le> length p"
  "fst (consumeCharacter c p) \<Longrightarrow> length (snd (consumeCharacter c p)) < length p"
  using skipSpaces_shorter [of p] by (auto simp: consumeCharacter_def split: list.splits)

lemma quoted_bytes_shorter: "quoted_bytes buffer p = Some (b, rest) \<Longrightarrow> length rest < length p"
  by (induction buffer p rule: quoted_bytes.induct) (auto split: if_splits list.splits)

lemma consumeQuotedStringOrToken_shorter: "length (snd (consumeQuotedStringOrToken p)) \<le> length p"
proof -
  have q: "length (snd (consumeQuotedString p)) \<le> length p"
    using skipSpaces_shorter [of p]
    by (auto simp: consumeQuotedString_def split: list.splits option.splits dest!: quoted_bytes_shorter)
  then show ?thesis
    using consumeToken_shorter(1) [of "snd (consumeQuotedString p)"]
    by (auto simp: consumeQuotedStringOrToken_def split: prod.splits option.splits)
qed

section \<open>The processor\<close>

text \<open>
  \<open>framer\<close> is \<open>WebSocketDeflateFramer\<close>: the window and \<open>TakeOverContext\<close> once \<open>enableDeflate\<close> has
  succeeded. \<open>white\<close> is as in \<open>isSpaceOrNewline\<close>.
\<close>

record deflate_ext =
  m_responseProcessed :: bool
  ext_failureReason :: wtf_string

record dispatcher =
  m_processors :: "deflate_ext list"
  m_acceptedExtensions :: wtf_string
  disp_failureReason :: wtf_string
  framer :: "(int \<times> bool) option"

record ext_env =
  zlib_ok :: "int \<Rightarrow> bool \<Rightarrow> bool"
  hash_order :: "(wtf_string \<times> wtf_string option) list \<Rightarrow> (wtf_string \<times> wtf_string option) list"
  wide_space :: "uchar \<Rightarrow> bool"

definition extensionToken :: wtf_string where
  "extensionToken = of_latin1 ''x-webkit-deflate-frame''"

definition WebSocketExtensionDeflateFrame_new :: deflate_ext where
  "WebSocketExtensionDeflateFrame_new = \<lparr>m_responseProcessed = False, ext_failureReason = []\<rparr>"

definition dispatcher_new :: dispatcher where
  "dispatcher_new = \<lparr>m_processors = [], m_acceptedExtensions = [], disp_failureReason = [], framer = None\<rparr>"

definition dispatcher_reset :: "dispatcher \<Rightarrow> dispatcher" where
  "dispatcher_reset d = d\<lparr>m_processors := []\<rparr>"

definition addProcessor :: "deflate_ext \<Rightarrow> dispatcher \<Rightarrow> dispatcher" where
  \<comment> \<open>every processor has the same token, so a second one is refused\<close>
  "addProcessor p d = (if m_processors d = [] then d\<lparr>m_processors := [p]\<rparr> else d)"

definition createHeaderValue :: "dispatcher \<Rightarrow> string" where
  "createHeaderValue d =
     (case m_processors d of [] \<Rightarrow> []
      | p # ps \<Rightarrow> ''x-webkit-deflate-frame'' @ concat (map (\<lambda>q. '', x-webkit-deflate-frame'') ps))"

text \<open>\<open>String::toInt\<close> with 0 for what is no number: characters beyond ASCII count as white space or as none.\<close>

definition narrow :: "(uchar \<Rightarrow> bool) \<Rightarrow> uchar \<Rightarrow> char" where
  "narrow white c = (if uint c < 128 then char_of (uint c) else if white c then CHR '' '' else CHR 0xFF)"

definition toInt_or_0 :: "(uchar \<Rightarrow> bool) \<Rightarrow> wtf_string option \<Rightarrow> int" where
  "toInt_or_0 white s =
     (case s of None \<Rightarrow> 0 | Some t \<Rightarrow> (case toInt (map (narrow white) t) of None \<Rightarrow> 0 | Some v \<Rightarrow> v))"

definition enableDeflate :: "ext_env \<Rightarrow> int \<Rightarrow> bool \<Rightarrow> dispatcher \<Rightarrow> dispatcher" where
  "enableDeflate e windowBits takeOver d =
     (if zlib_ok e windowBits takeOver then d\<lparr>framer := Some (windowBits, takeOver)\<rparr> else d)"

type_synonym parameters = "(wtf_string \<times> wtf_string option) list"

definition processResponse :: "ext_env \<Rightarrow> parameters \<Rightarrow> deflate_ext \<Rightarrow> dispatcher \<Rightarrow> bool \<times> deflate_ext \<times> dispatcher" where
  "processResponse e serverParameters p d =
     (if m_responseProcessed p then
        (False, p\<lparr>ext_failureReason := of_latin1 ''Received duplicate deflate-frame response''\<rparr>, d)
      else
        let p1 = p\<lparr>m_responseProcessed := True\<rparr>;
            bits = map_of serverParameters (of_latin1 ''max_window_bits'');
            windowBits = (case bits of None \<Rightarrow> 15 | Some v \<Rightarrow> toInt_or_0 (wide_space e) v);
            context = map_of serverParameters (of_latin1 ''no_context_takeover'');
            expected = (if bits = None then 0 else 1) + (if context = None then 0 else 1)
        in if bits \<noteq> None \<and> (windowBits < 8 \<or> 15 < windowBits) then
             (False, p1\<lparr>ext_failureReason := of_latin1 ''Received invalid max_window_bits parameter''\<rparr>, d)
           else if context \<noteq> None \<and> context \<noteq> Some None then
             (False, p1\<lparr>ext_failureReason := of_latin1 ''Received invalid no_context_takeover parameter''\<rparr>, d)
           else if expected \<noteq> length serverParameters then
             (False, p1\<lparr>ext_failureReason := of_latin1 ''Received unexpected deflate-frame parameter''\<rparr>, d)
           else (True, p1, enableDeflate e windowBits (context = None) d))"

section \<open>The dispatcher\<close>

definition appendAcceptedExtension :: "ext_env \<Rightarrow> wtf_string \<Rightarrow> parameters \<Rightarrow> dispatcher \<Rightarrow> dispatcher" where
  "appendAcceptedExtension e token params d =
     d\<lparr>m_acceptedExtensions := m_acceptedExtensions d
         @ (if m_acceptedExtensions d = [] then [] else of_latin1 '', '') @ token
         @ concat (map (\<lambda>(n, v). of_latin1 ''; '' @ n @ (case v of None \<Rightarrow> [] | Some s \<Rightarrow> of_latin1 ''='' @ s))
                     (hash_order e params))\<rparr>"

definition disp_fail :: "wtf_string \<Rightarrow> dispatcher \<Rightarrow> dispatcher" where
  "disp_fail reason d = d\<lparr>disp_failureReason := reason, m_acceptedExtensions := []\<rparr>"

definition invalid_header :: wtf_string where
  "invalid_header = of_latin1 ''Sec-WebSocket-Extensions header is invalid''"

text \<open>The parameters after a token; the first value of a name stays. None is the invalid header.\<close>

definition add_parameter :: "wtf_string \<Rightarrow> wtf_string option \<Rightarrow> parameters \<Rightarrow> parameters" where
  "add_parameter n v ps = (if n \<in> set (map fst ps) then ps else ps @ [(n, v)])"

lemma shorter_steps:
  "consumeCharacter c p = (b, p1) \<Longrightarrow> length p1 \<le> length p \<and> (b \<longrightarrow> length p1 < length p)"
  "consumeToken p = (t, p2) \<Longrightarrow> length p2 \<le> length p \<and> (t \<noteq> None \<longrightarrow> length p2 < length p)"
  "consumeQuotedStringOrToken p = (v, p3) \<Longrightarrow> length p3 \<le> length p"
  using consumeCharacter_shorter [of c p] consumeToken_shorter [of p] consumeQuotedStringOrToken_shorter [of p] by auto

lemmas shorter_sym = shorter_steps [OF sym]

function parse_parameters :: "parameters \<Rightarrow> byte list \<Rightarrow> (parameters \<times> byte list) option" where
  "parse_parameters ps p =
     (case consumeCharacter 0x3B p of
        (False, p1) \<Rightarrow> Some (ps, p1)
      | (True, p1) \<Rightarrow>
          (case consumeToken p1 of
             (None, p2) \<Rightarrow> None
           | (Some name, p2) \<Rightarrow>
               (case consumeCharacter 0x3D p2 of
                  (False, p3) \<Rightarrow> parse_parameters (add_parameter name None ps) p3
                | (True, p3) \<Rightarrow>
                    (case consumeQuotedStringOrToken p3 of
                       (None, p4) \<Rightarrow> None
                     | (Some v, p4) \<Rightarrow> parse_parameters (add_parameter name v ps) p4))))"
  by pat_completeness auto

termination
proof (relation "measure (\<lambda>(ps, p). length p)")
qed (auto dest!: shorter_sym)

declare parse_parameters.simps [simp del]

fun try_processors :: "ext_env \<Rightarrow> wtf_string \<Rightarrow> parameters \<Rightarrow> deflate_ext list \<Rightarrow> deflate_ext list \<Rightarrow> dispatcher \<Rightarrow>
    bool \<times> dispatcher" where
  \<comment> \<open>the loop over the processors, \<open>tried\<close> those before\<close>
  "try_processors e token params tried [] d = (False, disp_fail (of_latin1 ''Received unexpected extension: '' @ token) d)"
| "try_processors e token params tried (p # ps) d =
     (if token = extensionToken then
        (case processResponse e params p d of (accepted, p1, d1) \<Rightarrow>
           let d2 = d1\<lparr>m_processors := tried @ p1 # ps\<rparr>
           in if accepted then (True, appendAcceptedExtension e token params d2)
              else (False, disp_fail (ext_failureReason p1) d2))
      else try_processors e token params (tried @ [p]) ps d)"

lemma parse_parameters_shorter: "parse_parameters ps p = Some (qs, rest) \<Longrightarrow> length rest \<le> length p"
proof (induction ps p rule: parse_parameters.induct)
  case (1 ps p)
  obtain b p1 where c: "consumeCharacter 0x3B p = (b, p1)" by fastforce
  show ?case
  proof (cases b)
    case False
    then show ?thesis using c "1.prems" shorter_steps(1) [OF c] by (simp add: parse_parameters.simps [of ps p])
  next
    case True
    obtain t p2 where t: "consumeToken p1 = (t, p2)" by fastforce
    have "t \<noteq> None" using "1.prems" c t True by (cases t) (simp_all add: parse_parameters.simps [of ps p])
    then obtain name where name: "t = Some name" by blast
    obtain e p3 where e: "consumeCharacter 0x3D p2 = (e, p3)" by fastforce
    obtain v p4 where v: "consumeQuotedStringOrToken p3 = (v, p4)" by fastforce
    have le: "length p3 \<le> length p" "length p4 \<le> length p"
      using shorter_steps(1) [OF c] shorter_steps(2) [OF t] shorter_steps(1) [OF e] shorter_steps(3) [OF v] by simp_all
    show ?thesis
    proof (cases e)
      case False
      then have "parse_parameters (add_parameter name None ps) p3 = Some (qs, rest)"
        using "1.prems" c t e name True by (simp add: parse_parameters.simps [of ps p])
      from "1.IH"(2) [OF c [symmetric] eqTrueI [OF True] t [symmetric] name e [symmetric] _ this] False le show ?thesis by simp
    next
      case e_True: True
      have "v \<noteq> None" using "1.prems" c t e v name True e_True by (cases v) (simp_all add: parse_parameters.simps [of ps p])
      then obtain w where w: "v = Some w" by blast
      then have "parse_parameters (add_parameter name w ps) p4 = Some (qs, rest)"
        using "1.prems" c t e v name True e_True by (simp add: parse_parameters.simps [of ps p])
      from "1.IH"(1) [OF c [symmetric] eqTrueI [OF True] t [symmetric] name e [symmetric] eqTrueI [OF e_True] v [symmetric] w this] le show ?thesis
        by simp
    qed
  qed
qed

function processHeader :: "ext_env \<Rightarrow> byte list \<Rightarrow> dispatcher \<Rightarrow> bool \<times> dispatcher" where
  \<comment> \<open>the outer loop; the parser never stands beyond its end\<close>
  "processHeader e p d =
     (if p = [] then (True, d)
      else
        case consumeToken p of
          (None, p1) \<Rightarrow> (False, disp_fail invalid_header d)
        | (Some token, p1) \<Rightarrow>
            (case parse_parameters [] p1 of
               None \<Rightarrow> (False, disp_fail invalid_header d)
             | Some (params, p2) \<Rightarrow>
                 (case (if p2 = [] then (True, []) else consumeCharacter 0x2C p2) of
                    (False, p3) \<Rightarrow> (False, disp_fail invalid_header d)
                  | (True, p3) \<Rightarrow>
                      (case try_processors e token params [] (m_processors d) d of
                         (True, d1) \<Rightarrow> processHeader e p3 d1
                       | (False, d1) \<Rightarrow> (False, d1)))))"
  by pat_completeness auto
termination
  by (relation "measure (\<lambda>(e, p, d). length p)")
     (auto split: if_splits dest!: shorter_sym parse_parameters_shorter)

declare processHeader.simps [simp del]

definition processHeaderValue :: "ext_env \<Rightarrow> wtf_string \<Rightarrow> dispatcher \<Rightarrow> bool \<times> dispatcher" where
  "processHeaderValue e headerValue d =
     (if headerValue = [] then (True, d)
      else if m_processors d = [] then
        (False, disp_fail (of_latin1 ''Received unexpected Sec-WebSocket-Extensions header'') d)
      else processHeader e (case String_utf8 False headerValue of None \<Rightarrow> [] | Some bs \<Rightarrow> bs) d)"

definition acceptedExtensions :: "dispatcher \<Rightarrow> wtf_string option" where
  "acceptedExtensions d = (if m_acceptedExtensions d = [] then None else Some (m_acceptedExtensions d))"

section \<open>What is accepted\<close>

text \<open>The window that zlib gets is between 8 and 15, and enabled only if the extension was offered.\<close>

definition window_ok :: "dispatcher \<Rightarrow> bool" where
  "window_ok d \<longleftrightarrow> (case framer d of None \<Rightarrow> True | Some (w, t) \<Rightarrow> 8 \<le> w \<and> w \<le> 15)"

lemma window_processResponse: "processResponse e params p d = (b, p1, d1) \<Longrightarrow> window_ok d \<Longrightarrow> window_ok d1"
  by (auto simp: processResponse_def enableDeflate_def window_ok_def Let_def split: if_splits option.splits)

lemma window_simps [simp]:
  "window_ok (appendAcceptedExtension e token params d) = window_ok d" "window_ok (disp_fail r d) = window_ok d"
  "window_ok (d\<lparr>m_processors := ps\<rparr>) = window_ok d"
  by (simp_all add: window_ok_def appendAcceptedExtension_def disp_fail_def)

lemma window_try: "try_processors e token params tried ps d = (b, d1) \<Longrightarrow> window_ok d \<Longrightarrow> window_ok d1"
proof (induction e token params tried ps d rule: try_processors.induct)
  case (2 e token params tried p ps d)
  then show ?case
    by (auto simp: Let_def split: if_splits prod.splits dest!: window_processResponse)
qed auto

lemma window_processHeader: "processHeader e p d = (b, d1) \<Longrightarrow> window_ok d \<Longrightarrow> window_ok d1"
proof (induction e p d arbitrary: b d1 rule: processHeader.induct)
  case (1 e p d)
  show ?case
  proof (cases "p = []")
    case True
    then show ?thesis using "1.prems" by (simp add: processHeader.simps)
  next
    case False
    obtain t p1 where t: "consumeToken p = (t, p1)" by fastforce
    consider "d1 = disp_fail invalid_header d" | token params p2 p3 b2 d2 where "t = Some token"
      "parse_parameters [] p1 = Some (params, p2)" "(if p2 = [] then (True, []) else consumeCharacter 0x2C p2) = (True, p3)"
      "try_processors e token params [] (m_processors d) d = (b2, d2)" "(b, d1) = (if b2 then processHeader e p3 d2 else (b2, d2))"
      using "1.prems"(1) False t
      by (auto simp: processHeader.simps [of e p d] split: option.splits prod.splits bool.splits)
    then show ?thesis
    proof cases
      case 2
      have "window_ok d2" using window_try [OF 2(4) "1.prems"(2)] .
      then show ?thesis
        using "1.IH" [OF False t [symmetric] 2(1) 2(2) refl 2(3) [symmetric] refl 2(4) [symmetric]] 2(5)
        by (cases b2) (simp_all add: eq_commute [of "(b, d1)"])
    qed (use "1.prems"(2) in simp)
  qed
qed

lemma extension_window: "processHeaderValue e v d = (b, d1) \<Longrightarrow> window_ok d \<Longrightarrow> window_ok d1"
  by (auto simp: processHeaderValue_def split: if_splits dest!: window_processHeader)

lemma extension_not_offered: "m_processors d = [] \<Longrightarrow> v \<noteq> [] \<Longrightarrow> fst (processHeaderValue e v d) = False"
  by (simp add: processHeaderValue_def)

end
