(* ===== verification/Base64.thy ===== *)
theory Base64
  imports Prelude
begin

text \<open>
  Base64 (\<open>platform/text/Base64.cpp\<close>), which the opening handshake of WebSockets, basic authentication
  and data URLs use. The output buffer has the size the source computes beforehand and is written by
  index, so that None, a write or read outside it, is a possible value; the decoder converts in place.
\<close>

section \<open>The tables\<close>

definition base64EncMap :: "byte list" where
  "base64EncMap =
    [0x41, 0x42, 0x43, 0x44, 0x45, 0x46, 0x47, 0x48, 0x49, 0x4A, 0x4B, 0x4C, 0x4D, 0x4E, 0x4F, 0x50,
     0x51, 0x52, 0x53, 0x54, 0x55, 0x56, 0x57, 0x58, 0x59, 0x5A, 0x61, 0x62, 0x63, 0x64, 0x65, 0x66,
     0x67, 0x68, 0x69, 0x6A, 0x6B, 0x6C, 0x6D, 0x6E, 0x6F, 0x70, 0x71, 0x72, 0x73, 0x74, 0x75, 0x76,
     0x77, 0x78, 0x79, 0x7A, 0x30, 0x31, 0x32, 0x33, 0x34, 0x35, 0x36, 0x37, 0x38, 0x39, 0x2B, 0x2F]"

definition base64DecMap :: "byte list" where
  "base64DecMap =
    [0x00, 0x00, 0x00, 0x00, 0x00, 0x00, 0x00, 0x00, 0x00, 0x00, 0x00, 0x00, 0x00, 0x00, 0x00, 0x00,
     0x00, 0x00, 0x00, 0x00, 0x00, 0x00, 0x00, 0x00, 0x00, 0x00, 0x00, 0x00, 0x00, 0x00, 0x00, 0x00,
     0x00, 0x00, 0x00, 0x00, 0x00, 0x00, 0x00, 0x00, 0x00, 0x00, 0x00, 0x3E, 0x00, 0x00, 0x00, 0x3F,
     0x34, 0x35, 0x36, 0x37, 0x38, 0x39, 0x3A, 0x3B, 0x3C, 0x3D, 0x00, 0x00, 0x00, 0x00, 0x00, 0x00,
     0x00, 0x00, 0x01, 0x02, 0x03, 0x04, 0x05, 0x06, 0x07, 0x08, 0x09, 0x0A, 0x0B, 0x0C, 0x0D, 0x0E,
     0x0F, 0x10, 0x11, 0x12, 0x13, 0x14, 0x15, 0x16, 0x17, 0x18, 0x19, 0x00, 0x00, 0x00, 0x00, 0x00,
     0x00, 0x1A, 0x1B, 0x1C, 0x1D, 0x1E, 0x1F, 0x20, 0x21, 0x22, 0x23, 0x24, 0x25, 0x26, 0x27, 0x28,
     0x29, 0x2A, 0x2B, 0x2C, 0x2D, 0x2E, 0x2F, 0x30, 0x31, 0x32, 0x33, 0x00, 0x00, 0x00, 0x00, 0x00]"

section \<open>Encoding\<close>

text \<open>
  The buffer \<open>out\<close> of \<open>cap\<close> characters is what has been written of it, with \<open>didx\<close> its length.
  A character of the input is signed on some targets; the masks take the same bits either way.
\<close>

definition put_chars :: "nat \<Rightarrow> byte list \<Rightarrow> byte list \<Rightarrow> byte list option" where
  "put_chars cap out cs = (if length out + length cs \<le> cap then Some (out @ cs) else None)"

definition enc_char64 :: "byte \<Rightarrow> byte" where
  "enc_char64 v = base64EncMap ! unat v"

definition line_feed :: "bool \<Rightarrow> nat \<Rightarrow> byte list" where
  "line_feed insertLFs count = (if insertLFs \<and> 0 < count \<and> count mod 76 = 0 then [0x0A] else [])"

fun encode_loop :: "nat \<Rightarrow> bool \<Rightarrow> nat \<Rightarrow> byte list \<Rightarrow> byte list \<Rightarrow> byte list option" where
  "encode_loop cap insertLFs count (a # b # c # rest) out =
     Option.bind (put_chars cap out (line_feed insertLFs count @
       [enc_char64 (drop_bit 2 a AND 0x3F), enc_char64 ((drop_bit 4 b AND 0x0F) OR (push_bit 4 a AND 0x3F)),
        enc_char64 ((drop_bit 6 c AND 0x03) OR (push_bit 2 b AND 0x3F)), enc_char64 (c AND 0x3F)]))
       (encode_loop cap insertLFs (if insertLFs then count + 4 else count) rest)"
| "encode_loop cap insertLFs count [a, b] out =
     put_chars cap out (line_feed insertLFs count @
       [enc_char64 (drop_bit 2 a AND 0x3F), enc_char64 ((drop_bit 4 b AND 0x0F) OR (push_bit 4 a AND 0x3F)),
        enc_char64 (push_bit 2 b AND 0x3F)])"
| "encode_loop cap insertLFs count [a] out =
     put_chars cap out (line_feed insertLFs count @ [enc_char64 (drop_bit 2 a AND 0x3F), enc_char64 (push_bit 4 a AND 0x3F)])"
| "encode_loop cap insertLFs count [] out = Some out"

definition maxInputBufferSize :: nat where
  "maxInputBufferSize = 4294967295 div 77 * 76 div 4 * 3 - 2"

definition outLength :: "nat \<Rightarrow> bool \<Rightarrow> nat" where
  "outLength len insertLFs =
     (let n = (len + 2) div 3 * 4 in if insertLFs \<and> 76 < n then n + (n - 1) div 76 else n)"

definition base64Encode :: "bool \<Rightarrow> byte list \<Rightarrow> byte list option" where
  "base64Encode insertLFs data =
     (if data = [] \<or> maxInputBufferSize < length data then Some []
      else
        let cap = outLength (length data) insertLFs;
            lfs = insertLFs \<and> 76 < (length data + 2) div 3 * 4
        in map_option (\<lambda>out. out @ replicate (cap - length out) 0x3D) (encode_loop cap lfs 0 data []))"

section \<open>Decoding\<close>

datatype Base64DecodePolicy = FailOnInvalidCharacter | IgnoreWhitespace | IgnoreInvalidCharacters

definition is_base64_char :: "nat \<Rightarrow> bool" where
  "is_base64_char ch \<longleftrightarrow>
     48 \<le> ch \<and> ch \<le> 57 \<or> 65 \<le> ch \<and> ch \<le> 90 \<or> 97 \<le> ch \<and> ch \<le> 122 \<or> ch = 43 \<or> ch = 47"

text \<open>
  \<open>white\<close> is \<open>direction(c) == WhiteSpaceNeutral\<close> of the Unicode tables, which ports bring along; the
  argument, \<open>unsigned\<close> in the decoder, is cut to a \<open>UChar\<close>.
\<close>

definition isSpaceOrNewline :: "(nat \<Rightarrow> bool) \<Rightarrow> nat \<Rightarrow> bool" where
  "isSpaceOrNewline white ch =
     (let c = ch mod 65536 in if c \<le> 0x7F then c = 32 \<or> 9 \<le> c \<and> c \<le> 13 else white c)"

text \<open>The first pass; None is \<open>return false\<close>, otherwise the six-bit values and \<open>sawEqualsSign\<close>.\<close>

fun decode_values :: "(nat \<Rightarrow> bool) \<Rightarrow> Base64DecodePolicy \<Rightarrow> bool \<Rightarrow> nat list \<Rightarrow> (byte list \<times> bool) option" where
  "decode_values white policy saw [] = Some ([], saw)"
| "decode_values white policy saw (ch # rest) =
     (if ch = 61 then decode_values white policy True rest
      else if is_base64_char ch then
        (if saw then None
         else map_option (\<lambda>(vs, s). (base64DecMap ! ch # vs, s)) (decode_values white policy saw rest))
      else if policy = FailOnInvalidCharacter \<or> policy = IgnoreWhitespace \<and> \<not> isSpaceOrNewline white ch then None
      else decode_values white policy saw rest)"

text \<open>The conversion in place: \<open>out\<close> is the buffer, which holds the values at the start.\<close>

definition byte0 :: "byte \<Rightarrow> byte \<Rightarrow> byte" where
  "byte0 v w = push_bit 2 v OR (drop_bit 4 w AND 0x03)"
definition byte1 :: "byte \<Rightarrow> byte \<Rightarrow> byte" where
  "byte1 v w = push_bit 4 v OR (drop_bit 2 w AND 0x0F)"
definition byte2 :: "byte \<Rightarrow> byte \<Rightarrow> byte" where
  "byte2 v w = push_bit 6 v OR (w AND 0x3F)"

function decode_loop :: "nat \<Rightarrow> nat \<Rightarrow> nat \<Rightarrow> byte list \<Rightarrow> (nat \<times> nat \<times> byte list) option" where
  "decode_loop n sidx didx out =
     (if 1 < n \<and> didx < n - 2 then
        (if length out \<le> sidx + 3 \<or> length out \<le> didx + 2 then None
         else
           let out1 = out[didx := byte0 (out ! sidx) (out ! (sidx + 1))];
               out2 = out1[didx + 1 := byte1 (out1 ! (sidx + 1)) (out1 ! (sidx + 2))];
               out3 = out2[didx + 2 := byte2 (out2 ! (sidx + 2)) (out2 ! (sidx + 3))]
           in decode_loop n (sidx + 4) (didx + 3) out3)
      else Some (sidx, didx, out))"
  by pat_completeness auto
termination
  by (relation "measure (\<lambda>(n, sidx, didx, out). n - didx)") auto

declare decode_loop.simps [simp del]

definition decode_tail :: "nat \<Rightarrow> nat \<Rightarrow> nat \<Rightarrow> byte list \<Rightarrow> byte list option" where
  "decode_tail n sidx didx out =
     Option.bind
       (if didx < n then
          (if length out \<le> sidx + 1 \<or> length out \<le> didx then None
           else Some (out[didx := byte0 (out ! sidx) (out ! (sidx + 1))]))
        else Some out)
       (\<lambda>out1.
         if didx + 1 < n then
           (if length out1 \<le> sidx + 2 \<or> length out1 \<le> didx + 1 then None
            else Some (out1[didx + 1 := byte1 (out1 ! (sidx + 1)) (out1 ! (sidx + 2))]))
         else Some out1)"

text \<open>\<open>Some None\<close> is \<open>false\<close>, \<open>Some (Some bytes)\<close> is \<open>true\<close> with the output; None reads outside.\<close>

definition base64Decode :: "(nat \<Rightarrow> bool) \<Rightarrow> Base64DecodePolicy \<Rightarrow> nat list \<Rightarrow> byte list option option" where
  "base64Decode white policy data =
     (if data = [] then Some (Some [])
      else
        case decode_values white policy False data of
          None \<Rightarrow> Some None
        | Some (vs, saw) \<Rightarrow>
            let outLen = length vs in
            if outLen = 0 then Some (if saw then None else Some [])
            else if outLen mod 4 = 1 then Some None
            else
              let n = outLen - (outLen + 3) div 4;
                  out = vs @ replicate (length data - outLen) 0
              in if n = 0 then Some None
                 else
                   Option.bind (decode_loop n 0 0 out) (\<lambda>(sidx, didx, out1).
                   map_option (\<lambda>out2. Some (if n < length out2 then take n out2 else out2))
                     (decode_tail n sidx didx out1)))"


section \<open>The tables are inverse\<close>

lemma tables_inverse:
  "list_all (\<lambda>i. let ch = unat (base64EncMap ! i) in is_base64_char ch \<and> ch \<noteq> 61 \<and> ch \<noteq> 10
      \<and> base64DecMap ! ch = of_nat i) [0..<64]"
  by code_simp

lemma enc_char:
  assumes "unat v < 64"
  shows "is_base64_char (unat (enc_char64 v))" "unat (enc_char64 v) \<noteq> 61" "unat (enc_char64 v) \<noteq> 10" "base64DecMap ! unat (enc_char64 v) = v"
  using tables_inverse assms by (auto simp: list_all_iff enc_char64_def Let_def)

lemma six_bits [simp]: "unat ((v :: byte) AND 0x3F) < 64" "unat ((v AND 0x0F) OR (w AND 0x3F)) < 64"
  "unat ((v AND 0x03) OR (w AND 0x3F)) < 64"
proof -
  have m: "v AND 0x3F = take_bit 6 v" "w AND 0x3F = take_bit 6 w" "v AND 0x0F = take_bit 4 v" "v AND 0x03 = take_bit 2 v"
    by (simp_all add: take_bit_eq_mask mask_eq_exp_minus_1)
  have lt: "unat x < 64" if "take_bit 6 x = x" for x :: byte
  proof -
    have "unat (take_bit 6 x) < 2 ^ 6" by (simp only: unsigned_take_bit_eq take_bit_nat_less_exp)
    then show ?thesis unfolding that by simp
  qed
  show "unat (v AND 0x3F) < 64" "unat ((v AND 0x0F) OR (w AND 0x3F)) < 64" "unat ((v AND 0x03) OR (w AND 0x3F)) < 64"
    unfolding m by (rule lt, rule bit_word_eqI, auto simp: bit_simps)+
qed


lemma masks: "(v :: byte) AND 0x3F = take_bit 6 v" "v AND 0x0F = take_bit 4 v" "v AND 0x03 = take_bit 2 v"
  by (simp_all add: take_bit_eq_mask mask_eq_exp_minus_1)

lemma byte_eqI:
  assumes "\<And>n. n \<in> {0, 1, 2, 3, 4, 5, 6, 7} \<Longrightarrow> bit x n = bit y n"
  shows "x = (y :: byte)"
proof (rule bit_word_eqI)
  fix n assume "n < LENGTH(8)"
  then have "n \<in> {0, 1, 2, 3, 4, 5, 6, 7}" by auto
  then show "bit x n = bit y n" by (rule assms)
qed

lemma bytes_back:
  "byte0 (drop_bit 2 a AND 0x3F) ((drop_bit 4 b AND 0x0F) OR (push_bit 4 a AND 0x3F)) = a"
  "byte0 (drop_bit 2 a AND 0x3F) (push_bit 4 a AND 0x3F) = a"
  "byte1 ((drop_bit 4 b AND 0x0F) OR (push_bit 4 a AND 0x3F)) ((drop_bit 6 c AND 0x03) OR (push_bit 2 b AND 0x3F)) = b"
  "byte1 ((drop_bit 4 b AND 0x0F) OR (push_bit 4 a AND 0x3F)) (push_bit 2 b AND 0x3F) = b"
  "byte2 ((drop_bit 6 c AND 0x03) OR (push_bit 2 b AND 0x3F)) (c AND 0x3F) = c"
  unfolding byte0_def byte1_def byte2_def masks
  by (rule byte_eqI; auto simp: bit_simps; simp add: numeral_2_eq_2 numeral_3_eq_3)+

section \<open>The text of the encoder\<close>

fun sextets :: "byte list \<Rightarrow> byte list" where
  "sextets (a # b # c # rest) =
     (drop_bit 2 a AND 0x3F) # ((drop_bit 4 b AND 0x0F) OR (push_bit 4 a AND 0x3F))
     # ((drop_bit 6 c AND 0x03) OR (push_bit 2 b AND 0x3F)) # (c AND 0x3F) # sextets rest"
| "sextets [a, b] = [drop_bit 2 a AND 0x3F, (drop_bit 4 b AND 0x0F) OR (push_bit 4 a AND 0x3F), push_bit 2 b AND 0x3F]"
| "sextets [a] = [drop_bit 2 a AND 0x3F, push_bit 4 a AND 0x3F]"
| "sextets [] = []"

fun base64_text :: "bool \<Rightarrow> nat \<Rightarrow> byte list \<Rightarrow> byte list" where
  \<comment> \<open>what \<open>encode_loop\<close> writes from a group on\<close>
  "base64_text lf count (a # b # c # rest) =
     line_feed lf count @ map enc_char64 (sextets [a, b, c]) @ base64_text lf (if lf then count + 4 else count) rest"
| "base64_text lf count [] = []"
| "base64_text lf count xs = line_feed lf count @ map enc_char64 (sextets xs)"

lemma encode_loop_text:
  "length out + length (base64_text lf count data) \<le> cap \<Longrightarrow>
   encode_loop cap lf count data out = Some (out @ base64_text lf count data)"
  by (induction cap lf count data out rule: encode_loop.induct) (auto simp: put_chars_def)

definition group_count :: "nat \<Rightarrow> nat" where
  "group_count len = (len + 2) div 3"

lemma length_line_feed: "length (line_feed lf (4 * g)) = (if lf \<and> 0 < g \<and> g mod 19 = 0 then 1 else 0)"
proof -
  have "4 * g mod 76 = 4 * (g mod 19)" using mult_mod_right [of 4 g 19] by simp
  then show ?thesis by (simp add: line_feed_def)
qed

fun line_feeds :: "nat \<Rightarrow> nat \<Rightarrow> nat" where
  "line_feeds g 0 = 0"
| "line_feeds g (Suc n) = (if 0 < g \<and> g mod 19 = 0 then 1 else 0) + line_feeds (Suc g) n"

lemma line_feeds_from: "line_feeds (Suc g) n + g div 19 = (g + n) div 19"
proof (induction n arbitrary: g)
  case (Suc n)
  have "Suc g div 19 = (if Suc g mod 19 = 0 then 1 else 0) + g div 19" by (simp add: div_Suc)
  then show ?case using Suc.IH [of "Suc g"] by simp
qed simp

lemma line_feeds_first: "line_feeds 0 n = (n - 1) div 19"
  using line_feeds_from [of 0 "n - 1"] by (cases n) simp_all

definition padding_count :: "nat \<Rightarrow> nat" where
  "padding_count len = 3 * group_count len - len"

text \<open>With the padding, the text has four characters per group and the line feeds.\<close>

lemma length_base64_text:
  assumes "lf \<or> g = 0"
  shows "length (base64_text lf (4 * g) data) + padding_count (length data) =
    4 * group_count (length data) + (if lf then line_feeds g (group_count (length data)) else 0)"
  using assms
proof (induction data arbitrary: g rule: sextets.induct)
  case (1 a b c rest)
  have gr: "group_count (length (a # b # c # rest)) = Suc (group_count (length rest))" by (simp add: group_count_def)
  then have pd: "padding_count (length (a # b # c # rest)) = padding_count (length rest)" by (simp add: padding_count_def)
  show ?case
  proof (cases lf)
    case False
    then show ?thesis using "1.IH" [of 0] "1.prems" unfolding gr pd by (simp add: line_feed_def)
  next
    case True
    have step: "4 * g + 4 = 4 * Suc g" by simp
    show ?thesis
      using "1.IH" [of "Suc g"] True unfolding gr pd
      by (simp only: base64_text.simps if_True step length_append length_line_feed line_feeds.simps) simp
  qed
qed (auto simp: padding_count_def group_count_def length_line_feed)


section \<open>The values the decoder reads\<close>

lemma sextets_small: "v \<in> set (sextets data) \<Longrightarrow> unat v < 64"
  by (induction data rule: sextets.induct) auto

lemma decode_values_enc:
  "\<forall>v \<in> set vs. unat v < 64 \<Longrightarrow>
   decode_values white policy False (map unat (map enc_char64 vs) @ rest) =
   map_option (\<lambda>(ws, s). (vs @ ws, s)) (decode_values white policy False rest)"
proof (induction vs)
  case (Cons v vs)
  then show ?case
    using enc_char [of v]
    by (cases "decode_values white policy False rest") (auto simp: Let_def)
qed (cases "decode_values white policy False rest"; simp)

lemma decode_values_line_feed:
  "lf \<longrightarrow> policy \<noteq> FailOnInvalidCharacter \<Longrightarrow>
   decode_values white policy False (map unat (line_feed lf c) @ rest) = decode_values white policy False rest"
  by (auto simp: line_feed_def is_base64_char_def isSpaceOrNewline_def Let_def)

lemma decode_values_padding: "decode_values white policy saw (replicate k 61) = Some ([], saw \<or> 0 < k)"
  by (induction k arbitrary: saw) simp_all

lemma decode_values_text:
  "lf \<longrightarrow> policy \<noteq> FailOnInvalidCharacter \<Longrightarrow>
   decode_values white policy False (map unat (base64_text lf c data) @ rest) =
   map_option (\<lambda>(ws, s). (sextets data @ ws, s)) (decode_values white policy False rest)"
proof (induction lf c data rule: base64_text.induct)
  case (1 lf c a b d more_data)
  have "decode_values white policy False (map unat (base64_text lf c (a # b # d # more_data)) @ rest) =
    decode_values white policy False (map unat (line_feed lf c) @ map unat (map enc_char64 (sextets [a, b, d]))
      @ map unat (base64_text lf (if lf then c + 4 else c) more_data) @ rest)"
    by (simp del: sextets.simps)
  also have "\<dots> = map_option (\<lambda>(ws, s). (sextets [a, b, d] @ ws, s))
      (decode_values white policy False (map unat (base64_text lf (if lf then c + 4 else c) more_data) @ rest))"
    unfolding decode_values_line_feed [OF "1.prems"] by (rule decode_values_enc) (blast intro: sextets_small)
  also have "\<dots> = map_option (\<lambda>(ws, s). (sextets (a # b # d # more_data) @ ws, s)) (decode_values white policy False rest)"
    unfolding "1.IH" [OF "1.prems"] by (cases "decode_values white policy False rest"; simp split: prod.splits)
  finally show ?case .
next
  case (2 lf c)
  show ?case by (cases "decode_values white policy False rest") simp_all
next
  case "3_1"
  show ?case unfolding base64_text.simps map_append append_assoc decode_values_line_feed [OF "3_1"]
    by (rule decode_values_enc) (blast intro: sextets_small)
next
  case "3_2"
  show ?case unfolding base64_text.simps map_append append_assoc decode_values_line_feed [OF "3_2"]
    by (rule decode_values_enc) (blast intro: sextets_small)
qed

section \<open>The conversion in place\<close>

fun bytes_of_values :: "byte list \<Rightarrow> byte list" where
  "bytes_of_values (v0 # v1 # v2 # v3 # rest) = byte0 v0 v1 # byte1 v1 v2 # byte2 v2 v3 # bytes_of_values rest"
| "bytes_of_values [v0, v1, v2] = [byte0 v0 v1, byte1 v1 v2]"
| "bytes_of_values [v0, v1] = [byte0 v0 v1]"
| "bytes_of_values _ = []"

lemma bytes_of_sextets [simp]: "bytes_of_values (sextets data) = data"
  by (induction data rule: sextets.induct) (simp_all add: bytes_back)

lemma length_bytes_of_values:
  "length vs mod 4 \<noteq> 1 \<Longrightarrow> length (bytes_of_values vs) = length vs - (length vs + 3) div 4"
  by (induction vs rule: bytes_of_values.induct) auto

lemma three_updates:
  "d + 2 < length xs \<Longrightarrow> xs[d := a, d + 1 := b, d + 2 := c] = take d xs @ [a, b, c] @ drop (d + 3) xs"
  by (rule nth_equalityI) (auto simp: nth_append nth_list_update nth_Cons split: nat.splits, rule arg_cong [of _ _ "nth xs"], arith)

lemma drop_four: "k \<le> 4 \<Longrightarrow> drop k (v0 # v1 # v2 # v3 # R) = drop k [v0, v1, v2, v3] @ R"
  using drop_append [of k "[v0, v1, v2, v3]" R] by simp

lemma two_updates:
  "d + 1 < length xs \<Longrightarrow> take (d + 2) (xs[d := a, d + 1 := b]) = take d xs @ [a, b]"
  by (rule nth_equalityI) (auto simp: nth_append nth_list_update nth_Cons split: nat.splits)

lemma one_update: "d < length xs \<Longrightarrow> take (d + 1) (xs[d := a]) = take d xs @ [a]"
  by (simp add: take_Suc_conv_app_nth)

lemma decode_loop_step:
  assumes "didx + 2 < n" "sidx + 3 < length out" "didx \<le> sidx"
  shows "decode_loop n sidx didx out = decode_loop n (sidx + 4) (didx + 3)
    (out[didx := byte0 (out ! sidx) (out ! (sidx + 1)), didx + 1 := byte1 (out ! (sidx + 1)) (out ! (sidx + 2)),
         didx + 2 := byte2 (out ! (sidx + 2)) (out ! (sidx + 3))])"
proof -
  have "1 < n \<and> didx < n - 2" "\<not> (length out \<le> sidx + 3 \<or> length out \<le> didx + 2)" using assms by auto
  then show ?thesis using assms by (subst decode_loop.simps) (simp only: if_True if_False Let_def simp_thms; simp)
qed

lemma decode_loop_stop: "n \<le> didx + 2 \<Longrightarrow> decode_loop n sidx didx out = Some (sidx, didx, out)"
  by (subst decode_loop.simps) auto

lemma values_at:
  "(P @ J @ (v0 # v1 # R)) ! (length P + length J) = v0"
  "(P @ J @ (v0 # v1 # R)) ! (length P + length J + 1) = v1"
  "(P @ J @ (v0 # v1 # v2 # R)) ! (length P + length J + 2) = v2"
  "(P @ J @ (v0 # v1 # v2 # v3 # R)) ! (length P + length J + 3) = v3"
  by (simp_all add: nth_append)

lemma decode_tail_two:
  "sidx + 2 < length out \<Longrightarrow> didx < sidx + 1 \<Longrightarrow> decode_tail (didx + 2) sidx didx out =
   Some (out[didx := byte0 (out ! sidx) (out ! (sidx + 1)), didx + 1 := byte1 (out ! (sidx + 1)) (out ! (sidx + 2))])"
  by (simp add: decode_tail_def)

lemma decode_tail_one:
  "sidx + 1 < length out \<Longrightarrow> didx < sidx + 1 \<Longrightarrow> decode_tail (didx + 1) sidx didx out =
   Some (out[didx := byte0 (out ! sidx) (out ! (sidx + 1))])"
  by (simp add: decode_tail_def)

lemma decode_in_place:
  "length vs mod 4 \<noteq> 1 \<Longrightarrow> n = length P + length (bytes_of_values vs) \<Longrightarrow> sidx = length P + length J \<Longrightarrow>
   didx = length P \<Longrightarrow> out = P @ J @ vs @ Z \<Longrightarrow>
   \<exists>out'. Option.bind (decode_loop n sidx didx out) (\<lambda>(sidx, didx, out1). decode_tail n sidx didx out1) = Some out'
     \<and> take n out' = P @ bytes_of_values vs \<and> length out' = length out"
proof (induction vs arbitrary: P J sidx didx out rule: bytes_of_values.induct)
  case (1 v0 v1 v2 v3 rest)
  define P' where "P' = P @ [byte0 v0 v1, byte1 v1 v2, byte2 v2 v3]"
  define J' where "J' = drop 3 (J @ [v0, v1, v2, v3])"
  have reads: "out ! sidx = v0" "out ! (sidx + 1) = v1" "out ! (sidx + 2) = v2" "out ! (sidx + 3) = v3"
    unfolding "1.prems"(3,5) append_Cons by (rule values_at)+
  have sizes: "didx + 2 < n" "sidx + 3 < length out" "didx \<le> sidx" "didx + 2 < length out"
    unfolding "1.prems"(2-5) by simp_all
  have out3: "out[didx := byte0 v0 v1, didx + 1 := byte1 v1 v2, didx + 2 := byte2 v2 v3] = P' @ J' @ rest @ Z"
    unfolding three_updates [OF sizes(4)] unfolding "1.prems"(4,5) by (simp add: P'_def J'_def drop_four [of _ _ _ _ _ "rest @ Z"])
  have step: "decode_loop n sidx didx out = decode_loop n (sidx + 4) (didx + 3) (P' @ J' @ rest @ Z)"
    unfolding decode_loop_step [OF sizes(1-3)] reads out3 ..
  have m: "length rest mod 4 \<noteq> 1" using "1.prems"(1) by simp
  have lens: "sidx + 4 = length P' + length J'" "didx + 3 = length P'" "n = length P' + length (bytes_of_values rest)"
    "length out = length (P' @ J' @ rest @ Z)" "P @ bytes_of_values (v0 # v1 # v2 # v3 # rest) = P' @ bytes_of_values rest"
    unfolding "1.prems"(2-5) by (simp_all add: P'_def J'_def)
  show ?case unfolding step lens(4,5) by (rule "1.IH" [OF m lens(3,1,2) refl])
next
  case (2 v0 v1 v2)
  have reads: "out ! sidx = v0" "out ! (sidx + 1) = v1" "out ! (sidx + 2) = v2"
    unfolding "2.prems"(3,5) append_Cons by (rule values_at)+
  have sizes: "sidx + 2 < length out" "didx < sidx + 1" "didx + 1 < length out" "n = didx + 2" "n \<le> didx + 2" "take didx out = P"
    unfolding "2.prems"(2-5) by simp_all
  show ?case
    unfolding decode_loop_stop [OF sizes(5)]
    using two_updates [OF sizes(3), of "byte0 v0 v1" "byte1 v1 v2"] sizes(6)
    by (simp only: sizes(4) decode_tail_two [OF sizes(1,2)] reads bind.bind_lunit prod.case bytes_of_values.simps) simp
next
  case (3 v0 v1)
  have reads: "out ! sidx = v0" "out ! (sidx + 1) = v1"
    unfolding "3.prems"(3,5) append_Cons by (rule values_at)+
  have sizes: "sidx + 1 < length out" "didx < sidx + 1" "didx < length out" "n = didx + 1" "n \<le> didx + 2" "take didx out = P"
    unfolding "3.prems"(2-5) by simp_all
  show ?case
    unfolding decode_loop_stop [OF sizes(5)]
    using one_update [OF sizes(3), of "byte0 v0 v1"] sizes(6)
    by (simp only: sizes(4) decode_tail_one [OF sizes(1,2)] reads bind.bind_lunit prod.case bytes_of_values.simps) simp
next
  case "4_1"
  then show ?case by (simp add: decode_loop_stop decode_tail_def)
qed simp

section \<open>A round trip\<close>

lemma outLength_groups:
  "outLength len insertLFs = 4 * group_count len + (if insertLFs \<and> 76 < (len + 2) div 3 * 4 then line_feeds 0 (group_count len) else 0)"
proof -
  have "(4 * g - 1) div 76 = (g - 1) div 19" for g :: nat
  proof -
    have "(4 * g - 1) div 76 = (4 * g - 1) div 4 div 19" by (simp add: div_mult2_eq [symmetric])
    then show ?thesis by (cases g) simp_all
  qed
  from this [of "group_count len"] show ?thesis by (simp add: outLength_def group_count_def line_feeds_first Let_def mult.commute)
qed

text \<open>The length that is computed beforehand is representable, and the text with its padding has exactly this length.\<close>

lemma outLength_bound: "len \<le> maxInputBufferSize \<Longrightarrow> outLength len insertLFs < 2 ^ 32"
  by (simp add: maxInputBufferSize_def outLength_def Let_def) linarith

lemma encode_text:
  assumes "data \<noteq> []" "length data \<le> maxInputBufferSize"
  shows "\<exists>lf. (lf \<longrightarrow> insertLFs) \<and> base64Encode insertLFs data =
      Some (base64_text lf 0 data @ replicate (padding_count (length data)) 0x3D)
    \<and> length (base64_text lf 0 data) + padding_count (length data) = outLength (length data) insertLFs"
proof -
  define lf where "lf \<longleftrightarrow> insertLFs \<and> 76 < (length data + 2) div 3 * 4"
  have len: "length (base64_text lf 0 data) + padding_count (length data) = outLength (length data) insertLFs"
    using length_base64_text [of lf 0 data] unfolding outLength_groups lf_def [symmetric] by simp
  have loop: "encode_loop (outLength (length data) insertLFs) lf 0 data [] = Some (base64_text lf 0 data)"
    using len by (subst encode_loop_text) simp_all
  have pad: "outLength (length data) insertLFs - length (base64_text lf 0 data) = padding_count (length data)" using len by simp
  have cond: "\<not> (data = [] \<or> maxInputBufferSize < length data)" using assms by simp
  have "base64Encode insertLFs data = Some (base64_text lf 0 data @ replicate (padding_count (length data)) 0x3D)"
    unfolding base64Encode_def Let_def lf_def [symmetric] loop by (simp only: cond if_False option.map pad)
  moreover have "lf \<longrightarrow> insertLFs" by (simp add: lf_def)
  ultimately show ?thesis using len by (intro exI [of _ lf] conjI)
qed

lemma length_sextets: "length (sextets data) mod 4 \<noteq> 1" "data \<noteq> [] \<Longrightarrow> sextets data \<noteq> []"
  by (induction data rule: sextets.induct) simp_all

lemma length_sextets_text: "length (sextets data) \<le> length (base64_text lf c data)"
  by (induction lf c data rule: base64_text.induct) simp_all

lemma decode_text:
  assumes "lf \<longrightarrow> policy \<noteq> FailOnInvalidCharacter" "data \<noteq> []"
  shows "base64Decode white policy (map unat (base64_text lf 0 data @ replicate k 0x3D)) = Some (Some data)"
proof -
  define t where "t = map unat (base64_text lf 0 data @ replicate k 0x3D)"
  define vs where "vs = sextets data"
  define n where "n = length vs - (length vs + 3) div 4"
  have vs: "vs \<noteq> []" "length vs mod 4 \<noteq> 1" "length vs \<le> length t" "bytes_of_values vs = data"
    using length_sextets length_sextets_text [of data lf 0] assms(2) by (auto simp: vs_def t_def)
  have n: "n = length data" using length_bytes_of_values [OF vs(2)] vs(4) by (simp add: n_def)
  have vals: "decode_values white policy False t = Some (vs, 0 < k)"
    using decode_values_text [OF assms(1), of white 0 data "replicate k 61"]
    by (simp add: t_def vs_def decode_values_padding)
  obtain out' where out': "Option.bind (decode_loop n 0 0 (vs @ replicate (length t - length vs) 0))
      (\<lambda>(sidx, didx, out1). decode_tail n sidx didx out1) = Some out'" "take n out' = data"
      "length out' = length (vs @ replicate (length t - length vs) (0 :: byte))"
    using decode_in_place [of vs n "[]" 0 "[]" 0 _ "replicate (length t - length vs) 0"] vs n by auto
  have "Option.bind (decode_loop n 0 0 (vs @ replicate (length t - length vs) 0))
      (\<lambda>(sidx, didx, out1). map_option (\<lambda>out2. Some (if n < length out2 then take n out2 else out2))
         (decode_tail n sidx didx out1)) = Some (Some data)"
    using out'(1,2) by (auto simp: bind_eq_Some_conv intro!: exI [of _ out'])
  moreover have "t \<noteq> []" "length vs \<noteq> 0" "n \<noteq> 0" using vs assms(2) n by auto
  ultimately show ?thesis
    unfolding t_def [symmetric] base64Decode_def vals
    by (simp only: if_False option.case prod.case Let_def vs(2) n_def [symmetric])
qed



end
