(* ===== verification/SHA1.thy ===== *)
theory SHA1
  imports Block_Hash
begin

text \<open>
  The SHA-1 of WTF (\<open>wtf/SHA1.cpp\<close>), with which a WebSocket handshake checks the answer of its server.
  The object is its 64 bytes of buffer, its cursor, the number of bytes so far and the five words of the
  hash; every loop of the source is a fold over its indices. The digest of RFC 3174 is
  defined beside it on its own terms; \<open>computeHash\<close> gives this digest for every way of
  cutting the message into calls of \<open>addBytes\<close>, and leaves an object that starts anew.
\<close>

section \<open>A block\<close>

definition sha1_f :: "nat \<Rightarrow> u32 \<Rightarrow> u32 \<Rightarrow> u32 \<Rightarrow> u32" where
  "sha1_f t b c d =
     (if t < 20 then (b AND c) OR (NOT b AND d)
      else if t < 40 then b XOR c XOR d
      else if t < 60 then (b AND c) OR (b AND d) OR (c AND d)
      else b XOR c XOR d)"

definition sha1_k :: "nat \<Rightarrow> u32" where
  "sha1_k t = (if t < 20 then 0x5a827999 else if t < 40 then 0x6ed9eba1 else if t < 60 then 0x8f1bbcdc else 0xca62c1d6)"

definition rotateLeft :: "nat \<Rightarrow> u32 \<Rightarrow> u32" where
  "rotateLeft n x = push_bit n x OR drop_bit (32 - n) x"

type_synonym sha1_regs = "u32 \<times> u32 \<times> u32 \<times> u32 \<times> u32"

record sha1 =
  m_buffer :: "byte list"
  m_cursor :: nat
  m_totalBytes :: u64
  m_hash :: sha1_regs

definition buffer_word :: "byte list \<Rightarrow> nat \<Rightarrow> u32" where
  "buffer_word buf t =
     push_bit 24 (ucast (buf ! (t * 4))) OR push_bit 16 (ucast (buf ! (t * 4 + 1)))
     OR push_bit 8 (ucast (buf ! (t * 4 + 2))) OR ucast (buf ! (t * 4 + 3))"

definition schedule :: "byte list \<Rightarrow> u32 list" where
  "schedule buf =
     foldl (\<lambda>w t. w @ [rotateLeft 1 (w ! (t - 3) XOR w ! (t - 8) XOR w ! (t - 14) XOR w ! (t - 16))])
       (map (buffer_word buf) [0..<16]) [16..<80]"

fun sha1_round :: "u32 list \<Rightarrow> sha1_regs \<Rightarrow> nat \<Rightarrow> sha1_regs" where
  "sha1_round w (a, b, c, d, e) t = (rotateLeft 5 a + sha1_f t b c d + e + w ! t + sha1_k t, a, rotateLeft 30 b, c, d)"

definition processBlock :: "sha1 \<Rightarrow> sha1" where
  "processBlock st =
     (let (h0, h1, h2, h3, h4) = m_hash st;
          (a, b, c, d, e) = foldl (sha1_round (schedule (m_buffer st))) (m_hash st) [0..<80]
      in st\<lparr>m_hash := (h0 + a, h1 + b, h2 + c, h3 + d, h4 + e), m_cursor := 0\<rparr>)"

section \<open>The digest\<close>

definition sha1_iv :: sha1_regs where
  "sha1_iv = (0x67452301, 0xefcdab89, 0x98badcfe, 0x10325476, 0xc3d2e1f0)"

definition sha1_reset :: sha1 where
  \<comment> \<open>sets every member, so that it is also the constructed object\<close>
  "sha1_reset = \<lparr>m_buffer = replicate 64 0, m_cursor = 0, m_totalBytes = 0, m_hash = sha1_iv\<rparr>"

definition add_byte :: "sha1 \<Rightarrow> byte \<Rightarrow> sha1" where
  "add_byte st b =
     (let st1 = st\<lparr>m_buffer := (m_buffer st)[m_cursor st := b], m_cursor := m_cursor st + 1,
                   m_totalBytes := m_totalBytes st + 1\<rparr>
      in if m_cursor st1 = 64 then processBlock st1 else st1)"

definition sha1_addBytes :: "sha1 \<Rightarrow> byte list \<Rightarrow> sha1" where
  "sha1_addBytes st input = foldl add_byte st input"

definition zero_from :: "nat \<Rightarrow> nat \<Rightarrow> byte list \<Rightarrow> byte list" where
  "zero_from from to buf = foldl (\<lambda>buf i. buf[i := 0]) buf [from..<to]"

definition put_length :: "u64 \<Rightarrow> byte list \<Rightarrow> byte list" where
  "put_length bits buf =
     fst (foldl (\<lambda>(buf, bits) i. (buf[56 + (7 - i) := ucast bits], drop_bit 8 bits)) (buf, bits) [0..<8])"

definition finalize :: "sha1 \<Rightarrow> sha1" where
  "finalize st =
     (let st1 = st\<lparr>m_buffer := (m_buffer st)[m_cursor st := 0x80], m_cursor := m_cursor st + 1\<rparr>;
          st2 = (if 56 < m_cursor st1
                 then processBlock (st1\<lparr>m_buffer := zero_from (m_cursor st1) 64 (m_buffer st1), m_cursor := 64\<rparr>)
                 else st1)
      in processBlock (st2\<lparr>m_buffer := put_length (m_totalBytes st2 * 8) (zero_from (m_cursor st2) 56 (m_buffer st2)),
                           m_cursor := 64\<rparr>))"

definition put_word :: "nat \<Rightarrow> u32 \<Rightarrow> byte list \<Rightarrow> byte list" where
  "put_word i hashValue digest =
     fst (foldl (\<lambda>(digest, v) j. (digest[4 * i + (3 - j) := ucast v], drop_bit 8 v)) (digest, hashValue) [0..<4])"

definition computeHash :: "sha1 \<Rightarrow> byte list \<times> sha1" where
  "computeHash st =
     (let (h0, h1, h2, h3, h4) = m_hash (finalize st)
      in (put_word 4 h4 (put_word 3 h3 (put_word 2 h2 (put_word 1 h1 (put_word 0 h0 (replicate 20 0))))), sha1_reset))"

section \<open>RFC 3174\<close>

text \<open>
  The digest as the RFC defines it, on its own terms: the functions and constants of the four stages, the
  schedule as a recursion, the words of a block as numbers whose high byte comes first, the padded message.
\<close>

definition rfc3174_f :: "nat \<Rightarrow> u32 \<Rightarrow> u32 \<Rightarrow> u32 \<Rightarrow> u32" where
  "rfc3174_f t B C D =
     (case t div 20 of
        0 \<Rightarrow> (B AND C) OR (NOT B AND D)
      | Suc 0 \<Rightarrow> B XOR C XOR D
      | Suc (Suc 0) \<Rightarrow> (B AND C) OR (B AND D) OR (C AND D)
      | _ \<Rightarrow> B XOR C XOR D)"

definition rfc3174_K :: "nat \<Rightarrow> u32" where
  "rfc3174_K t = [0x5A827999, 0x6ED9EBA1, 0x8F1BBCDC, 0xCA62C1D6] ! (t div 20)"

definition be_word :: "byte list \<Rightarrow> nat \<Rightarrow> u32" where
  "be_word blk k =
     of_nat (2 ^ 24 * unat (blk ! (4 * k)) + 2 ^ 16 * unat (blk ! (4 * k + 1)) + 2 ^ 8 * unat (blk ! (4 * k + 2))
             + unat (blk ! (4 * k + 3)))"

function rfc_word :: "byte list \<Rightarrow> nat \<Rightarrow> u32" where
  "rfc_word blk t =
     (if t < 16 then be_word blk t
      else word_rotl 1 (rfc_word blk (t - 3) XOR rfc_word blk (t - 8) XOR rfc_word blk (t - 14) XOR rfc_word blk (t - 16)))"
  by pat_completeness auto
termination
  by (relation "measure snd") auto

declare rfc_word.simps [simp del]

fun rfc_rounds :: "byte list \<Rightarrow> sha1_regs \<Rightarrow> nat \<Rightarrow> sha1_regs" where
  "rfc_rounds blk h 0 = h"
| "rfc_rounds blk h (Suc t) =
     (let (A, B, C, D, E) = rfc_rounds blk h t
      in (word_rotl 5 A + rfc3174_f t B C D + E + rfc_word blk t + rfc3174_K t, A, word_rotl 30 B, C, D))"

definition sha1_block :: "sha1_regs \<Rightarrow> byte list \<Rightarrow> sha1_regs" where
  "sha1_block h blk =
     (let (H0, H1, H2, H3, H4) = h; (A, B, C, D, E) = rfc_rounds blk h 80
      in (H0 + A, H1 + B, H2 + C, H3 + D, H4 + E))"

definition rfc3174_start :: sha1_regs where
  "rfc3174_start = (0x67452301, 0xEFCDAB89, 0x98BADCFE, 0x10325476, 0xC3D2E1F0)"

definition be32 :: "u32 \<Rightarrow> byte list" where
  "be32 w = [ucast (drop_bit 24 w), ucast (drop_bit 16 w), ucast (drop_bit 8 w), ucast w]"

definition be64 :: "u64 \<Rightarrow> byte list" where
  "be64 w = map (\<lambda>i. ucast (drop_bit (8 * i) w)) [7, 6, 5, 4, 3, 2, 1, 0]"

definition sha1_padding :: "nat \<Rightarrow> byte list" where
  "sha1_padding n = 0x80 # replicate ((119 - n mod 64) mod 64) 0 @ be64 (of_nat n * 8)"

definition sha1_reference :: "byte list \<Rightarrow> byte list" where
  "sha1_reference msg =
     (let (a, b, c, d, e) = fst (absorb sha1_block rfc3174_start (msg @ sha1_padding (length msg)))
      in be32 a @ be32 b @ be32 c @ be32 d @ be32 e)"

section \<open>The loops of the source\<close>

lemma sha1_start_rfc: "sha1_iv = rfc3174_start"
  by (simp add: sha1_iv_def rfc3174_start_def)

lemma rotateLeft_rfc: "0 < n \<Longrightarrow> n < 32 \<Longrightarrow> rotateLeft n x = word_rotl n x"
  by (simp add: rotateLeft_def rotl_shifts)

lemma div_20: "t < 20 \<Longrightarrow> t div 20 = 0" "20 \<le> t \<Longrightarrow> t < 40 \<Longrightarrow> t div 20 = 1" "40 \<le> t \<Longrightarrow> t < 60 \<Longrightarrow> t div 20 = 2"
  "60 \<le> t \<Longrightarrow> t < 80 \<Longrightarrow> t div 20 = 3" for t :: nat
  by simp_all

lemma f_rfc: "t < 80 \<Longrightarrow> sha1_f t = rfc3174_f t"
  using div_20 [of t] by (intro ext) (auto simp: sha1_f_def rfc3174_f_def numeral_2_eq_2 numeral_3_eq_3 not_less)

lemma K_rfc: "t < 80 \<Longrightarrow> sha1_k t = rfc3174_K t"
  using div_20 [of t] by (auto simp: sha1_k_def rfc3174_K_def not_less)

lemma word_rfc: "buffer_word blk k = be_word blk k"
proof -
  define b0 b1 b2 b3 where "b0 = blk ! (4 * k)" and "b1 = blk ! (4 * k + 1)" and "b2 = blk ! (4 * k + 2)" and "b3 = blk ! (4 * k + 3)"
  let ?b0 = "push_bit 24 (ucast b0) :: u32" and ?b1 = "push_bit 16 (ucast b1) :: u32" and ?b2 = "push_bit 8 (ucast b2) :: u32"
    and ?b3 = "ucast b3 :: u32"
  have "be_word blk k = ((?b0 + ?b1) + ?b2) + ?b3"
    unfolding be_word_def b0_def [symmetric] b1_def [symmetric] b2_def [symmetric] b3_def [symmetric] of_nat_add byte_shift by simp
  also have "?b0 + ?b1 = ?b0 OR ?b1" by (rule disjunctive_add) (auto simp: bit_simps dest: bit_imp_le_length)
  also have "(?b0 OR ?b1) + ?b2 = (?b0 OR ?b1) OR ?b2" by (rule disjunctive_add) (auto simp: bit_simps dest: bit_imp_le_length)
  also have "((?b0 OR ?b1) OR ?b2) + ?b3 = ((?b0 OR ?b1) OR ?b2) OR ?b3"
    by (rule disjunctive_add) (auto simp: bit_simps dest: bit_imp_le_length)
  also have "\<dots> = buffer_word blk k"
    by (simp add: buffer_word_def b0_def b1_def b2_def b3_def mult.commute or.assoc)
  finally show ?thesis by simp
qed

lemma schedule_prefix:
  "16 \<le> n \<Longrightarrow> n \<le> 80 \<Longrightarrow>
   foldl (\<lambda>w t. w @ [rotateLeft 1 (w ! (t - 3) XOR w ! (t - 8) XOR w ! (t - 14) XOR w ! (t - 16))])
     (map (buffer_word buf) [0..<16]) [16..<n] = map (rfc_word buf) [0..<n]"
proof (induction n rule: dec_induct)
  case base
  show ?case by (simp add: rfc_word.simps [of buf] word_rfc del: upt_conv_Cons)
next
  case (step n)
  have "rfc_word buf n = rotateLeft 1 (rfc_word buf (n - 3) XOR rfc_word buf (n - 8)
      XOR rfc_word buf (n - 14) XOR rfc_word buf (n - 16))"
    using step.hyps by (subst rfc_word.simps) (simp add: rotateLeft_rfc)
  then show ?case using step by (simp add: upt_Suc_append)
qed

lemma schedule_word: "t < 80 \<Longrightarrow> schedule buf ! t = rfc_word buf t"
  unfolding schedule_def by (subst schedule_prefix) simp_all

lemma rounds: "n \<le> 80 \<Longrightarrow> foldl (sha1_round (schedule buf)) h [0..<n] = rfc_rounds buf h n"
proof (induction n)
  case (Suc n)
  obtain a b c d e where "rfc_rounds buf h n = (a, b, c, d, e)" by (metis surj_pair)
  then show ?case using Suc by (simp add: schedule_word f_rfc K_rfc rotateLeft_rfc)
qed simp

lemma m_hash_processBlock: "m_hash (processBlock st) = sha1_block (m_hash st) (m_buffer st)"
  by (simp add: processBlock_def sha1_block_def rounds split: prod.splits)

lemma processBlock_sel [simp]: "m_buffer (processBlock st) = m_buffer st" "m_cursor (processBlock st) = 0"
  "m_totalBytes (processBlock st) = m_totalBytes st"
  by (simp_all add: processBlock_def split: prod.splits)

lemma zero_from: "from \<le> to \<Longrightarrow> to \<le> length buf \<Longrightarrow>
    zero_from from to buf = take from buf @ replicate (to - from) 0 @ drop to buf"
proof (induction to rule: dec_induct)
  case (step to)
  then have "zero_from from (Suc to) buf = (take from buf @ replicate (to - from) 0 @ drop to buf)[to := 0]"
    by (simp add: zero_from_def)
  also have "\<dots> = take from buf @ replicate (to - from) 0 @ (drop to buf)[0 := 0]"
    using step by (simp add: list_update_append)
  also have "(drop to buf)[0 := 0] = 0 # drop (Suc to) buf" using step by (simp add: Cons_nth_drop_Suc [symmetric])
  finally show ?case using step by (simp add: Suc_diff_le replicate_append_same)
qed (simp add: zero_from_def)

lemma length_split64:
  assumes "length buf = 64"
  obtains b0 b1 b2 b3 b4 b5 b6 b7 where "drop 56 buf = [b0, b1, b2, b3, b4, b5, b6, b7]"
proof -
  have "length (drop 56 buf) = Suc (Suc (Suc (Suc (Suc (Suc (Suc (Suc 0)))))))" using assms by simp
  then show ?thesis using that unfolding length_Suc_conv by auto
qed

lemma put_length: "length buf = 64 \<Longrightarrow> put_length bits buf = take 56 buf @ be64 bits"
proof -
  assume l: "length buf = 64"
  then obtain b0 b1 b2 b3 b4 b5 b6 b7 where d: "drop 56 buf = [b0, b1, b2, b3, b4, b5, b6, b7]" by (rule length_split64)
  define p where "p = take 56 buf"
  have p: "length p = 56" "buf = p @ [b0, b1, b2, b3, b4, b5, b6, b7]"
    using l d append_take_drop_id [of 56 buf] by (simp_all add: p_def)
  show ?thesis unfolding p_def [symmetric] unfolding p(2)
    by (simp add: put_length_def be64_def upt_rec p(1) list_update_append drop_bit_drop_bit)
qed

lemma digest_bytes:
  "put_word 4 h4 (put_word 3 h3 (put_word 2 h2 (put_word 1 h1 (put_word 0 h0 (replicate 20 0))))) =
   be32 h0 @ be32 h1 @ be32 h2 @ be32 h3 @ be32 h4"
  by (simp add: put_word_def be32_def upt_rec drop_bit_drop_bit numeral_eq_Suc)

section \<open>The digest of chunks\<close>

definition sha1_rep :: "sha1 \<Rightarrow> byte list \<Rightarrow> bool" where
  "sha1_rep st msg \<longleftrightarrow>
     m_totalBytes st = of_nat (length msg) \<and> length (m_buffer st) = 64 \<and> m_cursor st = length msg mod 64
     \<and> m_hash st = fst (absorb sha1_block sha1_iv msg)
     \<and> take (m_cursor st) (m_buffer st) = snd (absorb sha1_block sha1_iv msg)"

lemma sha1_repD:
  assumes "sha1_rep st msg" "n = length msg mod 64"
  shows "m_totalBytes st = of_nat (length msg)" "length (m_buffer st) = 64" "m_cursor st = n"
    "m_hash st = fst (absorb sha1_block sha1_iv msg)" "take n (m_buffer st) = snd (absorb sha1_block sha1_iv msg)"
    "n < 64" "length (snd (absorb sha1_block sha1_iv msg)) = n"
proof -
  have c: "m_cursor st = n" and t: "take (m_cursor st) (m_buffer st) = snd (absorb sha1_block sha1_iv msg)"
    using assms unfolding sha1_rep_def by blast+
  show "m_cursor st = n" "take n (m_buffer st) = snd (absorb sha1_block sha1_iv msg)" using c t by simp_all
qed (use assms in \<open>simp_all add: sha1_rep_def length_absorb\<close>)

lemma sha1_rep_reset: "sha1_rep sha1_reset []"
  by (simp add: sha1_rep_def sha1_reset_def)

lemma sha1_rep_byte:
  assumes "sha1_rep st msg"
  shows "sha1_rep (add_byte st b) (msg @ [b])"
proof -
  let ?h = "fst (absorb sha1_block sha1_iv msg)" and ?r = "snd (absorb sha1_block sha1_iv msg)"
  define n where "n = length msg mod 64"
  have st: "m_totalBytes st = of_nat (length msg)" "length (m_buffer st) = 64" "m_cursor st = n"
    "m_hash st = ?h" "take n (m_buffer st) = ?r" "n < 64" "length ?r = n"
    by (rule sha1_repD [OF assms n_def])+
  have ab: "absorb sha1_block sha1_iv (msg @ [b]) = absorb sha1_block ?h (?r @ [b])" by (rule absorb_append)
  have tk: "take (Suc n) ((m_buffer st)[n := b]) = ?r @ [b]"
    using st by (simp add: take_Suc_conv_app_nth)
  show ?thesis
  proof (cases "n = 63")
    case True
    have "absorb sha1_block ?h ((?r @ [b]) @ []) = absorb sha1_block (sha1_block ?h (?r @ [b])) []"
      using st True by (intro absorb_block) simp
    moreover have "(m_buffer st)[n := b] = ?r @ [b]" using tk True st(2) by simp
    moreover have "Suc (length msg) mod 64 = 0" using True by (simp add: n_def mod_Suc)
    ultimately show ?thesis
      using True st unfolding sha1_rep_def ab by (simp add: add_byte_def m_hash_processBlock)
  next
    case False
    then have "absorb sha1_block ?h (?r @ [b]) = (?h, ?r @ [b])" using st by simp
    moreover have "Suc (length msg) mod 64 = Suc n" using False by (simp add: n_def mod_Suc)
    ultimately show ?thesis using False st tk unfolding sha1_rep_def ab by (simp add: add_byte_def)
  qed
qed

lemma sha1_rep_add: "sha1_rep st msg \<Longrightarrow> sha1_rep (sha1_addBytes st xs) (msg @ xs)"
proof (induction xs arbitrary: st msg)
  case (Cons x xs)
  from Cons.IH [OF sha1_rep_byte [OF Cons.prems, of x]] show ?case by (simp add: sha1_addBytes_def)
qed (simp add: sha1_addBytes_def)

lemma finalize_reference:
  assumes "sha1_rep st msg"
  shows "m_hash (finalize st) = fst (absorb sha1_block sha1_iv (msg @ sha1_padding (length msg)))"
proof -
  let ?h = "fst (absorb sha1_block sha1_iv msg)" and ?r = "snd (absorb sha1_block sha1_iv msg)"
  define n where "n = length msg mod 64"
  define tail where "tail = be64 (m_totalBytes st * 8)"
  have st: "m_totalBytes st = of_nat (length msg)" "length (m_buffer st) = 64" "m_cursor st = n"
    "m_hash st = ?h" "take n (m_buffer st) = ?r" "n < 64" "length ?r = n"
    by (rule sha1_repD [OF assms n_def])+
  have tl: "length tail = 8" by (simp add: tail_def be64_def)
  have pad: "sha1_padding (length msg) = 0x80 # replicate ((119 - n) mod 64) 0 @ tail"
    by (simp add: sha1_padding_def n_def tail_def st(1))
  have ref: "absorb sha1_block sha1_iv (msg @ sha1_padding (length msg))
      = absorb sha1_block ?h (?r @ 0x80 # replicate ((119 - n) mod 64) 0 @ tail)"
    by (simp add: absorb_append [of _ _ msg] pad)
  define buf where "buf = (m_buffer st)[n := 0x80]"
  have buf: "length buf = 64" "take (Suc n) buf = ?r @ [0x80]"
    using st by (simp_all add: buf_def take_Suc_conv_app_nth)
  show ?thesis
  proof (cases "56 < Suc n")
    case True
    let ?blk = "?r @ 0x80 # replicate (63 - n) 0"
    have z1: "zero_from (Suc n) 64 buf = ?blk" using buf st(6) by (subst zero_from) simp_all
    have lb: "length ?blk = 64" using st(6,7) by simp
    have z2: "put_length (m_totalBytes st * 8) (zero_from 0 56 ?blk) = replicate 56 0 @ tail"
      using lb by (subst zero_from; simp) (subst put_length; simp add: tail_def)
    have mod: "(119 - n) mod 64 = (63 - n) + 56" using True st(6) by (simp add: mod_if)
    have fin: "m_hash (finalize st) = sha1_block (sha1_block ?h ?blk) (replicate 56 0 @ tail)"
      using True z1 z2 by (simp add: finalize_def st m_hash_processBlock flip: buf_def)
    have "?r @ 0x80 # replicate ((119 - n) mod 64) 0 @ tail = ?blk @ (replicate 56 0 @ tail) @ []"
      unfolding mod replicate_add by simp
    moreover have "absorb sha1_block ?h (?blk @ (replicate 56 0 @ tail) @ [])
        = absorb sha1_block (sha1_block (sha1_block ?h ?blk) (replicate 56 0 @ tail)) []"
      using lb tl absorb_block [of ?blk sha1_block ?h "(replicate 56 0 @ tail) @ []"]
        absorb_block [of "replicate 56 0 @ tail" sha1_block "sha1_block ?h ?blk" "[]"] by simp
    ultimately show ?thesis unfolding fin ref by simp
  next
    case False
    let ?blk = "?r @ 0x80 # replicate (55 - n) 0"
    have z: "zero_from (Suc n) 56 buf = ?blk @ drop 56 buf" using False buf by (subst zero_from) simp_all
    have lz: "length (?blk @ drop 56 buf) = 64" "length ?blk = 56" using st(7) False buf by simp_all
    have tk: "take 56 (?blk @ drop 56 buf) = ?blk" using lz(2) by (metis append_eq_conv_conj)
    have z2: "put_length (m_totalBytes st * 8) (?blk @ drop 56 buf) = ?blk @ tail"
      unfolding put_length [OF lz(1)] tk tail_def ..
    have fin: "m_hash (finalize st) = sha1_block ?h (?blk @ tail)"
      using False z z2 by (simp add: finalize_def st m_hash_processBlock flip: buf_def)
    have "(119 - n) mod 64 = 55 - n" using False st(6) by (simp add: mod_if)
    moreover have "absorb sha1_block ?h ((?blk @ tail) @ []) = absorb sha1_block (sha1_block ?h (?blk @ tail)) []"
      using lz tl by (intro absorb_block) simp
    ultimately show ?thesis unfolding fin ref by simp
  qed
qed

lemma computeHash_reference: "sha1_rep st msg \<Longrightarrow> fst (computeHash st) = sha1_reference msg"
  by (simp add: computeHash_def sha1_reference_def sha1_start_rfc [symmetric] finalize_reference digest_bytes [unfolded One_nat_def] split: prod.splits)

lemma computeHash_resets: "snd (computeHash st) = sha1_reset"
  by (simp add: computeHash_def split: prod.splits)

interpretation sha1: streaming_hash sha1_reset sha1_addBytes "\<lambda>st. fst (computeHash st)" sha1_rep "\<lambda>xs. True" sha1_reference
  by unfold_locales (simp_all only: sha1_rep_reset sha1_rep_add computeHash_reference)

text \<open>
  C26: however the message is cut into calls of \<open>addBytes\<close>, \<open>computeHash\<close> gives the RFC 3174 digest of the whole
  message, and the object it leaves, which it resets, gives the digest of the next message in the same way.
\<close>

theorem sha1_digest_of_chunks:
  "fst (computeHash (foldl sha1_addBytes (snd (computeHash (foldl sha1_addBytes sha1_reset yss))) xss)) = sha1_reference (concat xss)
   \<and> fst (computeHash (foldl sha1_addBytes sha1_reset yss)) = sha1_reference (concat yss)"
  unfolding computeHash_resets by (simp add: sha1.digest_of_chunks)

end
