(* ===== verification/WebSocketHandshake.thy ===== *)
theory WebSocketHandshake
  imports Base64 SHA1 MD5 WebSocketExtension URLResolve
begin

text \<open>
  The opening handshake of WebSockets (\<open>WebSocketHandshake.cpp\<close>, \<open>parseHTTPHeader\<close> of
  \<open>HTTPParsers.cpp\<close>), in the version of RFC 6455 and in hixie-76. A read position is the rest of the
  buffer. \<open>fc\<close> is \<open>Unicode::foldCase\<close>; a header map has folded names as its keys.
\<close>

section \<open>Names of the request\<close>

definition resourceName :: "kurl \<Rightarrow> string" where
  "resourceName url =
     (let name = KURL_path url; name = (if name = [] then ''/'' else name)
      in if m_queryEnd url = m_pathEnd url then name else name @ ''?'' @ KURL_query url)"

definition hostName :: "kurl \<Rightarrow> bool \<Rightarrow> string" where
  "hostName url secure =
     str_lower (KURL_host url)
     @ (if KURL_port url \<noteq> 0 \<and> (\<not> secure \<and> KURL_port url \<noteq> 80 \<or> secure \<and> KURL_port url \<noteq> 443)
        then '':'' @ dec_string (KURL_port url) else [])"

definition maxInputSampleSize :: nat where
  "maxInputSampleSize = 128"

definition trimInputSample :: "byte list \<Rightarrow> wtf_string" where
  "trimInputSample p =
     String_latin1 (take maxInputSampleSize p) @ (if maxInputSampleSize < length p then [0x2026] else [])"

section \<open>Keys\<close>

text \<open>
  The random numbers are a list that the functions consume; None is a list that ends while they still
  need one, which the rejection of \<open>randomNumberLessThan\<close> makes possible.
\<close>

definition randomCharacterInSecWebSocketKey :: string where
  "randomCharacterInSecWebSocketKey =
     CHR ''!'' # CHR 0x22 # ''#$%&'' @ CHR 0x27 # ''()*+,-./:;<=>?@ABCDEFGHIJKLMNOPQRSTUVWXYZ['' @ CHR 0x5C # '']^_''
     @ CHR 0x60 # ''abcdefghijklmnopqrstuvwxyz{|}~''"

fun draw_below :: "u32 \<Rightarrow> u32 list \<Rightarrow> (u32 \<times> u32 list) option" where
  "draw_below m [] = None"
| "draw_below m (v # rs) = (if m \<le> v then draw_below m rs else Some (v, rs))"

definition randomNumberLessThan :: "u32 \<Rightarrow> u32 list \<Rightarrow> (u32 \<times> u32 list) option" where
  "randomNumberLessThan n rs =
     (if n = 0 then Some (0, rs)
      else if n = 0xFFFFFFFF then (case rs of [] \<Rightarrow> None | v # rs' \<Rightarrow> Some (v, rs'))
      else map_option (\<lambda>(v, rs). (v mod n, rs)) (draw_below (0xFFFFFFFF - 0xFFFFFFFF mod n) rs))"

definition str_insert :: "char \<Rightarrow> nat \<Rightarrow> string \<Rightarrow> string" where
  "str_insert c pos s = take pos s @ c # drop pos s"

fun insert_random_chars :: "nat \<Rightarrow> string \<Rightarrow> u32 list \<Rightarrow> (string \<times> u32 list) option" where
  "insert_random_chars 0 s rs = Some (s, rs)"
| "insert_random_chars (Suc i) s rs =
     Option.bind (randomNumberLessThan (of_nat (length s) + 1) rs) (\<lambda>(pos, rs).
     Option.bind (randomNumberLessThan (of_nat (length randomCharacterInSecWebSocketKey)) rs) (\<lambda>(chpos, rs).
     insert_random_chars i (str_insert (randomCharacterInSecWebSocketKey ! unat chpos) (unat pos) s) rs))"

fun insert_spaces :: "nat \<Rightarrow> string \<Rightarrow> u32 list \<Rightarrow> (string \<times> u32 list) option" where
  "insert_spaces 0 s rs = Some (s, rs)"
| "insert_spaces (Suc i) s rs =
     Option.bind (randomNumberLessThan (of_nat (length s) - 1) rs) (\<lambda>(pos, rs).
     insert_spaces i (str_insert (CHR '' '') (unat (pos + 1)) s) rs)"

definition generateHixie76SecWebSocketKey :: "u32 list \<Rightarrow> (u32 \<times> string \<times> u32 list) option" where
  "generateHixie76SecWebSocketKey rs =
     Option.bind (randomNumberLessThan 12 rs) (\<lambda>(r, rs).
     let space = r + 1; m = 4294967295 div space in
     Option.bind (randomNumberLessThan m rs) (\<lambda>(number, rs).
     let product = number * space; s = dec_digits (unat product) in
     Option.bind (randomNumberLessThan 12 rs) (\<lambda>(r, rs).
     Option.bind (insert_random_chars (unat (r + 1)) s rs) (\<lambda>(s, rs).
     Option.bind (insert_spaces (unat space) s rs) (\<lambda>(key, rs).
     Some (number, key, rs))))))"

definition setChallengeNumber :: "u32 \<Rightarrow> byte list" where
  \<comment> \<open>the four bytes it writes\<close>
  "setChallengeNumber number =
     [ucast (drop_bit 24 number), ucast (drop_bit 16 number), ucast (drop_bit 8 number), ucast number]"

definition generateHixie76ExpectedChallengeResponse :: "u32 \<Rightarrow> u32 \<Rightarrow> byte list \<Rightarrow> byte list" where
  "generateHixie76ExpectedChallengeResponse number1 number2 key3 =
     checksum (addBytes MD5_new (setChallengeNumber number1 @ setChallengeNumber number2 @ key3))"

definition generateSecWebSocketKey :: "byte list \<Rightarrow> byte list" where
  \<comment> \<open>of the 16 random bytes; \<open>base64Encode\<close> gives a buffer for every one\<close>
  "generateSecWebSocketKey key = (case base64Encode False key of None \<Rightarrow> [] | Some t \<Rightarrow> t)"

definition webSocketKeyGUID :: "byte list" where
  "webSocketKeyGUID = chars ''258EAFA5-E914-47DA-95CA-C5AB0DC85B11''"

definition ascii :: "byte list \<Rightarrow> byte list" where
  "ascii s = map (\<lambda>ch. if ch \<noteq> 0 \<and> (ch < 0x20 \<or> 0x7F < ch) then 0x3F else ch) s"

definition getExpectedWebSocketAccept :: "byte list \<Rightarrow> byte list" where
  "getExpectedWebSocketAccept secWebSocketKey =
     (let sha1 = sha1_addBytes (sha1_addBytes sha1_reset (ascii secWebSocketKey)) webSocketKeyGUID
      in case base64Encode False (fst (computeHash sha1)) of None \<Rightarrow> [] | Some t \<Rightarrow> t)"

section \<open>The object\<close>

datatype Mode = Incomplete | Normal | Failed | Connected

type_synonym header_fields = "wtf_string \<rightharpoonup> wtf_string"

record handshake =
  hs_url :: kurl
  m_clientProtocol :: string
  m_secure :: bool
  hs_origin :: string
  m_useHixie76Protocol :: bool
  m_mode :: Mode
  m_hixie76SecWebSocketKey1 :: string
  m_hixie76SecWebSocketKey2 :: string
  m_hixie76Key3 :: "byte list"
  m_hixie76ExpectedChallengeResponse :: "byte list"
  m_secWebSocketKey :: "byte list"
  m_expectedAccept :: "byte list"
  m_failureReason :: wtf_string
  hs_statusCode :: int
  hs_statusText :: wtf_string
  m_headerFields :: header_fields
  m_challengeResponse :: "byte list"
  m_extensionDispatcher :: dispatcher

text \<open>The randomness is that of \<open>cryptographicallyRandomNumber\<close> and the bytes of \<open>cryptographicallyRandomValues\<close>.\<close>

definition WebSocketHandshake_new :: "kurl \<Rightarrow> string \<Rightarrow> string \<Rightarrow> bool \<Rightarrow> u32 list \<Rightarrow> byte list \<Rightarrow> handshake option" where
  "WebSocketHandshake_new url protocol origin hixie rs values =
     (let hs = \<lparr>hs_url = url, m_clientProtocol = protocol, m_secure = KURL_protocolIs url ''wss'', hs_origin = origin,
                m_useHixie76Protocol = hixie, m_mode = Incomplete, m_hixie76SecWebSocketKey1 = [],
                m_hixie76SecWebSocketKey2 = [], m_hixie76Key3 = [], m_hixie76ExpectedChallengeResponse = [],
                m_secWebSocketKey = [], m_expectedAccept = [], m_failureReason = [], hs_statusCode = 0, hs_statusText = [],
                m_headerFields = Map.empty, m_challengeResponse = replicate 16 0, m_extensionDispatcher = dispatcher_new\<rparr>
      in if hixie then
           Option.bind (generateHixie76SecWebSocketKey rs) (\<lambda>(number1, key1, rs).
           Option.bind (generateHixie76SecWebSocketKey rs) (\<lambda>(number2, key2, rs).
           Some (hs\<lparr>m_hixie76SecWebSocketKey1 := key1, m_hixie76SecWebSocketKey2 := key2, m_hixie76Key3 := take 8 values,
                    m_hixie76ExpectedChallengeResponse :=
                      generateHixie76ExpectedChallengeResponse number1 number2 (take 8 values)\<rparr>)))
         else
           let key = generateSecWebSocketKey (take 16 values)
           in Some (hs\<lparr>m_secWebSocketKey := key, m_expectedAccept := getExpectedWebSocketAccept key\<rparr>))"

definition handshake_reset :: "handshake \<Rightarrow> handshake" where
  "handshake_reset hs = hs\<lparr>m_mode := Incomplete, m_extensionDispatcher := dispatcher_reset (m_extensionDispatcher hs)\<rparr>"

definition clientLocation :: "handshake \<Rightarrow> string" where
  "clientLocation hs =
     (if m_secure hs then ''wss'' else ''ws'') @ ''://'' @ hostName (hs_url hs) (m_secure hs) @ resourceName (hs_url hs)"

definition httpURLForAuthenticationAndCookies :: "handshake \<Rightarrow> kurl option" where
  "httpURLForAuthenticationAndCookies hs =
     map_option snd (setProtocol (if m_secure hs then ''https'' else ''http'') (hs_url hs))"

text \<open>\<open>cookie\<close> is \<open>cookieRequestHeaderFieldValue\<close> of the document, None where the context is none.\<close>

definition handshake_fields :: "(kurl \<Rightarrow> string) option \<Rightarrow> handshake \<Rightarrow> string list option" where
  "handshake_fields cookie hs =
     map_option (\<lambda>url.
       [if m_useHixie76Protocol hs then ''Upgrade: WebSocket'' else ''Upgrade: websocket'',
        ''Connection: Upgrade'', ''Host: '' @ hostName (hs_url hs) (m_secure hs), ''Origin: '' @ hs_origin hs]
       @ (if m_clientProtocol hs \<noteq> [] then [''Sec-WebSocket-Protocol: '' @ m_clientProtocol hs] else [])
       @ (case cookie of None \<Rightarrow> [] | Some f \<Rightarrow> if f url \<noteq> [] then [''Cookie: '' @ f url] else [])
       @ (if m_useHixie76Protocol hs then
            [''Sec-WebSocket-Key1: '' @ m_hixie76SecWebSocketKey1 hs, ''Sec-WebSocket-Key2: '' @ m_hixie76SecWebSocketKey2 hs]
          else
            [''Sec-WebSocket-Key: '' @ map (\<lambda>b. char_of (uint b)) (m_secWebSocketKey hs), ''Sec-WebSocket-Version: 13'']
            @ (let v = createHeaderValue (m_extensionDispatcher hs)
               in if v \<noteq> [] then [''Sec-WebSocket-Extensions: '' @ v] else [])))
       (httpURLForAuthenticationAndCookies hs)"

definition CRLF :: string where
  "CRLF = [CHR 0x0D, CHR 0x0A]"

definition clientHandshakeMessage :: "(kurl \<Rightarrow> string) option \<Rightarrow> handshake \<Rightarrow> byte list option" where
  "clientHandshakeMessage cookie hs =
     Option.bind (handshake_fields cookie hs) (\<lambda>fields.
     map_option (\<lambda>header. if m_useHixie76Protocol hs then header @ m_hixie76Key3 hs else header)
       (String_utf8 False (of_latin1
          (''GET '' @ resourceName (hs_url hs) @ '' HTTP/1.1'' @ CRLF @ concat (map (\<lambda>f. f @ CRLF) fields) @ CRLF))))"

section \<open>The status line\<close>

text \<open>
  The scan: \<open>ScanNul\<close> at an embedded null, \<open>ScanMore\<close> at the end of the data, otherwise the line
  without its line feed and the two spaces, as positions in it.
\<close>

datatype status_scan = ScanNul nat | ScanMore | ScanLine nat "nat option" "nat option"

fun scan_status :: "nat \<Rightarrow> nat option \<Rightarrow> nat option \<Rightarrow> byte list \<Rightarrow> status_scan" where
  "scan_status pos space1 space2 [] = ScanMore"
| "scan_status pos space1 space2 (c # rest) =
     (if c = 0x20 then
        (if space1 = None then scan_status (pos + 1) (Some pos) space2 rest
         else if space2 = None then scan_status (pos + 1) space1 (Some pos) rest
         else scan_status (pos + 1) space1 space2 rest)
      else if c = 0 then ScanNul pos
      else if c = 0x0A then ScanLine pos space1 space2
      else scan_status (pos + 1) space1 space2 rest)"

text \<open>
  The length of the line, None for -1; the status code, None for -1, with the text; and the reason
  where one is set.
\<close>

definition digit_byte :: "byte \<Rightarrow> bool" where
  "digit_byte c \<longleftrightarrow> 0x30 \<le> c \<and> c \<le> 0x39"

type_synonym status_result = "nat option \<times> (int \<times> wtf_string) option \<times> wtf_string option"

definition status_code :: "byte list \<Rightarrow> nat \<Rightarrow> nat \<Rightarrow> nat \<Rightarrow> status_result" where
  \<comment> \<open>for the positions of the two spaces and of the line feed\<close>
  "status_code header sp1 sp2 pos =
     (let code_string = take (sp2 - sp1 - 1) (drop (sp1 + 1) header) in
      if length code_string \<noteq> 3 then (Some (pos + 1), None, None)
      else if \<not> list_all digit_byte code_string then
        (Some (pos + 1), None, Some (of_latin1 ''Invalid status code: '' @ String_latin1 code_string))
      else
        (Some (pos + 1),
         Some (digits_value 0 (map (\<lambda>b. char_of (uint b)) code_string),
               String_latin1 (take (pos - sp2 - 2) (drop (sp2 + 1) header))), None))"

definition readStatusLine :: "byte list \<Rightarrow> status_result" where
  "readStatusLine header =
     (case scan_status 0 None None header of
        ScanNul pos \<Rightarrow> (Some (pos + 1), None, Some (of_latin1 ''Status line contains embedded null''))
      | ScanMore \<Rightarrow> (None, None, None)
      | ScanLine pos space1 space2 \<Rightarrow>
          if 1024 < pos + 1 then (Some 1024, None, Some (of_latin1 ''Status line is too long''))
          else if pos + 1 < 2 \<or> header ! (pos - 1) \<noteq> 0x0D then
            (Some (pos + 1), None, Some (of_latin1 ''Status line does not end with CRLF''))
          else
            (case (space1, space2) of
               (Some sp1, Some sp2) \<Rightarrow> status_code header sp1 sp2 pos
             | _ \<Rightarrow> (Some (pos + 1), None,
                     Some (of_latin1 ''No response code found: '' @ trimInputSample (take (pos - 1) header)))))"

section \<open>A header field\<close>

text \<open>
  \<open>parseHTTPHeader\<close>: a failure with its reason, the empty line with what follows it, or a field with
  the rest from its line feed on, which the caller skips.
\<close>

datatype header_result =
  HeaderFailure wtf_string | EmptyLine "byte list" | HeaderField wtf_string wtf_string "byte list"

definition end_of_field :: "byte list \<Rightarrow> byte list \<Rightarrow> byte list \<Rightarrow> header_result" where
  "end_of_field name fvalue p =
     (if p = [] \<or> hd p \<noteq> 0x0A then
        HeaderFailure (of_latin1 ''CR doesn'' @ [0x27] @ of_latin1 ''t follow LF after value at '' @ trimInputSample p)
      else
        case (Vector_fromUTF8 name, Vector_fromUTF8 fvalue) of
          (None, _) \<Rightarrow> HeaderFailure (of_latin1 ''Invalid UTF-8 sequence in header name'')
        | (_, None) \<Rightarrow> HeaderFailure (of_latin1 ''Invalid UTF-8 sequence in header value'')
        | (Some n, Some v) \<Rightarrow> HeaderField n v p)"

fun header_value :: "byte list \<Rightarrow> byte list \<Rightarrow> byte list \<Rightarrow> header_result" where
  "header_value name fvalue [] = end_of_field name fvalue []"
| "header_value name fvalue (c # rest) =
     (if c = 0x0D then end_of_field name fvalue rest
      else if c = 0x0A then HeaderFailure (of_latin1 ''Unexpected LF in value at '' @ trimInputSample fvalue)
      else header_value name (fvalue @ [c]) rest)"

fun header_name :: "byte list \<Rightarrow> byte list \<Rightarrow> header_result" where
  "header_name name [] = header_value name [] []"
| "header_name name (c # rest) =
     (if c = 0x0D then
        (if name = [] then
           (case rest of
              d # rest' \<Rightarrow> if d = 0x0A then EmptyLine rest'
                else HeaderFailure (of_latin1 ''CR doesn'' @ [0x27] @ of_latin1 ''t follow LF at '' @ trimInputSample (c # rest))
            | [] \<Rightarrow> HeaderFailure (of_latin1 ''CR doesn'' @ [0x27] @ of_latin1 ''t follow LF at '' @ trimInputSample (c # rest)))
         else HeaderFailure (of_latin1 ''Unexpected CR in name at '' @ trimInputSample name))
      else if c = 0x0A then HeaderFailure (of_latin1 ''Unexpected LF in name at '' @ trimInputSample name)
      else if c = 0x3A then header_value name [] (dropWhile (\<lambda>c. c = 0x20) rest)
      else header_name (name @ [c]) rest)"

definition parseHTTPHeader :: "byte list \<Rightarrow> header_result" where
  "parseHTTPHeader p = header_name [] p"

section \<open>The answer of the server\<close>

type_synonym folding = "uchar \<Rightarrow> uchar"

definition field_is :: "folding \<Rightarrow> string \<Rightarrow> wtf_string \<Rightarrow> bool" where
  \<comment> \<open>\<open>equalIgnoringCase\<close> with a C string\<close>
  "field_is fc name s \<longleftrightarrow> map fc s = map fc (of_latin1 name)"

definition addHeaderField :: "folding \<Rightarrow> wtf_string \<Rightarrow> wtf_string \<Rightarrow> handshake \<Rightarrow> handshake" where
  \<comment> \<open>\<open>HTTPHeaderMap::add\<close>: the first value of a field stays\<close>
  "addHeaderField fc name v hs =
     (if m_headerFields hs (map fc name) = None
      then hs\<lparr>m_headerFields := (m_headerFields hs)(map fc name \<mapsto> v)\<rparr> else hs)"

definition header_field :: "folding \<Rightarrow> string \<Rightarrow> handshake \<Rightarrow> wtf_string option" where
  "header_field fc name hs = m_headerFields hs (map fc (of_latin1 name))"

definition field_equals :: "folding \<Rightarrow> string \<Rightarrow> string \<Rightarrow> handshake \<Rightarrow> bool" where
  "field_equals fc name v hs \<longleftrightarrow> (case header_field fc name hs of None \<Rightarrow> False | Some s \<Rightarrow> field_is fc v s)"

definition hs_failed :: "wtf_string \<Rightarrow> handshake \<Rightarrow> handshake" where
  "hs_failed reason hs = hs\<lparr>m_failureReason := reason\<rparr>"

definition twice :: "string \<Rightarrow> wtf_string" where
  "twice name = of_latin1 (''The '' @ name @ '' header MUST NOT appear more than once in an HTTP response'')"

text \<open>One field: \<open>accept\<close> and \<open>proto\<close> are the two flags; the first component is the success.\<close>

definition read_field :: "ext_env \<Rightarrow> folding \<Rightarrow> wtf_string \<Rightarrow> wtf_string \<Rightarrow> bool \<Rightarrow> bool \<Rightarrow> handshake \<Rightarrow>
    bool \<times> bool \<times> bool \<times> handshake" where
  "read_field e fc name v accept proto hs =
     (if field_is fc ''sec-websocket-extensions'' name then
        (case processHeaderValue e v (m_extensionDispatcher hs) of (ok, d) \<Rightarrow>
           let hs1 = hs\<lparr>m_extensionDispatcher := d\<rparr>
           in if ok then (True, accept, proto, hs1) else (False, accept, proto, hs_failed (disp_failureReason d) hs1))
      else if field_is fc ''Sec-WebSocket-Accept'' name then
        (if accept then (False, accept, proto, hs_failed (twice ''Sec-WebSocket-Accept'') hs)
         else (True, True, proto, addHeaderField fc name v hs))
      else if field_is fc ''Sec-WebSocket-Protocol'' name then
        (if proto then (False, accept, proto, hs_failed (twice ''Sec-WebSocket-Protocol'') hs)
         else (True, accept, True, addHeaderField fc name v hs))
      else (True, accept, proto, addHeaderField fc name v hs))"

lemma end_of_field_rest: "end_of_field name v p = HeaderField n w rest \<Longrightarrow> rest = p"
  by (auto simp: end_of_field_def split: if_splits option.splits)

lemma header_value_shorter: "header_value name v p = HeaderField n w rest \<Longrightarrow> length rest \<le> length p"
  by (induction name v p rule: header_value.induct)
     (auto split: if_splits dest!: end_of_field_rest)

lemma header_name_shorter: "header_name name p = HeaderField n w rest \<Longrightarrow> length rest \<le> length p"
proof (induction name p rule: header_name.induct)
  case (2 name c rest1)
  then show ?case
    using length_dropWhile_le [of "\<lambda>c. c = 0x20" rest1]
    by (auto split: if_splits list.splits dest!: header_value_shorter)
qed (auto dest!: end_of_field_rest)

text \<open>None is the null pointer, otherwise the rest after the header.\<close>

function read_fields :: "ext_env \<Rightarrow> folding \<Rightarrow> bool \<Rightarrow> bool \<Rightarrow> byte list \<Rightarrow> handshake \<Rightarrow> byte list option \<times> handshake" where
  "read_fields e fc accept proto p hs =
     (if p = [] then (Some [], hs)
      else
        case parseHTTPHeader p of
          HeaderFailure reason \<Rightarrow> (None, hs_failed reason hs)
        | EmptyLine rest \<Rightarrow> (Some rest, hs)
        | HeaderField name v p1 \<Rightarrow>
            (case read_field e fc name v accept proto hs of (ok, accept1, proto1, hs1) \<Rightarrow>
               if ok then read_fields e fc accept1 proto1 (drop 1 p1) hs1 else (None, hs1)))"
  by pat_completeness auto
termination
proof (relation "measure (\<lambda>(e, fc, accept, proto, p, hs). length p)", simp)
  fix e fc accept proto p hs name v p1
  assume "p \<noteq> []" "parseHTTPHeader p = HeaderField name v p1"
  then have "length (drop 1 p1) < length p"
    using header_name_shorter [of "[]" p name v p1] by (cases p) (simp_all add: parseHTTPHeader_def)
  then show "\<And>x y xa ya xb yb. ((e, fc, xa, xb, drop 1 p1, yb), e, fc, accept, proto, p, hs)
    \<in> measure (\<lambda>(e, fc, accept, proto, p, hs). length p)" by auto
qed

declare read_fields.simps [simp del]

definition readHTTPHeaders :: "ext_env \<Rightarrow> folding \<Rightarrow> byte list \<Rightarrow> handshake \<Rightarrow> byte list option \<times> handshake" where
  "readHTTPHeaders e fc p hs = read_fields e fc False False p (hs\<lparr>m_headerFields := Map.empty\<rparr>)"

text \<open>\<open>String::split\<close> by a string, without empty entries.\<close>

function split_by :: "string \<Rightarrow> string \<Rightarrow> string \<Rightarrow> string list" where
  "split_by sep cur s =
     (case s of
        [] \<Rightarrow> if cur = [] then [] else [cur]
      | c # rest \<Rightarrow>
          if sep \<noteq> [] \<and> startsWith s sep then (if cur = [] then [] else [cur]) @ split_by sep [] (drop (length sep) s)
          else split_by sep (cur @ [c]) rest)"
  by pat_completeness auto
termination
  by (relation "measure (\<lambda>(sep, cur, s). length s)") auto

declare split_by.simps [simp del]

definition during :: "string \<Rightarrow> wtf_string" where
  "during s = of_latin1 (''Error during WebSocket handshake: '' @ s)"

definition mismatch :: "string \<Rightarrow> string \<Rightarrow> wtf_string \<Rightarrow> wtf_string" where
  "mismatch what client server = during (what @ '' mismatch: '' @ client @ '' != '') @ server"

definition quoted :: "string \<Rightarrow> string" where
  "quoted s = CHR 0x27 # s @ [CHR 0x27]"

definition missing_fields :: "folding \<Rightarrow> handshake \<Rightarrow> wtf_string option" where
  "missing_fields fc hs =
     (let missing = (\<lambda>name. during (quoted name @ '' header is missing'')) in
      if header_field fc ''upgrade'' hs = None then Some (missing ''Upgrade'')
      else if header_field fc ''connection'' hs = None then Some (missing ''Connection'')
      else if m_useHixie76Protocol hs then
        (if header_field fc ''sec-websocket-origin'' hs = None then Some (missing ''Sec-WebSocket-Origin'')
         else if header_field fc ''sec-websocket-location'' hs = None then Some (missing ''Sec-WebSocket-Location'')
         else None)
      else if header_field fc ''sec-websocket-accept'' hs = None then Some (missing ''Sec-WebSocket-Accept'')
      else None)"

definition hixie_mismatch :: "folding \<Rightarrow> handshake \<Rightarrow> wtf_string option" where
  \<comment> \<open>a null String is not equal to the protocol, which is not empty here\<close>
  "hixie_mismatch fc hs =
     (let server_origin = header_field fc ''sec-websocket-origin'' hs;
          server_location = header_field fc ''sec-websocket-location'' hs;
          server_protocol = header_field fc ''sec-websocket-protocol'' hs in
      if server_origin \<noteq> Some (of_latin1 (hs_origin hs)) then
        Some (mismatch ''origin'' (hs_origin hs) (case server_origin of None \<Rightarrow> [] | Some s \<Rightarrow> s))
      else if server_location \<noteq> Some (of_latin1 (clientLocation hs)) then
        Some (mismatch ''location'' (clientLocation hs) (case server_location of None \<Rightarrow> [] | Some s \<Rightarrow> s))
      else if m_clientProtocol hs \<noteq> [] \<and> server_protocol \<noteq> Some (of_latin1 (m_clientProtocol hs)) then
        Some (mismatch ''protocol'' (m_clientProtocol hs) (case server_protocol of None \<Rightarrow> [] | Some s \<Rightarrow> s))
      else None)"

definition hybi_mismatch :: "folding \<Rightarrow> handshake \<Rightarrow> wtf_string option" where
  "hybi_mismatch fc hs =
     (if header_field fc ''sec-websocket-accept'' hs \<noteq> Some (String_latin1 (m_expectedAccept hs)) then
        Some (during ''Sec-WebSocket-Accept mismatch'')
      else
        case header_field fc ''sec-websocket-protocol'' hs of
          None \<Rightarrow> None
        | Some server_protocol \<Rightarrow>
            if m_clientProtocol hs = []
               \<or> server_protocol \<notin> set (map of_latin1 (split_by '', '' [] (m_clientProtocol hs)))
            then Some (during ''Sec-WebSocket-Protocol mismatch'') else None)"

text \<open>None is \<open>true\<close>, otherwise the reason that is stored before \<open>false\<close> is returned.\<close>

definition checkResponseHeaders :: "folding \<Rightarrow> handshake \<Rightarrow> wtf_string option" where
  "checkResponseHeaders fc hs =
     (case missing_fields fc hs of Some r \<Rightarrow> Some r | None \<Rightarrow>
        if \<not> field_equals fc ''upgrade'' ''websocket'' hs
        then Some (during (quoted ''Upgrade'' @ '' header value is not '' @ quoted ''WebSocket''))
        else if \<not> field_equals fc ''connection'' ''upgrade'' hs
        then Some (during (quoted ''Connection'' @ '' header value is not '' @ quoted ''Upgrade''))
        else if m_useHixie76Protocol hs then hixie_mismatch fc hs
        else hybi_mismatch fc hs)"

fun strnstr :: "byte list \<Rightarrow> byte list \<Rightarrow> bool" where
  \<comment> \<open>found or not; it stops at a null byte and where the target no longer fits\<close>
  "strnstr target [] = False"
| "strnstr target (c # rest) =
     (if c = 0 \<or> length (c # rest) < length target then False
      else if take (length target) (c # rest) = target then True
      else strnstr target rest)"

definition header_end :: "byte list" where
  "header_end = [0x0D, 0x0A, 0x0D, 0x0A]"

text \<open>The result is the length that was consumed, None for -1. \<open>rest\<close> is the data from \<open>p\<close> on.\<close>

definition hixie_response :: "byte list \<Rightarrow> byte list \<Rightarrow> handshake \<Rightarrow> nat option \<times> handshake" where
  "hixie_response data rest hs =
     (let consumed = length data - length rest in
      if length rest < 16 then (None, hs\<lparr>m_mode := Incomplete\<rparr>)
      else
        let hs1 = hs\<lparr>m_challengeResponse := take 16 rest\<rparr> in
        (Some (consumed + 16),
         hs1\<lparr>m_mode := (if take 16 rest = m_hixie76ExpectedChallengeResponse hs then Connected else Failed)\<rparr>))"

definition read_headers :: "ext_env \<Rightarrow> folding \<Rightarrow> nat \<Rightarrow> byte list \<Rightarrow> handshake \<Rightarrow> nat option \<times> handshake" where
  \<comment> \<open>from \<open>readHTTPHeaders\<close> on\<close>
  "read_headers e fc lineLength data hs =
     (case readHTTPHeaders e fc (drop lineLength data) hs of
        (None, hs1) \<Rightarrow> (Some (length data), hs1\<lparr>m_mode := Failed\<rparr>)
      | (Some rest, hs1) \<Rightarrow>
          let consumed = length data - length rest in
          (case checkResponseHeaders fc hs1 of
             Some reason \<Rightarrow> (Some consumed, (hs_failed reason hs1)\<lparr>m_mode := Failed\<rparr>)
           | None \<Rightarrow>
               if \<not> m_useHixie76Protocol hs1 then (Some consumed, hs1\<lparr>m_mode := Connected\<rparr>)
               else hixie_response data rest hs1))"

definition readServerHandshake :: "ext_env \<Rightarrow> folding \<Rightarrow> byte list \<Rightarrow> handshake \<Rightarrow> nat option \<times> handshake" where
  "readServerHandshake e fc data hs0 =
     (case readStatusLine data of (lineLength, status, reason) \<Rightarrow>
        let hs = (case reason of None \<Rightarrow> hs0\<lparr>m_mode := Incomplete\<rparr> | Some r \<Rightarrow> hs_failed r (hs0\<lparr>m_mode := Incomplete\<rparr>)) in
        case lineLength of
          None \<Rightarrow> (None, hs)
        | Some n \<Rightarrow>
            (case status of
               None \<Rightarrow> (Some (length data), hs\<lparr>m_mode := Failed\<rparr>)
             | Some (code_value, status_text) \<Rightarrow>
                 let hs1 = hs\<lparr>hs_statusCode := code_value, hs_statusText := status_text\<rparr> in
                 if code_value \<noteq> 101 then
                   (Some (length data),
                    (hs_failed (of_latin1 (''Unexpected response code: '' @ dec_string code_value)) hs1)\<lparr>m_mode := Failed\<rparr>)
                 else if \<not> strnstr header_end data then (None, hs1\<lparr>m_mode := Incomplete\<rparr>)
                 else read_headers e fc n data (hs1\<lparr>m_mode := Normal\<rparr>)))"

section \<open>Printed fields\<close>

definition sent_line :: "byte list \<times> byte list \<Rightarrow> byte list" where
  "sent_line f = fst f @ [0x3A, 0x20] @ snd f @ [0x0D, 0x0A]"

definition plain :: "byte list \<Rightarrow> bool" where
  "plain l \<longleftrightarrow> 0 \<notin> set l \<and> 0x0D \<notin> set l \<and> 0x0A \<notin> set l"

definition field_ok :: "byte list \<times> byte list \<Rightarrow> wtf_string \<times> wtf_string \<Rightarrow> bool" where
  \<comment> \<open>the bytes can be sent as a field, and are the UTF-8 of the strings\<close>
  "field_ok f u \<longleftrightarrow> plain (fst f) \<and> 0x3A \<notin> set (fst f) \<and> plain (snd f) \<and> snd f \<noteq> [] \<and> hd (snd f) \<noteq> 0x20
     \<and> Vector_fromUTF8 (fst f) = Some (fst u) \<and> Vector_fromUTF8 (snd f) = Some (snd u)"

lemma header_name_append:
  "plain n \<Longrightarrow> 0x3A \<notin> set n \<Longrightarrow> header_name acc (n @ q) = header_name (acc @ n) q"
  by (induction n arbitrary: acc) (auto simp: plain_def)

lemma header_value_append: "plain v \<Longrightarrow> header_value n acc (v @ q) = header_value n (acc @ v) q"
  by (induction v arbitrary: acc) (auto simp: plain_def)

lemma parse_field_line:
  assumes "field_ok f u"
  shows "parseHTTPHeader (sent_line f @ q) = HeaderField (fst u) (snd u) (0x0A # q)"
proof -
  obtain n v where f: "f = (n, v)" by (cases f)
  have "parseHTTPHeader (sent_line f @ q) = header_name n (0x3A # 0x20 # v @ 0x0D # 0x0A # q)"
    using assms unfolding parseHTTPHeader_def sent_line_def f
    by (simp add: header_name_append [of n "[]", simplified] field_ok_def)
  also have "\<dots> = header_value n [] (v @ 0x0D # 0x0A # q)"
    using assms by (cases v) (simp_all add: f field_ok_def)
  also have "\<dots> = header_value n v (0x0D # 0x0A # q)"
    using assms by (simp add: header_value_append [of v n "[]", simplified] f field_ok_def)
  also have "\<dots> = HeaderField (fst u) (snd u) (0x0A # q)"
    using assms by (simp add: end_of_field_def f field_ok_def)
  finally show ?thesis .
qed

lemma parse_empty_line: "parseHTTPHeader (0x0D # 0x0A # q) = EmptyLine q"
  by (simp add: parseHTTPHeader_def)

definition add_all :: "folding \<Rightarrow> (wtf_string \<times> wtf_string) list \<Rightarrow> handshake \<Rightarrow> handshake" where
  "add_all fc us hs = foldl (\<lambda>hs (n, v). addHeaderField fc n v hs) hs us"

lemma add_all_fields:
  "distinct (map (\<lambda>u. map fc (fst u)) us) \<Longrightarrow> \<forall>u \<in> set us. m_headerFields hs (map fc (fst u)) = None \<Longrightarrow>
   add_all fc us hs = hs\<lparr>m_headerFields := m_headerFields hs ++ map_of (map (\<lambda>(n, v). (map fc n, v)) us)\<rparr>"
proof (induction us arbitrary: hs)
  case (Cons u us)
  define hs1 where "hs1 = hs\<lparr>m_headerFields := (m_headerFields hs)(map fc (fst u) \<mapsto> snd u)\<rparr>"
  have one: "add_all fc (u # us) hs = add_all fc us hs1"
    using Cons.prems(2) by (cases u) (simp add: add_all_def addHeaderField_def hs1_def)
  have fresh: "map fc (fst u) \<notin> dom (map_of (map (\<lambda>(n, v). (map fc n, v)) us))"
    using Cons.prems(1) by (auto simp: dom_map_of_conv_image_fst case_prod_beta image_iff)
  have "\<forall>w \<in> set us. m_headerFields hs1 (map fc (fst w)) = None"
    using Cons.prems by (auto simp: hs1_def) (metis fst_conv image_eqI)
  then have "add_all fc us hs1 = hs1\<lparr>m_headerFields := m_headerFields hs1 ++ map_of (map (\<lambda>(n, v). (map fc n, v)) us)\<rparr>"
    using Cons.prems(1) by (intro Cons.IH) simp_all
  moreover have "m_headerFields hs1 ++ map_of (map (\<lambda>(n, v). (map fc n, v)) us) =
      m_headerFields hs ++ map_of (map (\<lambda>(n, v). (map fc n, v)) (u # us))"
    using fresh by (cases u) (auto simp: hs1_def map_add_def fun_eq_iff dom_def split: option.splits)
  moreover have "hs1\<lparr>m_headerFields := m\<rparr> = hs\<lparr>m_headerFields := m\<rparr>" for m by (simp add: hs1_def)
  ultimately show ?case by (simp only: one)
qed (simp add: add_all_def)

lemma read_fields_prefix:
  assumes "list_all2 field_ok fs us"
    and "\<forall>u \<in> set us. \<not> field_is fc ''sec-websocket-extensions'' (fst u)"
    and "distinct (map (\<lambda>u. map fc (fst u)) us)"
    and "accept \<longrightarrow> (\<forall>u \<in> set us. \<not> field_is fc ''Sec-WebSocket-Accept'' (fst u))"
    and "proto \<longrightarrow> (\<forall>u \<in> set us. \<not> field_is fc ''Sec-WebSocket-Protocol'' (fst u))"
  shows "\<exists>accept' proto'. read_fields e fc accept proto (concat (map sent_line fs) @ q) hs =
    read_fields e fc accept' proto' q (add_all fc us hs)"
  using assms
proof (induction fs us arbitrary: accept proto hs rule: list_all2_induct)
  case Nil
  show ?case by (auto simp: add_all_def)
next
  case (Cons f fs u us)
  let ?q = "concat (map sent_line fs) @ q"
  have ne: "sent_line f \<noteq> []" by (simp add: sent_line_def)
  define accept1 where "accept1 \<longleftrightarrow> accept \<or> field_is fc ''Sec-WebSocket-Accept'' (fst u)"
  define proto1 where "proto1 \<longleftrightarrow> proto \<or> (\<not> field_is fc ''Sec-WebSocket-Accept'' (fst u) \<and> field_is fc ''Sec-WebSocket-Protocol'' (fst u))"
  have rf: "read_field e fc (fst u) (snd u) accept proto hs = (True, accept1, proto1, addHeaderField fc (fst u) (snd u) hs)"
    using Cons.prems by (auto simp: read_field_def accept1_def proto1_def)
  have same: "w \<in> set us \<Longrightarrow> field_is fc s (fst u) \<Longrightarrow> field_is fc s (fst w) \<Longrightarrow> False" for w s
    using Cons.prems(2) by (force simp: field_is_def)
  have "read_fields e fc accept proto (concat (map sent_line (f # fs)) @ q) hs =
    read_fields e fc accept1 proto1 ?q (addHeaderField fc (fst u) (snd u) hs)"
    using ne parse_field_line [OF Cons.hyps(1), of ?q] rf by (subst read_fields.simps) simp
  moreover have "\<exists>accept' proto'. read_fields e fc accept1 proto1 ?q (addHeaderField fc (fst u) (snd u) hs) =
      read_fields e fc accept' proto' q (add_all fc us (addHeaderField fc (fst u) (snd u) hs))"
    using Cons.prems same by (intro Cons.IH) (auto simp: accept1_def proto1_def)
  ultimately show ?case by (cases u) (simp add: add_all_def)
qed

lemma read_printed_fields:
  assumes "list_all2 field_ok fs us"
    and "\<forall>u \<in> set us. \<not> field_is fc ''sec-websocket-extensions'' (fst u)"
    and "distinct (map (\<lambda>u. map fc (fst u)) us)"
  shows "read_fields e fc False False (concat (map sent_line fs) @ 0x0D # 0x0A # rest) hs = (Some rest, add_all fc us hs)"
proof -
  from read_fields_prefix [OF assms, of False False e "0x0D # 0x0A # rest" hs]
  obtain accept' proto' where "read_fields e fc False False (concat (map sent_line fs) @ 0x0D # 0x0A # rest) hs =
    read_fields e fc accept' proto' (0x0D # 0x0A # rest) (add_all fc us hs)" by blast
  then show ?thesis by (simp add: read_fields.simps parse_empty_line)
qed

section \<open>The end of the header\<close>

declare strnstr.simps(2) [simp del]

lemma strnstr_short: "length p < length target \<Longrightarrow> \<not> strnstr target p"
  by (induction target p rule: strnstr.induct) (auto simp: strnstr.simps(2))

lemma strnstr_skip: "0 \<notin> set l \<Longrightarrow> 0x0D \<notin> set l \<Longrightarrow> strnstr header_end (l @ p) = strnstr header_end p"
proof (induction l)
  case (Cons c l)
  show ?case
  proof (cases "length (c # l @ p) < 4")
    case True
    then have "\<not> strnstr header_end (c # l @ p)" "\<not> strnstr header_end p" by (intro strnstr_short; simp add: header_end_def)+
    then show ?thesis by simp
  next
    case False
    then show ?thesis using Cons by (simp add: header_end_def strnstr.simps(2))
  qed
qed simp

lemma strnstr_line_end:
  "strnstr header_end (0x0D # 0x0A # p) \<longleftrightarrow> take 2 p = [0x0D, 0x0A] \<or> strnstr header_end p"
proof (cases "length p < 2")
  case True
  then have "\<not> strnstr header_end (0x0D # 0x0A # p)" "\<not> strnstr header_end p" by (intro strnstr_short; simp add: header_end_def)+
  then show ?thesis using True by auto
next
  case False
  have lf: "strnstr header_end (0x0A # p) = strnstr header_end p" using strnstr_skip [of "[0x0A]" p] by simp
  obtain a b p' where p: "p = a # b # p'" using False by (cases p; cases "tl p") auto
  have "strnstr header_end (0x0D # 0x0A # p) \<longleftrightarrow> (a = 0x0D \<and> b = 0x0A) \<or> strnstr header_end (0x0A # p)"
    by (subst strnstr.simps(2)) (auto simp: p header_end_def)
  then show ?thesis unfolding lf by (simp add: p)
qed

definition CRLF_bytes :: "byte list" where
  "CRLF_bytes = [0x0D, 0x0A]"

definition lines_bytes :: "byte list list \<Rightarrow> byte list" where
  "lines_bytes ls = concat (map (\<lambda>l. l @ CRLF_bytes) ls) @ CRLF_bytes"

lemma found_at_end:
  "\<forall>l \<in> set ls. plain l \<Longrightarrow> ls \<noteq> [] \<Longrightarrow> strnstr header_end (lines_bytes ls @ rest)"
proof (induction ls)
  case (Cons l ls)
  have "strnstr header_end (lines_bytes (l # ls) @ rest) = strnstr header_end (0x0D # 0x0A # lines_bytes ls @ rest)"
    using Cons.prems strnstr_skip [of l] by (simp add: lines_bytes_def plain_def CRLF_bytes_def)
  then show ?case
    using Cons by (cases "ls = []") (simp_all add: strnstr_line_end, simp add: lines_bytes_def CRLF_bytes_def)
qed simp

lemma not_found_before:
  assumes "\<forall>l \<in> set ls. plain l \<and> l \<noteq> []" "i < length (lines_bytes ls)"
  shows "\<not> strnstr header_end (take i (lines_bytes ls))"
  using assms
proof (induction ls arbitrary: i)
  case Nil
  then have "length (take i (lines_bytes [])) < 4" by (simp add: lines_bytes_def CRLF_bytes_def)
  then show ?case by (intro strnstr_short) (simp add: header_end_def)
next
  case (Cons l ls)
  have l: "0 \<notin> set l" "0x0D \<notin> set l" using Cons.prems(1) by (simp_all add: plain_def)
  have eq: "lines_bytes (l # ls) = l @ 0x0D # 0x0A # lines_bytes ls" by (simp add: lines_bytes_def CRLF_bytes_def)
  show ?case
  proof (cases "i < length l + 2")
    case True
    have "\<not> strnstr header_end (take (i - length l) (0x0D # 0x0A # lines_bytes ls))"
      using True by (intro strnstr_short) (simp add: header_end_def)
    moreover have "0 \<notin> set (take i l)" "0x0D \<notin> set (take i l)" using l by (auto dest: in_set_takeD)
    ultimately show ?thesis unfolding eq take_append by (simp only: strnstr_skip not_False_eq_True)
  next
    case False
    define j where "j = i - length l - 2"
    have i: "i = length l + Suc (Suc j)" "j < length (lines_bytes ls)"
      using False Cons.prems(2) unfolding eq by (simp_all add: j_def)
    have "take 2 (take j (lines_bytes ls)) \<noteq> [0x0D, 0x0A]"
    proof (cases ls)
      case Nil
      then show ?thesis using i(2) by (auto simp: lines_bytes_def CRLF_bytes_def dest: arg_cong [where f = length])
    next
      case (Cons k ks)
      then obtain c k' where "k = c # k'" "c \<noteq> 0x0D" using Cons.prems(1) by (cases k) (auto simp: plain_def)
      then show ?thesis using Cons by (cases j) (auto simp: lines_bytes_def)
    qed
    moreover have "\<not> strnstr header_end (take j (lines_bytes ls))" using Cons.IH [OF _ i(2)] Cons.prems(1) by simp
    ultimately show ?thesis unfolding eq i(1) using strnstr_skip [OF l] by (simp add: strnstr_line_end)
  qed
qed

section \<open>The status line\<close>

definition version_101 :: "byte list" where
  "version_101 = chars ''HTTP/1.1 101 ''"

lemma version_bytes: "version_101 = [0x48, 0x54, 0x54, 0x50, 0x2F, 0x31, 0x2E, 0x31, 0x20, 0x31, 0x30, 0x31, 0x20]"
  by (simp add: version_101_def chars_def)

lemma scan_text:
  "plain t \<Longrightarrow> scan_status pos (Some a) (Some b) (t @ q) = scan_status (pos + length t) (Some a) (Some b) q"
  by (induction t arbitrary: pos) (auto simp: plain_def)

lemma scan_101: "plain t \<Longrightarrow> scan_status 0 None None (version_101 @ t @ 0x0D # 0x0A # q) = ScanLine (length t + 14) (Some 8) (Some 12)"
  by (simp add: version_bytes scan_text)

lemma read_status_101:
  assumes "plain t" "length t < 1000"
  shows "readStatusLine (version_101 @ t @ 0x0D # 0x0A # q) = (Some (length t + 15), Some (101, String_latin1 t), None)"
proof -
  define data where "data = version_101 @ t @ 0x0D # 0x0A # q"
  have cr: "data ! (length t + 13) = 0x0D" by (simp add: data_def version_bytes nth_append)
  have cs: "take 3 (drop 9 data) = [0x31, 0x30, 0x31]" and tx: "take (length t) (drop 13 data) = t"
    by (simp_all add: data_def version_bytes)
  have "status_code data 8 12 (length t + 14) = (Some (length t + 15), Some (101, String_latin1 t), None)"
    using cs tx by (simp add: status_code_def Let_def digit_byte_def code_def)
  then show ?thesis
    using assms cr [unfolded add.commute [of "length t"]] unfolding data_def [symmetric] readStatusLine_def
    by (simp add: data_def [symmetric] scan_101 [OF assms(1), of q, folded data_def])
qed

section \<open>A whole answer\<close>

definition server_answer :: "byte list \<Rightarrow> (byte list \<times> byte list) list \<Rightarrow> byte list" where
  "server_answer t fs = version_101 @ t @ CRLF_bytes @ concat (map sent_line fs) @ CRLF_bytes"

lemma answer_lines: "server_answer t fs = lines_bytes ((version_101 @ t) # map (\<lambda>f. fst f @ [0x3A, 0x20] @ snd f) fs)"
proof -
  have "concat (map sent_line fs) = concat (map (\<lambda>l. l @ CRLF_bytes) (map (\<lambda>f. fst f @ [0x3A, 0x20] @ snd f) fs))"
    by (induction fs) (simp_all add: sent_line_def CRLF_bytes_def)
  then show ?thesis by (simp add: server_answer_def lines_bytes_def)
qed

lemma answer_plain:
  assumes "plain t" "list_all2 field_ok fs us"
  shows "\<forall>l \<in> set ((version_101 @ t) # map (\<lambda>f. fst f @ [0x3A, 0x20] @ snd f) fs). plain l \<and> l \<noteq> []"
proof -
  have "plain (fst f @ [0x3A, 0x20] @ snd f)" if "f \<in> set fs" for f
  proof -
    obtain u where "field_ok f u" using assms(2) \<open>f \<in> set fs\<close> by (metis list_all2_conv_all_nth in_set_conv_nth)
    then show ?thesis by (auto simp: field_ok_def plain_def)
  qed
  then show ?thesis using assms(1) by (auto simp: plain_def version_bytes)
qed

definition status_bytes :: "byte list \<Rightarrow> byte list" where
  "status_bytes t = version_101 @ t @ CRLF_bytes"

lemma length_status_bytes: "length (status_bytes t) = length t + 15"
  by (simp add: status_bytes_def version_bytes CRLF_bytes_def)

lemma status_bytes_append: "status_bytes t @ q = version_101 @ t @ 0x0D # 0x0A # q"
  by (simp add: status_bytes_def CRLF_bytes_def)

lemma answer_status: "server_answer t fs = status_bytes t @ concat (map sent_line fs) @ CRLF_bytes"
  by (simp add: server_answer_def status_bytes_def)

lemma scan_more: "0 \<notin> set l \<Longrightarrow> 0x0A \<notin> set l \<Longrightarrow> scan_status pos a b l = ScanMore"
  by (induction l arbitrary: pos a b) auto

lemma answer_incomplete:
  assumes "plain t" "length t < 1000" "list_all2 field_ok fs us" "i < length (server_answer t fs)"
  shows "\<exists>hs'. readServerHandshake e fc (take i (server_answer t fs)) hs = (None, hs') \<and> m_mode hs' = Incomplete"
proof (cases "i < length t + 15")
  case True
  define line where "line = version_101 @ t @ [0x0D]"
  have "take i (server_answer t fs) = take i line"
    using True by (simp add: server_answer_def line_def CRLF_bytes_def version_bytes take_Cons' split: if_splits)
  moreover have "0 \<notin> set (take i line)" "0x0A \<notin> set (take i line)"
    using assms(1) by (auto simp: line_def plain_def version_bytes dest!: in_set_takeD)
  ultimately have "readStatusLine (take i (server_answer t fs)) = (None, None, None)"
    by (simp add: readStatusLine_def scan_more)
  then show ?thesis by (simp add: readServerHandshake_def)
next
  case False
  define q where "q = take (i - (length t + 15)) (concat (map sent_line fs) @ CRLF_bytes)"
  have data: "take i (server_answer t fs) = version_101 @ t @ 0x0D # 0x0A # q"
    using False unfolding status_bytes_append [symmetric] answer_status q_def take_append length_status_bytes
    by (simp add: length_status_bytes)
  have "\<not> strnstr header_end (take i (server_answer t fs))"
    using assms answer_plain [OF assms(1,3)] unfolding answer_lines by (intro not_found_before) simp_all
  then show ?thesis
    unfolding readServerHandshake_def data read_status_101 [OF assms(1,2)] by simp
qed

text \<open>What the fields of an answer are to be for a client of RFC 6455, \<open>m\<close> the fields by their folded names.\<close>

definition accepted :: "folding \<Rightarrow> handshake \<Rightarrow> header_fields \<Rightarrow> bool" where
  "accepted fc hs m \<longleftrightarrow>
     (\<exists>s. m (map fc (of_latin1 ''upgrade'')) = Some s \<and> field_is fc ''websocket'' s)
     \<and> (\<exists>s. m (map fc (of_latin1 ''connection'')) = Some s \<and> field_is fc ''upgrade'' s)
     \<and> m (map fc (of_latin1 ''sec-websocket-accept'')) = Some (String_latin1 (m_expectedAccept hs))
     \<and> (case m (map fc (of_latin1 ''sec-websocket-protocol'')) of None \<Rightarrow> True
        | Some p \<Rightarrow> p \<in> set (map of_latin1 (split_by '', '' [] (m_clientProtocol hs))))"

lemma split_by_empty [simp]: "split_by sep [] [] = []"
  by (simp add: split_by.simps)

lemma check_accepted:
  "\<not> m_useHixie76Protocol hs \<Longrightarrow> checkResponseHeaders fc hs = None \<longleftrightarrow> accepted fc hs (m_headerFields hs)"
  by (auto simp: checkResponseHeaders_def missing_fields_def hybi_mismatch_def accepted_def field_equals_def header_field_def Let_def
      split: option.splits)

lemma accepted_cong:
  "m_expectedAccept hs' = m_expectedAccept hs \<Longrightarrow> m_clientProtocol hs' = m_clientProtocol hs \<Longrightarrow> accepted fc hs' m = accepted fc hs m"
  by (auto simp: accepted_def split: option.splits)

definition answer_fields :: "folding \<Rightarrow> (wtf_string \<times> wtf_string) list \<Rightarrow> header_fields" where
  "answer_fields fc us = map_of (map (\<lambda>(n, v). (map fc n, v)) us)"

lemma answer_read:
  assumes "plain t" "length t < 1000" "list_all2 field_ok fs us"
    and "\<forall>u \<in> set us. \<not> field_is fc ''sec-websocket-extensions'' (fst u)"
    and "distinct (map (\<lambda>u. map fc (fst u)) us)" "\<not> m_useHixie76Protocol hs"
  shows "\<exists>hs'. readServerHandshake e fc (server_answer t fs @ rest) hs = (Some (length (server_answer t fs)), hs')
    \<and> m_mode hs' = (if accepted fc hs (answer_fields fc us) then Connected else Failed)
    \<and> m_headerFields hs' = answer_fields fc us"
proof -
  define data where "data = server_answer t fs @ rest"
  define hs1 where "hs1 = hs\<lparr>hs_statusCode := 101, hs_statusText := String_latin1 t, m_mode := Normal\<rparr>"
  define hs2 where "hs2 = hs1\<lparr>m_headerFields := answer_fields fc us\<rparr>"
  have shape: "data = version_101 @ t @ 0x0D # 0x0A # (concat (map sent_line fs) @ 0x0D # 0x0A # rest)"
    by (simp add: data_def server_answer_def CRLF_bytes_def)
  have status: "readStatusLine data = (Some (length t + 15), Some (101, String_latin1 t), None)"
    unfolding shape by (rule read_status_101 [OF assms(1,2)])
  have found: "strnstr header_end data"
    unfolding data_def answer_lines using answer_plain [OF assms(1,3)] by (intro found_at_end) simp_all
  have "drop (length t + 15) data = concat (map sent_line fs) @ 0x0D # 0x0A # rest"
    unfolding shape status_bytes_append [symmetric] by (simp add: length_status_bytes)
  then have fields: "readHTTPHeaders e fc (drop (length t + 15) data) hs1 = (Some rest, hs2)"
    using read_printed_fields [OF assms(3,4,5), of e rest "hs1\<lparr>m_headerFields := Map.empty\<rparr>"]
      add_all_fields [OF assms(5), of "hs1\<lparr>m_headerFields := Map.empty\<rparr>"]
    by (simp add: readHTTPHeaders_def hs2_def answer_fields_def)
  have run: "readServerHandshake e fc data hs = read_headers e fc (length t + 15) data hs1"
    using found unfolding readServerHandshake_def status by (simp add: hs1_def)
  have chk: "checkResponseHeaders fc hs2 = None \<longleftrightarrow> accepted fc hs (answer_fields fc us)"
    using check_accepted [of hs2 fc] assms(6) accepted_cong [of hs2 hs] by (simp add: hs2_def hs1_def)
  have n: "length data - length rest = length (server_answer t fs)" by (simp add: data_def)
  have hy: "\<not> m_useHixie76Protocol hs2" using assms(6) by (simp add: hs2_def hs1_def)
  show ?thesis
  proof (cases "checkResponseHeaders fc hs2")
    case None
    then show ?thesis using chk n hy unfolding data_def [symmetric] run read_headers_def fields by (simp add: hs2_def)
  next
    case (Some reason)
    then show ?thesis using chk n hy unfolding data_def [symmetric] run read_headers_def fields
      by (simp add: hs2_def hs_failed_def)
  qed
qed


section \<open>Any answer\<close>

definition same_session :: "handshake \<Rightarrow> handshake \<Rightarrow> bool" where
  "same_session hs hs' \<longleftrightarrow> m_expectedAccept hs' = m_expectedAccept hs \<and> m_clientProtocol hs' = m_clientProtocol hs
     \<and> m_useHixie76Protocol hs' = m_useHixie76Protocol hs \<and> hs_statusCode hs' = hs_statusCode hs"

lemma same_session_simps [simp]:
  "same_session hs hs" "same_session hs (hs_failed r hs') = same_session hs hs'"
  "same_session hs (hs'\<lparr>m_extensionDispatcher := d\<rparr>) = same_session hs hs'"
  "same_session hs (addHeaderField fc n v hs') = same_session hs hs'"
  "same_session (hs\<lparr>m_headerFields := m\<rparr>) hs' = same_session hs hs'" "same_session hs (hs'\<lparr>m_mode := k\<rparr>) = same_session hs hs'"
  by (simp_all add: same_session_def hs_failed_def addHeaderField_def)

lemma read_field_keeps: "read_field e fc n v a p hs = (ok, a', p', hs') \<Longrightarrow> same_session hs0 hs' = same_session hs0 hs"
  by (auto simp: read_field_def Let_def split: if_splits prod.splits)

lemma end_of_field_not_empty: "end_of_field name v p \<noteq> EmptyLine rest"
  by (auto simp: end_of_field_def split: option.splits)

lemma header_value_not_empty: "header_value name v p \<noteq> EmptyLine rest"
  by (induction name v p rule: header_value.induct) (simp_all add: end_of_field_not_empty)

lemma empty_line_shorter: "header_name name p = EmptyLine rest \<Longrightarrow> length rest \<le> length p"
  by (induction name p rule: header_name.induct) (auto simp: header_value_not_empty end_of_field_not_empty split: if_splits list.splits)

lemma read_fields_keeps:
  "read_fields e fc a p q hs = (r, hs') \<Longrightarrow>
   same_session hs0 hs' = same_session hs0 hs \<and> (\<forall>rest. r = Some rest \<longrightarrow> length rest \<le> length q)"
proof (induction e fc a p q hs arbitrary: r hs' rule: read_fields.induct)
  case (1 e fc a p q hs)
  show ?case
  proof (cases "q = []")
    case True
    then show ?thesis using "1.prems" by (auto simp: read_fields.simps)
  next
    case False
    show ?thesis
    proof (cases "parseHTTPHeader q")
      case (HeaderFailure reason)
      then show ?thesis using "1.prems" False by (auto simp: read_fields.simps [of e fc a p q])
    next
      case (EmptyLine rest)
      then show ?thesis using "1.prems" False empty_line_shorter [of "[]" q rest]
        by (auto simp: read_fields.simps [of e fc a p q] parseHTTPHeader_def)
    next
      case (HeaderField n v q1)
      have q1: "length q1 \<le> length q" using HeaderField header_name_shorter by (auto simp: parseHTTPHeader_def)
      obtain ok a1 p1 hs1 where rf: "read_field e fc n v a p hs = (ok, a1, p1, hs1)" by (cases "read_field e fc n v a p hs")
      show ?thesis
      proof (cases ok)
        case True
        then have "read_fields e fc a1 p1 (drop 1 q1) hs1 = (r, hs')"
          using "1.prems" False HeaderField rf by (simp add: read_fields.simps [of e fc a p q])
        from "1.IH" [OF False HeaderField rf [symmetric] refl refl True this] read_field_keeps [OF rf] q1
        show ?thesis by auto
      next
        case ok: False
        then show ?thesis using "1.prems" False HeaderField rf read_field_keeps [OF rf]
          by (auto simp: read_fields.simps [of e fc a p q])
      qed
    qed
  qed
qed

text \<open>
  Whatever a server sends, \<open>readServerHandshake\<close> never claims to have consumed more than there is: the
  length it returns is one that \<open>skipBuffer\<close> can drop.
\<close>

theorem handshake_consumes_data:
  assumes "readServerHandshake e fc data hs = (Some n, hs')"
  shows "n \<le> length data"
proof -
  have fields: "n \<le> length data" if "read_headers e fc k data hs1 = (Some n, hs')" for k hs1
  proof (cases "readHTTPHeaders e fc (drop k data) hs1")
    case (Pair r hs2)
    show ?thesis
    proof (cases r)
      case None
      then show ?thesis using that Pair by (simp add: read_headers_def)
    next
      case (Some rest)
      then have "length rest \<le> length data"
        using Pair read_fields_keeps [of e fc False False "drop k data" "hs1\<lparr>m_headerFields := Map.empty\<rparr>" r hs2 hs1]
        by (auto simp: readHTTPHeaders_def)
      then show ?thesis using that Pair Some
        by (auto simp: read_headers_def hixie_response_def Let_def split: option.splits if_splits)
    qed
  qed
  show ?thesis using assms fields
    by (auto simp: readServerHandshake_def Let_def split: prod.splits option.splits if_splits)
qed

text \<open>A connection is only established by an answer that is accepted.\<close>

lemma connected_accepted:
  assumes "readServerHandshake e fc data hs = (r, hs')" "m_mode hs' = Connected" "\<not> m_useHixie76Protocol hs"
  shows "hs_statusCode hs' = 101 \<and> accepted fc hs (m_headerFields hs')"
proof -
  have fields: "hs_statusCode hs' = hs_statusCode hs1 \<and> accepted fc hs1 (m_headerFields hs')"
    if rh: "read_headers e fc k data hs1 = (r, hs')" and plain_hs: "\<not> m_useHixie76Protocol hs1" for k hs1
  proof -
    obtain q hs2 where rd: "readHTTPHeaders e fc (drop k data) hs1 = (q, hs2)" by fastforce
    have same: "same_session hs1 hs2"
      using rd read_fields_keeps [of e fc False False "drop k data" "hs1\<lparr>m_headerFields := Map.empty\<rparr>" q hs2 "hs1\<lparr>m_headerFields := Map.empty\<rparr>"]
      by (simp add: readHTTPHeaders_def)
    then have hy: "\<not> m_useHixie76Protocol hs2" using plain_hs by (simp add: same_session_def)
    obtain rest where q: "q = Some rest" using rh rd assms(2) by (cases q) (auto simp: read_headers_def)
    have chk: "checkResponseHeaders fc hs2 = None"
    proof (rule ccontr)
      assume "checkResponseHeaders fc hs2 \<noteq> None"
      then show False using rh rd q assms(2) by (auto simp: read_headers_def Let_def)
    qed
    then have hs': "hs' = hs2\<lparr>m_mode := Connected\<rparr>" using rh rd q hy by (simp add: read_headers_def)
    have "accepted fc hs2 (m_headerFields hs2)" using chk check_accepted [OF hy] by blast
    then show ?thesis using same accepted_cong [of hs2 hs1] by (simp add: hs' same_session_def)
  qed
  obtain l st reason where sl: "readStatusLine data = (l, st, reason)" by (cases "readStatusLine data")
  define hs0 where "hs0 = (case reason of None \<Rightarrow> hs\<lparr>m_mode := Incomplete\<rparr> | Some r \<Rightarrow> hs_failed r (hs\<lparr>m_mode := Incomplete\<rparr>))"
  obtain n c t where parts: "l = Some n" "st = Some (c, t)" "c = 101" "strnstr header_end data"
    using assms(1,2) unfolding readServerHandshake_def sl hs0_def [symmetric]
    by (auto simp: Let_def hs_failed_def hs0_def split: option.splits prod.splits if_splits)
  define hs1 where "hs1 = hs0\<lparr>hs_statusCode := 101, hs_statusText := t, m_mode := Normal\<rparr>"
  have "read_headers e fc n data hs1 = (r, hs')"
    using assms(1) parts unfolding readServerHandshake_def sl by (simp add: Let_def hs0_def hs1_def)
  moreover have s: "m_expectedAccept hs1 = m_expectedAccept hs" "m_clientProtocol hs1 = m_clientProtocol hs"
      "m_useHixie76Protocol hs1 = m_useHixie76Protocol hs" "hs_statusCode hs1 = 101"
    by (simp_all add: hs1_def hs0_def hs_failed_def split: option.splits)
  ultimately show ?thesis using fields [of n hs1] accepted_cong [OF s(1,2)] assms(3) by simp
qed

lemma length_sha1: "length (sha1_reference msg) = 20"
  by (simp add: sha1_reference_def be32_def split: prod.splits)

lemma unat_u16: "unat (ucast (b :: byte) :: uchar) = unat b"
proof -
  have "uint (ucast b :: uchar) = uint b" by (rule uint_up_ucast) (simp add: is_up)
  then show ?thesis by (simp only: unat_eq_nat_uint)
qed

lemma unat_latin1: "map unat (String_latin1 t) = map unat t"
  by (simp only: String_latin1_def map_map o_def unat_u16)

lemma hash_of_key:
  "fst (computeHash (sha1_addBytes (sha1_addBytes sha1_reset (ascii key)) webSocketKeyGUID)) = sha1_reference (ascii key @ webSocketKeyGUID)"
  using sha1.digest_of_chunks [of "[ascii key, webSocketKeyGUID]"] by simp

lemma expected_accept:
  "base64Decode white FailOnInvalidCharacter (map unat (String_latin1 (getExpectedWebSocketAccept key))) =
   Some (Some (sha1_reference (ascii key @ webSocketKeyGUID)))"
proof -
  define digest where "digest = sha1_reference (ascii key @ webSocketKeyGUID)"
  have d: "fst (computeHash (sha1_addBytes (sha1_addBytes sha1_reset (ascii key)) webSocketKeyGUID)) = digest"
    by (simp only: hash_of_key digest_def)
  have n: "length digest = 20" by (simp only: digest_def length_sha1)
  have len: "digest \<noteq> []" "length digest \<le> maxInputBufferSize"
    using n by (auto simp: maxInputBufferSize_def)
  obtain lf where t: "\<not> lf" "base64Encode False digest = Some (base64_text lf 0 digest @ replicate (padding_count (length digest)) 0x3D)"
    using encode_text [OF len, of False] by blast
  have key: "getExpectedWebSocketAccept key = base64_text lf 0 digest @ replicate (padding_count (length digest)) 0x3D"
    by (simp only: getExpectedWebSocketAccept_def Let_def d t(2) option.case)
  have "base64Decode white FailOnInvalidCharacter (map unat (getExpectedWebSocketAccept key)) = Some (Some digest)"
    unfolding key using t(1) len(1) by (intro decode_text) simp_all
  then show ?thesis by (simp only: unat_latin1 digest_def)
qed

text \<open>
  C20: whatever a server sends, and in however many fields, lines and extensions, a handshake of RFC 6455 only ends
  connected when the status code is 101, the fields are accepted, and \<open>Sec-WebSocket-Accept\<close> is the Base64 of the SHA-1 of
  the key of this handshake and the GUID of the protocol: a server that has not read the request cannot answer it.
\<close>

theorem connection_proves_key:
  assumes "WebSocketHandshake_new url protocol origin False rs values = Some hs"
    and "readServerHandshake e fc data ((handshake_reset hs)\<lparr>m_extensionDispatcher := d\<rparr>) = (r, hs')" "m_mode hs' = Connected"
  shows "hs_statusCode hs' = 101 \<and> accepted fc hs (m_headerFields hs') \<and>
    (\<exists>s. header_field fc ''sec-websocket-accept'' hs' = Some s \<and>
       base64Decode white FailOnInvalidCharacter (map unat s) =
         Some (Some (sha1_reference (ascii (m_secWebSocketKey hs) @ webSocketKeyGUID))))"
proof -
  define hs1 where "hs1 = (handshake_reset hs)\<lparr>m_extensionDispatcher := d\<rparr>"
  have hs: "\<not> m_useHixie76Protocol hs" "m_expectedAccept hs = getExpectedWebSocketAccept (m_secWebSocketKey hs)"
    using assms(1) by (auto simp: WebSocketHandshake_new_def Let_def)
  have s: "\<not> m_useHixie76Protocol hs1" "m_expectedAccept hs1 = m_expectedAccept hs" "m_clientProtocol hs1 = m_clientProtocol hs"
    using hs by (simp_all add: hs1_def handshake_reset_def)
  have c: "hs_statusCode hs' = 101 \<and> accepted fc hs (m_headerFields hs')"
    using connected_accepted [OF assms(2) [folded hs1_def] assms(3) s(1)] accepted_cong [OF s(2,3)] by simp
  then have "header_field fc ''sec-websocket-accept'' hs' = Some (String_latin1 (getExpectedWebSocketAccept (m_secWebSocketKey hs)))"
    using hs by (simp add: accepted_def header_field_def)
  then show ?thesis using c expected_accept by blast
qed

section \<open>A field without a value\<close>

text \<open>
  A header field with an empty value, which HTTP allows, ends the handshake: \<open>parseHTTPHeader\<close> keeps the value in a
  Vector that then has no buffer, \<open>String::fromUTF8\<close> of no buffer is the null String, and that is taken for invalid UTF-8.
\<close>

theorem empty_field_fails_handshake:
  assumes "plain t" "length t < 1000" "list_all2 field_ok fs us"
    and "\<forall>u \<in> set us. \<not> field_is fc ''sec-websocket-extensions'' (fst u)" "distinct (map (\<lambda>u. map fc (fst u)) us)"
    and "plain n" "0x3A \<notin> set n" "Vector_fromUTF8 n \<noteq> None"
    and "data = status_bytes t @ concat (map sent_line fs) @ n @ 0x3A # replicate k 0x20 @ CRLF_bytes @ rest"
    and "strnstr header_end data"
  shows "\<exists>hs'. readServerHandshake e fc data hs = (Some (length data), hs') \<and> m_mode hs' = Failed
    \<and> m_failureReason hs' = of_latin1 ''Invalid UTF-8 sequence in header value''"
proof -
  define q where "q = n @ 0x3A # replicate k 0x20 @ CRLF_bytes @ rest"
  have data: "data = version_101 @ t @ 0x0D # 0x0A # concat (map sent_line fs) @ q"
    using assms(9) by (simp add: status_bytes_append q_def)
  have spaces: "dropWhile (\<lambda>c. c = 0x20) (replicate k 0x20 @ 0x0D # 0x0A # rest) = (0x0D # 0x0A # rest :: byte list)" by (induction k) simp_all
  have "parseHTTPHeader q = header_value n [] (0x0D # 0x0A # rest)"
    using assms(6,7) spaces unfolding parseHTTPHeader_def q_def
    by (simp add: header_name_append [of n "[]", simplified] CRLF_bytes_def)
  also have "\<dots> = HeaderFailure (of_latin1 ''Invalid UTF-8 sequence in header value'')"
    using assms(8) by (auto simp: end_of_field_def Vector_fromUTF8_def [of "[]"])
  finally have p: "parseHTTPHeader q = HeaderFailure (of_latin1 ''Invalid UTF-8 sequence in header value'')" .
  have qne: "q \<noteq> []" by (simp add: q_def)
  define hs1 where "hs1 = hs\<lparr>hs_statusCode := 101, hs_statusText := String_latin1 t, m_mode := Normal\<rparr>"
  have dr: "drop (length t + 15) data = concat (map sent_line fs) @ q"
    unfolding data status_bytes_append [symmetric] by (simp add: length_status_bytes)
  from read_fields_prefix [OF assms(3-5), of False False e q "hs1\<lparr>m_headerFields := Map.empty\<rparr>"] p qne
  have rd: "readHTTPHeaders e fc (drop (length t + 15) data) hs1 =
      (None, hs_failed (of_latin1 ''Invalid UTF-8 sequence in header value'') (add_all fc us (hs1\<lparr>m_headerFields := Map.empty\<rparr>)))"
    unfolding readHTTPHeaders_def dr by (auto simp: read_fields.simps [of _ _ _ _ q])
  have status: "readStatusLine data = (Some (length t + 15), Some (101, String_latin1 t), None)"
    unfolding data by (rule read_status_101 [OF assms(1,2)])
  have "readServerHandshake e fc data hs = read_headers e fc (length t + 15) data hs1"
    using assms(10) unfolding readServerHandshake_def status by (simp add: hs1_def)
  then show ?thesis by (simp add: read_headers_def rd hs_failed_def)
qed

section \<open>The right answer\<close>

lemma ascii_units:
  assumes "uint (b :: byte) < 0x80"
  shows "utf16_units True (uint b) = Some [ucast b] \<and> encode_char (uint b) = [b]"
proof -
  have "(ucast b :: uchar) = word_of_int (uint b)" by (rule ucast_eq)
  then show ?thesis using assms by (simp only: encode_char_1 [OF _ assms] uint_ge_0 word_of_int_uint utf16_units.simps) simp
qed

lemma ascii_fromUTF8:
  assumes "bs \<noteq> []" "\<forall>b \<in> set bs. uint b < 0x80"
  shows "Vector_fromUTF8 bs = Some (String_latin1 bs)"
proof -
  have "convertUTF8ToUTF16 True (length bs) bs = (conversionOK, [], map ucast bs)"
    using assms(2)
  proof (induction bs)
    case (Cons b bs)
    have sc: "scalar_value (uint b)" using Cons.prems by (simp add: scalar_value_def)
    from decode_append [OF sc, of "[ucast b]" "length (b # bs)" bs] ascii_units [of b] Cons show ?case by simp
  qed simp
  then show ?thesis using assms(1) by (simp add: Vector_fromUTF8_def String_fromUTF8_def String_latin1_def)
qed

lemma base64_text_chars:
  assumes "b \<in> set (base64_text False c data)" shows "is_base64_char (unat b)"
proof -
  have "set (base64_text False c data) \<subseteq> enc_char64 ` set (sextets data)"
    by (induction data arbitrary: c rule: sextets.induct) (auto simp: line_feed_def)
  then show ?thesis using assms enc_char(1) sextets_small by blast
qed

lemma base64_plain:
  assumes "b \<in> set (base64_text False c data @ replicate k 0x3D)"
  shows "43 \<le> unat b \<and> unat b < 128"
  using assms base64_text_chars [of b c data] by (auto simp: is_base64_char_def)

lemma encode_digest:
  "base64Encode False (sha1_reference msg) =
     Some (base64_text False 0 (sha1_reference msg) @ replicate (padding_count (length (sha1_reference msg))) 0x3D)"
proof -
  have "sha1_reference msg \<noteq> []" "length (sha1_reference msg) \<le> maxInputBufferSize"
    using length_sha1 [of msg] by (auto simp: maxInputBufferSize_def)
  from encode_text [OF this, of False] show ?thesis by auto
qed

definition folds_ascii :: "folding \<Rightarrow> bool" where
  \<comment> \<open>what \<open>foldCase\<close> of Unicode does on ASCII\<close>
  "folds_ascii fc \<longleftrightarrow> (\<forall>c < 0x80. fc c = (if 0x41 \<le> c \<and> c \<le> 0x5A then c + 0x20 else c))"

definition right_fields :: "byte list \<Rightarrow> (byte list \<times> byte list) list" where
  "right_fields v = [(chars ''Upgrade'', chars ''websocket''), (chars ''Connection'', chars ''Upgrade''),
     (chars ''Sec-WebSocket-Accept'', v)]"

definition latin1_fields :: "(byte list \<times> byte list) list \<Rightarrow> (wtf_string \<times> wtf_string) list" where
  "latin1_fields fs = map (\<lambda>(n, v). (String_latin1 n, String_latin1 v)) fs"

lemma right_fields_ok:
  assumes "base64Encode False (sha1_reference msg) = Some v"
  shows "list_all2 field_ok (right_fields v) (latin1_fields (right_fields v))"
proof -
  have v: "v = base64_text False 0 (sha1_reference msg) @ replicate (padding_count (length (sha1_reference msg))) 0x3D"
    using assms by (simp add: encode_digest)
  have "sha1_reference msg \<noteq> []" using length_sha1 [of msg] by auto
  then have "v \<noteq> []" using v by (cases "sha1_reference msg" rule: sextets.cases) simp_all
  have limits: "43 \<le> unat b \<and> unat b < 128" if "b \<in> set v" for b
    by (rule base64_plain [OF that [unfolded v]])
  have "uint b < 0x80" if "b \<in> set v" for b
  proof -
    have "int (unat b) < 0x80" using limits [OF that] by linarith
    then show ?thesis by (simp only: of_nat_unat)
  qed
  then have utf8: "Vector_fromUTF8 v = Some (String_latin1 v)" using \<open>v \<noteq> []\<close> by (intro ascii_fromUTF8) blast+
  have "hd v \<in> set v" using \<open>v \<noteq> []\<close> by (rule hd_in_set)
  then have "43 \<le> unat (hd v)" using limits by blast
  then have "hd v \<noteq> 0x20" by auto
  moreover have "plain v" using limits by (force simp: plain_def)
  moreover have "Vector_fromUTF8 (chars n) = Some (String_latin1 (chars n))"
    if "n \<in> {''Upgrade'', ''websocket'', ''Connection'', ''Sec-WebSocket-Accept''}" for n
    using that by (intro ascii_fromUTF8) (auto simp: chars_def)
  ultimately show ?thesis using utf8 \<open>v \<noteq> []\<close>
    by (simp add: right_fields_def latin1_fields_def field_ok_def) (simp add: plain_def chars_def)
qed

lemma right_names:
  assumes "folds_ascii fc"
  shows "\<forall>u \<in> set (latin1_fields (right_fields v)). \<not> field_is fc ''sec-websocket-extensions'' (fst u)"
    and "distinct (map (\<lambda>u. map fc (fst u)) (latin1_fields (right_fields v)))"
    and "accepted fc (hs\<lparr>m_expectedAccept := v\<rparr>) (answer_fields fc (latin1_fields (right_fields v)))"
proof -
  have f: "fc c = (if 0x41 \<le> c \<and> c \<le> 0x5A then c + 0x20 else c)" if "c < 0x80" for c
    using assms that by (simp add: folds_ascii_def)
  show "\<forall>u \<in> set (latin1_fields (right_fields v)). \<not> field_is fc ''sec-websocket-extensions'' (fst u)"
    and "distinct (map (\<lambda>u. map fc (fst u)) (latin1_fields (right_fields v)))"
    and "accepted fc (hs\<lparr>m_expectedAccept := v\<rparr>) (answer_fields fc (latin1_fields (right_fields v)))"
    by (simp_all add: latin1_fields_def right_fields_def field_is_def String_latin1_def chars_def of_latin1_def f accepted_def answer_fields_def)
qed

lemma expected_is_digest:
  assumes "WebSocketHandshake_new url protocol origin False rs values = Some hs"
    and "base64Encode False (sha1_reference (ascii (m_secWebSocketKey hs) @ webSocketKeyGUID)) = Some v"
  shows "\<not> m_useHixie76Protocol hs" "m_expectedAccept hs = v"
proof -
  have "\<not> m_useHixie76Protocol hs \<and> m_expectedAccept hs = getExpectedWebSocketAccept (m_secWebSocketKey hs)"
    using assms(1) by (auto simp: WebSocketHandshake_new_def Let_def)
  then show "\<not> m_useHixie76Protocol hs" "m_expectedAccept hs = v"
    using assms(2) by (simp_all add: getExpectedWebSocketAccept_def hash_of_key Let_def)
qed

lemma right_answer_read:
  assumes "base64Encode False (sha1_reference msg) = Some v" "folds_ascii fc" "plain t" "length t < 1000"
    and "\<not> m_useHixie76Protocol hs" "m_expectedAccept hs = v"
  shows "\<exists>hs'. readServerHandshake e fc (server_answer t (right_fields v) @ frames) hs =
      (Some (length (server_answer t (right_fields v))), hs') \<and> m_mode hs' = Connected"
proof -
  have "accepted fc hs (answer_fields fc (latin1_fields (right_fields v)))"
    using right_names(3) [OF assms(2), of v hs] assms(6) accepted_cong [of "hs\<lparr>m_expectedAccept := v\<rparr>" hs] by simp
  with answer_read [OF assms(3,4) right_fields_ok [OF assms(1)] right_names(1,2) [OF assms(2)] assms(5), of e frames]
  show ?thesis by auto
qed

text \<open>
  C21: a server that answers the key of an RFC 6455 handshake rightly is connected: for whatever key, reason phrase and
  frames behind the header, the fields \<open>Upgrade\<close>, \<open>Connection\<close> and \<open>Sec-WebSocket-Accept\<close> with the Base64 of the SHA-1
  of the key and the GUID are accepted, and what is consumed is the header and nothing of the frames.
\<close>

theorem right_answer_connects:
  assumes "WebSocketHandshake_new url protocol origin False rs values = Some hs" "folds_ascii fc" "plain t" "length t < 1000"
    and "base64Encode False (sha1_reference (ascii (m_secWebSocketKey hs) @ webSocketKeyGUID)) = Some v"
  shows "\<exists>hs'. readServerHandshake e fc (server_answer t (right_fields v) @ frames) hs =
      (Some (length (server_answer t (right_fields v))), hs') \<and> m_mode hs' = Connected"
  using right_answer_read [OF assms(5,2-4)] expected_is_digest [OF assms(1,5)] by blast

section \<open>Samples\<close>

definition sample_fold :: folding where
  "sample_fold c = (if 0x41 \<le> c \<and> c \<le> 0x5A then c + 0x20 else c)"

definition sample_ext :: ext_env where
  "sample_ext = \<lparr>zlib_ok = \<lambda>w t. True, hash_order = \<lambda>ps. ps, wide_space = \<lambda>c. False\<rparr>"

definition sample_text :: "byte list" where
  "sample_text = chars ''Switching Protocols''"

lemma sample_facts: "folds_ascii sample_fold" "plain sample_text" "length sample_text < 1000"
  by (simp_all add: folds_ascii_def sample_fold_def sample_text_def plain_def chars_def)

lemma sample_handshake:
  obtains hs v where "WebSocketHandshake_new (invalidate ''ws://a/'') [] ''http://b'' False [] (replicate 16 0) = Some hs"
    "base64Encode False (sha1_reference (ascii (m_secWebSocketKey hs) @ webSocketKeyGUID)) = Some v"
proof -
  obtain hs where hs: "WebSocketHandshake_new (invalidate ''ws://a/'') [] ''http://b'' False [] (replicate 16 0) = Some hs"
    by (simp add: WebSocketHandshake_new_def Let_def)
  show thesis by (rule that [OF hs encode_digest])
qed


theorem right_answer_connects_witness:
  "\<exists>hs v hs'. WebSocketHandshake_new (invalidate ''ws://a/'') [] ''http://b'' False [] (replicate 16 0) = Some hs
     \<and> readServerHandshake sample_ext sample_fold (server_answer sample_text (right_fields v) @ [0x81, 0]) hs =
         (Some (length (server_answer sample_text (right_fields v))), hs')
     \<and> m_mode hs' = Connected"
proof -
  obtain hs v where s: "WebSocketHandshake_new (invalidate ''ws://a/'') [] ''http://b'' False [] (replicate 16 0) = Some hs"
    "base64Encode False (sha1_reference (ascii (m_secWebSocketKey hs) @ webSocketKeyGUID)) = Some v"
    by (rule sample_handshake)
  show ?thesis using s(1) right_answer_connects [OF s(1) sample_facts s(2), of sample_ext "[0x81, 0]"] by blast
qed

theorem connection_proves_key_witness:
  "\<exists>hs data r hs'. WebSocketHandshake_new (invalidate ''ws://a/'') [] ''http://b'' False [] (replicate 16 0) = Some hs
     \<and> readServerHandshake sample_ext sample_fold data ((handshake_reset hs)\<lparr>m_extensionDispatcher := dispatcher_new\<rparr>) = (r, hs')
     \<and> m_mode hs' = Connected \<and> hs_statusCode hs' = 101
     \<and> (\<exists>s. header_field sample_fold ''sec-websocket-accept'' hs' = Some s
          \<and> base64Decode (\<lambda>c. False) FailOnInvalidCharacter (map unat s) =
              Some (Some (sha1_reference (ascii (m_secWebSocketKey hs) @ webSocketKeyGUID))))"
proof -
  obtain hs v where s: "WebSocketHandshake_new (invalidate ''ws://a/'') [] ''http://b'' False [] (replicate 16 0) = Some hs"
    "base64Encode False (sha1_reference (ascii (m_secWebSocketKey hs) @ webSocketKeyGUID)) = Some v"
    by (rule sample_handshake)
  define hs1 where "hs1 = (handshake_reset hs)\<lparr>m_extensionDispatcher := dispatcher_new\<rparr>"
  have "\<not> m_useHixie76Protocol hs1" "m_expectedAccept hs1 = v"
    using expected_is_digest [OF s] by (simp_all add: hs1_def handshake_reset_def)
  from right_answer_read [OF s(2) sample_facts this, of sample_ext "[]"]
  obtain r hs' where a: "readServerHandshake sample_ext sample_fold (server_answer sample_text (right_fields v) @ []) hs1 = (r, hs')"
    "m_mode hs' = Connected" by blast
  show ?thesis
    using s(1) a connection_proves_key [OF s(1) a [unfolded hs1_def], of "\<lambda>c. False"] unfolding hs1_def by blast
qed

theorem empty_field_fails_handshake_witness:
  "\<exists>hs'. readServerHandshake sample_ext sample_fold
      (status_bytes sample_text @ chars ''Server'' @ 0x3A # CRLF_bytes @ CRLF_bytes)
      (the (WebSocketHandshake_new (invalidate ''ws://a/'') [] ''http://b'' False [] (replicate 16 0))) =
        (Some (length (status_bytes sample_text @ chars ''Server'' @ 0x3A # CRLF_bytes @ CRLF_bytes)), hs')
    \<and> m_mode hs' = Failed"
proof -
  have n: "plain (chars ''Server'')" "0x3A \<notin> set (chars ''Server'')" by (simp_all add: plain_def chars_def)
  have u: "Vector_fromUTF8 (chars ''Server'') \<noteq> None" using ascii_fromUTF8 [of "chars ''Server''"] by (simp add: chars_def)
  have f: "strnstr header_end (status_bytes sample_text @ chars ''Server'' @ 0x3A # CRLF_bytes @ CRLF_bytes)" by code_simp
  show ?thesis
    using empty_field_fails_handshake [OF sample_facts(2,3), of "[]" "[]" sample_fold "chars ''Server''"
      "status_bytes sample_text @ chars ''Server'' @ 0x3A # CRLF_bytes @ CRLF_bytes" 0 "CRLF_bytes" sample_ext] n u f by auto
qed

section \<open>Keys that a server can read\<close>

definition not_read :: "char \<Rightarrow> bool" where
  \<comment> \<open>neither a digit nor a space: what a server skips in a key\<close>
  "not_read c \<longleftrightarrow> \<not> isASCIIDigit c \<and> c \<noteq> CHR '' ''"

definition key_spaces :: "string \<Rightarrow> nat" where
  "key_spaces key = length (List.filter (\<lambda>c. c = CHR '' '') key)"

lemma code_digit: "d < 10 \<Longrightarrow> code (char_of (48 + d :: nat)) = 48 + int d"
proof -
  have "code c = int (of_char c)" for c by (simp only: code_def of_nat_of_char)
  then show "d < 10 \<Longrightarrow> code (char_of (48 + d)) = 48 + int d" by simp
qed

lemma digit_shape: "d < 10 \<Longrightarrow> isASCIIDigit (char_of (48 + d :: nat)) \<and> char_of (48 + d) \<noteq> CHR '' ''"
  by (auto simp: isASCIIDigit_def code_digit dest: arg_cong [where f = "of_char :: char \<Rightarrow> nat"])

lemma digits_value_append: "digits_value a (s @ t) = digits_value (digits_value a s) t"
  by (induction s arbitrary: a) simp_all

lemma dec_digits_value: "digits_value 0 (dec_digits n) = int n"
proof (induction n rule: dec_digits.induct)
  case (1 n)
  show ?case
  proof (cases "n < 10")
    case True
    then show ?thesis by (simp add: dec_digits.simps [of n] code_digit)
  next
    case False
    have "10 * int (n div 10) + int (n mod 10) = int n" by presburger
    then show ?thesis using 1 False by (simp add: dec_digits.simps [of n] code_digit digits_value_append)
  qed
qed

lemma dec_digits_shape: "list_all (\<lambda>c. isASCIIDigit c \<and> c \<noteq> CHR '' '') (dec_digits n) \<and> dec_digits n \<noteq> []"
proof (induction n rule: dec_digits.induct)
  case (1 n)
  then show ?case using digit_shape [of n] digit_shape [of "n mod 10"]
    by (cases "n < 10") (simp_all add: dec_digits.simps [of n])
qed

lemma dec_digits_length: "n < 10 ^ Suc k \<Longrightarrow> length (dec_digits n) \<le> Suc k"
proof (induction k arbitrary: n)
  case (Suc k)
  then have "n div 10 < 10 ^ Suc k" by (simp add: less_mult_imp_div_less)
  then show ?case using Suc.IH [of "n div 10"] by (simp add: dec_digits.simps [of n])
qed (simp add: dec_digits.simps)

lemma draw_below_less: "draw_below m rs = Some (v, rs') \<Longrightarrow> v < m"
  by (induction m rs rule: draw_below.induct) (auto split: if_splits)

lemma random_less: "randomNumberLessThan n rs = Some (v, rs') \<Longrightarrow> n \<noteq> 0 \<Longrightarrow> n \<noteq> 0xFFFFFFFF \<Longrightarrow> v < n"
  by (auto simp: randomNumberLessThan_def word_gt_0 intro!: word_mod_less_divisor split: if_splits)

lemma filter_insert: "\<not> P c \<Longrightarrow> List.filter P (str_insert c pos s) = List.filter P s"
  by (simp add: str_insert_def) (metis append_take_drop_id filter_append)

lemma length_insert [simp]: "length (str_insert c pos s) = Suc (length s)"
  by (simp add: str_insert_def)

lemma random_chars_not_read: "list_all not_read randomCharacterInSecWebSocketKey" "length randomCharacterInSecWebSocketKey = 84"
  by code_simp+

lemma insert_random_chars_keeps:
  "insert_random_chars i s rs = Some (s', rs') \<Longrightarrow>
   List.filter isASCIIDigit s' = List.filter isASCIIDigit s \<and> List.filter (\<lambda>c. c = CHR '' '') s' = List.filter (\<lambda>c. c = CHR '' '') s
   \<and> length s' = length s + i"
proof (induction i s rs rule: insert_random_chars.induct)
  case (2 i s rs)
  obtain pos rs1 chpos rs2 where r: "randomNumberLessThan (of_nat (length s) + 1) rs = Some (pos, rs1)"
      "randomNumberLessThan (of_nat (length randomCharacterInSecWebSocketKey)) rs1 = Some (chpos, rs2)"
    and rec: "insert_random_chars i (str_insert (randomCharacterInSecWebSocketKey ! unat chpos) (unat pos) s) rs2 = Some (s', rs')"
    using "2.prems" by (auto simp: bind_eq_Some_conv)
  have "chpos < 84" using random_less [OF r(2)] random_chars_not_read(2) by simp
  then have "unat chpos < 84" by (simp add: word_less_nat_alt)
  then have "not_read (randomCharacterInSecWebSocketKey ! unat chpos)"
    using random_chars_not_read by (auto simp: list_all_length)
  then show ?case using "2.IH" [OF r(1) refl r(2) refl rec] by (simp add: filter_insert not_read_def)
qed simp

lemma insert_inside:
  assumes "0 < pos" "pos < length s"
  shows "hd (str_insert c pos s) = hd s \<and> last (str_insert c pos s) = last s"
  using assms by (cases s) (auto simp: str_insert_def take_Cons' drop_Cons')

lemma insert_spaces_keeps:
  "insert_spaces i s rs = Some (s', rs') \<Longrightarrow> 2 \<le> length s \<Longrightarrow> length s + i < 1000 \<Longrightarrow>
   List.filter isASCIIDigit s' = List.filter isASCIIDigit s
   \<and> length (List.filter (\<lambda>c. c = CHR '' '') s') = length (List.filter (\<lambda>c. c = CHR '' '') s) + i
   \<and> hd s' = hd s \<and> last s' = last s"
proof (induction i s rs rule: insert_spaces.induct)
  case (2 i s rs)
  obtain pos rs1 where r: "randomNumberLessThan (of_nat (length s) - 1) rs = Some (pos, rs1)"
    and rec: "insert_spaces i (str_insert (CHR '' '') (unat (pos + 1)) s) rs1 = Some (s', rs')"
    using "2.prems"(1) by (auto simp: bind_eq_Some_conv)
  have n: "unat (of_nat (length s) - 1 :: u32) = length s - 1"
    using "2.prems"(2,3) by (simp add: unat_sub unat_of_nat take_bit_nat_eq_self word_le_nat_alt)
  then have "of_nat (length s) - 1 \<noteq> (0 :: u32)" "of_nat (length s) - 1 \<noteq> (0xFFFFFFFF :: u32)"
    using "2.prems"(2,3) by (auto dest: arg_cong [where f = unat])
  then have "unat pos < length s - 1" using random_less [OF r] n by (simp add: word_less_nat_alt)
  moreover then have "unat (pos + 1) = unat pos + 1" using "2.prems"(3) by (simp add: unat_word_ariths take_bit_nat_eq_self)
  ultimately have ins: "hd (str_insert (CHR '' '') (unat (pos + 1)) s) = hd s"
      "last (str_insert (CHR '' '') (unat (pos + 1)) s) = last s"
    using insert_inside [of "unat (pos + 1)" s] by simp_all
  have sp: "length (List.filter (\<lambda>c. c = CHR '' '') (str_insert (CHR '' '') p s)) = Suc (length (List.filter (\<lambda>c. c = CHR '' '') s))" for p
    by (simp add: str_insert_def) (metis append_take_drop_id filter_append length_append)
  show ?case using "2.IH" [OF r refl rec] "2.prems"(2,3) ins sp by (simp add: filter_insert isASCIIDigit_def code_def)
qed simp

lemma padded_number:
  assumes le: "m \<le> 4294967295" and d: "1 \<le> d" "d \<le> 12" and n: "1 \<le> n \<and> n \<le> 12"
    and s: "insert_random_chars n (dec_digits m) rs = Some (s, rs1)" and key: "insert_spaces d s rs1 = Some (key, rs2)"
  shows "digits_value 0 (List.filter isASCIIDigit key) = int m \<and> key_spaces key = d
    \<and> hd key \<noteq> CHR '' '' \<and> last key \<noteq> CHR '' ''"
proof -
  define ds where "ds = dec_digits m"
  have "m < 10 ^ Suc 9" using le by simp
  then have short: "length ds \<le> Suc 9" unfolding ds_def by (rule dec_digits_length)
  have shape: "List.filter isASCIIDigit ds = ds" "List.filter (\<lambda>c. c = CHR '' '') ds = []" "ds \<noteq> []"
    using dec_digits_shape [of m] by (auto simp: ds_def list_all_iff filter_id_conv filter_empty_conv)
  have ks: "List.filter isASCIIDigit s = ds" "List.filter (\<lambda>c. c = CHR '' '') s = []" "length s = length ds + n"
    using insert_random_chars_keeps [OF s] shape unfolding ds_def [symmetric] by simp_all
  have "1 \<le> length ds" using shape(3) by (simp add: Suc_le_eq)
  then have len: "2 \<le> length s" "length s + d < 1000" using ks(3) n short d by linarith+
  from insert_spaces_keeps [OF key len] ks
  have k: "List.filter isASCIIDigit key = ds" "key_spaces key = d" "hd key = hd s" "last key = last s"
    by (simp_all add: key_spaces_def)
  have "s \<noteq> []" using len(1) by auto
  then have "hd s \<noteq> CHR '' ''" "last s \<noteq> CHR '' ''" using ks(2) hd_in_set last_in_set by (metis (mono_tags) filter_empty_conv)+
  then show ?thesis using k by (simp add: ds_def dec_digits_value)
qed

text \<open>
  C31: whatever the random numbers, a server of hixie-76 can read the number out of a key: its digits are the number times
  the count of its spaces, in 32 bits without wrap-around, there are 1 to 12 spaces, and none of them is at
  an end of the key, where a server or a proxy may trim it.
\<close>

theorem hixie_key_readable:
  assumes "generateHixie76SecWebSocketKey rs = Some (number, key, rs')"
  shows "digits_value 0 (List.filter isASCIIDigit key) = int (unat number) * int (key_spaces key)
    \<and> 1 \<le> key_spaces key \<and> key_spaces key \<le> 12 \<and> hd key \<noteq> CHR '' '' \<and> last key \<noteq> CHR '' ''"
proof -
  obtain r rs1 rs2 r2 rs3 s rs4 where
      r: "randomNumberLessThan 12 rs = Some (r, rs1)"
    and n: "randomNumberLessThan (4294967295 div (r + 1)) rs1 = Some (number, rs2)"
    and r2: "randomNumberLessThan 12 rs2 = Some (r2, rs3)"
    and s: "insert_random_chars (unat (r2 + 1)) (dec_digits (unat (number * (r + 1)))) rs3 = Some (s, rs4)"
    and key: "insert_spaces (unat (r + 1)) s rs4 = Some (key, rs')"
    using assms(1) unfolding generateHixie76SecWebSocketKey_def by (auto simp: bind_eq_Some_conv Let_def)
  have few: "1 \<le> unat (x + 1) \<and> unat (x + 1) \<le> 12" if "x < 12" for x :: u32
    using that by (simp add: word_less_nat_alt unat_word_ariths take_bit_nat_eq_self)
  note rr = few [OF random_less [OF r]] few [OF random_less [OF r2]]
  define d where "d = unat (r + 1)"
  have d: "1 \<le> d" "d \<le> 12" using rr(1) by (simp_all add: d_def)
  have u: "unat (4294967295 div (r + 1)) = 4294967295 div d" by (simp add: unat_div d_def)
  have "unat number \<le> 4294967295 div d"
  proof (cases "4294967295 div (r + 1) = (0xFFFFFFFF :: u32)")
    case True
    then have "4294967295 div d = 4294967295" using u by simp
    moreover have "unat number < 2 ^ LENGTH(32)" by (rule unsigned_less)
    ultimately show ?thesis by simp
  next
    case False
    have "4294967295 div d \<noteq> 0" using d by (simp add: div_eq_0_iff)
    then have "4294967295 div (r + 1) \<noteq> 0" using u by auto
    then show ?thesis using random_less [OF n _ False] u by (simp add: word_less_nat_alt)
  qed
  then have le: "unat number * d \<le> 4294967295" using d(1) by (simp add: less_eq_div_iff_mult_less_eq)
  have "unat (number * (r + 1)) = unat number * d mod 2 ^ LENGTH(32)"
    unfolding d_def by (rule unat_word_ariths(2))
  moreover have "unat number * d mod 2 ^ LENGTH(32) = unat number * d" by (rule mod_less) (use le in simp)
  ultimately have prod: "unat (number * (r + 1)) = unat number * d" by (rule trans)
  from padded_number [OF le d rr(2) s [unfolded prod] key [folded d_def]] d show ?thesis by simp
qed

lemma hixie_key_readable_witness:
  "\<exists>key. generateHixie76SecWebSocketKey [2, 1000, 1, 3, 7, 0, 80, 4, 2, 9] = Some (1000, key, [])
     \<and> digits_value 0 (List.filter isASCIIDigit key) = 3000 \<and> key_spaces key = 3"
proof -
  have k: "generateHixie76SecWebSocketKey [2, 1000, 1, 3, 7, 0, 80, 4, 2, 9] = Some (1000, CHR 0x7B # ''30  0( 0'', [])"
    by code_simp
  have "key_spaces (CHR 0x7B # ''30  0( 0'') = 3" by code_simp
  then show ?thesis using k hixie_key_readable [OF k] by simp
qed

end
