(* ===== verification/Spec2Isabelle.thy ===== *)
theory Spec2Isabelle
  imports UTF8 MD5 SharedBuffer WTFString KURL URLResolve ProxyFilter AuthJar CachedResource HTTPCache JobQueue CacheManager
    HTTPResponse ResponseCallbacks TransferEnd RequestBody Cookies SocketStream SocketData WebSocketFrame WebSocketExtension
    WebSocketHandshake SHA1 Base64
begin

text \<open>
  A verification of the network layer of the browser: the code the WKC port adds below WebKit to load
  resources, and the parts of WTF and WebCore it stands on.

  \<^bold>\<open>The program.\<close> A page asks for a resource with a \<open>ResourceHandle\<close>, a job. \<open>ResourceHandleManager::add\<close>
  (\<open>src/WKC/WebCore/platform/network/WKC/ResourceHandleManagerWKC.cpp\<close>) either finds a fresh entry in
  the disk cache and queues the job for the read timer, or queues it for the network, where it waits
  for the application's permission (harmful-site filter), for the proxy rules and for a free
  connection; the download timer starts, runs and finishes transfers. A finished response is handed
  to \<open>addHTTPCache\<close>, which updates the entry of its URL or makes a new one, evicting others when the
  limits ask for it; a write timer stores entries on disk when the network is idle and, at the end,
  the FAT file that describes them. A restarted browser reads the FAT file back. A WebSocket has a
  \<open>SocketStreamHandle\<close> of its own, which the manager counts against a limit and whose timer connects, sends
  and receives through libcurl.

  \<^bold>\<open>Theories and the code they model.\<close>
  \<^item> \<open>Prelude\<close>, \<open>Double\<close>: word, list and option lemmas shared by all; the IEEE values of the header dates
    and ages with their comparisons and the encoding used on disk.
  \<^item> \<open>UTF8\<close>: \<open>WTF/wtf/unicode/UTF8.cpp\<close> and \<open>String::utf8\<close>, \<open>String::fromUTF8\<close>; buffers are explicit, so
    an overrun would be the error result.
  \<^item> \<open>Block_Hash\<close>, \<open>MD5\<close>, \<open>SHA1\<close>: \<open>WTF/wtf/MD5.cpp\<close>, with the 32-bit counters and their carry, and
    \<open>WTF/wtf/SHA1.cpp\<close>. \<open>Block_Hash\<close> is the locale of a digest fed in pieces; both classes are interpretations of it.
  \<^item> \<open>Base64\<close>: \<open>WebCore/platform/text/Base64.cpp\<close>, the encoder into a buffer of the length computed beforehand and
    the decoder that converts in place.
  \<^item> \<open>SharedBuffer\<close>: \<open>WebCore/platform/SharedBuffer.cpp\<close>, contiguous vector plus 4 KiB segments.
  \<^item> \<open>WTFString\<close>: the string operations the network layer calls.
  \<^item> \<open>KURL\<close>: \<open>WebCore/platform/KURL.cpp\<close>, \<open>KURL::parse\<close> with the changes of this port, and the accessors.
  \<^item> \<open>URLResolve\<close>: \<open>KURL::init\<close>, which resolves a reference against a base, and the setters. The locale
    \<open>dot_removal\<close> is what a walk over a path that removes dot segments has to do; both walks of the code,
    the one that copies in place and the one that merges, are interpretations of it.
  \<^item> \<open>ProxyFilter\<close>: the class \<open>ProxyFilter\<close> of the manager, which decides who bypasses the proxy.
  \<^item> \<open>AuthJar\<close>: \<open>AuthenticationJarWKC.cpp\<close>, the passwords of web servers and proxies.
  \<^item> \<open>CachedResource\<close>, \<open>HTTPCache\<close>: \<open>HTTPCacheWKC.cpp\<close>. A cache entry with its freshness rules, its record
    in the FAT file and its body file; the cache with its map, list, totals, eviction and files. Entries
    are objects in a store from addresses, so that the map, the list and the queue of the
    manager can share them. The file functions of the platform are the record \<open>file_peer\<close>; what the
    round trips need of them is the predicate \<open>storing_peer\<close>, and \<open>mem_peer\<close> is a file system for which it holds.
  \<^item> \<open>JobQueue\<close>, \<open>CacheManager\<close>: the manager itself: queues, permission, start and end of jobs, reference
    counts; reading from and writing to the cache by timers, and the directives of a page. libcurl, the
    frame loader and the application are parameters of the operations.
  \<^item> \<open>HTTPResponse\<close>: \<open>WebCore/platform/network/ResourceResponseBase.cpp\<close> and \<open>HTTPParsers.cpp\<close>, the header fields of a
    response with the directives, dates and media types read from them. The locale \<open>header_store\<close> is what fields looked up
    without regard to case promise.
  \<^item> \<open>ResponseCallbacks\<close>: \<open>headerCallback\<close> and \<open>writeCallback\<close> of the manager, through which libcurl reports a response, with
    redirections. A job has here, beside its record in \<open>JobQueue\<close>, the rest of its \<open>ResourceHandleInternal\<close>.
  \<^item> \<open>TransferEnd\<close>: what \<open>_downloadTimerCallback\<close> does with a finished transfer: challenges and the answers to them
    (\<open>ResourceHandleWKC.cpp\<close>), redirections taken up, the cache, success and failure.
  \<^item> \<open>RequestBody\<close>: \<open>FormDataStreamWKC.cpp\<close>, \<open>readCallback\<close> and \<open>setupMethod\<close> with its callers.
  \<^item> \<open>Cookies\<close>: \<open>CookieJarWKC.cpp\<close> and the cookie functions of the manager.
  \<^item> \<open>SocketStream\<close>, \<open>SocketData\<close>: \<open>SocketStreamHandleBase.cpp\<close>, \<open>SocketStreamHandleWKC.cpp\<close> and the limit of
    connections in the manager. A handle is a record in a store; libcurl and the socket peer are the record
    \<open>sock_env\<close>, the client (in the program \<open>WebSocketChannel\<close>) the record \<open>client\<close> of its callbacks, which may call the handles again.
  \<^item> \<open>WebSocketFrame\<close>: \<open>WebCore/Modules/websockets/WebSocketFrame.cpp\<close>, frames read from and written to buffers.
  \<^item> \<open>WebSocketExtension\<close>: \<open>WebSocketExtensionDispatcher.cpp\<close> and the negotiation in \<open>WebSocketDeflateFramer.cpp\<close>.
  \<^item> \<open>WebSocketHandshake\<close>: \<open>WebSocketHandshake.cpp\<close> and \<open>parseHTTPHeader\<close> of \<open>HTTPParsers.cpp\<close>, the keys, the request and the
    answer of the server, in the version of RFC 6455 and in hixie-76.

  \<^bold>\<open>State and errors.\<close> An object is a record and an operation returns it changed; machine integers
  keep their width where the code computes with them. Where the source could read or write outside a
  buffer or not return, the operation has an option type and \<open>None\<close> stands for that; every theorem that an
  operation is safe or returns is stated as such. The loops that wait for a file function or for a socket
  are \<open>partial_function (option)\<close>, the others are total functions with a measure; no fuel is used.

  \<^bold>\<open>What is shown.\<close>
  \<^item> Data: UTF-16 to UTF-8 and back is the identity on well-formed text and stays in its buffer; MD5 is
    RFC 1321 and SHA-1 is RFC 3174 however the message is cut, both against a digest written from the RFC and not from the code; Base64 is decoded to what was encoded, inside its buffers; a shared buffer is a byte string; numbers are read as written.
  \<^item> URLs: the ranges of a parsed URL are in order and in its string, and the string is not longer than the buffer allocated
    for it (for URLs below 2 ^ 31 / 3 characters; the input is read as a C string and a read behind its end is not an error of
    the model). Dot segments are removed as RFC 3986 says, and \<open>init\<close> resolves a reference without a scheme as it says.
  \<^item> Passwords: one entry for a protection space and path; what is stored is found.
  \<^item> Proxy rules: the proxy is avoided for exactly the hosts that an entry of the setting stands for.
  \<^item> Cache: body files and the FAT file are read back as written, eviction frees what it reports and what is asked for, least recently used entries first.
  \<^item> Manager: over any interleaving of requests, timers, messages and changes of the cache's limits, switch and directory the job
    lists only hold living jobs, the cache only finds living entries under their own URL, and entries that wait to be written are
    not shared (rule induction over \<open>rhm_step\<close>, an interpretation of the locale \<open>invariant_system\<close>). Not among the steps are
    a client that cancels a cached load inside its callbacks, and a directory whose FAT file repeats a URL, in itself or of
    the entries that are there; the file functions store what they are given. The connection limit is kept; clearing an
    enabled cache leaves nothing.
  \<^item> Transfers: over any sequence of callbacks and messages of libcurl the references of the jobs stay in balance
    (\<open>net_step\<close>, a second interpretation of \<open>invariant_system\<close>); a body, other than one of a redirection or a challenge, reaches a
    client that accepts it complete and in order; header lines and cache directives mean what they say; a password that is
    entered for the first challenge of a web server is sent; the body of a request, with blobs of one piece, is announced with its
    length and sent as it is; saved cookies are restored.
  \<^item> WebSockets: frames are read inside the buffer, read back as written, and have one encoding; the window of
    an extension is one that zlib takes; the sockets stay within their limit over any sequence of operations (\<open>socket_step\<close>, a
    third interpretation of \<open>invariant_system\<close>); the data that is accepted is passed on in order;
    an answer to the opening handshake is understood in whatever pieces it arrives, the right one connects, and only one
    that proves to know the key does; a hixie-76 key can be read by its server.
  \<^item> Defects: where the code does not do what it means to, the theorem states what it does (the proxy rules for
    networks and trailing dots, the harmful-site filter, the total of the body sizes, waiting entries
    confused by case, a refused load that blocks its queue, a cancellation that releases twice,
    truncated body files, the copy of a shared buffer, passwords returned for another
    port or lost to another entry's state, X-Frame-Options joined over several responses, blobs of several pieces, the domain of a cookie shown to the application, a socket
    closed with data in its buffer, a send that would block, the loop after a lost connection, a
    header field without a value in a handshake).

  \<^bold>\<open>Not modelled.\<close> The options \<open>initializeHandle\<close> sets on a handle, synchronous jobs, and everything libcurl or the SSL library
  does; cookies listed for the inspector; \<open>WebSocketChannel\<close>, the compression of frames and the
  server sockets of the inspector; IDNA, \<open>setPath\<close> and \<open>setPort\<close> of \<open>KURL\<close>; the WKC API layer, the
  platform peers, and WebKit's layout, script and style engines, which are separate programs of their own.
\<close>

end
